(* ===== verification/Prelude.thy ===== *)
theory Prelude
  imports Main "HOL-Library.AList"
begin

text \<open>
  Shared ground of the development: Go's truncating integer division, Go strings as byte
  lists with the rune decoder and the white-space trimming of package strings, and
  association lists as Go maps. A Go string is a sequence of bytes, which is exactly HOL's
  \<open>string\<close> (a list of 8-bit characters), so \<open>len(s)\<close> is the length of the list.
\<close>

section \<open>Collections of facts\<close>

named_theorems model_defs \<open>definitions of operations that component proofs unfold\<close>
named_theorems inv_intros \<open>preservation of component invariants by single operations\<close>

section \<open>Integers\<close>

text \<open>Go's integer division truncates towards zero, Isabelle's rounds down.\<close>

definition go_div :: "int \<Rightarrow> int \<Rightarrow> int" where
  "go_div a b = (if (a < 0) = (b < 0) then \<bar>a\<bar> div \<bar>b\<bar> else - (\<bar>a\<bar> div \<bar>b\<bar>))"

lemma go_div_nonneg: "0 \<le> a \<Longrightarrow> 0 < b \<Longrightarrow> go_div a b = a div b"
  by (simp add: go_div_def)

lemma go_div_neg_le: "a < 0 \<Longrightarrow> 0 < b \<Longrightarrow> go_div a b \<le> 0"
  by (simp add: go_div_def pos_imp_zdiv_nonneg_iff)

lemma zdiv_le_dividend: "0 \<le> a \<Longrightarrow> 0 < b \<Longrightarrow> a div b \<le> (a::int)"
  by (metis div_by_1 zdiv_mono2 int_one_le_iff_zero_less zero_less_one)

lemma go_div_le: "0 \<le> a \<Longrightarrow> 0 < b \<Longrightarrow> go_div a b \<le> a"
  by (simp add: go_div_nonneg zdiv_le_dividend)

section \<open>Database statements\<close>

text \<open>
  What becomes of a statement: it runs, it is refused, or it runs and its reply is lost, so that
  the caller sees an error although the row has changed.
\<close>

datatype fault = Fine | Refused | ReplyLost

section \<open>Association lists as Go maps\<close>

text \<open>
  A Go map that the code iterates over, counts or clears is an association list with
  distinct keys: \<open>AList.update\<close> is the assignment \<open>m[k] = v\<close>, \<open>AList.delete\<close> is
  \<open>delete(m, k)\<close> and \<open>map_of\<close> the lookup. The order of the list is not observable
  through the operations of the model.
\<close>

definition keys_distinct :: "('k \<times> 'v) list \<Rightarrow> bool" where
  "keys_distinct al \<longleftrightarrow> distinct (map fst al)"

lemma keys_distinct_Nil [simp]: "keys_distinct []"
  by (simp add: keys_distinct_def)

lemma keys_distinct_update [simp]: "keys_distinct al \<Longrightarrow> keys_distinct (AList.update k v al)"
  by (simp add: keys_distinct_def distinct_update)

lemma keys_distinct_delete [simp]: "keys_distinct al \<Longrightarrow> keys_distinct (AList.delete k al)"
  by (simp add: keys_distinct_def distinct_delete)

lemma map_of_update_same [simp]: "map_of (AList.update k v al) k = Some v"
  by (simp add: update_conv')

lemma map_of_update_other [simp]: "k' \<noteq> k \<Longrightarrow> map_of (AList.update k v al) k' = map_of al k'"
  by (simp add: update_conv')

lemma map_of_delete_same [simp]: "map_of (AList.delete k al) k = None"
  by (simp add: delete_conv')

lemma set_keys_update [simp]: "fst ` set (AList.update k v al) = insert k (fst ` set al)"
  by (simp add: dom_update)

lemma set_keys_delete [simp]: "fst ` set (AList.delete k al) = fst ` set al - {k}"
  using delete_keys [of k al] by (metis set_map set_removeAll)

lemma set_delete_subset: "set (AList.delete k al) \<subseteq> set al"
  by (auto simp: AList.delete_eq)

lemma set_delete_iff: "x \<in> set (AList.delete k al) \<longleftrightarrow> x \<in> set al \<and> fst x \<noteq> k"
  by (cases x) (auto simp: AList.delete_eq)

lemma map_of_in_set: "map_of al k = Some v \<Longrightarrow> (k, v) \<in> set al"
  by (rule map_of_SomeD)

lemma keys_distinct_map_of: "keys_distinct al \<Longrightarrow> (k, v) \<in> set al \<Longrightarrow> map_of al k = Some v"
  by (simp add: keys_distinct_def)

lemma find_append:
  "List.find P (xs @ ys) = (case List.find P xs of Some x \<Rightarrow> Some x | None \<Rightarrow> List.find P ys)"
  by (induction xs) auto

lemma foldl_inv:
  "I a \<Longrightarrow> (\<And>a x. x \<in> set xs \<Longrightarrow> I a \<Longrightarrow> I (f a x)) \<Longrightarrow> I (foldl f a xs)"
  by (induction xs arbitrary: a) auto

section \<open>Strings\<close>

text \<open>
  \<open>decode_rune s\<close> is \<open>utf8.DecodeRuneInString\<close>: the first rune of a non-empty byte string
  and its width; an encoding that is not valid UTF-8 gives U+FFFD and width 1.
\<close>

definition rune_error :: nat where
  "rune_error = 0xFFFD"

definition is_cont :: "char \<Rightarrow> bool" where
  "is_cont c \<longleftrightarrow> (0x80 \<le> (of_char c :: nat) \<and> (of_char c :: nat) < 0xC0)"

fun decode_rune :: "string \<Rightarrow> nat \<times> nat" where
  "decode_rune [] = (rune_error, 0)"
| "decode_rune (c # cs) =
     (let b0 = of_char c :: nat in
      if b0 < 0x80 then (b0, 1)
      else if 0xC2 \<le> b0 \<and> b0 < 0xE0 then
        (case cs of
           c1 # _ \<Rightarrow> if is_cont c1 then ((b0 - 0xC0) * 64 + (of_char c1 - 0x80), 2)
                      else (rune_error, 1)
         | _ \<Rightarrow> (rune_error, 1))
      else if 0xE0 \<le> b0 \<and> b0 < 0xF0 then
        (case cs of
           c1 # c2 # _ \<Rightarrow>
             let r = (b0 - 0xE0) * 4096 + (of_char c1 - 0x80) * 64 + (of_char c2 - 0x80) in
             if is_cont c1 \<and> is_cont c2 \<and> 0x800 \<le> r \<and> \<not> (0xD800 \<le> r \<and> r \<le> 0xDFFF)
             then (r, 3) else (rune_error, 1)
         | _ \<Rightarrow> (rune_error, 1))
      else if 0xF0 \<le> b0 \<and> b0 < 0xF5 then
        (case cs of
           c1 # c2 # c3 # _ \<Rightarrow>
             let r = (b0 - 0xF0) * 262144 + (of_char c1 - 0x80) * 4096
                       + (of_char c2 - 0x80) * 64 + (of_char c3 - 0x80) in
             if is_cont c1 \<and> is_cont c2 \<and> is_cont c3 \<and> 0x10000 \<le> r \<and> r \<le> 0x10FFFF
             then (r, 4) else (rune_error, 1)
         | _ \<Rightarrow> (rune_error, 1))
      else (rune_error, 1))"

lemma decode_rune_width: "s \<noteq> [] \<Longrightarrow> 0 < snd (decode_rune s) \<and> snd (decode_rune s) \<le> length s"
  by (cases s) (auto simp: Let_def split: list.splits)

text \<open>
  The runes of a string with the bytes each one occupies, in order: what
  \<open>for _, r := range s\<close> visits.
\<close>

function rune_segs :: "string \<Rightarrow> (nat \<times> string) list" where
  "rune_segs s =
     (if s = [] then []
      else (let (r, w) = decode_rune s in (r, take w s) # rune_segs (drop w s)))"
  by pat_completeness auto
termination
proof (relation "measure length", goal_cases)
  case 1
  show ?case by simp
next
  case (2 s x r w)
  then show ?case
    using decode_rune_width [of s] by (cases "decode_rune s") auto
qed

declare rune_segs.simps [simp del]

definition runes :: "string \<Rightarrow> nat list" where
  "runes s = map fst (rune_segs s)"

lemma rune_segs_Nil [simp]: "rune_segs [] = []"
  by (simp add: rune_segs.simps)

lemma rune_segs_ascii:
  "(of_char c :: nat) < 0x80 \<Longrightarrow> rune_segs (c # cs) = (of_char c, [c]) # rune_segs cs"
  by (simp add: rune_segs.simps [of "c # cs"])

lemma concat_rune_segs: "concat (map snd (rune_segs s)) = s"
proof (induction s rule: rune_segs.induct)
  case (1 s)
  then show ?case
    by (subst rune_segs.simps) (auto split: prod.splits)
qed

text \<open>\<open>unicode.IsSpace\<close> and \<open>unicode.IsControl\<close>.\<close>

definition is_space :: "nat \<Rightarrow> bool" where
  "is_space r \<longleftrightarrow> (9 \<le> r \<and> r \<le> 13) \<or> r = 32 \<or> r = 0x85 \<or> r = 0xA0 \<or> r = 0x1680
     \<or> (0x2000 \<le> r \<and> r \<le> 0x200A) \<or> r = 0x2028 \<or> r = 0x2029 \<or> r = 0x202F \<or> r = 0x205F
     \<or> r = 0x3000"

definition is_control :: "nat \<Rightarrow> bool" where
  "is_control r \<longleftrightarrow> r < 0x20 \<or> (0x7F \<le> r \<and> r < 0xA0)"

text \<open>
  \<open>strings.TrimSpace\<close>: the runes that are white space are cut at both ends. UTF-8 is
  self-synchronising, so cutting segments of the forward decoding at the right end is what
  the backward scan of the library does.
\<close>

definition trim_space :: "string \<Rightarrow> string" where
  "trim_space s =
     concat (map snd (rev (dropWhile (\<lambda>x. is_space (fst x))
       (rev (dropWhile (\<lambda>x. is_space (fst x)) (rune_segs s))))))"

text \<open>A string of ASCII bytes with no white space at its ends is its own trimming.\<close>

definition ascii :: "string \<Rightarrow> bool" where
  "ascii s \<longleftrightarrow> list_all (\<lambda>c. (of_char c :: nat) < 0x80) s"

lemma ascii_simps [simp]:
  "ascii []" "ascii (c # s) \<longleftrightarrow> (of_char c :: nat) < 0x80 \<and> ascii s"
  by (simp_all add: ascii_def)

lemma rune_segs_ascii_map: "ascii s \<Longrightarrow> rune_segs s = map (\<lambda>c. (of_char c, [c])) s"
  by (induction s) (auto simp: rune_segs_ascii)

lemma runes_ascii: "ascii s \<Longrightarrow> runes s = map of_char s"
  by (simp add: runes_def rune_segs_ascii_map comp_def)

lemma trim_space_Nil [simp]: "trim_space [] = []"
  by (simp add: trim_space_def)

lemma trim_space_id:
  assumes "ascii s" "s \<noteq> []" "\<not> is_space (of_char (hd s))" "\<not> is_space (of_char (last s))"
  shows "trim_space s = s"
proof -
  let ?xs = "map (\<lambda>c. (of_char c :: nat, [c])) s"
  have hd: "dropWhile P ys = ys" if "ys \<noteq> []" "\<not> P (hd ys)" for P :: "nat \<times> string \<Rightarrow> bool" and ys
    using that by (cases ys) auto
  have "dropWhile (\<lambda>x. is_space (fst x)) ?xs = ?xs"
    by (rule hd) (use assms in \<open>auto simp: hd_map\<close>)
  moreover have "dropWhile (\<lambda>x. is_space (fst x)) (rev ?xs) = rev ?xs"
    by (rule hd) (use assms in \<open>auto simp: hd_rev last_map\<close>)
  ultimately show ?thesis
    using assms(1) by (simp add: trim_space_def rune_segs_ascii_map comp_def)
qed

definition has_prefix :: "string \<Rightarrow> string \<Rightarrow> bool" where
  "has_prefix s p \<longleftrightarrow> take (length p) s = p"

lemma has_prefix_append [simp]: "has_prefix (p @ s) p"
  by (simp add: has_prefix_def)

lemma has_prefix_conv: "has_prefix s p \<longleftrightarrow> (\<exists>r. s = p @ r)"
  by (metis append_eq_conv_conj append_take_drop_id has_prefix_def)

section \<open>Evaluation\<close>

text \<open>Equations that evaluate plain ASCII text without decoding it, for the examples.\<close>

lemma digit7_small: "\<not> digit7 c \<Longrightarrow> (of_char c :: nat) < 0x80"
  by (cases c) (auto simp: of_char_Char)

lemma plain_bytes_ascii: "\<forall>c \<in> set s. \<not> digit7 c \<Longrightarrow> ascii s"
  by (simp add: ascii_def list_all_iff digit7_small)

lemma printable_not_space:
  assumes "\<not> digit7 c" and "digit5 c \<or> digit6 c" and "c \<noteq> CHR '' ''"
  shows "\<not> is_space (of_char c)"
proof -
  have "(of_char c :: nat) < 0x80" using assms(1) by (rule digit7_small)
  moreover have "32 \<le> (of_char c :: nat)" using assms(2) by (cases c) (auto simp: of_char_Char)
  moreover have "(of_char c :: nat) \<noteq> 32" 
  proof
    assume "(of_char c :: nat) = 32"
    then have "of_char c = (of_char (CHR '' '') :: nat)" by simp
    with assms(3) show False by (simp only: of_char_eq_iff)
  qed
  ultimately show ?thesis by (auto simp: is_space_def)
qed

lemma trim_space_code [code]:
  "trim_space s =
     (if s = [] then []
      else if (\<forall>c \<in> set s. \<not> digit7 c) \<and> (digit5 (hd s) \<or> digit6 (hd s)) \<and> hd s \<noteq> CHR '' ''
         \<and> (digit5 (last s) \<or> digit6 (last s)) \<and> last s \<noteq> CHR '' '' then s
      else concat (map snd (rev (dropWhile (\<lambda>x. is_space (fst x))
       (rev (dropWhile (\<lambda>x. is_space (fst x)) (rune_segs s)))))))"
proof (cases "s \<noteq> [] \<and> (\<forall>c \<in> set s. \<not> digit7 c) \<and> (digit5 (hd s) \<or> digit6 (hd s)) \<and> hd s \<noteq> CHR '' ''
         \<and> (digit5 (last s) \<or> digit6 (last s)) \<and> last s \<noteq> CHR '' ''")
  case True
  then have "trim_space s = s"
    by (intro trim_space_id plain_bytes_ascii printable_not_space) auto
  with True show ?thesis by simp
next
  case False
  then show ?thesis by (simp only: trim_space_def if_False split: if_splits) auto
qed

end
