(* ===== verification/Policy.thy ===== *)
theory Policy
  imports Prelude
begin

text \<open>
  Whether an agent may run an action without asking: \<open>internal/agent/policy/policy.go\<close> (risks,
  verdicts, what a remembered grant covers) and \<open>internal/types/assistant.go\<close> (access levels
  and ceilings). Both are Go string types with a few known constants; any other string is the
  constructor \<open>OtherRisk\<close> or \<open>OtherLevel\<close>.
\<close>

section \<open>Risks and access levels\<close>

datatype risk = RiskRead | RiskProbe | RiskWrite | RiskDestructive | OtherRisk string

datatype access_level = ReadOnly | Confirm | AutoWrite | OtherLevel string

fun risk_valid :: "risk \<Rightarrow> bool" where
  "risk_valid (OtherRisk _) = False"
| "risk_valid _ = True"

fun mutates :: "risk \<Rightarrow> bool" where
  "mutates r = (r = RiskWrite \<or> r = RiskDestructive)"

text \<open>A key missing from the Go map \<open>riskRank\<close> reads as 0.\<close>

fun risk_rank :: "risk \<Rightarrow> nat" where
  "risk_rank RiskRead = 1"
| "risk_rank RiskProbe = 2"
| "risk_rank RiskWrite = 3"
| "risk_rank RiskDestructive = 4"
| "risk_rank (OtherRisk _) = 0"

definition above :: "risk \<Rightarrow> risk \<Rightarrow> bool" where
  "above r other \<longleftrightarrow> risk_rank r > risk_rank other"

record action =
  act_risk :: risk
  always :: bool

datatype verdict = Allow | Ask | Deny

definition offered :: "access_level \<Rightarrow> risk \<Rightarrow> bool" where
  "offered level r \<longleftrightarrow> level \<noteq> ReadOnly \<or> r = RiskRead \<or> r = RiskProbe"

definition decide :: "action \<Rightarrow> access_level \<Rightarrow> verdict" where
  "decide a level =
     (if \<not> offered level (act_risk a) then Deny
      else if always a then Ask
      else (case act_risk a of
              RiskRead \<Rightarrow> Allow
            | RiskProbe \<Rightarrow> Allow
            | RiskWrite \<Rightarrow> if level = AutoWrite then Allow else Ask
            | _ \<Rightarrow> Ask))"

definition grantable :: "action \<Rightarrow> bool" where
  "grantable a \<longleftrightarrow> act_risk a = RiskWrite \<and> \<not> always a"

definition pregrantable :: "action \<Rightarrow> bool" where
  "pregrantable a \<longleftrightarrow> (act_risk a = RiskWrite \<or> act_risk a = RiskDestructive) \<and> \<not> always a"

definition covers :: "risk \<Rightarrow> risk \<Rightarrow> bool" where
  "covers grnt r \<longleftrightarrow> risk_valid r \<and> \<not> above r grnt"

section \<open>The level a run gets\<close>

fun level_rank :: "access_level \<Rightarrow> nat" where
  "level_rank ReadOnly = 0"
| "level_rank Confirm = 1"
| "level_rank AutoWrite = 2"
| "level_rank (OtherLevel _) = 0"

fun level_valid :: "access_level \<Rightarrow> bool" where
  "level_valid (OtherLevel _) = False"
| "level_valid _ = True"

record assistant_config =
  display_name :: string
  max_access_level :: access_level

definition normalize_assistant :: "assistant_config \<Rightarrow> assistant_config" where
  "normalize_assistant c =
     c\<lparr>display_name := trim_space (display_name c),
       max_access_level := (if level_valid (max_access_level c) then max_access_level c
                            else Confirm)\<rparr>"

text \<open>The receiver is a pointer: \<open>None\<close> is a nil config.\<close>

definition effective_access_level ::
    "assistant_config option \<Rightarrow> access_level \<Rightarrow> access_level" where
  "effective_access_level c requested =
     (let ceiling = (case c of
                       Some cfg \<Rightarrow> if level_valid (max_access_level cfg)
                                   then max_access_level cfg else Confirm
                     | None \<Rightarrow> Confirm);
          level = (if level_valid requested then requested else Confirm)
      in if level_rank level > level_rank ceiling then ceiling else level)"

definition cap_access_level :: "access_level \<Rightarrow> access_level \<Rightarrow> access_level" where
  "cap_access_level requested ceiling =
     (let ceiling' = (if level_valid ceiling then ceiling else AutoWrite)
      in if \<not> level_valid requested \<or> level_rank requested > level_rank ceiling'
         then ceiling' else requested)"

section \<open>Properties\<close>

text \<open>How much a verdict restrains the agent: running, asking first, refusing.\<close>

fun verdict_rank :: "verdict \<Rightarrow> nat" where
  "verdict_rank Allow = 0"
| "verdict_rank Ask = 1"
| "verdict_rank Deny = 2"

lemmas policy_defs = offered_def decide_def grantable_def pregrantable_def covers_def above_def

lemma effective_level_valid: "level_valid (effective_access_level c requested)"
  by (auto simp: effective_access_level_def Let_def split: option.splits)

lemma cap_level_valid: "level_valid (cap_access_level requested ceiling)"
  by (auto simp: cap_access_level_def Let_def)

lemma cap_level_le:
  "level_valid ceiling \<Longrightarrow> level_rank (cap_access_level requested ceiling) \<le> level_rank ceiling"
  by (auto simp: cap_access_level_def Let_def)

lemma effective_level_le:
  "level_valid (max_access_level c) \<Longrightarrow>
   level_rank (effective_access_level (Some c) requested) \<le> level_rank (max_access_level c)"
  by (auto simp: effective_access_level_def Let_def)

lemma valid_level_cases:
  "level_valid l \<Longrightarrow> (l = ReadOnly \<Longrightarrow> P) \<Longrightarrow> (l = Confirm \<Longrightarrow> P) \<Longrightarrow> (l = AutoWrite \<Longrightarrow> P) \<Longrightarrow> P"
  by (cases l) auto

lemma decide_level_mono:
  assumes "level_valid l" "level_valid l'" "level_rank l \<le> level_rank l'"
  shows "verdict_rank (decide a l') \<le> verdict_rank (decide a l)"
  using assms
  by (cases l; cases l'; cases "act_risk a") (auto simp: policy_defs)

lemma decide_risk_mono:
  assumes "\<not> above (act_risk a) (act_risk b)" "risk_valid (act_risk a)" "always a \<longrightarrow> always b"
  shows "verdict_rank (decide a l) \<le> verdict_rank (decide b l)"
  using assms
  by (cases "act_risk a"; cases "act_risk b") (auto simp: policy_defs)

lemma covers_refl: "risk_valid r \<Longrightarrow> covers r r"
  by (simp add: policy_defs)

lemma covers_trans: "covers a b \<Longrightarrow> covers b c \<Longrightarrow> covers a c"
  by (auto simp: policy_defs)

lemma covers_write: "covers RiskWrite r \<longleftrightarrow> r = RiskRead \<or> r = RiskProbe \<or> r = RiskWrite"
  by (cases r) (auto simp: policy_defs)

text \<open>
  The workspace ceiling only narrows: whatever level is requested, the level the run gets
  never lets an action through more easily than the (normalised) ceiling itself would, and
  capping it again by an agent's ceiling only narrows further.
\<close>

theorem ceiling_only_narrows:
  "verdict_rank (decide a (max_access_level (normalize_assistant c)))
     \<le> verdict_rank (decide a (effective_access_level (Some c) requested)) \<and>
   verdict_rank (decide a (effective_access_level (Some c) requested))
     \<le> verdict_rank (decide a (cap_access_level ceiling' (effective_access_level (Some c) requested)))"
proof
  let ?c = "normalize_assistant c"
  have eff: "effective_access_level (Some c) requested = effective_access_level (Some ?c) requested"
    and vc: "level_valid (max_access_level ?c)"
    by (auto simp: effective_access_level_def normalize_assistant_def)
  show "verdict_rank (decide a (max_access_level ?c))
     \<le> verdict_rank (decide a (effective_access_level (Some c) requested))"
    unfolding eff using vc by (intro decide_level_mono effective_level_valid effective_level_le)
  show "verdict_rank (decide a (effective_access_level (Some c) requested))
     \<le> verdict_rank (decide a (cap_access_level ceiling' (effective_access_level (Some c) requested)))"
    by (intro decide_level_mono effective_level_valid cap_level_valid cap_level_le)
qed

end
