(* ===== verification/McpPolicy.thy ===== *)
theory McpPolicy
  imports Policy
begin

text \<open>
  The per-tool policy of MCP services: the stored rows and their conditional update
  (\<open>internal/types/mcp.go\<close>, \<open>internal/application/repository/mcp_tool_approval_repository.go\<close>),
  the service that edits them (\<open>internal/application/service/mcp_tool_approval_service.go\<close>),
  and what the gate makes of them (\<open>internal/agent/approval/mcp_risk.go\<close>, \<open>tool_policy.go\<close> and the
  policy methods of \<open>gate.go\<close>).

  A tool's risk is declared by the service it comes from, which is not trusted. The theorems
  show that a declaration, once recorded, can only be lowered by the workspace, whatever replicas
  record at the same time, and that a policy that cannot be read never lets a call through.
\<close>

section \<open>Rows and patches\<close>

text \<open>Identifiers and times, which no rule reads, are left out of the row.\<close>

type_synonym policy_key = "nat \<times> string \<times> string"

record mcp_policy =
  mp_key :: policy_key
  mp_require :: bool
  mp_enabled :: bool
  mp_risk :: risk
  mp_observed :: risk

record policy_patch =
  pp_require :: "bool option"
  pp_enabled :: "bool option"
  pp_risk :: "risk option"
  pp_observed :: "risk option"

type_synonym policy_table = "mcp_policy list"

definition find_policy :: "policy_table \<Rightarrow> policy_key \<Rightarrow> mcp_policy option" where
  "find_policy t k = List.find (\<lambda>r. mp_key r = k) t"

section \<open>The repository\<close>

text \<open>The last argument of a statement is what the database does with it.\<close>

definition read_statement :: "fault \<Rightarrow> 'a \<Rightarrow> unit + 'a" where
  "read_statement f v = (case f of Fine \<Rightarrow> Inr v | _ \<Rightarrow> Inl ())"

definition list_policies :: "policy_table \<Rightarrow> nat \<Rightarrow> string \<Rightarrow> fault \<Rightarrow> unit + mcp_policy list" where
  "list_policies t tenant service f =
     read_statement f (filter (\<lambda>r. fst (mp_key r) = tenant \<and> fst (snd (mp_key r)) = service) t)"

definition get_policy :: "policy_table \<Rightarrow> policy_key \<Rightarrow> fault \<Rightarrow> unit + mcp_policy option" where
  "get_policy t k f = read_statement f (find_policy t k)"

definition policy_required :: "policy_table \<Rightarrow> policy_key \<Rightarrow> fault \<Rightarrow> unit + bool" where
  "policy_required t k f =
     read_statement f (case find_policy t k of None \<Rightarrow> False | Some r \<Rightarrow> mp_require r)"

definition policy_enabled :: "policy_table \<Rightarrow> policy_key \<Rightarrow> fault \<Rightarrow> unit + bool" where
  "policy_enabled t k f =
     read_statement f (case find_policy t k of None \<Rightarrow> True | Some r \<Rightarrow> mp_enabled r)"

text \<open>
  \<open>riskRankSQL\<close> is the rank of \<open>Policy\<close>, written as a \<open>CASE\<close> expression; the statement itself
  compares the stored risk with the new one.
\<close>

definition raise_observed :: "risk \<Rightarrow> risk \<Rightarrow> risk" where
  "raise_observed new stored = (if risk_rank new > risk_rank stored then new else stored)"

definition new_policy :: "policy_key \<Rightarrow> policy_patch \<Rightarrow> mcp_policy" where
  "new_policy k patch =
     \<lparr>mp_key = k,
      mp_require = (case pp_require patch of Some b \<Rightarrow> b | None \<Rightarrow> False),
      mp_enabled = (case pp_enabled patch of Some b \<Rightarrow> b | None \<Rightarrow> True),
      mp_risk = (case pp_risk patch of Some r \<Rightarrow> r | None \<Rightarrow> OtherRisk []),
      mp_observed = (case pp_observed patch of Some r \<Rightarrow> r | None \<Rightarrow> OtherRisk [])\<rparr>"

definition patch_policy :: "policy_patch \<Rightarrow> mcp_policy \<Rightarrow> mcp_policy" where
  "patch_policy patch r =
     r\<lparr>mp_require := (case pp_require patch of Some b \<Rightarrow> b | None \<Rightarrow> mp_require r),
       mp_enabled := (case pp_enabled patch of Some b \<Rightarrow> b | None \<Rightarrow> mp_enabled r),
       mp_risk := (case pp_risk patch of Some x \<Rightarrow> x | None \<Rightarrow> mp_risk r),
       mp_observed := (case pp_observed patch of Some x \<Rightarrow> raise_observed x (mp_observed r)
                       | None \<Rightarrow> mp_observed r)\<rparr>"

definition empty_patch :: "policy_patch \<Rightarrow> bool" where
  "empty_patch p \<longleftrightarrow> pp_require p = None \<and> pp_enabled p = None \<and> pp_risk p = None \<and> pp_observed p = None"

definition upsert_rows :: "policy_key \<Rightarrow> policy_patch \<Rightarrow> policy_table \<Rightarrow> policy_table" where
  "upsert_rows k patch t =
     (if find_policy t k = None then t @ [new_policy k patch]
      else map (\<lambda>r. if mp_key r = k then patch_policy patch r else r) t)"

definition upsert_policy ::
    "policy_table \<Rightarrow> policy_key \<Rightarrow> policy_patch \<Rightarrow> fault \<Rightarrow> (unit + unit) \<times> policy_table" where
  "upsert_policy t k patch f =
     (if fst (snd k) = [] \<or> snd (snd k) = [] \<or> empty_patch patch then (Inl (), t)
      else (case f of
              Fine \<Rightarrow> (Inr (), upsert_rows k patch t)
            | Refused \<Rightarrow> (Inl (), t)
            | ReplyLost \<Rightarrow> (Inl (), upsert_rows k patch t)))"

section \<open>The service\<close>

text \<open>\<open>svc\<close> is the lookup of the MCP service: an error, absent or present.\<close>

definition set_policy ::
    "(unit + bool) \<Rightarrow> policy_table \<Rightarrow> policy_key \<Rightarrow> policy_patch \<Rightarrow> fault \<Rightarrow> (unit + unit) \<times> policy_table" where
  "set_policy svc t k patch f =
     (let patch = patch\<lparr>pp_observed := None\<rparr> in
      if snd (snd k) = [] then (Inl (), t)
      else if empty_patch patch then (Inl (), t)
      else if (case pp_risk patch of Some r \<Rightarrow> r \<noteq> OtherRisk [] \<and> \<not> risk_valid r | None \<Rightarrow> False) then (Inl (), t)
      else if svc \<noteq> Inr True then (Inl (), t)
      else upsert_policy t k patch f)"

definition observed_patch :: "risk \<Rightarrow> policy_patch" where
  "observed_patch r = \<lparr>pp_require = None, pp_enabled = None, pp_risk = None, pp_observed = Some r\<rparr>"

text \<open>\<open>ObserveRisk\<close>: a read, and a statement only when the read row is below.\<close>

definition observe_needed :: "risk \<Rightarrow> mcp_policy option \<Rightarrow> bool" where
  "observe_needed r row = (case row of None \<Rightarrow> True | Some row \<Rightarrow> above r (mp_observed row))"

definition observe_risk ::
    "policy_table \<Rightarrow> policy_key \<Rightarrow> risk \<Rightarrow> fault \<Rightarrow> fault \<Rightarrow> (unit + unit) \<times> policy_table" where
  "observe_risk t k r f f' =
     (if \<not> risk_valid r then (Inl (), t)
      else (case get_policy t k f of
              Inl _ \<Rightarrow> (Inl (), t)
            | Inr row \<Rightarrow> if observe_needed r row then upsert_policy t k (observed_patch r) f'
                        else (Inr (), t)))"

definition service_policies ::
    "(unit + bool) \<Rightarrow> policy_table \<Rightarrow> nat \<Rightarrow> string \<Rightarrow> fault \<Rightarrow> unit + mcp_policy list" where
  "service_policies svc t tenant service f =
     (if svc \<noteq> Inr True then Inl () else list_policies t tenant service f)"

section \<open>The gate\<close>

record mcp_annotations =
  an_read_only :: "bool option"
  an_destructive :: "bool option"

record mcp_tool =
  tl_name :: string
  tl_annotations :: "mcp_annotations option"

definition declares_read_only :: "mcp_tool option \<Rightarrow> bool" where
  "declares_read_only tool =
     (case tool of None \<Rightarrow> False
      | Some t \<Rightarrow> (case tl_annotations t of None \<Rightarrow> False | Some a \<Rightarrow> an_read_only a = Some True))"

definition declared_risk :: "mcp_tool option \<Rightarrow> risk" where
  "declared_risk tool = (if declares_read_only tool then RiskRead else RiskWrite)"

definition tool_risk :: "mcp_policy option \<Rightarrow> risk \<Rightarrow> risk" where
  "tool_risk row declared =
     (case row of
        None \<Rightarrow> declared
      | Some r \<Rightarrow> if risk_valid (mp_risk r) then mp_risk r
                 else if above (mp_observed r) declared then mp_observed r
                 else declared)"

definition pending_downgrade :: "mcp_policy option \<Rightarrow> risk \<Rightarrow> bool" where
  "pending_downgrade row declared =
     (case row of None \<Rightarrow> False
      | Some r \<Rightarrow> \<not> risk_valid (mp_risk r) \<and> above (mp_observed r) declared)"

definition failed_action :: "bool \<Rightarrow> action" where
  "failed_action fail_close = \<lparr>act_risk = RiskWrite, always = fail_close\<rparr>"

text \<open>
  A gate has no checker, one that knows only the two flags, or the adapter of the service,
  which also knows risks. The latter works on the table of the repository.
\<close>

datatype checker =
    NoChecker
  | PlainChecker "policy_key \<Rightarrow> unit + bool" "policy_key \<Rightarrow> unit + bool"
  | ServiceChecker

definition required_by_policy :: "bool \<Rightarrow> (policy_key \<Rightarrow> unit + bool) \<Rightarrow> policy_key \<Rightarrow> bool" where
  "required_by_policy fail_close is_required k =
     (case is_required k of Inl _ \<Rightarrow> always (failed_action fail_close) | Inr b \<Rightarrow> b)"

text \<open>The three faults are of the policy read and of the two statements of the recording.\<close>

definition mcp_action ::
    "checker \<Rightarrow> bool \<Rightarrow> policy_table \<Rightarrow> nat \<Rightarrow> string \<Rightarrow> mcp_tool option \<Rightarrow> fault \<times> fault \<times> fault
       \<Rightarrow> action \<times> policy_table" where
  "mcp_action checker fail_close t tenant service tool faults =
     (let declared = declared_risk tool; plain = \<lparr>act_risk = declared, always = False\<rparr> in
      case tool of
        None \<Rightarrow> (plain, t)
      | Some tl_rec \<Rightarrow>
          (let k = (tenant, service, tl_name tl_rec) in
           if tenant = 0 \<or> service = [] \<or> tl_name tl_rec = [] then (plain, t)
           else (case checker of
                   NoChecker \<Rightarrow> (plain, t)
                 | PlainChecker is_required is_enabled \<Rightarrow>
                     (\<lparr>act_risk = RiskWrite, always = required_by_policy fail_close is_required k\<rparr>, t)
                 | ServiceChecker \<Rightarrow>
                     (case get_policy t k (fst faults) of
                        Inl _ \<Rightarrow> (failed_action fail_close, t)
                      | Inr row \<Rightarrow>
                          (let t' = (if observe_needed declared row
                                     then snd (observe_risk t k declared (fst (snd faults)) (snd (snd faults)))
                                     else t)
                           in (\<lparr>act_risk = tool_risk row declared,
                                always = (case row of None \<Rightarrow> False | Some r \<Rightarrow> mp_require r)\<rparr>, t'))))))"

text \<open>\<open>Verdict\<close>; the run's level is \<open>None\<close> when the context carries none.\<close>

definition run_access_level :: "access_level option \<Rightarrow> access_level" where
  "run_access_level level =
     (case level of Some l \<Rightarrow> if level_valid l then l else AutoWrite | None \<Rightarrow> AutoWrite)"

definition mcp_verdict ::
    "checker \<Rightarrow> bool \<Rightarrow> access_level option \<Rightarrow> policy_table \<Rightarrow> nat \<Rightarrow> string \<Rightarrow> mcp_tool option
       \<Rightarrow> fault \<times> fault \<times> fault \<Rightarrow> verdict" where
  "mcp_verdict checker fail_close level t tenant service tool faults =
     decide (fst (mcp_action checker fail_close t tenant service tool faults)) (run_access_level level)"

definition checker_enabled :: "checker \<Rightarrow> policy_table \<Rightarrow> fault \<Rightarrow> policy_key \<Rightarrow> unit + bool" where
  "checker_enabled checker t f k =
     (case checker of
        NoChecker \<Rightarrow> Inr True
      | PlainChecker is_required is_enabled \<Rightarrow> is_enabled k
      | ServiceChecker \<Rightarrow> policy_enabled t k f)"

definition mcp_enabled :: "checker \<Rightarrow> policy_table \<Rightarrow> fault \<Rightarrow> policy_key \<Rightarrow> unit + bool" where
  "mcp_enabled checker t f k =
     (if checker = NoChecker then Inr True
      else if fst k = 0 \<or> fst (snd k) = [] \<or> snd (snd k) = [] then Inr False
      else checker_enabled checker t f k)"

section \<open>Tool directories\<close>

text \<open>Each name comes with whether the context is still live when its turn comes.\<close>

fun enabled_individually ::
    "(string \<Rightarrow> unit + bool) \<Rightarrow> (string \<times> bool) list \<Rightarrow> (string \<rightharpoonup> bool) \<Rightarrow> unit + (string \<rightharpoonup> bool)" where
  "enabled_individually check [] result = Inr result"
| "enabled_individually check ((name, live) # names) result =
     (if \<not> live then Inl ()
      else (case check name of
              Inl _ \<Rightarrow> Inl ()
            | Inr b \<Rightarrow> enabled_individually check names (result(name \<mapsto> b))))"

fun overlay_rows :: "nat \<Rightarrow> string \<Rightarrow> mcp_policy list \<Rightarrow> (string \<rightharpoonup> bool) \<Rightarrow> (string \<rightharpoonup> bool)" where
  "overlay_rows tenant service [] result = result"
| "overlay_rows tenant service (r # rs) result =
     (let (tn, sv, name) = mp_key r in
      overlay_rows tenant service rs
        (if tn \<noteq> tenant \<or> sv \<noteq> service then result
         else if result name \<noteq> None then result(name \<mapsto> mp_enabled r) else result))"

text \<open>The adapter's batch: one listing, every other name enabled.\<close>

definition adapter_enabled_tools ::
    "(unit + bool) \<Rightarrow> policy_table \<Rightarrow> fault \<Rightarrow> bool \<Rightarrow> nat \<Rightarrow> string \<Rightarrow> (string \<times> bool) list
       \<Rightarrow> unit + (string \<rightharpoonup> bool)" where
  "adapter_enabled_tools svc t f live tenant service names =
     (if \<not> live \<or> tenant = 0 \<or> service = [] then Inl ()
      else (case service_policies svc t tenant service f of
              Inl _ \<Rightarrow> Inl ()
            | Inr rs \<Rightarrow>
                (case enabled_individually (\<lambda>_. Inr True) names Map.empty of
                   Inl _ \<Rightarrow> Inl ()
                 | Inr result \<Rightarrow> Inr (overlay_rows tenant service rs result))))"

definition enabled_tools ::
    "checker \<Rightarrow> (unit + bool) \<Rightarrow> policy_table \<Rightarrow> fault \<Rightarrow> bool \<Rightarrow> nat \<Rightarrow> string \<Rightarrow> (string \<times> bool) list
       \<Rightarrow> unit + (string \<rightharpoonup> bool)" where
  "enabled_tools checker svc t f live tenant service names =
     (if \<not> live \<or> tenant = 0 \<or> service = [] then Inl ()
      else (case checker of
              ServiceChecker \<Rightarrow> adapter_enabled_tools svc t f live tenant service names
            | PlainChecker is_required is_enabled \<Rightarrow>
                enabled_individually (\<lambda>name. is_enabled (tenant, service, name)) names Map.empty
            | NoChecker \<Rightarrow> enabled_individually (\<lambda>_. Inr True) names Map.empty))"

text \<open>The risks of a directory, in one read; a nil tool is skipped.\<close>

fun risks_of :: "(string \<rightharpoonup> mcp_policy) \<Rightarrow> mcp_tool option list \<Rightarrow> (string \<rightharpoonup> risk) \<Rightarrow> (string \<rightharpoonup> risk)" where
  "risks_of rs [] out = out"
| "risks_of rs (tool # tools) out =
     risks_of rs tools
       (case tool of None \<Rightarrow> out
        | Some tl_rec \<Rightarrow> out(tl_name tl_rec \<mapsto> tool_risk (rs (tl_name tl_rec)) (declared_risk tool)))"

fun index_rows :: "nat \<Rightarrow> string \<Rightarrow> mcp_policy list \<Rightarrow> (string \<rightharpoonup> mcp_policy) \<Rightarrow> (string \<rightharpoonup> mcp_policy)" where
  "index_rows tenant service [] out = out"
| "index_rows tenant service (r # rs) out =
     (let (tn, sv, name) = mp_key r in
      index_rows tenant service rs (if tn = tenant \<and> sv = service then out(name \<mapsto> r) else out))"

definition tool_risks ::
    "checker \<Rightarrow> (unit + bool) \<Rightarrow> policy_table \<Rightarrow> fault \<Rightarrow> nat \<Rightarrow> string \<Rightarrow> mcp_tool option list
       \<Rightarrow> unit + (string \<rightharpoonup> risk)" where
  "tool_risks checker svc t f tenant service tools =
     (if checker = ServiceChecker \<and> tenant \<noteq> 0 \<and> service \<noteq> []
      then (case service_policies svc t tenant service f of
              Inl _ \<Rightarrow> Inl ()
            | Inr rs \<Rightarrow> Inr (risks_of (index_rows tenant service rs Map.empty) tools Map.empty))
      else Inr (risks_of Map.empty tools Map.empty))"

section \<open>The table under its statements\<close>

lemma find_policy_key: "find_policy t k = Some r \<Longrightarrow> mp_key r = k"
  by (auto simp: find_policy_def find_Some_iff)

lemma patch_policy_key [simp]: "mp_key (patch_policy patch r) = mp_key r"
  by (simp add: patch_policy_def)

lemma find_policy_map:
  "find_policy (map (\<lambda>r. if mp_key r = k then patch_policy patch r else r) t) k' =
     (if k' = k then map_option (patch_policy patch) (find_policy t k) else find_policy t k')"
  unfolding find_policy_def by (induction t) auto

lemma find_policy_upsert:
  "find_policy (upsert_rows k patch t) k' =
     (if k' = k then Some (case find_policy t k of None \<Rightarrow> new_policy k patch
                           | Some r \<Rightarrow> patch_policy patch r)
      else find_policy t k')"
proof (cases "find_policy t k")
  case None
  then show ?thesis
    by (auto simp: upsert_rows_def find_policy_def find_append new_policy_def split: option.splits)
next
  case (Some r)
  then show ?thesis by (simp add: upsert_rows_def find_policy_map)
qed

lemma upsert_policy_table:
  "upsert_policy t k patch f = (reply, t') \<Longrightarrow> t' = t \<or> t' = upsert_rows k patch t"
  "upsert_policy t k patch f = (Inr (), t') \<Longrightarrow> t' = upsert_rows k patch t"
  by (auto simp: upsert_policy_def split: if_splits fault.splits)

lemma set_policy_table:
  assumes "set_policy svc t k patch f = (reply, t')"
  shows "t' = t \<or> t' = upsert_rows k (patch\<lparr>pp_observed := None\<rparr>) t"
proof -
  have "t' = t \<or> upsert_policy t k (patch\<lparr>pp_observed := None\<rparr>) f = (reply, t')"
    using assms unfolding set_policy_def Let_def
    by (auto split: if_split_asm)
  with upsert_policy_table(1) show ?thesis by blast
qed

lemma raise_observed_rank:
  "risk_rank (raise_observed new old) = max (risk_rank new) (risk_rank old)"
  by (simp add: raise_observed_def)

text \<open>How high the recorded declaration of a tool is; no row ranks lowest.\<close>

definition observed_rank :: "policy_table \<Rightarrow> policy_key \<Rightarrow> nat" where
  "observed_rank t k = (case find_policy t k of None \<Rightarrow> 0 | Some r \<Rightarrow> risk_rank (mp_observed r))"

lemma observed_rank_upsert:
  "observed_rank (upsert_rows k patch t) k' =
     (if k' = k then max (observed_rank t k) (case pp_observed patch of Some r \<Rightarrow> risk_rank r | None \<Rightarrow> 0)
      else observed_rank t k')"
  by (auto simp: observed_rank_def find_policy_upsert new_policy_def patch_policy_def
      raise_observed_rank max.commute split: option.splits)

section \<open>Declarations under interleaving\<close>

text \<open>
  \<open>ObserveRisk\<close> reads and then writes, so replicas interleave between the two. A call has read a
  row that needs raising, has returned without error, or has failed.
\<close>

datatype observe_call =
    Comparing policy_key risk
  | Recorded policy_key risk
  | Unrecorded

definition after_read :: "policy_key \<Rightarrow> risk \<Rightarrow> unit + mcp_policy option \<Rightarrow> observe_call" where
  "after_read k r reply =
     (case reply of
        Inl _ \<Rightarrow> Unrecorded
      | Inr row \<Rightarrow> if observe_needed r row then Comparing k r else Recorded k r)"

definition after_write :: "policy_key \<Rightarrow> risk \<Rightarrow> unit + unit \<Rightarrow> observe_call" where
  "after_write k r reply = (case reply of Inl _ \<Rightarrow> Unrecorded | Inr _ \<Rightarrow> Recorded k r)"

record policy_system =
  ps_table :: policy_table
  ps_calls :: "nat \<rightharpoonup> observe_call"

inductive policy_step :: "policy_system \<Rightarrow> policy_system \<Rightarrow> bool" where
  Read: "ps_calls s n = None \<Longrightarrow> risk_valid r \<Longrightarrow>
     policy_step s (s\<lparr>ps_calls := (ps_calls s)(n \<mapsto> after_read k r (get_policy (ps_table s) k f))\<rparr>)"
| Write: "ps_calls s n = Some (Comparing k r) \<Longrightarrow>
     upsert_policy (ps_table s) k (observed_patch r) f = (reply, t') \<Longrightarrow>
     policy_step s (s\<lparr>ps_table := t', ps_calls := (ps_calls s)(n \<mapsto> after_write k r reply)\<rparr>)"
| Edit: "set_policy svc (ps_table s) k patch f = (reply, t') \<Longrightarrow>
     policy_step s (s\<lparr>ps_table := t'\<rparr>)"

text \<open>Run without interruption the two steps are \<open>observe_risk\<close>.\<close>

lemma observe_risk_steps:
  assumes "risk_valid r"
  shows "case after_read k r (get_policy t k f) of
           Comparing k' r' \<Rightarrow>
             (case upsert_policy t k' (observed_patch r') f' of
                (reply, t') \<Rightarrow> observe_risk t k r f f' = (reply, t'))
         | Recorded k' r' \<Rightarrow> observe_risk t k r f f' = (Inr (), t)
         | Unrecorded \<Rightarrow> observe_risk t k r f f' = (Inl (), t)"
  using assms by (simp add: after_read_def observe_risk_def split: sum.splits prod.splits)

definition policy_inv :: "policy_system \<Rightarrow> bool" where
  "policy_inv s \<longleftrightarrow>
     (\<forall>n k r. ps_calls s n = Some (Recorded k r) \<longrightarrow> risk_rank r \<le> observed_rank (ps_table s) k)"

lemma policy_step_rises:
  assumes "policy_step s s'"
  shows "observed_rank (ps_table s) k \<le> observed_rank (ps_table s') k"
  using assms
proof cases
  case (Write n k' r f reply t')
  from upsert_policy_table(1) [OF Write(3)] Write(1) show ?thesis
    by (auto simp: observed_rank_upsert)
next
  case (Edit svc k' patch f reply t')
  from set_policy_table [OF Edit(2)] Edit(1) show ?thesis
    by (auto simp: observed_rank_upsert)
qed simp

lemma after_read_recorded:
  "after_read k r (get_policy t k f) = Recorded k' r' \<Longrightarrow>
     k' = k \<and> r' = r \<and> risk_rank r \<le> observed_rank t k"
  by (auto simp: after_read_def get_policy_def read_statement_def observe_needed_def observed_rank_def
      above_def split: fault.splits option.splits if_splits)

lemma policy_step_inv:
  assumes step: "policy_step s s'" and inv: "policy_inv s"
  shows "policy_inv s'"
  unfolding policy_inv_def
proof (intro allI impI)
  fix n k r assume rec: "ps_calls s' n = Some (Recorded k r)"
  have keep: "ps_calls s n = Some (Recorded k r) \<Longrightarrow> risk_rank r \<le> observed_rank (ps_table s') k"
    using inv policy_step_rises [OF step, of k] unfolding policy_inv_def by fastforce
  from step show "risk_rank r \<le> observed_rank (ps_table s') k"
  proof cases
    case (Read m r' k' f)
    with rec keep after_read_recorded [of k' r' "ps_table s" f k r] show ?thesis
      by (cases "m = n") auto
  next
    case (Write m k' r' f reply t')
    show ?thesis
    proof (cases "m = n")
      case True
      with Write rec have "k' = k" "r' = r" "reply = Inr ()"
        by (auto simp: after_write_def split: sum.splits)
      with Write upsert_policy_table(2) [of "ps_table s" k "observed_patch r" f t'] show ?thesis
        by (simp add: observed_rank_upsert observed_patch_def)
    qed (use Write rec keep in auto)
  next
    case Edit
    with rec keep show ?thesis by auto
  qed
qed

lemma policy_steps_inv: "policy_step\<^sup>*\<^sup>* s s' \<Longrightarrow> policy_inv s \<Longrightarrow> policy_inv s'"
  by (induction rule: rtranclp_induct) (auto intro: policy_step_inv)

lemma policy_steps_rise:
  "policy_step\<^sup>*\<^sup>* s s' \<Longrightarrow> observed_rank (ps_table s) k \<le> observed_rank (ps_table s') k"
  by (induction rule: rtranclp_induct) (auto intro: order_trans policy_step_rises)

lemma tool_risk_at_least:
  "n \<le> observed_rank t k \<Longrightarrow> 0 < n \<Longrightarrow> find_policy t k = Some row \<Longrightarrow> \<not> risk_valid (mp_risk row) \<Longrightarrow>
     n \<le> risk_rank (tool_risk (Some row) declared)"
  by (auto simp: tool_risk_def observed_rank_def above_def)

lemma valid_rank: "risk_valid r \<longleftrightarrow> 0 < risk_rank r"
  by (cases r) auto

text \<open>
  C9. A service cannot talk its own tool down. Once a declaration has been recorded, then whatever
  replicas record meanwhile and afterwards, whichever statements fail, and whatever else the
  workspace edits, a later call of the tool is judged at least at that risk, unless the
  workspace has set a risk of its own, which then counts.
\<close>

theorem service_cannot_lower_risk:
  assumes "policy_step\<^sup>*\<^sup>* \<lparr>ps_table = t0, ps_calls = Map.empty\<rparr> s"
    and "ps_calls s n = Some (Recorded k r)" and "risk_valid r"
    and "policy_step\<^sup>*\<^sup>* s s'"
  shows "\<exists>row. find_policy (ps_table s') k = Some row \<and>
     (if risk_valid (mp_risk row) then tool_risk (Some row) declared = mp_risk row
      else \<not> above r (tool_risk (Some row) declared))"
proof -
  have "policy_inv s" using policy_steps_inv [OF assms(1)] by (simp add: policy_inv_def)
  then have rank: "risk_rank r \<le> observed_rank (ps_table s') k"
    using assms(2) policy_steps_rise [OF assms(4), of k] unfolding policy_inv_def by fastforce
  have pos: "0 < risk_rank r" using assms(3) by (simp add: valid_rank)
  from rank pos obtain row where row: "find_policy (ps_table s') k = Some row"
    by (fastforce simp: observed_rank_def split: option.splits)
  with tool_risk_at_least [OF rank pos row, of declared] show ?thesis
    by (auto simp: above_def tool_risk_def)
qed

definition example_key :: policy_key where
  "example_key = (1, ''svc'', ''tool'')"

definition example_race :: policy_system where
  "example_race =
     \<lparr>ps_table = [], ps_calls = [0 \<mapsto> Comparing example_key RiskRead, 1 \<mapsto> Comparing example_key RiskWrite]\<rparr>"

definition example_raised :: policy_system where
  "example_raised =
     \<lparr>ps_table = [new_policy example_key (observed_patch RiskWrite)],
      ps_calls = [0 \<mapsto> Comparing example_key RiskRead, 1 \<mapsto> Recorded example_key RiskWrite]\<rparr>"

definition example_late :: policy_system where
  "example_late =
     \<lparr>ps_table = [new_policy example_key (observed_patch RiskWrite)],
      ps_calls = [0 \<mapsto> Recorded example_key RiskRead, 1 \<mapsto> Recorded example_key RiskWrite]\<rparr>"

lemmas example_race_simps =
  example_race_def example_raised_def example_late_def example_key_def after_read_def after_write_def
  get_policy_def read_statement_def find_policy_def observe_needed_def upsert_policy_def upsert_rows_def
  empty_patch_def observed_patch_def new_policy_def patch_policy_def raise_observed_def

lemma example_race_reached: "policy_step\<^sup>*\<^sup>* \<lparr>ps_table = [], ps_calls = Map.empty\<rparr> example_race"
proof -
  let ?s1 = "\<lparr>ps_table = [], ps_calls = [0 \<mapsto> Comparing example_key RiskRead]\<rparr>"
  have "policy_step \<lparr>ps_table = [], ps_calls = Map.empty\<rparr> ?s1"
    using policy_step.Read [of "\<lparr>ps_table = [], ps_calls = Map.empty\<rparr>" 0 RiskRead example_key Fine]
    by (simp add: example_race_simps)
  moreover have "policy_step ?s1 example_race"
    using policy_step.Read [of ?s1 1 RiskWrite example_key Fine] by (simp add: example_race_simps)
  ultimately show ?thesis by (meson converse_rtranclp_into_rtranclp rtranclp.rtrancl_refl)
qed

lemma example_raised_step: "policy_step example_race example_raised"
  using policy_step.Write [of example_race 1 example_key RiskWrite Fine "Inr ()"]
  by (simp add: example_race_simps)

lemma example_late_step: "policy_step example_raised example_late"
  using policy_step.Write [of example_raised 0 example_key RiskRead Fine "Inr ()"]
  by (simp add: example_race_simps fun_upd_twist)

lemma service_cannot_lower_risk_witness:
  "\<not> above RiskWrite (tool_risk (find_policy (ps_table example_late) example_key) RiskRead)"
proof -
  have "\<exists>row. find_policy (ps_table example_late) example_key = Some row \<and>
     (if risk_valid (mp_risk row) then tool_risk (Some row) RiskRead = mp_risk row
      else \<not> above RiskWrite (tool_risk (Some row) RiskRead))"
  proof (rule service_cannot_lower_risk)
    show "policy_step\<^sup>*\<^sup>* \<lparr>ps_table = [], ps_calls = Map.empty\<rparr> example_raised"
      using example_race_reached example_raised_step by simp
    show "ps_calls example_raised 1 = Some (Recorded example_key RiskWrite)"
      by (simp add: example_raised_def)
    show "policy_step\<^sup>*\<^sup>* example_raised example_late" using example_late_step by simp
  qed simp
  moreover have "map_option mp_risk (find_policy (ps_table example_late) example_key) = Some (OtherRisk [])"
    by (simp add: example_race_simps)
  ultimately show ?thesis by auto
qed

section \<open>The verdict\<close>

text \<open>
  A tool runs without a question only on a policy that was read. For a tool with an
  identity, behind a gate that fails closed, the verdict is to allow exactly if the policy could
  be read, does not require approval, and the risk it gives is one that never asks at the
  run's level: reading or probing, or a recoverable write of a run that may write on its own.
\<close>

theorem mcp_call_allowed_iff:
  assumes "tenant \<noteq> 0" and "service \<noteq> []" and "tl_name tl_rec \<noteq> []"
  shows "mcp_verdict ServiceChecker True level t tenant service (Some tl_rec) (f, faults) = Allow \<longleftrightarrow>
     f = Fine
   \<and> (let row = find_policy t (tenant, service, tl_name tl_rec);
          r = tool_risk row (declared_risk (Some tl_rec))
      in \<not> (case row of None \<Rightarrow> False | Some p \<Rightarrow> mp_require p)
         \<and> (r = RiskRead \<or> r = RiskProbe \<or> (r = RiskWrite \<and> run_access_level level = AutoWrite)))"
proof (cases "f = Fine")
  case True
  define row where "row = find_policy t (tenant, service, tl_name tl_rec)"
  define r where "r = tool_risk row (declared_risk (Some tl_rec))"
  define req where "req = (case row of None \<Rightarrow> False | Some p \<Rightarrow> mp_require p)"
  have "mcp_verdict ServiceChecker True level t tenant service (Some tl_rec) (f, faults)
      = decide \<lparr>act_risk = r, always = req\<rparr> (run_access_level level)"
    using assms True
    by (simp add: mcp_verdict_def mcp_action_def get_policy_def read_statement_def Let_def
        row_def r_def req_def)
  also have "\<dots> = Allow \<longleftrightarrow>
      \<not> req \<and> (r = RiskRead \<or> r = RiskProbe \<or> (r = RiskWrite \<and> run_access_level level = AutoWrite))"
    by (cases r; cases "run_access_level level") (simp_all add: policy_defs)
  finally show ?thesis using True unfolding row_def r_def req_def Let_def by simp
next
  case False
  then have "mcp_verdict ServiceChecker True level t tenant service (Some tl_rec) (f, faults)
      = decide \<lparr>act_risk = RiskWrite, always = True\<rparr> (run_access_level level)"
    using assms by (cases f) (simp_all add: mcp_verdict_def mcp_action_def get_policy_def
        read_statement_def failed_action_def Let_def)
  with False show ?thesis by (simp add: policy_defs)
qed

lemma mcp_call_allowed_iff_witness:
  "mcp_verdict ServiceChecker True None [new_policy example_key (observed_patch RiskWrite)] 1 ''svc''
     (Some \<lparr>tl_name = ''tool'', tl_annotations = Some \<lparr>an_read_only = Some True, an_destructive = None\<rparr>\<rparr>)
     (Refused, Fine, Fine) \<noteq> Allow"
  by (subst mcp_call_allowed_iff) simp_all

section \<open>The directory\<close>

text \<open>The unique index of the table.\<close>

definition policies_ok :: "policy_table \<Rightarrow> bool" where
  "policies_ok t \<longleftrightarrow> distinct (map mp_key t)"

lemma find_policy_none: "find_policy t k = None \<longleftrightarrow> k \<notin> mp_key ` set t"
  by (auto simp: find_policy_def find_None_iff)

lemma upsert_rows_ok [simp]: "policies_ok t \<Longrightarrow> policies_ok (upsert_rows k patch t)"
proof (cases "find_policy t k")
  case None
  then show "policies_ok t \<Longrightarrow> ?thesis"
    by (auto simp: policies_ok_def upsert_rows_def find_policy_none new_policy_def)
next
  case (Some r)
  have "map mp_key (map (\<lambda>r. if mp_key r = k then patch_policy patch r else r) t) = map mp_key t"
    by (simp cong: if_cong)
  with Some show "policies_ok t \<Longrightarrow> ?thesis"
    unfolding policies_ok_def upsert_rows_def by (simp only: option.distinct if_False)
qed

lemma enabled_individually_all:
  assumes "list_all snd names"
  shows "enabled_individually (\<lambda>name. Inr (h name)) names result =
     Inr (\<lambda>x. if x \<in> fst ` set names then Some (h x) else result x)"
  using assms
proof (induction names arbitrary: result)
  case (Cons n names)
  obtain name live where n: "n = (name, live)" by fastforce
  with Cons show ?case by (auto simp: fun_eq_iff)
qed (simp add: fun_eq_iff)

lemma overlay_rows_find:
  assumes "distinct (map mp_key rs)"
  shows "overlay_rows tenant service rs result x =
     (case find_policy rs (tenant, service, x) of
        None \<Rightarrow> result x | Some r \<Rightarrow> if result x = None then None else Some (mp_enabled r))"
  using assms
proof (induction rs arbitrary: result)
  case (Cons r rs)
  obtain tn sv name where k: "mp_key r = (tn, sv, name)" by (metis prod_cases3)
  have fresh: "find_policy rs (tn, sv, name) = None"
    using Cons.prems k by (simp add: find_policy_none)
  from Cons k fresh show ?case
    by (auto simp: find_policy_def split: option.splits)
qed (simp add: find_policy_def)

lemma find_policy_listed:
  "find_policy (filter (\<lambda>r. fst (mp_key r) = tenant \<and> fst (snd (mp_key r)) = service) t) (tenant, service, x)
     = find_policy t (tenant, service, x)"
  unfolding find_policy_def by (induction t) auto

text \<open>
  The directory of a service shows exactly the tools that may be called. The batch that reads
  all policies of a service in one statement gives every requested name the answer the
  single query gives it, and no other name an answer.
\<close>

theorem directory_matches_single_checks:
  assumes "policies_ok t" and "tenant \<noteq> 0" and "service \<noteq> []" and "list_all snd names"
  shows "enabled_tools ServiceChecker (Inr True) t Fine True tenant service names =
     Inr (\<lambda>x. if x \<in> fst ` set names
              then (case checker_enabled ServiceChecker t Fine (tenant, service, x) of
                      Inr b \<Rightarrow> Some b | Inl _ \<Rightarrow> None)
              else None)"
proof -
  let ?rs = "filter (\<lambda>r. fst (mp_key r) = tenant \<and> fst (snd (mp_key r)) = service) t"
  have rs: "distinct (map mp_key ?rs)"
    using assms(1) by (simp add: policies_ok_def distinct_map_filter)
  have "enabled_tools ServiceChecker (Inr True) t Fine True tenant service names =
      Inr (overlay_rows tenant service ?rs (\<lambda>x. if x \<in> fst ` set names then Some True else None))"
    using assms enabled_individually_all [OF assms(4), of "\<lambda>_. True" Map.empty]
    by (simp add: enabled_tools_def adapter_enabled_tools_def service_policies_def list_policies_def
        read_statement_def)
  then show ?thesis
    by (auto simp: fun_eq_iff overlay_rows_find [OF rs] find_policy_listed checker_enabled_def
        policy_enabled_def read_statement_def split: option.splits)
qed

lemma directory_matches_single_checks_witness:
  "enabled_tools ServiceChecker (Inr True)
     [new_policy example_key ((observed_patch RiskRead)\<lparr>pp_enabled := Some False\<rparr>)] Fine True 1 ''svc''
     [(''tool'', True), (''other'', True)] = Inr [''tool'' \<mapsto> False, ''other'' \<mapsto> True]"
  by (subst directory_matches_single_checks)
    (auto simp: policies_ok_def fun_eq_iff checker_enabled_def policy_enabled_def read_statement_def
      find_policy_def new_policy_def example_key_def observed_patch_def)

end
