(* ===== verification/GoStrings.thy ===== *)
theory GoStrings
  imports Prelude
begin

text \<open>
  The functions of package strings that the text-handling components call, over byte strings:
  substring search, splitting and joining, decimal output, conversion between bytes and runes
  and lower case as far as comparisons with ASCII text can see it.
\<close>

section \<open>Search\<close>

text \<open>\<open>strings.Index\<close> and \<open>strings.LastIndex\<close>; \<open>None\<close> is their -1.\<close>

fun str_index :: "string \<Rightarrow> string \<Rightarrow> nat option" where
  "str_index sub [] = (if sub = [] then Some 0 else None)"
| "str_index sub (c # s) = (if has_prefix (c # s) sub then Some 0 else map_option Suc (str_index sub s))"

fun str_last_index :: "string \<Rightarrow> string \<Rightarrow> nat option" where
  "str_last_index sub [] = (if sub = [] then Some 0 else None)"
| "str_last_index sub (c # s) = (case str_last_index sub s of
       Some i \<Rightarrow> Some (Suc i)
     | None \<Rightarrow> if has_prefix (c # s) sub then Some 0 else None)"

definition str_contains :: "string \<Rightarrow> string \<Rightarrow> bool" where
  "str_contains s sub \<longleftrightarrow> str_index sub s \<noteq> None"

lemma has_prefix_length: "has_prefix s p \<Longrightarrow> length p \<le> length s"
  by (auto simp: has_prefix_conv)

lemma str_index_Some: "str_index sub s = Some i \<Longrightarrow> i + length sub \<le> length s \<and> has_prefix (drop i s) sub"
proof (induction s arbitrary: i)
  case (Cons c s)
  show ?case
  proof (cases "has_prefix (c # s) sub")
    case True
    then have "i = 0" using Cons.prems by simp
    then show ?thesis using True has_prefix_length by fastforce
  next
    case False
    then obtain j where "str_index sub s = Some j" "i = Suc j" using Cons.prems by auto
    then show ?thesis using Cons.IH by simp
  qed
qed (auto simp: has_prefix_def split: if_splits)

lemma str_index_split:
  assumes "str_index sub s = Some i"
  shows "s = take i s @ sub @ drop (i + length sub) s"
proof -
  obtain r where r: "drop i s = sub @ r" using str_index_Some [OF assms] by (auto simp: has_prefix_conv)
  then have "r = drop (i + length sub) s"
    by (metis add.commute append_eq_conv_conj drop_drop)
  then show ?thesis using r by (metis append_take_drop_id)
qed

lemma str_index_head [simp]: "str_index sub (sub @ s) = Some 0"
proof (cases "sub @ s")
  case (Cons c r)
  then have "has_prefix (c # r) sub" by (metis has_prefix_append)
  then show ?thesis by (simp add: Cons)
qed auto

lemma has_prefix_sep:
  assumes "d \<notin> set sub"
  shows "has_prefix (p @ d # q) sub \<longleftrightarrow> has_prefix p sub"
proof
  assume "has_prefix (p @ d # q) sub"
  then obtain r where r: "p @ d # q = sub @ r" by (auto simp: has_prefix_conv)
  then have "length sub \<le> length p" using assms
    by (metis in_set_conv_nth leI nth_append nth_append_length)
  then have "take (length sub) p = sub"
    using arg_cong [OF r, of "take (length sub)"] by simp
  then show "has_prefix p sub" by (simp add: has_prefix_def)
next
  assume "has_prefix p sub"
  then show "has_prefix (p @ d # q) sub" by (auto simp: has_prefix_conv)
qed

text \<open>A text that does not contain a byte cannot be found across it.\<close>

lemma str_index_sep:
  assumes "d \<notin> set sub" "sub \<noteq> []"
  shows "str_index sub (p @ d # q) = (case str_index sub p of
      Some i \<Rightarrow> Some i | None \<Rightarrow> map_option (\<lambda>i. Suc (length p) + i) (str_index sub q))"
proof (induction p)
  case Nil
  have "\<not> has_prefix (d # q) sub"
    using has_prefix_sep [OF assms(1), of "[]" q] assms(2) by (simp add: has_prefix_def)
  then show ?case using assms(2) by (cases "str_index sub q") auto
next
  case (Cons c p)
  then show ?case using has_prefix_sep [OF assms(1), of "c # p" q]
    by (cases "str_index sub p"; cases "str_index sub q") auto
qed

lemma str_index_absent: "c \<in> set sub \<Longrightarrow> c \<notin> set s \<Longrightarrow> str_index sub s = None"
proof (induction s)
  case (Cons d s)
  have "\<not> has_prefix (d # s) sub"
    using Cons.prems by (metis has_prefix_def in_set_takeD)
  then show ?case using Cons by simp
qed auto

lemma str_last_index_short: "length s < length sub \<Longrightarrow> str_last_index sub s = None"
proof (induction s)
  case (Cons c s)
  then have "\<not> has_prefix (c # s) sub" using has_prefix_length by fastforce
  then show ?case using Cons by simp
qed auto

lemma str_last_index_end: "sub \<noteq> [] \<Longrightarrow> str_last_index sub (p @ sub) = Some (length p)"
proof (induction p)
  case Nil
  then obtain c r where c: "sub = c # r" by (cases sub) auto
  have "has_prefix (c # r) sub" using c has_prefix_append [of sub "[]"] by simp
  then show ?case using str_last_index_short [of r sub] c by simp
qed simp

lemma str_index_append: "str_index sub p = Some i \<Longrightarrow> str_index sub (p @ q) = Some i"
proof (induction p arbitrary: i)
  case Nil
  then show ?case by (cases q) (auto simp: has_prefix_def split: if_splits)
next
  case (Cons c p)
  show ?case
  proof (cases "has_prefix (c # p) sub")
    case True
    then have "has_prefix (c # p @ q) sub" by (auto simp: has_prefix_conv) (metis append_assoc append_Cons)
    then show ?thesis using True Cons.prems by simp
  next
    case False
    then obtain j where j: "str_index sub p = Some j" "i = Suc j" using Cons.prems by auto
    then have len: "length sub \<le> length (c # p)" using str_index_Some by fastforce
    then have "take (length sub) ((c # p) @ q) = take (length sub) (c # p)" by (simp only: take_append) simp
    then have "\<not> has_prefix (c # p @ q) sub" using False by (simp add: has_prefix_def)
    then show ?thesis using Cons.IH j by simp
  qed
qed

section \<open>Splitting and joining\<close>

text \<open>\<open>strings.Split\<close> with a one-byte separator and \<open>strings.Join\<close>.\<close>

fun split_on :: "char \<Rightarrow> string \<Rightarrow> string list" where
  "split_on c [] = [[]]"
| "split_on c (x # xs) = (if x = c then [] # split_on c xs
     else (case split_on c xs of [] \<Rightarrow> [[x]] | y # ys \<Rightarrow> (x # y) # ys))"

fun join :: "string \<Rightarrow> string list \<Rightarrow> string" where
  "join sep [] = []"
| "join sep [x] = x"
| "join sep (x # y # xs) = x @ sep @ join sep (y # xs)"

lemma split_on_nonempty [simp]: "split_on c s \<noteq> []"
  by (induction s) (auto split: list.splits)

lemma split_on_none: "c \<notin> set s \<Longrightarrow> split_on c s = [s]"
  by (induction s) auto

lemma split_on_append: "c \<notin> set x \<Longrightarrow> split_on c (x @ c # s) = x # split_on c s"
  by (induction x) (auto split: list.splits)

lemma split_on_join: "\<forall>x \<in> set xs. c \<notin> set x \<Longrightarrow> xs \<noteq> [] \<Longrightarrow> split_on c (join [c] xs) = xs"
proof (induction xs rule: induct_list012)
  case (3 x y zs)
  then show ?case by (simp add: split_on_append)
qed (auto simp: split_on_none)

lemma join_set: "x \<in> set (join sep xs) \<Longrightarrow> x \<in> set sep \<or> (\<exists>y \<in> set xs. x \<in> set y)"
  by (induction sep xs rule: join.induct) auto

lemma join_snoc: "xs \<noteq> [] \<Longrightarrow> join sep (xs @ [x]) = join sep xs @ sep @ x"
  by (induction sep xs rule: join.induct) auto

lemma split_join_newlines:
  assumes "\<forall>x \<in> set xs. c \<notin> set x" "xs \<noteq> []"
  shows "split_on c (c # join [c] xs @ [c]) = [] # xs @ [[]]"
proof -
  have "split_on c (join [c] xs @ [c]) = split_on c (join [c] (xs @ [[]]))"
    using assms(2) by (simp add: join_snoc)
  also have "\<dots> = xs @ [[]]" by (rule split_on_join) (use assms in auto)
  finally show ?thesis by simp
qed

section \<open>Numbers and runes\<close>

text \<open>The decimal digits \<open>%d\<close> prints for a natural number.\<close>

fun itoa :: "nat \<Rightarrow> string" where
  "itoa n = (if n < 10 then [char_of (48 + n)] else itoa (n div 10) @ [char_of (48 + n mod 10)])"

declare itoa.simps [simp del]

lemma of_char_byte: "(of_char (char_of n :: char) :: nat) = n mod 256"
  by (simp add: of_char_of)

definition uint_value :: "string \<Rightarrow> nat" where
  "uint_value s = foldl (\<lambda>v c. 10 * v + (of_char c - 48)) 0 s"

lemma uint_value_itoa: "uint_value (itoa n) = n"
proof (induction n rule: itoa.induct)
  case (1 n)
  have d: "(of_char (char_of (48 + k) :: char) :: nat) - 48 = k" if "k < 10" for k
    using that by (simp only: of_char_byte) simp
  show ?case
  proof (cases "n < 10")
    case True
    then show ?thesis
      using d [of n] by (subst itoa.simps) (simp add: uint_value_def)
  next
    case False
    then have "uint_value (itoa n) = 10 * uint_value (itoa (n div 10)) + n mod 10"
      using d [of "n mod 10"] by (subst itoa.simps) (simp add: uint_value_def)
    with 1 False show ?thesis by simp
  qed
qed

lemma itoa_inj: "itoa n = itoa m \<Longrightarrow> n = m"
  by (metis uint_value_itoa)

text \<open>\<open>utf8.AppendRune\<close>: the bytes of a rune; surrogates and numbers past U+10FFFF become U+FFFD.\<close>

definition valid_rune :: "nat \<Rightarrow> bool" where
  "valid_rune r \<longleftrightarrow> r < 0xD800 \<or> (0xE000 \<le> r \<and> r \<le> 0x10FFFF)"

definition encode_rune :: "nat \<Rightarrow> string" where
  "encode_rune r0 = (let r = (if valid_rune r0 then r0 else rune_error) in
     map char_of
      (if r < 0x80 then [r]
       else if r < 0x800 then [0xC0 + r div 64, 0x80 + r mod 64]
       else if r < 0x10000 then [0xE0 + r div 4096, 0x80 + (r div 64) mod 64, 0x80 + r mod 64]
       else [0xF0 + r div 262144, 0x80 + (r div 4096) mod 64, 0x80 + (r div 64) mod 64, 0x80 + r mod 64]))"

text \<open>\<open>string(runes)\<close>.\<close>

definition of_runes :: "nat list \<Rightarrow> string" where
  "of_runes rs = concat (map encode_rune rs)"

lemma of_runes_append [simp]: "of_runes (xs @ ys) = of_runes xs @ of_runes ys"
  by (simp add: of_runes_def)

lemma of_runes_ascii: "ascii s \<Longrightarrow> of_runes (runes s) = s"
  by (induction s) (auto simp: of_runes_def runes_ascii encode_rune_def valid_rune_def Let_def)

text \<open>An ASCII byte ends a rune wherever it stands, so decoding splits at it.\<close>

lemma decode_rune_sep:
  assumes "(of_char d :: nat) < 0x80" "s \<noteq> []"
  shows "decode_rune (s @ d # t) = decode_rune s"
proof -
  have "\<not> is_cont d" using assms(1) by (simp add: is_cont_def)
  then show ?thesis using assms(2)
    by (cases s rule: decode_rune.cases) (auto simp: Let_def split: list.splits)
qed

lemma rune_segs_sep:
  assumes "(of_char d :: nat) < 0x80"
  shows "rune_segs (s @ d # t) = rune_segs s @ rune_segs (d # t)"
proof (induction s rule: rune_segs.induct)
  case (1 s)
  show ?case
  proof (cases "s = []")
    case False
    obtain r w where d: "decode_rune s = (r, w)" by force
    have w: "w \<le> length s" using decode_rune_width [OF False] d by simp
    have "rune_segs (s @ d # t) = (r, take w s) # rune_segs (drop w s @ d # t)"
      using w d decode_rune_sep [OF assms False]
      by (subst rune_segs.simps) simp
    also have "\<dots> = (r, take w s) # rune_segs (drop w s) @ rune_segs (d # t)"
      using 1 [OF False d [symmetric] refl] by simp
    also have "\<dots> = rune_segs s @ rune_segs (d # t)"
      using False d by (subst (2) rune_segs.simps) simp
    finally show ?thesis .
  qed simp
qed

lemma rune_segs_snoc:
  "(of_char d :: nat) < 0x80 \<Longrightarrow> rune_segs (s @ [d]) = rune_segs s @ [(of_char d, [d])]"
  by (simp add: rune_segs_sep rune_segs_ascii)

lemma trim_space_left: "(of_char c :: nat) < 0x80 \<Longrightarrow> is_space (of_char c) \<Longrightarrow> trim_space (c # s) = trim_space s"
  by (simp add: trim_space_def rune_segs_ascii)

lemma dropWhile_none: "\<forall>x \<in> set xs. P x \<Longrightarrow> dropWhile P xs = []"
  by (induction xs) auto

lemma dropWhile_snoc: "P y \<Longrightarrow> dropWhile P (xs @ [y]) = (if \<forall>x \<in> set xs. P x then [] else dropWhile P xs @ [y])"
  by (induction xs) auto

lemma trim_space_right: "(of_char c :: nat) < 0x80 \<Longrightarrow> is_space (of_char c) \<Longrightarrow> trim_space (s @ [c]) = trim_space s"
  by (simp add: trim_space_def rune_segs_snoc dropWhile_snoc dropWhile_none)

text \<open>Cutting a string between runes does not change the runes that are left.\<close>

text \<open>The four shapes of an encoding, told apart by the first byte.\<close>

lemma decode_rune_classes:
  fixes b :: nat
  shows "b < 0x80 \<or> (\<not> b < 0x80 \<and> 0xC2 \<le> b \<and> b < 0xE0)
    \<or> (\<not> b < 0x80 \<and> \<not> (0xC2 \<le> b \<and> b < 0xE0) \<and> 0xE0 \<le> b \<and> b < 0xF0)
    \<or> (\<not> b < 0x80 \<and> \<not> (0xC2 \<le> b \<and> b < 0xE0) \<and> \<not> (0xE0 \<le> b \<and> b < 0xF0) \<and> 0xF0 \<le> b \<and> b < 0xF5)
    \<or> (\<not> b < 0x80 \<and> \<not> (0xC2 \<le> b \<and> b < 0xE0) \<and> \<not> (0xE0 \<le> b \<and> b < 0xF0) \<and> \<not> (0xF0 \<le> b \<and> b < 0xF5))"
  by blast

definition dec3 :: "char \<Rightarrow> char \<Rightarrow> char \<Rightarrow> nat \<times> nat" where
  "dec3 c c1 c2 = (let b0 = of_char c :: nat;
     r = (b0 - 0xE0) * 4096 + (of_char c1 - 0x80) * 64 + (of_char c2 - 0x80) in
     if is_cont c1 \<and> is_cont c2 \<and> 0x800 \<le> r \<and> \<not> (0xD800 \<le> r \<and> r \<le> 0xDFFF) then (r, 3) else (rune_error, 1))"

definition dec4 :: "char \<Rightarrow> char \<Rightarrow> char \<Rightarrow> char \<Rightarrow> nat \<times> nat" where
  "dec4 c c1 c2 c3 = (let b0 = of_char c :: nat;
     r = (b0 - 0xF0) * 262144 + (of_char c1 - 0x80) * 4096 + (of_char c2 - 0x80) * 64 + (of_char c3 - 0x80) in
     if is_cont c1 \<and> is_cont c2 \<and> is_cont c3 \<and> 0x10000 \<le> r \<and> r \<le> 0x10FFFF then (r, 4) else (rune_error, 1))"

lemma decode_rune_cons:
  "decode_rune (c # cs) = (let b0 = of_char c :: nat in
      if b0 < 0x80 then (b0, 1)
      else if 0xC2 \<le> b0 \<and> b0 < 0xE0 then
        (case cs of c1 # _ \<Rightarrow> if is_cont c1 then ((b0 - 0xC0) * 64 + (of_char c1 - 0x80), 2) else (rune_error, 1)
         | _ \<Rightarrow> (rune_error, 1))
      else if 0xE0 \<le> b0 \<and> b0 < 0xF0 then (case cs of c1 # c2 # _ \<Rightarrow> dec3 c c1 c2 | _ \<Rightarrow> (rune_error, 1))
      else if 0xF0 \<le> b0 \<and> b0 < 0xF5 then (case cs of c1 # c2 # c3 # _ \<Rightarrow> dec4 c c1 c2 c3 | _ \<Rightarrow> (rune_error, 1))
      else (rune_error, 1))"
  by (simp only: decode_rune.simps Let_def dec3_def dec4_def)

lemma dec3_width: "snd (dec3 c c1 c2) = 3 \<or> dec3 c c1 c2 = (rune_error, 1)"
  by (simp add: dec3_def Let_def)

lemma dec4_width: "snd (dec4 c c1 c2 c3) = 4 \<or> dec4 c c1 c2 c3 = (rune_error, 1)"
  by (simp add: dec4_def Let_def)

lemma decode_rune_take:
  assumes "snd (decode_rune s) \<le> n" "0 < n" "s \<noteq> []"
  shows "decode_rune (take n s) = decode_rune s"
proof -
  obtain c cs m where s: "s = c # cs" and n: "n = Suc m"
    using assms(2,3) by (cases s; cases n) auto
  have w: "snd (decode_rune (c # cs)) \<le> Suc m" using assms(1) s n by simp
  have "decode_rune (c # take m cs) = decode_rune (c # cs)"
    using decode_rune_classes [of "of_char c"]
  proof (elim disjE conjE)
    assume "(of_char c :: nat) < 0x80"
    then show ?thesis by (simp only: decode_rune_cons Let_def if_True)
  next
    assume b: "\<not> (of_char c :: nat) < 0x80" "0xC2 \<le> (of_char c :: nat)" "(of_char c :: nat) < 0xE0"
    show ?thesis
    proof (cases cs; cases m)
      fix c1 t assume "cs = c1 # t" "m = 0"
      then show ?thesis using w b by (simp add: decode_rune_cons Let_def del: decode_rune.simps split: if_splits)
    qed (simp_all add: decode_rune_cons Let_def b del: decode_rune.simps)
  next
    assume b: "\<not> (of_char c :: nat) < 0x80" "\<not> (0xC2 \<le> (of_char c :: nat) \<and> (of_char c :: nat) < 0xE0)"
      "0xE0 \<le> (of_char c :: nat)" "(of_char c :: nat) < 0xF0"
    show ?thesis
    proof (cases "2 \<le> m")
      case True
      then obtain k where "m = Suc (Suc k)" by (metis add_2_eq_Suc le_Suc_ex)
      then show ?thesis using b
        by (simp only: decode_rune_cons Let_def simp_thms if_False if_True) (simp split: list.splits)
    next
      case False
      show ?thesis
      proof (cases "\<exists>c1 c2 t. cs = c1 # c2 # t")
        case True
        then obtain c1 c2 t where cs: "cs = c1 # c2 # t" by blast
        have "dec3 c c1 c2 = (rune_error, 1)"
          using dec3_width [of c c1 c2] w b False
          by (simp add: decode_rune_cons Let_def cs del: decode_rune.simps)
        then show ?thesis using b False
          by (simp add: decode_rune_cons Let_def cs take_Cons' del: decode_rune.simps)
      next
        case False
        then show ?thesis using b
          by (simp only: decode_rune_cons Let_def simp_thms if_False if_True)
            (auto split: list.splits simp: take_Cons')
      qed
    qed
  next
    assume b: "\<not> (of_char c :: nat) < 0x80" "\<not> (0xC2 \<le> (of_char c :: nat) \<and> (of_char c :: nat) < 0xE0)"
      "\<not> (0xE0 \<le> (of_char c :: nat) \<and> (of_char c :: nat) < 0xF0)"
      "0xF0 \<le> (of_char c :: nat)" "(of_char c :: nat) < 0xF5"
    show ?thesis
    proof (cases "3 \<le> m")
      case True
      then obtain k where "m = Suc (Suc (Suc k))" by (metis add_2_eq_Suc le_Suc_ex numeral_3_eq_3 add_Suc)
      then show ?thesis using b
        by (simp only: decode_rune_cons Let_def simp_thms if_False if_True) (simp split: list.splits)
    next
      case False
      show ?thesis
      proof (cases "\<exists>c1 c2 c3 t. cs = c1 # c2 # c3 # t")
        case True
        then obtain c1 c2 c3 t where cs: "cs = c1 # c2 # c3 # t" by blast
        have "dec4 c c1 c2 c3 = (rune_error, 1)"
          using dec4_width [of c c1 c2 c3] w b False
          by (simp add: decode_rune_cons Let_def cs del: decode_rune.simps)
        then show ?thesis using b False
          by (simp add: decode_rune_cons Let_def cs take_Cons' del: decode_rune.simps)
      next
        case False
        then show ?thesis using b
          by (simp only: decode_rune_cons Let_def simp_thms if_False if_True)
            (auto split: list.splits simp: take_Cons')
      qed
    qed
  next
    assume b: "\<not> (of_char c :: nat) < 0x80" "\<not> (0xC2 \<le> (of_char c :: nat) \<and> (of_char c :: nat) < 0xE0)"
      "\<not> (0xE0 \<le> (of_char c :: nat) \<and> (of_char c :: nat) < 0xF0)"
      "\<not> (0xF0 \<le> (of_char c :: nat) \<and> (of_char c :: nat) < 0xF5)"
    then show ?thesis by (simp only: decode_rune_cons Let_def if_False)
  qed
  then show ?thesis using s n by simp
qed

lemma rune_segs_take: "rune_segs (concat (map snd (take k (rune_segs s)))) = take k (rune_segs s)"
proof (induction s arbitrary: k rule: rune_segs.induct)
  case (1 s)
  show ?case
  proof (cases "s = [] \<or> k = 0")
    case False
    then obtain m where k: "k = Suc m" and s: "s \<noteq> []" by (cases k) auto
    obtain r w where d: "decode_rune s = (r, w)" by force
    have w: "0 < w" "w \<le> length s" using decode_rune_width [OF s] d by simp_all
    have segs: "rune_segs s = (r, take w s) # rune_segs (drop w s)"
      using s d by (subst rune_segs.simps) simp
    let ?rest = "concat (map snd (take m (rune_segs (drop w s))))"
    obtain t where t: "drop w s = ?rest @ t"
      by (metis append_take_drop_id concat_append concat_rune_segs map_append)
    let ?cut = "take w s @ ?rest"
    have cut: "?cut = take (length ?cut) s"
      using t by (metis append_assoc append_eq_conv_conj append_take_drop_id)
    have ne: "?cut \<noteq> []" using w by auto
    have dec: "decode_rune ?cut = (r, w)"
      using decode_rune_take [of s "length ?cut"] d s w cut by simp
    have "rune_segs ?cut = (r, take w ?cut) # rune_segs (drop w ?cut)"
      using ne dec by (subst rune_segs.simps) simp
    also have "take w ?cut = take w s" using w by simp
    also have "drop w ?cut = ?rest" using w by simp
    also have "rune_segs ?rest = take m (rune_segs (drop w s))"
      using 1 [OF s d [symmetric] refl] .
    finally show ?thesis using segs k by simp
  qed auto
qed

lemma rune_segs_drop: "\<exists>s'. drop k (rune_segs s) = rune_segs s'"
proof (induction s arbitrary: k rule: rune_segs.induct)
  case (1 s)
  show ?case
  proof (cases "s = [] \<or> k = 0")
    case True
    then show ?thesis by (metis drop_Nil drop_0 rune_segs_Nil)
  next
    case False
    then obtain m where k: "k = Suc m" and s: "s \<noteq> []" by (cases k) auto
    obtain r w where d: "decode_rune s = (r, w)" by force
    have "rune_segs s = (r, take w s) # rune_segs (drop w s)"
      using s d by (subst rune_segs.simps) simp
    then show ?thesis using 1 [OF s d [symmetric] refl] k by simp
  qed
qed

lemma dropWhile_is_drop: "\<exists>k. dropWhile P xs = drop k xs"
  by (metis append_eq_conv_conj takeWhile_dropWhile_id)

text \<open>What TrimSpace leaves are the runes of the middle, so trimming twice changes nothing.\<close>

definition trimmed_segs :: "string \<Rightarrow> (nat \<times> string) list" where
  "trimmed_segs s = rev (dropWhile (\<lambda>x. is_space (fst x))
     (rev (dropWhile (\<lambda>x. is_space (fst x)) (rune_segs s))))"

lemma rune_segs_trim: "rune_segs (trim_space s) = trimmed_segs s"
proof -
  let ?P = "\<lambda>x :: nat \<times> string. is_space (fst x)"
  obtain s' where s': "dropWhile ?P (rune_segs s) = rune_segs s'"
    using dropWhile_is_drop rune_segs_drop by metis
  obtain k where "rev (dropWhile ?P (rev (rune_segs s'))) = take k (rune_segs s')"
    using dropWhile_is_drop [of ?P "rev (rune_segs s')"] by (metis rev_drop rev_rev_ident)
  then show ?thesis
    using rune_segs_take [of k s'] by (simp add: trim_space_def trimmed_segs_def s')
qed

lemma hd_dropWhile_rev:
  "rev (dropWhile P (rev xs)) \<noteq> [] \<Longrightarrow> hd (rev (dropWhile P (rev xs))) = hd xs"
  by (metis dropWhile_is_drop hd_append2 rev_drop rev_rev_ident append_take_drop_id)

lemma trim_space_idem [simp]: "trim_space (trim_space s) = trim_space s"
proof -
  let ?P = "\<lambda>x :: nat \<times> string. is_space (fst x)"
  let ?m = "trimmed_segs s" and ?d = "dropWhile ?P (rune_segs s)"
  have "dropWhile ?P ?m = ?m"
  proof (cases "?m = []")
    case False
    then have hd: "hd ?m = hd ?d" using hd_dropWhile_rev [of ?P ?d] by (simp add: trimmed_segs_def)
    moreover have "?d \<noteq> []"
    proof
      assume "?d = []"
      then have "?m = []" unfolding trimmed_segs_def by (simp del: dropWhile_eq_Nil_conv)
      then show False using False by simp
    qed
    ultimately have "\<not> ?P (hd ?m)" using hd_dropWhile [of ?P "rune_segs s"] by simp
    then show ?thesis using False by (cases ?m) auto
  qed simp
  moreover have "dropWhile ?P (rev ?m) = rev ?m"
    by (simp add: trimmed_segs_def)
  ultimately have "trimmed_segs (trim_space s) = ?m"
    unfolding trimmed_segs_def [of "trim_space s"] rune_segs_trim by simp
  then show ?thesis
    by (metis trim_space_def trimmed_segs_def)
qed

section \<open>Lower case\<close>

text \<open>
  \<open>strings.ToLower\<close>, exact for ASCII and for the two other letters whose lower case is ASCII
  (U+212A and U+0130). The remaining letters are left alone: both before and after the mapping
  they differ from every ASCII text, which is all the callers compare with.
\<close>

definition lower_rune :: "nat \<Rightarrow> nat" where
  "lower_rune r = (if 65 \<le> r \<and> r \<le> 90 then r + 32
     else if r = 0x212A then 107 else if r = 0x130 then 105 else r)"

definition to_lower :: "string \<Rightarrow> string" where
  "to_lower s = of_runes (map lower_rune (runes s))"

end
