(* ===== verification/AccessRoles.thy ===== *)
theory AccessRoles
  imports GoStrings
begin

text \<open>
  Who may do what: roles inside a workspace (\<open>internal/types/tenant_member.go\<close>), roles inside an
  organization of workspaces (\<open>internal/types/organization.go\<close>), callers
  (\<open>internal/types/caller.go\<close>), the scope of API keys (\<open>internal/types/tenant_api_key.go\<close>) and the
  knowledge bases a shared agent exposes (\<open>internal/types/shared_agent_access.go\<close>,
  \<open>agent_share_source.go\<close>). Workspaces are called tenants in the code.
\<close>

section \<open>Roles\<close>

text \<open>\<open>NoTenantRole\<close> and \<open>NoOrgRole\<close> are the strings that are none of the constants.\<close>

datatype tenant_role = TenantOwner | TenantAdmin | TenantContributor | TenantViewer | NoTenantRole string

fun tenant_level :: "tenant_role \<Rightarrow> nat" where
  "tenant_level TenantOwner = 40"
| "tenant_level TenantAdmin = 30"
| "tenant_level TenantContributor = 20"
| "tenant_level TenantViewer = 10"
| "tenant_level (NoTenantRole s) = 0"

fun tenant_role_valid :: "tenant_role \<Rightarrow> bool" where
  "tenant_role_valid (NoTenantRole s) = False"
| "tenant_role_valid r = True"

definition tenant_has :: "tenant_role \<Rightarrow> tenant_role \<Rightarrow> bool" where
  "tenant_has r required \<longleftrightarrow> tenant_level required \<le> tenant_level r"

datatype org_role = OrgAdmin | OrgEditor | OrgViewer | NoOrgRole string

fun org_level :: "org_role \<Rightarrow> nat" where
  "org_level OrgAdmin = 3"
| "org_level OrgEditor = 2"
| "org_level OrgViewer = 1"
| "org_level (NoOrgRole s) = 0"

fun org_role_valid :: "org_role \<Rightarrow> bool" where
  "org_role_valid (NoOrgRole s) = False"
| "org_role_valid r = True"

definition org_has :: "org_role \<Rightarrow> org_role \<Rightarrow> bool" where
  "org_has r required \<longleftrightarrow> org_level required \<le> org_level r"

abbreviation no_role :: org_role where
  "no_role \<equiv> NoOrgRole []"

definition min_org_role :: "org_role \<Rightarrow> org_role \<Rightarrow> org_role" where
  "min_org_role a b =
     (if a = no_role then b
      else if b = no_role then a
      else if org_has a b then b
      else a)"

lemma org_role_valid_level: "org_role_valid r \<longleftrightarrow> 0 < org_level r"
  by (cases r) auto

lemma tenant_role_valid_level: "tenant_role_valid r \<longleftrightarrow> 0 < tenant_level r"
  by (cases r) auto

lemma org_has_refl [simp]: "org_has r r"
  by (simp add: org_has_def)

lemma org_has_trans: "org_has a b \<Longrightarrow> org_has b c \<Longrightarrow> org_has a c"
  by (simp add: org_has_def)

lemma org_level_inj: "org_role_valid a \<Longrightarrow> org_level a = org_level b \<Longrightarrow> a = b"
  by (cases a; cases b) auto

lemma min_org_role_level:
  "a \<noteq> no_role \<Longrightarrow> b \<noteq> no_role \<Longrightarrow> org_level (min_org_role a b) = min (org_level a) (org_level b)"
  by (auto simp: min_org_role_def org_has_def)

section \<open>Callers\<close>

record caller =
  cl_tenant :: nat
  cl_user :: string
  cl_role :: tenant_role

definition normalize_caller :: "caller \<Rightarrow> caller" where
  "normalize_caller c = (if tenant_role_valid (cl_role c) then c else c\<lparr>cl_role := TenantViewer\<rparr>)"

lemma normalize_caller_idem [simp]: "normalize_caller (normalize_caller c) = normalize_caller c"
  by (simp add: normalize_caller_def)

lemma normalize_caller_fields [simp]:
  "cl_tenant (normalize_caller c) = cl_tenant c"
  "cl_user (normalize_caller c) = cl_user c"
  by (simp_all add: normalize_caller_def)

section \<open>API keys\<close>

definition known_capabilities :: "string list" where
  "known_capabilities =
     [''retrieve'', ''chat'', ''read_agents'', ''ingest'', ''manage_kbs'', ''manage_agents'',
      ''message_history'', ''manage_models'', ''manage_mcp_services'', ''manage_datasources'',
      ''manage_channels'', ''manage_vector_stores'', ''manage_storage_backends'',
      ''manage_web_search'', ''run_evaluations'', ''manage_members'', ''manage_spaces'',
      ''manage_tenant_settings'', ''system_tenants_read'', ''system_tenants_manage'',
      ''system_settings_read'', ''system_settings_manage'', ''system_runtime_read'',
      ''system_runtime_manage'', ''system_audit_read'']"

definition capability_ingest :: string where
  "capability_ingest = ''ingest''"

definition capability_manage_kbs :: string where
  "capability_manage_kbs = ''manage_kbs''"

definition normalize_capability :: "string \<Rightarrow> string" where
  "normalize_capability c =
     (let n = to_lower (trim_space c) in if n \<in> set known_capabilities then n else [])"

text \<open>Both normalizations drop what is empty and keep the first of equal items.\<close>

fun add_new :: "string list \<Rightarrow> string list \<Rightarrow> string list" where
  "add_new seen [] = []"
| "add_new seen (x # xs) =
     (if x = [] \<or> x \<in> set seen then add_new seen xs else x # add_new (x # seen) xs)"

definition normalize_capabilities :: "string list \<Rightarrow> string list" where
  "normalize_capabilities cs = add_new [] (map normalize_capability cs)"

definition normalize_ids :: "string list \<Rightarrow> string list" where
  "normalize_ids xs = add_new [] (map trim_space xs)"

record key_scope =
  ks_key :: nat
  ks_kind :: string
  ks_owner :: string
  ks_full :: bool
  ks_kbs :: "string list"
  ks_caps :: "string list"

definition normalize_scope_kind :: "string \<Rightarrow> string" where
  "normalize_scope_kind s = (if to_lower (trim_space s) = ''platform'' then ''platform'' else ''tenant'')"

definition normalize_scope :: "key_scope \<Rightarrow> key_scope" where
  "normalize_scope s =
     s\<lparr>ks_kind := normalize_scope_kind (ks_kind s), ks_owner := trim_space (ks_owner s),
       ks_kbs := normalize_ids (ks_kbs s), ks_caps := normalize_capabilities (ks_caps s)\<rparr>"

definition is_platform :: "key_scope \<Rightarrow> bool" where
  "is_platform s \<longleftrightarrow> normalize_scope_kind (ks_kind s) = ''platform''"

definition has_capability :: "key_scope \<Rightarrow> string \<Rightarrow> bool" where
  "has_capability s c =
     (let n = normalize_capability c in n \<noteq> [] \<and> n \<in> set (normalize_capabilities (ks_caps s)))"

definition allows_kb :: "key_scope \<Rightarrow> string \<Rightarrow> bool" where
  "allows_kb s kb =
     (let kb = trim_space kb; allowed = normalize_ids (ks_kbs s) in
      if kb = [] then False
      else if allowed = [] then True
      else kb \<in> set allowed)"

definition kb_restricted :: "key_scope \<Rightarrow> bool" where
  "kb_restricted s \<longleftrightarrow> normalize_ids (ks_kbs s) \<noteq> []"

definition allows_kbs :: "key_scope \<Rightarrow> string list \<Rightarrow> bool" where
  "allows_kbs s kbs =
     (if normalize_ids (ks_kbs s) = [] then True
      else if kbs = [] then False
      else list_all (allows_kb s) kbs)"

text \<open>\<open>AuthorizeTenantAPIKeyKnowledgeBases\<close> for the scope of the context, if it has one.\<close>

definition key_allows :: "key_scope option \<Rightarrow> string list \<Rightarrow> bool" where
  "key_allows key kbs =
     (case key of
        None \<Rightarrow> True
      | Some s \<Rightarrow>
          if \<not> kb_restricted s then True
          else \<not> (kbs \<noteq> [] \<and> \<not> allows_kbs s kbs))"

text \<open>\<open>key_may s c\<close> is the check the write paths make: no key, full access, or the capability.\<close>

definition key_may :: "key_scope option \<Rightarrow> string \<Rightarrow> bool" where
  "key_may key c = (case key of None \<Rightarrow> True | Some s \<Rightarrow> ks_full s \<or> has_capability s c)"

lemma add_new_set: "set (add_new seen xs) = set xs - {[]} - set seen"
  by (induction xs arbitrary: seen) auto

lemma normalize_ids_set: "set (normalize_ids xs) = trim_space ` set xs - {[]}"
  by (simp add: normalize_ids_def add_new_set)

lemma key_allows_single:
  "key_allows (Some s) [kb] \<longleftrightarrow>
     normalize_ids (ks_kbs s) = [] \<or> (trim_space kb \<noteq> [] \<and> trim_space kb \<in> set (normalize_ids (ks_kbs s)))"
  by (auto simp: key_allows_def kb_restricted_def allows_kbs_def allows_kb_def Let_def)

lemma key_allows_None [simp]: "key_allows None kbs"
  by (simp add: key_allows_def)

lemma key_may_None [simp]: "key_may None c"
  by (simp add: key_may_def)

section \<open>Shared agents\<close>

text \<open>The fields of an agent that decide what a share of it exposes.\<close>

record shared_agent =
  ag_id :: string
  ag_tenant :: nat
  ag_creator :: string
  ag_builtin :: bool
  ag_mode :: string
  ag_kbs :: "string list"
  ag_model :: string
  ag_rerank :: string
  ag_tools :: "string list option"

record agent_scope =
  sc_tenant :: nat
  sc_all :: bool
  sc_ids :: "string list"

definition empty_scope :: agent_scope where
  "empty_scope = \<lparr>sc_tenant = 0, sc_all = False, sc_ids = []\<rparr>"

definition agent_kb_scope :: "shared_agent option \<Rightarrow> agent_scope" where
  "agent_kb_scope agent =
     (case agent of
        None \<Rightarrow> empty_scope
      | Some a \<Rightarrow>
          if ag_tenant a = 0 then empty_scope
          else if ag_mode a = ''all'' then empty_scope\<lparr>sc_tenant := ag_tenant a, sc_all := True\<rparr>
          else if ag_mode a = ''selected''
          then empty_scope\<lparr>sc_tenant := ag_tenant a, sc_ids := add_new [] (ag_kbs a)\<rparr>
          else empty_scope\<lparr>sc_tenant := ag_tenant a\<rparr>)"

definition scope_allows :: "agent_scope \<Rightarrow> string \<Rightarrow> nat \<Rightarrow> bool" where
  "scope_allows s kb tenant =
     (if kb = [] \<or> sc_tenant s = 0 \<or> sc_tenant s \<noteq> tenant then False
      else sc_all s \<or> kb \<in> set (sc_ids s))"

text \<open>\<open>ParseAgentSourceTenantID\<close>: \<open>strconv.ParseUint\<close> takes digits only, of a 64-bit number.\<close>

definition is_digit :: "char \<Rightarrow> bool" where
  "is_digit c \<longleftrightarrow> 48 \<le> (of_char c :: nat) \<and> (of_char c :: nat) \<le> 57"

definition parse_source_tenant :: "string \<Rightarrow> nat option" where
  "parse_source_tenant raw =
     (let s = trim_space raw in
      if s = [] then Some 0
      else if list_all is_digit s \<and> uint_value s < 2 ^ 64 then Some (uint_value s)
      else None)"

lemma scope_allows_iff:
  "scope_allows (agent_kb_scope (Some a)) kb tenant \<longleftrightarrow>
     kb \<noteq> [] \<and> ag_tenant a = tenant \<and> tenant \<noteq> 0
   \<and> (ag_mode a = ''all'' \<or> (ag_mode a = ''selected'' \<and> kb \<in> set (ag_kbs a)))"
  by (auto simp: agent_kb_scope_def scope_allows_def empty_scope_def add_new_set)

lemma scope_allows_None [simp]: "\<not> scope_allows (agent_kb_scope None) kb tenant"
  by (simp add: agent_kb_scope_def scope_allows_def empty_scope_def)

end
