(* ===== verification/Programs.thy ===== *)
theory Programs
  imports Prelude
begin

text \<open>
  Services over a database. A statement is one atomic query, update or transaction; an operation of
  a service is a program over statements, a tree whose branches are the replies. Run alone, a
  program meets a list of faults; run beside others, any of them may move between two of
  its statements. Two logics: an invariant that every statement keeps (\<open>keeps\<close>, \<open>ensures\<close>), and a
  relation between states that every program stays within while it relies on the others to do the
  same (\<open>within\<close>), so that what a program has read may still hold when it writes.
\<close>

section \<open>Programs\<close>

text \<open>An operation of a service: a result, or a statement and what follows each reply.\<close>

datatype ('s, 'r, 'a) prog = Done 'a | Call 's "'r \<Rightarrow> ('s, 'r, 'a) prog"

primrec after :: "('s, 'r, 'a) prog \<Rightarrow> ('a \<Rightarrow> ('s, 'r, 'b) prog) \<Rightarrow> ('s, 'r, 'b) prog" where
  "after (Done x) f = f x"
| "after (Call st k) f = Call st (\<lambda>r. after (k r) f)"

text \<open>How a statement runs: what it does when it runs, and the reply that stands for an error.\<close>

type_synonym ('s, 'r, 'd) machine = "fault \<Rightarrow> 's \<Rightarrow> 'd \<Rightarrow> 'r \<times> 'd"

definition under_fault :: "'r \<Rightarrow> ('s \<Rightarrow> 'd \<Rightarrow> 'r \<times> 'd) \<Rightarrow> ('s, 'r, 'd) machine" where
  "under_fault lost eff f st db =
     (case f of
        Fine \<Rightarrow> eff st db
      | Refused \<Rightarrow> (lost, db)
      | ReplyLost \<Rightarrow> (lost, snd (eff st db)))"

definition give :: "'a \<Rightarrow> ('s, 'r, 'e + 'a) prog" where
  "give x = Done (Inr x)"

definition fail :: "'e \<Rightarrow> ('s, 'r, 'e + 'a) prog" where
  "fail e = Done (Inl e)"

text \<open>\<open>attempt p f\<close>: an error of \<open>p\<close> is returned, a value goes on to \<open>f\<close>.\<close>

definition attempt :: "('s, 'r, 'e + 'a) prog \<Rightarrow> ('a \<Rightarrow> ('s, 'r, 'e + 'b) prog) \<Rightarrow> ('s, 'r, 'e + 'b) prog" where
  "attempt p f = after p (\<lambda>r. case r of Inl e \<Rightarrow> fail e | Inr x \<Rightarrow> f x)"

text \<open>\<open>settle p f\<close>: the caller looks at the error itself.\<close>

definition settle :: "('s, 'r, 'e + 'a) prog \<Rightarrow> ('e + 'a \<Rightarrow> ('s, 'r, 'e + 'b) prog) \<Rightarrow> ('s, 'r, 'e + 'b) prog" where
  "settle p f = after p f"

definition rename_error :: "('e \<Rightarrow> 'e) \<Rightarrow> ('s, 'r, 'e + 'a) prog \<Rightarrow> ('s, 'r, 'e + 'a) prog" where
  "rename_error h p = after p (\<lambda>r. Done (case r of Inl e \<Rightarrow> Inl (h e) | Inr x \<Rightarrow> Inr x))"

text \<open>A statement with the reading of its replies.\<close>

definition call :: "'s \<Rightarrow> ('r \<Rightarrow> 'e + 'a) \<Rightarrow> ('s, 'r, 'e + 'a) prog" where
  "call st reading = Call st (\<lambda>r. Done (reading r))"

section \<open>Sequential runs\<close>

definition next_fault :: "fault list \<Rightarrow> fault" where
  "next_fault fs = (case fs of [] \<Rightarrow> Fine | f # _ \<Rightarrow> f)"

primrec run :: "('s, 'r, 'd) machine \<Rightarrow> ('s, 'r, 'a) prog \<Rightarrow> fault list \<Rightarrow> 'd \<Rightarrow> 'a \<times> 'd" where
  "run ex (Done x) fs db = (x, db)"
| "run ex (Call st k) fs db =
     run ex (k (fst (ex (next_fault fs) st db))) (tl fs) (snd (ex (next_fault fs) st db))"

text \<open>What holds of the result and the state, whichever statements fail.\<close>

primrec always :: "('s, 'r, 'd) machine \<Rightarrow> ('s, 'r, 'a) prog \<Rightarrow> ('a \<Rightarrow> 'd \<Rightarrow> bool) \<Rightarrow> 'd \<Rightarrow> bool" where
  "always ex (Done x) Q db = Q x db"
| "always ex (Call st k) Q db =
     (\<forall>f. always ex (k (fst (ex f st db))) Q (snd (ex f st db)))"

lemma always_run: "always ex p Q db \<Longrightarrow> run ex p fs db = (x, db') \<Longrightarrow> Q x db'"
proof (induction p arbitrary: fs db)
  case (Call st k)
  define r where "r = ex (next_fault fs) st db"
  have "always ex (k (fst r)) Q (snd r)" using Call.prems(1) by (simp add: r_def)
  with Call.IH [of "k (fst r)" "snd r" "List.tl fs"] Call.prems(2) show ?case by (simp add: r_def)
qed simp

lemma always_after [simp]:
  "always ex (after p f) Q db = always ex p (\<lambda>x db. always ex (f x) Q db) db"
  by (induction p arbitrary: db) auto

lemma always_mono: "always ex p Q db \<Longrightarrow> (\<And>x db. Q x db \<Longrightarrow> R x db) \<Longrightarrow> always ex p R db"
  by (induction p arbitrary: db) auto

lemma always_give [simp]: "always ex (give x) Q db = Q (Inr x) db"
  by (simp add: give_def)

lemma always_fail [simp]: "always ex (fail e) Q db = Q (Inl e) db"
  by (simp add: fail_def)

lemma always_attempt [simp]:
  "always ex (attempt p f) Q db =
     always ex p (\<lambda>r db. case r of Inl e \<Rightarrow> Q (Inl e) db | Inr x \<Rightarrow> always ex (f x) Q db) db"
  unfolding attempt_def always_after
  by (rule arg_cong [where f = "\<lambda>Q. always ex p Q db"]) (auto simp: fun_eq_iff fail_def split: sum.splits)

lemma always_settle [simp]: "always ex (settle p f) Q db = always ex p (\<lambda>r db. always ex (f r) Q db) db"
  by (simp add: settle_def)

lemma always_rename [simp]:
  "always ex (rename_error h p) Q db =
     always ex p (\<lambda>r db. Q (case r of Inl e \<Rightarrow> Inl (h e) | Inr x \<Rightarrow> Inr x) db) db"
  by (simp add: rename_error_def)

lemma always_call: "always (under_fault lost eff) (call st reading) Q db \<longleftrightarrow>
     Q (reading (fst (eff st db))) (snd (eff st db))
   \<and> Q (reading lost) db \<and> Q (reading lost) (snd (eff st db))"
  by (auto simp: call_def under_fault_def split: fault.splits dest: spec [of _ Fine] spec [of _ Refused] spec [of _ ReplyLost])

text \<open>Runs without faults.\<close>

lemma run_fine_after [simp]:
  "run ex (after p f) [] db = run ex (f (fst (run ex p [] db))) [] (snd (run ex p [] db))"
  by (induction p arbitrary: db) (auto simp: next_fault_def)

lemma run_fine_simps [simp]:
  "run ex (give x) [] db = (Inr x, db)"
  "run ex (fail e) [] db = (Inl e, db)"
  "run (under_fault lost eff) (call st reading) [] db = (reading (fst (eff st db)), snd (eff st db))"
  by (simp_all add: give_def fail_def call_def next_fault_def under_fault_def)

lemma run_fine_attempt [simp]:
  "run ex (attempt p f) [] db =
     (case run ex p [] db of (Inl e, db') \<Rightarrow> (Inl e, db') | (Inr x, db') \<Rightarrow> run ex (f x) [] db')"
  by (simp add: attempt_def fail_def split: prod.splits sum.splits)

lemma run_fine_settle [simp]:
  "run ex (settle p f) [] db = (case run ex p [] db of (r, db') \<Rightarrow> run ex (f r) [] db')"
  by (simp add: settle_def split: prod.splits)

lemma run_fine_rename [simp]:
  "run ex (rename_error h p) [] db =
     (case run ex p [] db of (r, db') \<Rightarrow> (case r of Inl e \<Rightarrow> Inl (h e) | Inr x \<Rightarrow> Inr x, db'))"
  by (simp add: rename_error_def split: prod.splits)

section \<open>Interleavings\<close>

inductive turn :: "('s, 'r, 'd) machine \<Rightarrow> 'd \<times> ('s, 'r, 'a) prog list \<Rightarrow> 'd \<times> ('s, 'r, 'a) prog list \<Rightarrow> bool"
  for ex where
  "i < length ps \<Longrightarrow> ps ! i = Call st k \<Longrightarrow> ex f st db = (r, db')
     \<Longrightarrow> turn ex (db, ps) (db', ps[i := k r])"

inductive_cases turnE: "turn ex (db, ps) c"

text \<open>A schedule says which process moves next and what happens to its statement.\<close>

definition advance :: "('s, 'r, 'd) machine \<Rightarrow> nat \<times> fault \<Rightarrow> 'd \<times> ('s, 'r, 'a) prog list \<Rightarrow> 'd \<times> ('s, 'r, 'a) prog list" where
  "advance ex m c =
     (let (i, f) = m; (db, ps) = c in
      if i < length ps
      then (case ps ! i of
              Done x \<Rightarrow> c
            | Call st k \<Rightarrow> (let (r, db') = ex f st db in (db', ps[i := k r])))
      else c)"

definition schedule :: "('s, 'r, 'd) machine \<Rightarrow> (nat \<times> fault) list \<Rightarrow> 'd \<times> ('s, 'r, 'a) prog list \<Rightarrow> 'd \<times> ('s, 'r, 'a) prog list" where
  "schedule ex ms c = fold (advance ex) ms c"

lemma advance_steps: "(turn ex)\<^sup>*\<^sup>* c (advance ex m c)"
  by (auto simp: advance_def Let_def split: prod.splits prog.splits intro!: r_into_rtranclp turn.intros)

lemma schedule_steps: "(turn ex)\<^sup>*\<^sup>* c (schedule ex ms c)"
  unfolding schedule_def
  by (induction ms arbitrary: c) (simp, metis advance_steps fold_simps(2) rtranclp_trans)

definition forget :: "('s, 'r, 'a) prog \<Rightarrow> ('s, 'r, unit) prog" where
  "forget p = after p (\<lambda>_. Done ())"

text \<open>The invariant at every statement, whatever happened before and whether it fails.\<close>

primrec keeps :: "('s, 'r, 'd) machine \<Rightarrow> ('d \<Rightarrow> bool) \<Rightarrow> ('a \<Rightarrow> bool) \<Rightarrow> ('s, 'r, 'a) prog \<Rightarrow> bool" where
  "keeps ex I Q (Done x) = Q x"
| "keeps ex I Q (Call st k) =
     (\<forall>f db. I db \<longrightarrow> I (snd (ex f st db)) \<and> keeps ex I Q (k (fst (ex f st db))))"

lemma keeps_after: "keeps ex I (\<lambda>x. keeps ex I Q (f x)) p \<Longrightarrow> keeps ex I Q (after p f)"
  by (induction p) auto

lemma keeps_mono: "keeps ex I Q p \<Longrightarrow> (\<And>x. Q x \<Longrightarrow> R x) \<Longrightarrow> keeps ex I R p"
  by (induction p) auto

lemma keeps_step:
  assumes "turn ex (db, ps) (db', ps')" and "I db" and "\<forall>p \<in> set ps. keeps ex I (\<lambda>_. True) p"
  shows "I db' \<and> (\<forall>p \<in> set ps'. keeps ex I (\<lambda>_. True) p)"
proof -
  from assms(1) obtain i st k f r where s: "i < length ps" "ps ! i = Call st k"
      "ex f st db = (r, db')" "ps' = ps[i := k r]"
    by (auto elim: turnE)
  have "keeps ex I (\<lambda>_. True) (Call st k)" using assms(3) s(1,2) by (metis nth_mem)
  with assms(2) have "I (snd (ex f st db)) \<and> keeps ex I (\<lambda>_. True) (k (fst (ex f st db)))"
    by simp
  with s(3) have d: "I db'" "keeps ex I (\<lambda>_. True) (k r)" by simp_all
  with assms(3) show ?thesis by (auto simp: s(4) dest!: set_update_subset_insert [THEN subsetD])
qed

lemma keeps_steps:
  assumes "(turn ex)\<^sup>*\<^sup>* c c'" and "I (fst c)" and "\<forall>p \<in> set (snd c). keeps ex I (\<lambda>_. True) p"
  shows "I (fst c') \<and> (\<forall>p \<in> set (snd c'). keeps ex I (\<lambda>_. True) p)"
  using assms
proof (induction rule: rtranclp_induct)
  case (step b c')
  then have "I (fst b) \<and> (\<forall>p \<in> set (snd b). keeps ex I (\<lambda>_. True) p)" by blast
  with keeps_step [of ex "fst b" "snd b" "fst c'" "snd c'" I] step.hyps(2) show ?case by simp
qed simp

lemma keeps_run:
  "keeps ex I Q p \<Longrightarrow> I db \<Longrightarrow> run ex p fs db = (x, db') \<Longrightarrow> I db' \<and> Q x"
proof (induction p arbitrary: fs db)
  case (Call st k)
  define r where "r = ex (next_fault fs) st db"
  have "I (snd r)" "keeps ex I Q (k (fst r))" using Call.prems(1,2) by (simp_all add: r_def)
  with Call.IH [of "k (fst r)" "snd r" "List.tl fs"] Call.prems(3) show ?case by (simp add: r_def)
qed simp

section \<open>Operations\<close>

text \<open>What an operation that succeeds has established; errors establish nothing.\<close>

definition ensures :: "('s, 'r, 'd) machine \<Rightarrow> ('d \<Rightarrow> bool) \<Rightarrow> ('s, 'r, 'e + 'a) prog \<Rightarrow> ('a \<Rightarrow> bool) \<Rightarrow> bool" where
  "ensures ex I p P \<longleftrightarrow> keeps ex I (\<lambda>r. case r of Inl e \<Rightarrow> True | Inr x \<Rightarrow> P x) p"

lemma ensures_give: "P x \<Longrightarrow> ensures ex I (give x) P"
  by (simp add: ensures_def give_def)

lemma ensures_fail: "ensures ex I (fail e) P"
  by (simp add: ensures_def fail_def)

lemma ensures_attempt:
  "ensures ex I p P \<Longrightarrow> (\<And>x. P x \<Longrightarrow> ensures ex I (f x) R) \<Longrightarrow> ensures ex I (attempt p f) R"
  unfolding ensures_def attempt_def
  by (rule keeps_after, erule keeps_mono) (auto simp: fail_def split: sum.splits)

lemma ensures_settle:
  "ensures ex I p P \<Longrightarrow> (\<And>e. ensures ex I (f (Inl e)) R) \<Longrightarrow> (\<And>x. P x \<Longrightarrow> ensures ex I (f (Inr x)) R)
     \<Longrightarrow> ensures ex I (settle p f) R"
  unfolding ensures_def settle_def
  by (rule keeps_after, erule keeps_mono) (auto split: sum.splits)

lemma ensures_rename: "ensures ex I p P \<Longrightarrow> ensures ex I (rename_error h p) P"
  unfolding ensures_def rename_error_def
  by (rule keeps_after, erule keeps_mono) (auto split: sum.splits)

lemma ensures_mono: "ensures ex I p P \<Longrightarrow> (\<And>x. P x \<Longrightarrow> R x) \<Longrightarrow> ensures ex I p R"
  unfolding ensures_def by (erule keeps_mono) (auto split: sum.splits)

text \<open>A single statement: kept when it runs, and what its reply says.\<close>

lemma ensures_call:
  assumes "\<And>db. I db \<Longrightarrow> I (snd (eff st db))"
    and "\<And>db x. I db \<Longrightarrow> reading (fst (eff st db)) = Inr x \<Longrightarrow> P x"
    and "\<And>x. reading lost = Inr x \<Longrightarrow> P x"
  shows "ensures (under_fault lost eff) I (call st reading) P"
  using assms unfolding ensures_def call_def
  by (auto simp: under_fault_def split: fault.splits sum.splits)

text \<open>The same rules from the result backwards, so that they chain without naming what lies between.\<close>

lemma ensures_simps [simp]: "ensures ex I (give x) P = P x" "ensures ex I (fail e) P"
  by (simp_all add: ensures_def give_def fail_def)

lemma ensures_attemptI: "ensures ex I p (\<lambda>x. ensures ex I (f x) R) \<Longrightarrow> ensures ex I (attempt p f) R"
  by (erule ensures_attempt)

lemma ensures_settleI:
  "ensures ex I p (\<lambda>x. ensures ex I (f (Inr x)) R) \<Longrightarrow> (\<And>e. ensures ex I (f (Inl e)) R)
     \<Longrightarrow> ensures ex I (settle p f) R"
  by (erule ensures_settle) auto

lemma ensures_ifI:
  "(c \<Longrightarrow> ensures ex I a R) \<Longrightarrow> (\<not> c \<Longrightarrow> ensures ex I b R) \<Longrightarrow> ensures ex I (if c then a else b) R"
  by simp

lemma ensures_read:
  assumes "\<And>db. snd (eff st db) = db" and "\<And>x. P x"
  shows "ensures (under_fault lost eff) I (call st reading) P"
  by (rule ensures_call) (simp_all add: assms)

lemmas ensures_rules = ensures_attemptI ensures_settleI ensures_rename ensures_ifI

lemma ensures_forget: "ensures ex I p P \<Longrightarrow> keeps ex I (\<lambda>_. True) (forget p)"
  unfolding ensures_def forget_def by (rule keeps_after, erule keeps_mono) simp

section \<open>Programs that rely on one another\<close>

text \<open>
  \<open>within ex G Q p db\<close>: from \<open>db\<close>, while the others stay within \<open>G\<close>, so does every statement of
  \<open>p\<close>, and \<open>Q\<close> holds of the result from then on.
\<close>

primrec within :: "('s, 'r, 'd) machine \<Rightarrow> ('d \<Rightarrow> 'd \<Rightarrow> bool) \<Rightarrow> ('a \<Rightarrow> 'd \<Rightarrow> bool) \<Rightarrow> ('s, 'r, 'a) prog \<Rightarrow> 'd \<Rightarrow> bool" where
  "within ex G Q (Done x) db = (\<forall>db'. G db db' \<longrightarrow> Q x db')"
| "within ex G Q (Call st k) db =
     (\<forall>f db'. G db db' \<longrightarrow>
        G db' (snd (ex f st db')) \<and> within ex G Q (k (fst (ex f st db'))) (snd (ex f st db')))"

definition lasting :: "('d \<Rightarrow> 'd \<Rightarrow> bool) \<Rightarrow> ('d \<Rightarrow> bool) \<Rightarrow> bool" where
  "lasting G K \<longleftrightarrow> (\<forall>db db'. G db db' \<longrightarrow> K db \<longrightarrow> K db')"

lemma lastingI: "(\<And>db db'. G db db' \<Longrightarrow> K db \<Longrightarrow> K db') \<Longrightarrow> lasting G K"
  by (simp add: lasting_def)

lemma lastingD: "lasting G K \<Longrightarrow> G db db' \<Longrightarrow> K db \<Longrightarrow> K db'"
  by (simp add: lasting_def)

lemma lasting_true [simp]: "lasting G (\<lambda>_. True)"
  by (simp add: lasting_def)

lemma lasting_const [simp]: "lasting G (\<lambda>_. c)"
  by (simp add: lasting_def)

lemma lasting_conj [intro]: "lasting G K \<Longrightarrow> lasting G L \<Longrightarrow> lasting G (\<lambda>db. K db \<and> L db)"
  by (auto simp: lasting_def)

text \<open>An operation that starts where \<open>K\<close> holds and whose success establishes \<open>P\<close>.\<close>

definition success :: "('a \<Rightarrow> 'd \<Rightarrow> bool) \<Rightarrow> 'e + 'a \<Rightarrow> 'd \<Rightarrow> bool" where
  "success P r db \<longleftrightarrow> (\<forall>x. r = Inr x \<longrightarrow> P x db)"

lemma success_simps [simp]: "success P (Inl e) db" "success P (Inr x) db = P x db"
  by (simp_all add: success_def)

definition secures :: "('s, 'r, 'd) machine \<Rightarrow> ('d \<Rightarrow> 'd \<Rightarrow> bool) \<Rightarrow> ('d \<Rightarrow> bool) \<Rightarrow> ('s, 'r, 'e + 'a) prog \<Rightarrow> ('a \<Rightarrow> 'd \<Rightarrow> bool) \<Rightarrow> bool" where
  "secures ex G K p P \<longleftrightarrow>
     (\<forall>db. K db \<longrightarrow> within ex G (success P) p db)"

locale protocol =
  fixes G :: "'d \<Rightarrow> 'd \<Rightarrow> bool"
  assumes same: "G db db"
    and later: "G db db' \<Longrightarrow> G db' db'' \<Longrightarrow> G db db''"
begin

lemma within_later: "within ex G Q p db \<Longrightarrow> G db db' \<Longrightarrow> within ex G Q p db'"
  by (cases p) (auto intro: later)

lemma within_mono: "within ex G Q p db \<Longrightarrow> (\<And>x db. Q x db \<Longrightarrow> R x db) \<Longrightarrow> within ex G R p db"
  by (induction p arbitrary: db) auto

lemma within_after: "within ex G (\<lambda>x. within ex G Q (f x)) p db \<Longrightarrow> within ex G Q (after p f) db"
  by (induction p arbitrary: db) (auto intro: same)

text \<open>What lasts and holds at the start still holds at the end.\<close>

lemma within_frame: "within ex G Q p db \<Longrightarrow> lasting G K \<Longrightarrow> K db \<Longrightarrow> within ex G (\<lambda>x db. Q x db \<and> K db) p db"
proof (induction p arbitrary: db)
  case (Call st k)
  have "within ex G (\<lambda>x db. Q x db \<and> K db) (k (fst (ex f st db'))) (snd (ex f st db'))" if g: "G db db'" for f db'
  proof -
    have w: "G db' (snd (ex f st db'))" "within ex G Q (k (fst (ex f st db'))) (snd (ex f st db'))"
      using Call.prems(1) g by simp_all
    have "K (snd (ex f st db'))" using lastingD [OF Call.prems(2) w(1)] lastingD [OF Call.prems(2) g] Call.prems(3) by simp
    with Call.IH [OF _ w(2) Call.prems(2)] show ?thesis by simp
  qed
  with Call.prems(1) show ?case by simp
qed (auto dest: lastingD)

text \<open>Rules, from the result backwards.\<close>

lemma secures_give: "lasting G (P x) \<Longrightarrow> (\<And>db. K db \<Longrightarrow> P x db) \<Longrightarrow> secures ex G K (give x) P"
  by (auto simp: secures_def give_def dest: lastingD)

lemma secures_fail: "secures ex G K (fail e) P"
  by (simp add: secures_def fail_def)

lemma secures_mono: "secures ex G L p P \<Longrightarrow> (\<And>db. K db \<Longrightarrow> L db) \<Longrightarrow> (\<And>x db. P x db \<Longrightarrow> R x db) \<Longrightarrow> secures ex G K p R"
  unfolding secures_def by (metis within_mono success_def)

lemma secures_settle:
  assumes "secures ex G K p P" and "lasting G K" and "\<And>e. secures ex G K (f (Inl e)) R"
    and "\<And>x. secures ex G (\<lambda>db. K db \<and> P x db) (f (Inr x)) R"
  shows "secures ex G K (settle p f) R"
  unfolding secures_def settle_def
proof (intro allI impI within_after)
  fix db assume "K db"
  with assms(1,2) have "within ex G (\<lambda>r db. success P r db \<and> K db) p db"
    by (simp add: secures_def within_frame)
  moreover have "within ex G (success R) (f r) db" if "success P r db \<and> K db" for r db
    using that assms(3,4) by (cases r) (simp_all add: secures_def)
  ultimately show "within ex G (\<lambda>r. within ex G (success R) (f r)) p db"
    by (rule within_mono)
qed

lemma secures_attempt:
  assumes "secures ex G K p P" and "lasting G K" and "\<And>x. secures ex G (\<lambda>db. K db \<and> P x db) (f x) R"
  shows "secures ex G K (attempt p f) R"
proof -
  have "attempt p f = settle p (\<lambda>r. case r of Inl e \<Rightarrow> fail e | Inr x \<Rightarrow> f x)"
    by (simp add: attempt_def settle_def)
  then show ?thesis using assms by (auto intro!: secures_settle secures_fail)
qed

text \<open>A step of one process keeps what all of them have secured.\<close>

lemma turn_stays:
  assumes "turn ex (db, ps) (db', ps')" and "\<forall>i < length ps. within ex G (Q i) (ps ! i) db"
  shows "G db db' \<and> length ps' = length ps \<and> (\<forall>i < length ps'. within ex G (Q i) (ps' ! i) db')"
proof -
  from assms(1) obtain j st k f r where s: "j < length ps" "ps ! j = Call st k"
      "ex f st db = (r, db')" "ps' = ps[j := k r]"
    by (auto elim: turnE)
  have "within ex G (Q j) (Call st k) db" using assms(2) s(1,2) by metis
  then have "G db (snd (ex f st db)) \<and> within ex G (Q j) (k (fst (ex f st db))) (snd (ex f st db))"
    using same by simp
  with s(3) have d: "G db db'" "within ex G (Q j) (k r) db'" by simp_all
  moreover have "within ex G (Q i) (ps[j := k r] ! i) db'" if "i < length ps" for i
  proof (cases "i = j")
    case False
    with that assms(2) have "within ex G (Q i) (ps ! i) db" by blast
    with False show ?thesis using within_later [OF _ d(1)] by simp
  qed (use that d(2) in simp)
  ultimately show ?thesis by (simp add: s(4))
qed

theorem turns_stay:
  assumes "(turn ex)\<^sup>*\<^sup>* c c'" and "\<forall>i < length (snd c). within ex G (Q i) (snd c ! i) (fst c)"
  shows "G (fst c) (fst c') \<and> length (snd c') = length (snd c)
       \<and> (\<forall>i < length (snd c'). within ex G (Q i) (snd c' ! i) (fst c'))"
  using assms
proof (induction rule: rtranclp_induct)
  case (step b c')
  then have "G (fst c) (fst b)" "length (snd b) = length (snd c)"
    "\<forall>i < length (snd b). within ex G (Q i) (snd b ! i) (fst b)" by simp_all
  with turn_stays [of ex "fst b" "snd b" "fst c'" "snd c'" Q] step.hyps(2) show ?case
    by (auto intro: later)
qed (simp add: same)

corollary finished_within:
  assumes "(turn ex)\<^sup>*\<^sup>* (db, ps) (db', ps')" and "\<forall>i < length ps. within ex G (Q i) (ps ! i) db"
    and "i < length ps" and "ps' ! i = Done x"
  shows "Q i x db'"
proof -
  have "within ex G (Q i) (ps' ! i) db'" using turns_stay [OF assms(1), of Q] assms(2,3) by simp
  then show ?thesis using assms(4) same by simp
qed

lemma run_within: "within ex G Q p db \<Longrightarrow> run ex p fs db = (x, db') \<Longrightarrow> G db db' \<and> Q x db'"
proof (induction p arbitrary: fs db)
  case (Call st k)
  define r where "r = ex (next_fault fs) st db"
  have "G db (snd r)" "within ex G Q (k (fst r)) (snd r)" using Call.prems(1) same by (simp_all add: r_def)
  moreover have "run ex (k (fst r)) (List.tl fs) (snd r) = (x, db')" using Call.prems(2) by (simp add: r_def)
  ultimately show ?case using Call.IH [of "k (fst r)" "snd r" "List.tl fs"] later by blast
qed (simp add: same)

lemma within_forget: "secures ex G K p P \<Longrightarrow> K db \<Longrightarrow> within ex G (\<lambda>_ _. True) (forget p) db"
  unfolding secures_def forget_def by (rule within_after, rule within_mono) auto

lemma within_secured: "secures ex G K p P \<Longrightarrow> K db \<Longrightarrow> within ex G (success P) p db"
  by (simp add: secures_def)

text \<open>A statement: what it does to the state, and what its reply says from then on.\<close>

lemma secures_call:
  assumes "lasting G K" and "\<And>x. lasting G (P x)"
    and "\<And>db. K db \<Longrightarrow> G db (snd (eff st db))"
    and "\<And>db x. K db \<Longrightarrow> reading (fst (eff st db)) = Inr x \<Longrightarrow> P x (snd (eff st db))"
    and "\<And>x. reading lost \<noteq> Inr x"
  shows "secures (under_fault lost eff) G K (call st reading) P"
  unfolding secures_def call_def
proof (intro allI impI)
  fix db assume k: "K db"
  have "G db' (snd (under_fault lost eff f st db'))" if "G db db'" for f db'
    using lastingD [OF assms(1) that k] assms(3) same by (cases f) (auto simp: under_fault_def)
  moreover have "P x db''"
    if "G db db'" "G (snd (under_fault lost eff f st db')) db''"
      "reading (fst (under_fault lost eff f st db')) = Inr x" for f db' db'' x
    using lastingD [OF assms(1) that(1) k] that(2,3) assms(4,5) assms(2) [of x]
    by (cases f) (auto simp: under_fault_def dest: lastingD)
  ultimately show "within (under_fault lost eff) G (success P)
      (Call st (\<lambda>r. Done (reading r))) db"
    by (auto simp: success_def)
qed

end

end
