(* ===== verification/ShareDb.thy ===== *)
theory ShareDb
  imports AccessRoles Programs
begin

text \<open>
  The tables behind organizations and sharing, with the statements the repositories issue:
  \<open>internal/application/repository/organization.go\<close>, \<open>kbshare.go\<close>, \<open>agent_share.go\<close> and
  \<open>tenant_disabled_shared_agent.go\<close>, over the rows of \<open>internal/types/organization.go\<close>.

  A statement is one atomic query, update or transaction. A service operation is a program over
  statements, a tree whose branches are the replies; so replicas may interleave between
  any two statements, and each statement may be refused or lose its reply. The unique indexes are those of
  the PostgreSQL schema. Row identifiers of memberships, which no rule reads, are left out.
\<close>

section \<open>Rows\<close>

type_synonym stamp = int

record org =
  og_id :: string
  og_name :: string
  og_description :: string
  og_avatar :: string
  og_owner_user :: string
  og_owner_tenant :: nat
  og_code :: string
  og_code_expires :: "stamp option"
  og_validity :: int
  og_approval :: bool
  og_searchable :: bool
  og_limit :: int
  og_deleted :: bool

record org_member =
  mb_org :: string
  mb_tenant :: nat
  mb_role :: org_role
  mb_user :: string

datatype request_kind = JoinRequest | UpgradeRequest

datatype request_status = RequestPending | RequestApproved | RequestRejected

record org_request =
  rq_id :: string
  rq_org :: string
  rq_user :: string
  rq_tenant :: nat
  rq_kind :: request_kind
  rq_prev :: org_role
  rq_role :: org_role
  rq_status :: request_status
  rq_message :: string
  rq_reviewer :: string
  rq_review :: string

record kb_share =
  sh_id :: string
  sh_kb :: string
  sh_org :: string
  sh_user :: string
  sh_source :: nat
  sh_permission :: org_role
  sh_created :: stamp
  sh_updated :: stamp
  sh_deleted :: bool

record agent_share =
  sa_id :: string
  sa_agent :: string
  sa_org :: string
  sa_user :: string
  sa_source :: nat
  sa_permission :: org_role
  sa_created :: stamp
  sa_updated :: stamp
  sa_deleted :: bool

text \<open>Of a knowledge base the rules read who owns it.\<close>

record kb_row =
  kb_id :: string
  kb_tenant :: nat
  kb_creator :: string
  kb_deleted :: bool

record share_db =
  db_orgs :: "org list"
  db_members :: "org_member list"
  db_requests :: "org_request list"
  db_shares :: "kb_share list"
  db_agent_shares :: "agent_share list"
  db_kbs :: "kb_row list"
  db_agents :: "(shared_agent \<times> bool) list"
  db_hidden :: "(nat \<times> string \<times> nat) list"

section \<open>Queries\<close>

definition live_org :: "share_db \<Rightarrow> string \<Rightarrow> org option" where
  "live_org db oid = List.find (\<lambda>g. og_id g = oid \<and> \<not> og_deleted g) (db_orgs db)"

definition member_row :: "share_db \<Rightarrow> string \<Rightarrow> nat \<Rightarrow> org_member option" where
  "member_row db oid tenant = List.find (\<lambda>m. mb_org m = oid \<and> mb_tenant m = tenant) (db_members db)"

definition member_count :: "share_db \<Rightarrow> string \<Rightarrow> nat" where
  "member_count db oid = length (filter (\<lambda>m. mb_org m = oid) (db_members db))"

definition live_kb :: "share_db \<Rightarrow> string \<Rightarrow> kb_row option" where
  "live_kb db kid = List.find (\<lambda>k. kb_id k = kid \<and> \<not> kb_deleted k) (db_kbs db)"

text \<open>An agent is found by its identifier and its workspace; the flag says whether it is deleted.\<close>

definition live_agent :: "share_db \<Rightarrow> string \<Rightarrow> nat \<Rightarrow> shared_agent option" where
  "live_agent db aid tenant =
     map_option fst (List.find (\<lambda>(a, deleted). ag_id a = aid \<and> ag_tenant a = tenant \<and> \<not> deleted) (db_agents db))"

text \<open>The shares of a knowledge base, newest first, each with its organization.\<close>

definition shares_of_kb :: "share_db \<Rightarrow> string \<Rightarrow> (kb_share \<times> org option) list" where
  "shares_of_kb db kid =
     map (\<lambda>s. (s, live_org db (sh_org s)))
       (sort_key (\<lambda>s. - sh_created s) (filter (\<lambda>s. sh_kb s = kid \<and> \<not> sh_deleted s) (db_shares db)))"

text \<open>\<open>kbShareSourceMemberJoin\<close> and the joins around it.\<close>

definition share_effective :: "share_db \<Rightarrow> kb_share \<Rightarrow> bool" where
  "share_effective db s \<longleftrightarrow>
     \<not> sh_deleted s \<and> member_row db (sh_org s) (sh_source s) \<noteq> None \<and> live_kb db (sh_kb s) \<noteq> None"

definition shares_of_org :: "share_db \<Rightarrow> string \<Rightarrow> (kb_share \<times> org option) list" where
  "shares_of_org db oid =
     map (\<lambda>s. (s, live_org db (sh_org s)))
       (sort_key (\<lambda>s. - sh_created s) (filter (\<lambda>s. sh_org s = oid \<and> share_effective db s) (db_shares db)))"

definition shares_for_tenant :: "share_db \<Rightarrow> nat \<Rightarrow> (kb_share \<times> org option) list" where
  "shares_for_tenant db tenant =
     map (\<lambda>s. (s, live_org db (sh_org s)))
       (sort_key (\<lambda>s. - sh_created s)
         (filter (\<lambda>s. share_effective db s \<and> member_row db (sh_org s) tenant \<noteq> None
                    \<and> live_org db (sh_org s) \<noteq> None) (db_shares db)))"

definition agent_share_effective :: "share_db \<Rightarrow> agent_share \<Rightarrow> bool" where
  "agent_share_effective db s \<longleftrightarrow>
     \<not> sa_deleted s \<and> member_row db (sa_org s) (sa_source s) \<noteq> None"

text \<open>Shares of live agents that a workspace reaches, each with its agent.\<close>

definition agents_for_tenant :: "share_db \<Rightarrow> nat \<Rightarrow> (agent_share \<times> shared_agent) list" where
  "agents_for_tenant db tenant =
     List.map_filter (\<lambda>s. map_option (Pair s) (live_agent db (sa_agent s) (sa_source s)))
       (sort_key (\<lambda>s. - sa_created s)
         (filter (\<lambda>s. agent_share_effective db s \<and> member_row db (sa_org s) tenant \<noteq> None
                    \<and> live_org db (sa_org s) \<noteq> None) (db_agent_shares db)))"

text \<open>
  The share an agent identifier names for a workspace: the first by identifier of those that
  qualify. Which one is first depends on the collation; \<open>pick\<close> chooses.
\<close>

definition agent_share_by_id :: "(agent_share list \<Rightarrow> agent_share) \<Rightarrow> share_db \<Rightarrow> nat \<Rightarrow> string \<Rightarrow> nat \<Rightarrow> agent_share option" where
  "agent_share_by_id pick db tenant aid excluded =
     (let found = filter (\<lambda>s. sa_agent s = aid \<and> sa_source s \<noteq> excluded \<and> agent_share_effective db s
                        \<and> member_row db (sa_org s) tenant \<noteq> None \<and> live_org db (sa_org s) \<noteq> None)
                    (db_agent_shares db)
      in if found = [] then None else Some (pick found))"

definition agent_share_by_source :: "(agent_share list \<Rightarrow> agent_share) \<Rightarrow> share_db \<Rightarrow> nat \<Rightarrow> string \<Rightarrow> nat \<Rightarrow> agent_share option" where
  "agent_share_by_source pick db tenant aid source =
     (let found = filter (\<lambda>s. sa_agent s = aid \<and> sa_source s = source \<and> agent_share_effective db s
                        \<and> live_agent db aid source \<noteq> None
                        \<and> member_row db (sa_org s) tenant \<noteq> None \<and> live_org db (sa_org s) \<noteq> None)
                    (db_agent_shares db)
      in if found = [] then None else Some (pick found))"

section \<open>Statements\<close>

datatype org_statement =
    SelectOrg string
  | SelectOrgByCode string
  | InsertOrg org
  | UpdateOrg org
  | DeleteOrg string
  | UpdateCode string string "stamp option"

datatype member_statement =
    InsertMember org_member int
  | DeleteMember string nat
  | UpdateRole string nat org_role
  | SelectMember string nat
  | CountMembers string
  | SelectMembers nat "string list"

datatype request_statement =
    InsertRequest org_request
  | SelectRequest string
  | SelectPending string nat request_kind
  | UpdateRequest string request_status string string

datatype kb_share_statement =
    CountShares string string
  | InsertShare kb_share
  | SelectShare string
  | SelectShareOf string string
  | UpdateShare kb_share
  | DeleteShare string
  | DeleteKbShares string
  | DeleteOrgShares string
  | DeleteTenantShares string nat
  | SelectKbShares string
  | SelectOrgShares string
  | SelectSharesFor nat

datatype agent_share_statement =
    CountAgentShares string nat string
  | InsertAgentShare agent_share
  | SelectAgentShare string
  | SelectAgentShareOf string string
  | UpdateAgentShare agent_share
  | DeleteAgentShare string
  | DeleteSharesOfAgent string nat
  | DeleteOrgAgentShares string
  | DeleteTenantAgentShares string nat
  | SelectAgentsFor nat
  | SelectAgentShareById nat string nat
  | SelectAgentShareBySource nat string nat

datatype resource_statement =
    SelectKb string
  | SelectKbs "string list"
  | SelectAgent string nat
  | SelectHidden nat
  | InsertHidden nat string nat
  | DeleteHidden nat string nat

datatype statement =
    Orgs org_statement
  | Members member_statement
  | Requests request_statement
  | KbShares kb_share_statement
  | AgentShares agent_share_statement
  | Resources resource_statement

datatype reply =
    Lost | Ran | Affected nat | Counted nat | Violated
  | MemberLimited | MemberThere
  | OrgReply "org option" | MemberReply "org_member option" | MembersReply "org_member list"
  | RequestReply "org_request option"
  | ShareReply "kb_share option" | SharesReply "(kb_share \<times> org option) list"
  | AgentShareReply "agent_share option" | AgentsReply "(agent_share \<times> shared_agent) list"
  | KbReply "kb_row option" | KbsReply "kb_row list" | AgentReply "shared_agent option"
  | HiddenReply "(nat \<times> string \<times> nat) list"

text \<open>Foreign keys refer to organizations that exist, deleted ones included.\<close>

definition org_exists :: "share_db \<Rightarrow> string \<Rightarrow> bool" where
  "org_exists db oid \<longleftrightarrow> oid \<in> og_id ` set (db_orgs db)"

text \<open>\<open>AddTenantMember\<close> is one transaction: the organization is locked, then the duplicate, the
  limit, the insert.\<close>

definition insert_member :: "org_member \<Rightarrow> int \<Rightarrow> share_db \<Rightarrow> reply \<times> share_db" where
  "insert_member m limit db =
     (if 0 < limit \<and> live_org db (mb_org m) = None then (Lost, db)
      else if member_row db (mb_org m) (mb_tenant m) \<noteq> None then (MemberThere, db)
      else if 0 < limit \<and> limit \<le> int (member_count db (mb_org m)) then (MemberLimited, db)
      else if \<not> org_exists db (mb_org m) then (Violated, db)
      else (Ran, db\<lparr>db_members := db_members db @ [m]\<rparr>))"

definition delete_member :: "string \<Rightarrow> nat \<Rightarrow> share_db \<Rightarrow> reply \<times> share_db" where
  "delete_member oid tenant db =
     (Affected (if member_row db oid tenant = None then 0 else 1),
      db\<lparr>db_members := filter (\<lambda>m. \<not> (mb_org m = oid \<and> mb_tenant m = tenant)) (db_members db)\<rparr>)"

definition update_role :: "string \<Rightarrow> nat \<Rightarrow> org_role \<Rightarrow> share_db \<Rightarrow> reply \<times> share_db" where
  "update_role oid tenant role db =
     (Affected (if member_row db oid tenant = None then 0 else 1),
      db\<lparr>db_members := map (\<lambda>m. if mb_org m = oid \<and> mb_tenant m = tenant then m\<lparr>mb_role := role\<rparr> else m)
          (db_members db)\<rparr>)"

definition update_org :: "org \<Rightarrow> share_db \<Rightarrow> share_db" where
  "update_org u db =
     db\<lparr>db_orgs := map (\<lambda>g. if og_id g = og_id u \<and> \<not> og_deleted g
          then g\<lparr>og_name := og_name u, og_description := og_description u, og_avatar := og_avatar u,
                 og_approval := og_approval u, og_searchable := og_searchable u,
                 og_validity := og_validity u, og_limit := og_limit u\<rparr>
          else g) (db_orgs db)\<rparr>"

definition delete_org :: "string \<Rightarrow> share_db \<Rightarrow> share_db" where
  "delete_org oid db = db\<lparr>db_orgs := map (\<lambda>g. if og_id g = oid then g\<lparr>og_deleted := True\<rparr> else g) (db_orgs db)\<rparr>"

definition update_code :: "string \<Rightarrow> string \<Rightarrow> stamp option \<Rightarrow> share_db \<Rightarrow> share_db" where
  "update_code oid code expires db =
     db\<lparr>db_orgs := map (\<lambda>g. if og_id g = oid \<and> \<not> og_deleted g
          then g\<lparr>og_code := code, og_code_expires := expires\<rparr> else g) (db_orgs db)\<rparr>"

definition update_request :: "string \<Rightarrow> request_status \<Rightarrow> string \<Rightarrow> string \<Rightarrow> share_db \<Rightarrow> share_db" where
  "update_request rid status reviewer review db =
     db\<lparr>db_requests := map (\<lambda>r. if rq_id r = rid
          then r\<lparr>rq_status := status, rq_reviewer := reviewer, rq_review := review\<rparr> else r) (db_requests db)\<rparr>"

text \<open>\<open>Updates\<close> with a struct writes its fields that are not zero.\<close>

definition update_share :: "kb_share \<Rightarrow> share_db \<Rightarrow> share_db" where
  "update_share u db =
     db\<lparr>db_shares := map (\<lambda>s. if sh_id s = sh_id u \<and> \<not> sh_deleted s
          then s\<lparr>sh_kb := (if sh_kb u = [] then sh_kb s else sh_kb u),
                 sh_org := (if sh_org u = [] then sh_org s else sh_org u),
                 sh_user := (if sh_user u = [] then sh_user s else sh_user u),
                 sh_source := (if sh_source u = 0 then sh_source s else sh_source u),
                 sh_permission := (if sh_permission u = no_role then sh_permission s else sh_permission u),
                 sh_created := sh_created u, sh_updated := sh_updated u\<rparr>
          else s) (db_shares db)\<rparr>"

definition drop_shares :: "(kb_share \<Rightarrow> bool) \<Rightarrow> share_db \<Rightarrow> share_db" where
  "drop_shares P db =
     db\<lparr>db_shares := map (\<lambda>s. if P s then s\<lparr>sh_deleted := True\<rparr> else s) (db_shares db)\<rparr>"

definition update_agent_share :: "agent_share \<Rightarrow> share_db \<Rightarrow> share_db" where
  "update_agent_share u db =
     db\<lparr>db_agent_shares := map (\<lambda>s. if sa_id s = sa_id u \<and> \<not> sa_deleted s
          then s\<lparr>sa_agent := (if sa_agent u = [] then sa_agent s else sa_agent u),
                 sa_org := (if sa_org u = [] then sa_org s else sa_org u),
                 sa_user := (if sa_user u = [] then sa_user s else sa_user u),
                 sa_source := (if sa_source u = 0 then sa_source s else sa_source u),
                 sa_permission := (if sa_permission u = no_role then sa_permission s else sa_permission u),
                 sa_created := sa_created u, sa_updated := sa_updated u\<rparr>
          else s) (db_agent_shares db)\<rparr>"

definition drop_agent_shares :: "(agent_share \<Rightarrow> bool) \<Rightarrow> share_db \<Rightarrow> share_db" where
  "drop_agent_shares P db =
     db\<lparr>db_agent_shares := map (\<lambda>s. if P s then s\<lparr>sa_deleted := True\<rparr> else s) (db_agent_shares db)\<rparr>"

text \<open>
  GORM inserts the default of the tag where the struct holds a zero, and sets the field of the struct:
  a limit of 0 becomes 50, a validity of 0 becomes 7 days. Codes are unique among living organizations.
\<close>

definition with_defaults :: "org \<Rightarrow> org" where
  "with_defaults g =
     g\<lparr>og_validity := (if og_validity g = 0 then 7 else og_validity g),
       og_limit := (if og_limit g = 0 then 50 else og_limit g)\<rparr>"

definition insert_org :: "org \<Rightarrow> share_db \<Rightarrow> reply \<times> share_db" where
  "insert_org g db =
     (if org_exists db (og_id g) \<or> list_ex (\<lambda>x. og_code x = og_code g \<and> \<not> og_deleted x) (db_orgs db)
      then (Violated, db)
      else (Ran, db\<lparr>db_orgs := db_orgs db @ [with_defaults g]\<rparr>))"

definition insert_request :: "org_request \<Rightarrow> share_db \<Rightarrow> reply \<times> share_db" where
  "insert_request r db =
     (if rq_id r \<in> rq_id ` set (db_requests db) \<or> \<not> org_exists db (rq_org r)
         \<or> list_ex (\<lambda>q. rq_org q = rq_org r \<and> rq_user q = rq_user r \<and> rq_status q = RequestPending) (db_requests db)
      then (Violated, db)
      else (Ran, db\<lparr>db_requests := db_requests db @ [r]\<rparr>))"

definition insert_share :: "kb_share \<Rightarrow> share_db \<Rightarrow> reply \<times> share_db" where
  "insert_share s db =
     (if sh_id s \<in> sh_id ` set (db_shares db) \<or> \<not> org_exists db (sh_org s)
         \<or> sh_kb s \<notin> kb_id ` set (db_kbs db)
         \<or> list_ex (\<lambda>t. sh_kb t = sh_kb s \<and> sh_org t = sh_org s \<and> \<not> sh_deleted t) (db_shares db)
      then (Violated, db)
      else (Ran, db\<lparr>db_shares := db_shares db @ [s]\<rparr>))"

definition insert_agent_share :: "agent_share \<Rightarrow> share_db \<Rightarrow> reply \<times> share_db" where
  "insert_agent_share s db =
     (if sa_id s \<in> sa_id ` set (db_agent_shares db) \<or> \<not> org_exists db (sa_org s)
         \<or> \<not> list_ex (\<lambda>(a, deleted). ag_id a = sa_agent s \<and> ag_tenant a = sa_source s) (db_agents db)
         \<or> list_ex (\<lambda>t. sa_agent t = sa_agent s \<and> sa_source t = sa_source s \<and> sa_org t = sa_org s
                     \<and> \<not> sa_deleted t) (db_agent_shares db)
      then (Violated, db)
      else (Ran, db\<lparr>db_agent_shares := db_agent_shares db @ [s]\<rparr>))"

text \<open>What a statement that runs answers and leaves behind.\<close>

primrec org_effect :: "org_statement \<Rightarrow> share_db \<Rightarrow> reply \<times> share_db" where
  "org_effect (SelectOrg oid) db = (OrgReply (live_org db oid), db)"
| "org_effect (SelectOrgByCode code) db =
     (OrgReply (List.find (\<lambda>g. og_code g = code \<and> \<not> og_deleted g) (db_orgs db)), db)"
| "org_effect (InsertOrg g) db = insert_org g db"
| "org_effect (UpdateOrg g) db = (Ran, update_org g db)"
| "org_effect (DeleteOrg oid) db = (Ran, delete_org oid db)"
| "org_effect (UpdateCode oid code expires) db = (Ran, update_code oid code expires db)"

primrec member_effect :: "member_statement \<Rightarrow> share_db \<Rightarrow> reply \<times> share_db" where
  "member_effect (InsertMember m limit) db = insert_member m limit db"
| "member_effect (DeleteMember oid tenant) db = delete_member oid tenant db"
| "member_effect (UpdateRole oid tenant role) db = update_role oid tenant role db"
| "member_effect (SelectMember oid tenant) db = (MemberReply (member_row db oid tenant), db)"
| "member_effect (CountMembers oid) db = (Counted (member_count db oid), db)"
| "member_effect (SelectMembers tenant oids) db =
     (MembersReply (filter (\<lambda>m. mb_tenant m = tenant \<and> mb_org m \<in> set oids) (db_members db)), db)"

primrec request_effect :: "request_statement \<Rightarrow> share_db \<Rightarrow> reply \<times> share_db" where
  "request_effect (InsertRequest r) db = insert_request r db"
| "request_effect (SelectRequest rid) db = (RequestReply (List.find (\<lambda>r. rq_id r = rid) (db_requests db)), db)"
| "request_effect (SelectPending oid tenant kind) db =
     (RequestReply (List.find (\<lambda>r. rq_org r = oid \<and> rq_tenant r = tenant \<and> rq_status r = RequestPending
                      \<and> rq_kind r = kind) (db_requests db)), db)"
| "request_effect (UpdateRequest rid status reviewer review) db = (Ran, update_request rid status reviewer review db)"

primrec kb_share_effect :: "kb_share_statement \<Rightarrow> share_db \<Rightarrow> reply \<times> share_db" where
  "kb_share_effect (CountShares kid oid) db =
     (Counted (length (filter (\<lambda>s. sh_kb s = kid \<and> sh_org s = oid \<and> \<not> sh_deleted s) (db_shares db))), db)"
| "kb_share_effect (InsertShare s) db = insert_share s db"
| "kb_share_effect (SelectShare sid) db =
     (ShareReply (List.find (\<lambda>s. sh_id s = sid \<and> \<not> sh_deleted s) (db_shares db)), db)"
| "kb_share_effect (SelectShareOf kid oid) db =
     (ShareReply (List.find (\<lambda>s. sh_kb s = kid \<and> sh_org s = oid \<and> \<not> sh_deleted s) (db_shares db)), db)"
| "kb_share_effect (UpdateShare s) db = (Ran, update_share s db)"
| "kb_share_effect (DeleteShare sid) db = (Ran, drop_shares (\<lambda>s. sh_id s = sid) db)"
| "kb_share_effect (DeleteKbShares kid) db = (Ran, drop_shares (\<lambda>s. sh_kb s = kid) db)"
| "kb_share_effect (DeleteOrgShares oid) db = (Ran, drop_shares (\<lambda>s. sh_org s = oid) db)"
| "kb_share_effect (DeleteTenantShares oid tenant) db = (Ran, drop_shares (\<lambda>s. sh_org s = oid \<and> sh_source s = tenant) db)"
| "kb_share_effect (SelectKbShares kid) db = (SharesReply (shares_of_kb db kid), db)"
| "kb_share_effect (SelectOrgShares oid) db = (SharesReply (shares_of_org db oid), db)"
| "kb_share_effect (SelectSharesFor tenant) db = (SharesReply (shares_for_tenant db tenant), db)"

primrec agent_share_effect :: "agent_share_statement \<Rightarrow> (agent_share list \<Rightarrow> agent_share) \<Rightarrow> share_db \<Rightarrow> reply \<times> share_db" where
  "agent_share_effect (CountAgentShares aid source oid) pick db =
     (Counted (length (filter (\<lambda>s. sa_agent s = aid \<and> sa_source s = source \<and> sa_org s = oid \<and> \<not> sa_deleted s)
        (db_agent_shares db))), db)"
| "agent_share_effect (InsertAgentShare s) pick db = insert_agent_share s db"
| "agent_share_effect (SelectAgentShare sid) pick db =
     (AgentShareReply (List.find (\<lambda>s. sa_id s = sid \<and> \<not> sa_deleted s) (db_agent_shares db)), db)"
| "agent_share_effect (SelectAgentShareOf aid oid) pick db =
     (AgentShareReply (List.find (\<lambda>s. sa_agent s = aid \<and> sa_org s = oid \<and> \<not> sa_deleted s) (db_agent_shares db)), db)"
| "agent_share_effect (UpdateAgentShare s) pick db = (Ran, update_agent_share s db)"
| "agent_share_effect (DeleteAgentShare sid) pick db = (Ran, drop_agent_shares (\<lambda>s. sa_id s = sid) db)"
| "agent_share_effect (DeleteSharesOfAgent aid tenant) pick db =
     (Ran, drop_agent_shares (\<lambda>s. sa_agent s = aid \<and> sa_source s = tenant) db)"
| "agent_share_effect (DeleteOrgAgentShares oid) pick db = (Ran, drop_agent_shares (\<lambda>s. sa_org s = oid) db)"
| "agent_share_effect (DeleteTenantAgentShares oid tenant) pick db =
     (Ran, drop_agent_shares (\<lambda>s. sa_org s = oid \<and> sa_source s = tenant) db)"
| "agent_share_effect (SelectAgentsFor tenant) pick db = (AgentsReply (agents_for_tenant db tenant), db)"
| "agent_share_effect (SelectAgentShareById tenant aid excluded) pick db =
     (AgentShareReply (agent_share_by_id pick db tenant aid excluded), db)"
| "agent_share_effect (SelectAgentShareBySource tenant aid source) pick db =
     (AgentShareReply (agent_share_by_source pick db tenant aid source), db)"

primrec resource_effect :: "resource_statement \<Rightarrow> share_db \<Rightarrow> reply \<times> share_db" where
  "resource_effect (SelectKb kid) db = (KbReply (live_kb db kid), db)"
| "resource_effect (SelectKbs kids) db =
     (KbsReply (filter (\<lambda>k. kb_id k \<in> set kids \<and> \<not> kb_deleted k) (db_kbs db)), db)"
| "resource_effect (SelectAgent aid tenant) db = (AgentReply (live_agent db aid tenant), db)"
| "resource_effect (SelectHidden tenant) db = (HiddenReply (filter (\<lambda>h. fst h = tenant) (db_hidden db)), db)"
| "resource_effect (InsertHidden tenant aid source) db =
     (Ran, db\<lparr>db_hidden := (if (tenant, aid, source) \<in> set (db_hidden db) then db_hidden db
                            else db_hidden db @ [(tenant, aid, source)])\<rparr>)"
| "resource_effect (DeleteHidden tenant aid source) db =
     (Ran, db\<lparr>db_hidden := removeAll (tenant, aid, source) (db_hidden db)\<rparr>)"

primrec effect :: "statement \<Rightarrow> (agent_share list \<Rightarrow> agent_share) \<Rightarrow> share_db \<Rightarrow> reply \<times> share_db" where
  "effect (Orgs c) pick db = org_effect c db"
| "effect (Members c) pick db = member_effect c db"
| "effect (Requests c) pick db = request_effect c db"
| "effect (KbShares c) pick db = kb_share_effect c db"
| "effect (AgentShares c) pick db = agent_share_effect c pick db"
| "effect (Resources c) pick db = resource_effect c db"

text \<open>A statement that may fail, as the program layer runs it.\<close>

abbreviation execute :: "(agent_share list \<Rightarrow> agent_share) \<Rightarrow> fault \<Rightarrow> statement \<Rightarrow> share_db \<Rightarrow> reply \<times> share_db" where
  "execute pick \<equiv> under_fault Lost (\<lambda>st. effect st pick)"

section \<open>Operations\<close>

type_synonym 'a program = "(statement, reply, 'a) prog"

text \<open>Errors of the repositories, then of the services.\<close>

datatype share_error =
    Database | OrgMissing | MemberMissing | MemberExists | LimitReached | CodeMissing | CodeExpired
  | RequestMissing | ShareMissing | ShareExists
  | OrgNotFound | OrgDenied | CannotRemoveOwner | CannotChangeOwner | TenantNotInOrg | InvalidRole
  | InviteExpired | InvalidValidity | NegativeLimit | MemberLimitReached | MemberLimitTooLow
  | PendingExists | RequestNotFound | AlreadyReviewed | SameOrLowerRole | AlreadyAdmin
  | ShareNotFound | ShareDenied | KbNotFound | NotKbOwner | RoleCannotShare
  | AgentMissing | AgentShareMissing | AgentShareExists | AgentShareNotFound | AgentShareDenied
  | AgentNotFound | NotAgentOwner | BuiltinNotShareable | AgentNotConfigured | AgentScopeNotShareable

type_synonym 'a action = "(share_error + 'a) program"

end
