(* ===== verification/Organizations.thy ===== *)
theory Organizations
  imports ShareDb
begin

text \<open>
  Organizations of workspaces: \<open>internal/application/service/organization.go\<close> over the repository
  of \<open>organization.go\<close>. Each operation is a program over statements; times, identifiers and
  invite codes are drawn by the environment. Names, descriptions and avatars travel along; searching by
  text is left out.
\<close>

section \<open>The repository\<close>

definition ran :: "reply \<Rightarrow> share_error + unit" where
  "ran r = (if r = Ran then Inr () else Inl Database)"

definition affected :: "share_error \<Rightarrow> reply \<Rightarrow> share_error + unit" where
  "affected missing r =
     (case r of Affected n \<Rightarrow> if n = 0 then Inl missing else Inr () | _ \<Rightarrow> Inl Database)"

definition counted :: "reply \<Rightarrow> share_error + nat" where
  "counted r = (case r of Counted n \<Rightarrow> Inr n | _ \<Rightarrow> Inl Database)"

definition get_org :: "string \<Rightarrow> org action" where
  "get_org oid = call (Orgs (SelectOrg oid))
     (\<lambda>r. case r of OrgReply g \<Rightarrow> (case g of None \<Rightarrow> Inl OrgMissing | Some g \<Rightarrow> Inr g) | _ \<Rightarrow> Inl Database)"

definition get_org_by_code :: "stamp \<Rightarrow> string \<Rightarrow> org action" where
  "get_org_by_code now code = call (Orgs (SelectOrgByCode code))
     (\<lambda>r. case r of
        OrgReply g \<Rightarrow>
          (case g of
             None \<Rightarrow> Inl CodeMissing
           | Some g \<Rightarrow>
               (case og_code_expires g of
                  Some t \<Rightarrow> if t < now then Inl CodeExpired else Inr g
                | None \<Rightarrow> Inr g))
      | _ \<Rightarrow> Inl Database)"

definition create_org :: "org \<Rightarrow> unit action" where
  "create_org g = call (Orgs (InsertOrg g)) ran"

definition save_org :: "org \<Rightarrow> unit action" where
  "save_org g = call (Orgs (UpdateOrg g)) ran"

definition drop_org :: "string \<Rightarrow> unit action" where
  "drop_org oid = call (Orgs (DeleteOrg oid)) ran"

definition save_code :: "string \<Rightarrow> string \<Rightarrow> stamp option \<Rightarrow> unit action" where
  "save_code oid code expires = call (Orgs (UpdateCode oid code expires)) ran"

definition get_member :: "string \<Rightarrow> nat \<Rightarrow> org_member action" where
  "get_member oid tenant = call (Members (SelectMember oid tenant))
     (\<lambda>r. case r of MemberReply m \<Rightarrow> (case m of None \<Rightarrow> Inl MemberMissing | Some m \<Rightarrow> Inr m) | _ \<Rightarrow> Inl Database)"

definition add_member_row :: "org_member \<Rightarrow> int \<Rightarrow> unit action" where
  "add_member_row m limit = call (Members (InsertMember m limit))
     (\<lambda>r. case r of Ran \<Rightarrow> Inr () | MemberThere \<Rightarrow> Inl MemberExists | MemberLimited \<Rightarrow> Inl LimitReached
        | _ \<Rightarrow> Inl Database)"

definition drop_member :: "string \<Rightarrow> nat \<Rightarrow> unit action" where
  "drop_member oid tenant = call (Members (DeleteMember oid tenant)) (affected MemberMissing)"

definition save_role :: "string \<Rightarrow> nat \<Rightarrow> org_role \<Rightarrow> unit action" where
  "save_role oid tenant role = call (Members (UpdateRole oid tenant role)) (affected MemberMissing)"

definition count_members :: "string \<Rightarrow> nat action" where
  "count_members oid = call (Members (CountMembers oid)) counted"

definition members_of_tenant :: "nat \<Rightarrow> string list \<Rightarrow> org_member list action" where
  "members_of_tenant tenant oids =
     (if oids = [] then give []
      else call (Members (SelectMembers tenant oids))
        (\<lambda>r. case r of MembersReply ms \<Rightarrow> Inr ms | _ \<Rightarrow> Inl Database))"

definition read_request :: "reply \<Rightarrow> share_error + org_request" where
  "read_request r =
     (case r of RequestReply q \<Rightarrow> (case q of None \<Rightarrow> Inl RequestMissing | Some q \<Rightarrow> Inr q) | _ \<Rightarrow> Inl Database)"

definition create_request :: "org_request \<Rightarrow> unit action" where
  "create_request q = call (Requests (InsertRequest q)) ran"

definition get_request :: "string \<Rightarrow> org_request action" where
  "get_request rid = call (Requests (SelectRequest rid)) read_request"

definition pending_request :: "string \<Rightarrow> nat \<Rightarrow> request_kind \<Rightarrow> org_request action" where
  "pending_request oid tenant kind = call (Requests (SelectPending oid tenant kind)) read_request"

definition save_request :: "string \<Rightarrow> request_status \<Rightarrow> string \<Rightarrow> string \<Rightarrow> unit action" where
  "save_request rid status reviewer review = call (Requests (UpdateRequest rid status reviewer review)) ran"

text \<open>Revoking shares, as the service needs it.\<close>

definition drop_org_shares :: "string \<Rightarrow> unit action" where
  "drop_org_shares oid = call (KbShares (DeleteOrgShares oid)) ran"

definition drop_org_agent_shares :: "string \<Rightarrow> unit action" where
  "drop_org_agent_shares oid = call (AgentShares (DeleteOrgAgentShares oid)) ran"

definition drop_tenant_shares :: "string \<Rightarrow> nat \<Rightarrow> unit action" where
  "drop_tenant_shares oid tenant = call (KbShares (DeleteTenantShares oid tenant)) ran"

definition drop_tenant_agent_shares :: "string \<Rightarrow> nat \<Rightarrow> unit action" where
  "drop_tenant_agent_shares oid tenant = call (AgentShares (DeleteTenantAgentShares oid tenant)) ran"

section \<open>Organizations\<close>

definition validity_days :: "int set" where
  "validity_days = {0, 1, 7, 30}"

definition default_validity :: int where
  "default_validity = 7"

definition default_limit :: int where
  "default_limit = 200"

definition invite_expiry :: "int \<Rightarrow> stamp \<Rightarrow> stamp option" where
  "invite_expiry days now = (if days = 0 then None else Some (now + days * 86400))"

record create_org_request =
  co_name :: string
  co_description :: string
  co_avatar :: string
  co_validity :: "int option"
  co_limit :: "int option"

definition new_org :: "string \<Rightarrow> nat \<Rightarrow> create_org_request \<Rightarrow> int \<Rightarrow> int \<Rightarrow> string \<Rightarrow> string \<Rightarrow> stamp \<Rightarrow> org" where
  "new_org user tenant req days limit oid code now =
     \<lparr>og_id = oid, og_name = co_name req, og_description = co_description req,
      og_avatar = trim_space (co_avatar req), og_owner_user = user, og_owner_tenant = tenant,
      og_code = code, og_code_expires = invite_expiry days now, og_validity = days,
      og_approval = False, og_searchable = False, og_limit = limit, og_deleted = False\<rparr>"

definition create_organization ::
    "string \<Rightarrow> nat \<Rightarrow> create_org_request \<Rightarrow> string \<Rightarrow> string \<Rightarrow> stamp \<Rightarrow> org action" where
  "create_organization user tenant req oid code now =
     (let days = (case co_validity req of None \<Rightarrow> default_validity | Some d \<Rightarrow> d);
          limit = (case co_limit req of None \<Rightarrow> default_limit | Some l \<Rightarrow> l) in
      if days \<notin> validity_days then fail InvalidValidity
      else if limit < 0 then fail NegativeLimit
      else
        (let g = new_org user tenant req days limit oid code now in
         attempt (create_org g) (\<lambda>_.
         settle (add_member_row \<lparr>mb_org = oid, mb_tenant = tenant, mb_role = OrgAdmin, mb_user = user\<rparr> 0) (\<lambda>r.
         case r of
           Inl e \<Rightarrow> settle (drop_org oid) (\<lambda>_. fail e)
         | Inr _ \<Rightarrow> give (with_defaults g)))))"

definition not_found_to :: "share_error \<Rightarrow> share_error \<Rightarrow> share_error \<Rightarrow> share_error" where
  "not_found_to missing named e = (if e = missing then named else e)"

definition get_organization :: "string \<Rightarrow> org action" where
  "get_organization oid = rename_error (not_found_to OrgMissing OrgNotFound) (get_org oid)"

definition code_error :: "share_error \<Rightarrow> share_error" where
  "code_error e = (if e = CodeMissing then OrgNotFound else if e = CodeExpired then InviteExpired else e)"

definition get_organization_by_code :: "stamp \<Rightarrow> string \<Rightarrow> org action" where
  "get_organization_by_code now code = rename_error code_error (get_org_by_code now code)"

text \<open>Roles of a workspace in an organization.\<close>

definition is_org_admin :: "string \<Rightarrow> nat \<Rightarrow> bool action" where
  "is_org_admin oid tenant =
     settle (get_member oid tenant) (\<lambda>r.
     case r of
       Inl e \<Rightarrow> if e = MemberMissing then give False else fail e
     | Inr m \<Rightarrow> give (mb_role m = OrgAdmin))"

definition get_tenant_member :: "string \<Rightarrow> nat \<Rightarrow> org_member action" where
  "get_tenant_member oid tenant = rename_error (not_found_to MemberMissing TenantNotInOrg) (get_member oid tenant)"

definition tenant_role_in_org :: "string \<Rightarrow> nat \<Rightarrow> org_role action" where
  "tenant_role_in_org oid tenant =
     attempt (rename_error (not_found_to MemberMissing TenantNotInOrg) (get_member oid tenant)) (\<lambda>m. give (mb_role m))"

text \<open>An organization without an owning workspace treats every workspace as its owner.\<close>

definition is_owner_tenant :: "org \<Rightarrow> nat \<Rightarrow> bool" where
  "is_owner_tenant g tenant \<longleftrightarrow> og_owner_tenant g = 0 \<or> og_owner_tenant g = tenant"

record update_org_request =
  uo_name :: "string option"
  uo_description :: "string option"
  uo_avatar :: "string option"
  uo_approval :: "bool option"
  uo_searchable :: "bool option"
  uo_validity :: "int option"
  uo_limit :: "int option"

definition set_or :: "'a option \<Rightarrow> 'a \<Rightarrow> 'a" where
  "set_or new old = (case new of None \<Rightarrow> old | Some x \<Rightarrow> x)"

definition patched_org :: "update_org_request \<Rightarrow> org \<Rightarrow> org" where
  "patched_org req g =
     g\<lparr>og_name := set_or (uo_name req) (og_name g),
       og_description := set_or (uo_description req) (og_description g),
       og_avatar := (case uo_avatar req of None \<Rightarrow> og_avatar g | Some a \<Rightarrow> trim_space a),
       og_approval := set_or (uo_approval req) (og_approval g),
       og_searchable := set_or (uo_searchable req) (og_searchable g),
       og_validity := set_or (uo_validity req) (og_validity g),
       og_limit := set_or (uo_limit req) (og_limit g)\<rparr>"

text \<open>A positive limit must cover the members there are.\<close>

definition check_limit :: "string \<Rightarrow> int option \<Rightarrow> unit action" where
  "check_limit oid limit =
     (case limit of
        None \<Rightarrow> give ()
      | Some l \<Rightarrow>
          if l < 0 then fail NegativeLimit
          else if l = 0 then give ()
          else attempt (count_members oid) (\<lambda>n. if l < int n then fail MemberLimitTooLow else give ()))"

definition update_organization :: "string \<Rightarrow> nat \<Rightarrow> update_org_request \<Rightarrow> org action" where
  "update_organization oid tenant req =
     attempt (is_org_admin oid tenant) (\<lambda>admin.
     if \<not> admin then fail OrgDenied
     else attempt (get_org oid) (\<lambda>g.
       if (case uo_validity req of Some d \<Rightarrow> d \<notin> validity_days | None \<Rightarrow> False) then fail InvalidValidity
       else attempt (check_limit oid (uo_limit req)) (\<lambda>_.
         let new = patched_org req g in
         attempt (save_org new) (\<lambda>_. give new))))"

definition delete_organization :: "string \<Rightarrow> string \<Rightarrow> nat \<Rightarrow> unit action" where
  "delete_organization oid user tenant =
     attempt (get_org oid) (\<lambda>g.
     if \<not> (og_owner_tenant g \<noteq> 0 \<and> og_owner_tenant g = tenant)
        \<and> \<not> (og_owner_tenant g = 0 \<and> og_owner_user g = user)
     then fail OrgDenied
     else settle (drop_org_shares oid) (\<lambda>_.
          settle (drop_org_agent_shares oid) (\<lambda>_.
          drop_org oid)))"

definition generate_invite_code :: "string \<Rightarrow> nat \<Rightarrow> string \<Rightarrow> stamp \<Rightarrow> string action" where
  "generate_invite_code oid tenant code now =
     attempt (is_org_admin oid tenant) (\<lambda>admin.
     if \<not> admin then fail OrgDenied
     else attempt (get_org oid) (\<lambda>g.
       let days = (if og_validity g \<noteq> 0 \<and> og_validity g \<notin> validity_days then default_validity else og_validity g) in
       attempt (save_code oid code (invite_expiry days now)) (\<lambda>_. give code)))"

section \<open>Members\<close>

definition add_within_limit :: "org_member \<Rightarrow> int \<Rightarrow> unit action" where
  "add_within_limit m limit = rename_error (not_found_to LimitReached MemberLimitReached) (add_member_row m limit)"

definition add_tenant_member :: "string \<Rightarrow> nat \<Rightarrow> string \<Rightarrow> org_role \<Rightarrow> unit action" where
  "add_tenant_member oid tenant user role =
     (if \<not> org_role_valid role then fail InvalidRole
      else attempt (get_org oid) (\<lambda>g.
        add_within_limit \<lparr>mb_org = oid, mb_tenant = tenant, mb_role = role, mb_user = user\<rparr> (og_limit g)))"

definition revoke_tenant_shares :: "string \<Rightarrow> nat \<Rightarrow> unit action" where
  "revoke_tenant_shares oid tenant =
     settle (drop_tenant_shares oid tenant) (\<lambda>_.
     settle (drop_tenant_agent_shares oid tenant) (\<lambda>_. give ()))"

definition remove_tenant_member :: "string \<Rightarrow> nat \<Rightarrow> nat \<Rightarrow> unit action" where
  "remove_tenant_member oid tenant operator =
     attempt (get_org oid) (\<lambda>g.
     if is_owner_tenant g tenant then fail CannotRemoveOwner
     else attempt (if operator = tenant then give True else is_org_admin oid operator) (\<lambda>allowed.
       if \<not> allowed then fail OrgDenied
       else attempt (drop_member oid tenant) (\<lambda>_. revoke_tenant_shares oid tenant)))"

definition update_tenant_member_role :: "string \<Rightarrow> nat \<Rightarrow> org_role \<Rightarrow> nat \<Rightarrow> unit action" where
  "update_tenant_member_role oid tenant role operator =
     (if \<not> org_role_valid role then fail InvalidRole
      else attempt (is_org_admin oid operator) (\<lambda>admin.
        if \<not> admin then fail OrgDenied
        else attempt (get_org oid) (\<lambda>g.
          if is_owner_tenant g tenant then fail CannotChangeOwner
          else save_role oid tenant role)))"

definition join_as_viewer :: "org \<Rightarrow> string \<Rightarrow> nat \<Rightarrow> unit action" where
  "join_as_viewer g user tenant =
     settle (get_member (og_id g) tenant) (\<lambda>r.
     case r of
       Inr _ \<Rightarrow> give ()
     | Inl e \<Rightarrow>
         if e \<noteq> MemberMissing then fail e
         else add_within_limit
           \<lparr>mb_org = og_id g, mb_tenant = tenant, mb_role = OrgViewer, mb_user = user\<rparr> (og_limit g))"

definition join_by_invite_code :: "stamp \<Rightarrow> string \<Rightarrow> string \<Rightarrow> nat \<Rightarrow> org action" where
  "join_by_invite_code now code user tenant =
     attempt (rename_error code_error (get_org_by_code now code)) (\<lambda>g.
     if og_approval g then fail OrgDenied
     else attempt (join_as_viewer g user tenant) (\<lambda>_. give g))"

section \<open>Requests\<close>

definition no_pending :: "string \<Rightarrow> nat \<Rightarrow> request_kind \<Rightarrow> unit action" where
  "no_pending oid tenant kind =
     settle (pending_request oid tenant kind) (\<lambda>r. case r of Inr _ \<Rightarrow> fail PendingExists | Inl _ \<Rightarrow> give ())"

definition room_left :: "org \<Rightarrow> unit action" where
  "room_left g =
     (if og_limit g \<le> 0 then give ()
      else attempt (count_members (og_id g)) (\<lambda>n. if og_limit g \<le> int n then fail MemberLimitReached else give ()))"

definition submit_join_request ::
    "string \<Rightarrow> string \<Rightarrow> nat \<Rightarrow> string \<Rightarrow> org_role \<Rightarrow> string \<Rightarrow> org_request action" where
  "submit_join_request oid user tenant message role rid =
     attempt (no_pending oid tenant JoinRequest) (\<lambda>_.
     attempt (rename_error (not_found_to OrgMissing OrgNotFound) (get_org oid)) (\<lambda>g.
     attempt (room_left g) (\<lambda>_.
       let q = \<lparr>rq_id = rid, rq_org = oid, rq_user = user, rq_tenant = tenant, rq_kind = JoinRequest,
                rq_prev = no_role, rq_role = (if org_role_valid role then role else OrgViewer),
                rq_status = RequestPending, rq_message = message, rq_reviewer = [], rq_review = []\<rparr> in
       attempt (create_request q) (\<lambda>_. give q))))"

definition join_by_organization_id ::
    "string \<Rightarrow> string \<Rightarrow> nat \<Rightarrow> string \<Rightarrow> org_role \<Rightarrow> string \<Rightarrow> org action" where
  "join_by_organization_id oid user tenant message role rid =
     attempt (rename_error (not_found_to OrgMissing OrgNotFound) (get_org oid)) (\<lambda>g.
     if \<not> og_searchable g then fail OrgDenied
     else settle (get_member oid tenant) (\<lambda>r.
       case r of
         Inr _ \<Rightarrow> give g
       | Inl _ \<Rightarrow>
           if role \<noteq> no_role \<and> \<not> org_role_valid role then fail InvalidRole
           else
             (let role = (if role = no_role then OrgViewer else role) in
              if og_approval g
              then attempt (submit_join_request oid user tenant message role rid) (\<lambda>_. give g)
              else attempt (join_as_viewer g user tenant) (\<lambda>_. give g))))"

definition granted_role :: "org_role option \<Rightarrow> org_request \<Rightarrow> org_role" where
  "granted_role assign q =
     (case assign of
        Some r \<Rightarrow> if org_role_valid r then r
                  else if org_role_valid (rq_role q) then rq_role q else OrgViewer
      | None \<Rightarrow> if org_role_valid (rq_role q) then rq_role q else OrgViewer)"

definition approve_request :: "org_request \<Rightarrow> org_role \<Rightarrow> unit action" where
  "approve_request q role =
     (if rq_kind q = UpgradeRequest then save_role (rq_org q) (rq_tenant q) role
      else attempt (get_org (rq_org q)) (\<lambda>g.
        add_within_limit
          \<lparr>mb_org = rq_org q, mb_tenant = rq_tenant q, mb_role = role, mb_user = rq_user q\<rparr> (og_limit g)))"

definition review_join_request ::
    "string \<Rightarrow> string \<Rightarrow> bool \<Rightarrow> string \<Rightarrow> string \<Rightarrow> org_role option \<Rightarrow> unit action" where
  "review_join_request oid rid approved reviewer review assign =
     attempt (rename_error (\<lambda>_. RequestNotFound) (get_request rid)) (\<lambda>q.
     if rq_org q \<noteq> oid then fail RequestNotFound
     else if rq_status q \<noteq> RequestPending then fail AlreadyReviewed
     else attempt (if approved then approve_request q (granted_role assign q) else give ()) (\<lambda>_.
       save_request rid (if approved then RequestApproved else RequestRejected) reviewer review))"

definition request_role_upgrade ::
    "string \<Rightarrow> string \<Rightarrow> nat \<Rightarrow> org_role \<Rightarrow> string \<Rightarrow> string \<Rightarrow> org_request action" where
  "request_role_upgrade oid user tenant role message rid =
     attempt (rename_error (not_found_to MemberMissing TenantNotInOrg) (get_member oid tenant)) (\<lambda>m.
     if \<not> org_role_valid role then fail InvalidRole
     else if mb_role m = OrgAdmin then fail AlreadyAdmin
     else if \<not> org_has role (mb_role m) \<or> role = mb_role m then fail SameOrLowerRole
     else attempt (no_pending oid tenant UpgradeRequest) (\<lambda>_.
       let q = \<lparr>rq_id = rid, rq_org = oid, rq_user = user, rq_tenant = tenant, rq_kind = UpgradeRequest,
                rq_prev = mb_role m, rq_role = role, rq_status = RequestPending, rq_message = message,
                rq_reviewer = [], rq_review = []\<rparr> in
       attempt (create_request q) (\<lambda>_. give q)))"

definition pending_upgrade_request :: "string \<Rightarrow> nat \<Rightarrow> org_request action" where
  "pending_upgrade_request oid tenant =
     rename_error (not_found_to RequestMissing RequestNotFound) (pending_request oid tenant UpgradeRequest)"

end
