(* ===== verification/Sharing.thy ===== *)
theory Sharing
  imports Organizations
begin

text \<open>
  Sharing knowledge bases and agents with organizations:
  \<open>internal/application/service/kbshare.go\<close>, \<open>agent_share.go\<close> and \<open>agent_share_scope.go\<close>. What a
  workspace may do with a shared knowledge base is the least of three: the permission of the share, the role of
  the workspace in the organization, and a cap for callers who only view in their own workspace.
  Counts, names for display and audit entries are left out.
\<close>

section \<open>The repositories\<close>

definition read_share :: "reply \<Rightarrow> share_error + kb_share" where
  "read_share r =
     (case r of ShareReply s \<Rightarrow> (case s of None \<Rightarrow> Inl ShareMissing | Some s \<Rightarrow> Inr s) | _ \<Rightarrow> Inl Database)"

definition read_shares :: "reply \<Rightarrow> share_error + (kb_share \<times> org option) list" where
  "read_shares r = (case r of SharesReply ss \<Rightarrow> Inr ss | _ \<Rightarrow> Inl Database)"

text \<open>\<open>Create\<close> ignores an error of the count, so the unique index decides then.\<close>

definition create_share :: "kb_share \<Rightarrow> unit action" where
  "create_share s =
     settle (call (KbShares (CountShares (sh_kb s) (sh_org s))) counted) (\<lambda>r.
     if (case r of Inr n \<Rightarrow> 0 < n | Inl _ \<Rightarrow> False) then fail ShareExists
     else call (KbShares (InsertShare s)) ran)"

definition get_share_row :: "string \<Rightarrow> kb_share action" where
  "get_share_row sid = call (KbShares (SelectShare sid)) read_share"

definition get_share_of :: "string \<Rightarrow> string \<Rightarrow> kb_share action" where
  "get_share_of kid oid = call (KbShares (SelectShareOf kid oid)) read_share"

definition save_share :: "kb_share \<Rightarrow> unit action" where
  "save_share s = call (KbShares (UpdateShare s)) ran"

definition drop_share :: "string \<Rightarrow> unit action" where
  "drop_share sid = call (KbShares (DeleteShare sid)) ran"

definition drop_kb_shares :: "string \<Rightarrow> unit action" where
  "drop_kb_shares kid = call (KbShares (DeleteKbShares kid)) ran"

definition list_kb_shares :: "string \<Rightarrow> (kb_share \<times> org option) list action" where
  "list_kb_shares kid = call (KbShares (SelectKbShares kid)) read_shares"

definition list_org_shares :: "string \<Rightarrow> (kb_share \<times> org option) list action" where
  "list_org_shares oid = call (KbShares (SelectOrgShares oid)) read_shares"

definition list_shares_for :: "nat \<Rightarrow> (kb_share \<times> org option) list action" where
  "list_shares_for tenant = call (KbShares (SelectSharesFor tenant)) read_shares"

definition get_kb :: "string \<Rightarrow> kb_row action" where
  "get_kb kid = call (Resources (SelectKb kid))
     (\<lambda>r. case r of KbReply k \<Rightarrow> (case k of None \<Rightarrow> Inl KbNotFound | Some k \<Rightarrow> Inr k) | _ \<Rightarrow> Inl Database)"

definition get_kbs :: "string list \<Rightarrow> kb_row list action" where
  "get_kbs kids = call (Resources (SelectKbs kids)) (\<lambda>r. case r of KbsReply ks \<Rightarrow> Inr ks | _ \<Rightarrow> Inl Database)"

definition get_agent :: "string \<Rightarrow> nat \<Rightarrow> shared_agent action" where
  "get_agent aid tenant = call (Resources (SelectAgent aid tenant))
     (\<lambda>r. case r of AgentReply a \<Rightarrow> (case a of None \<Rightarrow> Inl AgentMissing | Some a \<Rightarrow> Inr a) | _ \<Rightarrow> Inl Database)"

definition read_agent_share :: "reply \<Rightarrow> share_error + agent_share" where
  "read_agent_share r =
     (case r of AgentShareReply s \<Rightarrow> (case s of None \<Rightarrow> Inl AgentShareMissing | Some s \<Rightarrow> Inr s)
      | _ \<Rightarrow> Inl Database)"

definition create_agent_share :: "agent_share \<Rightarrow> unit action" where
  "create_agent_share s =
     settle (call (AgentShares (CountAgentShares (sa_agent s) (sa_source s) (sa_org s))) counted) (\<lambda>r.
     if (case r of Inr n \<Rightarrow> 0 < n | Inl _ \<Rightarrow> False) then fail AgentShareExists
     else call (AgentShares (InsertAgentShare s)) ran)"

definition get_agent_share :: "string \<Rightarrow> agent_share action" where
  "get_agent_share sid = call (AgentShares (SelectAgentShare sid)) read_agent_share"

definition get_agent_share_of :: "string \<Rightarrow> string \<Rightarrow> agent_share action" where
  "get_agent_share_of aid oid = call (AgentShares (SelectAgentShareOf aid oid)) read_agent_share"

definition save_agent_share :: "agent_share \<Rightarrow> unit action" where
  "save_agent_share s = call (AgentShares (UpdateAgentShare s)) ran"

definition drop_agent_share :: "string \<Rightarrow> unit action" where
  "drop_agent_share sid = call (AgentShares (DeleteAgentShare sid)) ran"

definition drop_shares_of_agent :: "string \<Rightarrow> nat \<Rightarrow> unit action" where
  "drop_shares_of_agent aid tenant = call (AgentShares (DeleteSharesOfAgent aid tenant)) ran"

definition list_agents_for :: "nat \<Rightarrow> (agent_share \<times> shared_agent) list action" where
  "list_agents_for tenant = call (AgentShares (SelectAgentsFor tenant))
     (\<lambda>r. case r of AgentsReply xs \<Rightarrow> Inr xs | _ \<Rightarrow> Inl Database)"

definition share_of_agent_for :: "nat \<Rightarrow> string \<Rightarrow> nat \<Rightarrow> agent_share action" where
  "share_of_agent_for tenant aid excluded = call (AgentShares (SelectAgentShareById tenant aid excluded)) read_agent_share"

definition share_of_source_for :: "nat \<Rightarrow> string \<Rightarrow> nat \<Rightarrow> agent_share action" where
  "share_of_source_for tenant aid source = call (AgentShares (SelectAgentShareBySource tenant aid source)) read_agent_share"

section \<open>Shares of knowledge bases\<close>

definition tenant_role_cap :: "org_role \<Rightarrow> tenant_role \<Rightarrow> org_role" where
  "tenant_role_cap p role = (if role = TenantViewer \<and> org_has p OrgEditor then OrgViewer else p)"

definition effective_role :: "org_role \<Rightarrow> org_role \<Rightarrow> tenant_role \<Rightarrow> org_role" where
  "effective_role permission member role = tenant_role_cap (min_org_role permission member) role"

definition may_share_into :: "string \<Rightarrow> nat \<Rightarrow> unit action" where
  "may_share_into oid tenant =
     attempt (rename_error (not_found_to OrgMissing OrgNotFound) (get_org oid)) (\<lambda>_.
     attempt (rename_error (not_found_to MemberMissing TenantNotInOrg) (get_member oid tenant)) (\<lambda>m.
     if \<not> org_has (mb_role m) OrgEditor then fail RoleCannotShare else give ()))"

definition share_knowledge_base ::
    "string \<Rightarrow> string \<Rightarrow> string \<Rightarrow> nat \<Rightarrow> org_role \<Rightarrow> string \<Rightarrow> stamp \<Rightarrow> kb_share action" where
  "share_knowledge_base kid oid user tenant permission sid now =
     attempt (rename_error (\<lambda>_. KbNotFound) (get_kb kid)) (\<lambda>k.
     if kb_tenant k \<noteq> tenant then fail NotKbOwner
     else attempt (may_share_into oid tenant) (\<lambda>_.
       if \<not> org_role_valid permission then fail InvalidRole
       else
         (let s = \<lparr>sh_id = sid, sh_kb = kid, sh_org = oid, sh_user = user, sh_source = tenant,
                   sh_permission = permission, sh_created = now, sh_updated = now, sh_deleted = False\<rparr> in
          settle (create_share s) (\<lambda>r.
          case r of
            Inr _ \<Rightarrow> give s
          | Inl e \<Rightarrow>
              if e \<noteq> ShareExists then fail e
              else attempt (get_share_of kid oid) (\<lambda>old.
                let new = old\<lparr>sh_permission := permission, sh_updated := now\<rparr> in
                attempt (save_share new) (\<lambda>_. give new))))))"

record share_record =
  sr_user :: string
  sr_source :: nat
  sr_org :: string
  sr_permission :: org_role

text \<open>\<open>role\<close> is the caller's role in the context; no requested permission is a removal.\<close>

definition can_manage_share :: "tenant_role \<Rightarrow> share_record \<Rightarrow> org_role \<Rightarrow> string \<Rightarrow> nat \<Rightarrow> bool action" where
  "can_manage_share role s requested user tenant =
     (if tenant = 0 then give False
      else if tenant = sr_source s
              \<and> ((user \<noteq> [] \<and> sr_user s = user \<and> tenant_has role TenantContributor) \<or> tenant_has role TenantAdmin)
      then give True
      else if \<not> tenant_has role TenantAdmin then give False
      else if requested \<noteq> no_role \<and> \<not> org_has (sr_permission s) requested then give False
      else settle (get_member (sr_org s) tenant) (\<lambda>r.
        give (case r of Inr m \<Rightarrow> mb_role m = OrgAdmin | Inl _ \<Rightarrow> False)))"

definition kb_share_record :: "kb_share \<Rightarrow> share_record" where
  "kb_share_record s =
     \<lparr>sr_user = sh_user s, sr_source = sh_source s, sr_org = sh_org s, sr_permission = sh_permission s\<rparr>"

definition update_share_permission ::
    "tenant_role \<Rightarrow> string \<Rightarrow> org_role \<Rightarrow> string \<Rightarrow> nat \<Rightarrow> stamp \<Rightarrow> unit action" where
  "update_share_permission role sid permission user tenant now =
     attempt (rename_error (not_found_to ShareMissing ShareNotFound) (get_share_row sid)) (\<lambda>s.
     if \<not> org_role_valid permission then fail InvalidRole
     else attempt (can_manage_share role (kb_share_record s) permission user tenant) (\<lambda>ok.
       if \<not> ok then fail ShareDenied
       else save_share (s\<lparr>sh_permission := permission, sh_updated := now\<rparr>)))"

definition remove_share :: "tenant_role \<Rightarrow> string \<Rightarrow> string \<Rightarrow> nat \<Rightarrow> unit action" where
  "remove_share role sid user tenant =
     attempt (rename_error (not_found_to ShareMissing ShareNotFound) (get_share_row sid)) (\<lambda>s.
     attempt (can_manage_share role (kb_share_record s) no_role user tenant) (\<lambda>ok.
       if \<not> ok then fail ShareDenied else drop_share sid))"

definition list_shares_by_kb :: "string \<Rightarrow> nat \<Rightarrow> (kb_share \<times> org option) list action" where
  "list_shares_by_kb kid tenant =
     attempt (rename_error (\<lambda>_. KbNotFound) (get_kb kid)) (\<lambda>k.
     if kb_tenant k \<noteq> tenant then fail NotKbOwner else list_kb_shares kid)"

text \<open>The highest permission over the shares of a knowledge base, and whether there is one.\<close>

fun best_permission ::
    "nat \<Rightarrow> tenant_role \<Rightarrow> (kb_share \<times> org option) list \<Rightarrow> org_role \<Rightarrow> bool \<Rightarrow> (org_role \<times> bool) action" where
  "best_permission tenant role [] highest shared = give (highest, shared)"
| "best_permission tenant role ((s, g) # rest) highest shared =
     (if g = None then best_permission tenant role rest highest shared
      else settle (get_member (sh_org s) (sh_source s)) (\<lambda>src.
        case src of
          Inl _ \<Rightarrow> best_permission tenant role rest highest shared
        | Inr _ \<Rightarrow> settle (get_member (sh_org s) tenant) (\<lambda>r.
            case r of
              Inl _ \<Rightarrow> best_permission tenant role rest highest shared
            | Inr m \<Rightarrow>
                (let eff = effective_role (sh_permission s) (mb_role m) role in
                 best_permission tenant role rest
                   (if highest = no_role \<or> org_has eff highest then eff else highest) True))))"

definition check_tenant_kb_permission :: "string \<Rightarrow> nat \<Rightarrow> tenant_role \<Rightarrow> (org_role \<times> bool) action" where
  "check_tenant_kb_permission kid tenant role =
     attempt (list_kb_shares kid) (\<lambda>ss. best_permission tenant role ss no_role False)"

text \<open>What the list of shared knowledge bases shows: for each the best permission.\<close>

fun shared_kb_infos ::
    "nat \<Rightarrow> tenant_role \<Rightarrow> (kb_share \<times> org option) list \<Rightarrow> (string \<times> org_role) list
       \<Rightarrow> (string \<times> org_role) list action" where
  "shared_kb_infos tenant role [] seen = give seen"
| "shared_kb_infos tenant role ((s, g) # rest) seen =
     (if sh_source s = tenant then shared_kb_infos tenant role rest seen
      else settle (get_member (sh_org s) tenant) (\<lambda>r.
        case r of
          Inl _ \<Rightarrow> shared_kb_infos tenant role rest seen
        | Inr m \<Rightarrow>
            (let eff = effective_role (sh_permission s) (mb_role m) role in
             shared_kb_infos tenant role rest
               (case map_of seen (sh_kb s) of
                  None \<Rightarrow> AList.update (sh_kb s) eff seen
                | Some old \<Rightarrow> if org_has eff old \<and> eff \<noteq> old then AList.update (sh_kb s) eff seen else seen))))"

definition list_shared_kbs :: "nat \<Rightarrow> tenant_role \<Rightarrow> (string \<times> org_role) list action" where
  "list_shared_kbs tenant role =
     attempt (list_shares_for tenant) (\<lambda>ss. shared_kb_infos tenant role ss [])"

definition list_shared_kbs_in_org :: "string \<Rightarrow> nat \<Rightarrow> tenant_role \<Rightarrow> (kb_share \<times> org_role \<times> bool) list action" where
  "list_shared_kbs_in_org oid tenant role =
     attempt (rename_error (not_found_to MemberMissing TenantNotInOrg) (get_member oid tenant)) (\<lambda>m.
     attempt (list_org_shares oid) (\<lambda>ss.
       give (map (\<lambda>(s, g). (s, effective_role (sh_permission s) (mb_role m) role, sh_source s = tenant)) ss)))"

definition get_share :: "string \<Rightarrow> kb_share action" where
  "get_share sid = rename_error (not_found_to ShareMissing ShareNotFound) (get_share_row sid)"

definition get_share_by_kb_and_org :: "string \<Rightarrow> string \<Rightarrow> kb_share action" where
  "get_share_by_kb_and_org kid oid = rename_error (not_found_to ShareMissing ShareNotFound) (get_share_of kid oid)"

definition kb_source_tenant :: "string \<Rightarrow> nat action" where
  "kb_source_tenant kid =
     attempt (list_kb_shares kid) (\<lambda>ss.
     case ss of
       (s, g) # _ \<Rightarrow> give (sh_source s)
     | [] \<Rightarrow> attempt (rename_error (\<lambda>_. KbNotFound) (get_kb kid)) (\<lambda>k. give (kb_tenant k)))"

section \<open>Shares of agents\<close>

text \<open>Built-in agents exist in every workspace under the same identifiers, which are configured.\<close>

definition is_builtin_agent :: "(string \<Rightarrow> bool) \<Rightarrow> shared_agent \<Rightarrow> bool" where
  "is_builtin_agent builtin a \<longleftrightarrow> ag_builtin a \<or> builtin (ag_id a)"

definition tool_search_knowledge :: string where
  "tool_search_knowledge = ''search_knowledge''"

definition successor_is_search :: "string \<Rightarrow> bool" where
  "successor_is_search t \<longleftrightarrow> t \<in> {tool_search_knowledge, ''knowledge_search'', ''grep_chunks''}"

definition requires_rerank :: "shared_agent \<Rightarrow> bool" where
  "requires_rerank a =
     (if ag_mode a = ''none'' then False
      else (case ag_tools a of None \<Rightarrow> True | Some ts \<Rightarrow> list_ex successor_is_search ts))"

definition can_share_any_kb :: "key_scope option \<Rightarrow> tenant_role \<Rightarrow> bool" where
  "can_share_any_kb key role = (case key of Some s \<Rightarrow> ks_full s | None \<Rightarrow> tenant_has role TenantAdmin)"

definition check_scope_shareable ::
    "key_scope option \<Rightarrow> tenant_role \<Rightarrow> shared_agent option \<Rightarrow> shared_agent \<Rightarrow> string \<Rightarrow> unit action" where
  "check_scope_shareable key role before aft user =
     (if can_share_any_kb key role then give ()
      else
        (let previous = agent_kb_scope before; next_scope = agent_kb_scope (Some aft) in
         if sc_all next_scope then (if sc_all previous then give () else fail AgentScopeNotShareable)
         else
           (let added = filter (\<lambda>k. \<not> scope_allows previous k (ag_tenant aft)) (sc_ids next_scope) in
            if added = [] then give ()
            else attempt (get_kbs added) (\<lambda>ks.
              if list_ex (\<lambda>k. kb_tenant k = ag_tenant aft \<and> (kb_creator k = [] \<or> kb_creator k \<noteq> user)) ks
              then fail AgentScopeNotShareable else give ()))))"

definition share_agent ::
    "(string \<Rightarrow> bool) \<Rightarrow> key_scope option \<Rightarrow> tenant_role \<Rightarrow> string \<Rightarrow> string \<Rightarrow> string \<Rightarrow> nat \<Rightarrow> string \<Rightarrow> stamp
       \<Rightarrow> agent_share action" where
  "share_agent builtin key role aid oid user tenant sid now =
     attempt (rename_error (\<lambda>_. AgentNotFound) (get_agent aid tenant)) (\<lambda>a.
     if ag_tenant a \<noteq> tenant then fail NotAgentOwner
     else if is_builtin_agent builtin a then fail BuiltinNotShareable
     else attempt (check_scope_shareable key role None a user) (\<lambda>_.
       if ag_model a = [] then fail AgentNotConfigured
       else if requires_rerank a \<and> ag_rerank a = [] then fail AgentNotConfigured
       else attempt (may_share_into oid tenant) (\<lambda>_.
         let s = \<lparr>sa_id = sid, sa_agent = aid, sa_org = oid, sa_user = user, sa_source = tenant,
                  sa_permission = OrgViewer, sa_created = now, sa_updated = now, sa_deleted = False\<rparr> in
         settle (create_agent_share s) (\<lambda>r.
         case r of
           Inr _ \<Rightarrow> give s
         | Inl e \<Rightarrow>
             if e \<noteq> AgentShareExists then fail e
             else attempt (get_agent_share_of aid oid) (\<lambda>old.
               let new = old\<lparr>sa_permission := OrgViewer, sa_updated := now\<rparr> in
               attempt (save_agent_share new) (\<lambda>_. give new))))))"

definition remove_agent_share :: "tenant_role \<Rightarrow> string \<Rightarrow> string \<Rightarrow> nat \<Rightarrow> unit action" where
  "remove_agent_share role sid user tenant =
     attempt (rename_error (not_found_to AgentShareMissing AgentShareNotFound) (get_agent_share sid)) (\<lambda>s.
     attempt (can_manage_share role
         \<lparr>sr_user = sa_user s, sr_source = sa_source s, sr_org = sa_org s, sr_permission = sa_permission s\<rparr>
         no_role user tenant) (\<lambda>ok.
       if \<not> ok then fail AgentShareDenied else drop_agent_share sid))"

text \<open>The view of another workspace's agent; its creator is withheld.\<close>

definition receiver_view :: "shared_agent \<Rightarrow> shared_agent" where
  "receiver_view a = a\<lparr>ag_creator := []\<rparr>"

fun shared_agent_infos ::
    "(string \<Rightarrow> bool) \<Rightarrow> nat \<Rightarrow> tenant_role \<Rightarrow> (agent_share \<times> shared_agent) list
       \<Rightarrow> ((string \<times> nat) \<times> shared_agent \<times> org_role) list
       \<Rightarrow> ((string \<times> nat) \<times> shared_agent \<times> org_role) list action" where
  "shared_agent_infos builtin tenant role [] seen = give seen"
| "shared_agent_infos builtin tenant role ((s, a) # rest) seen =
     (if sa_source s = tenant \<or> is_builtin_agent builtin a
      then shared_agent_infos builtin tenant role rest seen
      else settle (get_member (sa_org s) tenant) (\<lambda>r.
        case r of
          Inl _ \<Rightarrow> shared_agent_infos builtin tenant role rest seen
        | Inr m \<Rightarrow>
            (let eff = effective_role (sa_permission s) (mb_role m) role;
                 key = (sa_agent s, sa_source s);
                 info = (receiver_view a, eff) in
             shared_agent_infos builtin tenant role rest
               (case map_of seen key of
                  None \<Rightarrow> AList.update key info seen
                | Some (_, old) \<Rightarrow> if org_has eff old \<and> eff \<noteq> old then AList.update key info seen else seen))))"

definition list_shared_agents ::
    "(string \<Rightarrow> bool) \<Rightarrow> nat \<Rightarrow> tenant_role \<Rightarrow> ((string \<times> nat) \<times> shared_agent \<times> org_role) list action" where
  "list_shared_agents builtin tenant role =
     attempt (list_agents_for tenant) (\<lambda>ss. shared_agent_infos builtin tenant role ss [])"

text \<open>\<open>source\<close> 0 is no selector.\<close>

definition get_shared_agent ::
    "(string \<Rightarrow> bool) \<Rightarrow> nat \<Rightarrow> string \<Rightarrow> nat \<Rightarrow> shared_agent action" where
  "get_shared_agent builtin tenant aid source =
     (if aid = [] \<or> builtin aid then fail AgentShareNotFound
      else if source \<noteq> 0
      then
        (if source = tenant then fail AgentShareNotFound
         else attempt (rename_error (not_found_to AgentShareMissing AgentShareDenied)
                         (share_of_source_for tenant aid source)) (\<lambda>s.
           attempt (rename_error (\<lambda>_. AgentNotFound) (get_agent aid (sa_source s))) (\<lambda>a.
             if is_builtin_agent builtin a then fail AgentNotFound else give a)))
      else attempt (rename_error (not_found_to AgentShareMissing AgentShareDenied)
                      (share_of_agent_for tenant aid tenant)) (\<lambda>s.
        attempt (rename_error (not_found_to AgentMissing AgentNotFound) (get_agent aid (sa_source s))) (\<lambda>a.
          if is_builtin_agent builtin a then fail AgentNotFound else give a)))"

definition kb_via_shared_agent :: "(string \<Rightarrow> bool) \<Rightarrow> nat \<Rightarrow> tenant_role \<Rightarrow> kb_row \<Rightarrow> bool action" where
  "kb_via_shared_agent builtin tenant role k =
     (if kb_id k = [] then give False
      else attempt (list_shared_agents builtin tenant role) (\<lambda>infos.
        give (list_ex (\<lambda>(_, a, _). scope_allows (agent_kb_scope (Some a)) (kb_id k) (kb_tenant k)) infos)))"

text \<open>Hiding a shared agent from the own list.\<close>

definition set_agent_hidden :: "nat \<Rightarrow> string \<Rightarrow> nat \<Rightarrow> bool \<Rightarrow> unit action" where
  "set_agent_hidden tenant aid source hidden =
     call (Resources (if hidden then InsertHidden tenant aid source else DeleteHidden tenant aid source)) ran"

end
