(* ===== verification/Access.thy ===== *)
theory Access
  imports Sharing
begin

text \<open>
  Permissions on knowledge bases: package \<open>internal/application/access\<close> (\<open>knowledgebase.go\<close>,
  \<open>context.go\<close>, \<open>kb_shares.go\<close>, \<open>kb_write.go\<close>, \<open>kb_search.go\<close>, \<open>kb_transfer.go\<close>), with
  \<open>internal/types/caller.go\<close> and \<open>internal/application/service/knowledgebase_access.go\<close>.

  A context is the record of the values these functions read. A permission that was resolved is
  carried as a grant; the tenant queries run in is separate and never authorizes.
\<close>

section \<open>Contexts\<close>

record kb_grant =
  gr_caller :: caller
  gr_kb :: string
  gr_tenant :: nat
  gr_permission :: org_role
  gr_task :: bool

record agent_kb_grant =
  gc_caller :: caller
  gc_scope :: agent_scope

datatype transfer_op = TransferClone | TransferMove | OtherTransfer string

record transfer_grant =
  tg_caller :: caller
  tg_tenant :: nat
  tg_source :: string
  tg_target :: string
  tg_task :: string
  tg_creator :: string
  tg_op :: transfer_op
  tg_create :: bool

record access_context =
  ac_caller :: "caller option"
  ac_tenant :: "nat option"
  ac_user :: "string option"
  ac_role :: "tenant_role option"
  ac_key :: "key_scope option"
  ac_all_tenants :: bool
  ac_system_admin :: bool
  ac_grants :: "kb_grant list"
  ac_agent :: "agent_kb_grant option"
  ac_transfer :: "transfer_grant option"

definition role_from_context :: "access_context \<Rightarrow> tenant_role" where
  "role_from_context ctx =
     (case ac_role ctx of Some r \<Rightarrow> if tenant_role_valid r then r else TenantViewer | None \<Rightarrow> TenantViewer)"

definition caller_of :: "access_context \<Rightarrow> caller" where
  "caller_of ctx =
     (case ac_caller ctx of
        Some c \<Rightarrow> c
      | None \<Rightarrow> \<lparr>cl_tenant = set_or (ac_tenant ctx) 0, cl_user = set_or (ac_user ctx) [],
                 cl_role = role_from_context ctx\<rparr>)"

definition with_caller :: "caller \<Rightarrow> access_context \<Rightarrow> access_context" where
  "with_caller c ctx = ctx\<lparr>ac_caller := Some (normalize_caller c)\<rparr>"

definition with_execution_tenant :: "nat \<Rightarrow> access_context \<Rightarrow> access_context" where
  "with_execution_tenant tenant ctx = (with_caller (caller_of ctx) ctx)\<lparr>ac_tenant := Some tenant\<rparr>"

section \<open>Resolving a knowledge base\<close>

datatype access_error =
    Unauthorized | NotFound | Forbidden | InvalidAgentSource | KeyForbidden | SameKb | LookupError share_error

record kb_request =
  kr_caller :: caller
  kr_agent :: string
  kr_source :: string

record kb_access =
  ka_kb :: kb_row
  ka_caller :: caller
  ka_tenant :: nat
  ka_permission :: org_role
  ka_operation :: org_role

text \<open>
  The organization permissions of one operation, with their cache. The lookup is
  \<open>CheckTenantKBPermission\<close>; \<open>sharing\<close> says whether the entry point passes one.
\<close>

type_synonym share_cache = "(string \<times> (share_error + org_role \<times> bool)) list"

definition share_permission ::
    "bool \<Rightarrow> nat \<Rightarrow> tenant_role \<Rightarrow> share_cache \<Rightarrow> string
       \<Rightarrow> ((share_error + org_role \<times> bool) \<times> share_cache) program" where
  "share_permission sharing tenant role cache kid =
     (if kid = [] \<or> tenant = 0 \<or> \<not> sharing then Done (Inr (no_role, False), cache)
      else (case map_of cache kid of
              Some result \<Rightarrow> Done (result, cache)
            | None \<Rightarrow> after (check_tenant_kb_permission kid tenant role)
                (\<lambda>result. Done (result, AList.update kid result cache))))"

definition share_check ::
    "bool \<Rightarrow> nat \<Rightarrow> tenant_role \<Rightarrow> share_cache \<Rightarrow> string \<Rightarrow> org_role
       \<Rightarrow> ((share_error + bool) \<times> share_cache) program" where
  "share_check sharing tenant role cache kid required =
     after (share_permission sharing tenant role cache kid) (\<lambda>(result, cache).
     Done (case result of
             Inl e \<Rightarrow> Inl e
           | Inr (permission, shared) \<Rightarrow>
               Inr (shared \<and> org_role_valid permission \<and> org_role_valid required \<and> org_has permission required),
           cache))"

definition grant_for :: "kb_request \<Rightarrow> kb_row \<Rightarrow> org_role \<Rightarrow> org_role \<Rightarrow> kb_access" where
  "grant_for rq k required permission =
     \<lparr>ka_kb = k, ka_caller = kr_caller rq, ka_tenant = kb_tenant k, ka_permission = permission,
      ka_operation = required\<rparr>"

text \<open>The read access that shared agents give; \<open>None\<close> when no agent lookup is passed.\<close>

definition resolve_by_agent ::
    "(string \<Rightarrow> bool) option \<Rightarrow> kb_request \<Rightarrow> kb_row \<Rightarrow> org_role \<Rightarrow> (access_error + kb_access) program" where
  "resolve_by_agent agents rq k required =
     (case agents of
        None \<Rightarrow> Done (Inl Forbidden)
      | Some builtin \<Rightarrow>
          if required \<noteq> OrgViewer then Done (Inl Forbidden)
          else if kr_agent rq \<noteq> []
          then (case parse_source_tenant (kr_source rq) of
                  None \<Rightarrow> Done (Inl InvalidAgentSource)
                | Some source \<Rightarrow>
                    after (get_shared_agent builtin (cl_tenant (kr_caller rq)) (kr_agent rq) source) (\<lambda>r.
                    Done (case r of
                            Inr a \<Rightarrow> if scope_allows (agent_kb_scope (Some a)) (kb_id k) (kb_tenant k)
                                    then Inr (grant_for rq k required OrgViewer) else Inl Forbidden
                          | Inl _ \<Rightarrow> Inl Forbidden)))
          else after (kb_via_shared_agent builtin (cl_tenant (kr_caller rq)) (cl_role (kr_caller rq)) k) (\<lambda>r.
            Done (if r = Inr True then Inr (grant_for rq k required OrgViewer) else Inl Forbidden)))"

definition resolve_kb ::
    "access_context \<Rightarrow> kb_request \<Rightarrow> kb_row option \<Rightarrow> org_role \<Rightarrow> bool \<Rightarrow> (string \<Rightarrow> bool) option
       \<Rightarrow> (access_error + kb_access) program" where
  "resolve_kb ctx rq kb required sharing agents =
     (if cl_tenant (kr_caller rq) = 0 then Done (Inl Unauthorized)
      else (case kb of
              None \<Rightarrow> Done (Inl NotFound)
            | Some k \<Rightarrow>
                if kb_id k = [] then Done (Inl NotFound)
                else if \<not> key_allows (ac_key ctx) [kb_id k] then Done (Inl KeyForbidden)
                else
                  (let rq = rq\<lparr>kr_caller := normalize_caller (kr_caller rq)\<rparr>; c = kr_caller rq in
                   if ac_caller ctx \<noteq> None \<and> ac_caller ctx \<noteq> Some c then Done (Inl Forbidden)
                   else if kb_tenant k = cl_tenant c then Done (Inr (grant_for rq k required OrgAdmin))
                   else after (share_permission sharing (cl_tenant c) (cl_role c) [] (kb_id k)) (\<lambda>(result, cache).
                     case result of
                       Inr (permission, shared) \<Rightarrow>
                         if shared \<and> org_has permission required
                         then Done (Inr (grant_for rq k required permission))
                         else resolve_by_agent agents rq k required
                     | Inl _ \<Rightarrow> resolve_by_agent agents rq k required))))"

section \<open>Grants in contexts\<close>

definition granted_permission :: "kb_access \<Rightarrow> org_role" where
  "granted_permission a =
     (if org_role_valid (ka_operation a) \<and> org_has (ka_permission a) (ka_operation a)
      then ka_operation a else ka_permission a)"

definition with_grant :: "kb_access option \<Rightarrow> access_context \<Rightarrow> access_context" where
  "with_grant access ctx =
     (case access of
        None \<Rightarrow> ctx
      | Some a \<Rightarrow>
          (let c = normalize_caller (ka_caller a) in
           if ac_caller ctx \<noteq> None \<and> ac_caller ctx \<noteq> Some c then ctx
           else (with_caller c ctx)\<lparr>ac_grants := ac_grants ctx @
             [\<lparr>gr_caller = c, gr_kb = kb_id (ka_kb a), gr_tenant = ka_tenant a,
               gr_permission = granted_permission a, gr_task = False\<rparr>]\<rparr>))"

definition access_scope :: "kb_access option \<Rightarrow> access_context \<Rightarrow> access_context" where
  "access_scope access ctx =
     (case access of
        None \<Rightarrow> ctx
      | Some a \<Rightarrow>
          (let scoped = with_grant access ctx in
           if caller_of scoped \<noteq> normalize_caller (ka_caller a) then ctx
           else with_execution_tenant (ka_tenant a) scoped))"

definition with_shared_agent :: "shared_agent option \<Rightarrow> access_context \<Rightarrow> access_context" where
  "with_shared_agent agent ctx =
     (let ctx' = ctx\<lparr>ac_agent := Some \<lparr>gc_caller = caller_of ctx, gc_scope = agent_kb_scope agent\<rparr>\<rparr> in
      case agent of None \<Rightarrow> ctx' | Some a \<Rightarrow> with_execution_tenant (ag_tenant a) ctx')"

definition grant_covers :: "caller \<Rightarrow> string \<Rightarrow> nat \<Rightarrow> org_role \<Rightarrow> kb_grant \<Rightarrow> bool" where
  "grant_covers c kid tenant required g \<longleftrightarrow>
     (cl_tenant c \<noteq> 0 \<or> gr_task g) \<and> gr_caller g = c \<and> gr_kb g = kid \<and> gr_tenant g = tenant
   \<and> org_has (gr_permission g) required"

definition has_kb_grant :: "access_context \<Rightarrow> string \<Rightarrow> nat \<Rightarrow> org_role \<Rightarrow> bool" where
  "has_kb_grant ctx kid tenant required =
     (let c = caller_of ctx in
      if \<not> org_role_valid required \<or> \<not> key_allows (ac_key ctx) [kid] then False
      else if kid = [] \<or> tenant = 0 then False
      else if list_ex (grant_covers c kid tenant required) (ac_grants ctx) then True
      else (case ac_agent ctx of
              None \<Rightarrow> False
            | Some g \<Rightarrow> cl_tenant c \<noteq> 0 \<and> required = OrgViewer \<and> gc_caller g = c
                \<and> scope_allows (gc_scope g) kid tenant))"

section \<open>Checks of services\<close>

text \<open>\<open>KBPermissions.Check\<close>, with the cache of the operation.\<close>

definition permission_check ::
    "access_context \<Rightarrow> bool \<Rightarrow> share_cache \<Rightarrow> string \<Rightarrow> nat \<Rightarrow> org_role
       \<Rightarrow> ((access_error + bool) \<times> share_cache) program" where
  "permission_check ctx sharing cache kid owner required =
     (let c = caller_of ctx in
      if kid = [] \<or> owner = 0 \<or> \<not> org_role_valid required then Done (Inr False, cache)
      else if \<not> key_allows (ac_key ctx) [kid] then Done (Inl KeyForbidden, cache)
      else if (cl_tenant c = owner \<and> required = OrgViewer) \<or> has_kb_grant ctx kid owner required
      then Done (Inr True, cache)
      else if cl_tenant c = 0 \<or> cl_tenant c = owner then Done (Inr False, cache)
      else after (share_check sharing (cl_tenant c) (cl_role c) cache kid required) (\<lambda>(r, cache).
        Done (case r of Inl e \<Rightarrow> Inl (LookupError e) | Inr b \<Rightarrow> Inr b, cache)))"

fun authorize_each ::
    "access_context \<Rightarrow> bool \<Rightarrow> share_cache \<Rightarrow> kb_row list \<Rightarrow> (access_error + unit) program" where
  "authorize_each ctx sharing cache [] = Done (Inr ())"
| "authorize_each ctx sharing cache (k # ks) =
     after (permission_check ctx sharing cache (kb_id k) (kb_tenant k) OrgViewer) (\<lambda>(r, cache).
     case r of
       Inl e \<Rightarrow> Done (Inl e)
     | Inr ok \<Rightarrow> if ok then authorize_each ctx sharing cache ks else Done (Inl NotFound))"

definition authorize_kb_access ::
    "access_context \<Rightarrow> bool \<Rightarrow> kb_row list \<Rightarrow> (access_error + unit) program" where
  "authorize_kb_access ctx sharing ks =
     (if ks = [] then Done (Inr ())
      else if \<not> key_allows (ac_key ctx) (map kb_id ks) then Done (Inl KeyForbidden)
      else authorize_each ctx sharing [] ks)"

definition require_kb_write :: "access_context \<Rightarrow> kb_row option \<Rightarrow> access_error + unit" where
  "require_kb_write ctx kb =
     (case kb of
        None \<Rightarrow> Inl NotFound
      | Some k \<Rightarrow>
          if kb_id k = [] \<or> kb_tenant k = 0 then Inl NotFound
          else if \<not> key_may (ac_key ctx) capability_ingest then Inl Forbidden
          else if \<not> has_kb_grant ctx (kb_id k) (kb_tenant k) OrgEditor then Inl Forbidden
          else Inr ())"

definition with_kb_task_write :: "access_context \<Rightarrow> kb_row option \<Rightarrow> nat \<Rightarrow> access_error + access_context" where
  "with_kb_task_write ctx kb expected =
     (case kb of
        None \<Rightarrow> Inl Forbidden
      | Some k \<Rightarrow>
          if kb_id k = [] \<or> expected = 0 \<or> kb_tenant k \<noteq> expected then Inl Forbidden
          else
            (let ctx = with_execution_tenant expected ctx in
             Inr (ctx\<lparr>ac_grants := [\<lparr>gr_caller = caller_of ctx, gr_kb = kb_id k, gr_tenant = expected,
                                     gr_permission = OrgEditor, gr_task = True\<rparr>]\<rparr>)))"

text \<open>The service entries: reads, and the targets a caller may write.\<close>

definition kb_read_tenant :: "access_context \<Rightarrow> kb_row option \<Rightarrow> bool \<Rightarrow> (access_error + nat) program" where
  "kb_read_tenant ctx kb sharing =
     (case kb of
        None \<Rightarrow> Done (Inl Forbidden)
      | Some k \<Rightarrow>
          after (permission_check ctx (sharing \<and> cl_user (caller_of ctx) \<noteq> []) [] (kb_id k) (kb_tenant k) OrgViewer)
            (\<lambda>(r, cache). Done (if r = Inr True then Inr (kb_tenant k) else Inl Forbidden)))"

fun writable_targets ::
    "access_context \<Rightarrow> bool \<Rightarrow> share_cache \<Rightarrow> string list \<Rightarrow> (string \<times> nat) list \<Rightarrow> string list program" where
  "writable_targets ctx sharing cache seen [] = Done []"
| "writable_targets ctx sharing cache seen ((kid, tenant) # rest) =
     (let c = caller_of ctx in
      if kid = [] \<or> kid \<in> set seen then writable_targets ctx sharing cache seen rest
      else if cl_tenant c \<noteq> 0 \<and> tenant = cl_tenant c
      then after (writable_targets ctx sharing cache (kid # seen) rest) (\<lambda>ids. Done (kid # ids))
      else after (share_check sharing (cl_tenant c) (cl_role c) cache kid OrgEditor) (\<lambda>(r, cache).
        after (writable_targets ctx sharing cache (kid # seen) rest) (\<lambda>ids.
        Done (if r = Inr True then kid # ids else ids))))"

definition kb_writable_ids :: "access_context \<Rightarrow> bool \<Rightarrow> (string \<times> nat) list \<Rightarrow> bool \<Rightarrow> string list program" where
  "kb_writable_ids ctx sharing targets enforced =
     (let c = caller_of ctx in
      if (case ac_key ctx of
            Some s \<Rightarrow> \<not> ks_full s \<and> \<not> has_capability s capability_ingest
          | None \<Rightarrow> enforced \<and> \<not> tenant_has (cl_role c) TenantContributor)
      then Done []
      else writable_targets ctx (sharing \<and> cl_user c \<noteq> []) [] [] targets)"

section \<open>Transfers\<close>

definition validate_transfer_pair ::
    "kb_row option \<Rightarrow> kb_row option \<Rightarrow> nat \<Rightarrow> transfer_op \<Rightarrow> bool \<Rightarrow> access_error + unit" where
  "validate_transfer_pair source target tenant op create =
     (case (source, target) of
        (Some s, Some t) \<Rightarrow>
          if tenant = 0 \<or> kb_id s = [] \<or> kb_id t = [] \<or> kb_tenant s \<noteq> tenant \<or> kb_tenant t \<noteq> tenant
          then Inl Forbidden
          else if kb_id s = kb_id t then Inl SameKb
          else if (op \<noteq> TransferClone \<and> op \<noteq> TransferMove) \<or> (create \<and> op \<noteq> TransferClone) then Inl Forbidden
          else Inr ()
      | _ \<Rightarrow> Inl Forbidden)"

definition transfer_api_scope ::
    "access_context \<Rightarrow> string \<Rightarrow> string \<Rightarrow> transfer_op \<Rightarrow> bool \<Rightarrow> access_error + unit" where
  "transfer_api_scope ctx source target op create =
     (if \<not> key_allows (ac_key ctx) (if create then [source] else [source, target]) then Inl KeyForbidden
      else if \<not> key_may (ac_key ctx) (if op = TransferMove then capability_ingest else capability_manage_kbs)
      then Inl Forbidden
      else Inr ())"

definition transfer_source_role :: "transfer_op \<Rightarrow> org_role" where
  "transfer_source_role op = (if op = TransferMove then OrgEditor else OrgViewer)"

definition with_transfer_grant ::
    "access_context \<Rightarrow> kb_row \<Rightarrow> kb_row \<Rightarrow> transfer_op \<Rightarrow> string \<Rightarrow> bool \<Rightarrow> bool \<Rightarrow> access_context" where
  "with_transfer_grant ctx s t op task create by_task =
     (let c = caller_of ctx in
      ctx\<lparr>ac_grants :=
            [\<lparr>gr_caller = c, gr_kb = kb_id s, gr_tenant = kb_tenant s,
              gr_permission = transfer_source_role op, gr_task = by_task\<rparr>,
             \<lparr>gr_caller = c, gr_kb = kb_id t, gr_tenant = kb_tenant t,
              gr_permission = OrgEditor, gr_task = by_task\<rparr>],
          ac_transfer := Some
            \<lparr>tg_caller = c, tg_tenant = kb_tenant s, tg_source = kb_id s, tg_target = kb_id t,
             tg_task = task, tg_creator = kb_creator t, tg_op = op, tg_create = create\<rparr>\<rparr>)"

definition with_kb_transfer ::
    "access_context \<Rightarrow> kb_row option \<Rightarrow> kb_row option \<Rightarrow> transfer_op \<Rightarrow> string \<Rightarrow> bool
       \<Rightarrow> access_error + access_context" where
  "with_kb_transfer ctx source target op task create =
     (if task = [] then Inl Forbidden
      else (case validate_transfer_pair source target (cl_tenant (caller_of ctx)) op create of
              Inl e \<Rightarrow> Inl e
            | Inr _ \<Rightarrow>
                (let s = the source; t = the target in
                 case transfer_api_scope ctx (kb_id s) (kb_id t) op create of
                   Inl e \<Rightarrow> Inl e
                 | Inr _ \<Rightarrow>
                     if \<not> has_kb_grant ctx (kb_id s) (kb_tenant s) (transfer_source_role op)
                        \<or> (\<not> create \<and> \<not> has_kb_grant ctx (kb_id t) (kb_tenant t) OrgEditor)
                     then Inl Forbidden
                     else Inr (with_transfer_grant ctx s t op task create False))))"

definition with_kb_transfer_task ::
    "access_context \<Rightarrow> kb_row option \<Rightarrow> kb_row option \<Rightarrow> nat \<Rightarrow> transfer_op \<Rightarrow> string \<Rightarrow> bool
       \<Rightarrow> access_error + access_context" where
  "with_kb_transfer_task ctx source target expected op task create =
     (if task = [] then Inl Forbidden
      else (case validate_transfer_pair source target expected op create of
              Inl e \<Rightarrow> Inl e
            | Inr _ \<Rightarrow> Inr (with_transfer_grant (with_execution_tenant expected ctx) (the source) (the target)
                             op task create True)))"

definition require_kb_transfer ::
    "access_context \<Rightarrow> kb_row option \<Rightarrow> kb_row option \<Rightarrow> transfer_op \<Rightarrow> access_error + unit" where
  "require_kb_transfer ctx source target op =
     (case ac_transfer ctx of
        None \<Rightarrow> Inl Forbidden
      | Some g \<Rightarrow>
          if tg_caller g \<noteq> caller_of ctx \<or> tg_op g \<noteq> op then Inl Forbidden
          else (case validate_transfer_pair source target (tg_tenant g) op (tg_create g) of
                  Inl e \<Rightarrow> Inl e
                | Inr _ \<Rightarrow>
                    (let s = the source; t = the target in
                     if tg_source g \<noteq> kb_id s \<or> tg_target g \<noteq> kb_id t then Inl Forbidden
                     else transfer_api_scope ctx (kb_id s) (kb_id t) op (tg_create g))))"

definition clone_destination :: "access_context \<Rightarrow> string \<Rightarrow> access_error + string \<times> bool \<times> string" where
  "clone_destination ctx source =
     (case ac_transfer ctx of
        None \<Rightarrow> Inl Forbidden
      | Some g \<Rightarrow>
          if tg_caller g \<noteq> caller_of ctx \<or> tg_op g \<noteq> TransferClone \<or> tg_source g \<noteq> source then Inl Forbidden
          else Inr (tg_target g, tg_create g, tg_creator g))"

definition transfer_task_id :: "access_context \<Rightarrow> string" where
  "transfer_task_id ctx =
     (case ac_transfer ctx of
        None \<Rightarrow> []
      | Some g \<Rightarrow> if tg_caller g \<noteq> caller_of ctx then [] else tg_task g)"

end
