(* ===== verification/RoleGates.thy ===== *)
theory RoleGates
  imports Access
begin

text \<open>
  Gates by role and ownership: \<open>internal/application/access/ownership.go\<close> and \<open>superuser.go\<close>, and the
  middleware \<open>internal/middleware/rbac.go\<close> and \<open>access.go\<close>. A gate lets the request go on or
  aborts it with a status; what it logs and audits is left out. A gate that needs the
  creator of a resource is a question with its continuation, so that it is visible when no lookup is made.
\<close>

section \<open>Ownership\<close>

record ownership_request =
  ow_user :: string
  ow_role :: tenant_role
  ow_key :: bool
  ow_superuser :: bool
  ow_enforce :: bool

record ownership_decision =
  od_creator :: string
  od_skipped :: bool
  od_failed :: bool

datatype ownership_error = ResourceMissing | OwnershipForbidden | CreatorUnknown

datatype creator_reply = Creator string | NoResource | LookupFails

datatype 'a asking = Answer 'a | AskCreator "creator_reply \<Rightarrow> 'a"

type_synonym ownership_result = "ownership_decision \<times> (ownership_error + unit)"

definition no_ownership :: ownership_decision where
  "no_ownership = \<lparr>od_creator = [], od_skipped = False, od_failed = False\<rparr>"

definition creator_role_floor :: tenant_role where
  "creator_role_floor = TenantContributor"

fun decide_by_creator :: "ownership_request \<Rightarrow> creator_reply \<Rightarrow> ownership_result" where
  "decide_by_creator rq NoResource = (no_ownership, Inl ResourceMissing)"
| "decide_by_creator rq LookupFails = (no_ownership\<lparr>od_failed := True\<rparr>, Inl CreatorUnknown)"
| "decide_by_creator rq (Creator u) =
     (no_ownership\<lparr>od_creator := u\<rparr>,
      if u \<noteq> [] \<and> u = ow_user rq \<and> tenant_has (ow_role rq) creator_role_floor then Inr ()
      else Inl OwnershipForbidden)"

text \<open>\<open>lookup\<close> says whether the gate was given a lookup.\<close>

definition check_ownership_or_role :: "ownership_request \<Rightarrow> tenant_role \<Rightarrow> bool \<Rightarrow> ownership_result asking" where
  "check_ownership_or_role rq required lookup =
     (if ow_key rq \<or> tenant_has (ow_role rq) required \<or> ow_superuser rq then Answer (no_ownership, Inr ())
      else if \<not> ow_enforce rq then Answer (no_ownership\<lparr>od_skipped := True\<rparr>, Inr ())
      else if \<not> lookup then Answer (no_ownership\<lparr>od_failed := True\<rparr>, Inl CreatorUnknown)
      else AskCreator (decide_by_creator rq))"

section \<open>Configuration and context\<close>

record tenant_config =
  tc_rbac :: "bool option"
  tc_cross :: bool

text \<open>The configuration may be missing, and its tenant section too.\<close>

type_synonym access_config = "tenant_config option option"

definition rbac_enforced :: "access_config \<Rightarrow> bool" where
  "rbac_enforced cfg =
     (case cfg of
        None \<Rightarrow> False
      | Some t \<Rightarrow> (case t of None \<Rightarrow> True | Some t \<Rightarrow> set_or (tc_rbac t) True))"

definition cross_tenant_enabled :: "access_config \<Rightarrow> bool" where
  "cross_tenant_enabled cfg = (case cfg of Some (Some t) \<Rightarrow> tc_cross t | _ \<Rightarrow> False)"

definition is_superuser :: "access_context \<Rightarrow> access_config \<Rightarrow> bool" where
  "is_superuser ctx cfg \<longleftrightarrow> cross_tenant_enabled cfg \<and> ac_all_tenants ctx"

definition ownership_request_of :: "access_context \<Rightarrow> access_config \<Rightarrow> ownership_request" where
  "ownership_request_of ctx cfg =
     \<lparr>ow_user = cl_user (caller_of ctx), ow_role = cl_role (caller_of ctx), ow_key = (ac_key ctx \<noteq> None),
      ow_superuser = is_superuser ctx cfg, ow_enforce = rbac_enforced cfg\<rparr>"

section \<open>Gates\<close>

datatype verdict_of_gate = Next | Abort nat

definition require_role :: "tenant_role \<Rightarrow> access_config \<Rightarrow> access_context \<Rightarrow> verdict_of_gate" where
  "require_role required cfg ctx =
     (if ac_key ctx \<noteq> None then Next
      else if tenant_has (cl_role (caller_of ctx)) required then Next
      else if is_superuser ctx cfg then Next
      else if \<not> rbac_enforced cfg then Next
      else Abort 403)"

definition require_role_or_system_admin :: "tenant_role \<Rightarrow> access_config \<Rightarrow> access_context \<Rightarrow> verdict_of_gate" where
  "require_role_or_system_admin required cfg ctx =
     (if ac_system_admin ctx then Next else require_role required cfg ctx)"

definition require_system_admin :: "access_context \<Rightarrow> verdict_of_gate" where
  "require_system_admin ctx =
     (case ac_key ctx of
        Some s \<Rightarrow> if is_platform s then Next else Abort 403
      | None \<Rightarrow> if ac_system_admin ctx then Next else Abort 403)"

definition gate_of_ownership :: "ownership_result \<Rightarrow> verdict_of_gate" where
  "gate_of_ownership r =
     (case r of
        (d, Inr _) \<Rightarrow> Next
      | (d, Inl e) \<Rightarrow>
          if e = ResourceMissing then Next
          else if e = OwnershipForbidden \<and> \<not> od_failed d then Abort 403
          else Abort 503)"

definition require_ownership_or_role ::
    "tenant_role \<Rightarrow> bool \<Rightarrow> access_config \<Rightarrow> access_context \<Rightarrow> verdict_of_gate asking" where
  "require_ownership_or_role required lookup cfg ctx =
     (case check_ownership_or_role (ownership_request_of ctx cfg) required lookup of
        Answer r \<Rightarrow> Answer (gate_of_ownership r)
      | AskCreator k \<Rightarrow> AskCreator (\<lambda>c. gate_of_ownership (k c)))"

text \<open>
  With roles enforced, a user below the required role passes by having created the resource, and only
  as a contributor at least; a resource that is missing is left to the handler to report.
\<close>

lemma ownership_gate_asks:
  assumes "rbac_enforced cfg" and "ac_key ctx = None" and "\<not> is_superuser ctx cfg"
    and "\<not> tenant_has (cl_role (caller_of ctx)) required"
  shows "\<exists>k. require_ownership_or_role required True cfg ctx = AskCreator k
     \<and> k NoResource = Next \<and> k LookupFails = Abort 503
     \<and> (\<forall>u. k (Creator u) = (if u \<noteq> [] \<and> u = cl_user (caller_of ctx) \<and> tenant_has (cl_role (caller_of ctx)) TenantContributor
                            then Next else Abort 403))"
  using assms
  by (auto simp: require_ownership_or_role_def check_ownership_or_role_def ownership_request_of_def
        gate_of_ownership_def creator_role_floor_def no_ownership_def)

definition evaluate_ownership_or_role ::
    "access_context \<Rightarrow> access_config \<Rightarrow> tenant_role \<Rightarrow> bool \<Rightarrow> (ownership_error + unit) asking" where
  "evaluate_ownership_or_role ctx cfg required lookup =
     (case check_ownership_or_role (ownership_request_of ctx cfg) required lookup of
        Answer r \<Rightarrow> Answer (snd r)
      | AskCreator k \<Rightarrow> AskCreator (\<lambda>c. snd (k c)))"

definition require_cross_tenant :: "access_config \<Rightarrow> access_context \<Rightarrow> verdict_of_gate" where
  "require_cross_tenant cfg ctx =
     (if (case ac_key ctx of Some s \<Rightarrow> is_platform s | None \<Rightarrow> False) then Next
      else if \<not> cross_tenant_enabled cfg then Abort 403
      else if \<not> ac_all_tenants ctx then Abort 403
      else Next)"

text \<open>The workspace of the path must be the active one.\<close>

definition require_path_tenant :: "string \<Rightarrow> access_config \<Rightarrow> access_context \<Rightarrow> verdict_of_gate" where
  "require_path_tenant raw cfg ctx =
     (case parse_source_tenant raw of
        None \<Rightarrow> Abort 400
      | Some path \<Rightarrow>
          if path = 0 then Abort 400
          else if set_or (ac_tenant ctx) 0 = 0 then Abort 401
          else if path = set_or (ac_tenant ctx) 0 then Next
          else if is_superuser ctx cfg then Next
          else Abort 403)"

text \<open>\<open>membership\<close> is what the lookup of an active membership answers, if there is one.\<close>

datatype member_status = MemberActive | MemberInvited | MemberSuspended | OtherMemberStatus string

definition tenant_accessible :: "(nat \<times> bool) option \<Rightarrow> nat \<Rightarrow> member_status option \<Rightarrow> access_config \<Rightarrow> bool" where
  "tenant_accessible user target membership cfg =
     (case user of
        None \<Rightarrow> False
      | Some (home, all_tenants) \<Rightarrow>
          if target = 0 then False
          else if home = target then True
          else if cross_tenant_enabled cfg \<and> all_tenants then True
          else membership = Some MemberActive)"

text \<open>Only a platform key, or a system administrator without a key, passes the gate of system administration.\<close>

lemma system_gate:
  "require_system_admin ctx = Next \<longleftrightarrow>
     (case ac_key ctx of Some s \<Rightarrow> is_platform s | None \<Rightarrow> ac_system_admin ctx)"
  by (simp add: require_system_admin_def split: option.split)

end
