(* ===== verification/ShareRun.thy ===== *)
theory ShareRun
  imports Sharing
begin

text \<open>
  Running the operations of organizations and sharing. Sequentially, an operation runs under a
  list of faults; in parallel, replicas interleave between any two statements and every statement may fail.
  An invariant that each statement of an operation keeps, given what the earlier replies have
  shown, holds in every state any number of operations reach together; the locale
  \<open>kept_by_services\<close> collects what an invariant has to satisfy and proves it for all of them once.
\<close>

type_synonym picker = "agent_share list \<Rightarrow> agent_share"

section \<open>The operations of the services\<close>

text \<open>
  One rule per operation that writes; \<open>free\<close> are the organizations whose member limit may be
  changed. The operations that only read are programs of reading statements and change nothing.
\<close>

inductive service_operation :: "(string \<Rightarrow> bool) \<Rightarrow> unit program \<Rightarrow> bool" for free where
  op_create: "service_operation free (forget (create_organization user tenant req oid code now))"
| op_update: "uo_limit req' = None \<or> free oid
    \<Longrightarrow> service_operation free (forget (update_organization oid tenant req'))"
| op_delete: "service_operation free (forget (delete_organization oid user tenant))"
| op_code: "service_operation free (forget (generate_invite_code oid tenant code now))"
| op_add: "service_operation free (forget (add_tenant_member oid tenant user role))"
| op_remove: "service_operation free (forget (remove_tenant_member oid tenant operator))"
| op_role: "service_operation free (forget (update_tenant_member_role oid tenant role operator))"
| op_join_code: "service_operation free (forget (join_by_invite_code now code user tenant))"
| op_join_id: "service_operation free (forget (join_by_organization_id oid user tenant message role rid))"
| op_request: "service_operation free (forget (submit_join_request oid user tenant message role rid))"
| op_review: "service_operation free (forget (review_join_request oid rid approved reviewer review assign))"
| op_upgrade: "service_operation free (forget (request_role_upgrade oid user tenant role message rid))"
| op_share: "service_operation free (forget (share_knowledge_base kid oid user tenant role sid now))"
| op_permission: "service_operation free (forget (update_share_permission trole sid role user tenant now))"
| op_unshare: "service_operation free (forget (remove_share trole sid user tenant))"
| op_share_agent: "service_operation free (forget (share_agent builtin key trole aid oid user tenant sid now))"
| op_unshare_agent: "service_operation free (forget (remove_agent_share trole sid user tenant))"
| op_kb_gone: "service_operation free (forget (drop_kb_shares kid))"
| op_agent_gone: "service_operation free (forget (drop_shares_of_agent aid tenant))"
| op_hide: "service_operation free (forget (set_agent_hidden tenant aid source hidden))"

section \<open>What an invariant has to satisfy\<close>

locale kept_by_services =
  fixes pick :: picker
    and I :: "share_db \<Rightarrow> bool"
    and free :: "string \<Rightarrow> bool"
    and fresh :: "string \<Rightarrow> bool"
    and good_org :: "org \<Rightarrow> bool"
    and good_member :: "org_member \<Rightarrow> bool"
    and good_request :: "org_request \<Rightarrow> bool"
    and good_share :: "kb_share \<Rightarrow> bool"
  assumes org_read: "I db \<Longrightarrow> g \<in> set (db_orgs db) \<Longrightarrow> good_org g"
    and member_read: "I db \<Longrightarrow> m \<in> set (db_members db) \<Longrightarrow> good_member m"
    and request_read: "I db \<Longrightarrow> q \<in> set (db_requests db) \<Longrightarrow> good_request q"
    and share_read: "I db \<Longrightarrow> s \<in> set (db_shares db) \<Longrightarrow> good_share s"
    and insert_org_kept: "I db \<Longrightarrow> I (snd (insert_org g db))"
    and insert_org_fresh: "I db \<Longrightarrow> fst (insert_org g db) = Ran \<Longrightarrow> fresh (og_id g)"
    and update_org_kept: "I db \<Longrightarrow> good_org g \<Longrightarrow> uo_limit req = None \<or> free (og_id g) \<Longrightarrow> I (update_org (patched_org req g) db)"
    and delete_org_kept: "I db \<Longrightarrow> I (delete_org oid db)"
    and update_code_kept: "I db \<Longrightarrow> I (update_code oid code expires db)"
    and founder_kept: "I db \<Longrightarrow> fresh oid
          \<Longrightarrow> I (snd (insert_member \<lparr>mb_org = oid, mb_tenant = tenant, mb_role = OrgAdmin, mb_user = user\<rparr> 0 db))"
    and join_kept: "I db \<Longrightarrow> good_org g \<Longrightarrow> mb_org m = og_id g \<Longrightarrow> org_role_valid (mb_role m)
          \<Longrightarrow> I (snd (insert_member m (og_limit g) db))"
    and leave_kept: "I db \<Longrightarrow> good_org g \<Longrightarrow> \<not> is_owner_tenant g tenant \<Longrightarrow> I (snd (delete_member (og_id g) tenant db))"
    and role_kept: "I db \<Longrightarrow> good_org g \<Longrightarrow> \<not> is_owner_tenant g tenant \<Longrightarrow> org_role_valid role
          \<Longrightarrow> I (snd (update_role (og_id g) tenant role db))"
    and upgrade_kept: "I db \<Longrightarrow> good_request q \<Longrightarrow> rq_kind q = UpgradeRequest \<Longrightarrow> org_role_valid role
          \<Longrightarrow> I (snd (update_role (rq_org q) (rq_tenant q) role db))"
    and insert_request_kept: "I db
          \<Longrightarrow> (rq_kind q = UpgradeRequest \<Longrightarrow> \<exists>m. good_member m \<and> mb_org m = rq_org q \<and> mb_tenant m = rq_tenant q \<and> mb_role m \<noteq> OrgAdmin)
          \<Longrightarrow> I (snd (insert_request q db))"
    and update_request_kept: "I db \<Longrightarrow> I (update_request rid status reviewer review db)"
    and insert_share_kept: "I db \<Longrightarrow> org_role_valid (sh_permission s) \<Longrightarrow> I (snd (insert_share s db))"
    and update_share_kept: "I db \<Longrightarrow> good_share s \<Longrightarrow> org_role_valid role
          \<Longrightarrow> I (update_share (s\<lparr>sh_permission := role, sh_updated := now\<rparr>) db)"
    and drop_shares_kept: "I db \<Longrightarrow> I (drop_shares P db)"
    and insert_agent_share_kept: "I db \<Longrightarrow> sa_permission a = OrgViewer \<Longrightarrow> I (snd (insert_agent_share a db))"
    and update_agent_share_kept: "I db \<Longrightarrow> I (update_agent_share (a\<lparr>sa_permission := OrgViewer, sa_updated := now\<rparr>) db)"
    and drop_agent_shares_kept: "I db \<Longrightarrow> I (drop_agent_shares R db)"
    and hidden_kept: "I db \<Longrightarrow> I (db\<lparr>db_hidden := hs\<rparr>)"


section \<open>Every operation keeps it\<close>

context kept_by_services
begin

lemma get_org_ok: "(\<And>g. good_org g \<Longrightarrow> og_id g = oid \<Longrightarrow> P g) \<Longrightarrow> ensures (execute pick) I (get_org oid) P"
  unfolding get_org_def
  by (rule ensures_call) (auto simp: live_org_def find_Some_iff split: option.splits dest!: org_read nth_mem)

lemma get_org_by_code_ok: "(\<And>g. good_org g \<Longrightarrow> P g) \<Longrightarrow> ensures (execute pick) I (get_org_by_code now code) P"
  unfolding get_org_by_code_def
  by (rule ensures_call)
     (auto simp: find_Some_iff split: option.splits if_splits dest!: org_read nth_mem)

lemma get_member_ok:
  "(\<And>m. good_member m \<Longrightarrow> mb_org m = oid \<Longrightarrow> mb_tenant m = tenant \<Longrightarrow> P m)
     \<Longrightarrow> ensures (execute pick) I (get_member oid tenant) P"
  unfolding get_member_def
  by (rule ensures_call) (auto simp: member_row_def find_Some_iff split: option.splits dest!: member_read nth_mem)

lemma get_request_ok: "(\<And>q. good_request q \<Longrightarrow> P q) \<Longrightarrow> ensures (execute pick) I (get_request rid) P"
  unfolding get_request_def read_request_def
  by (rule ensures_call) (auto simp: find_Some_iff split: option.splits dest!: request_read nth_mem)

lemma get_share_row_ok: "(\<And>s. good_share s \<Longrightarrow> P s) \<Longrightarrow> ensures (execute pick) I (get_share_row sid) P"
  unfolding get_share_row_def read_share_def
  by (rule ensures_call) (auto simp: find_Some_iff split: option.splits dest!: share_read nth_mem)

lemma get_share_of_ok: "(\<And>s. good_share s \<Longrightarrow> P s) \<Longrightarrow> ensures (execute pick) I (get_share_of kid oid) P"
  unfolding get_share_of_def read_share_def
  by (rule ensures_call) (auto simp: find_Some_iff split: option.splits dest!: share_read nth_mem)

text \<open>Statements that only read.\<close>

lemma reads_ok:
  "(\<And>x. N x) \<Longrightarrow> ensures (execute pick) I (count_members oid) N"
  "(\<And>x. Q x) \<Longrightarrow> ensures (execute pick) I (pending_request oid tenant kind) Q"
  "(\<And>x. K x) \<Longrightarrow> ensures (execute pick) I (get_kb kid) K"
  "(\<And>x. Ks x) \<Longrightarrow> ensures (execute pick) I (get_kbs kids) Ks"
  "(\<And>x. A x) \<Longrightarrow> ensures (execute pick) I (get_agent aid tenant) A"
  "(\<And>x. B x) \<Longrightarrow> ensures (execute pick) I (get_agent_share sid) B"
  "(\<And>x. B x) \<Longrightarrow> ensures (execute pick) I (get_agent_share_of aid oid) B"
  by (simp_all add: count_members_def pending_request_def get_kb_def get_kbs_def get_agent_def
        get_agent_share_def get_agent_share_of_def ensures_read)

text \<open>Statements that write.\<close>

lemma create_org_ok: "(fresh (og_id g) \<Longrightarrow> P ()) \<Longrightarrow> ensures (execute pick) I (create_org g) P"
  unfolding create_org_def
  by (rule ensures_call) (auto simp: ran_def insert_org_kept split: if_splits dest: insert_org_fresh)

lemma write_ok:
  assumes "\<And>db. I db \<Longrightarrow> I (snd (effect st pick db))" and "P ()"
  shows "ensures (execute pick) I (call st reading) P"
  by (rule ensures_call) (simp_all add: assms)

lemma add_member_row_ok:
  "(\<And>db. I db \<Longrightarrow> I (snd (insert_member m limit db))) \<Longrightarrow> P () \<Longrightarrow> ensures (execute pick) I (add_member_row m limit) P"
  unfolding add_member_row_def by (rule write_ok) simp_all

lemma save_org_ok:
  "(\<And>db. I db \<Longrightarrow> I (update_org g db)) \<Longrightarrow> P () \<Longrightarrow> ensures (execute pick) I (save_org g) P"
  unfolding save_org_def by (rule write_ok) simp_all

lemma drop_member_ok:
  "(\<And>db. I db \<Longrightarrow> I (snd (delete_member oid tenant db))) \<Longrightarrow> P () \<Longrightarrow> ensures (execute pick) I (drop_member oid tenant) P"
  unfolding drop_member_def by (rule write_ok) simp_all

lemma save_role_ok:
  "(\<And>db. I db \<Longrightarrow> I (snd (update_role oid tenant role db))) \<Longrightarrow> P () \<Longrightarrow> ensures (execute pick) I (save_role oid tenant role) P"
  unfolding save_role_def by (rule write_ok) simp_all

lemma create_request_ok:
  "(\<And>db. I db \<Longrightarrow> I (snd (insert_request q db))) \<Longrightarrow> P () \<Longrightarrow> ensures (execute pick) I (create_request q) P"
  unfolding create_request_def by (rule write_ok) simp_all

lemma save_share_ok:
  "(\<And>db. I db \<Longrightarrow> I (update_share s db)) \<Longrightarrow> P () \<Longrightarrow> ensures (execute pick) I (save_share s) P"
  unfolding save_share_def by (rule write_ok) simp_all

lemma save_agent_share_ok:
  "(\<And>db. I db \<Longrightarrow> I (update_agent_share s db)) \<Longrightarrow> P () \<Longrightarrow> ensures (execute pick) I (save_agent_share s) P"
  unfolding save_agent_share_def by (rule write_ok) simp_all

lemma kept_writes_ok:
  "P () \<Longrightarrow> ensures (execute pick) I (drop_org oid) P"
  "P () \<Longrightarrow> ensures (execute pick) I (save_code oid code expires) P"
  "P () \<Longrightarrow> ensures (execute pick) I (save_request rid status reviewer review) P"
  "P () \<Longrightarrow> ensures (execute pick) I (drop_org_shares oid) P"
  "P () \<Longrightarrow> ensures (execute pick) I (drop_org_agent_shares oid) P"
  "P () \<Longrightarrow> ensures (execute pick) I (drop_tenant_shares oid tenant) P"
  "P () \<Longrightarrow> ensures (execute pick) I (drop_tenant_agent_shares oid tenant) P"
  "P () \<Longrightarrow> ensures (execute pick) I (drop_share sid) P"
  "P () \<Longrightarrow> ensures (execute pick) I (drop_agent_share sid) P"
  "P () \<Longrightarrow> ensures (execute pick) I (drop_kb_shares kid) P"
  "P () \<Longrightarrow> ensures (execute pick) I (drop_shares_of_agent aid tenant) P"
  by (simp_all add: drop_kb_shares_def drop_shares_of_agent_def drop_org_def save_code_def save_request_def drop_org_shares_def drop_org_agent_shares_def
        drop_tenant_shares_def drop_tenant_agent_shares_def drop_share_def drop_agent_share_def write_ok
        delete_org_kept update_code_kept update_request_kept drop_shares_kept drop_agent_shares_kept)

lemma create_share_ok:
  "org_role_valid (sh_permission s) \<Longrightarrow> P () \<Longrightarrow> ensures (execute pick) I (create_share s) P"
  unfolding create_share_def
  by (intro ensures_settleI ensures_read ensures_ifI ensures_simps write_ok) (auto simp: insert_share_kept)

lemma create_agent_share_ok:
  "sa_permission s = OrgViewer \<Longrightarrow> P () \<Longrightarrow> ensures (execute pick) I (create_agent_share s) P"
  unfolding create_agent_share_def
  by (intro ensures_settleI ensures_read ensures_ifI ensures_simps write_ok) (auto simp: insert_agent_share_kept)

lemmas repository_ok = get_org_ok get_org_by_code_ok get_member_ok get_request_ok get_share_row_ok get_share_of_ok
  reads_ok create_org_ok add_member_row_ok save_org_ok drop_member_ok save_role_ok create_request_ok
  save_share_ok save_agent_share_ok kept_writes_ok create_share_ok create_agent_share_ok

lemma is_org_admin_ok: "(\<And>b. P b) \<Longrightarrow> ensures (execute pick) I (is_org_admin oid tenant) P"
  unfolding is_org_admin_def by (auto intro!: ensures_rules repository_ok)

lemma create_organization_ok: "ensures (execute pick) I (create_organization user tenant req oid code now) (\<lambda>_. True)"
  unfolding create_organization_def Let_def
  by (auto simp: new_org_def founder_kept intro!: ensures_rules repository_ok)

lemma update_organization_ok:
  assumes "uo_limit req = None \<or> free oid"
  shows "ensures (execute pick) I (update_organization oid tenant req) (\<lambda>_. True)"
  unfolding update_organization_def Let_def check_limit_def using assms
  by (auto intro!: ensures_rules repository_ok is_org_admin_ok update_org_kept split: option.splits)

lemma delete_organization_ok: "ensures (execute pick) I (delete_organization oid user tenant) (\<lambda>_. True)"
  unfolding delete_organization_def by (auto intro!: ensures_rules repository_ok)

lemma generate_invite_code_ok: "ensures (execute pick) I (generate_invite_code oid tenant code now) (\<lambda>_. True)"
  unfolding generate_invite_code_def Let_def by (auto intro!: ensures_rules repository_ok is_org_admin_ok)

lemma add_tenant_member_ok: "ensures (execute pick) I (add_tenant_member oid tenant user role) (\<lambda>_. True)"
  unfolding add_tenant_member_def add_within_limit_def
  by (auto intro!: ensures_rules repository_ok join_kept)

lemma remove_tenant_member_ok: "ensures (execute pick) I (remove_tenant_member oid tenant operator) (\<lambda>_. True)"
  unfolding remove_tenant_member_def revoke_tenant_shares_def
  by (auto intro!: ensures_rules repository_ok is_org_admin_ok leave_kept)

lemma update_tenant_member_role_ok: "ensures (execute pick) I (update_tenant_member_role oid tenant role operator) (\<lambda>_. True)"
  unfolding update_tenant_member_role_def
  by (auto intro!: ensures_rules repository_ok is_org_admin_ok role_kept)

lemma join_as_viewer_ok: "good_org g \<Longrightarrow> P () \<Longrightarrow> ensures (execute pick) I (join_as_viewer g user tenant) P"
  unfolding join_as_viewer_def add_within_limit_def
  by (auto intro!: ensures_rules repository_ok join_kept)

lemma join_by_invite_code_ok: "ensures (execute pick) I (join_by_invite_code now code user tenant) (\<lambda>_. True)"
  unfolding join_by_invite_code_def by (auto intro!: ensures_rules repository_ok join_as_viewer_ok)

lemma no_pending_ok: "P () \<Longrightarrow> ensures (execute pick) I (no_pending oid tenant kind) P"
  unfolding no_pending_def by (auto intro!: ensures_rules repository_ok)

lemma submit_join_request_ok:
  "(\<And>q. P q) \<Longrightarrow> ensures (execute pick) I (submit_join_request oid user tenant message role rid) P"
  unfolding submit_join_request_def room_left_def Let_def
  by (auto intro!: ensures_rules repository_ok no_pending_ok insert_request_kept)

lemma join_by_organization_id_ok:
  "ensures (execute pick) I (join_by_organization_id oid user tenant message role rid) (\<lambda>_. True)"
  unfolding join_by_organization_id_def Let_def
  by (auto intro!: ensures_rules repository_ok join_as_viewer_ok submit_join_request_ok)

lemma granted_role_valid: "org_role_valid (granted_role assign q)"
  by (auto simp: granted_role_def split: option.splits)

lemma review_join_request_ok:
  "ensures (execute pick) I (review_join_request oid rid approved reviewer review assign) (\<lambda>_. True)"
  unfolding review_join_request_def approve_request_def add_within_limit_def
  by (auto intro!: ensures_rules repository_ok upgrade_kept join_kept granted_role_valid)

lemma request_role_upgrade_ok: "ensures (execute pick) I (request_role_upgrade oid user tenant role message rid) (\<lambda>_. True)"
  unfolding request_role_upgrade_def Let_def
  by (auto intro!: ensures_rules repository_ok no_pending_ok insert_request_kept)

lemma may_share_into_ok: "P () \<Longrightarrow> ensures (execute pick) I (may_share_into oid tenant) P"
  unfolding may_share_into_def by (auto intro!: ensures_rules repository_ok)

lemma share_knowledge_base_ok: "ensures (execute pick) I (share_knowledge_base kid oid user tenant role sid now) (\<lambda>_. True)"
  unfolding share_knowledge_base_def Let_def
  by (auto intro!: ensures_rules repository_ok may_share_into_ok update_share_kept)

lemma can_manage_share_ok: "(\<And>b. P b) \<Longrightarrow> ensures (execute pick) I (can_manage_share trole s requested user tenant) P"
  unfolding can_manage_share_def by (auto intro!: ensures_rules repository_ok)

lemma update_share_permission_ok: "ensures (execute pick) I (update_share_permission trole sid role user tenant now) (\<lambda>_. True)"
  unfolding update_share_permission_def
  by (auto intro!: ensures_rules repository_ok can_manage_share_ok update_share_kept)

lemma remove_share_ok: "ensures (execute pick) I (remove_share trole sid user tenant) (\<lambda>_. True)"
  unfolding remove_share_def by (auto intro!: ensures_rules repository_ok can_manage_share_ok)

lemma check_scope_shareable_ok: "P () \<Longrightarrow> ensures (execute pick) I (check_scope_shareable key trole before aft user) P"
  unfolding check_scope_shareable_def Let_def by (auto intro!: ensures_rules repository_ok)

lemma share_agent_ok: "ensures (execute pick) I (share_agent builtin key trole aid oid user tenant sid now) (\<lambda>_. True)"
  unfolding share_agent_def Let_def
  by (auto intro!: ensures_rules repository_ok may_share_into_ok check_scope_shareable_ok update_agent_share_kept)

lemma remove_agent_share_ok: "ensures (execute pick) I (remove_agent_share trole sid user tenant) (\<lambda>_. True)"
  unfolding remove_agent_share_def by (auto intro!: ensures_rules repository_ok can_manage_share_ok)

lemma set_agent_hidden_ok: "ensures (execute pick) I (set_agent_hidden tenant aid source hidden) (\<lambda>_. True)"
  unfolding set_agent_hidden_def by (auto intro!: write_ok hidden_kept)

lemmas operations_ok = kept_writes_ok [of "\<lambda>_. True", THEN ensures_forget]
  submit_join_request_ok [of "\<lambda>_. True", THEN ensures_forget]
  create_organization_ok [THEN ensures_forget] update_organization_ok [THEN ensures_forget]
  delete_organization_ok [THEN ensures_forget] generate_invite_code_ok [THEN ensures_forget]
  add_tenant_member_ok [THEN ensures_forget] remove_tenant_member_ok [THEN ensures_forget]
  update_tenant_member_role_ok [THEN ensures_forget] join_by_invite_code_ok [THEN ensures_forget]
  join_by_organization_id_ok [THEN ensures_forget] review_join_request_ok [THEN ensures_forget]
  request_role_upgrade_ok [THEN ensures_forget] share_knowledge_base_ok [THEN ensures_forget]
  update_share_permission_ok [THEN ensures_forget] remove_share_ok [THEN ensures_forget]
  share_agent_ok [THEN ensures_forget] remove_agent_share_ok [THEN ensures_forget]
  set_agent_hidden_ok [THEN ensures_forget]

lemma service_operation_keeps:
  assumes "service_operation free p"
  shows "keeps (execute pick) I (\<lambda>_. True) p"
  using assms by (cases rule: service_operation.cases) (simp_all add: operations_ok)

text \<open>However many operations interleave, statement by statement, and whatever fails.\<close>

theorem interleaving_keeps:
  assumes "(turn (execute pick))\<^sup>*\<^sup>* (db, ps) (db', ps')" and "I db" and "\<forall>p \<in> set ps. service_operation free p"
  shows "I db'"
  using keeps_steps [OF assms(1), of I] assms(2,3) service_operation_keeps by simp

end

end
