(* ===== verification/ShareFacts.thy ===== *)
theory ShareFacts
  imports ShareRun
begin

text \<open>
  Invariants of organizations under every interleaving of the services' operations, each an
  interpretation of \<open>kept_by_services\<close>: the owning workspace stays an administrator, the
  member limit holds, and every stored role is one of the three.
\<close>

section \<open>The owning workspace\<close>

definition owner_kept :: "string \<Rightarrow> nat \<Rightarrow> share_db \<Rightarrow> bool" where
  "owner_kept oid t db \<longleftrightarrow>
     t \<noteq> 0 \<and> org_exists db oid
   \<and> (\<forall>g \<in> set (db_orgs db). og_id g = oid \<longrightarrow> og_owner_tenant g = t)
   \<and> (\<exists>m \<in> set (db_members db). mb_org m = oid \<and> mb_tenant m = t)
   \<and> (\<forall>m \<in> set (db_members db). mb_org m = oid \<and> mb_tenant m = t \<longrightarrow> mb_role m = OrgAdmin)
   \<and> (\<forall>q \<in> set (db_requests db). \<not> (rq_org q = oid \<and> rq_tenant q = t \<and> rq_kind q = UpgradeRequest))"

lemma org_exists_map:
  "(\<And>x. og_id (f x) = og_id x) \<Longrightarrow> org_exists (db\<lparr>db_orgs := map f (db_orgs db)\<rparr>) oid = org_exists db oid"
  by (simp add: org_exists_def image_image)

lemma org_exists_simps [simp]:
  "org_exists (update_org g db) oid = org_exists db oid"
  "org_exists (delete_org x db) oid = org_exists db oid"
  "org_exists (update_code x c e db) oid = org_exists db oid"
  by (simp_all only: update_org_def delete_org_def update_code_def) (rule org_exists_map, simp)+

lemma member_row_None: "member_row db oid t = None \<longleftrightarrow> (\<forall>m \<in> set (db_members db). \<not> (mb_org m = oid \<and> mb_tenant m = t))"
  by (auto simp: member_row_def find_None_iff)

interpretation owner: kept_by_services pick "owner_kept oid t" "\<lambda>_. True" "\<lambda>x. x \<noteq> oid"
    "\<lambda>g. og_id g = oid \<longrightarrow> og_owner_tenant g = t"
    "\<lambda>m. mb_org m = oid \<and> mb_tenant m = t \<longrightarrow> mb_role m = OrgAdmin"
    "\<lambda>q. \<not> (rq_org q = oid \<and> rq_tenant q = t \<and> rq_kind q = UpgradeRequest)" "\<lambda>_. True"
  for pick oid t
  apply unfold_locales
  subgoal by (simp add: owner_kept_def)
  subgoal by (simp add: owner_kept_def)
  subgoal by (simp add: owner_kept_def)
  subgoal by (simp add: owner_kept_def)
  subgoal by (auto simp: owner_kept_def insert_org_def with_defaults_def org_exists_def)
  subgoal by (auto simp: owner_kept_def insert_org_def)
  subgoal by (auto simp: owner_kept_def) (auto simp: update_org_def)
  subgoal by (auto simp: owner_kept_def) (auto simp: delete_org_def)
  subgoal by (auto simp: owner_kept_def) (auto simp: update_code_def)
  subgoal by (auto simp: owner_kept_def insert_member_def org_exists_def)
  subgoal by (auto simp: owner_kept_def insert_member_def org_exists_def member_row_None)
  subgoal by (auto simp: owner_kept_def delete_member_def org_exists_def is_owner_tenant_def)
  subgoal by (auto simp: owner_kept_def update_role_def org_exists_def is_owner_tenant_def)
  subgoal by (auto simp: owner_kept_def update_role_def org_exists_def)
  subgoal by (auto simp: owner_kept_def insert_request_def org_exists_def)
  subgoal by (auto simp: owner_kept_def update_request_def org_exists_def)
  subgoal by (auto simp: owner_kept_def insert_share_def org_exists_def)
  subgoal by (auto simp: owner_kept_def update_share_def org_exists_def)
  subgoal by (auto simp: owner_kept_def drop_shares_def org_exists_def)
  subgoal by (auto simp: owner_kept_def insert_agent_share_def org_exists_def)
  subgoal by (auto simp: owner_kept_def update_agent_share_def org_exists_def)
  subgoal by (auto simp: owner_kept_def drop_agent_shares_def org_exists_def)
  subgoal by (auto simp: owner_kept_def org_exists_def)
  done

text \<open>Creating an organization establishes it; the identifier is new.\<close>

lemma founded_owner:
  assumes "insert_org g db = (Ran, db1)" and "og_owner_tenant g = t" and "t \<noteq> 0"
    and "\<forall>m \<in> set (db_members db). mb_org m \<noteq> og_id g" and "\<forall>q \<in> set (db_requests db). rq_org q \<noteq> og_id g"
  shows "owner_kept (og_id g) t
    (snd (insert_member \<lparr>mb_org = og_id g, mb_tenant = t, mb_role = OrgAdmin, mb_user = user\<rparr> 0 db1))"
proof -
  have "db1 = db\<lparr>db_orgs := db_orgs db @ [with_defaults g]\<rparr>" "\<not> org_exists db (og_id g)"
    using assms(1) by (auto simp: insert_org_def split: if_splits)
  moreover from this assms(4) have "member_row db1 (og_id g) t = None" "org_exists db1 (og_id g)"
    by (auto simp: member_row_None org_exists_def with_defaults_def)
  ultimately show ?thesis
    using assms(2-) by (auto simp: insert_member_def owner_kept_def org_exists_def with_defaults_def image_iff)
qed

lemma created_owner:
  assumes "tenant \<noteq> 0" and "\<forall>m \<in> set (db_members db). mb_org m \<noteq> oid" and "\<forall>q \<in> set (db_requests db). rq_org q \<noteq> oid"
  shows "always (execute pick) (create_organization user tenant req oid code now)
     (\<lambda>r db'. \<forall>g. r = Inr g \<longrightarrow> owner_kept oid tenant db') db"
proof -
  let ?m = "\<lparr>mb_org = oid, mb_tenant = tenant, mb_role = OrgAdmin, mb_user = user\<rparr>"
  have org: "always (execute pick) (create_org g) (\<lambda>r db'. r = Inr () \<longrightarrow> insert_org g db = (Ran, db')) db" for g
    by (cases "insert_org g db") (auto simp: create_org_def always_call ran_def)
  have row: "always (execute pick) (add_member_row ?m 0) (\<lambda>r db'. r = Inr () \<longrightarrow> owner_kept oid tenant db') db1"
    if "insert_org (new_org user tenant req days limit oid code now) db = (Ran, db1)" for days limit db1
    using founded_owner [OF that, of tenant user] assms
    by (auto simp: add_member_row_def always_call new_org_def split: reply.splits)
  have found: "always (execute pick) (attempt (create_org g) (\<lambda>_. settle (add_member_row ?m 0) (\<lambda>r. case r of
         Inl e \<Rightarrow> settle (drop_org oid) (\<lambda>_. fail e) | Inr _ \<Rightarrow> give (with_defaults g))))
       (\<lambda>r db'. \<forall>g. r = Inr g \<longrightarrow> owner_kept oid tenant db') db"
    if "g = new_org user tenant req days limit oid code now" for g days limit
    by (auto simp: that drop_org_def always_call intro!: always_mono [OF org] always_mono [OF row] split: sum.split)
  show ?thesis
    using found [OF refl] by (simp add: create_organization_def Let_def)
qed

text \<open>An organization asked to be unlimited gets a limit of 50 members.\<close>

lemma unlimited_gets_fifty:
  assumes "run (execute pick) (create_organization user tenant req oid code now) fs db = (Inr g, db')" and "co_limit req = Some 0"
  shows "og_limit g = 50"
proof -
  have any: "(\<And>x d. Q x d) \<Longrightarrow> always (execute pick) p Q d" for p :: "'p program" and Q d
    by (induction p arbitrary: d) simp_all
  let ?Q = "\<lambda>r db'. \<forall>g. r = Inr g \<longrightarrow> og_limit g = 50"
  have rest: "always (execute pick) (case r of Inl e \<Rightarrow> settle (drop_org oid) (\<lambda>_. fail e) | Inr _ \<Rightarrow> give (with_defaults g)) ?Q d"
    if "og_limit g = 0" for r :: "share_error + unit" and g d
    using that by (cases r) (simp_all add: with_defaults_def any)
  have "always (execute pick) (create_organization user tenant req oid code now) ?Q db"
    by (auto simp: create_organization_def Let_def assms(2) new_org_def intro!: any rest split: sum.split)
  from always_run [OF this assms(1)] show ?thesis by simp
qed

text \<open>
  C12. Once an organization has its owning workspace as an administrator, it keeps it: no interleaving of
  any number of the services' operations, by any callers, with statements that fail or lose their replies,
  removes that workspace from the organization, changes its role or hands the ownership to another.
\<close>

theorem owner_stays_admin:
  assumes "owner_kept oid t db" and "\<forall>p \<in> set ps. service_operation (\<lambda>_. True) p"
    and "(turn (execute pick))\<^sup>*\<^sup>* (db, ps) (db', ps')"
  shows "owner_kept oid t db' \<and> (\<exists>m. member_row db' oid t = Some m \<and> mb_role m = OrgAdmin)"
proof -
  have k: "owner_kept oid t db'" using owner.interleaving_keeps [OF assms(3,1,2)] .
  then obtain m where m: "member_row db' oid t = Some m"
    using member_row_None [of db' oid t] by (cases "member_row db' oid t") (auto simp: owner_kept_def)
  then have "m \<in> set (db_members db')" "mb_org m = oid" "mb_tenant m = t"
    by (auto simp: member_row_def find_Some_iff)
  with k m show ?thesis by (auto simp: owner_kept_def)
qed

definition demo_org :: "string \<Rightarrow> nat \<Rightarrow> int \<Rightarrow> org" where
  "demo_org oid owner limit =
     \<lparr>og_id = oid, og_name = ''team'', og_description = [], og_avatar = [], og_owner_user = ''ann'',
      og_owner_tenant = owner, og_code = ''c0de'', og_code_expires = None, og_validity = 7, og_approval = False,
      og_searchable = True, og_limit = limit, og_deleted = False\<rparr>"

definition demo_db :: "org list \<Rightarrow> org_member list \<Rightarrow> share_db" where
  "demo_db gs ms =
     \<lparr>db_orgs = gs, db_members = ms, db_requests = [], db_shares = [], db_agent_shares = [], db_kbs = [],
      db_agents = [], db_hidden = []\<rparr>"

definition demo_member :: "string \<Rightarrow> nat \<Rightarrow> org_role \<Rightarrow> org_member" where
  "demo_member oid t r = \<lparr>mb_org = oid, mb_tenant = t, mb_role = r, mb_user = ''ann''\<rparr>"

lemmas demo_defs = demo_org_def demo_db_def demo_member_def

text \<open>Another administrator removes and demotes the owner, and fails, while a third workspace joins.\<close>

definition owner_demo :: share_db where
  "owner_demo = demo_db [demo_org ''g'' 1 0] [demo_member ''g'' 1 OrgAdmin, demo_member ''g'' 2 OrgAdmin]"

definition owner_demo_ops :: "unit program list" where
  "owner_demo_ops =
     [forget (remove_tenant_member ''g'' 1 2), forget (update_tenant_member_role ''g'' 1 OrgViewer 2),
      forget (join_by_invite_code 0 ''c0de'' ''cal'' 3)]"

definition owner_demo_run :: "share_db \<times> unit program list" where
  "owner_demo_run = schedule (execute hd) (map (\<lambda>i. (i mod 3, if i = 1 then Refused else Fine)) [0..<12])
     (owner_demo, owner_demo_ops)"

lemma owner_stays_admin_witness:
  "owner_kept ''g'' 1 (fst owner_demo_run) \<and> member_count (fst owner_demo_run) ''g'' = 3"
proof
  have start: "owner_kept ''g'' 1 owner_demo"
    by (simp add: owner_kept_def org_exists_def demo_defs owner_demo_def)
  have ops: "\<forall>p \<in> set owner_demo_ops. service_operation (\<lambda>_. True) p"
    by (simp add: owner_demo_ops_def op_remove op_role op_join_code)
  have "(turn (execute hd))\<^sup>*\<^sup>* (owner_demo, owner_demo_ops) (fst owner_demo_run, snd owner_demo_run)"
    by (simp add: owner_demo_run_def schedule_steps)
  from owner_stays_admin [OF start ops this] show "owner_kept ''g'' 1 (fst owner_demo_run)" ..
  show "member_count (fst owner_demo_run) ''g'' = 3" by code_simp
qed

section \<open>The member limit\<close>

definition limit_holds :: "string \<Rightarrow> int \<Rightarrow> share_db \<Rightarrow> bool" where
  "limit_holds oid limit db \<longleftrightarrow>
     0 < limit \<and> org_exists db oid \<and> (\<forall>g \<in> set (db_orgs db). og_id g = oid \<longrightarrow> og_limit g = limit)
   \<and> int (member_count db oid) \<le> limit"

lemma member_count_role:
  "length (filter (\<lambda>m. mb_org m = oid) (map (\<lambda>m. if P m then m\<lparr>mb_role := r\<rparr> else m) ms))
     = length (filter (\<lambda>m. mb_org m = oid) ms)"
  by (induction ms) auto

lemma member_count_update_role: "member_count (snd (update_role x t r db)) oid = member_count db oid"
  by (simp add: member_count_def update_role_def member_count_role del: filter_map length_filter_map)

lemma member_count_leave:
  "length (filter (\<lambda>m. mb_org m = oid) (filter Q ms)) \<le> length (filter (\<lambda>m. mb_org m = oid) ms)"
  by (induction ms) auto

interpretation limited: kept_by_services pick "limit_holds oid limit" "\<lambda>x. x \<noteq> oid" "\<lambda>x. x \<noteq> oid"
    "\<lambda>g. og_id g = oid \<longrightarrow> og_limit g = limit" "\<lambda>_. True" "\<lambda>_. True" "\<lambda>_. True"
  for pick oid limit
  apply unfold_locales
  subgoal by (simp add: limit_holds_def)
  subgoal by simp
  subgoal by simp
  subgoal by simp
  subgoal by (auto simp: limit_holds_def insert_org_def with_defaults_def org_exists_def member_count_def)
  subgoal by (auto simp: limit_holds_def insert_org_def)
  subgoal by (auto simp: limit_holds_def) (auto simp: update_org_def patched_org_def set_or_def member_count_def)
  subgoal by (auto simp: limit_holds_def) (auto simp: delete_org_def member_count_def)
  subgoal by (auto simp: limit_holds_def) (auto simp: update_code_def member_count_def)
  subgoal by (auto simp: limit_holds_def insert_member_def org_exists_def member_count_def)
  subgoal by (auto simp: limit_holds_def insert_member_def org_exists_def member_count_def)
  subgoal for db g tenant
    using member_count_leave [of oid "\<lambda>m. \<not> (mb_org m = og_id g \<and> mb_tenant m = tenant)" "db_members db"]
    by (simp add: limit_holds_def delete_member_def org_exists_def member_count_def del: filter_filter)
  subgoal by (simp add: limit_holds_def member_count_update_role) (simp add: update_role_def org_exists_def)
  subgoal by (simp add: limit_holds_def member_count_update_role) (simp add: update_role_def org_exists_def)
  subgoal by (auto simp: limit_holds_def insert_request_def org_exists_def member_count_def)
  subgoal by (auto simp: limit_holds_def update_request_def org_exists_def member_count_def)
  subgoal by (auto simp: limit_holds_def insert_share_def org_exists_def member_count_def)
  subgoal by (auto simp: limit_holds_def update_share_def org_exists_def member_count_def)
  subgoal by (auto simp: limit_holds_def drop_shares_def org_exists_def member_count_def)
  subgoal by (auto simp: limit_holds_def insert_agent_share_def org_exists_def member_count_def)
  subgoal by (auto simp: limit_holds_def update_agent_share_def org_exists_def member_count_def)
  subgoal by (auto simp: limit_holds_def drop_agent_shares_def org_exists_def member_count_def)
  subgoal by (auto simp: limit_holds_def org_exists_def member_count_def)
  done

text \<open>
  C16. Joins never take an organization beyond its member limit, however many of them
  run at once, by whatever way they join, and whatever fails: the count and the insert are one transaction. The
  limit itself is left alone, since lowering it counts outside of that transaction.
\<close>

theorem joins_within_limit:
  assumes "limit_holds oid limit db" and "\<forall>p \<in> set ps. service_operation (\<lambda>x. x \<noteq> oid) p"
    and "(turn (execute pick))\<^sup>*\<^sup>* (db, ps) (db', ps')"
  shows "int (member_count db' oid) \<le> limit"
  using limited.interleaving_keeps [OF assms(3,1,2)] by (simp add: limit_holds_def)

text \<open>Three workspaces join at once where two places are left; all of them read the organization first.\<close>

definition limit_demo :: share_db where
  "limit_demo = demo_db [demo_org ''g'' 1 3] [demo_member ''g'' 1 OrgAdmin]"

definition limit_demo_ops :: "unit program list" where
  "limit_demo_ops = map (\<lambda>t. forget (join_by_invite_code 0 ''c0de'' ''cal'' t)) [2, 3, 4]"

definition limit_demo_run :: "share_db \<times> unit program list" where
  "limit_demo_run = schedule (execute hd) (map (\<lambda>i. (i mod 3, Fine)) [0..<9]) (limit_demo, limit_demo_ops)"

lemma joins_within_limit_witness:
  "int (member_count (fst limit_demo_run) ''g'') \<le> 3 \<and> member_count (fst limit_demo_run) ''g'' = 3"
proof
  have start: "limit_holds ''g'' 3 limit_demo"
    by (simp add: limit_holds_def org_exists_def member_count_def demo_defs limit_demo_def)
  have ops: "\<forall>p \<in> set limit_demo_ops. service_operation (\<lambda>x. x \<noteq> ''g'') p"
    by (simp add: limit_demo_ops_def op_join_code)
  have "(turn (execute hd))\<^sup>*\<^sup>* (limit_demo, limit_demo_ops) (fst limit_demo_run, snd limit_demo_run)"
    by (simp add: limit_demo_run_def schedule_steps)
  from joins_within_limit [OF start ops this] show "int (member_count (fst limit_demo_run) ''g'') \<le> 3" .
  show "member_count (fst limit_demo_run) ''g'' = 3" by code_simp
qed

text \<open>
  Lowering the limit counts the members in a statement of its own: a join between the count and the update leaves
  more members than the new limit.
\<close>

lemma lowering_limit_races:
  "let (db, ps) = schedule (execute hd) (map (\<lambda>i. (i, Fine)) [0, 0, 0, 1, 1, 1, 0])
     (limit_demo, [forget (update_organization ''g'' 1
        \<lparr>uo_name = None, uo_description = None, uo_avatar = None, uo_approval = None, uo_searchable = None,
         uo_validity = None, uo_limit = Some 1\<rparr>), forget (join_by_invite_code 0 ''c0de'' ''cal'' 2)])
   in map og_limit (db_orgs db) = [1] \<and> member_count db ''g'' = 2"
  by code_simp

section \<open>Roles\<close>

definition roles_valid :: "share_db \<Rightarrow> bool" where
  "roles_valid db \<longleftrightarrow>
     (\<forall>m \<in> set (db_members db). org_role_valid (mb_role m))
   \<and> (\<forall>s \<in> set (db_shares db). org_role_valid (sh_permission s))
   \<and> (\<forall>a \<in> set (db_agent_shares db). org_role_valid (sa_permission a))"

interpretation roles: kept_by_services pick roles_valid "\<lambda>_. True" "\<lambda>_. True" "\<lambda>_. True"
    "\<lambda>m. org_role_valid (mb_role m)" "\<lambda>_. True" "\<lambda>s. org_role_valid (sh_permission s)"
  for pick
  apply unfold_locales
  subgoal by simp
  subgoal by (simp add: roles_valid_def)
  subgoal by simp
  subgoal by (simp add: roles_valid_def)
  subgoal by (auto simp: roles_valid_def insert_org_def)
  subgoal by simp
  subgoal by (auto simp: roles_valid_def update_org_def)
  subgoal by (auto simp: roles_valid_def delete_org_def)
  subgoal by (auto simp: roles_valid_def update_code_def)
  subgoal by (auto simp: roles_valid_def insert_member_def)
  subgoal by (auto simp: roles_valid_def insert_member_def)
  subgoal by (auto simp: roles_valid_def delete_member_def)
  subgoal by (auto simp: roles_valid_def update_role_def)
  subgoal by (auto simp: roles_valid_def update_role_def)
  subgoal by (auto simp: roles_valid_def insert_request_def)
  subgoal by (auto simp: roles_valid_def update_request_def)
  subgoal by (auto simp: roles_valid_def insert_share_def)
  subgoal by (auto simp: roles_valid_def update_share_def)
  subgoal by (auto simp: roles_valid_def drop_shares_def)
  subgoal by (auto simp: roles_valid_def insert_agent_share_def)
  subgoal by (auto simp: roles_valid_def update_agent_share_def)
  subgoal by (auto simp: roles_valid_def drop_agent_shares_def)
  subgoal by (auto simp: roles_valid_def)
  done

theorem roles_stay_valid:
  assumes "roles_valid db" and "\<forall>p \<in> set ps. service_operation (\<lambda>_. True) p"
    and "(turn (execute pick))\<^sup>*\<^sup>* (db, ps) (db', ps')"
  shows "roles_valid db'"
  using roles.interleaving_keeps [OF assms(3,1,2)] .

end
