(* ===== verification/ShareAccess.thy ===== *)
theory ShareAccess
  imports ShareFacts Access
begin

text \<open>
  What the permission checks promise: the permission of a workspace on a knowledge base is the best of its
  counting shares, a removed workspace's shares count no more, only the sharing side raises a permission, and
  whatever the resolution grants was earned.
\<close>

section \<open>The permission of a workspace\<close>

definition share_gives :: "share_db \<Rightarrow> nat \<Rightarrow> tenant_role \<Rightarrow> kb_share \<Rightarrow> org_role option" where
  "share_gives db tenant role s =
     (if live_org db (sh_org s) = None \<or> member_row db (sh_org s) (sh_source s) = None then None
      else map_option (\<lambda>m. effective_role (sh_permission s) (mb_role m) role) (member_row db (sh_org s) tenant))"

text \<open>The permissions the living shares of a knowledge base give.\<close>

definition given_permissions :: "share_db \<Rightarrow> nat \<Rightarrow> tenant_role \<Rightarrow> string \<Rightarrow> org_role set" where
  "given_permissions db tenant role kid =
     set (List.map_filter (share_gives db tenant role) (filter (\<lambda>s. sh_kb s = kid \<and> \<not> sh_deleted s) (db_shares db)))"

definition given_by :: "share_db \<Rightarrow> nat \<Rightarrow> tenant_role \<Rightarrow> (kb_share \<times> org option) list \<Rightarrow> org_role set" where
  "given_by db tenant role ss = set (List.map_filter (share_gives db tenant role) (map fst ss))"

lemma given_by_simps [simp]:
  "given_by db tenant role [] = {}"
  "given_by db tenant role ((s, g) # ss) =
     (case share_gives db tenant role s of None \<Rightarrow> {} | Some p \<Rightarrow> {p}) \<union> given_by db tenant role ss"
  by (auto simp: given_by_def map_filter_def split: option.splits)

lemma given_by_shares: "given_by db tenant role (shares_of_kb db kid) = given_permissions db tenant role kid"
  by (auto simp: given_by_def given_permissions_def shares_of_kb_def map_filter_def comp_def)

lemma shares_of_kb_org: "(s, g) \<in> set (shares_of_kb db kid) \<Longrightarrow> g = live_org db (sh_org s)"
  by (auto simp: shares_of_kb_def)

lemma always_get_member:
  "always (execute pick) (get_member oid tenant) Q db \<longleftrightarrow>
     Q (case member_row db oid tenant of None \<Rightarrow> Inl MemberMissing | Some m \<Rightarrow> Inr m) db \<and> Q (Inl Database) db"
  by (auto simp: get_member_def always_call)

lemma run_get_member [simp]:
  "run (execute pick) (get_member oid tenant) [] db =
     (case member_row db oid tenant of None \<Rightarrow> Inl MemberMissing | Some m \<Rightarrow> Inr m, db)"
  by (simp add: get_member_def)

definition permission_in :: "org_role set \<Rightarrow> org_role \<times> bool \<Rightarrow> bool" where
  "permission_in G r \<longleftrightarrow> (if snd r then fst r \<in> G else fst r = no_role)"

lemma best_permission_sound:
  assumes "\<forall>(s, g) \<in> set ss. g = live_org db (sh_org s)" and "permission_in G (h, shared)"
    and "given_by db tenant role ss \<subseteq> G"
  shows "always (execute pick) (best_permission tenant role ss h shared)
     (\<lambda>r db'. db' = db \<and> (\<exists>x. r = Inr x \<and> permission_in G x)) db"
  using assms
proof (induction ss arbitrary: h shared)
  case (Cons x rest)
  obtain s g where x: "x = (s, g)" by fastforce
  let ?eff = "\<lambda>m. effective_role (sh_permission s) (mb_role m) role"
  have rest: "\<forall>(s, g) \<in> set rest. g = live_org db (sh_org s)" "given_by db tenant role rest \<subseteq> G"
    using Cons.prems(1,3) by (auto simp: x)
  define better where "better e = (if h = no_role \<or> org_has e h then e else h)" for e
  have step: "permission_in G (better (?eff m), True)"
    if "g \<noteq> None" "member_row db (sh_org s) (sh_source s) = Some n" "member_row db (sh_org s) tenant = Some m" for n m
    using Cons.prems that by (auto simp: x better_def permission_in_def share_gives_def split: if_splits)
  show ?case
    using Cons.IH [OF rest(1) Cons.prems(2) rest(2)] Cons.IH [OF rest(1) step rest(2)]
    by (auto simp: x always_get_member Let_def better_def [symmetric] split: option.split)
qed simp

text \<open>Without faults it is the best of them.\<close>

lemma best_permission_fine:
  assumes "\<forall>(s, g) \<in> set ss. g = live_org db (sh_org s)"
  shows "\<exists>p. run (execute pick) (best_permission tenant role ss h shared) [] db
           = (Inr (p, shared \<or> given_by db tenant role ss \<noteq> {}), db)
         \<and> org_has p h \<and> (\<forall>q \<in> given_by db tenant role ss. org_has p q)"
  using assms
proof (induction ss arbitrary: h shared)
  case (Cons x rest)
  obtain s g where x: "x = (s, g)" by fastforce
  have rest: "\<forall>(s, g) \<in> set rest. g = live_org db (sh_org s)" using Cons.prems by (auto simp: x)
  show ?case
  proof (cases "share_gives db tenant role s")
    case None
    with Cons.IH [OF rest, of h shared] Cons.prems show ?thesis
      by (auto simp: x share_gives_def split: if_splits option.splits)
  next
    case (Some e)
    then have "run (execute pick) (best_permission tenant role (x # rest) h shared) [] db
        = run (execute pick) (best_permission tenant role rest (if h = no_role \<or> org_has e h then e else h) True) [] db"
      using Cons.prems by (auto simp: x share_gives_def Let_def split: if_splits)
    moreover have "org_has (if h = no_role \<or> org_has e h then e else h) h"
      "org_has (if h = no_role \<or> org_has e h then e else h) e"
      by (auto simp: org_has_def)
    ultimately show ?thesis
      using Cons.IH [OF rest, of "if h = no_role \<or> org_has e h then e else h" True] Some
      by (auto simp: x intro: org_has_trans)
  qed
qed simp

lemma check_sound:
  "always (execute pick) (check_tenant_kb_permission kid tenant role)
     (\<lambda>r db'. db' = db \<and> (case r of Inl e \<Rightarrow> True | Inr x \<Rightarrow> permission_in (given_permissions db tenant role kid) x)) db"
proof -
  have o: "\<forall>(s, g) \<in> set (shares_of_kb db kid). g = live_org db (sh_org s)" by (auto dest: shares_of_kb_org)
  have "always (execute pick) (best_permission tenant role (shares_of_kb db kid) no_role False)
     (\<lambda>r db'. db' = db \<and> (\<exists>x. r = Inr x \<and> permission_in (given_permissions db tenant role kid) x)) db"
    by (rule best_permission_sound [OF o]) (simp_all add: permission_in_def given_by_shares)
  then show ?thesis
    by (simp add: check_tenant_kb_permission_def list_kb_shares_def always_call read_shares_def)
       (erule always_mono, auto)
qed

lemma check_fine:
  "\<exists>p. run (execute pick) (check_tenant_kb_permission kid tenant role) [] db
      = (Inr (p, given_permissions db tenant role kid \<noteq> {}), db)
    \<and> (\<forall>q \<in> given_permissions db tenant role kid. org_has p q)"
proof -
  have o: "\<forall>(s, g) \<in> set (shares_of_kb db kid). g = live_org db (sh_org s)" by (auto dest: shares_of_kb_org)
  from best_permission_fine [OF o, where tenant = tenant and role = role and h = no_role and shared = False and pick = pick]
  show ?thesis
    by (auto simp: check_tenant_kb_permission_def list_kb_shares_def read_shares_def given_by_shares)
qed

definition demo_share :: "string \<Rightarrow> string \<Rightarrow> nat \<Rightarrow> org_role \<Rightarrow> kb_share" where
  "demo_share sid kid source p =
     \<lparr>sh_id = sid, sh_kb = kid, sh_org = ''g'', sh_user = ''ann'', sh_source = source, sh_permission = p,
      sh_created = 5, sh_updated = 5, sh_deleted = False\<rparr>"

text \<open>Workspaces 1 and 2 share a knowledge base each with an organization that 3 belongs to.\<close>

definition share_demo :: share_db where
  "share_demo = (demo_db [demo_org ''g'' 1 0]
       [demo_member ''g'' 1 OrgAdmin, demo_member ''g'' 2 OrgEditor, demo_member ''g'' 3 OrgEditor])
     \<lparr>db_shares := [demo_share ''s'' ''k'' 2 OrgEditor, demo_share ''t'' ''l'' 1 OrgViewer],
      db_kbs := [\<lparr>kb_id = ''k'', kb_tenant = 2, kb_creator = ''ann'', kb_deleted = False\<rparr>,
                 \<lparr>kb_id = ''l'', kb_tenant = 1, kb_creator = ''ann'', kb_deleted = False\<rparr>]\<rparr>"



section \<open>Removing a workspace\<close>

lemma removed_row:
  "always (execute pick) (remove_tenant_member oid tenant operator)
     (\<lambda>r db'. r = Inr () \<longrightarrow> member_row db' oid tenant = None) db"
  by (auto simp: remove_tenant_member_def revoke_tenant_shares_def get_org_def is_org_admin_def get_member_def
        drop_member_def drop_tenant_shares_def drop_tenant_agent_shares_def always_call affected_def
        delete_member_def drop_shares_def drop_agent_shares_def member_row_None
      split: option.splits)

text \<open>
  C14. Once removing a workspace from an organization has reported success, nothing it shared there
  counts for anyone, and nothing shared there counts for it, even if the statements that revoke its shares failed.
\<close>

theorem removed_workspace_shares_nothing:
  assumes "run (execute pick) (remove_tenant_member oid tenant operator) fs db = (Inr (), db')"
  shows "list_all (\<lambda>s. (sh_org s = oid \<and> sh_source s = tenant
             \<longrightarrow> \<not> share_effective db' s \<and> share_gives db' other role s = None)
           \<and> (sh_org s = oid \<longrightarrow> share_gives db' tenant role s = None)) (db_shares db')
       \<and> list_all (\<lambda>a. sa_org a = oid \<and> sa_source a = tenant \<longrightarrow> \<not> agent_share_effective db' a) (db_agent_shares db')"
  using always_run [OF removed_row assms]
  by (auto simp: list_all_iff share_gives_def share_effective_def agent_share_effective_def)

lemma removed_workspace_shares_nothing_witness:
  "share_gives (snd (run (execute hd) (remove_tenant_member ''g'' 2 1) [Fine, Fine, Fine, Refused, Refused] share_demo))
     3 TenantAdmin (demo_share ''s'' ''k'' 2 OrgEditor) = None
   \<and> share_gives share_demo 3 TenantAdmin (demo_share ''s'' ''k'' 2 OrgEditor) = Some OrgEditor"
proof
  let ?p = "run (execute hd) (remove_tenant_member ''g'' 2 1) [Fine, Fine, Fine, Refused, Refused] share_demo"
  have "fst ?p = Inr ()" by code_simp
  then have "?p = (Inr (), snd ?p)" by (metis prod.collapse)
  from removed_workspace_shares_nothing [OF this, of 3 TenantAdmin]
  have "list_all (\<lambda>s. sh_org s = ''g'' \<and> sh_source s = 2 \<longrightarrow> share_gives (snd ?p) 3 TenantAdmin s = None) (db_shares (snd ?p))"
    by (auto simp: list_all_iff)
  moreover have "db_shares (snd ?p) = db_shares share_demo" by code_simp
  ultimately show "share_gives (snd ?p) 3 TenantAdmin (demo_share ''s'' ''k'' 2 OrgEditor) = None"
    by (simp add: share_demo_def demo_share_def)
  show "share_gives share_demo 3 TenantAdmin (demo_share ''s'' ''k'' 2 OrgEditor) = Some OrgEditor" by code_simp
qed

section \<open>Changing a permission\<close>

definition may_change_permission ::
    "share_db \<Rightarrow> tenant_role \<Rightarrow> kb_share \<Rightarrow> org_role \<Rightarrow> string \<Rightarrow> nat \<Rightarrow> bool" where
  "may_change_permission db role s permission user tenant \<longleftrightarrow>
     tenant \<noteq> 0 \<and> org_role_valid permission
   \<and> ((tenant = sh_source s
        \<and> (tenant_has role TenantAdmin \<or> (user \<noteq> [] \<and> sh_user s = user \<and> tenant_has role TenantContributor)))
      \<or> (org_has (sh_permission s) permission \<and> tenant_has role TenantAdmin
        \<and> map_option mb_role (member_row db (sh_org s) tenant) = Some OrgAdmin))"

lemma update_share_self:
  assumes "distinct (map sh_id (db_shares db))" and "s \<in> set (db_shares db)" and "\<not> sh_deleted s" and "permission \<noteq> no_role"
  shows "db_shares (update_share (s\<lparr>sh_permission := permission, sh_updated := now\<rparr>) db)
       = map (\<lambda>x. if x = s then s\<lparr>sh_permission := permission, sh_updated := now\<rparr> else x) (db_shares db)"
  using assms by (auto simp: update_share_def distinct_map inj_on_def intro!: kb_share.equality)

lemma can_manage_sound:
  "org_role_valid permission \<Longrightarrow>
   always (execute pick) (can_manage_share role (kb_share_record s) permission user tenant)
     (\<lambda>r db'. db' = db \<and> (r = Inr True \<longrightarrow> may_change_permission db role s permission user tenant)) db"
  by (auto simp: can_manage_share_def always_get_member kb_share_record_def may_change_permission_def
      split: option.splits)

lemma permission_changes:
  assumes "distinct (map sh_id (db_shares db))"
  shows "always (execute pick) (update_share_permission role sid permission user tenant now)
     (\<lambda>r db'. db_shares db' = db_shares db \<or>
        (\<exists>s \<in> set (db_shares db). sh_id s = sid \<and> may_change_permission db role s permission user tenant
           \<and> db_shares db' = map (\<lambda>x. if x = s then s\<lparr>sh_permission := permission, sh_updated := now\<rparr> else x)
                               (db_shares db))) db"
    (is "always (execute pick) _ ?Q db")
proof (cases "List.find (\<lambda>s. sh_id s = sid \<and> \<not> sh_deleted s) (db_shares db)")
  case None
  then show ?thesis by (simp add: update_share_permission_def get_share_row_def always_call read_share_def)
next
  case (Some s)
  then have s: "s \<in> set (db_shares db)" "sh_id s = sid" "\<not> sh_deleted s" by (auto simp: find_Some_iff)
  let ?new = "s\<lparr>sh_permission := permission, sh_updated := now\<rparr>"
  have save: "always (execute pick) (save_share ?new) ?Q db"
    if "org_role_valid permission" "may_change_permission db role s permission user tenant"
  proof -
    have "db_shares (update_share ?new db) = map (\<lambda>x. if x = s then ?new else x) (db_shares db)"
      by (rule update_share_self [OF assms s(1,3)]) (use that(1) in auto)
    with s that(2) have "?Q r (update_share ?new db)" for r :: "share_error + unit"
      by (intro disjI2 bexI [of _ s]) simp_all
    then show ?thesis by (simp add: save_share_def always_call)
  qed
  have "always (execute pick) (can_manage_share role (kb_share_record s) permission user tenant)
      (\<lambda>r db'. case r of Inl e \<Rightarrow> ?Q (Inl e) db'
         | Inr ok \<Rightarrow> always (execute pick) (if \<not> ok then fail ShareDenied else save_share ?new) ?Q db') db"
    if "org_role_valid permission"
    by (rule always_mono [OF can_manage_sound [OF that]]) (auto simp: save [OF that] split: sum.split)
  with Some show ?thesis
    by (simp add: update_share_permission_def get_share_row_def always_call read_share_def)
qed

text \<open>
  C15. Changing the permission of a share changes that share only, and only for who may: members of the
  sharing workspace that shared it or administer the workspace, or administrators of a workspace that
  administers the organization, and these never raise it.
\<close>

theorem only_sharing_side_raises:
  assumes "distinct (map sh_id (db_shares db))"
    and "run (execute pick) (update_share_permission role sid permission user tenant now) fs db = (r, db')"
  shows "list_all2 (\<lambda>s s'. s' = s \<or>
     (sh_id s = sid \<and> s' = s\<lparr>sh_permission := permission, sh_updated := now\<rparr>
      \<and> may_change_permission db role s permission user tenant
      \<and> (org_level (sh_permission s) < org_level permission \<longrightarrow> tenant = sh_source s))) (db_shares db) (db_shares db')"
proof -
  have "list_all2 (\<lambda>x x'. x' = x \<or> P x x') xs (map (\<lambda>x. if x = s then f x else x) xs)" if "P s (f s)"
    for P :: "kb_share \<Rightarrow> kb_share \<Rightarrow> bool" and f s xs
    using that by (induction xs) auto
  then show ?thesis
    using always_run [OF permission_changes [OF assms(1)] assms(2)]
    by (auto simp: list.rel_refl may_change_permission_def org_has_def)
qed

text \<open>The other administrator lowers the permission; raising it again is refused.\<close>

lemma only_sharing_side_raises_witness:
  "let (r, db) = run (execute hd) (update_share_permission TenantAdmin ''s'' OrgViewer ''bob'' 1 9) [] share_demo
   in r = Inr ()
    \<and> map sh_permission (db_shares db) = [OrgViewer, OrgViewer]
    \<and> list_all2 (\<lambda>s s'. s' = s \<or> may_change_permission share_demo TenantAdmin s OrgViewer ''bob'' 1)
        (db_shares share_demo) (db_shares db)
    \<and> fst (run (execute hd) (update_share_permission TenantAdmin ''s'' OrgEditor ''bob'' 1 9) [] db) = Inl ShareDenied"
proof -
  let ?p = "run (execute hd) (update_share_permission TenantAdmin ''s'' OrgViewer ''bob'' 1 9) [] share_demo"
  have d: "distinct (map sh_id (db_shares share_demo))" by code_simp
  have v: "fst ?p = Inr ()" "map sh_permission (db_shares (snd ?p)) = [OrgViewer, OrgViewer]"
    "fst (run (execute hd) (update_share_permission TenantAdmin ''s'' OrgEditor ''bob'' 1 9) [] (snd ?p)) = Inl ShareDenied"
    by code_simp+
  have "list_all2 (\<lambda>s s'. s' = s \<or> may_change_permission share_demo TenantAdmin s OrgViewer ''bob'' 1)
        (db_shares share_demo) (db_shares (snd ?p))"
    by (rule list_all2_mono [OF only_sharing_side_raises [OF d prod.collapse [symmetric]]]) auto
  with v show ?thesis by (simp add: case_prod_unfold)
qed

text \<open>
  The share is read, checked and written in three statements: an administrator of the organization who
  confirms the permission just read undoes a lowering by the sharing side in between.
\<close>

lemma stale_permission_raises:
  "map sh_permission (db_shares (fst (schedule (execute hd) (map (\<lambda>i. (i, Fine)) [0, 0, 1, 1, 0])
     (share_demo, [forget (update_share_permission TenantAdmin ''s'' OrgEditor ''bob'' 1 9),
                   forget (update_share_permission TenantContributor ''s'' OrgViewer ''ann'' 2 8)])))) = [OrgEditor, OrgViewer]"
  by code_simp

end
