(* ===== verification/AccessFacts.thy ===== *)
theory AccessFacts
  imports ShareAccess
begin

text \<open>
  What the resolution of knowledge bases and the grants carried in contexts promise: whatever is granted is
  earned by the caller's own workspace, a share or a shared agent.
\<close>

section \<open>Shared agents\<close>

text \<open>A share through which a workspace reaches an agent of another that exposes the knowledge base.\<close>

definition agent_reaches :: "(string \<Rightarrow> bool) \<Rightarrow> share_db \<Rightarrow> nat \<Rightarrow> string \<Rightarrow> nat \<Rightarrow> bool" where
  "agent_reaches builtin db tenant kid owner \<longleftrightarrow>
     list_ex (\<lambda>s. agent_share_effective db s \<and> sa_source s \<noteq> tenant
                \<and> member_row db (sa_org s) tenant \<noteq> None \<and> live_org db (sa_org s) \<noteq> None
                \<and> (case live_agent db (sa_agent s) (sa_source s) of
                     None \<Rightarrow> False
                   | Some a \<Rightarrow> \<not> is_builtin_agent builtin a \<and> scope_allows (agent_kb_scope (Some a)) kid owner))
       (db_agent_shares db)"

lemma receiver_scope [simp]: "agent_kb_scope (Some (receiver_view a)) = agent_kb_scope (Some a)"
  by (simp add: agent_kb_scope_def receiver_view_def)

definition all_infos :: "(shared_agent \<Rightarrow> bool) \<Rightarrow> ((string \<times> nat) \<times> shared_agent \<times> org_role) list \<Rightarrow> bool" where
  "all_infos P infos \<longleftrightarrow> (\<forall>(key, a, e) \<in> set infos. P a)"

lemma all_infos_update: "all_infos P xs \<Longrightarrow> P a \<Longrightarrow> all_infos P (AList.update k (a, e) xs)"
  unfolding all_infos_def by (induction xs) auto

lemma shared_agent_infos_sound:
  assumes "\<And>s a. (s, a) \<in> set ss \<Longrightarrow> sa_source s \<noteq> tenant \<Longrightarrow> \<not> is_builtin_agent builtin a \<Longrightarrow> P (receiver_view a)"
    and "all_infos P seen"
  shows "always (execute pick) (shared_agent_infos builtin tenant role ss seen)
     (\<lambda>r db'. db' = db \<and> (\<forall>infos. r = Inr infos \<longrightarrow> all_infos P infos)) db"
  using assms
proof (induction ss arbitrary: seen)
  case (Cons y rest)
  obtain s a where y: "y = (s, a)" by fastforce
  have skip: "always (execute pick) (shared_agent_infos builtin tenant role rest seen)
      (\<lambda>r db'. db' = db \<and> (\<forall>infos. r = Inr infos \<longrightarrow> all_infos P infos)) db"
    by (rule Cons.IH) (use Cons.prems in auto)
  have take: "always (execute pick) (shared_agent_infos builtin tenant role rest (AList.update k (receiver_view a, e) seen))
      (\<lambda>r db'. db' = db \<and> (\<forall>infos. r = Inr infos \<longrightarrow> all_infos P infos)) db"
    if "sa_source s \<noteq> tenant" "\<not> is_builtin_agent builtin a" for k e
    by (rule Cons.IH) (use Cons.prems that in \<open>auto simp: y intro: all_infos_update\<close>)
  show ?case
    using skip take by (auto simp: y always_get_member Let_def split: option.split)
qed simp

lemma agents_for_tenant_reach:
  assumes "(s, a) \<in> set (agents_for_tenant db tenant)" and "sa_source s \<noteq> tenant" and "\<not> is_builtin_agent builtin a"
    and "scope_allows (agent_kb_scope (Some a)) kid owner"
  shows "agent_reaches builtin db tenant kid owner"
  using assms by (fastforce simp: agents_for_tenant_def agent_reaches_def list_ex_iff map_filter_def)

lemma kb_via_shared_agent_sound:
  "always (execute pick) (kb_via_shared_agent builtin tenant role k)
     (\<lambda>r db'. db' = db \<and> (r = Inr True \<longrightarrow> agent_reaches builtin db tenant (kb_id k) (kb_tenant k))) db"
proof -
  let ?P = "\<lambda>a. scope_allows (agent_kb_scope (Some a)) (kb_id k) (kb_tenant k) \<longrightarrow>
              agent_reaches builtin db tenant (kb_id k) (kb_tenant k)"
  have "always (execute pick) (shared_agent_infos builtin tenant role (agents_for_tenant db tenant) [])
      (\<lambda>r db'. db' = db \<and> (\<forall>infos. r = Inr infos \<longrightarrow> all_infos ?P infos)) db"
    by (rule shared_agent_infos_sound) (auto simp: all_infos_def intro: agents_for_tenant_reach)
  then show ?thesis
    by (simp add: kb_via_shared_agent_def list_shared_agents_def list_agents_for_def always_call)
       (auto elim!: always_mono simp: list_ex_iff all_infos_def split: sum.splits; force)
qed

text \<open>\<open>pick\<close> chooses among what it is given.\<close>

definition picks :: "picker \<Rightarrow> bool" where
  "picks pick \<longleftrightarrow> (\<forall>xs. xs \<noteq> [] \<longrightarrow> pick xs \<in> set xs)"

lemma picked:
  assumes "picks pick" and "(if filter Q xs = [] then None else Some (pick (filter Q xs))) = Some s"
  shows "s \<in> set xs \<and> Q s"
proof -
  have "s \<in> set (filter Q xs)" using assms by (auto simp: picks_def simp del: set_filter split: if_splits)
  then show ?thesis by simp
qed

lemma agent_reachesI:
  assumes "s \<in> set (db_agent_shares db)" and "agent_share_effective db s" and "sa_source s \<noteq> tenant"
    and "member_row db (sa_org s) tenant \<noteq> None" and "live_org db (sa_org s) \<noteq> None"
    and "live_agent db (sa_agent s) (sa_source s) = Some a" and "\<not> is_builtin_agent builtin a"
    and "scope_allows (agent_kb_scope (Some a)) kid owner"
  shows "agent_reaches builtin db tenant kid owner"
  using assms unfolding agent_reaches_def list_ex_iff by (intro bexI [of _ s]) simp_all

lemma get_shared_agent_sound:
  assumes "picks pick"
  shows "always (execute pick) (get_shared_agent builtin tenant aid source)
     (\<lambda>r db'. db' = db \<and> (\<forall>a. r = Inr a \<and> scope_allows (agent_kb_scope (Some a)) kid owner \<longrightarrow>
                agent_reaches builtin db tenant kid owner)) db"
proof -
  have s: "agent_share_by_source pick db tenant aid source = Some s \<Longrightarrow>
      s \<in> set (db_agent_shares db) \<and> sa_agent s = aid \<and> sa_source s = source \<and> agent_share_effective db s
    \<and> member_row db (sa_org s) tenant \<noteq> None \<and> live_org db (sa_org s) \<noteq> None" for s
    unfolding agent_share_by_source_def Let_def using picked [OF assms] by fast
  have i: "agent_share_by_id pick db tenant aid tenant = Some s \<Longrightarrow>
      s \<in> set (db_agent_shares db) \<and> sa_agent s = aid \<and> sa_source s \<noteq> tenant \<and> agent_share_effective db s
    \<and> member_row db (sa_org s) tenant \<noteq> None \<and> live_org db (sa_org s) \<noteq> None" for s
    unfolding agent_share_by_id_def Let_def using picked [OF assms] by fast
  note defs = get_shared_agent_def share_of_source_for_def share_of_agent_for_def get_agent_def read_agent_share_def
  show ?thesis
  proof (cases "source = 0")
    case True
    show ?thesis
    proof (cases "agent_share_by_id pick db tenant aid tenant")
      case None
      with True show ?thesis by (simp add: defs always_call)
    next
      case (Some s)
      with i [OF Some] True show ?thesis
        by (auto simp: defs always_call split: option.splits intro: agent_reachesI [of s])
    qed
  next
    case False
    show ?thesis
    proof (cases "agent_share_by_source pick db tenant aid source")
      case None
      with False show ?thesis by (simp add: defs always_call)
    next
      case (Some s')
      with s [OF Some] False show ?thesis
        by (auto simp: defs always_call split: option.splits intro: agent_reachesI [of s'])
    qed
  qed
qed

section \<open>What is granted is earned\<close>

definition earned ::
    "share_db \<Rightarrow> caller \<Rightarrow> kb_row \<Rightarrow> org_role \<Rightarrow> (string \<Rightarrow> bool) option \<Rightarrow> org_role \<Rightarrow> bool" where
  "earned db c k required agents p \<longleftrightarrow>
     (kb_tenant k = cl_tenant c \<and> p = OrgAdmin)
   \<or> (p \<in> given_permissions db (cl_tenant c) (cl_role c) (kb_id k) \<and> org_has p required)
   \<or> (required = OrgViewer \<and> p = OrgViewer
      \<and> (case agents of None \<Rightarrow> False | Some builtin \<Rightarrow> agent_reaches builtin db (cl_tenant c) (kb_id k) (kb_tenant k)))"

definition rightful ::
    "share_db \<Rightarrow> access_context \<Rightarrow> caller \<Rightarrow> kb_row option \<Rightarrow> org_role \<Rightarrow> (string \<Rightarrow> bool) option \<Rightarrow> kb_access \<Rightarrow> bool" where
  "rightful db ctx c kb required agents a \<longleftrightarrow>
     kb = Some (ka_kb a) \<and> cl_tenant c \<noteq> 0 \<and> key_allows (ac_key ctx) [kb_id (ka_kb a)]
   \<and> (ac_caller ctx = None \<or> ac_caller ctx = Some c)
   \<and> ka_caller a = c \<and> ka_tenant a = kb_tenant (ka_kb a) \<and> ka_operation a = required
   \<and> earned db c (ka_kb a) required agents (ka_permission a)"

lemma resolve_by_agent_sound:
  assumes "picks pick"
  shows "always (execute pick) (resolve_by_agent agents rq k required)
     (\<lambda>r db'. db' = db \<and> (\<forall>a. r = Inr a \<longrightarrow>
        a = grant_for rq k required OrgViewer \<and> earned db (kr_caller rq) k required agents OrgViewer)) db"
proof (cases agents)
  case (Some builtin)
  have via: "always (execute pick) (get_shared_agent builtin (cl_tenant (kr_caller rq)) (kr_agent rq) source)
      (\<lambda>r db'. db' = db \<and> (\<forall>a. r = Inr a \<longrightarrow> scope_allows (agent_kb_scope (Some a)) (kb_id k) (kb_tenant k) \<longrightarrow>
         agent_reaches builtin db (cl_tenant (kr_caller rq)) (kb_id k) (kb_tenant k))) db" for source
    by (rule always_mono [OF get_shared_agent_sound [OF assms]]) auto
  have kb: "always (execute pick) (kb_via_shared_agent builtin (cl_tenant (kr_caller rq)) (cl_role (kr_caller rq)) k)
      (\<lambda>r db'. db' = db \<and> (r = Inr True \<longrightarrow>
         agent_reaches builtin db (cl_tenant (kr_caller rq)) (kb_id k) (kb_tenant k))) db"
    by (rule kb_via_shared_agent_sound)
  show ?thesis
  proof (cases "required = OrgViewer \<and> (kr_agent rq \<noteq> [] \<longrightarrow> parse_source_tenant (kr_source rq) \<noteq> None)")
    case True
    then show ?thesis
      by (cases "kr_agent rq = []")
         (auto simp: resolve_by_agent_def Some earned_def
           intro!: always_mono [OF kb] always_mono [OF via] split: if_splits sum.splits)
  qed (auto simp: resolve_by_agent_def Some)
qed (simp add: resolve_by_agent_def)

lemma resolve_kb_sound:
  assumes "picks pick"
  shows "always (execute pick) (resolve_kb ctx rq kb required sharing agents)
     (\<lambda>r db'. db' = db \<and> (\<forall>a. r = Inr a \<longrightarrow>
        rightful db ctx (normalize_caller (kr_caller rq)) kb required agents a)) db"
proof (cases kb)
  case (Some k)
  let ?c = "normalize_caller (kr_caller rq)"
  let ?rq = "rq\<lparr>kr_caller := ?c\<rparr>"
  let ?G = "given_permissions db (cl_tenant ?c) (cl_role ?c) (kb_id k)"
  let ?Q = "\<lambda>r db'. db' = db \<and> (\<forall>a. r = Inr a \<longrightarrow> rightful db ctx ?c kb required agents a)"
  show ?thesis
  proof (cases "cl_tenant (kr_caller rq) = 0 \<or> kb_id k = [] \<or> \<not> key_allows (ac_key ctx) [kb_id k]
      \<or> (ac_caller ctx \<noteq> None \<and> ac_caller ctx \<noteq> Some ?c) \<or> kb_tenant k = cl_tenant (kr_caller rq)")
    case True
    then show ?thesis by (auto simp: resolve_kb_def Some Let_def rightful_def earned_def grant_for_def)
  next
    case False
    have right: "rightful db ctx ?c kb required agents (grant_for ?rq k required p)"
      if "earned db ?c k required agents p" for p
      using that False by (auto simp: rightful_def grant_for_def Some)
    have agent: "always (execute pick) (resolve_by_agent agents ?rq k required) ?Q db"
      by (rule always_mono [OF resolve_by_agent_sound [OF assms]]) (auto intro: right)
    have share: "rightful db ctx ?c kb required agents (grant_for ?rq k required p)"
      if "p \<in> given_permissions db (cl_tenant (kr_caller rq)) (cl_role ?c) (kb_id k)" "org_has p required" for p
      using right [of p] that by (simp add: earned_def)
    have lookup: "always (execute pick) (share_permission sharing (cl_tenant ?c) (cl_role ?c) [] (kb_id k))
        (\<lambda>(r, cache) db'. db' = db \<and> (case r of Inl e \<Rightarrow> True | Inr x \<Rightarrow> permission_in ?G x)) db"
      using check_sound [of pick "kb_id k" "cl_tenant ?c" "cl_role ?c" db]
      by (simp add: share_permission_def permission_in_def)
    let ?f = "\<lambda>(result, cache). case result of
             Inr (permission, shared) \<Rightarrow>
               if shared \<and> org_has permission required then Done (Inr (grant_for ?rq k required permission))
               else resolve_by_agent agents ?rq k required
           | Inl e \<Rightarrow> resolve_by_agent agents ?rq k required"
    have go: "resolve_kb ctx rq kb required sharing agents
        = after (share_permission sharing (cl_tenant ?c) (cl_role ?c) [] (kb_id k)) ?f"
      using False by (auto simp: resolve_kb_def Some Let_def)
    have "always (execute pick) (?f x) ?Q db"
      if "case x of (r, cache) \<Rightarrow> case r of Inl e \<Rightarrow> True | Inr x \<Rightarrow> permission_in ?G x" for x
      using that by (cases x) (auto simp: permission_in_def intro: agent share split: sum.splits)
    then show ?thesis
      unfolding go always_after by (intro always_mono [OF lookup]) (auto split: prod.splits)
  qed
qed (simp add: resolve_kb_def)

text \<open>
  C11. Whatever access to a knowledge base is granted, with statements failing anywhere, is the caller's: the
  API key covers the knowledge base, no other caller's context is used, and either the knowledge base belongs to
  the caller's workspace, or a counting share gives the required permission, or only reading was asked for and
  an agent shared with the workspace exposes it.
\<close>

theorem granted_access_is_earned:
  assumes "picks pick" and "run (execute pick) (resolve_kb ctx rq kb required sharing agents) fs db = (Inr a, db')"
  shows "db' = db \<and> rightful db ctx (normalize_caller (kr_caller rq)) kb required agents a"
  using always_run [OF resolve_kb_sound [OF assms(1)] assms(2)] by simp

definition demo_context :: access_context where
  "demo_context =
     \<lparr>ac_caller = None, ac_tenant = Some 3, ac_user = Some ''cal'', ac_role = Some TenantAdmin, ac_key = None,
      ac_all_tenants = False, ac_system_admin = False, ac_grants = [], ac_agent = None, ac_transfer = None\<rparr>"

definition demo_request :: kb_request where
  "demo_request = \<lparr>kr_caller = caller_of demo_context, kr_agent = [], kr_source = []\<rparr>"

definition demo_kb :: kb_row where
  "demo_kb = \<lparr>kb_id = ''k'', kb_tenant = 2, kb_creator = ''ann'', kb_deleted = False\<rparr>"

definition demo_access :: kb_access where
  "demo_access =
     \<lparr>ka_kb = demo_kb, ka_caller = caller_of demo_context, ka_tenant = 2, ka_permission = OrgEditor,
      ka_operation = OrgEditor\<rparr>"

lemma demo_resolved:
  "run (execute hd) (resolve_kb demo_context demo_request (Some demo_kb) OrgEditor True None) [] share_demo
     = (Inr demo_access, share_demo)"
  by code_simp

lemma picks_hd: "picks hd"
  by (simp add: picks_def)

text \<open>The share of workspace 2 lets 3 edit; nobody else's membership does.\<close>

lemma granted_access_is_earned_witness:
  "rightful share_demo demo_context (caller_of demo_context) (Some demo_kb) OrgEditor None demo_access
   \<and> fst (run (execute hd) (resolve_kb demo_context demo_request (Some demo_kb) OrgAdmin True None) [] share_demo) = Inl Forbidden"
proof
  have "normalize_caller (kr_caller demo_request) = caller_of demo_context" by code_simp
  with granted_access_is_earned [OF picks_hd demo_resolved]
  show "rightful share_demo demo_context (caller_of demo_context) (Some demo_kb) OrgEditor None demo_access" by simp
  show "fst (run (execute hd) (resolve_kb demo_context demo_request (Some demo_kb) OrgAdmin True None) [] share_demo) = Inl Forbidden"
    by code_simp
qed

section \<open>Contexts of requests\<close>

text \<open>
  How the context of a request comes about: it starts without grants; accesses resolved on states of the
  database the request has seen, agents, execution tenants and transfers are added in any order. Background tasks, whose
  payload was checked when they were enqueued, start elsewhere.
\<close>

inductive derived :: "picker \<Rightarrow> (share_db \<Rightarrow> bool) \<Rightarrow> access_context \<Rightarrow> bool" for pick seen where
  start: "ac_grants ctx = [] \<Longrightarrow> ac_transfer ctx = None \<Longrightarrow> derived pick seen ctx"
| scoped: "derived pick seen ctx \<Longrightarrow> seen db
     \<Longrightarrow> run (execute pick) (resolve_kb ctx rq kb required sharing agents) fs db = (Inr a, db')
     \<Longrightarrow> derived pick seen (access_scope (Some a) ctx)"
| granted: "derived pick seen ctx \<Longrightarrow> seen db
     \<Longrightarrow> run (execute pick) (resolve_kb ctx rq kb required sharing agents) fs db = (Inr a, db')
     \<Longrightarrow> derived pick seen (with_grant (Some a) ctx)"
| agent: "derived pick seen ctx \<Longrightarrow> derived pick seen (with_shared_agent agent ctx)"
| execution: "derived pick seen ctx \<Longrightarrow> derived pick seen (with_execution_tenant tenant ctx)"
| transfer: "derived pick seen ctx \<Longrightarrow> with_kb_transfer ctx source target op task create = Inr ctx'
     \<Longrightarrow> derived pick seen ctx'"

text \<open>A workspace may edit a knowledge base: it owns it, or in a state seen a counting share lets it.\<close>

definition may_edit :: "(share_db \<Rightarrow> bool) \<Rightarrow> caller \<Rightarrow> string \<Rightarrow> nat \<Rightarrow> bool" where
  "may_edit seen c kid owner \<longleftrightarrow>
     owner = cl_tenant c
   \<or> (\<exists>db p. seen db \<and> p \<in> given_permissions db (cl_tenant c) (cl_role c) kid \<and> org_has p OrgEditor)"

definition grant_earned :: "(share_db \<Rightarrow> bool) \<Rightarrow> kb_grant \<Rightarrow> bool" where
  "grant_earned seen g \<longleftrightarrow>
     \<not> gr_task g \<and> (org_has (gr_permission g) OrgEditor \<longrightarrow> may_edit seen (gr_caller g) (gr_kb g) (gr_tenant g))"

lemma granted_permission_le: "org_has (ka_permission a) (granted_permission a)"
  by (simp add: granted_permission_def)

lemma grant_of_access_earned:
  assumes "rightful db ctx c kb required agents a" and "seen db"
  shows "grant_earned seen \<lparr>gr_caller = c, gr_kb = kb_id (ka_kb a), gr_tenant = ka_tenant a,
            gr_permission = granted_permission a, gr_task = False\<rparr>"
  using assms granted_permission_le [of a]
  by (auto simp: grant_earned_def may_edit_def rightful_def earned_def intro: org_has_trans)
     (auto simp: granted_permission_def org_has_def)

lemma with_grant_grants:
  assumes "rightful db ctx (normalize_caller d) kb required agents a" and "seen db"
    and "\<forall>g \<in> set (ac_grants ctx). grant_earned seen g"
  shows "\<forall>g \<in> set (ac_grants (with_grant (Some a) ctx)). grant_earned seen g"
proof -
  have "normalize_caller (ka_caller a) = normalize_caller d" using assms(1) by (simp add: rightful_def)
  with grant_of_access_earned [OF assms(1), where seen = seen] assms(2,3) show ?thesis
    by (auto simp: with_grant_def with_caller_def Let_def)
qed

lemma transfer_grants:
  assumes "with_kb_transfer ctx source target op task create = Inr ctx'"
  shows "\<forall>g \<in> set (ac_grants ctx'). grant_earned seen g"
  using assms
  by (auto simp: with_kb_transfer_def validate_transfer_pair_def with_transfer_grant_def grant_earned_def
        may_edit_def Let_def split: if_splits sum.splits option.splits)

lemma derived_grants:
  assumes "derived pick seen ctx" and "picks pick"
  shows "\<forall>g \<in> set (ac_grants ctx). grant_earned seen g"
  using assms(1)
proof induction
  case (scoped ctx db rq kb required sharing agents fs a db')
  have r: "rightful db ctx (normalize_caller (kr_caller rq)) kb required agents a"
    using always_run [OF resolve_kb_sound [OF assms(2)] scoped.hyps(3)] by simp
  from with_grant_grants [OF r, where seen = seen] scoped.hyps(2) scoped.IH show ?case
    by (auto simp: access_scope_def with_execution_tenant_def with_caller_def Let_def)
next
  case (granted ctx db rq kb required sharing agents fs a db')
  have r: "rightful db ctx (normalize_caller (kr_caller rq)) kb required agents a"
    using always_run [OF resolve_kb_sound [OF assms(2)] granted.hyps(3)] by simp
  from with_grant_grants [OF r, where seen = seen] granted.hyps(2) granted.IH show ?case by blast
next
  case (agent ctx agent)
  then show ?case by (auto simp: with_shared_agent_def with_execution_tenant_def with_caller_def Let_def split: option.split)
next
  case (execution ctx tenant)
  then show ?case by (simp add: with_execution_tenant_def with_caller_def)
next
  case (transfer ctx source target op task create ctx')
  from transfer_grants [OF transfer.hyps(2)] show ?case .
qed simp

text \<open>
  C10. However the context of a request was put together, writing to a knowledge base passes only for a
  caller who may edit it: it belongs to the caller's own workspace, or a share that counted in a state the
  request looked at lets that workspace edit it. An API key must cover it and allow ingestion. Shared agents
  and the tenant that queries run in never give a write.
\<close>

theorem write_needs_edit:
  assumes "picks pick" and "derived pick seen ctx" and "require_kb_write ctx (Some k) = Inr ()"
  shows "may_edit seen (caller_of ctx) (kb_id k) (kb_tenant k)
    \<and> key_allows (ac_key ctx) [kb_id k] \<and> key_may (ac_key ctx) capability_ingest"
proof -
  from assms(3) have h: "has_kb_grant ctx (kb_id k) (kb_tenant k) OrgEditor" "key_may (ac_key ctx) capability_ingest"
    by (auto simp: require_kb_write_def split: if_splits)
  then obtain g where "g \<in> set (ac_grants ctx)" "grant_covers (caller_of ctx) (kb_id k) (kb_tenant k) OrgEditor g"
    and "key_allows (ac_key ctx) [kb_id k]"
    by (auto simp: has_kb_grant_def Let_def list_ex_iff split: if_splits option.splits)
  with h(2) derived_grants [OF assms(2,1)] show ?thesis
    by (auto simp: grant_covers_def grant_earned_def)
qed

lemma write_needs_edit_witness:
  "may_edit (\<lambda>db. db = share_demo) (caller_of (access_scope (Some demo_access) demo_context)) ''k'' 2
   \<and> require_kb_write demo_context (Some demo_kb) = Inl Forbidden"
proof
  have "derived hd (\<lambda>db. db = share_demo) demo_context" by (rule start) (simp_all add: demo_context_def)
  from scoped [OF this refl demo_resolved]
  have d: "derived hd (\<lambda>db. db = share_demo) (access_scope (Some demo_access) demo_context)" .
  have "require_kb_write (access_scope (Some demo_access) demo_context) (Some demo_kb) = Inr ()" by code_simp
  from write_needs_edit [OF picks_hd d this]
  show "may_edit (\<lambda>db. db = share_demo) (caller_of (access_scope (Some demo_access) demo_context)) ''k'' 2"
    by (simp add: demo_kb_def)
  show "require_kb_write demo_context (Some demo_kb) = Inl Forbidden" by code_simp
qed

text \<open>Access that is earned is granted when nothing fails.\<close>

theorem earned_access_is_granted:
  assumes "kb_id k \<noteq> []" and "cl_tenant (kr_caller rq) \<noteq> 0" and "key_allows (ac_key ctx) [kb_id k]"
    and "ac_caller ctx = None \<or> ac_caller ctx = Some (normalize_caller (kr_caller rq))"
    and "kb_tenant k = cl_tenant (kr_caller rq)
       \<or> (\<exists>p \<in> given_permissions db (cl_tenant (kr_caller rq)) (cl_role (normalize_caller (kr_caller rq))) (kb_id k).
            org_has p required)"
  shows "\<exists>a. run (execute pick) (resolve_kb ctx rq (Some k) required True agents) [] db = (Inr a, db)"
proof (cases "kb_tenant k = cl_tenant (kr_caller rq)")
  case True
  with assms(1-4) show ?thesis by (auto simp: resolve_kb_def Let_def)
next
  case False
  let ?c = "normalize_caller (kr_caller rq)"
  let ?G = "given_permissions db (cl_tenant (kr_caller rq)) (cl_role ?c) (kb_id k)"
  from assms(5) False obtain q where q: "q \<in> ?G" "org_has q required" by auto
  from check_fine [of pick "kb_id k" "cl_tenant (kr_caller rq)" "cl_role ?c" db]
  obtain p where "run (execute pick) (check_tenant_kb_permission (kb_id k) (cl_tenant (kr_caller rq)) (cl_role ?c)) [] db
      = (Inr (p, ?G \<noteq> {}), db)" "\<forall>q \<in> ?G. org_has p q"
    by blast
  moreover from q have "?G \<noteq> {}" by auto
  ultimately have "run (execute pick) (check_tenant_kb_permission (kb_id k) (cl_tenant (kr_caller rq)) (cl_role ?c)) [] db
      = (Inr (p, True), db)" "org_has p required"
    using q by (auto intro: org_has_trans)
  with False assms(1-4) show ?thesis
    by (auto simp: resolve_kb_def share_permission_def Let_def)
qed

section \<open>Transfers\<close>

lemma with_transfer_grant_fields [simp]:
  "caller_of (with_transfer_grant ctx s t op task create by_task) = caller_of ctx"
  "ac_key (with_transfer_grant ctx s t op task create by_task) = ac_key ctx"
  "ac_transfer (with_transfer_grant ctx s t op task create by_task) = Some
     \<lparr>tg_caller = caller_of ctx, tg_tenant = kb_tenant s, tg_source = kb_id s, tg_target = kb_id t,
      tg_task = task, tg_creator = kb_creator t, tg_op = op, tg_create = create\<rparr>"
  "ac_agent (with_transfer_grant ctx s t op task create by_task) = ac_agent ctx"
  by (simp_all add: with_transfer_grant_def caller_of_def role_from_context_def Let_def split: option.split)

lemma transfer_api_scope_grant [simp]:
  "transfer_api_scope (with_transfer_grant ctx s t op task create by_task) a b op' c = transfer_api_scope ctx a b op' c"
  by (simp add: transfer_api_scope_def)

text \<open>
  A transfer grant is only made for two distinct knowledge bases of the caller's own workspace, and a
  context that passes the check of a transfer may read the source (edit it for a move) and edit the target.
\<close>

lemma transfer_rights:
  assumes "with_kb_transfer ctx (Some s) (Some t) op task create = Inr ctx'"
  shows "kb_tenant s = cl_tenant (caller_of ctx) \<and> kb_tenant t = cl_tenant (caller_of ctx) \<and> kb_id s \<noteq> kb_id t
    \<and> require_kb_transfer ctx' (Some s) (Some t) op = Inr () \<and> transfer_task_id ctx' = task
    \<and> has_kb_grant ctx' (kb_id s) (kb_tenant s) (transfer_source_role op)"
proof -
  from assms have e: "validate_transfer_pair (Some s) (Some t) (cl_tenant (caller_of ctx)) op create = Inr ()"
      "transfer_api_scope ctx (kb_id s) (kb_id t) op create = Inr ()"
      "ctx' = with_transfer_grant ctx s t op task create False"
      "has_kb_grant ctx (kb_id s) (kb_tenant s) (transfer_source_role op)"
    by (auto simp: with_kb_transfer_def Let_def split: sum.splits if_splits)
  have t: "kb_tenant s = cl_tenant (caller_of ctx)" "kb_tenant t = cl_tenant (caller_of ctx)" "kb_id s \<noteq> kb_id t"
      "cl_tenant (caller_of ctx) \<noteq> 0" "kb_id s \<noteq> []"
    using e(1) by (auto simp: validate_transfer_pair_def split: if_splits)
  have "require_kb_transfer ctx' (Some s) (Some t) op = Inr ()" "transfer_task_id ctx' = task"
    using e(1,2) t by (simp_all add: e(3) require_kb_transfer_def transfer_task_id_def Let_def)
  moreover have "list_ex (grant_covers (caller_of ctx) (kb_id s) (kb_tenant s) (transfer_source_role op)) (ac_grants ctx')"
    using t by (simp add: e(3) with_transfer_grant_def grant_covers_def Let_def)
  then have "has_kb_grant ctx' (kb_id s) (kb_tenant s) (transfer_source_role op)"
    using e(4) t by (auto simp: has_kb_grant_def e(3) Let_def split: if_splits)
  ultimately show ?thesis using t by simp
qed

end
