(* ===== verification/PromptStore.thy ===== *)
theory PromptStore
  imports Prelude
begin

text \<open>
  The rows behind every question an agent run puts to the user:
  \<open>internal/types/agent_prompt.go\<close> (the prompt, its lifecycle states, the compare-and-set
  transition and the saved run), \<open>internal/agent/hitl/store.go\<close> (the in-memory stores) and
  \<open>internal/application/repository/agent_prompt_repository.go\<close> (the database).

  Instants are integers and \<open>nil\<close> pointers are \<open>None\<close>. A JSON column holds no bytes, a
  document or bytes that are not JSON. The database is a list of rows per table; a script of
  faults, chosen by the environment, says for each statement whether it runs, is refused, or
  runs while its reply is lost. The locale \<open>prompt_store\<close> is what the broker relies on; both
  stores are interpretations of it.
\<close>

section \<open>JSON columns\<close>

datatype json =
    JNull
  | JBool bool
  | JNum string
  | JStr string
  | JArr "json list"
  | JObj "(string \<times> json) list"

datatype raw = NoBytes | Doc json | Malformed

section \<open>The prompt\<close>

type_synonym instant = int

datatype prompt_status =
    Pending | Suspended | Answered | Executing | Done | Failed | Canceled | Expired | Superseded
  | OtherStatus string

record agent_prompt =
  ap_id :: string
  ap_tenant :: nat
  ap_user :: string
  ap_session :: string
  ap_message :: string
  ap_request_id :: string
  ap_kind :: string
  ap_tool_call :: string
  ap_suspendable :: bool
  ap_request :: raw
  ap_response :: raw
  ap_status :: prompt_status
  ap_close_reason :: string
  ap_resolved_by :: string
  ap_resolved_at :: "instant option"
  ap_owner :: string
  ap_lease :: "instant option"
  ap_expires :: "instant option"
  ap_created :: instant
  ap_updated :: instant

definition is_open :: "agent_prompt \<Rightarrow> bool" where
  "is_open p \<longleftrightarrow> ap_status p = Pending \<or> ap_status p = Suspended"

record transition =
  tr_from :: "prompt_status list"
  tr_to :: prompt_status
  tr_response :: raw
  tr_close_reason :: "string option"
  tr_resolved_by :: "string option"
  tr_resolved_at :: "instant option"
  tr_expires :: "instant option"
  tr_owner :: "string option"
  tr_lease :: "instant option"
  tr_unexpired :: "instant option"
  tr_expected_owner :: "string option"
  tr_lease_before :: "instant option"

text \<open>A struct literal that names only \<open>From\<close> and \<open>To\<close>.\<close>

definition plain_transition :: "prompt_status list \<Rightarrow> prompt_status \<Rightarrow> transition" where
  "plain_transition froms to =
     \<lparr>tr_from = froms, tr_to = to, tr_response = NoBytes, tr_close_reason = None,
      tr_resolved_by = None, tr_resolved_at = None, tr_expires = None, tr_owner = None,
      tr_lease = None, tr_unexpired = None, tr_expected_owner = None, tr_lease_before = None\<rparr>"

record run_suspension =
  rs_message :: string
  rs_tenant :: nat
  rs_session :: string
  rs_prompt :: string
  rs_version :: int
  rs_snapshot :: raw
  rs_created :: instant
  rs_updated :: instant

section \<open>The in-memory stores\<close>

type_synonym 'a reply = "unit + 'a"

record memory_store =
  ms_rows :: "(string \<times> agent_prompt) list"
  ms_runs :: "(string \<times> run_suspension) list"

definition bad_transition :: "transition \<Rightarrow> bool" where
  "bad_transition t \<longleftrightarrow> tr_from t = [] \<or> tr_to t = OtherStatus []"

definition transition_enabled :: "agent_prompt \<Rightarrow> transition \<Rightarrow> bool" where
  "transition_enabled row t \<longleftrightarrow>
     ap_status row \<in> set (tr_from t)
   \<and> (case (tr_unexpired t, ap_expires row) of (Some u, Some e) \<Rightarrow> u < e | _ \<Rightarrow> True)
   \<and> (case tr_expected_owner t of Some w \<Rightarrow> ap_owner row = w | None \<Rightarrow> True)
   \<and> (case tr_lease_before t of
        Some b \<Rightarrow> (case ap_lease row of Some l \<Rightarrow> l < b | None \<Rightarrow> False)
      | None \<Rightarrow> True)"

definition assign :: "'a option \<Rightarrow> 'a \<Rightarrow> 'a" where
  "assign new old = (case new of Some v \<Rightarrow> v | None \<Rightarrow> old)"

definition assign_time :: "instant option \<Rightarrow> instant option \<Rightarrow> instant option" where
  "assign_time new old = (case new of Some v \<Rightarrow> Some v | None \<Rightarrow> old)"

definition transition_row :: "instant \<Rightarrow> transition \<Rightarrow> agent_prompt \<Rightarrow> agent_prompt" where
  "transition_row now t row =
     row\<lparr>ap_owner := assign (tr_owner t) (ap_owner row),
         ap_lease := assign_time (tr_lease t) (ap_lease row),
         ap_status := tr_to t,
         ap_updated := now,
         ap_response := (if tr_response t \<noteq> NoBytes then tr_response t else ap_response row),
         ap_close_reason := assign (tr_close_reason t) (ap_close_reason row),
         ap_resolved_by := assign (tr_resolved_by t) (ap_resolved_by row),
         ap_resolved_at := assign_time (tr_resolved_at t) (ap_resolved_at row),
         ap_expires := assign_time (tr_expires t) (ap_expires row)\<rparr>"

definition leased_statuses :: "prompt_status list" where
  "leased_statuses = [Pending, Answered, Executing]"

definition mem_create :: "memory_store \<Rightarrow> instant \<Rightarrow> agent_prompt \<Rightarrow> unit reply \<times> memory_store" where
  "mem_create s now row =
     (if ap_id row = [] then (Inl (), s)
      else (case map_of (ms_rows s) (ap_id row) of
              Some _ \<Rightarrow> (Inl (), s)
            | None \<Rightarrow> (Inr (), s\<lparr>ms_rows :=
                AList.update (ap_id row) (row\<lparr>ap_created := now, ap_updated := now\<rparr>) (ms_rows s)\<rparr>)))"

definition mem_get :: "memory_store \<Rightarrow> string \<Rightarrow> agent_prompt option reply \<times> memory_store" where
  "mem_get s pid = (Inr (map_of (ms_rows s) pid), s)"

definition mem_transition ::
    "memory_store \<Rightarrow> instant \<Rightarrow> string \<Rightarrow> transition \<Rightarrow> bool reply \<times> memory_store" where
  "mem_transition s now pid t =
     (if bad_transition t then (Inl (), s)
      else (case map_of (ms_rows s) pid of
              None \<Rightarrow> (Inr False, s)
            | Some row \<Rightarrow>
                if \<not> transition_enabled row t then (Inr False, s)
                else (Inr True, s\<lparr>ms_rows := AList.update pid (transition_row now t row) (ms_rows s)\<rparr>)))"

definition mem_renew ::
    "memory_store \<Rightarrow> instant \<Rightarrow> string \<Rightarrow> string \<Rightarrow> instant \<Rightarrow> bool reply \<times> memory_store" where
  "mem_renew s now pid owner until =
     (case map_of (ms_rows s) pid of
        None \<Rightarrow> (Inr False, s)
      | Some row \<Rightarrow>
          if ap_status row \<notin> set leased_statuses \<or> ap_owner row \<noteq> owner then (Inr False, s)
          else (Inr True, s\<lparr>ms_rows :=
                  AList.update pid (row\<lparr>ap_lease := Some until, ap_updated := now\<rparr>) (ms_rows s)\<rparr>))"

text \<open>
  \<open>list\<close>: the rows that match, ordered by a time column; limit 0 is unlimited. Rows with the
  same time come in the order of the association list, which the code leaves open.
\<close>

definition mem_list ::
    "memory_store \<Rightarrow> nat \<Rightarrow> (agent_prompt \<Rightarrow> bool) \<Rightarrow> (agent_prompt \<Rightarrow> instant) \<Rightarrow> agent_prompt list" where
  "mem_list s limit matches key =
     (let out = sort_key key (filter matches (map snd (ms_rows s)))
      in if 0 < limit \<and> limit < length out then take limit out else out)"

definition lease_lapsed :: "agent_prompt \<Rightarrow> instant \<Rightarrow> bool" where
  "lease_lapsed row before = (case ap_lease row of Some l \<Rightarrow> l < before | None \<Rightarrow> False)"

definition prompt_expired :: "agent_prompt \<Rightarrow> instant \<Rightarrow> bool" where
  "prompt_expired row before = (case ap_expires row of Some e \<Rightarrow> e < before | None \<Rightarrow> False)"

definition mem_stale ::
    "memory_store \<Rightarrow> prompt_status list \<Rightarrow> instant \<Rightarrow> nat \<Rightarrow> agent_prompt list reply \<times> memory_store" where
  "mem_stale s statuses before limit =
     (Inr (mem_list s limit (\<lambda>row. ap_status row \<in> set statuses \<and> lease_lapsed row before)
             (\<lambda>row. the (ap_lease row))), s)"

definition mem_expired ::
    "memory_store \<Rightarrow> instant \<Rightarrow> nat \<Rightarrow> agent_prompt list reply \<times> memory_store" where
  "mem_expired s before limit =
     (Inr (mem_list s limit (\<lambda>row. ap_status row = Suspended \<and> prompt_expired row before)
             (\<lambda>row. the (ap_expires row))), s)"

definition mem_session ::
    "memory_store \<Rightarrow> string \<Rightarrow> prompt_status list \<Rightarrow> agent_prompt list reply \<times> memory_store" where
  "mem_session s session statuses =
     (Inr (mem_list s 0 (\<lambda>row. ap_session row = session \<and> ap_status row \<in> set statuses) ap_created), s)"

definition mem_save_run ::
    "memory_store \<Rightarrow> instant \<Rightarrow> run_suspension \<Rightarrow> unit reply \<times> memory_store" where
  "mem_save_run s now row =
     (if rs_message row = [] then (Inl (), s)
      else (let created = (case map_of (ms_runs s) (rs_message row) of
                             Some prev \<Rightarrow> rs_created prev | None \<Rightarrow> now)
            in (Inr (), s\<lparr>ms_runs := AList.update (rs_message row)
                   (row\<lparr>rs_created := created, rs_updated := now\<rparr>) (ms_runs s)\<rparr>)))"

definition mem_get_run :: "memory_store \<Rightarrow> string \<Rightarrow> run_suspension option reply \<times> memory_store" where
  "mem_get_run s message = (Inr (map_of (ms_runs s) message), s)"

definition mem_delete_run ::
    "memory_store \<Rightarrow> string \<Rightarrow> string \<Rightarrow> unit reply \<times> memory_store" where
  "mem_delete_run s message prompt =
     (case map_of (ms_runs s) message of
        Some row \<Rightarrow> if rs_prompt row = prompt
                    then (Inr (), s\<lparr>ms_runs := AList.delete message (ms_runs s)\<rparr>) else (Inr (), s)
      | None \<Rightarrow> (Inr (), s))"

section \<open>The database\<close>

text \<open>
  A script says what becomes of each statement; an exhausted script is a healthy database.
\<close>

record prompt_table =
  pt_rows :: "agent_prompt list"
  pt_runs :: "run_suspension list"
  pt_faults :: "fault list"

definition statement :: "prompt_table \<Rightarrow> 'a \<Rightarrow> prompt_table \<Rightarrow> 'a reply \<times> prompt_table" where
  "statement s result after =
     (case pt_faults s of
        [] \<Rightarrow> (Inr result, after)
      | f # fs \<Rightarrow>
          (case f of
             Fine \<Rightarrow> (Inr result, after\<lparr>pt_faults := fs\<rparr>)
           | Refused \<Rightarrow> (Inl (), s\<lparr>pt_faults := fs\<rparr>)
           | ReplyLost \<Rightarrow> (Inl (), after\<lparr>pt_faults := fs\<rparr>)))"

definition find_row :: "prompt_table \<Rightarrow> string \<Rightarrow> agent_prompt option" where
  "find_row s pid = List.find (\<lambda>r. ap_id r = pid) (pt_rows s)"

definition find_run :: "prompt_table \<Rightarrow> string \<Rightarrow> run_suspension option" where
  "find_run s message = List.find (\<lambda>r. rs_message r = message) (pt_runs s)"

text \<open>\<open>Create\<close>: the primary key refuses a second row, and gorm fills in times that are zero.\<close>

definition stamp :: "instant \<Rightarrow> instant \<Rightarrow> instant" where
  "stamp now at = (if at = 0 then now else at)"

definition repo_create :: "prompt_table \<Rightarrow> instant \<Rightarrow> agent_prompt \<Rightarrow> unit reply \<times> prompt_table" where
  "repo_create s now row =
     (if find_row s (ap_id row) \<noteq> None then (Inl (), s)
      else statement s ()
             (s\<lparr>pt_rows := pt_rows s @ [row\<lparr>ap_created := stamp now (ap_created row),
                                             ap_updated := stamp now (ap_updated row)\<rparr>]\<rparr>))"

definition repo_get :: "prompt_table \<Rightarrow> string \<Rightarrow> agent_prompt option reply \<times> prompt_table" where
  "repo_get s pid = statement s (find_row s pid) s"

text \<open>
  The \<open>WHERE\<close> clause: a comparison with a \<open>NULL\<close> column does not hold. The \<open>SET\<close> clause
  lists the columns the transition names.
\<close>

definition repo_where :: "string \<Rightarrow> transition \<Rightarrow> agent_prompt \<Rightarrow> bool" where
  "repo_where pid t row \<longleftrightarrow>
     ap_id row = pid \<and> ap_status row \<in> set (tr_from t)
   \<and> (case tr_unexpired t of
        None \<Rightarrow> True
      | Some u \<Rightarrow> ap_expires row = None \<or> (case ap_expires row of Some e \<Rightarrow> u < e | None \<Rightarrow> False))
   \<and> (case tr_expected_owner t of None \<Rightarrow> True | Some w \<Rightarrow> ap_owner row = w)
   \<and> (case tr_lease_before t of
        None \<Rightarrow> True
      | Some b \<Rightarrow> (case ap_lease row of Some l \<Rightarrow> l < b | None \<Rightarrow> False))"

definition repo_set :: "instant \<Rightarrow> transition \<Rightarrow> agent_prompt \<Rightarrow> agent_prompt" where
  "repo_set now t row =
     (let row = row\<lparr>ap_status := tr_to t, ap_updated := now\<rparr>;
          row = (if tr_response t \<noteq> NoBytes then row\<lparr>ap_response := tr_response t\<rparr> else row);
          row = (case tr_close_reason t of Some c \<Rightarrow> row\<lparr>ap_close_reason := c\<rparr> | None \<Rightarrow> row);
          row = (case tr_resolved_by t of Some u \<Rightarrow> row\<lparr>ap_resolved_by := u\<rparr> | None \<Rightarrow> row);
          row = (case tr_resolved_at t of Some i \<Rightarrow> row\<lparr>ap_resolved_at := Some i\<rparr> | None \<Rightarrow> row);
          row = (case tr_expires t of Some i \<Rightarrow> row\<lparr>ap_expires := Some i\<rparr> | None \<Rightarrow> row);
          row = (case tr_owner t of Some w \<Rightarrow> row\<lparr>ap_owner := w\<rparr> | None \<Rightarrow> row)
      in (case tr_lease t of Some i \<Rightarrow> row\<lparr>ap_lease := Some i\<rparr> | None \<Rightarrow> row))"

definition update_where ::
    "(agent_prompt \<Rightarrow> bool) \<Rightarrow> (agent_prompt \<Rightarrow> agent_prompt) \<Rightarrow> prompt_table \<Rightarrow> bool reply \<times> prompt_table" where
  "update_where wh upd s =
     statement s (length (filter wh (pt_rows s)) = 1)
       (s\<lparr>pt_rows := map (\<lambda>r. if wh r then upd r else r) (pt_rows s)\<rparr>)"

definition repo_transition ::
    "prompt_table \<Rightarrow> instant \<Rightarrow> string \<Rightarrow> transition \<Rightarrow> bool reply \<times> prompt_table" where
  "repo_transition s now pid t =
     (if bad_transition t then (Inl (), s) else update_where (repo_where pid t) (repo_set now t) s)"

definition repo_renew ::
    "prompt_table \<Rightarrow> instant \<Rightarrow> string \<Rightarrow> string \<Rightarrow> instant \<Rightarrow> bool reply \<times> prompt_table" where
  "repo_renew s now pid owner until =
     update_where (\<lambda>r. ap_id r = pid \<and> ap_status r \<in> set leased_statuses \<and> ap_owner r = owner)
       (\<lambda>r. r\<lparr>ap_lease := Some until, ap_updated := now\<rparr>) s"

definition repo_stale ::
    "prompt_table \<Rightarrow> prompt_status list \<Rightarrow> instant \<Rightarrow> nat \<Rightarrow> agent_prompt list reply \<times> prompt_table" where
  "repo_stale s statuses before limit =
     statement s (take limit (sort_key (\<lambda>r. the (ap_lease r))
       (filter (\<lambda>r. ap_status r \<in> set statuses \<and> lease_lapsed r before) (pt_rows s)))) s"

definition repo_expired ::
    "prompt_table \<Rightarrow> instant \<Rightarrow> nat \<Rightarrow> agent_prompt list reply \<times> prompt_table" where
  "repo_expired s before limit =
     statement s (take limit (sort_key (\<lambda>r. the (ap_expires r))
       (filter (\<lambda>r. ap_status r = Suspended \<and> prompt_expired r before) (pt_rows s)))) s"

definition repo_session ::
    "prompt_table \<Rightarrow> string \<Rightarrow> prompt_status list \<Rightarrow> agent_prompt list reply \<times> prompt_table" where
  "repo_session s session statuses =
     statement s (sort_key ap_created
       (filter (\<lambda>r. ap_session r = session \<and> ap_status r \<in> set statuses) (pt_rows s))) s"

definition repo_by_messages ::
    "prompt_table \<Rightarrow> string \<Rightarrow> string list \<Rightarrow> prompt_status list \<Rightarrow> agent_prompt list reply \<times> prompt_table" where
  "repo_by_messages s session messages statuses =
     (if messages = [] then (Inr [], s)
      else statement s (sort_key ap_created
             (filter (\<lambda>r. ap_session r = session \<and> ap_message r \<in> set messages
                          \<and> ap_status r \<in> set statuses) (pt_rows s))) s)"

text \<open>\<open>Save\<close>: the conflict clause keeps the creation time of the row it replaces.\<close>

definition run_columns :: "run_suspension \<Rightarrow> run_suspension \<Rightarrow> run_suspension" where
  "run_columns new old =
     old\<lparr>rs_tenant := rs_tenant new, rs_session := rs_session new, rs_prompt := rs_prompt new,
         rs_version := rs_version new, rs_snapshot := rs_snapshot new, rs_updated := rs_updated new\<rparr>"

definition repo_save_run ::
    "prompt_table \<Rightarrow> instant \<Rightarrow> run_suspension \<Rightarrow> unit reply \<times> prompt_table" where
  "repo_save_run s now row =
     (if rs_message row = [] then (Inl (), s)
      else (let row = row\<lparr>rs_created := stamp now (rs_created row), rs_updated := now\<rparr>
            in statement s ()
                 (if find_run s (rs_message row) = None then s\<lparr>pt_runs := pt_runs s @ [row]\<rparr>
                  else s\<lparr>pt_runs := map (\<lambda>r. if rs_message r = rs_message row then run_columns row r else r)
                                       (pt_runs s)\<rparr>)))"

definition repo_get_run :: "prompt_table \<Rightarrow> string \<Rightarrow> run_suspension option reply \<times> prompt_table" where
  "repo_get_run s message = statement s (find_run s message) s"

definition repo_delete_run ::
    "prompt_table \<Rightarrow> string \<Rightarrow> string \<Rightarrow> unit reply \<times> prompt_table" where
  "repo_delete_run s message prompt =
     statement s ()
       (s\<lparr>pt_runs := filter (\<lambda>r. \<not> (rs_message r = message \<and> rs_prompt r = prompt)) (pt_runs s)\<rparr>)"

section \<open>The interface\<close>

text \<open>The methods of \<open>AgentPromptRepository\<close> and \<open>AgentRunSuspensionRepository\<close> the broker calls.\<close>

record 's prompt_ops =
  op_create :: "'s \<Rightarrow> instant \<Rightarrow> agent_prompt \<Rightarrow> unit reply \<times> 's"
  op_get :: "'s \<Rightarrow> string \<Rightarrow> agent_prompt option reply \<times> 's"
  op_move :: "'s \<Rightarrow> instant \<Rightarrow> string \<Rightarrow> transition \<Rightarrow> bool reply \<times> 's"
  op_renew :: "'s \<Rightarrow> instant \<Rightarrow> string \<Rightarrow> string \<Rightarrow> instant \<Rightarrow> bool reply \<times> 's"
  op_stale :: "'s \<Rightarrow> prompt_status list \<Rightarrow> instant \<Rightarrow> nat \<Rightarrow> agent_prompt list reply \<times> 's"
  op_expired :: "'s \<Rightarrow> instant \<Rightarrow> nat \<Rightarrow> agent_prompt list reply \<times> 's"
  op_session :: "'s \<Rightarrow> string \<Rightarrow> prompt_status list \<Rightarrow> agent_prompt list reply \<times> 's"
  op_save_run :: "'s \<Rightarrow> instant \<Rightarrow> run_suspension \<Rightarrow> unit reply \<times> 's"
  op_get_run :: "'s \<Rightarrow> string \<Rightarrow> run_suspension option reply \<times> 's"
  op_delete_run :: "'s \<Rightarrow> string \<Rightarrow> string \<Rightarrow> unit reply \<times> 's"

definition memory_ops :: "memory_store prompt_ops" where
  "memory_ops =
     \<lparr>op_create = mem_create, op_get = mem_get, op_move = mem_transition, op_renew = mem_renew,
      op_stale = mem_stale, op_expired = mem_expired, op_session = mem_session,
      op_save_run = mem_save_run, op_get_run = mem_get_run, op_delete_run = mem_delete_run\<rparr>"

definition repo_ops :: "prompt_table prompt_ops" where
  "repo_ops =
     \<lparr>op_create = repo_create, op_get = repo_get, op_move = repo_transition, op_renew = repo_renew,
      op_stale = repo_stale, op_expired = repo_expired, op_session = repo_session,
      op_save_run = repo_save_run, op_get_run = repo_get_run, op_delete_run = repo_delete_run\<rparr>"

text \<open>
  The contract of one atomic call over the rows by identifier. A compare-and-set applies to the
  row or leaves every row alone; a reply tells which, an error leaves it open.
\<close>

type_synonym prompt_rows = "string \<Rightarrow> agent_prompt option"

definition cas :: "instant \<Rightarrow> string \<Rightarrow> transition \<Rightarrow> prompt_rows \<Rightarrow> prompt_rows option" where
  "cas now pid t v =
     (case v pid of
        Some row \<Rightarrow> if \<not> bad_transition t \<and> transition_enabled row t
                    then Some (v(pid \<mapsto> transition_row now t row)) else None
      | None \<Rightarrow> None)"

definition write_reply :: "'v option \<Rightarrow> 'v \<Rightarrow> bool reply \<Rightarrow> 'v \<Rightarrow> bool" where
  "write_reply done v r v' \<longleftrightarrow>
     (case done of
        Some w \<Rightarrow> (v' = w \<and> r \<noteq> Inr False) \<or> (v' = v \<and> r = Inl ())
      | None \<Rightarrow> v' = v \<and> r \<noteq> Inr True)"

definition renewed :: "instant \<Rightarrow> string \<Rightarrow> string \<Rightarrow> instant \<Rightarrow> prompt_rows \<Rightarrow> prompt_rows option" where
  "renewed now pid owner until v =
     (case v pid of
        Some row \<Rightarrow> if ap_status row \<in> set leased_statuses \<and> ap_owner row = owner
                    then Some (v(pid \<mapsto> row\<lparr>ap_lease := Some until, ap_updated := now\<rparr>)) else None
      | None \<Rightarrow> None)"

definition inserted :: "agent_prompt \<Rightarrow> prompt_rows \<Rightarrow> prompt_rows \<Rightarrow> bool" where
  "inserted row v v' \<longleftrightarrow>
     v (ap_id row) = None
   \<and> (\<exists>a b. v' = v(ap_id row \<mapsto> row\<lparr>ap_created := a, ap_updated := b\<rparr>))"

type_synonym saved_runs = "string \<Rightarrow> run_suspension option"

definition run_saved :: "run_suspension \<Rightarrow> saved_runs \<Rightarrow> saved_runs \<Rightarrow> bool" where
  "run_saved run u u' \<longleftrightarrow>
     (\<exists>a b. u' = u(rs_message run \<mapsto> run\<lparr>rs_created := a, rs_updated := b\<rparr>))"

definition run_deleted :: "string \<Rightarrow> string \<Rightarrow> saved_runs \<Rightarrow> saved_runs \<Rightarrow> bool" where
  "run_deleted m p u u' \<longleftrightarrow>
     u' = (case u m of Some run \<Rightarrow> if rs_prompt run = p then u(m := None) else u | None \<Rightarrow> u)"

definition listed :: "(agent_prompt \<Rightarrow> bool) \<Rightarrow> nat \<Rightarrow> prompt_rows \<Rightarrow> agent_prompt list \<Rightarrow> bool" where
  "listed matches limit v xs \<longleftrightarrow>
     distinct (map ap_id xs)
   \<and> (\<forall>row \<in> set xs. v (ap_id row) = Some row \<and> matches row)
   \<and> (0 < limit \<longrightarrow> length xs \<le> limit)
   \<and> (limit = 0 \<or> length xs < limit \<longrightarrow> (\<forall>row. (\<exists>i. v i = Some row) \<and> matches row \<longrightarrow> row \<in> set xs))"

locale prompt_store =
  fixes ops :: "'s prompt_ops"
    and view :: "'s \<Rightarrow> prompt_rows"
    and runs :: "'s \<Rightarrow> saved_runs"
    and ok :: "'s \<Rightarrow> bool"
  assumes view_id: "ok s \<Longrightarrow> view s i = Some row \<Longrightarrow> ap_id row = i"
    and create_effect:
      "ok s \<Longrightarrow> op_create ops s now row = (r, s') \<Longrightarrow> ap_id row \<noteq> [] \<Longrightarrow>
         ok s' \<and> runs s' = runs s
       \<and> (inserted row (view s) (view s') \<or> r = Inl () \<and> view s' = view s)"
    and get_effect:
      "ok s \<Longrightarrow> op_get ops s i = (g, s') \<Longrightarrow>
         ok s' \<and> runs s' = runs s \<and> view s' = view s \<and> (g = Inl () \<or> g = Inr (view s i))"
    and move_effect:
      "ok s \<Longrightarrow> op_move ops s now i t = (b, s') \<Longrightarrow>
         ok s' \<and> runs s' = runs s \<and> write_reply (cas now i t (view s)) (view s) b (view s')"
    and renew_effect:
      "ok s \<Longrightarrow> op_renew ops s now i owner until = (b, s') \<Longrightarrow>
         ok s' \<and> runs s' = runs s \<and> write_reply (renewed now i owner until (view s)) (view s) b (view s')"
    and stale_effect:
      "ok s \<Longrightarrow> op_stale ops s statuses before limit = (xs, s') \<Longrightarrow> 0 < limit \<Longrightarrow>
         ok s' \<and> runs s' = runs s \<and> view s' = view s
       \<and> (xs = Inl () \<or> (\<exists>ys. xs = Inr ys \<and>
            listed (\<lambda>row. ap_status row \<in> set statuses \<and> lease_lapsed row before) limit (view s) ys))"
    and expired_effect:
      "ok s \<Longrightarrow> op_expired ops s before limit = (xs, s') \<Longrightarrow> 0 < limit \<Longrightarrow>
         ok s' \<and> runs s' = runs s \<and> view s' = view s
       \<and> (xs = Inl () \<or> (\<exists>ys. xs = Inr ys \<and>
            listed (\<lambda>row. ap_status row = Suspended \<and> prompt_expired row before) limit (view s) ys))"
    and session_effect:
      "ok s \<Longrightarrow> op_session ops s session statuses = (xs, s') \<Longrightarrow>
         ok s' \<and> runs s' = runs s \<and> view s' = view s
       \<and> (xs = Inl () \<or> (\<exists>ys. xs = Inr ys \<and>
            listed (\<lambda>row. ap_session row = session \<and> ap_status row \<in> set statuses) 0 (view s) ys))"
    and save_run_effect:
      "ok s \<Longrightarrow> op_save_run ops s now run = (r, s') \<Longrightarrow>
         ok s' \<and> view s' = view s
       \<and> (run_saved run (runs s) (runs s') \<or> r = Inl () \<and> runs s' = runs s)"
    and get_run_effect:
      "ok s \<Longrightarrow> op_get_run ops s m = (u, s') \<Longrightarrow>
         ok s' \<and> runs s' = runs s \<and> view s' = view s \<and> (u = Inl () \<or> u = Inr (runs s m))"
    and delete_run_effect:
      "ok s \<Longrightarrow> op_delete_run ops s m p = (r, s') \<Longrightarrow>
         ok s' \<and> view s' = view s
       \<and> (run_deleted m p (runs s) (runs s') \<or> r = Inl () \<and> runs s' = runs s)"
begin

lemma move_rows:
  assumes "ok s" and "op_move ops s now i t = (b, s')"
  obtains (Kept) "view s' = view s" and "b \<noteq> Inr True"
    | (Moved) row where "view s i = Some row" and "transition_enabled row t"
        and "view s' = (view s)(i \<mapsto> transition_row now t row)" and "b \<noteq> Inr False"
  using move_effect [OF assms] that
  by (auto simp: write_reply_def cas_def split: option.splits if_splits)

end

section \<open>The in-memory store keeps the contract\<close>

definition mem_ok :: "memory_store \<Rightarrow> bool" where
  "mem_ok s \<longleftrightarrow> keys_distinct (ms_rows s) \<and> (\<forall>(k, row) \<in> set (ms_rows s). ap_id row = k)"

definition mem_view :: "memory_store \<Rightarrow> prompt_rows" where
  "mem_view s = map_of (ms_rows s)"

definition mem_runs :: "memory_store \<Rightarrow> saved_runs" where
  "mem_runs s = map_of (ms_runs s)"

lemmas mem_defs = mem_ok_def mem_view_def mem_runs_def

lemma mem_view_id: "mem_ok s \<Longrightarrow> mem_view s i = Some row \<Longrightarrow> ap_id row = i"
  by (auto simp: mem_defs dest!: map_of_SomeD)

lemma set_update_subset: "set (AList.update k v al) \<subseteq> insert (k, v) (set al)"
  by (induction al) auto

lemma mem_ok_update:
  "mem_ok s \<Longrightarrow> ap_id row = i \<Longrightarrow> mem_ok (s\<lparr>ms_rows := AList.update i row (ms_rows s)\<rparr>)"
  using set_update_subset [of i row "ms_rows s"] by (auto simp: mem_ok_def)

lemma id_transition_row [simp]: "ap_id (transition_row now t row) = ap_id row"
  by (simp add: transition_row_def)

lemma insertedI:
  "v (ap_id row) = None \<Longrightarrow>
     inserted row v (v(ap_id row \<mapsto> row\<lparr>ap_created := a, ap_updated := b\<rparr>))"
  unfolding inserted_def by blast

lemma run_savedI: "run_saved run u (u(rs_message run \<mapsto> run\<lparr>rs_created := a, rs_updated := b\<rparr>))"
  unfolding run_saved_def by blast

lemma mem_create_effect:
  "mem_ok s \<Longrightarrow> mem_create s now row = (r, s') \<Longrightarrow> ap_id row \<noteq> [] \<Longrightarrow>
     mem_ok s' \<and> mem_runs s' = mem_runs s
   \<and> (inserted row (mem_view s) (mem_view s') \<or> r = Inl () \<and> mem_view s' = mem_view s)"
  by (auto simp: mem_create_def mem_view_def mem_runs_def update_conv'
      intro!: mem_ok_update insertedI split: option.splits)

lemma mem_get_effect:
  "mem_ok s \<Longrightarrow> mem_get s i = (g, s') \<Longrightarrow>
     mem_ok s' \<and> mem_runs s' = mem_runs s \<and> mem_view s' = mem_view s
   \<and> (g = Inl () \<or> g = Inr (mem_view s i))"
  by (auto simp: mem_get_def mem_view_def)

lemma mem_move_effect:
  assumes ok: "mem_ok s" and move: "mem_transition s now i t = (b, s')"
  shows "mem_ok s' \<and> mem_runs s' = mem_runs s
       \<and> write_reply (cas now i t (mem_view s)) (mem_view s) b (mem_view s')"
proof (cases "mem_view s i")
  case None
  with ok move show ?thesis
    by (auto simp: mem_transition_def write_reply_def cas_def mem_view_def split: if_splits)
next
  case (Some row)
  with ok have "ap_id row = i" by (rule mem_view_id)
  with ok move Some show ?thesis
    by (auto simp: mem_transition_def write_reply_def cas_def mem_view_def mem_runs_def update_conv'
        intro: mem_ok_update split: if_splits)
qed

lemma mem_renew_effect:
  assumes ok: "mem_ok s" and renew: "mem_renew s now i owner until = (b, s')"
  shows "mem_ok s' \<and> mem_runs s' = mem_runs s
       \<and> write_reply (renewed now i owner until (mem_view s)) (mem_view s) b (mem_view s')"
proof (cases "mem_view s i")
  case None
  with ok renew show ?thesis
    by (auto simp: mem_renew_def write_reply_def renewed_def mem_view_def)
next
  case (Some row)
  with ok have "ap_id row = i" by (rule mem_view_id)
  with ok renew Some show ?thesis
    by (auto simp: mem_renew_def write_reply_def renewed_def mem_view_def mem_runs_def update_conv'
        intro: mem_ok_update split: if_splits)
qed

text \<open>A sorted and cut list of the matching rows is what a listing promises.\<close>

lemma take_sorted_listed:
  assumes dist: "distinct (map ap_id rows)"
    and rows: "\<And>row. row \<in> set rows \<longleftrightarrow> (\<exists>i. v i = Some row)"
    and ids: "\<And>i row. v i = Some row \<Longrightarrow> ap_id row = i"
    and n: "n = limit \<and> 0 < limit \<or> limit = 0 \<and> length (filter matches rows) \<le> n"
  shows "listed matches limit v (take n (sort_key key (filter matches rows)))"
proof -
  let ?all = "sort_key key (filter matches rows)"
  have sub: "set ?all = {row. (\<exists>i. v i = Some row) \<and> matches row}"
    using rows by auto
  have inj: "inj_on ap_id (set ?all)"
    using ids sub by (auto simp: inj_on_def)
  have "distinct rows"
    using dist by (simp add: distinct_map)
  then have "distinct (map ap_id ?all)"
    using inj by (simp add: distinct_map)
  then have d: "distinct (map ap_id (take n ?all))"
    by (simp add: take_map [symmetric] distinct_take)
  have members: "\<forall>row \<in> set (take n ?all). v (ap_id row) = Some row \<and> matches row"
    using sub ids by (blast dest: in_set_takeD)
  have all: "limit = 0 \<or> length (take n ?all) < limit \<longrightarrow> take n ?all = ?all"
    using n by auto
  have len: "0 < limit \<longrightarrow> length (take n ?all) \<le> limit"
    using n by auto
  have full: "limit = 0 \<or> length (take n ?all) < limit \<longrightarrow>
      (\<forall>row. (\<exists>i. v i = Some row) \<and> matches row \<longrightarrow> row \<in> set (take n ?all))"
    using all sub by auto
  show ?thesis
    unfolding listed_def using d members len full by blast
qed

lemma mem_rows_view:
  assumes "mem_ok s"
  shows "distinct (map ap_id (map snd (ms_rows s)))"
    and "\<And>row. row \<in> set (map snd (ms_rows s)) \<longleftrightarrow> (\<exists>i. mem_view s i = Some row)"
proof -
  have "map ap_id (map snd (ms_rows s)) = map fst (ms_rows s)"
    using assms by (auto simp: mem_ok_def)
  with assms show "distinct (map ap_id (map snd (ms_rows s)))"
    unfolding mem_ok_def keys_distinct_def by metis
  show "row \<in> set (map snd (ms_rows s)) \<longleftrightarrow> (\<exists>i. mem_view s i = Some row)" for row
  proof
    assume "row \<in> set (map snd (ms_rows s))"
    then obtain k where "(k, row) \<in> set (ms_rows s)" by auto
    with assms have "map_of (ms_rows s) k = Some row"
      by (simp add: mem_ok_def keys_distinct_map_of)
    then show "\<exists>i. mem_view s i = Some row" unfolding mem_view_def by blast
  next
    assume "\<exists>i. mem_view s i = Some row"
    then obtain i where "map_of (ms_rows s) i = Some row" unfolding mem_view_def by blast
    then have "(i, row) \<in> set (ms_rows s)" by (rule map_of_SomeD)
    then show "row \<in> set (map snd (ms_rows s))" by force
  qed
qed

lemma mem_list_listed:
  assumes "mem_ok s"
  shows "listed matches limit (mem_view s) (mem_list s limit matches key)"
proof -
  let ?out = "sort_key key (filter matches (map snd (ms_rows s)))"
  have eq: "mem_list s limit matches key = take (if limit = 0 then length ?out else limit) ?out"
    by (auto simp: mem_list_def Let_def)
  show ?thesis
    unfolding eq
    by (rule take_sorted_listed) (use assms mem_rows_view [OF assms] mem_view_id [OF assms] in auto)
qed

lemma mem_list_effects:
  "mem_ok s \<Longrightarrow> mem_stale s statuses before limit = (xs, s') \<Longrightarrow> 0 < limit \<Longrightarrow>
     mem_ok s' \<and> mem_runs s' = mem_runs s \<and> mem_view s' = mem_view s
   \<and> (xs = Inl () \<or> (\<exists>ys. xs = Inr ys \<and>
        listed (\<lambda>row. ap_status row \<in> set statuses \<and> lease_lapsed row before) limit (mem_view s) ys))"
  "mem_ok s \<Longrightarrow> mem_expired s before limit = (xs, s') \<Longrightarrow> 0 < limit \<Longrightarrow>
     mem_ok s' \<and> mem_runs s' = mem_runs s \<and> mem_view s' = mem_view s
   \<and> (xs = Inl () \<or> (\<exists>ys. xs = Inr ys \<and>
        listed (\<lambda>row. ap_status row = Suspended \<and> prompt_expired row before) limit (mem_view s) ys))"
  "mem_ok s \<Longrightarrow> mem_session s session statuses = (xs, s') \<Longrightarrow>
     mem_ok s' \<and> mem_runs s' = mem_runs s \<and> mem_view s' = mem_view s
   \<and> (xs = Inl () \<or> (\<exists>ys. xs = Inr ys \<and>
        listed (\<lambda>row. ap_session row = session \<and> ap_status row \<in> set statuses) 0 (mem_view s) ys))"
  by (auto simp: mem_stale_def mem_expired_def mem_session_def mem_list_listed)

lemma mem_run_effects:
  "mem_ok s \<Longrightarrow> mem_save_run s now run = (r, s') \<Longrightarrow>
     mem_ok s' \<and> mem_view s' = mem_view s
   \<and> (run_saved run (mem_runs s) (mem_runs s') \<or> r = Inl () \<and> mem_runs s' = mem_runs s)"
  "mem_ok s \<Longrightarrow> mem_get_run s m = (u, s') \<Longrightarrow>
     mem_ok s' \<and> mem_runs s' = mem_runs s \<and> mem_view s' = mem_view s
   \<and> (u = Inl () \<or> u = Inr (mem_runs s m))"
  "mem_ok s \<Longrightarrow> mem_delete_run s m p = (r, s') \<Longrightarrow>
     mem_ok s' \<and> mem_view s' = mem_view s
   \<and> (run_deleted m p (mem_runs s) (mem_runs s') \<or> r = Inl () \<and> mem_runs s' = mem_runs s)"
  subgoal by (auto simp: mem_save_run_def mem_defs update_conv' Let_def intro!: run_savedI split: if_splits)
  subgoal by (auto simp: mem_get_run_def mem_defs)
  subgoal by (auto simp: mem_delete_run_def mem_defs delete_conv' run_deleted_def
        split: if_splits option.splits)
  done

lemma memory_prompt_store: "prompt_store memory_ops mem_view mem_runs mem_ok"
  unfolding memory_ops_def
  by unfold_locales
    (simp_all only: prompt_ops.simps, (rule mem_view_id mem_create_effect mem_get_effect
      mem_move_effect mem_renew_effect mem_list_effects mem_run_effects; assumption)+)

interpretation memory: prompt_store memory_ops mem_view mem_runs mem_ok
  by (rule memory_prompt_store)

section \<open>The database keeps the contract\<close>

definition repo_ok :: "prompt_table \<Rightarrow> bool" where
  "repo_ok s \<longleftrightarrow> distinct (map ap_id (pt_rows s)) \<and> distinct (map rs_message (pt_runs s))"

lemma find_id: "List.find (\<lambda>r. f r = k) xs = Some r \<Longrightarrow> f r = k \<and> r \<in> set xs"
  by (induction xs) (auto split: if_splits)

lemma find_iff_member:
  "distinct (map f xs) \<Longrightarrow> List.find (\<lambda>r. f r = k) xs = Some r \<longleftrightarrow> r \<in> set xs \<and> f r = k"
  by (induction xs) auto

lemma find_none_iff: "List.find (\<lambda>r. f r = k) xs = None \<longleftrightarrow> k \<notin> f ` set xs"
  by (induction xs) auto

text \<open>An update of the one row with a key, which keeps the key, changes the look-up at that key.\<close>

lemma find_map_update:
  assumes dist: "distinct (map f xs)" and keep: "\<And>r. f (upd r) = f r" and wh: "\<And>r. wh r \<Longrightarrow> f r = k"
  shows "(\<lambda>i. List.find (\<lambda>r. f r = i) (map (\<lambda>r. if wh r then upd r else r) xs))
       = (case List.find (\<lambda>r. f r = k) xs of
            Some r \<Rightarrow> if wh r then (\<lambda>i. List.find (\<lambda>r. f r = i) xs)(k \<mapsto> upd r)
                      else (\<lambda>i. List.find (\<lambda>r. f r = i) xs)
          | None \<Rightarrow> (\<lambda>i. List.find (\<lambda>r. f r = i) xs))"
proof -
  have upd: "List.find (\<lambda>r. f r = i) (map (\<lambda>r. if wh r then upd r else r) xs)
      = map_option (\<lambda>r. if wh r then upd r else r) (List.find (\<lambda>r. f r = i) xs)" for i
    by (induction xs) (auto simp: keep)
  have other: "\<not> wh r" if "List.find (\<lambda>r. f r = i) xs = Some r" and "i \<noteq> k" for i r
    using find_id [OF that(1)] that(2) wh by blast
  show ?thesis
    by (cases "List.find (\<lambda>r. f r = k) xs") (use upd other in \<open>force simp: fun_eq_iff map_option_case
        split: option.splits\<close>)+
qed

lemma filter_one_row:
  assumes dist: "distinct (map f xs)" and wh: "\<And>r. wh r \<Longrightarrow> f r = k"
  shows "length (filter wh xs) = 1 \<longleftrightarrow> (\<exists>r. List.find (\<lambda>r. f r = k) xs = Some r \<and> wh r)"
  using dist
proof (induction xs)
  case Nil
  show ?case by simp
next
  case (Cons x xs)
  show ?case
  proof (cases "f x = k")
    case True
    have "\<not> wh r" if "r \<in> set xs" for r
      using Cons.prems True that wh [of r] by (metis distinct.simps(2) image_eqI list.map(2) list.set_map)
    then have "filter wh xs = []" by simp
    with True show ?thesis by simp
  next
    case False
    then have "\<not> wh x" using wh by blast
    with False Cons show ?thesis by simp
  qed
qed

lemma map_keep_key: "(\<And>r. f (upd r) = f r) \<Longrightarrow> map f (map (\<lambda>r. if wh r then upd r else r) xs) = map f xs"
  by simp

lemma statement_cases:
  assumes "statement s result after = (r, s')"
  obtains (Ran) "r = Inr result" and "\<exists>fs. s' = after\<lparr>pt_faults := fs\<rparr>"
    | (Refused) "r = Inl ()" and "\<exists>fs. s' = s\<lparr>pt_faults := fs\<rparr>"
    | (ReplyLost) "r = Inl ()" and "\<exists>fs. s' = after\<lparr>pt_faults := fs\<rparr>"
proof (cases "pt_faults s")
  case Nil
  with assms have "r = Inr result" and "s' = after\<lparr>pt_faults := pt_faults after\<rparr>"
    by (auto simp: statement_def)
  then show thesis using Ran by blast
next
  case (Cons f fs)
  with assms that show thesis by (cases f) (auto simp: statement_def)
qed

lemma view_faults [simp]:
  "find_row (s\<lparr>pt_faults := fs\<rparr>) = find_row s" "find_run (s\<lparr>pt_faults := fs\<rparr>) = find_run s"
  "repo_ok (s\<lparr>pt_faults := fs\<rparr>) = repo_ok s"
  by (simp_all add: find_row_def find_run_def repo_ok_def fun_eq_iff)

lemma find_row_id: "repo_ok s \<Longrightarrow> find_row s i = Some row \<Longrightarrow> ap_id row = i"
  unfolding find_row_def by (drule find_id) simp

text \<open>A statement that reads keeps every row; one that writes gives the new table or keeps it.\<close>

lemma statement_read:
  assumes "statement s result s = (r, s')"
  shows "(repo_ok s \<longrightarrow> repo_ok s') \<and> find_run s' = find_run s \<and> find_row s' = find_row s
       \<and> (r = Inl () \<or> r = Inr result)"
  using assms by (rule statement_cases) auto

lemma repo_get_effect:
  "repo_ok s \<Longrightarrow> repo_get s i = (g, s') \<Longrightarrow>
     repo_ok s' \<and> find_run s' = find_run s \<and> find_row s' = find_row s
   \<and> (g = Inl () \<or> g = Inr (find_row s i))"
  unfolding repo_get_def by (drule statement_read) simp

lemma repo_create_effect:
  assumes ok: "repo_ok s" and create: "repo_create s now row = (r, s')" and "ap_id row \<noteq> []"
  shows "repo_ok s' \<and> find_run s' = find_run s
       \<and> (inserted row (find_row s) (find_row s') \<or> r = Inl () \<and> find_row s' = find_row s)"
proof (cases "find_row s (ap_id row)")
  case (Some old)
  with ok create show ?thesis by (auto simp: repo_create_def)
next
  case None
  let ?row = "row\<lparr>ap_created := stamp now (ap_created row), ap_updated := stamp now (ap_updated row)\<rparr>"
  let ?after = "s\<lparr>pt_rows := pt_rows s @ [?row]\<rparr>"
  from None have fresh: "ap_id row \<notin> ap_id ` set (pt_rows s)"
    by (simp add: find_row_def find_none_iff)
  then have view: "find_row ?after = (find_row s)(ap_id row \<mapsto> ?row)"
    using None by (auto simp: fun_eq_iff find_row_def find_append split: option.splits)
  have okafter: "repo_ok ?after" and runs: "find_run ?after = find_run s"
    using ok fresh by (auto simp: repo_ok_def find_run_def fun_eq_iff)
  have new: "inserted row (find_row s) (find_row ?after)"
    unfolding view using None by (rule insertedI)
  from create None have "statement s () ?after = (r, s')"
    by (simp add: repo_create_def)
  then show ?thesis
    by (rule statement_cases) (use ok okafter runs new in auto)
qed

lemma update_where_effect:
  assumes ok: "repo_ok s" and keep: "\<And>r. ap_id (upd r) = ap_id r" and wh: "\<And>r. wh r \<Longrightarrow> ap_id r = i"
    and run: "update_where wh upd s = (b, s')"
  shows "repo_ok s' \<and> find_run s' = find_run s
       \<and> write_reply (case find_row s i of
             Some r \<Rightarrow> if wh r then Some ((find_row s)(i \<mapsto> upd r)) else None | None \<Rightarrow> None)
           (find_row s) b (find_row s')"
proof -
  let ?after = "s\<lparr>pt_rows := map (\<lambda>r. if wh r then upd r else r) (pt_rows s)\<rparr>"
  have dist: "distinct (map ap_id (pt_rows s))" using ok by (simp add: repo_ok_def)
  have "map ap_id (pt_rows ?after) = map ap_id (pt_rows s)" by (simp add: keep)
  then have okafter: "repo_ok ?after" and runs: "find_run ?after = find_run s"
    using ok by (simp_all add: repo_ok_def find_run_def fun_eq_iff del: map_map)
  have view: "find_row ?after = (case find_row s i of
       Some r \<Rightarrow> if wh r then (find_row s)(i \<mapsto> upd r) else find_row s | None \<Rightarrow> find_row s)"
    using find_map_update [of ap_id "pt_rows s" upd wh i, OF dist keep wh]
    by (simp add: find_row_def [abs_def] split: option.splits)
  have one: "length (filter wh (pt_rows s)) = 1 \<longleftrightarrow> (\<exists>r. find_row s i = Some r \<and> wh r)"
    using filter_one_row [OF dist wh] by (simp add: find_row_def)
  from run have "statement s (length (filter wh (pt_rows s)) = 1) ?after = (b, s')"
    by (simp add: update_where_def)
  then show ?thesis
    by (rule statement_cases)
      (use ok okafter runs view one in \<open>auto simp: write_reply_def split: option.splits if_splits\<close>)
qed

lemma repo_where_enabled: "repo_where i t row \<longleftrightarrow> ap_id row = i \<and> transition_enabled row t"
  by (auto simp: repo_where_def transition_enabled_def split: option.splits)

lemma assign_columns:
  "(case c of Some v \<Rightarrow> row\<lparr>ap_close_reason := v\<rparr> | None \<Rightarrow> row) = row\<lparr>ap_close_reason := assign c (ap_close_reason row)\<rparr>"
  "(case c of Some v \<Rightarrow> row\<lparr>ap_resolved_by := v\<rparr> | None \<Rightarrow> row) = row\<lparr>ap_resolved_by := assign c (ap_resolved_by row)\<rparr>"
  "(case c of Some v \<Rightarrow> row\<lparr>ap_owner := v\<rparr> | None \<Rightarrow> row) = row\<lparr>ap_owner := assign c (ap_owner row)\<rparr>"
  "(case i of Some v \<Rightarrow> row\<lparr>ap_resolved_at := Some v\<rparr> | None \<Rightarrow> row) = row\<lparr>ap_resolved_at := assign_time i (ap_resolved_at row)\<rparr>"
  "(case i of Some v \<Rightarrow> row\<lparr>ap_expires := Some v\<rparr> | None \<Rightarrow> row) = row\<lparr>ap_expires := assign_time i (ap_expires row)\<rparr>"
  "(case i of Some v \<Rightarrow> row\<lparr>ap_lease := Some v\<rparr> | None \<Rightarrow> row) = row\<lparr>ap_lease := assign_time i (ap_lease row)\<rparr>"
  "(if b then row\<lparr>ap_response := x\<rparr> else row) = row\<lparr>ap_response := (if b then x else ap_response row)\<rparr>"
  by (auto simp: assign_def assign_time_def split: option.split)

lemma repo_set_transition_row: "repo_set now t row = transition_row now t row"
  unfolding repo_set_def transition_row_def assign_columns Let_def by simp

lemma repo_move_effect:
  assumes ok: "repo_ok s" and move: "repo_transition s now i t = (b, s')"
  shows "repo_ok s' \<and> find_run s' = find_run s
       \<and> write_reply (cas now i t (find_row s)) (find_row s) b (find_row s')"
proof (cases "bad_transition t")
  case True
  with ok move show ?thesis
    by (auto simp: repo_transition_def write_reply_def cas_def split: option.splits)
next
  case False
  have keep: "ap_id (repo_set now t r) = ap_id r" for r
    by (simp add: repo_set_transition_row)
  have wh: "repo_where i t r \<Longrightarrow> ap_id r = i" for r
    by (simp add: repo_where_enabled)
  have eq: "(case find_row s i of Some r \<Rightarrow> if repo_where i t r
        then Some ((find_row s)(i \<mapsto> repo_set now t r)) else None | None \<Rightarrow> None) = cas now i t (find_row s)"
    using False find_row_id [OF ok]
    by (auto simp: cas_def repo_where_enabled repo_set_transition_row split: option.splits)
  from move False have "update_where (repo_where i t) (repo_set now t) s = (b, s')"
    by (simp add: repo_transition_def)
  from update_where_effect [OF ok keep wh this] show ?thesis unfolding eq .
qed

lemma repo_renew_effect:
  assumes ok: "repo_ok s" and renew: "repo_renew s now i owner until = (b, s')"
  shows "repo_ok s' \<and> find_run s' = find_run s
       \<and> write_reply (renewed now i owner until (find_row s)) (find_row s) b (find_row s')"
proof -
  let ?wh = "\<lambda>r. ap_id r = i \<and> ap_status r \<in> set leased_statuses \<and> ap_owner r = owner"
  let ?upd = "\<lambda>r. r\<lparr>ap_lease := Some until, ap_updated := now\<rparr>"
  have eq: "(case find_row s i of Some r \<Rightarrow> if ?wh r
        then Some ((find_row s)(i \<mapsto> ?upd r)) else None | None \<Rightarrow> None) = renewed now i owner until (find_row s)"
    using find_row_id [OF ok] by (auto simp: renewed_def split: option.splits)
  have "update_where ?wh ?upd s = (b, s')" using renew by (simp add: repo_renew_def)
  from update_where_effect [OF ok _ _ this, of i] show ?thesis unfolding eq by simp
qed

lemma repo_listed:
  assumes "repo_ok s" and "n = limit \<and> 0 < limit \<or> limit = 0 \<and> length (filter matches (pt_rows s)) \<le> n"
  shows "listed matches limit (find_row s) (take n (sort_key key (filter matches (pt_rows s))))"
proof (rule take_sorted_listed)
  show dist: "distinct (map ap_id (pt_rows s))" using assms(1) by (simp add: repo_ok_def)
  show "row \<in> set (pt_rows s) \<longleftrightarrow> (\<exists>i. find_row s i = Some row)" for row
    by (simp add: find_row_def find_iff_member [OF dist])
  show "find_row s i = Some row \<Longrightarrow> ap_id row = i" for i row
    using assms(1) by (rule find_row_id)
  show "n = limit \<and> 0 < limit \<or> limit = 0 \<and> length (filter matches (pt_rows s)) \<le> n"
    by (rule assms(2))
qed

lemma repo_list_effects:
  "repo_ok s \<Longrightarrow> repo_stale s statuses before limit = (xs, s') \<Longrightarrow> 0 < limit \<Longrightarrow>
     repo_ok s' \<and> find_run s' = find_run s \<and> find_row s' = find_row s
   \<and> (xs = Inl () \<or> (\<exists>ys. xs = Inr ys \<and>
        listed (\<lambda>row. ap_status row \<in> set statuses \<and> lease_lapsed row before) limit (find_row s) ys))"
  "repo_ok s \<Longrightarrow> repo_expired s before limit = (xs, s') \<Longrightarrow> 0 < limit \<Longrightarrow>
     repo_ok s' \<and> find_run s' = find_run s \<and> find_row s' = find_row s
   \<and> (xs = Inl () \<or> (\<exists>ys. xs = Inr ys \<and>
        listed (\<lambda>row. ap_status row = Suspended \<and> prompt_expired row before) limit (find_row s) ys))"
  "repo_ok s \<Longrightarrow> repo_session s session statuses = (xs, s') \<Longrightarrow>
     repo_ok s' \<and> find_run s' = find_run s \<and> find_row s' = find_row s
   \<and> (xs = Inl () \<or> (\<exists>ys. xs = Inr ys \<and>
        listed (\<lambda>row. ap_session row = session \<and> ap_status row \<in> set statuses) 0 (find_row s) ys))"
  subgoal
    unfolding repo_stale_def by (drule statement_read) (use repo_listed in blast)
  subgoal
    unfolding repo_expired_def by (drule statement_read) (use repo_listed in blast)
  subgoal
    unfolding repo_session_def
    using repo_listed [of s "length (pt_rows s)" 0
        "\<lambda>row. ap_session row = session \<and> ap_status row \<in> set statuses" ap_created]
    by (drule_tac statement_read) auto
  done

lemma run_columns_saved:
  "rs_message old = rs_message row \<Longrightarrow> run_columns (row\<lparr>rs_created := c, rs_updated := u\<rparr>) old
     = row\<lparr>rs_created := rs_created old, rs_updated := u\<rparr>"
  by (cases row; cases old) (simp add: run_columns_def)

lemma repo_save_run_effect:
  assumes ok: "repo_ok s" and save: "repo_save_run s now run = (r, s')"
  shows "repo_ok s' \<and> find_row s' = find_row s
       \<and> (run_saved run (find_run s) (find_run s') \<or> r = Inl () \<and> find_run s' = find_run s)"
proof (cases "rs_message run = []")
  case True
  with ok save show ?thesis by (auto simp: repo_save_run_def)
next
  case False
  let ?row = "run\<lparr>rs_created := stamp now (rs_created run), rs_updated := now\<rparr>"
  let ?wh = "\<lambda>r. rs_message r = rs_message run"
  let ?after = "if find_run s (rs_message run) = None then s\<lparr>pt_runs := pt_runs s @ [?row]\<rparr>
    else s\<lparr>pt_runs := map (\<lambda>r. if ?wh r then run_columns ?row r else r) (pt_runs s)\<rparr>"
  have dist: "distinct (map rs_message (pt_runs s))" using ok by (simp add: repo_ok_def)
  have keep: "rs_message (run_columns ?row r) = rs_message r" for r by (simp add: run_columns_def)
  have after: "repo_ok ?after \<and> find_row ?after = find_row s \<and> run_saved run (find_run s) (find_run ?after)"
  proof (cases "find_run s (rs_message run)")
    case None
    then have fresh: "rs_message run \<notin> rs_message ` set (pt_runs s)"
      by (simp add: find_run_def find_none_iff)
    have "find_run ?after = (find_run s)(rs_message run \<mapsto> ?row)"
      using None by (auto simp: fun_eq_iff find_run_def find_append split: option.splits)
    then have saved: "run_saved run (find_run s) (find_run ?after)"
      by (simp only: run_savedI)
    have "repo_ok ?after \<and> find_row ?after = find_row s"
      using None fresh ok by (auto simp: repo_ok_def find_row_def fun_eq_iff)
    with saved show ?thesis by blast
  next
    case (Some old)
    then have m: "rs_message old = rs_message run"
      unfolding find_run_def by (auto dest: find_id)
    have "find_run ?after = (find_run s)(rs_message run \<mapsto> run_columns ?row old)"
      using find_map_update [of rs_message "pt_runs s" "run_columns ?row" ?wh "rs_message run", OF dist keep]
        Some m by (simp add: find_run_def [abs_def])
    then have saved: "run_saved run (find_run s) (find_run ?after)"
      using m by (simp only: run_columns_saved run_savedI)
    have "map rs_message (pt_runs ?after) = map rs_message (pt_runs s)"
      using Some keep by simp
    then have "repo_ok ?after \<and> find_row ?after = find_row s"
      using Some ok by (simp add: repo_ok_def find_row_def fun_eq_iff del: map_map)
    with saved show ?thesis by blast
  qed
  from save False have "statement s () ?after = (r, s')"
    by (simp add: repo_save_run_def Let_def cong: if_cong)
  then show ?thesis
    by (rule statement_cases) (use ok after in auto)
qed

lemma repo_get_run_effect:
  "repo_ok s \<Longrightarrow> repo_get_run s m = (u, s') \<Longrightarrow>
     repo_ok s' \<and> find_run s' = find_run s \<and> find_row s' = find_row s
   \<and> (u = Inl () \<or> u = Inr (find_run s m))"
  unfolding repo_get_run_def by (drule statement_read) simp

lemma find_filter_delete:
  "distinct (map rs_message xs) \<Longrightarrow>
   run_deleted m p (\<lambda>i. List.find (\<lambda>r. rs_message r = i) xs)
     (\<lambda>i. List.find (\<lambda>r. rs_message r = i) (filter (\<lambda>r. \<not> (rs_message r = m \<and> rs_prompt r = p)) xs))"
proof (induction xs)
  case Nil
  show ?case by (simp add: run_deleted_def)
next
  case (Cons x xs)
  have "List.find (\<lambda>r. rs_message r = rs_message x) xs = None"
    using Cons.prems by (simp add: find_none_iff)
  with Cons show ?case
    by (auto simp: run_deleted_def fun_eq_iff split: option.splits if_splits)
qed

lemma repo_delete_run_effect:
  assumes ok: "repo_ok s" and del: "repo_delete_run s m p = (r, s')"
  shows "repo_ok s' \<and> find_row s' = find_row s
       \<and> (run_deleted m p (find_run s) (find_run s') \<or> r = Inl () \<and> find_run s' = find_run s)"
proof -
  let ?after = "s\<lparr>pt_runs := filter (\<lambda>r. \<not> (rs_message r = m \<and> rs_prompt r = p)) (pt_runs s)\<rparr>"
  have dist: "distinct (map rs_message (pt_runs s))" using ok by (simp add: repo_ok_def)
  have after: "repo_ok ?after \<and> find_row ?after = find_row s \<and> run_deleted m p (find_run s) (find_run ?after)"
    using ok find_filter_delete [OF dist] distinct_map_filter [OF dist]
    by (simp add: repo_ok_def find_row_def find_run_def [abs_def] fun_eq_iff)
  from del have "statement s () ?after = (r, s')" by (simp add: repo_delete_run_def)
  then show ?thesis by (rule statement_cases) (use ok after in auto)
qed

lemma repo_prompt_store: "prompt_store repo_ops find_row find_run repo_ok"
  unfolding repo_ops_def
  by unfold_locales
    (simp_all only: prompt_ops.simps, (rule find_row_id repo_create_effect repo_get_effect
      repo_move_effect repo_renew_effect repo_list_effects repo_save_run_effect repo_get_run_effect
      repo_delete_run_effect; assumption)+)

interpretation database: prompt_store repo_ops find_row find_run repo_ok
  by (rule repo_prompt_store)

section \<open>The two stores agree\<close>

text \<open>
  The calls on one row, and what they answer. Listings are left out: they order rows with equal
  times in a way neither store fixes.
\<close>

datatype prompt_call =
    CreateCall instant agent_prompt
  | GetCall string
  | MoveCall instant string transition
  | RenewCall instant string string instant
  | SaveRunCall instant run_suspension
  | GetRunCall string
  | DeleteRunCall string string

datatype prompt_answer =
    UnitAnswer "unit reply"
  | RowAnswer "agent_prompt option reply"
  | MoveAnswer "bool reply"
  | RunAnswer "run_suspension option reply"

fun serve :: "'s prompt_ops \<Rightarrow> 's \<Rightarrow> prompt_call \<Rightarrow> prompt_answer \<times> 's" where
  "serve ops s (CreateCall now row) = map_prod UnitAnswer (\<lambda>x. x) (op_create ops s now row)"
| "serve ops s (GetCall i) = map_prod RowAnswer (\<lambda>x. x) (op_get ops s i)"
| "serve ops s (MoveCall now i t) = map_prod MoveAnswer (\<lambda>x. x) (op_move ops s now i t)"
| "serve ops s (RenewCall now i owner until) =
     map_prod MoveAnswer (\<lambda>x. x) (op_renew ops s now i owner until)"
| "serve ops s (SaveRunCall now run) = map_prod UnitAnswer (\<lambda>x. x) (op_save_run ops s now run)"
| "serve ops s (GetRunCall m) = map_prod RunAnswer (\<lambda>x. x) (op_get_run ops s m)"
| "serve ops s (DeleteRunCall m p) = map_prod UnitAnswer (\<lambda>x. x) (op_delete_run ops s m p)"

fun serve_all :: "'s prompt_ops \<Rightarrow> 's \<Rightarrow> prompt_call list \<Rightarrow> prompt_answer list" where
  "serve_all ops s [] = []"
| "serve_all ops s (c # cs) = (case serve ops s c of (a, s') \<Rightarrow> a # serve_all ops s' cs)"

text \<open>New rows as the broker builds them: with an identifier, their times still zero.\<close>

fun fresh_call :: "prompt_call \<Rightarrow> bool" where
  "fresh_call (CreateCall now row) \<longleftrightarrow> ap_id row \<noteq> [] \<and> ap_created row = 0 \<and> ap_updated row = 0"
| "fresh_call (SaveRunCall now run) \<longleftrightarrow> rs_created run = 0"
| "fresh_call c \<longleftrightarrow> True"

definition stores_match :: "memory_store \<Rightarrow> prompt_table \<Rightarrow> bool" where
  "stores_match m d \<longleftrightarrow>
     mem_ok m \<and> repo_ok d \<and> pt_faults d = [] \<and> find_row d = mem_view m \<and> find_run d = mem_runs m"

lemma healthy_statement: "pt_faults s = [] \<Longrightarrow> statement s r after = (Inr r, after)"
  by (simp add: statement_def)

lemma write_reply_certain:
  "write_reply w v b v' \<Longrightarrow> b \<noteq> Inl () \<Longrightarrow>
     b = Inr (w \<noteq> None) \<and> v' = (case w of Some v'' \<Rightarrow> v'' | None \<Rightarrow> v)"
  by (cases b) (auto simp: write_reply_def split: option.splits)

lemma match_by_effects:
  assumes match: "stores_match m d"
    and mem: "mem_ok m' \<and> mem_runs m' = mem_runs m \<and> write_reply (w (mem_view m)) (mem_view m) b (mem_view m')"
    and repo: "repo_ok d' \<and> find_run d' = find_run d \<and> write_reply (w (find_row d)) (find_row d) b' (find_row d')"
    and sure: "b \<noteq> Inl ()" "b' \<noteq> Inl ()" "pt_faults d' = []"
  shows "b = b' \<and> stores_match m' d'"
  using match mem repo sure write_reply_certain [of "w (mem_view m)" "mem_view m" b "mem_view m'"]
    write_reply_certain [of "w (find_row d)" "find_row d" b' "find_row d'"]
  by (simp add: stores_match_def cong: option.case_cong)

lemma update_where_healthy:
  "pt_faults s = [] \<Longrightarrow> update_where wh upd s = (b, s') \<Longrightarrow> b \<noteq> Inl () \<and> pt_faults s' = []"
  by (auto simp: update_where_def healthy_statement)

lemma serve_move_agrees:
  assumes match: "stores_match m d"
    and mem: "mem_transition m now i t = (b, m')" and repo: "repo_transition d now i t = (b', d')"
  shows "b = b' \<and> stores_match m' d'"
proof (cases "bad_transition t")
  case True
  with assms show ?thesis by (auto simp: mem_transition_def repo_transition_def)
next
  case False
  have ok: "mem_ok m" "repo_ok d" and healthy: "pt_faults d = []"
    using match by (simp_all add: stores_match_def)
  have "b \<noteq> Inl ()"
    using mem False by (auto simp: mem_transition_def split: option.splits if_splits)
  moreover have "b' \<noteq> Inl () \<and> pt_faults d' = []"
    using repo False update_where_healthy [OF healthy] by (auto simp: repo_transition_def)
  ultimately show ?thesis
    using match_by_effects [of m d m' "cas now i t"] match
      mem_move_effect [OF ok(1) mem] repo_move_effect [OF ok(2) repo] by blast
qed

lemma serve_renew_agrees:
  assumes match: "stores_match m d"
    and mem: "mem_renew m now i owner until = (b, m')" and repo: "repo_renew d now i owner until = (b', d')"
  shows "b = b' \<and> stores_match m' d'"
proof -
  have ok: "mem_ok m" "repo_ok d" and healthy: "pt_faults d = []"
    using match by (simp_all add: stores_match_def)
  have "b \<noteq> Inl ()"
    using mem by (auto simp: mem_renew_def split: option.splits if_splits)
  moreover have "b' \<noteq> Inl () \<and> pt_faults d' = []"
    using repo update_where_healthy [OF healthy] unfolding repo_renew_def by blast
  ultimately show ?thesis
    using match_by_effects [of m d m' "renewed now i owner until"] match
      mem_renew_effect [OF ok(1) mem] repo_renew_effect [OF ok(2) repo] by blast
qed

lemma serve_create_agrees:
  assumes match: "stores_match m d" and new: "ap_id row \<noteq> []" "ap_created row = 0" "ap_updated row = 0"
    and mem: "mem_create m now row = (b, m')" and repo: "repo_create d now row = (b', d')"
  shows "b = b' \<and> stores_match m' d'"
proof (cases "mem_view m (ap_id row)")
  case (Some old)
  with assms show ?thesis
    by (auto simp: mem_create_def repo_create_def stores_match_def mem_view_def)
next
  case None
  have healthy: "pt_faults d = []" and view: "find_row d = mem_view m"
    using match by (simp_all add: stores_match_def)
  let ?row = "row\<lparr>ap_created := now, ap_updated := now\<rparr>"
  from mem new None have m': "b = Inr ()"
      "m' = m\<lparr>ms_rows := AList.update (ap_id row) ?row (ms_rows m)\<rparr>"
    by (auto simp: mem_create_def mem_view_def)
  from repo new None view healthy have d': "b' = Inr ()" "d' = d\<lparr>pt_rows := pt_rows d @ [?row]\<rparr>"
    by (auto simp: repo_create_def healthy_statement stamp_def)
  have "find_row d' = (find_row d)(ap_id row \<mapsto> ?row)"
    using None unfolding d' view [symmetric]
    by (auto simp: fun_eq_iff find_row_def find_append split: option.splits)
  then have "find_row d' = mem_view m'"
    by (simp add: m' view mem_view_def update_conv')
  moreover have "mem_ok m'" "repo_ok d'"
    using match mem repo new mem_create_effect repo_create_effect by (auto simp: stores_match_def)
  ultimately show ?thesis
    using match by (simp add: stores_match_def m' d' mem_runs_def find_run_def [abs_def])
qed

lemma serve_save_run_agrees:
  assumes match: "stores_match m d" and new: "rs_created run = 0"
    and mem: "mem_save_run m now run = (b, m')" and repo: "repo_save_run d now run = (b', d')"
  shows "b = b' \<and> stores_match m' d'"
proof (cases "rs_message run = []")
  case True
  with assms show ?thesis by (auto simp: mem_save_run_def repo_save_run_def)
next
  case False
  have healthy: "pt_faults d = []" and view: "find_run d = mem_runs m" and ok: "repo_ok d" "mem_ok m"
    using match by (simp_all add: stores_match_def)
  have dist: "distinct (map rs_message (pt_runs d))" using ok by (simp add: repo_ok_def)
  let ?row = "run\<lparr>rs_created := now, rs_updated := now\<rparr>"
  let ?new = "\<lambda>c. run\<lparr>rs_created := c, rs_updated := now\<rparr>"
  have "b = Inr () \<and> mem_runs m' = (mem_runs m)(rs_message run \<mapsto>
      ?new (case mem_runs m (rs_message run) of Some prev \<Rightarrow> rs_created prev | None \<Rightarrow> now))"
    using mem False by (auto simp: mem_save_run_def mem_runs_def update_conv' Let_def)
  moreover have "b' = Inr () \<and> pt_faults d' = [] \<and> find_run d' = (find_run d)(rs_message run \<mapsto>
      ?new (case find_run d (rs_message run) of Some prev \<Rightarrow> rs_created prev | None \<Rightarrow> now))"
  proof (cases "find_run d (rs_message run)")
    case None
    with repo False new healthy have d': "b' = Inr ()" "d' = d\<lparr>pt_runs := pt_runs d @ [?row]\<rparr>"
      by (auto simp: repo_save_run_def healthy_statement stamp_def Let_def)
    with None healthy show ?thesis
      by (auto simp: fun_eq_iff find_run_def find_append split: option.splits)
  next
    case (Some old)
    then have m: "rs_message old = rs_message run" unfolding find_run_def by (auto dest: find_id)
    have keep: "rs_message (run_columns ?row r) = rs_message r" for r by (simp add: run_columns_def)
    from repo False new healthy Some have d': "b' = Inr ()"
      "d' = d\<lparr>pt_runs := map (\<lambda>r. if rs_message r = rs_message run then run_columns ?row r else r) (pt_runs d)\<rparr>"
      by (auto simp: repo_save_run_def healthy_statement stamp_def Let_def)
    have "find_run d' = (find_run d)(rs_message run \<mapsto> run_columns ?row old)"
      using find_map_update [of rs_message "pt_runs d" "run_columns ?row"
          "\<lambda>r. rs_message r = rs_message run" "rs_message run", OF dist keep] Some m
      by (simp add: find_run_def [abs_def] d')
    with Some m d' healthy show ?thesis by (simp add: run_columns_saved)
  qed
  moreover have "mem_ok m'" "mem_view m' = mem_view m" "repo_ok d'" "find_row d' = find_row d"
    using mem_run_effects(1) [OF ok(2) mem] repo_save_run_effect [OF ok(1) repo] by simp_all
  ultimately show ?thesis using match view by (simp add: stores_match_def)
qed

lemma serve_delete_run_agrees:
  assumes match: "stores_match m d"
    and mem: "mem_delete_run m x p = (b, m')" and repo: "repo_delete_run d x p = (b', d')"
  shows "b = b' \<and> stores_match m' d'"
proof -
  have healthy: "pt_faults d = []" and ok: "repo_ok d" "mem_ok m"
    using match by (simp_all add: stores_match_def)
  have b: "b = Inr ()" "b' = Inr ()" "pt_faults d' = []"
    using mem repo healthy
    by (auto simp: mem_delete_run_def repo_delete_run_def healthy_statement split: option.splits if_splits)
  show ?thesis
    using match b mem_run_effects(3) [OF ok(2) mem] repo_delete_run_effect [OF ok(1) repo]
    by (simp add: stores_match_def run_deleted_def)
qed

lemma serve_agrees:
  assumes match: "stores_match m d" and fresh: "fresh_call c"
    and mem: "serve memory_ops m c = (a, m')" and repo: "serve repo_ops d c = (a', d')"
  shows "a = a' \<and> stores_match m' d'"
proof (cases c)
  case (CreateCall now row)
  with assms serve_create_agrees [of m d row now] show ?thesis
    by (auto simp: memory_ops_def repo_ops_def map_prod_def split: prod.splits)
next
  case (GetCall i)
  with assms show ?thesis
    by (auto simp: memory_ops_def repo_ops_def mem_get_def repo_get_def stores_match_def
        healthy_statement mem_view_def)
next
  case (MoveCall now i t)
  with assms serve_move_agrees [of m d now i t] show ?thesis
    by (auto simp: memory_ops_def repo_ops_def map_prod_def split: prod.splits)
next
  case (RenewCall now i owner until)
  with assms serve_renew_agrees [of m d now i owner until] show ?thesis
    by (auto simp: memory_ops_def repo_ops_def map_prod_def split: prod.splits)
next
  case (SaveRunCall now run)
  with assms serve_save_run_agrees [of m d run now] show ?thesis
    by (auto simp: memory_ops_def repo_ops_def map_prod_def split: prod.splits)
next
  case (GetRunCall x)
  with assms show ?thesis
    by (auto simp: memory_ops_def repo_ops_def mem_get_run_def repo_get_run_def stores_match_def
        healthy_statement mem_runs_def)
next
  case (DeleteRunCall x p)
  with assms serve_delete_run_agrees [of m d x p] show ?thesis
    by (auto simp: memory_ops_def repo_ops_def map_prod_def split: prod.splits)
qed

lemma serve_all_agree:
  "stores_match m d \<Longrightarrow> list_all fresh_call cs \<Longrightarrow> serve_all repo_ops d cs = serve_all memory_ops m cs"
proof (induction cs arbitrary: m d)
  case (Cons c cs)
  obtain a m' where mem: "serve memory_ops m c = (a, m')" by fastforce
  obtain a' d' where repo: "serve repo_ops d c = (a', d')" by fastforce
  have "a = a' \<and> stores_match m' d'"
    using serve_agrees [OF Cons.prems(1) _ mem repo] Cons.prems(2) by simp
  with Cons mem repo show ?case by simp
qed simp

text \<open>
  C24. The in-memory store that single-process callers and the tests run on and the database
  repository of production answer every sequence of calls on rows alike, as long as the database
  runs its statements: the same compare-and-set outcomes, the same rows and the same saved runs.
\<close>

theorem stores_agree:
  assumes "list_all fresh_call cs"
  shows "serve_all repo_ops \<lparr>pt_rows = [], pt_runs = [], pt_faults = []\<rparr> cs
       = serve_all memory_ops \<lparr>ms_rows = [], ms_runs = []\<rparr> cs"
  by (rule serve_all_agree)
    (use assms in \<open>auto simp: stores_match_def mem_ok_def repo_ok_def mem_view_def mem_runs_def
      find_row_def find_run_def fun_eq_iff\<close>)

definition example_row :: "string \<Rightarrow> agent_prompt" where
  "example_row pid =
     \<lparr>ap_id = pid, ap_tenant = 7, ap_user = ''u'', ap_session = ''s'', ap_message = ''m'',
      ap_request_id = [], ap_kind = ''tool_approval'', ap_tool_call = [], ap_suspendable = True,
      ap_request = NoBytes, ap_response = NoBytes, ap_status = Pending, ap_close_reason = [],
      ap_resolved_by = [], ap_resolved_at = None, ap_owner = ''o'', ap_lease = Some 30,
      ap_expires = None, ap_created = 0, ap_updated = 0\<rparr>"

definition example_answer :: transition where
  "example_answer = plain_transition [Pending] Answered"

lemma stores_agree_witness:
  "serve_all repo_ops \<lparr>pt_rows = [], pt_runs = [], pt_faults = []\<rparr>
     [CreateCall 5 (example_row ''p''), MoveCall 9 ''p'' example_answer, MoveCall 9 ''p'' example_answer]
   = [UnitAnswer (Inr ()), MoveAnswer (Inr True), MoveAnswer (Inr False)]"
  by (subst stores_agree)
    (simp_all add: example_row_def example_answer_def plain_transition_def memory_ops_def
      mem_create_def mem_transition_def bad_transition_def transition_enabled_def transition_row_def)
end
