(* ===== verification/PromptBroker.thy ===== *)
theory PromptBroker
  imports PromptStore
begin

text \<open>
  The prompt broker: \<open>internal/agent/hitl/broker.go\<close>, \<open>reaper.go\<close> and \<open>delegation.go\<close>. Every
  operation takes the store it works on as its argument \<open>ops\<close> and threads the store's state;
  what the code draws from its surroundings (the time, fresh identifiers, the state of the
  context, the verdict of a callback) is an argument.

  The operations first, each with the transition it issues; then what a single transition can
  do to a prompt (its life only moves forward), what each operation promises on any store
  that keeps the contract, and the claims about the database the production wiring uses.
\<close>

section \<open>The transitions the broker issues\<close>

definition close_transition :: "string \<Rightarrow> prompt_status \<Rightarrow> string \<Rightarrow> transition" where
  "close_transition owner status reason =
     (plain_transition [Pending] status)\<lparr>tr_close_reason := Some reason, tr_expected_owner := Some owner\<rparr>"

definition suspend_transition :: "string \<Rightarrow> instant option \<Rightarrow> transition" where
  "suspend_transition owner expires =
     (plain_transition [Pending] Suspended)\<lparr>tr_expires := expires, tr_expected_owner := Some owner\<rparr>"

definition claim_transition :: "prompt_status \<Rightarrow> string \<Rightarrow> transition" where
  "claim_transition to owner = (plain_transition [Answered] to)\<lparr>tr_expected_owner := Some owner\<rparr>"

definition consume_lost_reason :: string where
  "consume_lost_reason = ''could not persist prompt consumption; tool was not executed''"

definition give_up_transition :: "string \<Rightarrow> transition" where
  "give_up_transition owner =
     (plain_transition [Answered, Executing] Failed)
       \<lparr>tr_close_reason := Some consume_lost_reason, tr_expected_owner := Some owner\<rparr>"

definition executed_transition :: transition where
  "executed_transition = plain_transition [Executing] Done"

definition fail_transition :: "string \<Rightarrow> transition" where
  "fail_transition reason =
     (plain_transition [Answered, Executing] Failed)\<lparr>tr_close_reason := Some reason\<rparr>"

definition answer_transition :: "prompt_status \<Rightarrow> raw \<Rightarrow> string \<Rightarrow> instant \<Rightarrow> transition" where
  "answer_transition from_status response user now =
     (plain_transition [from_status] Answered)
       \<lparr>tr_response := response, tr_resolved_by := Some user, tr_resolved_at := Some now\<rparr>"

definition answer_suspended_transition ::
    "raw \<Rightarrow> string \<Rightarrow> instant \<Rightarrow> string \<Rightarrow> instant \<Rightarrow> transition" where
  "answer_suspended_transition response user now owner lease =
     (answer_transition Suspended response user now)
       \<lparr>tr_unexpired := Some now, tr_owner := Some owner, tr_lease := Some lease\<rparr>"

definition reason_owner_stopped :: string where
  "reason_owner_stopped = ''the replica waiting on this prompt stopped''"
definition reason_resume_stopped :: string where
  "reason_resume_stopped = ''the run resuming after this prompt was interrupted before the tool ran''"
definition reason_execute_stopped :: string where
  "reason_execute_stopped =
     ''the run was interrupted while the approved tool was running; its outcome is unknown''"
definition reason_prompt_expired :: string where
  "reason_prompt_expired = ''the prompt expired before it was answered''"
definition reason_prompt_supersede :: string where
  "reason_prompt_supersede = ''the user moved on without answering this prompt''"

definition orphan_expire_transition :: "string \<Rightarrow> instant \<Rightarrow> transition" where
  "orphan_expire_transition owner now =
     (plain_transition [Pending] Expired)
       \<lparr>tr_expected_owner := Some owner, tr_lease_before := Some now,
        tr_close_reason := Some reason_owner_stopped\<rparr>"

definition orphan_suspend_transition :: "string \<Rightarrow> instant \<Rightarrow> instant option \<Rightarrow> transition" where
  "orphan_suspend_transition owner now expires =
     (plain_transition [Pending] Suspended)
       \<lparr>tr_expires := expires, tr_owner := Some [], tr_expected_owner := Some owner,
        tr_lease_before := Some now\<rparr>"

definition close_run_transition ::
    "prompt_status list \<Rightarrow> prompt_status \<Rightarrow> string \<Rightarrow> (string \<times> instant) option \<Rightarrow> transition" where
  "close_run_transition froms to reason stale =
     (let t = (plain_transition froms to)\<lparr>tr_close_reason := Some reason\<rparr>
      in case stale of
           None \<Rightarrow> t
         | Some (owner, before) \<Rightarrow>
             t\<lparr>tr_expected_owner := Some owner, tr_lease_before := Some before\<rparr>)"

text \<open>
  Two transitions of the services around the broker: the automation and collaboration
  schedulers close a prompt that has not been acted on, and extend the lease of an answered one.
\<close>

definition withdraw_transition :: "prompt_status \<Rightarrow> string \<Rightarrow> transition" where
  "withdraw_transition status reason =
     (plain_transition [Pending, Suspended, Answered] status)\<lparr>tr_close_reason := Some reason\<rparr>"

definition keep_answered_transition :: "string \<Rightarrow> instant \<Rightarrow> transition" where
  "keep_answered_transition owner until =
     (plain_transition [Answered] Answered)\<lparr>tr_expected_owner := Some owner, tr_lease := Some until\<rparr>"

section \<open>Waiting\<close>

record broker_config =
  bc_lease_ttl :: int
  bc_suspend_expiry :: int

definition expires_at :: "broker_config \<Rightarrow> instant \<Rightarrow> instant option" where
  "expires_at cfg now =
     (if bc_suspend_expiry cfg \<le> 0 then None else Some (now + bc_suspend_expiry cfg))"

record outcome =
  oc_prompt :: agent_prompt
  oc_answered :: bool
  oc_timed_out :: bool
  oc_canceled :: bool
  oc_suspended :: bool
  oc_detached :: bool
  oc_expires :: "instant option"
  oc_reason :: string

text \<open>A prompt literal that names only the identifier and the status.\<close>

definition blank_prompt :: "string \<Rightarrow> prompt_status \<Rightarrow> agent_prompt" where
  "blank_prompt pid status =
     \<lparr>ap_id = pid, ap_tenant = 0, ap_user = [], ap_session = [], ap_message = [],
      ap_request_id = [], ap_kind = [], ap_tool_call = [], ap_suspendable = False,
      ap_request = NoBytes, ap_response = NoBytes, ap_status = status, ap_close_reason = [],
      ap_resolved_by = [], ap_resolved_at = None, ap_owner = [], ap_lease = None,
      ap_expires = None, ap_created = 0, ap_updated = 0\<rparr>"

definition plain_outcome :: "agent_prompt \<Rightarrow> outcome" where
  "plain_outcome p =
     \<lparr>oc_prompt = p, oc_answered = False, oc_timed_out = False, oc_canceled = False,
      oc_suspended = False, oc_detached = False, oc_expires = None, oc_reason = []\<rparr>"

definition closed_row :: "agent_prompt \<Rightarrow> string \<Rightarrow> outcome option" where
  "closed_row row owner =
     (if ap_status row = Pending then None
      else if ap_owner row \<noteq> owner then
        Some ((plain_outcome row)\<lparr>oc_suspended := True, oc_detached := True, oc_expires := ap_expires row\<rparr>)
      else if ap_status row = Suspended then
        Some ((plain_outcome row)\<lparr>oc_suspended := True, oc_expires := ap_expires row\<rparr>)
      else Some ((plain_outcome row)
        \<lparr>oc_answered := (ap_status row = Answered), oc_timed_out := (ap_status row = Expired),
         oc_canceled := (ap_status row = Canceled), oc_reason := ap_close_reason row\<rparr>))"

definition closed :: "'s prompt_ops \<Rightarrow> 's \<Rightarrow> string \<Rightarrow> string \<Rightarrow> outcome option \<times> 's" where
  "closed ops s pid owner =
     (case op_get ops s pid of
        (Inr (Some row), s') \<Rightarrow> (closed_row row owner, s')
      | (_, s') \<Rightarrow> (None, s'))"

definition moved_ok :: "bool reply \<Rightarrow> bool" where
  "moved_ok r \<longleftrightarrow> r = Inr True"

definition close_as_owner ::
    "'s prompt_ops \<Rightarrow> 's \<Rightarrow> instant \<Rightarrow> string \<Rightarrow> string \<Rightarrow> prompt_status \<Rightarrow> string \<Rightarrow> outcome \<times> 's" where
  "close_as_owner ops s now pid owner status reason =
     (case op_move ops s now pid (close_transition owner status reason) of
        (r, s1) \<Rightarrow>
          (let ended = (plain_outcome ((blank_prompt pid status)\<lparr>ap_close_reason := reason\<rparr>))
                 \<lparr>oc_timed_out := (status = Expired), oc_canceled := (status = Canceled),
                  oc_reason := reason\<rparr>
           in if moved_ok r then (ended, s1)
              else (case closed ops s1 pid owner of
                      (Some out, s2) \<Rightarrow> (out, s2)
                    | (None, s2) \<Rightarrow> (ended, s2))))"

definition suspend_prompt ::
    "'s prompt_ops \<Rightarrow> broker_config \<Rightarrow> 's \<Rightarrow> instant \<Rightarrow> string \<Rightarrow> string \<Rightarrow> outcome \<times> 's" where
  "suspend_prompt ops cfg s now pid owner =
     (let expires = expires_at cfg now in
      case op_move ops s now pid (suspend_transition owner expires) of
        (r, s1) \<Rightarrow>
          if moved_ok r then
            ((plain_outcome ((blank_prompt pid Suspended)\<lparr>ap_expires := expires\<rparr>))
               \<lparr>oc_suspended := True, oc_expires := expires\<rparr>, s1)
          else (case closed ops s1 pid owner of
                  (Some out, s2) \<Rightarrow> (out, s2)
                | (None, s2) \<Rightarrow>
                    close_as_owner ops s2 now pid owner Expired ''prompt could not be suspended''))"

text \<open>
  The loop of \<open>Await\<close> selects among its channels; \<open>Elsewhere\<close> is what other replicas do to the
  store in between. The value \<open>None\<close> of the loop is a wait that goes on.
\<close>

datatype 's await_event =
    Wake
  | Poll
  | Renew instant
  | TimerFires instant
  | Stopped instant
  | Elsewhere "'s \<Rightarrow> 's"

fun wait_step ::
    "'s prompt_ops \<Rightarrow> broker_config \<Rightarrow> bool \<Rightarrow> string \<Rightarrow> string \<Rightarrow> string \<Rightarrow> 's await_event \<Rightarrow> 's
       \<Rightarrow> outcome option \<times> 's" where
  "wait_step ops cfg suspendable timeout_reason pid owner Wake s = closed ops s pid owner"
| "wait_step ops cfg suspendable timeout_reason pid owner Poll s = closed ops s pid owner"
| "wait_step ops cfg suspendable timeout_reason pid owner (Renew now) s =
     (None, snd (op_renew ops s now pid owner (now + bc_lease_ttl cfg)))"
| "wait_step ops cfg suspendable timeout_reason pid owner (TimerFires now) s =
     (case (if suspendable then suspend_prompt ops cfg s now pid owner
            else close_as_owner ops s now pid owner Expired timeout_reason) of
        (out, s') \<Rightarrow> (Some out, s'))"
| "wait_step ops cfg suspendable timeout_reason pid owner (Stopped now) s =
     (case close_as_owner ops s now pid owner Canceled ''request canceled'' of
        (out, s') \<Rightarrow> (Some out, s'))"
| "wait_step ops cfg suspendable timeout_reason pid owner (Elsewhere f) s = (None, f s)"

fun wait_loop ::
    "'s prompt_ops \<Rightarrow> broker_config \<Rightarrow> bool \<Rightarrow> string \<Rightarrow> string \<Rightarrow> string \<Rightarrow> 's await_event list \<Rightarrow> 's
       \<Rightarrow> outcome option \<times> 's" where
  "wait_loop ops cfg suspendable timeout_reason pid owner [] s = (None, s)"
| "wait_loop ops cfg suspendable timeout_reason pid owner (e # es) s =
     (case wait_step ops cfg suspendable timeout_reason pid owner e s of
        (Some out, s') \<Rightarrow> (Some out, s')
      | (None, s') \<Rightarrow> wait_loop ops cfg suspendable timeout_reason pid owner es s')"

text \<open>
  \<open>CheckDelegation\<close>: \<open>live\<close> is a context without error; a delegation brings a check and may
  register the prompt with its run, both callbacks.
\<close>

record delegation =
  dl_check :: bool
  dl_register :: "agent_prompt \<Rightarrow> bool"

definition check_delegation :: "bool \<Rightarrow> delegation option \<Rightarrow> bool" where
  "check_delegation live deleg \<longleftrightarrow> live \<and> (case deleg of Some d \<Rightarrow> dl_check d | None \<Rightarrow> True)"

record suspend_spec =
  ss_snapshot :: raw
  ss_version :: int

record prompt_spec =
  sp_prompt :: "agent_prompt option"
  sp_timeout :: int
  sp_timeout_reason :: string
  sp_emit :: "agent_prompt \<Rightarrow> bool"
  sp_suspend :: "suspend_spec option"
  sp_fallback :: int

datatype await_error =
    NilPrompt | DelegationRefused | NeedsSnapshot | NeedsMessage | RunStateNotSaved
  | RegisterFailed | PromptNotSaved | EmitFailed

text \<open>The first half of \<open>Await\<close>: what becomes of the specification under a delegation.\<close>

definition delegated_spec ::
    "bool \<Rightarrow> delegation option \<Rightarrow> prompt_spec \<Rightarrow> await_error + prompt_spec" where
  "delegated_spec live deleg spec =
     (case deleg of
        None \<Rightarrow> Inr spec
      | Some _ \<Rightarrow>
          if \<not> check_delegation live deleg then Inl DelegationRefused
          else if sp_suspend spec = None then Inl NeedsSnapshot
          else Inr (spec\<lparr>sp_fallback := 0, sp_timeout := 0\<rparr>))"

definition run_state_of :: "agent_prompt \<Rightarrow> suspend_spec \<Rightarrow> run_suspension" where
  "run_state_of p ss =
     \<lparr>rs_message = ap_message p, rs_tenant = ap_tenant p, rs_session = ap_session p,
      rs_prompt = ap_id p, rs_version = ss_version ss, rs_snapshot = ss_snapshot ss,
      rs_created = 0, rs_updated = 0\<rparr>"

text \<open>
  The run state is saved before the prompt: the prompt and specification to go on with, and
  whether the deferred clean-up is armed.
\<close>

definition save_run_state ::
    "'s prompt_ops \<Rightarrow> 's \<Rightarrow> instant \<Rightarrow> prompt_spec \<Rightarrow> agent_prompt
       \<Rightarrow> (await_error + prompt_spec \<times> agent_prompt \<times> bool) \<times> 's" where
  "save_run_state ops s now spec p =
     (case sp_suspend spec of
        None \<Rightarrow> (Inr (spec, p, False), s)
      | Some ss \<Rightarrow>
          if ap_message p = [] then (Inl NeedsMessage, s)
          else (let p = p\<lparr>ap_suspendable := True\<rparr> in
                case op_save_run ops s now (run_state_of p ss) of
                  (Inr _, s') \<Rightarrow> (Inr (spec, p, True), s')
                | (Inl _, s') \<Rightarrow>
                    if 0 < sp_fallback spec then
                      (Inr (spec\<lparr>sp_suspend := None, sp_timeout := sp_fallback spec\<rparr>,
                            p\<lparr>ap_suspendable := False\<rparr>, False), s')
                    else (Inl RunStateNotSaved, s')))"

definition drop_snapshot :: "'s prompt_ops \<Rightarrow> 's \<Rightarrow> string \<Rightarrow> string \<Rightarrow> 's" where
  "drop_snapshot ops s message pid = snd (op_delete_run ops s message pid)"

text \<open>The deferred clean-up: the run state goes unless the run may be resumed from it.\<close>

definition deferred_drop ::
    "'s prompt_ops \<Rightarrow> bool \<Rightarrow> agent_prompt \<Rightarrow> string \<Rightarrow> bool \<Rightarrow> 's \<Rightarrow> 's" where
  "deferred_drop ops armed p owner suspended s =
     (if \<not> armed \<or> suspended then s
      else (case op_get ops s (ap_id p) of
              (Inr None, s') \<Rightarrow> drop_snapshot ops s' (ap_message p) (ap_id p)
            | (Inr (Some row), s') \<Rightarrow>
                if ap_owner row = owner then drop_snapshot ops s' (ap_message p) (ap_id p) else s'
            | (Inl _, s') \<Rightarrow> s'))"

text \<open>
  The row is created and shown; then the wait begins. \<open>fresh\<close> is the identifier an empty one is
  replaced by, \<open>owner\<close> the token of this wait.
\<close>

definition raise_prompt ::
    "'s prompt_ops \<Rightarrow> broker_config \<Rightarrow> delegation option \<Rightarrow> string \<Rightarrow> instant \<Rightarrow> prompt_spec
       \<Rightarrow> agent_prompt \<Rightarrow> 's \<Rightarrow> (await_error + agent_prompt) \<times> 's" where
  "raise_prompt ops cfg deleg owner now spec p s =
     (if (case deleg of Some d \<Rightarrow> \<not> dl_register d p | None \<Rightarrow> False) then (Inl RegisterFailed, s)
      else (let p = p\<lparr>ap_status := Pending, ap_owner := owner, ap_lease := Some (now + bc_lease_ttl cfg)\<rparr> in
            case op_create ops s now p of
              (Inl _, s1) \<Rightarrow> (Inl PromptNotSaved, s1)
            | (Inr _, s1) \<Rightarrow>
                if sp_emit spec p then (Inr p, s1)
                else (Inl EmitFailed, snd (close_as_owner ops s1 now (ap_id p) owner Canceled
                                             ''prompt could not be delivered''))))"

definition await ::
    "'s prompt_ops \<Rightarrow> broker_config \<Rightarrow> bool \<Rightarrow> delegation option \<Rightarrow> string \<Rightarrow> string \<Rightarrow> instant
       \<Rightarrow> prompt_spec \<Rightarrow> 's await_event list \<Rightarrow> 's \<Rightarrow> (await_error + outcome) option \<times> 's" where
  "await ops cfg live deleg fresh owner now spec events s =
     (case sp_prompt spec of
        None \<Rightarrow> (Some (Inl NilPrompt), s)
      | Some p0 \<Rightarrow>
          (let p = (if ap_id p0 = [] then p0\<lparr>ap_id := fresh\<rparr> else p0) in
           case delegated_spec live deleg spec of
             Inl e \<Rightarrow> (Some (Inl e), s)
           | Inr spec \<Rightarrow>
               (case save_run_state ops s now spec p of
                  (Inl e, s1) \<Rightarrow> (Some (Inl e), s1)
                | (Inr (spec, p, armed), s1) \<Rightarrow>
                    (case raise_prompt ops cfg deleg owner now spec p s1 of
                       (Inl e, s2) \<Rightarrow> (Some (Inl e), deferred_drop ops armed p owner False s2)
                     | (Inr row, s2) \<Rightarrow>
                         (case wait_loop ops cfg (sp_suspend spec \<noteq> None) (sp_timeout_reason spec)
                                 (ap_id row) owner events s2 of
                            (None, s3) \<Rightarrow> (None, s3)
                          | (Some out, s3) \<Rightarrow>
                              (Some (Inr out), deferred_drop ops armed row owner (oc_suspended out) s3))))))"

section \<open>Claiming an answer\<close>

text \<open>
  \<open>Consume\<close> as the automaton of its store calls, so that the calls of several replicas can
  interleave. A reply is an error, the outcome of a transition, or a row.
\<close>

datatype store_reply = LostReply | MovedReply bool | RowReply "agent_prompt option"

datatype consume_phase =
    Trying nat      \<comment> \<open>about to claim, after so many attempts\<close>
  | Confirming      \<comment> \<open>about to read the row back\<close>
  | GivingUp        \<comment> \<open>about to fail the prompt\<close>
  | Claimed
  | NotClaimed
  | Unconfirmed

definition consume_retries :: nat where
  "consume_retries = 2"

fun consume_react :: "prompt_status \<Rightarrow> string \<Rightarrow> consume_phase \<Rightarrow> store_reply \<Rightarrow> consume_phase" where
  "consume_react to owner (Trying n) reply =
     (case reply of
        MovedReply ok \<Rightarrow> if ok then Claimed else if n = 0 then NotClaimed else Confirming
      | _ \<Rightarrow> if n = consume_retries then Confirming else Trying (Suc n))"
| "consume_react to owner Confirming reply =
     (case reply of
        RowReply (Some row) \<Rightarrow>
          if ap_owner row \<noteq> owner then NotClaimed
          else if ap_status row = to then Claimed
          else if ap_status row \<noteq> Answered then NotClaimed
          else GivingUp
      | RowReply None \<Rightarrow> NotClaimed
      | _ \<Rightarrow> GivingUp)"
| "consume_react to owner GivingUp reply = Unconfirmed"
| "consume_react to owner Claimed reply = Claimed"
| "consume_react to owner NotClaimed reply = NotClaimed"
| "consume_react to owner Unconfirmed reply = Unconfirmed"

definition moved_reply :: "bool reply \<Rightarrow> store_reply" where
  "moved_reply r = (case r of Inr ok \<Rightarrow> MovedReply ok | Inl _ \<Rightarrow> LostReply)"

definition row_reply :: "agent_prompt option reply \<Rightarrow> store_reply" where
  "row_reply r = (case r of Inr row \<Rightarrow> RowReply row | Inl _ \<Rightarrow> LostReply)"

fun consume_call ::
    "'s prompt_ops \<Rightarrow> instant \<Rightarrow> string \<Rightarrow> prompt_status \<Rightarrow> string \<Rightarrow> consume_phase \<Rightarrow> 's
       \<Rightarrow> consume_phase \<times> 's" where
  "consume_call ops now pid to owner (Trying n) s =
     (case op_move ops s now pid (claim_transition to owner) of
        (r, s') \<Rightarrow> (consume_react to owner (Trying n) (moved_reply r), s'))"
| "consume_call ops now pid to owner Confirming s =
     (case op_get ops s pid of
        (r, s') \<Rightarrow> (consume_react to owner Confirming (row_reply r), s'))"
| "consume_call ops now pid to owner GivingUp s =
     (case op_move ops s now pid (give_up_transition owner) of
        (r, s') \<Rightarrow> (consume_react to owner GivingUp (moved_reply r), s'))"
| "consume_call ops now pid to owner Claimed s = (Claimed, s)"
| "consume_call ops now pid to owner NotClaimed s = (NotClaimed, s)"
| "consume_call ops now pid to owner Unconfirmed s = (Unconfirmed, s)"

fun consume_ended :: "consume_phase \<Rightarrow> bool" where
  "consume_ended (Trying n) = False"
| "consume_ended Confirming = False"
| "consume_ended GivingUp = False"
| "consume_ended Claimed = True"
| "consume_ended NotClaimed = True"
| "consume_ended Unconfirmed = True"

text \<open>How many calls a phase may still make; the loop runs with this many.\<close>

fun consume_left :: "consume_phase \<Rightarrow> nat" where
  "consume_left (Trying n) = 3 + (consume_retries - n)"
| "consume_left Confirming = 2"
| "consume_left GivingUp = 1"
| "consume_left Claimed = 0"
| "consume_left NotClaimed = 0"
| "consume_left Unconfirmed = 0"

fun consume_loop ::
    "nat \<Rightarrow> 's prompt_ops \<Rightarrow> instant \<Rightarrow> string \<Rightarrow> prompt_status \<Rightarrow> string \<Rightarrow> consume_phase \<Rightarrow> 's
       \<Rightarrow> consume_phase \<times> 's" where
  "consume_loop 0 ops now pid to owner ph s = (ph, s)"
| "consume_loop (Suc n) ops now pid to owner ph s =
     (if consume_ended ph then (ph, s)
      else (case consume_call ops now pid to owner ph s of
              (ph', s') \<Rightarrow> consume_loop n ops now pid to owner ph' s'))"

text \<open>\<open>Inr True\<close> is a claim, \<open>Inr False\<close> a lost one, \<open>Inl ()\<close> an error.\<close>

definition consume ::
    "'s prompt_ops \<Rightarrow> bool \<Rightarrow> delegation option \<Rightarrow> 's \<Rightarrow> instant \<Rightarrow> string \<Rightarrow> prompt_status \<Rightarrow> string
       \<Rightarrow> bool reply \<times> 's" where
  "consume ops live deleg s now pid to owner =
     (if \<not> check_delegation live deleg then (Inl (), s)
      else (case consume_loop (consume_left (Trying 0)) ops now pid to owner (Trying 0) s of
              (ph, s') \<Rightarrow>
                (if ph = Claimed then Inr True else if ph = NotClaimed then Inr False else Inl (), s')))"

definition mark_executed :: "'s prompt_ops \<Rightarrow> 's \<Rightarrow> instant \<Rightarrow> string \<Rightarrow> 's" where
  "mark_executed ops s now pid =
     (if pid = [] then s else snd (op_move ops s now pid executed_transition))"

definition fail_prompt :: "'s prompt_ops \<Rightarrow> 's \<Rightarrow> instant \<Rightarrow> string \<Rightarrow> string \<Rightarrow> 's" where
  "fail_prompt ops s now pid reason = snd (op_move ops s now pid (fail_transition reason))"

section \<open>Taking prompts over\<close>

text \<open>
  The callbacks of a take-over. \<open>RecoverAnswered\<close> works on the store; \<open>Closed\<close> completes a
  message elsewhere and reports whether it could. \<open>Suspended\<close> only updates a message and its
  error is only logged, so it does not show here.
\<close>

record 's run_hooks =
  hk_recover :: "(agent_prompt \<Rightarrow> 's \<Rightarrow> bool reply \<times> 's) option"
  hk_closed :: "(agent_prompt \<Rightarrow> run_suspension \<Rightarrow> string \<Rightarrow> bool) option"

definition run_state ::
    "'s prompt_ops \<Rightarrow> 's \<Rightarrow> agent_prompt \<Rightarrow> run_suspension option reply \<times> 's" where
  "run_state ops s row =
     (if \<not> ap_suspendable row \<or> ap_message row = [] then (Inr None, s)
      else (case op_get_run ops s (ap_message row) of
              (Inl _, s') \<Rightarrow> (Inl (), s')
            | (Inr None, s') \<Rightarrow> (Inr None, s')
            | (Inr (Some saved), s') \<Rightarrow>
                (if rs_prompt saved = ap_id row then Inr (Some saved) else Inr None, s')))"

definition reap_pending ::
    "'s prompt_ops \<Rightarrow> broker_config \<Rightarrow> instant \<Rightarrow> agent_prompt \<Rightarrow> 's \<Rightarrow> bool \<times> 's" where
  "reap_pending ops cfg now row s =
     (case run_state ops s row of
        (Inl _, s1) \<Rightarrow> (False, s1)
      | (Inr None, s1) \<Rightarrow>
          (case op_move ops s1 now (ap_id row) (orphan_expire_transition (ap_owner row) now) of
             (r, s2) \<Rightarrow> (moved_ok r, s2))
      | (Inr (Some state), s1) \<Rightarrow>
          (case op_move ops s1 now (ap_id row)
                  (orphan_suspend_transition (ap_owner row) now (expires_at cfg now)) of
             (r, s2) \<Rightarrow> (moved_ok r, s2)))"

definition close_run ::
    "'s prompt_ops \<Rightarrow> 's run_hooks \<Rightarrow> instant \<Rightarrow> agent_prompt \<Rightarrow> run_suspension option
       \<Rightarrow> prompt_status list \<Rightarrow> prompt_status \<Rightarrow> string \<Rightarrow> instant option \<Rightarrow> 's \<Rightarrow> bool \<times> 's" where
  "close_run ops hooks now row state froms to reason stale s =
     (case op_move ops s now (ap_id row)
             (close_run_transition froms to reason (map_option (\<lambda>b. (ap_owner row, b)) stale)) of
        (r, s1) \<Rightarrow>
          if \<not> moved_ok r then (False, s1)
          else (case state of
                  None \<Rightarrow> (True, s1)
                | Some st \<Rightarrow>
                    (case hk_closed hooks of
                       Some f \<Rightarrow> if f (row\<lparr>ap_status := to, ap_close_reason := reason\<rparr>) st reason
                                 then (True, drop_snapshot ops s1 (ap_message row) (ap_id row))
                                 else (True, s1)
                     | None \<Rightarrow> (True, drop_snapshot ops s1 (ap_message row) (ap_id row)))))"

definition reap_batch :: nat where
  "reap_batch = 100"

text \<open>
  The sweep, one row after the other; the counts are the prompts taken over. A failing listing,
  or a failing recovery, ends the sweep.
\<close>

fun reap_orphans ::
    "'s prompt_ops \<Rightarrow> broker_config \<Rightarrow> instant \<Rightarrow> agent_prompt list \<Rightarrow> nat \<Rightarrow> 's \<Rightarrow> nat \<times> 's" where
  "reap_orphans ops cfg now [] n s = (n, s)"
| "reap_orphans ops cfg now (row # rs) n s =
     (case reap_pending ops cfg now row s of
        (taken, s') \<Rightarrow> reap_orphans ops cfg now rs (if taken then Suc n else n) s')"

definition close_resuming ::
    "'s prompt_ops \<Rightarrow> 's run_hooks \<Rightarrow> instant \<Rightarrow> agent_prompt \<Rightarrow> 's \<Rightarrow> bool \<times> 's" where
  "close_resuming ops hooks now row s =
     (case run_state ops s row of
        (Inr (Some st), s') \<Rightarrow>
          close_run ops hooks now row (Some st) [ap_status row] Failed
            (if ap_status row = Executing then reason_execute_stopped else reason_resume_stopped)
            (Some now) s'
      | (_, s') \<Rightarrow> (False, s'))"

fun reap_resuming ::
    "'s prompt_ops \<Rightarrow> 's run_hooks \<Rightarrow> instant \<Rightarrow> agent_prompt list \<Rightarrow> nat \<Rightarrow> 's
       \<Rightarrow> bool \<times> nat \<times> 's" where
  "reap_resuming ops hooks now [] n s = (True, n, s)"
| "reap_resuming ops hooks now (row # rs) n s =
     (case (if ap_status row = Answered then hk_recover hooks else None) of
        Some recover \<Rightarrow>
          (case recover row s of
             (Inl _, s') \<Rightarrow> (False, n, s')
           | (Inr True, s') \<Rightarrow> reap_resuming ops hooks now rs n s'
           | (Inr False, s') \<Rightarrow>
               (case close_resuming ops hooks now row s' of
                  (taken, s'') \<Rightarrow> reap_resuming ops hooks now rs (if taken then Suc n else n) s''))
      | None \<Rightarrow>
          (case close_resuming ops hooks now row s of
             (taken, s') \<Rightarrow> reap_resuming ops hooks now rs (if taken then Suc n else n) s'))"

fun close_suspended ::
    "'s prompt_ops \<Rightarrow> 's run_hooks \<Rightarrow> instant \<Rightarrow> prompt_status \<Rightarrow> string \<Rightarrow> agent_prompt list \<Rightarrow> nat
       \<Rightarrow> 's \<Rightarrow> nat \<times> 's" where
  "close_suspended ops hooks now to reason [] n s = (n, s)"
| "close_suspended ops hooks now to reason (row # rs) n s =
     (case run_state ops s row of
        (Inl _, s') \<Rightarrow> close_suspended ops hooks now to reason rs n s'
      | (Inr state, s') \<Rightarrow>
          (case close_run ops hooks now row state [Suspended] to reason None s' of
             (taken, s'') \<Rightarrow>
               close_suspended ops hooks now to reason rs (if taken then Suc n else n) s''))"

definition reap ::
    "'s prompt_ops \<Rightarrow> broker_config \<Rightarrow> 's run_hooks \<Rightarrow> instant \<Rightarrow> 's \<Rightarrow> bool \<times> nat \<times> 's" where
  "reap ops cfg hooks now s =
     (case op_stale ops s [Pending] now reap_batch of
        (Inl _, s0) \<Rightarrow> (False, 0, s0)
      | (Inr pending, s0) \<Rightarrow>
          (case reap_orphans ops cfg now pending 0 s0 of
             (n1, s1) \<Rightarrow>
               (case op_stale ops s1 [Answered, Executing] now reap_batch of
                  (Inl _, s2) \<Rightarrow> (False, n1, s2)
                | (Inr resuming, s2) \<Rightarrow>
                    (case reap_resuming ops hooks now resuming n1 s2 of
                       (False, n2, s3) \<Rightarrow> (False, n2, s3)
                     | (True, n2, s3) \<Rightarrow>
                         (case op_expired ops s3 now reap_batch of
                            (Inl _, s4) \<Rightarrow> (False, n2, s4)
                          | (Inr expired, s4) \<Rightarrow>
                              (case close_suspended ops hooks now Expired reason_prompt_expired
                                      expired n2 s4 of
                                 (n3, s5) \<Rightarrow> (True, n3, s5)))))))"

definition supersede_session ::
    "'s prompt_ops \<Rightarrow> 's run_hooks \<Rightarrow> instant \<Rightarrow> string \<Rightarrow> 's \<Rightarrow> nat reply \<times> 's" where
  "supersede_session ops hooks now session s =
     (case op_session ops s session [Suspended] of
        (Inl _, s') \<Rightarrow> (Inl (), s')
      | (Inr rows, s') \<Rightarrow>
          (case close_suspended ops hooks now Superseded reason_prompt_supersede rows 0 s' of
             (n, s'') \<Rightarrow> (Inr n, s'')))"

section \<open>Answering\<close>

record resolve_request =
  rr_tenant :: nat
  rr_user :: string
  rr_session :: string
  rr_kind :: string
  rr_prompt :: string
  rr_response :: raw

record resolution =
  rn_prompt :: agent_prompt
  rn_resume :: bool
  rn_owner_gone :: bool
  rn_owner_lease :: "instant option"

datatype resolve_error =
    StoreFailed | PromptNotFound | TenantMismatch | UserMismatch | AlreadyResolved
  | UnsupportedKind string | InvalidResponse

type_synonym validators = "string \<Rightarrow> (raw \<Rightarrow> raw \<Rightarrow> bool) option"

text \<open>The checks on the row as first read.\<close>

definition refuse_answer ::
    "validators \<Rightarrow> resolve_request \<Rightarrow> agent_prompt option \<Rightarrow> resolve_error option" where
  "refuse_answer validate req row =
     (case row of
        None \<Rightarrow> Some PromptNotFound
      | Some row \<Rightarrow>
          if (rr_kind req \<noteq> [] \<and> ap_kind row \<noteq> rr_kind req)
             \<or> (rr_session req \<noteq> [] \<and> ap_session row \<noteq> rr_session req) then Some PromptNotFound
          else if ap_tenant row \<noteq> rr_tenant req then Some TenantMismatch
          else if ap_user row \<noteq> [] \<and> ap_user row \<noteq> rr_user req then Some UserMismatch
          else if \<not> is_open row then Some AlreadyResolved
          else (case validate (ap_kind row) of
                  None \<Rightarrow> Some (UnsupportedKind (ap_kind row))
                | Some ok \<Rightarrow> if ok (ap_request row) (rr_response req) then None
                             else Some InvalidResponse))"

text \<open>A pending prompt whose owner is gone is suspended first, and read again.\<close>

definition take_over_orphan ::
    "'s prompt_ops \<Rightarrow> broker_config \<Rightarrow> instant \<Rightarrow> string \<Rightarrow> agent_prompt \<Rightarrow> 's
       \<Rightarrow> (resolve_error + agent_prompt) \<times> 's" where
  "take_over_orphan ops cfg now pid row s =
     (if ap_status row = Pending \<and> ap_suspendable row \<and> lease_lapsed row now then
        (case op_get ops (snd (reap_pending ops cfg now row s)) pid of
           (Inl _, s') \<Rightarrow> (Inl StoreFailed, s')
         | (Inr None, s') \<Rightarrow> (Inl PromptNotFound, s')
         | (Inr (Some row'), s') \<Rightarrow>
             (if is_open row' then Inr row' else Inl AlreadyResolved, s'))
      else (Inr row, s))"

definition record_answer ::
    "'s prompt_ops \<Rightarrow> broker_config \<Rightarrow> instant \<Rightarrow> string \<Rightarrow> resolve_request \<Rightarrow> agent_prompt \<Rightarrow> 's
       \<Rightarrow> (resolve_error + resolution) \<times> 's" where
  "record_answer ops cfg now fresh req row s =
     (let pid = rr_prompt req; resp = rr_response req; lease = now + bc_lease_ttl cfg;
          answered = row\<lparr>ap_status := Answered, ap_response := resp, ap_resolved_by := rr_user req,
                         ap_resolved_at := Some now\<rparr>;
          gone = (ap_owner row = [] \<or> (ap_status row = Suspended \<and> lease_lapsed row now)) in
      case op_move ops s now pid (answer_suspended_transition resp (rr_user req) now fresh lease) of
        (Inl _, s1) \<Rightarrow> (Inl StoreFailed, s1)
      | (Inr True, s1) \<Rightarrow>
          (Inr \<lparr>rn_prompt = answered\<lparr>ap_owner := fresh, ap_lease := Some lease\<rparr>, rn_resume = True,
                rn_owner_gone = gone, rn_owner_lease = ap_lease row\<rparr>, s1)
      | (Inr False, s1) \<Rightarrow>
          (case op_move ops s1 now pid (answer_transition Pending resp (rr_user req) now) of
             (Inl _, s2) \<Rightarrow> (Inl StoreFailed, s2)
           | (Inr False, s2) \<Rightarrow> (Inl AlreadyResolved, s2)
           | (Inr True, s2) \<Rightarrow>
               (Inr \<lparr>rn_prompt = answered, rn_resume = False, rn_owner_gone = False,
                     rn_owner_lease = None\<rparr>, s2)))"

definition resolve ::
    "'s prompt_ops \<Rightarrow> broker_config \<Rightarrow> validators \<Rightarrow> instant \<Rightarrow> string \<Rightarrow> resolve_request \<Rightarrow> 's
       \<Rightarrow> (resolve_error + resolution) \<times> 's" where
  "resolve ops cfg validate now fresh req s =
     (case op_get ops s (rr_prompt req) of
        (Inl _, s0) \<Rightarrow> (Inl StoreFailed, s0)
      | (Inr found, s0) \<Rightarrow>
          (case refuse_answer validate req found of
             Some e \<Rightarrow> (Inl e, s0)
           | None \<Rightarrow>
               (case take_over_orphan ops cfg now (rr_prompt req) (the found) s0 of
                  (Inl e, s1) \<Rightarrow> (Inl e, s1)
                | (Inr row, s1) \<Rightarrow> record_answer ops cfg now fresh req row s1)))"
end
