(* ===== verification/PromptLife.thy ===== *)
theory PromptLife
  imports PromptBroker
begin

text \<open>
  The life of a prompt under any interleaving of replicas. Every call the code makes on the store
  is a step: raising a prompt, checking and recording an answer, the moves of waiters, reapers
  and schedulers, and the calls of each run that claims an answer. The store may fail, before or
  after a call took effect. The invariants are proved once for any store that keeps the
  contract; the claims instantiate them with the database.
\<close>

section \<open>The moves of the code\<close>

datatype prompt_move =
    CloseMove string prompt_status string
  | SuspendMove string "instant option"
  | AnswerMove raw string instant
  | AnswerSuspendedMove raw string instant string instant
  | ExecutedMove
  | FailMove string
  | OrphanExpireMove string instant
  | OrphanSuspendMove string instant "instant option"
  | CloseRunMove "prompt_status list" prompt_status string "(string \<times> instant) option"
  | WithdrawMove prompt_status string
  | KeepAnsweredMove string instant

fun move_transition :: "prompt_move \<Rightarrow> transition" where
  "move_transition (CloseMove owner status reason) = close_transition owner status reason"
| "move_transition (SuspendMove owner expires) = suspend_transition owner expires"
| "move_transition (AnswerMove resp user now) = answer_transition Pending resp user now"
| "move_transition (AnswerSuspendedMove resp user now owner lease) =
     answer_suspended_transition resp user now owner lease"
| "move_transition ExecutedMove = executed_transition"
| "move_transition (FailMove reason) = fail_transition reason"
| "move_transition (OrphanExpireMove owner now) = orphan_expire_transition owner now"
| "move_transition (OrphanSuspendMove owner now expires) = orphan_suspend_transition owner now expires"
| "move_transition (CloseRunMove froms to reason stale) = close_run_transition froms to reason stale"
| "move_transition (WithdrawMove status reason) = withdraw_transition status reason"
| "move_transition (KeepAnsweredMove owner until) = keep_answered_transition owner until"

text \<open>The arguments the call sites pass.\<close>

fun move_issued :: "prompt_move \<Rightarrow> bool" where
  "move_issued (CloseMove owner status reason) \<longleftrightarrow> status = Expired \<or> status = Canceled"
| "move_issued (AnswerSuspendedMove resp user now owner lease) \<longleftrightarrow> owner \<noteq> []"
| "move_issued (CloseRunMove froms to reason stale) \<longleftrightarrow>
     (froms = [Answered] \<or> froms = [Executing]) \<and> to = Failed
   \<or> froms = [Suspended] \<and> (to = Expired \<or> to = Superseded)"
| "move_issued (WithdrawMove status reason) \<longleftrightarrow> status = Canceled \<or> status = Expired \<or> status = Failed"
| "move_issued m \<longleftrightarrow> True"

text \<open>Whose answer a move records, if it records one.\<close>

fun move_answer :: "prompt_move \<Rightarrow> (raw \<times> string) option" where
  "move_answer (AnswerMove resp user now) = Some (resp, user)"
| "move_answer (AnswerSuspendedMove resp user now owner lease) = Some (resp, user)"
| "move_answer m = None"

lemmas transition_defs =
  close_transition_def suspend_transition_def claim_transition_def give_up_transition_def
  executed_transition_def fail_transition_def answer_transition_def answer_suspended_transition_def
  orphan_expire_transition_def orphan_suspend_transition_def close_run_transition_def
  withdraw_transition_def keep_answered_transition_def plain_transition_def

section \<open>Stages\<close>

fun stage :: "prompt_status \<Rightarrow> nat" where
  "stage Pending = 0"
| "stage Suspended = 1"
| "stage Answered = 2"
| "stage Executing = 3"
| "stage s = 4"

text \<open>What no transition ever touches, and what is fixed once a prompt is answered.\<close>

definition same_question :: "agent_prompt \<Rightarrow> agent_prompt \<Rightarrow> bool" where
  "same_question p q \<longleftrightarrow>
     ap_id q = ap_id p \<and> ap_tenant q = ap_tenant p \<and> ap_user q = ap_user p
   \<and> ap_session q = ap_session p \<and> ap_message q = ap_message p \<and> ap_kind q = ap_kind p
   \<and> ap_tool_call q = ap_tool_call p \<and> ap_suspendable q = ap_suspendable p
   \<and> ap_request q = ap_request p"

definition same_answer :: "agent_prompt \<Rightarrow> agent_prompt \<Rightarrow> bool" where
  "same_answer p q \<longleftrightarrow>
     ap_response q = ap_response p \<and> ap_resolved_by q = ap_resolved_by p
   \<and> ap_resolved_at q = ap_resolved_at p \<and> ap_owner q = ap_owner p"

lemma same_question_refl [simp]: "same_question p p" by (simp add: same_question_def)
lemma same_answer_refl [simp]: "same_answer p p" by (simp add: same_answer_def)
lemma same_question_trans: "same_question p q \<Longrightarrow> same_question q r \<Longrightarrow> same_question p r"
  by (simp add: same_question_def)
lemma same_answer_trans: "same_answer p q \<Longrightarrow> same_answer q r \<Longrightarrow> same_answer p r"
  by (simp add: same_answer_def)

definition lives_on :: "agent_prompt \<Rightarrow> agent_prompt \<Rightarrow> bool" where
  "lives_on p q \<longleftrightarrow>
     same_question p q \<and> stage (ap_status p) \<le> stage (ap_status q)
   \<and> (stage (ap_status q) = stage (ap_status p) \<longrightarrow> ap_status q = ap_status p)
   \<and> (ap_status p = Executing \<longrightarrow> ap_status q \<in> {Executing, Done, Failed})
   \<and> (2 \<le> stage (ap_status p) \<longrightarrow> same_answer p q)"

lemma lives_on_refl [simp]: "lives_on p p"
  by (simp add: lives_on_def)

lemma stage_le: "stage x \<le> 4"
  by (cases x) simp_all

lemma lives_on_terminal:
  assumes "lives_on p q" and "ap_status p \<in> {Executing, Done, Failed}"
  shows "ap_status q \<in> {Executing, Done, Failed}"
proof (cases "ap_status p = Executing")
  case True
  with assms(1) show ?thesis by (simp add: lives_on_def)
next
  case False
  then have "stage (ap_status p) = 4" using assms(2) by auto
  then have "stage (ap_status q) = stage (ap_status p)"
    using assms(1) stage_le [of "ap_status q"] by (simp add: lives_on_def)
  with assms show ?thesis by (simp add: lives_on_def)
qed

lemma lives_on_trans:
  assumes pq: "lives_on p q" and qr: "lives_on q r"
  shows "lives_on p r"
  unfolding lives_on_def
proof (intro conjI impI)
  show "same_question p r" using pq qr same_question_trans by (auto simp: lives_on_def)
  show "stage (ap_status p) \<le> stage (ap_status r)" using pq qr by (simp add: lives_on_def)
  show "ap_status r = ap_status p" if "stage (ap_status r) = stage (ap_status p)"
    using pq qr that by (simp add: lives_on_def)
  show "ap_status r \<in> {Executing, Done, Failed}" if "ap_status p = Executing"
    using lives_on_terminal [OF qr lives_on_terminal [OF pq]] that by simp
  show "same_answer p r" if "2 \<le> stage (ap_status p)"
    using pq qr that same_answer_trans by (auto simp: lives_on_def)
qed

lemma same_question_transition [simp]: "same_question row (transition_row now t row)"
  by (simp add: same_question_def transition_row_def)

lemma transition_row_status [simp]: "ap_status (transition_row now t row) = tr_to t"
  by (simp add: transition_row_def)

lemma transition_row_answer:
  "tr_response t = NoBytes \<Longrightarrow> tr_resolved_by t = None \<Longrightarrow> tr_resolved_at t = None \<Longrightarrow>
     tr_owner t = None \<Longrightarrow> same_answer row (transition_row now t row)"
  by (simp add: same_answer_def transition_row_def assign_def assign_time_def)

lemma move_lives_on:
  assumes "move_issued m" and "transition_enabled row (move_transition m)"
  shows "lives_on row (transition_row now (move_transition m) row)"
  using assms
  by (cases m) (auto simp: lives_on_def transition_enabled_def transition_defs Let_def
      intro!: transition_row_answer split: option.splits prod.splits)

lemma claim_lives_on:
  assumes "to = Executing \<or> to = Done" and "transition_enabled row (claim_transition to owner)"
  shows "lives_on row (transition_row now (claim_transition to owner) row)"
  using assms by (auto simp: lives_on_def transition_enabled_def transition_defs
      intro!: transition_row_answer)

lemma give_up_lives_on:
  assumes "transition_enabled row (give_up_transition owner)"
  shows "lives_on row (transition_row now (give_up_transition owner) row)"
  using assms by (auto simp: lives_on_def transition_enabled_def transition_defs
      intro!: transition_row_answer)

section \<open>The system of replicas\<close>

text \<open>
  A run that claims an answer, with the status it claims for and its ownership token. The
  answers whose checks have passed are kept as a record of who asked for what; the code holds
  them on the stack of \<open>Resolve\<close> between its read and its compare-and-set.
\<close>

record consumer =
  cn_prompt :: string
  cn_to :: prompt_status
  cn_owner :: string
  cn_phase :: consume_phase

record 's hitl =
  h_store :: 's
  h_runs :: "nat \<Rightarrow> consumer option"
  h_checked :: "resolve_request list"

text \<open>
  A wait or a resumed run has a token of its own and claims once; runs without a token exist
  side by side, since a wait that ends without reading its row claims with the empty one.
\<close>

definition token_unused :: "(nat \<Rightarrow> consumer option) \<Rightarrow> string \<Rightarrow> bool" where
  "token_unused runs owner \<longleftrightarrow> owner = [] \<or> (\<forall>k c. runs k = Some c \<longrightarrow> cn_owner c \<noteq> owner)"

inductive hitl_step :: "'s prompt_ops \<Rightarrow> validators \<Rightarrow> 's hitl \<Rightarrow> 's hitl \<Rightarrow> bool"
  for ops :: "'s prompt_ops" and validate :: validators where
  raised: "hitl_step ops validate s (s\<lparr>h_store := st\<rparr>)"
    if "op_create ops (h_store s) now row = (r, st)" and "ap_id row \<noteq> []"
      and "ap_status row = Pending" and "ap_owner row \<noteq> []" and "ap_response row = NoBytes"
| checked: "hitl_step ops validate s (s\<lparr>h_store := st, h_checked := req # h_checked s\<rparr>)"
    if "op_get ops (h_store s) (rr_prompt req) = (Inr found, st)"
      and "refuse_answer validate req found = None"
| moved: "hitl_step ops validate s (s\<lparr>h_store := st\<rparr>)"
    if "op_move ops (h_store s) now pid (move_transition m) = (r, st)" and "move_issued m"
      and "\<And>resp user. move_answer m = Some (resp, user) \<Longrightarrow>
             \<exists>req \<in> set (h_checked s). rr_prompt req = pid \<and> rr_response req = resp \<and> rr_user req = user"
| renewed: "hitl_step ops validate s (s\<lparr>h_store := st\<rparr>)"
    if "op_renew ops (h_store s) now pid owner until = (r, st)"
| looked: "hitl_step ops validate s (s\<lparr>h_store := st\<rparr>)"
    if "op_get ops (h_store s) pid = (g, st)"
| run_saved: "hitl_step ops validate s (s\<lparr>h_store := st\<rparr>)"
    if "op_save_run ops (h_store s) now run = (u, st)"
| run_read: "hitl_step ops validate s (s\<lparr>h_store := st\<rparr>)"
    if "op_get_run ops (h_store s) m = (x, st)"
| run_dropped: "hitl_step ops validate s (s\<lparr>h_store := st\<rparr>)"
    if "op_delete_run ops (h_store s) m pid = (u, st)"
| started: "hitl_step ops validate s (s\<lparr>h_runs := (h_runs s)(k \<mapsto> c)\<rparr>)"
    if "h_runs s k = None" and "cn_phase c = Trying 0" and "cn_to c = Executing \<or> cn_to c = Done"
      and "token_unused (h_runs s) (cn_owner c)"
| claiming: "hitl_step ops validate s
      (s\<lparr>h_store := st, h_runs := (h_runs s)(k \<mapsto> c\<lparr>cn_phase := ph\<rparr>)\<rparr>)"
    if "h_runs s k = Some c"
      and "consume_call ops now (cn_prompt c) (cn_to c) (cn_owner c) (cn_phase c) (h_store s) = (ph, st)"

definition hitl_start :: "'s \<Rightarrow> 's hitl" where
  "hitl_start st = \<lparr>h_store = st, h_runs = (\<lambda>_. None), h_checked = []\<rparr>"

text \<open>What is known of a row: its owner, and whose answer it holds.\<close>

definition answered_by :: "validators \<Rightarrow> resolve_request list \<Rightarrow> agent_prompt \<Rightarrow> bool" where
  "answered_by validate reqs row \<longleftrightarrow>
     (\<exists>req \<in> set reqs. rr_prompt req = ap_id row \<and> rr_tenant req = ap_tenant row
        \<and> (ap_user row \<noteq> [] \<longrightarrow> rr_user req = ap_user row)
        \<and> rr_user req = ap_resolved_by row \<and> rr_response req = ap_response row
        \<and> (\<exists>ok. validate (ap_kind row) = Some ok \<and> ok (ap_request row) (ap_response row)))"

definition row_sound :: "validators \<Rightarrow> resolve_request list \<Rightarrow> agent_prompt \<Rightarrow> bool" where
  "row_sound validate reqs row \<longleftrightarrow>
     (ap_status row = Pending \<longrightarrow> ap_owner row \<noteq> [])
   \<and> (ap_status row = Pending \<or> ap_status row = Suspended \<longrightarrow> ap_response row = NoBytes)
   \<and> (ap_status row \<in> {Answered, Executing, Done} \<longrightarrow>
        ap_owner row \<noteq> [] \<and> answered_by validate reqs row)"

text \<open>A check holds as long as the prompt exists: no transition touches what it looked at.\<close>

definition check_sound :: "validators \<Rightarrow> prompt_rows \<Rightarrow> resolve_request \<Rightarrow> bool" where
  "check_sound validate v req \<longleftrightarrow>
     (\<exists>row ok. v (rr_prompt req) = Some row \<and> rr_tenant req = ap_tenant row
        \<and> (ap_user row \<noteq> [] \<longrightarrow> rr_user req = ap_user row)
        \<and> validate (ap_kind row) = Some ok \<and> ok (ap_request row) (rr_response req))"

definition claim_held :: "validators \<Rightarrow> resolve_request list \<Rightarrow> string \<Rightarrow> agent_prompt \<Rightarrow> bool" where
  "claim_held validate reqs owner row \<longleftrightarrow>
     ap_owner row = owner \<and> owner \<noteq> [] \<and> ap_status row \<in> {Executing, Done, Failed}
   \<and> answered_by validate reqs row"

definition run_sound ::
    "validators \<Rightarrow> resolve_request list \<Rightarrow> prompt_rows \<Rightarrow> consumer \<Rightarrow> bool" where
  "run_sound validate reqs v c \<longleftrightarrow>
     (cn_to c = Executing \<or> cn_to c = Done)
   \<and> (cn_phase c = Claimed \<longrightarrow>
        (\<exists>row. v (cn_prompt c) = Some row \<and> claim_held validate reqs (cn_owner c) row))"

definition tokens_distinct :: "(nat \<Rightarrow> consumer option) \<Rightarrow> bool" where
  "tokens_distinct runs \<longleftrightarrow>
     (\<forall>k k' c c'. runs k = Some c \<longrightarrow> runs k' = Some c' \<longrightarrow> cn_owner c = cn_owner c' \<longrightarrow>
        cn_owner c \<noteq> [] \<longrightarrow> k = k')"

definition hitl_inv ::
    "validators \<Rightarrow> prompt_rows \<Rightarrow> (nat \<Rightarrow> consumer option) \<Rightarrow> resolve_request list \<Rightarrow> bool" where
  "hitl_inv validate v runs reqs \<longleftrightarrow>
     (\<forall>i row. v i = Some row \<longrightarrow> ap_id row = i \<and> row_sound validate reqs row)
   \<and> (\<forall>req \<in> set reqs. check_sound validate v req)
   \<and> (\<forall>k c. runs k = Some c \<longrightarrow> run_sound validate reqs v c)
   \<and> tokens_distinct runs"

definition rows_live_on :: "prompt_rows \<Rightarrow> prompt_rows \<Rightarrow> bool" where
  "rows_live_on v v' \<longleftrightarrow> (\<forall>i row. v i = Some row \<longrightarrow> (\<exists>row'. v' i = Some row' \<and> lives_on row row'))"

lemma rows_live_on_refl [simp]: "rows_live_on v v"
  by (simp add: rows_live_on_def)

lemma rows_live_on_trans: "rows_live_on v v' \<Longrightarrow> rows_live_on v' v'' \<Longrightarrow> rows_live_on v v''"
  unfolding rows_live_on_def by (meson lives_on_trans)

lemma rows_live_on_update:
  "v i = Some row \<Longrightarrow> lives_on row row' \<Longrightarrow> rows_live_on v (v(i \<mapsto> row'))"
  by (auto simp: rows_live_on_def)

lemma rows_live_on_inserted: "inserted row v v' \<Longrightarrow> rows_live_on v v'"
  by (auto simp: inserted_def rows_live_on_def)

lemma check_lives_on:
  "rows_live_on v v' \<Longrightarrow> check_sound validate v req \<Longrightarrow> check_sound validate v' req"
  unfolding check_sound_def rows_live_on_def lives_on_def same_question_def by metis

lemma answered_by_same:
  "same_question p q \<Longrightarrow> same_answer p q \<Longrightarrow> answered_by validate reqs p \<Longrightarrow> answered_by validate reqs q"
  by (simp add: answered_by_def same_question_def same_answer_def)

lemma claim_lives_on_row:
  assumes "lives_on row row'" and "claim_held validate reqs owner row"
  shows "claim_held validate reqs owner row'"
proof -
  have "2 \<le> stage (ap_status row)" using assms(2) by (auto simp: claim_held_def)
  then have same: "same_question row row'" "same_answer row row'"
    using assms(1) by (simp_all add: lives_on_def)
  have "ap_status row' \<in> {Executing, Done, Failed}"
    using lives_on_terminal [OF assms(1)] assms(2) by (simp add: claim_held_def)
  then show ?thesis
    using assms(2) same answered_by_same [OF same] by (simp add: claim_held_def same_answer_def)
qed

lemma run_lives_on:
  assumes live: "rows_live_on v v'" and sound: "run_sound validate reqs v c"
  shows "run_sound validate reqs v' c"
  using assms claim_lives_on_row unfolding run_sound_def rows_live_on_def by meson

text \<open>A change of one row keeps the invariant when the new row is sound.\<close>

lemma inv_update:
  assumes inv: "hitl_inv validate v runs reqs" and live: "rows_live_on v v'"
    and changed: "\<And>i row. v' i = Some row \<Longrightarrow> v' i \<noteq> v i \<Longrightarrow> ap_id row = i \<and> row_sound validate reqs row"
  shows "hitl_inv validate v' runs reqs"
  unfolding hitl_inv_def
proof (intro conjI allI impI ballI)
  fix i row assume "v' i = Some row"
  then show "ap_id row = i" "row_sound validate reqs row"
    using inv changed by (cases "v' i = v i"; force simp: hitl_inv_def)+
next
  fix req assume "req \<in> set reqs"
  then show "check_sound validate v' req"
    using inv check_lives_on [OF live] by (simp add: hitl_inv_def)
next
  fix k c assume "runs k = Some c"
  then show "run_sound validate reqs v' c"
    using inv run_lives_on [OF live] by (simp add: hitl_inv_def)
next
  show "tokens_distinct runs" using inv by (simp add: hitl_inv_def)
qed

lemma row_sound_more: "row_sound validate reqs row \<Longrightarrow> row_sound validate (req # reqs) row"
  unfolding row_sound_def answered_by_def by auto

lemma run_sound_more: "run_sound validate reqs v c \<Longrightarrow> run_sound validate (req # reqs) v c"
  unfolding run_sound_def claim_held_def answered_by_def by (auto 0 4)

lemma row_sound_inserted:
  "inserted row v v' \<Longrightarrow> ap_status row = Pending \<Longrightarrow> ap_owner row \<noteq> [] \<Longrightarrow> ap_response row = NoBytes \<Longrightarrow>
     v' i = Some row' \<Longrightarrow> v' i \<noteq> v i \<Longrightarrow> ap_id row' = i \<and> row_sound validate reqs row'"
  by (auto simp: inserted_def row_sound_def split: if_splits)

text \<open>The move of an answer makes the row hold it, and its check speaks of this row.\<close>

lemma answered_by_checked:
  assumes check: "check_sound validate v req" and row: "v i = Some row" "ap_id row = i"
    and req: "rr_prompt req = i"
    and q: "same_question row q" "ap_response q = rr_response req" "ap_resolved_by q = rr_user req"
    and mem: "req \<in> set reqs"
  shows "answered_by validate reqs q"
  using check row req q mem unfolding check_sound_def answered_by_def same_question_def by auto

lemma transition_row_response:
  "ap_response (transition_row now t row) =
     (if tr_response t \<noteq> NoBytes then tr_response t else ap_response row)"
  "ap_resolved_by (transition_row now t row) = assign (tr_resolved_by t) (ap_resolved_by row)"
  "ap_owner (transition_row now t row) = assign (tr_owner t) (ap_owner row)"
  by (simp_all add: transition_row_def)

lemma answer_move_cases:
  "move_answer m = Some (resp, user) \<Longrightarrow>
     (\<exists>now. m = AnswerMove resp user now) \<or> (\<exists>now w lease. m = AnswerSuspendedMove resp user now w lease)"
  by (cases m) simp_all

lemma answer_move_sound:
  assumes inv: "hitl_inv validate v runs reqs" and row: "v i = Some row"
    and on: "transition_enabled row (move_transition m)" and iss: "move_issued m"
    and ans: "move_answer m = Some (resp, user)"
    and req: "req \<in> set reqs" "rr_prompt req = i" "rr_response req = resp" "rr_user req = user"
  shows "row_sound validate reqs (transition_row now (move_transition m) row)" (is "row_sound _ _ ?q")
proof -
  have sound: "row_sound validate reqs row" "ap_id row = i" and check: "check_sound validate v req"
    using inv row req(1) by (auto simp: hitl_inv_def)
  have open_row: "ap_status row = Pending \<or> ap_status row = Suspended"
    and to: "tr_to (move_transition m) = Answered \<and> tr_response (move_transition m) = resp
        \<and> tr_resolved_by (move_transition m) = Some user"
    using answer_move_cases [OF ans] on
    by (auto simp: transition_enabled_def transition_defs)
  have owner: "ap_owner ?q \<noteq> []"
    using answer_move_cases [OF ans]
  proof (elim disjE exE)
    fix now' assume m: "m = AnswerMove resp user now'"
    with on have "ap_status row = Pending" by (simp add: transition_enabled_def transition_defs)
    with sound(1) m show ?thesis
      by (simp add: transition_row_response transition_defs assign_def row_sound_def)
  next
    fix now' w lease assume m: "m = AnswerSuspendedMove resp user now' w lease"
    with iss show ?thesis
      by (simp add: transition_row_response transition_defs assign_def)
  qed
  have "ap_response ?q = resp" "ap_resolved_by ?q = user"
    using to open_row sound(1) by (auto simp: transition_row_response assign_def row_sound_def)
  then have "answered_by validate reqs ?q"
    using answered_by_checked [OF check row sound(2) req(2)] req by simp
  with owner to show ?thesis by (simp add: row_sound_def)
qed

lemma other_move_status:
  assumes "transition_enabled row (move_transition m)" and "move_issued m" and "move_answer m = None"
  shows "tr_to (move_transition m) \<noteq> Pending"
    and "tr_to (move_transition m) \<in> {Answered, Executing, Done} \<Longrightarrow>
           ap_status row \<in> {Answered, Executing, Done} \<and> 2 \<le> stage (ap_status row)"
    and "tr_to (move_transition m) = Suspended \<Longrightarrow>
           ap_status row = Pending \<and> tr_response (move_transition m) = NoBytes"
  using assms by (cases m; auto simp: transition_enabled_def transition_defs Let_def
      split: option.splits prod.splits)+

lemma other_move_sound:
  assumes sound: "row_sound validate reqs row" and on: "transition_enabled row (move_transition m)"
    and iss: "move_issued m" and none: "move_answer m = None"
  shows "row_sound validate reqs (transition_row now (move_transition m) row)"
proof -
  define q where "q = transition_row now (move_transition m) row"
  have status: "ap_status q = tr_to (move_transition m)" and question: "same_question row q"
    by (simp_all add: q_def)
  note st = other_move_status [OF on iss none]
  have answer: "same_answer row q" if "2 \<le> stage (ap_status row)"
    using move_lives_on [OF iss on] that by (simp add: lives_on_def q_def)
  have "ap_owner q \<noteq> [] \<and> answered_by validate reqs q" if "ap_status q \<in> {Answered, Executing, Done}"
  proof -
    have old: "ap_status row \<in> {Answered, Executing, Done}" and same: "same_answer row q"
      using st(2) that answer by (simp_all only: status)
    then have "ap_owner row \<noteq> []" and "answered_by validate reqs row"
      using sound unfolding row_sound_def by blast+
    with same show ?thesis
      using answered_by_same [OF question same] by (simp add: same_answer_def)
  qed
  moreover have "ap_response q = NoBytes" if "ap_status q = Suspended"
    using st(3) that sound by (simp add: status q_def transition_row_response row_sound_def)
  ultimately show ?thesis
    using st(1) status unfolding row_sound_def q_def [symmetric] by metis
qed

lemma claim_sound:
  assumes "row_sound validate reqs row" and "to = Executing \<or> to = Done"
    and "transition_enabled row (claim_transition to owner)"
  shows "row_sound validate reqs (transition_row now (claim_transition to owner) row)"
    and "ap_owner row = owner"
  using assms answered_by_same [of row "transition_row now (claim_transition to owner) row" validate reqs]
    transition_row_answer [of "claim_transition to owner" row now]
  by (auto simp: row_sound_def transition_enabled_def transition_defs transition_row_response assign_def)

lemma give_up_sound:
  "transition_enabled row (give_up_transition owner) \<Longrightarrow>
     row_sound validate reqs (transition_row now (give_up_transition owner) row)"
  by (simp add: row_sound_def give_up_transition_def plain_transition_def)

lemma inv_one_row:
  assumes inv: "hitl_inv validate v runs reqs" and row: "v i = Some row" and live: "lives_on row row'"
    and sound: "row_sound validate reqs row'"
  shows "hitl_inv validate (v(i \<mapsto> row')) runs reqs"
proof (rule inv_update [OF inv])
  show "rows_live_on v (v(i \<mapsto> row'))" using row live by (rule rows_live_on_update)
  have "ap_id row = i" using inv row by (simp add: hitl_inv_def)
  then have "ap_id row' = i" using live by (simp add: lives_on_def same_question_def)
  with sound show "(v(i \<mapsto> row')) j = Some r \<Longrightarrow> (v(i \<mapsto> row')) j \<noteq> v j \<Longrightarrow>
      ap_id r = j \<and> row_sound validate reqs r" for j r
    by (auto split: if_splits)
qed

lemma inv_moved:
  assumes inv: "hitl_inv validate v runs reqs" and row: "v i = Some row"
    and on: "transition_enabled row (move_transition m)" and iss: "move_issued m"
    and ans: "\<And>resp user. move_answer m = Some (resp, user) \<Longrightarrow>
      \<exists>req \<in> set reqs. rr_prompt req = i \<and> rr_response req = resp \<and> rr_user req = user"
  shows "hitl_inv validate (v(i \<mapsto> transition_row now (move_transition m) row)) runs reqs"
proof (rule inv_one_row [OF inv row])
  show "lives_on row (transition_row now (move_transition m) row)"
    using iss on by (rule move_lives_on)
  have sound: "row_sound validate reqs row" using inv row by (simp add: hitl_inv_def)
  show "row_sound validate reqs (transition_row now (move_transition m) row)"
  proof (cases "move_answer m")
    case None
    with sound on iss show ?thesis by (rule other_move_sound)
  next
    case (Some a)
    then obtain resp user where a: "move_answer m = Some (resp, user)" by (cases a) simp
    with ans obtain req where "req \<in> set reqs" "rr_prompt req = i" "rr_response req = resp"
      "rr_user req = user" by blast
    then show ?thesis by (rule answer_move_sound [OF inv row on iss a])
  qed
qed

lemma inv_checked:
  assumes inv: "hitl_inv validate v runs reqs"
    and ok: "refuse_answer validate req (v (rr_prompt req)) = None"
  shows "hitl_inv validate v runs (req # reqs)"
proof -
  have "check_sound validate v req"
    using ok by (auto simp: refuse_answer_def check_sound_def split: option.splits if_splits)
  with inv show ?thesis
    using row_sound_more run_sound_more by (auto simp: hitl_inv_def)
qed

lemma inv_started:
  assumes inv: "hitl_inv validate v runs reqs" and new: "runs k = None"
    and c: "cn_phase c = Trying 0" "cn_to c = Executing \<or> cn_to c = Done" "token_unused runs (cn_owner c)"
  shows "hitl_inv validate v (runs(k \<mapsto> c)) reqs"
  using assms unfolding hitl_inv_def run_sound_def tokens_distinct_def token_unused_def
  by (auto split: if_splits) metis+

lemma inv_phase:
  assumes inv: "hitl_inv validate v runs reqs" and c: "runs k = Some c"
    and sound: "run_sound validate reqs v (c\<lparr>cn_phase := ph\<rparr>)"
  shows "hitl_inv validate v (runs(k \<mapsto> c\<lparr>cn_phase := ph\<rparr>)) reqs"
proof -
  have "tokens_distinct (runs(k \<mapsto> c\<lparr>cn_phase := ph\<rparr>))"
    using inv c unfolding hitl_inv_def tokens_distinct_def by (auto split: if_splits) metis+
  with inv sound show ?thesis by (simp add: hitl_inv_def)
qed

text \<open>What every step keeps, on any store with the contract.\<close>

context prompt_store
begin

definition sys_inv :: "validators \<Rightarrow> 's hitl \<Rightarrow> bool" where
  "sys_inv validate s \<longleftrightarrow>
     ok (h_store s) \<and> hitl_inv validate (view (h_store s)) (h_runs s) (h_checked s)"

lemma claim_call_inv:
  assumes inv: "sys_inv validate s" and c: "h_runs s k = Some c" and ph: "cn_phase c = Trying n"
    and call: "consume_call ops now (cn_prompt c) (cn_to c) (cn_owner c) (Trying n) (h_store s) = (ph', st)"
  shows "sys_inv validate (s\<lparr>h_store := st, h_runs := (h_runs s)(k \<mapsto> c\<lparr>cn_phase := ph'\<rparr>)\<rparr>)
       \<and> rows_live_on (view (h_store s)) (view st)"
proof -
  let ?t = "claim_transition (cn_to c) (cn_owner c)"
  let ?v = "view (h_store s)"
  obtain r where r: "op_move ops (h_store s) now (cn_prompt c) ?t = (r, st)"
      and ph': "ph' = consume_react (cn_to c) (cn_owner c) (Trying n) (moved_reply r)"
    using call by (auto split: prod.splits)
  have okst: "ok (h_store s)" "ok st" and h: "hitl_inv validate ?v (h_runs s) (h_checked s)"
    using inv move_effect [OF _ r] by (auto simp: sys_inv_def)
  have to: "cn_to c = Executing \<or> cn_to c = Done"
    using h c by (auto simp: hitl_inv_def run_sound_def)
  from okst(1) r show ?thesis
  proof (cases rule: move_rows)
    case Kept
    then have "ph' \<noteq> Claimed" unfolding ph' by (auto simp: moved_reply_def split: sum.splits if_splits)
    then have "run_sound validate (h_checked s) (view st) (c\<lparr>cn_phase := ph'\<rparr>)" using to by (simp add: run_sound_def)
    with Kept okst h c show ?thesis
      using inv_phase by (simp add: sys_inv_def)
  next
    case (Moved row)
    have sound: "row_sound validate (h_checked s) row" using h Moved(1) by (simp add: hitl_inv_def)
    let ?q = "transition_row now ?t row"
    note q = claim_sound [OF sound to Moved(2)]
    have live: "lives_on row ?q" using to Moved(2) by (rule claim_lives_on)
    have h': "hitl_inv validate (?v(cn_prompt c \<mapsto> ?q)) (h_runs s) (h_checked s)"
      by (rule inv_one_row [OF h Moved(1) live q(1)])
    have "claim_held validate (h_checked s) (cn_owner c) ?q"
      using q to sound Moved(2)
      by (auto simp: claim_held_def transition_row_response assign_def row_sound_def transition_defs
          transition_enabled_def)
    then have "run_sound validate (h_checked s) (view st) (c\<lparr>cn_phase := ph'\<rparr>)"
      using to Moved(3) by (simp add: run_sound_def)
    then show ?thesis
      using inv_phase [of validate "view st" "h_runs s" "h_checked s" k c ph'] h' c okst Moved
        rows_live_on_update [of ?v "cn_prompt c" row ?q] live
      by (simp add: sys_inv_def)
  qed
qed

lemma confirm_call_inv:
  assumes inv: "sys_inv validate s" and c: "h_runs s k = Some c"
    and call: "consume_call ops now (cn_prompt c) (cn_to c) (cn_owner c) Confirming (h_store s) = (ph', st)"
  shows "sys_inv validate (s\<lparr>h_store := st, h_runs := (h_runs s)(k \<mapsto> c\<lparr>cn_phase := ph'\<rparr>)\<rparr>)
       \<and> rows_live_on (view (h_store s)) (view st)"
proof -
  obtain r where r: "op_get ops (h_store s) (cn_prompt c) = (r, st)"
      and ph': "ph' = consume_react (cn_to c) (cn_owner c) Confirming (row_reply r)"
    using call by (auto split: prod.splits)
  have okst: "ok (h_store s)" and h: "hitl_inv validate (view (h_store s)) (h_runs s) (h_checked s)"
    using inv by (auto simp: sys_inv_def)
  have to: "cn_to c = Executing \<or> cn_to c = Done"
    using h c by (auto simp: hitl_inv_def run_sound_def)
  note eff = get_effect [OF okst r]
  have "run_sound validate (h_checked s) (view st) (c\<lparr>cn_phase := ph'\<rparr>)"
  proof (cases "ph' = Claimed")
    case False
    with to show ?thesis by (simp add: run_sound_def)
  next
    case True
    with eff obtain row where row: "view (h_store s) (cn_prompt c) = Some row"
        "ap_owner row = cn_owner c" "ap_status row = cn_to c"
      unfolding ph' by (auto simp: row_reply_def split: sum.splits option.splits if_splits)
    then have "row_sound validate (h_checked s) row" using h by (simp add: hitl_inv_def)
    with row to eff show ?thesis by (auto simp: run_sound_def claim_held_def row_sound_def)
  qed
  then show ?thesis
    using inv_phase [of validate "view st" "h_runs s" "h_checked s" k c ph'] c eff h
    by (simp add: sys_inv_def)
qed

lemma give_up_call_inv:
  assumes inv: "sys_inv validate s" and c: "h_runs s k = Some c"
    and call: "consume_call ops now (cn_prompt c) (cn_to c) (cn_owner c) GivingUp (h_store s) = (ph', st)"
  shows "sys_inv validate (s\<lparr>h_store := st, h_runs := (h_runs s)(k \<mapsto> c\<lparr>cn_phase := ph'\<rparr>)\<rparr>)
       \<and> rows_live_on (view (h_store s)) (view st)"
proof -
  obtain r where r: "op_move ops (h_store s) now (cn_prompt c) (give_up_transition (cn_owner c)) = (r, st)"
      and ph': "ph' = Unconfirmed"
    using call by (auto split: prod.splits)
  have okst: "ok (h_store s)" "ok st" and h: "hitl_inv validate (view (h_store s)) (h_runs s) (h_checked s)"
    using inv move_effect [OF _ r] by (auto simp: sys_inv_def)
  have sound: "run_sound validate (h_checked s) v (c\<lparr>cn_phase := ph'\<rparr>)" for v
    using h c ph' by (auto simp: hitl_inv_def run_sound_def)
  have next_phase: "hitl_inv validate v (h_runs s) (h_checked s) \<Longrightarrow>
      hitl_inv validate v ((h_runs s)(k \<mapsto> c\<lparr>cn_phase := ph'\<rparr>)) (h_checked s)" for v
    using inv_phase [of validate v "h_runs s" "h_checked s" k c ph'] c sound by blast
  from okst(1) r show ?thesis
  proof (cases rule: move_rows)
    case Kept
    with next_phase [OF h] okst show ?thesis by (simp add: sys_inv_def)
  next
    case (Moved row)
    let ?v = "view (h_store s)"
    let ?q = "transition_row now (give_up_transition (cn_owner c)) row"
    have live: "lives_on row ?q"
      using Moved(2) by (rule give_up_lives_on)
    have h': "hitl_inv validate (?v(cn_prompt c \<mapsto> ?q)) (h_runs s) (h_checked s)"
      by (rule inv_one_row [OF h Moved(1) live give_up_sound [OF Moved(2)]])
    show ?thesis
      using next_phase [OF h'] okst Moved rows_live_on_update [of ?v "cn_prompt c" row ?q] live
      by (simp add: sys_inv_def)
  qed
qed
text \<open>A call that leaves the rows alone, or renews a lease, keeps the invariant.\<close>

lemma quiet_call_inv:
  assumes "sys_inv validate s" and "ok st" and "view st = view (h_store s)"
  shows "sys_inv validate (s\<lparr>h_store := st\<rparr>) \<and> rows_live_on (view (h_store s)) (view st)"
  using assms by (simp add: sys_inv_def)

lemma renew_call_inv:
  assumes inv: "sys_inv validate s" and renew: "op_renew ops (h_store s) now i owner until = (r, st)"
  shows "sys_inv validate (s\<lparr>h_store := st\<rparr>) \<and> rows_live_on (view (h_store s)) (view st)"
proof (cases "view st = view (h_store s)")
  case True
  with inv renew_effect [OF _ renew] show ?thesis by (simp add: sys_inv_def)
next
  case False
  have h: "hitl_inv validate (view (h_store s)) (h_runs s) (h_checked s)" and okst: "ok st"
    using inv renew_effect [OF _ renew] by (auto simp: sys_inv_def)
  from False inv renew_effect [OF _ renew] obtain row where row: "view (h_store s) i = Some row"
      "view st = (view (h_store s))(i \<mapsto> row\<lparr>ap_lease := Some until, ap_updated := now\<rparr>)"
    by (auto simp: sys_inv_def write_reply_def renewed_def split: option.splits if_splits)
  let ?q = "row\<lparr>ap_lease := Some until, ap_updated := now\<rparr>"
  have live: "lives_on row ?q"
    by (simp add: lives_on_def same_question_def same_answer_def)
  have "row_sound validate (h_checked s) row" using h row(1) by (simp add: hitl_inv_def)
  then have "row_sound validate (h_checked s) ?q" by (simp add: row_sound_def answered_by_def)
  then have "hitl_inv validate ((view (h_store s))(i \<mapsto> ?q)) (h_runs s) (h_checked s)"
    using inv_one_row [OF h row(1) live] by blast
  then show ?thesis
    using okst row rows_live_on_update [of "view (h_store s)" i row ?q] live by (simp add: sys_inv_def)
qed

lemma move_call_inv:
  assumes inv: "sys_inv validate s"
    and move: "op_move ops (h_store s) now i (move_transition m) = (r, st)" and iss: "move_issued m"
    and ans: "\<And>resp user. move_answer m = Some (resp, user) \<Longrightarrow>
      \<exists>req \<in> set (h_checked s). rr_prompt req = i \<and> rr_response req = resp \<and> rr_user req = user"
  shows "sys_inv validate (s\<lparr>h_store := st\<rparr>) \<and> rows_live_on (view (h_store s)) (view st)"
proof -
  have okst: "ok (h_store s)" "ok st" and h: "hitl_inv validate (view (h_store s)) (h_runs s) (h_checked s)"
    using inv move_effect [OF _ move] by (auto simp: sys_inv_def)
  from okst(1) move show ?thesis
  proof (cases rule: move_rows)
    case Kept
    with inv okst(2) show ?thesis by (simp add: sys_inv_def)
  next
    case (Moved row)
    let ?q = "transition_row now (move_transition m) row"
    have "hitl_inv validate ((view (h_store s))(i \<mapsto> ?q)) (h_runs s) (h_checked s)"
      by (rule inv_moved [OF h Moved(1,2) iss ans])
    moreover have "lives_on row ?q" using iss Moved(2) by (rule move_lives_on)
    ultimately show ?thesis
      using okst Moved rows_live_on_update [of "view (h_store s)" i row ?q] by (simp add: sys_inv_def)
  qed
qed

lemma create_call_inv:
  assumes inv: "sys_inv validate s" and create: "op_create ops (h_store s) now row = (r, st)"
    and new: "ap_id row \<noteq> []" "ap_status row = Pending" "ap_owner row \<noteq> []" "ap_response row = NoBytes"
  shows "sys_inv validate (s\<lparr>h_store := st\<rparr>) \<and> rows_live_on (view (h_store s)) (view st)"
proof -
  have okst: "ok st" and h: "hitl_inv validate (view (h_store s)) (h_runs s) (h_checked s)"
    and eff: "inserted row (view (h_store s)) (view st) \<or> view st = view (h_store s)"
    using inv create_effect [OF _ create new(1)] by (auto simp: sys_inv_def)
  show ?thesis
  proof (cases "view st = view (h_store s)")
    case True
    with inv okst show ?thesis by (simp add: sys_inv_def)
  next
    case False
    with eff have ins: "inserted row (view (h_store s)) (view st)" by blast
    then have live: "rows_live_on (view (h_store s)) (view st)" by (rule rows_live_on_inserted)
    have "hitl_inv validate (view st) (h_runs s) (h_checked s)"
      using row_sound_inserted [OF ins new(2,3,4)] by (rule inv_update [OF h live])
    with okst live show ?thesis by (simp add: sys_inv_def)
  qed
qed

lemma claiming_inv:
  assumes inv: "sys_inv validate s" and c: "h_runs s k = Some c"
    and call: "consume_call ops now (cn_prompt c) (cn_to c) (cn_owner c) (cn_phase c) (h_store s) = (ph, st)"
  shows "sys_inv validate (s\<lparr>h_store := st, h_runs := (h_runs s)(k \<mapsto> c\<lparr>cn_phase := ph\<rparr>)\<rparr>)
       \<and> rows_live_on (view (h_store s)) (view st)"
proof (cases "cn_phase c")
  case (Trying n)
  with call claim_call_inv [OF inv c] show ?thesis by simp
next
  case Confirming
  with call confirm_call_inv [OF inv c] show ?thesis by simp
next
  case GivingUp
  with call give_up_call_inv [OF inv c] show ?thesis by simp
qed (use call inv c in \<open>auto simp: fun_upd_idem\<close>)

lemma hitl_step_inv:
  assumes "hitl_step ops validate s s'" and inv: "sys_inv validate s"
  shows "sys_inv validate s' \<and> rows_live_on (view (h_store s)) (view (h_store s'))"
  using assms(1)
proof cases
  case (raised now row r st)
  then show ?thesis using create_call_inv [OF inv] by simp
next
  case (checked req found st)
  have okst: "ok (h_store s)" and h: "hitl_inv validate (view (h_store s)) (h_runs s) (h_checked s)"
    using inv by (auto simp: sys_inv_def)
  note eff = get_effect [OF okst checked(2)]
  then have "refuse_answer validate req (view (h_store s) (rr_prompt req)) = None"
    using checked(3) by auto
  from inv_checked [OF h this] eff show ?thesis by (simp add: checked(1) sys_inv_def)
next
  case (moved now pid m r st)
  then show ?thesis using move_call_inv [OF inv moved(2,3)] by simp
next
  case (renewed now pid owner until r st)
  then show ?thesis using renew_call_inv [OF inv] by simp
next
  case (looked pid g st)
  then show ?thesis using get_effect [of "h_store s" pid g st] inv quiet_call_inv [OF inv] by (simp add: sys_inv_def)
next
  case (run_saved now run u st)
  then show ?thesis using save_run_effect [of "h_store s" now run u st] inv by (simp add: sys_inv_def)
next
  case (run_read m x st)
  then show ?thesis using get_run_effect [of "h_store s" m x st] inv by (simp add: sys_inv_def)
next
  case (run_dropped m pid u st)
  then show ?thesis using delete_run_effect [of "h_store s" m pid u st] inv by (simp add: sys_inv_def)
next
  case (started k c)
  then show ?thesis
    using inv inv_started [of validate "view (h_store s)" "h_runs s" "h_checked s" k c]
    by (simp add: sys_inv_def)
next
  case (claiming k c now ph st)
  then show ?thesis using claiming_inv [OF inv] by simp
qed

lemma hitl_steps_inv:
  assumes "(hitl_step ops validate)\<^sup>*\<^sup>* s s'" and "sys_inv validate s"
  shows "sys_inv validate s' \<and> rows_live_on (view (h_store s)) (view (h_store s'))"
  using assms
proof (induction rule: rtranclp_induct)
  case (step y z)
  then show ?case using hitl_step_inv [of validate y z] rows_live_on_trans by blast
qed simp

text \<open>From an empty store everything that is reached satisfies the invariant.\<close>

lemma reachable_inv:
  assumes "ok st" and "view st = Map.empty" and "(hitl_step ops validate)\<^sup>*\<^sup>* (hitl_start st) s"
  shows "sys_inv validate s"
  using hitl_steps_inv [OF assms(3)] assms(1,2)
  by (simp add: sys_inv_def hitl_start_def hitl_inv_def tokens_distinct_def)

lemma claimed_run:
  assumes "sys_inv validate s" and "h_runs s k = Some c" and "cn_phase c = Claimed"
  obtains row where "view (h_store s) (cn_prompt c) = Some row"
    and "claim_held validate (h_checked s) (cn_owner c) row"
  using assms that unfolding sys_inv_def hitl_inv_def run_sound_def by blast

lemma one_claim:
  assumes inv: "sys_inv validate s" and "h_runs s k = Some c" "cn_phase c = Claimed"
    and "h_runs s k' = Some c'" "cn_phase c' = Claimed" "cn_prompt c' = cn_prompt c"
  shows "k' = k"
proof -
  obtain row where "view (h_store s) (cn_prompt c) = Some row" "claim_held validate (h_checked s) (cn_owner c) row"
    using inv assms(2,3) by (rule claimed_run)
  moreover obtain row' where "view (h_store s) (cn_prompt c') = Some row'"
      "claim_held validate (h_checked s) (cn_owner c') row'"
    using inv assms(4,5) by (rule claimed_run)
  ultimately have "cn_owner c' = cn_owner c" "cn_owner c' \<noteq> []" using assms(6) by (auto simp: claim_held_def)
  then show ?thesis
    using inv assms(2,4) unfolding sys_inv_def hitl_inv_def tokens_distinct_def by blast
qed
end

section \<open>Claims about the database\<close>

text \<open>
  A run of the system, for the witnesses: a prompt is raised and answered; the database commits
  the claim of its run but loses the reply, and the retry reads the row back.
\<close>

definition example_validators :: validators where
  "example_validators kind = (if kind = ''tool_approval'' then Some (\<lambda>request response. response \<noteq> NoBytes) else None)"

definition example_request :: resolve_request where
  "example_request = \<lparr>rr_tenant = 7, rr_user = ''u'', rr_session = ''s'', rr_kind = [], rr_prompt = ''p'',
     rr_response = Doc (JBool True)\<rparr>"

definition example_run :: consumer where
  "example_run = \<lparr>cn_prompt = ''p'', cn_to = Executing, cn_owner = ''o'', cn_phase = Trying 0\<rparr>"

definition example_table :: prompt_table where
  "example_table = \<lparr>pt_rows = [], pt_runs = [], pt_faults = [Fine, Fine, Fine, ReplyLost]\<rparr>"

definition example_answered :: prompt_table where
  "example_answered =
     snd (repo_transition (snd (repo_get (snd (repo_create example_table 5 (example_row ''p''))) ''p'')) 9 ''p''
           (move_transition (AnswerMove (Doc (JBool True)) ''u'' 9)))"

fun example_claim :: "nat \<Rightarrow> consume_phase \<times> prompt_table" where
  "example_claim 0 = (Trying 0, example_answered)"
| "example_claim (Suc n) =
     (case example_claim n of (ph, st) \<Rightarrow> consume_call repo_ops 9 ''p'' Executing ''o'' ph st)"

definition example_system :: "nat \<Rightarrow> prompt_table hitl" where
  "example_system n =
     \<lparr>h_store = snd (example_claim n),
      h_runs = (\<lambda>_. None)(0 \<mapsto> example_run\<lparr>cn_phase := fst (example_claim n)\<rparr>),
      h_checked = [example_request]\<rparr>"

lemma example_claimed: "fst (example_claim 3) = Claimed"
  by code_simp

lemma example_claim_step: "hitl_step repo_ops example_validators (example_system n) (example_system (Suc n))"
proof -
  obtain ph st where now: "example_claim n = (ph, st)" by fastforce
  obtain ph' st' where then_: "consume_call repo_ops 9 ''p'' Executing ''o'' ph st = (ph', st')" by fastforce
  have "hitl_step repo_ops example_validators (example_system n)
      ((example_system n)\<lparr>h_store := st', h_runs := (h_runs (example_system n))(0 \<mapsto>
         (example_run\<lparr>cn_phase := ph\<rparr>)\<lparr>cn_phase := ph'\<rparr>)\<rparr>)"
    by (rule hitl_step.claiming [where now = 9])
      (use now then_ in \<open>simp_all add: example_system_def example_run_def\<close>)
  moreover have "(example_system n)\<lparr>h_store := st', h_runs := (h_runs (example_system n))(0 \<mapsto>
      (example_run\<lparr>cn_phase := ph\<rparr>)\<lparr>cn_phase := ph'\<rparr>)\<rparr> = example_system (Suc n)"
    using now then_ by (simp add: example_system_def)
  ultimately show ?thesis by simp
qed

lemma example_reached:
  "(hitl_step repo_ops example_validators)\<^sup>*\<^sup>* (hitl_start example_table) (example_system n)"
proof (induction n)
  case 0
  let ?a = "snd (repo_create example_table 5 (example_row ''p''))"
  let ?b = "snd (repo_get ?a ''p'')"
  let ?s1 = "(hitl_start example_table)\<lparr>h_store := ?a\<rparr>"
  let ?s2 = "?s1\<lparr>h_store := ?b, h_checked := example_request # h_checked ?s1\<rparr>"
  let ?s3 = "?s2\<lparr>h_store := example_answered\<rparr>"
  have 1: "hitl_step repo_ops example_validators (hitl_start example_table) ?s1"
    by (rule hitl_step.raised [where now = 5 and row = "example_row ''p''" and
          r = "fst (repo_create example_table 5 (example_row ''p''))"])
      (simp_all add: repo_ops_def hitl_start_def example_row_def)
  let ?found = "(example_row ''p'')\<lparr>ap_created := 5, ap_updated := 5\<rparr>"
  have "repo_get ?a ''p'' = (Inr (Some ?found), ?b)"
    by (simp add: repo_get_def repo_create_def example_table_def find_row_def statement_def
        example_row_def stamp_def)
  then have got: "op_get repo_ops (h_store ?s1) (rr_prompt example_request) = (Inr (Some ?found), ?b)"
    by (simp add: repo_ops_def example_request_def)
  have "refuse_answer example_validators example_request (Some ?found) = None"
    by code_simp
  with got have 2: "hitl_step repo_ops example_validators ?s1 ?s2"
    by (rule hitl_step.checked)
  have 3: "hitl_step repo_ops example_validators ?s2 ?s3"
    by (rule hitl_step.moved [where now = 9 and pid = "''p''" and m = "AnswerMove (Doc (JBool True)) ''u'' 9"
          and r = "fst (repo_transition ?b 9 ''p'' (move_transition (AnswerMove (Doc (JBool True)) ''u'' 9)))"])
      (simp_all add: repo_ops_def example_answered_def example_request_def)
  have 4: "hitl_step repo_ops example_validators ?s3 (?s3\<lparr>h_runs := (h_runs ?s3)(0 \<mapsto> example_run)\<rparr>)"
    by (rule hitl_step.started) (simp_all add: hitl_start_def example_run_def token_unused_def)
  have "?s3\<lparr>h_runs := (h_runs ?s3)(0 \<mapsto> example_run)\<rparr> = example_system 0"
    by (simp add: hitl_start_def example_system_def example_run_def)
  with 1 2 3 4 show ?case by (metis (no_types, lifting) rtranclp.simps)
next
  case (Suc n)
  then show ?case using example_claim_step [of n] by (rule rtranclp.rtrancl_into_rtrancl)
qed
lemma empty_rows_view: "pt_rows st = [] \<Longrightarrow> find_row st = Map.empty"
  by (simp add: fun_eq_iff find_row_def)

lemma reached_inv:
  assumes "repo_ok st" and "pt_rows st = []" and "(hitl_step repo_ops validate)\<^sup>*\<^sup>* (hitl_start st) s"
  shows "database.sys_inv validate s"
  using database.reachable_inv [OF assms(1) _ assms(3)] assms(2) by (simp add: empty_rows_view)



text \<open>
  C7. A prompt's life moves forward only. From any state the system reaches, whatever it does
  next, a prompt that exists stays, its question (kind, request, session, workspace, user)
  never changes, its status never falls back to an earlier stage or to another status of the
  same stage, and once it is answered the answer, who gave it, when, and the token of the run
  that may act on it are fixed.
\<close>

theorem prompt_lives_forward:
  assumes "repo_ok st" and "pt_rows st = []"
    and "(hitl_step repo_ops validate)\<^sup>*\<^sup>* (hitl_start st) s"
    and "(hitl_step repo_ops validate)\<^sup>*\<^sup>* s s'" and "find_row (h_store s) i = Some row"
  shows "\<exists>row'. find_row (h_store s') i = Some row' \<and> lives_on row row'"
  using database.hitl_steps_inv [OF assms(4) reached_inv [OF assms(1-3)]] assms(5)
  unfolding rows_live_on_def by blast

lemma example_steps: "m \<le> n \<Longrightarrow> (hitl_step repo_ops example_validators)\<^sup>*\<^sup>* (example_system m) (example_system n)"
proof (induction n)
  case (Suc n)
  show ?case
  proof (cases "m = Suc n")
    case False
    with Suc have "(hitl_step repo_ops example_validators)\<^sup>*\<^sup>* (example_system m) (example_system n)" by simp
    moreover have "hitl_step repo_ops example_validators (example_system n) (example_system (Suc n))"
      by (rule example_claim_step)
    ultimately show ?thesis by (rule rtranclp.rtrancl_into_rtrancl)
  qed simp
qed simp

lemma prompt_lives_forward_witness:
  "\<exists>row row'. find_row (h_store (example_system 0)) ''p'' = Some row
     \<and> find_row (h_store (example_system 3)) ''p'' = Some row' \<and> lives_on row row'
     \<and> ap_status row = Answered \<and> ap_status row' = Executing"
proof -
  obtain row where row: "find_row (h_store (example_system 0)) ''p'' = Some row" "ap_status row = Answered"
  proof (rule that)
    show "find_row (h_store (example_system 0)) ''p'' = Some (the (find_row example_answered ''p''))"
      unfolding example_system_def by code_simp
    show "ap_status (the (find_row example_answered ''p'')) = Answered" by code_simp
  qed
  have "ap_status (the (find_row (h_store (example_system 3)) ''p'')) = Executing"
    unfolding example_system_def by code_simp
  moreover have "\<exists>row'. find_row (h_store (example_system 3)) ''p'' = Some row' \<and> lives_on row row'"
    by (rule prompt_lives_forward [OF _ _ example_reached example_steps row(1)])
      (simp_all add: example_table_def repo_ok_def)
  ultimately show ?thesis using row by auto
qed

text \<open>
  C3. No run acts on an answer nobody was entitled to give. A run whose claim succeeded holds a
  prompt with an answer that passed the checks of Resolve: it came from the prompt's workspace,
  from the prompt's user when it has one, and the validator of its kind accepted it for this
  request; the row still names that user and that answer.
\<close>

theorem claimed_call_was_answered:
  assumes "repo_ok st" and "pt_rows st = []"
    and "(hitl_step repo_ops validate)\<^sup>*\<^sup>* (hitl_start st) s"
    and "h_runs s k = Some c" and "cn_phase c = Claimed"
  shows "\<exists>row. find_row (h_store s) (cn_prompt c) = Some row
       \<and> claim_held validate (h_checked s) (cn_owner c) row"
  using reached_inv [OF assms(1-3)] assms(4,5) by (rule database.claimed_run) blast

lemma claimed_call_was_answered_witness:
  "\<exists>row. find_row (h_store (example_system 3)) ''p'' = Some row
     \<and> claim_held example_validators [example_request] ''o'' row"
proof -
  have "\<exists>row. find_row (h_store (example_system 3)) (cn_prompt (example_run\<lparr>cn_phase := Claimed\<rparr>)) = Some row
     \<and> claim_held example_validators (h_checked (example_system 3)) (cn_owner (example_run\<lparr>cn_phase := Claimed\<rparr>)) row"
    by (rule claimed_call_was_answered [OF _ _ example_reached, of _ 0])
      (use example_claimed in \<open>simp_all add: example_table_def repo_ok_def example_system_def\<close>)
  then show ?thesis by (simp add: example_system_def example_run_def)
qed
end
