(* ===== verification/PromptWait.thy ===== *)
theory PromptWait
  imports PromptLife
begin

text \<open>
  What a waiter, the user who answers and the reaper are told, one call of the broker at a
  time. The locale \<open>reliable_store\<close> extends the store's contract by a condition under which no
  call fails; the in-memory store always meets it, the database while its script of faults is
  empty. The checks of an answer and the fences of the reaper need no such condition.
\<close>

section \<open>A store that does not fail\<close>

locale reliable_store = prompt_store ops view runs ok
  for ops :: "'s prompt_ops" and view :: "'s \<Rightarrow> prompt_rows" and runs :: "'s \<Rightarrow> saved_runs"
    and ok :: "'s \<Rightarrow> bool" +
  fixes sure :: "'s \<Rightarrow> bool"
  assumes sure_get: "sure s \<Longrightarrow> op_get ops s i = (g, s') \<Longrightarrow> sure s' \<and> g \<noteq> Inl ()"
    and sure_move: "sure s \<Longrightarrow> op_move ops s now i t = (b, s') \<Longrightarrow> \<not> bad_transition t \<Longrightarrow>
          sure s' \<and> b \<noteq> Inl ()"
    and sure_renew: "sure s \<Longrightarrow> op_renew ops s now i owner until = (b, s') \<Longrightarrow> sure s' \<and> b \<noteq> Inl ()"
    and sure_stale: "sure s \<Longrightarrow> op_stale ops s statuses before limit = (xs, s') \<Longrightarrow> sure s' \<and> xs \<noteq> Inl ()"
    and sure_expired: "sure s \<Longrightarrow> op_expired ops s before limit = (xs, s') \<Longrightarrow> sure s' \<and> xs \<noteq> Inl ()"
    and sure_get_run: "sure s \<Longrightarrow> op_get_run ops s m = (u, s') \<Longrightarrow> sure s' \<and> u \<noteq> Inl ()"
    and sure_delete_run: "sure s \<Longrightarrow> op_delete_run ops s m p = (r, s') \<Longrightarrow> sure s'"
begin

lemma get_sure:
  assumes "ok s" and "sure s" and "op_get ops s i = (g, s')"
  shows "g = Inr (view s i) \<and> ok s' \<and> sure s' \<and> view s' = view s"
  using get_effect [OF assms(1,3)] sure_get [OF assms(2,3)] by auto

lemma move_sure:
  assumes "ok s" and "sure s" and "op_move ops s now i t = (b, s')" and "\<not> bad_transition t"
  shows "ok s' \<and> sure s' \<and>
     (case view s i of
        Some row \<Rightarrow> if transition_enabled row t
                    then b = Inr True \<and> view s' = (view s)(i \<mapsto> transition_row now t row)
                    else b = Inr False \<and> view s' = view s
      | None \<Rightarrow> b = Inr False \<and> view s' = view s)"
proof -
  have b: "b \<noteq> Inl ()" and "sure s'" using sure_move [OF assms(2,3,4)] by auto
  have "ok s'" and w: "write_reply (cas now i t (view s)) (view s) b (view s')"
    using move_effect [OF assms(1,3)] by auto
  from write_reply_certain [OF w b] \<open>ok s'\<close> \<open>sure s'\<close> assms(4) show ?thesis
    by (auto simp: cas_def split: option.splits)
qed

end

lemma not_bad_transition [simp]:
  "status \<noteq> OtherStatus [] \<Longrightarrow> \<not> bad_transition (close_transition owner status reason)"
  "\<not> bad_transition (suspend_transition owner expires)"
  "\<not> bad_transition (orphan_expire_transition owner now)"
  "\<not> bad_transition (orphan_suspend_transition owner now expires)"
  "froms \<noteq> [] \<Longrightarrow> to \<noteq> OtherStatus [] \<Longrightarrow> \<not> bad_transition (close_run_transition froms to reason stale)"
  by (auto simp: bad_transition_def transition_defs Let_def split: option.splits prod.splits)

section \<open>What a waiter reports\<close>

text \<open>The outcome of a wait speaks of the row it ended on.\<close>

definition outcome_reports :: "string \<Rightarrow> agent_prompt \<Rightarrow> outcome \<Rightarrow> bool" where
  "outcome_reports owner row out \<longleftrightarrow>
     ap_status row \<noteq> Pending \<and> ap_id (oc_prompt out) = ap_id row
   \<and> oc_detached out = (ap_owner row \<noteq> owner)
   \<and> oc_suspended out = (ap_owner row \<noteq> owner \<or> ap_status row = Suspended)
   \<and> (ap_owner row = owner \<longrightarrow>
        oc_answered out = (ap_status row = Answered)
      \<and> oc_timed_out out = (ap_status row = Expired)
      \<and> oc_canceled out = (ap_status row = Canceled)
      \<and> (ap_status row = Answered \<longrightarrow> oc_prompt out = row))
   \<and> (ap_owner row \<noteq> owner \<longrightarrow> \<not> oc_answered out)"

lemma closed_row_reports: "closed_row row owner = Some out \<Longrightarrow> outcome_reports owner row out"
  by (auto simp: closed_row_def outcome_reports_def plain_outcome_def split: if_splits)

lemma closed_row_open: "ap_status row \<noteq> Pending \<Longrightarrow> \<exists>out. closed_row row owner = Some out"
  by (simp add: closed_row_def)

text \<open>
  The wait is sane while its prompt exists and is pending under its own token only; what other
  replicas do keeps that.
\<close>

context reliable_store
begin

definition wait_ok :: "string \<Rightarrow> string \<Rightarrow> 's \<Rightarrow> bool" where
  "wait_ok pid owner s \<longleftrightarrow>
     ok s \<and> sure s
   \<and> (\<exists>row. view s pid = Some row \<and> (ap_status row = Pending \<longrightarrow> ap_owner row = owner))"

definition reports :: "string \<Rightarrow> string \<Rightarrow> 's \<Rightarrow> outcome \<Rightarrow> bool" where
  "reports pid owner s out \<longleftrightarrow> (\<exists>row. view s pid = Some row \<and> outcome_reports owner row out)"

lemma closed_reports:
  assumes "wait_ok pid owner s" and "closed ops s pid owner = (r, s')"
  shows "wait_ok pid owner s' \<and> (case r of Some out \<Rightarrow> reports pid owner s' out | None \<Rightarrow> True)
       \<and> (r = None \<longrightarrow> (\<exists>row. view s pid = Some row \<and> ap_status row = Pending)) \<and> view s' = view s"
proof -
  obtain g s1 where g: "op_get ops s pid = (g, s1)" by fastforce
  obtain row where row: "view s pid = Some row" using assms(1) by (auto simp: wait_ok_def)
  have "g = Inr (Some row) \<and> ok s1 \<and> sure s1 \<and> view s1 = view s"
    using get_sure [OF _ _ g] assms(1) row by (simp add: wait_ok_def)
  then have "r = closed_row row owner" "s' = s1" "view s' = view s" "ok s'" "sure s'"
    using assms(2) g by (auto simp: closed_def)
  with assms(1) row show ?thesis
    using closed_row_reports [of row owner] closed_row_open [of row owner]
    by (cases "ap_status row = Pending") (auto simp: wait_ok_def reports_def split: option.splits)
qed

lemma close_as_owner_reports:
  assumes w: "wait_ok pid owner s" and status: "status = Expired \<or> status = Canceled"
    and close: "close_as_owner ops s now pid owner status reason = (out, s')"
  shows "reports pid owner s' out"
proof -
  let ?t = "close_transition owner status reason"
  obtain b s1 where b: "op_move ops s now pid ?t = (b, s1)" by fastforce
  obtain row where row: "view s pid = Some row" "ap_status row = Pending \<longrightarrow> ap_owner row = owner"
    using w by (auto simp: wait_ok_def)
  have nb: "\<not> bad_transition ?t" using status by auto
  have id: "ap_id row = pid" using view_id w row(1) by (auto simp: wait_ok_def)
  have m: "ok s1" "sure s1" "if transition_enabled row ?t
        then b = Inr True \<and> view s1 = (view s)(pid \<mapsto> transition_row now ?t row)
        else b = Inr False \<and> view s1 = view s"
    using move_sure [OF _ _ b nb] w row(1) by (auto simp: wait_ok_def)
  have on: "transition_enabled row ?t \<longleftrightarrow> ap_status row = Pending"
    using row(2) by (auto simp: transition_enabled_def transition_defs)
  show ?thesis
  proof (cases "ap_status row = Pending")
    case True
    with m(3) on have "moved_ok b" "view s1 pid = Some (transition_row now ?t row)"
      by (auto simp: moved_ok_def)
    moreover from this close b have "s' = s1"
      and out: "out = (plain_outcome ((blank_prompt pid status)\<lparr>ap_close_reason := reason\<rparr>))
         \<lparr>oc_timed_out := (status = Expired), oc_canceled := (status = Canceled), oc_reason := reason\<rparr>"
      by (auto simp: close_as_owner_def Let_def)
    ultimately show ?thesis
      using status True row(2) id
      by (auto simp: reports_def outcome_reports_def out plain_outcome_def blank_prompt_def
          transition_row_def transition_defs assign_def)
  next
    case False
    with m(3) on have "\<not> moved_ok b" and same: "view s1 = view s" by (auto simp: moved_ok_def)
    obtain r s2 where r: "closed ops s1 pid owner = (r, s2)" by fastforce
    have w1: "wait_ok pid owner s1" using m row same by (simp add: wait_ok_def)
    from closed_reports [OF w1 r] False row(1) same have "r \<noteq> None" by auto
    then obtain out' where "r = Some out'" by blast
    with \<open>\<not> moved_ok b\<close> close b r have "out = out'" "s' = s2"
      by (auto simp: close_as_owner_def Let_def)
    with closed_reports [OF w1 r] \<open>r = Some out'\<close> show ?thesis by simp
  qed
qed

lemma suspend_reports:
  assumes w: "wait_ok pid owner s" and sus: "suspend_prompt ops cfg s now pid owner = (out, s')"
  shows "reports pid owner s' out"
proof -
  let ?t = "suspend_transition owner (expires_at cfg now)"
  obtain b s1 where b: "op_move ops s now pid ?t = (b, s1)" by fastforce
  obtain row where row: "view s pid = Some row" "ap_status row = Pending \<longrightarrow> ap_owner row = owner"
    using w by (auto simp: wait_ok_def)
  have id: "ap_id row = pid" using view_id w row(1) by (auto simp: wait_ok_def)
  have m: "ok s1" "sure s1" "if transition_enabled row ?t
        then b = Inr True \<and> view s1 = (view s)(pid \<mapsto> transition_row now ?t row)
        else b = Inr False \<and> view s1 = view s"
    using move_sure [OF _ _ b] w row(1) by (auto simp: wait_ok_def)
  have on: "transition_enabled row ?t \<longleftrightarrow> ap_status row = Pending"
    using row(2) by (auto simp: transition_enabled_def transition_defs)
  show ?thesis
  proof (cases "ap_status row = Pending")
    case True
    with m(3) on have "moved_ok b" "view s1 pid = Some (transition_row now ?t row)"
      by (auto simp: moved_ok_def)
    moreover from this sus b have "s' = s1"
      and out: "out = (plain_outcome ((blank_prompt pid Suspended)\<lparr>ap_expires := expires_at cfg now\<rparr>))
         \<lparr>oc_suspended := True, oc_expires := expires_at cfg now\<rparr>"
      by (auto simp: suspend_prompt_def Let_def)
    ultimately show ?thesis
      using True row(2) id
      by (auto simp: reports_def outcome_reports_def out plain_outcome_def blank_prompt_def
          transition_row_def transition_defs assign_def)
  next
    case False
    with m(3) on have "\<not> moved_ok b" and same: "view s1 = view s" by (auto simp: moved_ok_def)
    obtain r s2 where r: "closed ops s1 pid owner = (r, s2)" by fastforce
    have w1: "wait_ok pid owner s1" using m row same by (simp add: wait_ok_def)
    from closed_reports [OF w1 r] False row(1) same have "r \<noteq> None" by auto
    then obtain out' where "r = Some out'" by blast
    with \<open>\<not> moved_ok b\<close> sus b r have "out = out'" "s' = s2"
      by (auto simp: suspend_prompt_def Let_def)
    with closed_reports [OF w1 r] \<open>r = Some out'\<close> show ?thesis by simp
  qed
qed

lemma renew_wait_ok:
  assumes w: "wait_ok pid owner s" and renew: "op_renew ops s now pid owner until = (b, s')"
  shows "wait_ok pid owner s'"
proof -
  have okst: "ok s" "sure s" using w by (auto simp: wait_ok_def)
  have "view s' = view s \<or> (\<exists>row. view s pid = Some row \<and>
      view s' = (view s)(pid \<mapsto> row\<lparr>ap_lease := Some until, ap_updated := now\<rparr>))"
    using renew_effect [OF okst(1) renew]
    by (auto simp: write_reply_def renewed_def split: option.splits if_splits)
  then show ?thesis
    using w renew_effect [OF okst(1) renew] sure_renew [OF okst(2) renew] by (auto simp: wait_ok_def)
qed

lemma wait_step_reports:
  assumes w: "wait_ok pid owner s"
    and env: "\<And>f s. e = Elsewhere f \<Longrightarrow> wait_ok pid owner s \<Longrightarrow> wait_ok pid owner (f s)"
    and step: "wait_step ops cfg suspendable timeout_reason pid owner e s = (r, s')"
  shows "case r of Some out \<Rightarrow> reports pid owner s' out | None \<Rightarrow> wait_ok pid owner s'"
proof (cases e)
  case (Renew now)
  with step have "r = None" "s' = snd (op_renew ops s now pid owner (now + bc_lease_ttl cfg))" by auto
  with renew_wait_ok [OF w, of now "now + bc_lease_ttl cfg"] show ?thesis
    by (cases "op_renew ops s now pid owner (now + bc_lease_ttl cfg)") simp
next
  case (TimerFires now)
  with step suspend_reports [OF w, of cfg now] close_as_owner_reports [OF w, of Expired now timeout_reason]
  show ?thesis by (auto split: prod.splits if_splits)
next
  case (Stopped now)
  with step close_as_owner_reports [OF w, of Canceled now "''request canceled''"]
  show ?thesis by (auto split: prod.splits)
qed (use w step env closed_reports [OF w] in \<open>auto split: option.splits\<close>)

lemma wait_loop_reports:
  assumes "wait_ok pid owner s"
    and "\<And>f s. Elsewhere f \<in> set events \<Longrightarrow> wait_ok pid owner s \<Longrightarrow> wait_ok pid owner (f s)"
    and "wait_loop ops cfg suspendable timeout_reason pid owner events s = (Some out, s')"
  shows "reports pid owner s' out"
  using assms
proof (induction events arbitrary: s)
  case (Cons e es)
  obtain r s1 where r: "wait_step ops cfg suspendable timeout_reason pid owner e s = (r, s1)" by fastforce
  have step: "case r of Some out \<Rightarrow> reports pid owner s1 out | None \<Rightarrow> wait_ok pid owner s1"
    using wait_step_reports [OF Cons.prems(1) _ r] Cons.prems(2) by auto
  show ?case
  proof (cases r)
    case None
    with Cons r step show ?thesis by simp
  next
    case (Some out')
    with Cons.prems(3) r step show ?thesis by simp
  qed
qed simp

end

section \<open>Both stores are reliable\<close>

lemma memory_reliable: "reliable_store memory_ops mem_view mem_runs mem_ok (\<lambda>_. True)"
  by unfold_locales
    (auto simp: memory_ops_def mem_get_def mem_transition_def mem_renew_def mem_stale_def mem_expired_def
      mem_get_run_def mem_delete_run_def split: option.splits if_splits)

interpretation memory: reliable_store memory_ops mem_view mem_runs mem_ok "\<lambda>_. True"
  by (rule memory_reliable)

definition repo_sure :: "prompt_table \<Rightarrow> bool" where
  "repo_sure s \<longleftrightarrow> pt_faults s = []"

lemma repo_sure_updates [simp]:
  "repo_sure (s\<lparr>pt_rows := x\<rparr>) = repo_sure s" "repo_sure (s\<lparr>pt_runs := y\<rparr>) = repo_sure s"
  by (simp_all add: repo_sure_def)

lemma statement_sure: "repo_sure s \<Longrightarrow> statement s r after = (Inr r, after)"
  by (simp add: repo_sure_def healthy_statement)

lemma repo_reliable: "reliable_store repo_ops find_row find_run repo_ok repo_sure"
  by unfold_locales
    (auto simp: repo_ops_def repo_get_def repo_transition_def repo_renew_def repo_stale_def
      repo_expired_def repo_get_run_def repo_delete_run_def update_where_def statement_sure)

interpretation database: reliable_store repo_ops find_row find_run repo_ok repo_sure
  by (rule repo_reliable)

definition waiting :: "string \<Rightarrow> string \<Rightarrow> prompt_table \<Rightarrow> bool" where
  "waiting pid owner s \<longleftrightarrow>
     repo_ok s \<and> pt_faults s = []
   \<and> (\<exists>row. find_row s pid = Some row \<and> (ap_status row = Pending \<longrightarrow> ap_owner row = owner))"

lemma waiting_wait_ok: "waiting pid owner = database.wait_ok pid owner"
  by (simp add: fun_eq_iff waiting_def database.wait_ok_def repo_sure_def)

text \<open>Moves that other replicas make leave the wait sane: only the owner's token is ever pending.\<close>

lemma move_keeps_waiting:
  assumes "waiting pid owner s" and "\<not> bad_transition t" and "tr_to t \<noteq> Pending"
    and "repo_transition s now i t = (b, s')"
  shows "waiting pid owner s'"
proof -
  have ok: "repo_ok s" "repo_sure s" using assms(1) by (simp_all add: waiting_def repo_sure_def)
  have "op_move repo_ops s now i t = (b, s')" using assms(4) by (simp add: repo_ops_def)
  from database.move_sure [OF ok this assms(2)] assms(1,3) show ?thesis
    by (auto simp: waiting_def repo_sure_def split: option.splits if_splits)
qed

text \<open>
  C6. No answer is lost to a timeout, a stop or a lost wake-up. Wherever other replicas act
  between the events of a wait, the outcome the wait returns on a working database is the state
  of its row at that moment: answered, with the stored response, exactly if the row is
  answered under the waiter's token; suspended, timed out or canceled exactly if the row is;
  and never answered once another run has taken the prompt over.
\<close>

theorem wait_reports_row:
  assumes "waiting pid owner s"
    and "\<And>f u. Elsewhere f \<in> set events \<Longrightarrow> waiting pid owner u \<Longrightarrow> waiting pid owner (f u)"
    and "wait_loop repo_ops cfg suspendable timeout_reason pid owner events s = (Some out, s')"
  shows "\<exists>row. find_row s' pid = Some row \<and> outcome_reports owner row out"
  using database.wait_loop_reports [of pid owner s events cfg suspendable timeout_reason out s'] assms
  unfolding database.reports_def waiting_wait_ok by blast

definition example_answer_now :: "prompt_table \<Rightarrow> prompt_table" where
  "example_answer_now s =
     snd (repo_transition s 9 ''p'' (answer_transition Pending (Doc (JBool True)) ''u'' 9))"

definition example_wait :: "outcome option \<times> prompt_table" where
  "example_wait =
     wait_loop repo_ops \<lparr>bc_lease_ttl = 30, bc_suspend_expiry = 0\<rparr> True ''late'' ''p'' ''o''
       [Renew 6, Elsewhere example_answer_now, TimerFires 20]
       \<lparr>pt_rows = [example_row ''p''], pt_runs = [], pt_faults = []\<rparr>"

lemma wait_reports_row_witness:
  "\<exists>out row. fst example_wait = Some out \<and> oc_answered out
     \<and> find_row (snd example_wait) ''p'' = Some row \<and> outcome_reports ''o'' row out"
proof -
  have "map_option oc_answered (fst example_wait) = Some True" by code_simp
  then obtain out where out: "fst example_wait = Some out" "oc_answered out" by auto
  have keep: "waiting ''p'' ''o'' (example_answer_now u)" if "waiting ''p'' ''o'' u" for u
    unfolding example_answer_now_def
    by (rule move_keeps_waiting [OF that, of "answer_transition Pending (Doc (JBool True)) ''u'' 9" 9 "''p''"
          "fst (repo_transition u 9 ''p'' (answer_transition Pending (Doc (JBool True)) ''u'' 9))"])
      (simp_all add: bad_transition_def transition_defs)
  have "\<exists>row. find_row (snd example_wait) ''p'' = Some row \<and> outcome_reports ''o'' row out"
  proof (rule wait_reports_row)
    show "waiting ''p'' ''o'' \<lparr>pt_rows = [example_row ''p''], pt_runs = [], pt_faults = []\<rparr>"
      by (simp add: waiting_def repo_ok_def find_row_def example_row_def)
    show "wait_loop repo_ops \<lparr>bc_lease_ttl = 30, bc_suspend_expiry = 0\<rparr> True ''late'' ''p'' ''o''
        [Renew 6, Elsewhere example_answer_now, TimerFires 20]
        \<lparr>pt_rows = [example_row ''p''], pt_runs = [], pt_faults = []\<rparr> = (Some out, snd example_wait)"
      using out(1) by (metis example_wait_def prod.collapse)
  qed (use keep in auto)
  with out show ?thesis by blast
qed

section \<open>Who may answer\<close>


definition orphan_transition :: "transition \<Rightarrow> string \<Rightarrow> instant \<Rightarrow> bool" where
  "orphan_transition t owner now \<longleftrightarrow>
     t = orphan_expire_transition owner now \<or> (\<exists>e. t = orphan_suspend_transition owner now e)"

lemma orphan_transition_row:
  assumes "orphan_transition t owner now" and "transition_enabled row t"
  shows "ap_status row = Pending" and "ap_owner row = owner" and "lease_lapsed row now"
    and "ap_response (transition_row at_time t row) = ap_response row"
  using assms by (auto simp: orphan_transition_def transition_defs transition_enabled_def lease_lapsed_def
      transition_row_response split: option.splits)

context prompt_store
begin

lemma run_state_effect:
  assumes "ok s" and "run_state ops s row = (r, s')"
  shows "ok s' \<and> view s' = view s \<and> runs s' = runs s"
proof (cases "\<not> ap_suspendable row \<or> ap_message row = []")
  case True
  with assms show ?thesis by (auto simp: run_state_def)
next
  case False
  obtain u s1 where u: "op_get_run ops s (ap_message row) = (u, s1)" by fastforce
  have "s' = s1"
    using assms(2) False u by (cases u) (auto simp: run_state_def split: option.splits)
  with get_run_effect [OF assms(1) u] show ?thesis by simp
qed

lemma reap_pending_effect:
  assumes okst: "ok s" and reap: "reap_pending ops cfg now row s = (taken, s')"
  shows "ok s' \<and> (view s' = view s
     \<or> (\<exists>cur t. view s (ap_id row) = Some cur \<and> orphan_transition t (ap_owner row) now
          \<and> transition_enabled cur t \<and> view s' = (view s)(ap_id row \<mapsto> transition_row now t cur)))
     \<and> (taken \<longrightarrow> view s' \<noteq> view s \<or> view s (ap_id row) \<noteq> None)"
proof -
  obtain r s1 where r: "run_state ops s row = (r, s1)" by fastforce
  have s1: "ok s1" "view s1 = view s" using run_state_effect [OF okst r] by auto
  show ?thesis
  proof (cases "r = Inl ()")
    case True
    with reap r s1 show ?thesis by (auto simp: reap_pending_def)
  next
    case False
    then obtain u where u: "r = Inr u" by (cases r) auto
    define t where "t = (case u of None \<Rightarrow> orphan_expire_transition (ap_owner row) now
      | Some _ \<Rightarrow> orphan_suspend_transition (ap_owner row) now (expires_at cfg now))"
    have t: "orphan_transition t (ap_owner row) now"
      by (auto simp: t_def orphan_transition_def split: option.split)
    obtain b where s': "op_move ops s1 now (ap_id row) t = (b, s')"
      and taken: "taken = moved_ok b"
      using reap r u unfolding reap_pending_def t_def
      by (cases u) (auto split: prod.splits)
    from s1(1) s' show ?thesis
    proof (cases rule: move_rows)
      case Kept
      with s1 move_effect [OF s1(1) s'] taken show ?thesis by (simp add: moved_ok_def)
    next
      case (Moved cur)
      with s1 t move_effect [OF s1(1) s'] show ?thesis by auto
    qed
  qed
qed

lemma take_over_effect:
  assumes okst: "ok s" and found: "view s pid = Some row"
    and take_over: "take_over_orphan ops cfg now pid row s = (r, s')"
  shows "ok s' \<and> (\<exists>cur. view s' pid = Some cur \<and> same_question row cur \<and> ap_response cur = ap_response row)
       \<and> (\<forall>row'. r = Inr row' \<longrightarrow> view s' pid = Some row')
       \<and> (\<forall>i. i \<noteq> pid \<longrightarrow> view s' i = view s i)"
proof (cases "ap_status row = Pending \<and> ap_suspendable row \<and> lease_lapsed row now")
  case False
  with take_over okst found show ?thesis by (auto simp: take_over_orphan_def)
next
  case True
  obtain taken s1 where taken: "reap_pending ops cfg now row s = (taken, s1)" by fastforce
  obtain g s2 where g: "op_get ops s1 pid = (g, s2)" by fastforce
  have id: "ap_id row = pid" using view_id [OF okst found] .
  have s1: "ok s1" "\<exists>cur. view s1 pid = Some cur \<and> same_question row cur \<and> ap_response cur = ap_response row"
      "\<forall>i. i \<noteq> pid \<longrightarrow> view s1 i = view s i"
    using reap_pending_effect [OF okst taken] found id orphan_transition_row(4) by auto
  have s2: "ok s2" "view s2 = view s1" "g = Inl () \<or> g = Inr (view s1 pid)"
    using get_effect [OF s1(1) g] by auto
  have "s' = s2" "\<forall>row'. r = Inr row' \<longrightarrow> g = Inr (Some row')"
    using take_over True taken g
    by (auto simp: take_over_orphan_def split: sum.splits option.splits if_splits)
  with s1 s2 show ?thesis by auto
qed

text \<open>An answer that is recorded meets its row at the right moment.\<close>

lemma record_answer_effect:
  assumes okst: "ok s" and ans: "record_answer ops cfg now fresh req row s = (Inr rn, s')"
  shows "\<exists>cur row'. view s (rr_prompt req) = Some cur \<and> view s' (rr_prompt req) = Some row'
     \<and> same_question cur row' \<and> ap_status row' = Answered \<and> ap_resolved_by row' = rr_user req
     \<and> ap_response row' = (if rr_response req = NoBytes then ap_response cur else rr_response req)
     \<and> (if rn_resume rn then ap_status cur = Suspended \<and> ap_owner row' = fresh
             \<and> (case ap_expires cur of Some e \<Rightarrow> now < e | None \<Rightarrow> True)
        else ap_status cur = Pending \<and> ap_owner row' = ap_owner cur)"
proof -
  let ?pid = "rr_prompt req"
  let ?t1 = "answer_suspended_transition (rr_response req) (rr_user req) now fresh (now + bc_lease_ttl cfg)"
  let ?t2 = "answer_transition Pending (rr_response req) (rr_user req) now"
  obtain r1 s1 where r1: "op_move ops s now ?pid ?t1 = (r1, s1)" by fastforce
  obtain r2 s2 where r2: "op_move ops s1 now ?pid ?t2 = (r2, s2)" by fastforce
  consider (Resumed) "r1 = Inr True" "s' = s1" "rn_resume rn"
    | (Woken) "r1 = Inr False" "r2 = Inr True" "s' = s2" "\<not> rn_resume rn"
    using ans r1 r2 by (cases r1; cases r2) (auto simp: record_answer_def Let_def split: if_splits bool.splits)
  then show ?thesis
  proof cases
    case Resumed
    from okst r1 show ?thesis
    proof (cases rule: move_rows)
      case (Moved cur)
      with Resumed show ?thesis
        by (auto simp: transition_enabled_def transition_defs transition_row_response assign_def
            split: option.splits)
    qed (use Resumed in simp)
  next
    case Woken
    from okst r1 have s1: "ok s1" "view s1 = view s"
      by (cases rule: move_rows; use Woken(1) move_effect [OF okst r1] in simp)+
    from s1(1) r2 show ?thesis
    proof (cases rule: move_rows)
      case (Moved cur)
      with Woken s1 show ?thesis
        by (auto simp: transition_enabled_def transition_defs transition_row_response assign_def)
    qed (use Woken in simp)
  qed
qed

lemma resolve_recorded:
  assumes okst: "ok s" and res: "resolve ops cfg validate now fresh req s = (Inr rn, s')"
  shows "\<exists>row row'. view s (rr_prompt req) = Some row \<and> refuse_answer validate req (Some row) = None
     \<and> view s' (rr_prompt req) = Some row' \<and> same_question row row'
     \<and> ap_status row' = Answered \<and> ap_resolved_by row' = rr_user req
     \<and> ap_response row' = (if rr_response req = NoBytes then ap_response row else rr_response req)
     \<and> (rn_resume rn \<longrightarrow> ap_owner row' = fresh)"
proof -
  let ?pid = "rr_prompt req"
  obtain g s0 where g: "op_get ops s ?pid = (g, s0)" by fastforce
  have s0: "ok s0" "view s0 = view s" "g = Inl () \<or> g = Inr (view s ?pid)"
    using get_effect [OF okst g] by auto
  have gs: "g = Inr (view s ?pid)" and none: "refuse_answer validate req (view s ?pid) = None"
    using res g s0(3) by (auto simp: resolve_def split: sum.splits option.splits)
  then obtain row where row: "view s ?pid = Some row"
    by (auto simp: refuse_answer_def split: option.splits)
  obtain r s1 where t: "take_over_orphan ops cfg now ?pid row s0 = (r, s1)" by fastforce
  from res g gs none row t obtain row1 where r: "r = Inr row1"
      and ans: "record_answer ops cfg now fresh req row1 s1 = (Inr rn, s')"
    by (auto simp: resolve_def split: sum.splits)
  obtain cur where s1: "ok s1" and cur: "view s1 ?pid = Some cur" "same_question row cur"
      "ap_response cur = ap_response row"
    using take_over_effect [OF s0(1) _ t] s0(2) row by auto
  obtain row' where row': "view s' ?pid = Some row'" "same_question cur row'" "ap_status row' = Answered"
      "ap_resolved_by row' = rr_user req" "rn_resume rn \<longrightarrow> ap_owner row' = fresh"
      "ap_response row' = (if rr_response req = NoBytes then ap_response cur else rr_response req)"
    using record_answer_effect [OF s1 ans] cur(1) by (auto split: if_splits)
  show ?thesis
    using row none row' same_question_trans [OF cur(2) row'(2)] cur(3) by auto
qed

lemma resolve_refused:
  assumes okst: "ok s" and res: "resolve ops cfg validate now fresh req s = (r, s')"
    and refuse: "refuse_answer validate req (view s (rr_prompt req)) = Some e"
  shows "(r = Inl e \<or> r = Inl StoreFailed) \<and> view s' = view s"
proof -
  obtain g s0 where g: "op_get ops s (rr_prompt req) = (g, s0)" by fastforce
  have s0: "view s0 = view s" "g = Inl () \<or> g = Inr (view s (rr_prompt req))"
    using get_effect [OF okst g] by auto
  from s0(2) show ?thesis
  proof
    assume "g = Inl ()"
    with g res have "r = Inl StoreFailed" "s' = s0" by (simp_all add: resolve_def)
    with s0(1) show ?thesis by simp
  next
    assume "g = Inr (view s (rr_prompt req))"
    with g res refuse have "r = Inl e" "s' = s0" by (simp_all add: resolve_def)
    with s0(1) show ?thesis by simp
  qed
qed

end

text \<open>Who is entitled to answer, written out.\<close>

definition entitled :: "validators \<Rightarrow> resolve_request \<Rightarrow> agent_prompt \<Rightarrow> bool" where
  "entitled validate req row \<longleftrightarrow>
     ap_tenant row = rr_tenant req
   \<and> (ap_user row \<noteq> [] \<longrightarrow> ap_user row = rr_user req)
   \<and> (rr_session req = [] \<or> ap_session row = rr_session req)
   \<and> (rr_kind req = [] \<or> ap_kind row = rr_kind req)
   \<and> (ap_status row = Pending \<or> ap_status row = Suspended)
   \<and> (\<exists>ok. validate (ap_kind row) = Some ok \<and> ok (ap_request row) (rr_response req))"

lemma entitled_iff:
  "refuse_answer validate req found = None \<longleftrightarrow> (\<exists>row. found = Some row \<and> entitled validate req row)"
proof (cases found)
  case (Some row)
  then show ?thesis
    by (cases "validate (ap_kind row)") (simp_all add: refuse_answer_def entitled_def is_open_def)
qed (simp add: refuse_answer_def)


end
