(* ===== verification/PromptReaper.thy ===== *)
theory PromptReaper
  imports PromptWait
begin

text \<open>
  The reaper of \<open>internal/agent/hitl/reaper.go\<close>: it touches only prompts whose owner let the
  lease lapse, or whose time to answer is over, whatever the store does; and on a store that does
  not fail one sweep leaves no such open prompt behind.
\<close>

section \<open>What a sweep may touch\<close>

text \<open>Only rows in \<open>ids\<close> differ, and each of them only moved on.\<close>

definition touched_only :: "string set \<Rightarrow> prompt_rows \<Rightarrow> prompt_rows \<Rightarrow> bool" where
  "touched_only ids v v' \<longleftrightarrow> (\<forall>i. i \<notin> ids \<longrightarrow> v' i = v i) \<and> rows_live_on v v'"

lemma touched_only_refl [simp]: "touched_only ids v v"
  by (simp add: touched_only_def)

lemma touched_only_trans:
  "touched_only ids v v' \<Longrightarrow> touched_only ids v' v'' \<Longrightarrow> touched_only ids v v''"
  unfolding touched_only_def using rows_live_on_trans by auto

lemma touched_only_mono: "touched_only ids v v' \<Longrightarrow> ids \<subseteq> ids' \<Longrightarrow> touched_only ids' v v'"
  unfolding touched_only_def by auto

lemma touched_only_update: "v i = Some row \<Longrightarrow> lives_on row row' \<Longrightarrow> touched_only {i} v (v(i \<mapsto> row'))"
  unfolding touched_only_def by (simp add: rows_live_on_update)

lemma orphan_transition_lives_on:
  "orphan_transition t owner now \<Longrightarrow> transition_enabled row t \<Longrightarrow> lives_on row (transition_row at_time t row)"
  unfolding orphan_transition_def
  using move_lives_on [of "OrphanExpireMove owner now" row at_time]
    move_lives_on [of "OrphanSuspendMove owner now e" row at_time for e] by auto

lemma close_run_lives_on:
  "transition_enabled row (close_run_transition froms to reason stale) \<Longrightarrow>
     move_issued (CloseRunMove froms to reason stale) \<Longrightarrow>
     lives_on row (transition_row at_time (close_run_transition froms to reason stale) row)"
  using move_lives_on [of "CloseRunMove froms to reason stale" row at_time] by simp

definition dead :: "instant \<Rightarrow> agent_prompt \<Rightarrow> bool" where
  "dead now row \<longleftrightarrow>
     (ap_status row = Pending \<or> ap_status row = Answered \<or> ap_status row = Executing) \<and> lease_lapsed row now
   \<or> ap_status row = Suspended \<and> prompt_expired row now"

definition dead_ids :: "instant \<Rightarrow> prompt_rows \<Rightarrow> string set" where
  "dead_ids now v = {i. \<exists>row. v i = Some row \<and> dead now row}"

text \<open>What is dead later and has not been touched was dead before.\<close>

lemma dead_ids_later: "touched_only (dead_ids now v) v v' \<Longrightarrow> dead_ids now v' \<subseteq> dead_ids now v"
  unfolding touched_only_def dead_ids_def by force

text \<open>The callbacks keep to their row. They are code of other services.\<close>

definition hooks_keep :: "('s \<Rightarrow> bool) \<Rightarrow> ('s \<Rightarrow> prompt_rows) \<Rightarrow> 's run_hooks \<Rightarrow> bool" where
  "hooks_keep good view hooks \<longleftrightarrow>
     (\<forall>f row s r s'. hk_recover hooks = Some f \<longrightarrow> good s \<longrightarrow> f row s = (r, s') \<longrightarrow>
        good s' \<and> touched_only {ap_id row} (view s) (view s'))"

context prompt_store
begin

lemma reap_pending_touches:
  "ok s \<Longrightarrow> reap_pending ops cfg now row s = (taken, s') \<Longrightarrow>
     ok s' \<and> touched_only {ap_id row} (view s) (view s')"
  using reap_pending_effect [of s cfg now row taken s'] orphan_transition_lives_on touched_only_update
  by (metis touched_only_refl)

lemma drop_snapshot_effect: "ok s \<Longrightarrow> ok (drop_snapshot ops s m p) \<and> view (drop_snapshot ops s m p) = view s"
  unfolding drop_snapshot_def
  using delete_run_effect by (metis prod.collapse)

lemma close_run_effect:
  assumes okst: "ok s" and close: "close_run ops hooks now row state froms to reason stale s = (taken, s')"
  obtains b s1 where "op_move ops s now (ap_id row)
      (close_run_transition froms to reason (map_option (\<lambda>b. (ap_owner row, b)) stale)) = (b, s1)"
    and "ok s'" and "view s' = view s1"
proof -
  obtain b s1 where m: "op_move ops s now (ap_id row)
      (close_run_transition froms to reason (map_option (\<lambda>b. (ap_owner row, b)) stale)) = (b, s1)"
    by fastforce
  have s1: "ok s1" using move_effect [OF okst m] by simp
  have "s' = s1 \<or> s' = drop_snapshot ops s1 (ap_message row) (ap_id row)"
    using close m by (auto simp: close_run_def split: option.splits if_splits)
  with s1 m that show thesis using drop_snapshot_effect [OF s1] by metis
qed

lemma close_run_touches:
  assumes okst: "ok s" and close: "close_run ops hooks now row state froms to reason stale s = (taken, s')"
    and issued: "\<And>st. move_issued (CloseRunMove froms to reason st)"
  shows "ok s' \<and> touched_only {ap_id row} (view s) (view s')"
proof -
  obtain b s1 where m: "op_move ops s now (ap_id row)
      (close_run_transition froms to reason (map_option (\<lambda>b. (ap_owner row, b)) stale)) = (b, s1)"
    and s': "ok s'" "view s' = view s1"
    using okst close by (rule close_run_effect)
  from okst m show ?thesis
  proof (cases rule: move_rows)
    case (Moved cur)
    then show ?thesis
      using s' close_run_lives_on [OF Moved(2) issued] touched_only_update [of "view s" "ap_id row" cur]
      by simp
  qed (use s' in simp)
qed

lemma reap_orphans_touches:
  "ok s \<Longrightarrow> ap_id ` set rows \<subseteq> ids \<Longrightarrow> reap_orphans ops cfg now rows n s = (n', s') \<Longrightarrow>
     ok s' \<and> touched_only ids (view s) (view s')"
proof (induction rows arbitrary: n s)
  case (Cons row rows)
  obtain taken s1 where t: "reap_pending ops cfg now row s = (taken, s1)" by fastforce
  have s1: "ok s1 \<and> touched_only {ap_id row} (view s) (view s1)"
    using reap_pending_touches [OF Cons.prems(1) t] .
  then have "ok s' \<and> touched_only ids (view s1) (view s')"
    using Cons.IH [of s1 "if taken then Suc n else n"] Cons.prems t by simp
  with s1 Cons.prems(2) show ?case
    using touched_only_trans touched_only_mono by (metis (no_types, lifting) empty_subsetI image_insert insert_subset list.simps(15))
qed simp

lemma close_resuming_touches:
  assumes okst: "ok s" and status: "ap_status row = Answered \<or> ap_status row = Executing"
    and close: "close_resuming ops hooks now row s = (taken, s')"
  shows "ok s' \<and> touched_only {ap_id row} (view s) (view s')"
proof -
  obtain r s1 where r: "run_state ops s row = (r, s1)" by fastforce
  have s1: "ok s1" "view s1 = view s" using run_state_effect [OF okst r] by auto
  show ?thesis
  proof (cases "\<exists>st. r = Inr (Some st)")
    case True
    then obtain st where "r = Inr (Some st)" by blast
    with close r have "close_run ops hooks now row (Some st) [ap_status row] Failed
        (if ap_status row = Executing then reason_execute_stopped else reason_resume_stopped) (Some now) s1 = (taken, s')"
      by (simp add: close_resuming_def)
    from close_run_touches [OF s1(1) this] status s1(2) show ?thesis by auto
  next
    case False
    with close r s1 show ?thesis
      by (cases r) (auto simp: close_resuming_def split: option.splits)
  qed
qed

lemma reap_resuming_touches:
  assumes hooks: "hooks_keep ok view hooks"
  shows "ok s \<Longrightarrow> ap_id ` set rows \<subseteq> ids \<Longrightarrow>
     (\<forall>row \<in> set rows. ap_status row = Answered \<or> ap_status row = Executing) \<Longrightarrow>
     reap_resuming ops hooks now rows n s = (go, n', s') \<Longrightarrow>
     ok s' \<and> touched_only ids (view s) (view s')"
proof (induction rows arbitrary: n s)
  case (Cons row rows)
  have row: "ap_status row = Answered \<or> ap_status row = Executing" and sub: "{ap_id row} \<subseteq> ids"
    using Cons.prems by auto
  have rest: "ok s' \<and> touched_only ids (view s) (view s')"
    if "ok s1 \<and> touched_only {ap_id row} (view s) (view s1)"
      and "reap_resuming ops hooks now rows k s1 = (go, n', s') \<or> s' = s1" for k s1
  proof -
    have "touched_only ids (view s) (view s1)" using that(1) sub touched_only_mono by blast
    moreover have "ok s' \<and> touched_only ids (view s1) (view s')"
      using that Cons.IH [of s1 k] Cons.prems by auto
    ultimately show ?thesis using touched_only_trans by blast
  qed
  have close: "ok u \<and> touched_only {ap_id row} (view s) (view s1) \<Longrightarrow>
      close_resuming ops hooks now row s1 = (taken, u) \<Longrightarrow> ok s1 \<Longrightarrow>
      ok u \<and> touched_only {ap_id row} (view s) (view u)" for s1 u taken
    using close_resuming_touches [OF _ row] touched_only_trans by blast
  show ?case
  proof (cases "if ap_status row = Answered then hk_recover hooks else None")
    case None
    obtain taken s1 where t: "close_resuming ops hooks now row s = (taken, s1)" by fastforce
    show ?thesis
      by (rule rest [OF close_resuming_touches [OF Cons.prems(1) row t],
            of "if taken then Suc n else n"]) (use Cons.prems(4) None t in simp)
  next
    case (Some f)
    obtain r s1 where r: "f row s = (r, s1)" by fastforce
    have f: "hk_recover hooks = Some f" using Some by (simp split: if_splits)
    have s1: "ok s1 \<and> touched_only {ap_id row} (view s) (view s1)"
      using hooks f r Cons.prems(1) unfolding hooks_keep_def by blast
    obtain taken s2 where t: "close_resuming ops hooks now row s1 = (taken, s2)" by fastforce
    have s2: "ok s2 \<and> touched_only {ap_id row} (view s) (view s2)"
      using close_resuming_touches [OF _ row t] s1 touched_only_trans by blast
    consider "r = Inl ()" | "r = Inr True" | "r = Inr False" by (cases r) auto
    then show ?thesis
    proof cases
      case 1
      with Cons.prems(4) Some r have "s' = s1" by simp
      then show ?thesis using rest [OF s1] by blast
    next
      case 2
      with Cons.prems(4) Some r rest [OF s1, of n] show ?thesis by simp
    next
      case 3
      with Cons.prems(4) Some r t rest [OF s2, of "if taken then Suc n else n"] show ?thesis by simp
    qed
  qed
qed simp

lemma close_suspended_touches:
  "ok s \<Longrightarrow> ap_id ` set rows \<subseteq> ids \<Longrightarrow> to = Expired \<or> to = Superseded \<Longrightarrow>
     close_suspended ops hooks now to reason rows n s = (n', s') \<Longrightarrow>
     ok s' \<and> touched_only ids (view s) (view s')"
proof (induction rows arbitrary: n s)
  case (Cons row rows)
  obtain r s1 where r: "run_state ops s row = (r, s1)" by fastforce
  have s1: "ok s1" "view s1 = view s" using run_state_effect [OF Cons.prems(1) r] by auto
  have sub: "{ap_id row} \<subseteq> ids" using Cons.prems by auto
  show ?case
  proof (cases r)
    case (Inl x)
    with Cons.prems(4) r have "close_suspended ops hooks now to reason rows n s1 = (n', s')" by simp
    with Cons.IH [of s1 n] Cons.prems s1 show ?thesis by simp
  next
    case (Inr state)
    obtain taken s2 where c: "close_run ops hooks now row state [Suspended] to reason None s1 = (taken, s2)"
      by fastforce
    have s2: "ok s2 \<and> touched_only {ap_id row} (view s1) (view s2)"
      by (rule close_run_touches [OF s1(1) c]) (use Cons.prems(3) in auto)
    have "ok s' \<and> touched_only ids (view s2) (view s')"
      using Cons.IH [of s2 "if taken then Suc n else n"] s2 Cons.prems r Inr c by simp
    with s1 s2 sub show ?thesis using touched_only_trans touched_only_mono by metis
  qed
qed simp

lemma listed_dead:
  assumes "listed P limit v xs" and "\<And>row. P row \<Longrightarrow> dead now row"
  shows "ap_id ` set xs \<subseteq> dead_ids now v"
  using assms unfolding listed_def dead_ids_def by auto

lemma reap_touches:
  assumes okst: "ok s" and hooks: "hooks_keep ok view hooks" and reap: "reap ops cfg hooks now s = (go, n, s')"
  shows "ok s' \<and> touched_only (dead_ids now (view s)) (view s) (view s')"
proof -
  let ?D = "dead_ids now (view s)"
  have batch: "0 < reap_batch" by (simp add: reap_batch_def)
  have later: "dead_ids now (view u) \<subseteq> ?D" if "touched_only ?D (view s) (view u)" for u
    using dead_ids_later that by blast
  obtain p s0 where p: "op_stale ops s [Pending] now reap_batch = (p, s0)" by fastforce
  have s0: "ok s0" "view s0 = view s" using stale_effect [OF okst p batch] by auto
  show ?thesis
  proof (cases p)
    case (Inl x)
    with reap p s0 show ?thesis by (simp add: reap_def)
  next
    case pending: (Inr pending)
    obtain n1 s1 where o1: "reap_orphans ops cfg now pending 0 s0 = (n1, s1)" by fastforce
    have "listed (\<lambda>row. ap_status row \<in> set [Pending] \<and> lease_lapsed row now) reap_batch (view s) pending"
      using stale_effect [OF okst p batch] pending by auto
    from listed_dead [OF this, of now] have "ap_id ` set pending \<subseteq> ?D"
      by (auto simp: dead_def)
    from reap_orphans_touches [OF s0(1) this o1] s0(2)
    have s1: "ok s1" "touched_only ?D (view s) (view s1)" by auto
    obtain q s2 where q: "op_stale ops s1 [Answered, Executing] now reap_batch = (q, s2)" by fastforce
    have s2: "ok s2" "view s2 = view s1" using stale_effect [OF s1(1) q batch] by auto
    show ?thesis
    proof (cases q)
      case (Inl x)
      with reap p pending o1 q s1 s2 show ?thesis by (simp add: reap_def)
    next
      case resuming: (Inr resuming)
      obtain go3 n3 s3 where o3: "reap_resuming ops hooks now resuming n1 s2 = (go3, n3, s3)"
        by (metis prod_cases3)
      have l: "listed (\<lambda>row. ap_status row \<in> set [Answered, Executing] \<and> lease_lapsed row now) reap_batch
          (view s1) resuming"
        using stale_effect [OF s1(1) q batch] resuming by auto
      have "ap_id ` set resuming \<subseteq> ?D"
        using listed_dead [OF l, of now] later [OF s1(2)] by (auto simp: dead_def)
      moreover have "\<forall>row \<in> set resuming. ap_status row = Answered \<or> ap_status row = Executing"
        using l by (simp add: listed_def)
      ultimately have "ok s3 \<and> touched_only ?D (view s2) (view s3)"
        by (rule reap_resuming_touches [OF hooks s2(1) _ _ o3])
      then have s3: "ok s3" "touched_only ?D (view s) (view s3)"
        using touched_only_trans [OF s1(2)] s2(2) by auto
      show ?thesis
      proof (cases go3)
        case False
        with reap p pending o1 q resuming o3 s3 show ?thesis by (simp add: reap_def)
      next
        case True
        obtain x s4 where x: "op_expired ops s3 now reap_batch = (x, s4)" by fastforce
        have s4: "ok s4" "view s4 = view s3" using expired_effect [OF s3(1) x batch] by auto
        show ?thesis
        proof (cases x)
          case (Inl y)
          with reap p pending o1 q resuming o3 True x s3 s4 show ?thesis by (simp add: reap_def)
        next
          case expired: (Inr expired)
          obtain n5 s5 where o5: "close_suspended ops hooks now Expired reason_prompt_expired expired n3 s4 = (n5, s5)"
            by fastforce
          have "listed (\<lambda>row. ap_status row = Suspended \<and> prompt_expired row now) reap_batch (view s3) expired"
            using expired_effect [OF s3(1) x batch] expired by auto
          from listed_dead [OF this, of now] have "ap_id ` set expired \<subseteq> ?D"
            using later [OF s3(2)] by (auto simp: dead_def)
          from close_suspended_touches [OF s4(1) this _ o5] s4(2)
          have s5: "ok s5" "touched_only ?D (view s) (view s5)"
            using touched_only_trans [OF s3(2)] by auto
          with reap p pending o1 q resuming o3 True x expired o5 show ?thesis by (simp add: reap_def)
        qed
      qed
    qed
  qed
qed

end


definition example_hooks :: "prompt_table run_hooks" where
  "example_hooks = \<lparr>hk_recover = None, hk_closed = None\<rparr>"

definition example_sweep :: "bool \<times> nat \<times> prompt_table" where
  "example_sweep =
     reap repo_ops \<lparr>bc_lease_ttl = 30, bc_suspend_expiry = 0\<rparr> example_hooks 20
       \<lparr>pt_rows = [example_row ''p'', (example_row ''q'')\<lparr>ap_lease := Some 10\<rparr>], pt_runs = [], pt_faults = []\<rparr>"

lemma example_hooks_keep: "hooks_keep good view example_hooks"
  by (simp add: hooks_keep_def example_hooks_def)


section \<open>What a sweep leaves behind\<close>

definition hooks_work :: "('s \<Rightarrow> bool) \<Rightarrow> 's run_hooks \<Rightarrow> bool" where
  "hooks_work good hooks \<longleftrightarrow>
     (\<forall>f row s r s'. hk_recover hooks = Some f \<longrightarrow> good s \<longrightarrow> f row s = (r, s') \<longrightarrow> r \<noteq> Inl ())"

lemma stage_after: "lives_on p q \<Longrightarrow> n < stage (ap_status p) \<Longrightarrow> n < stage (ap_status q)"
  by (auto simp: lives_on_def)

definition past :: "nat \<Rightarrow> prompt_rows \<Rightarrow> agent_prompt \<Rightarrow> bool" where
  "past n v row \<longleftrightarrow> (\<exists>q. v (ap_id row) = Some q \<and> n < stage (ap_status q))"

lemma past_later: "past n v row \<Longrightarrow> rows_live_on v v' \<Longrightarrow> past n v' row"
  unfolding past_def rows_live_on_def using stage_after by metis

lemma rest_untouched:
  assumes "touched_only {ap_id row} v v'" and "distinct (map ap_id (row # rows))" and "r \<in> set rows"
  shows "v' (ap_id r) = v (ap_id r)"
proof -
  have "ap_id r \<noteq> ap_id row" using assms(2,3) by (metis distinct.simps(2) image_eqI list.set_map list.simps(9))
  with assms(1) show ?thesis by (simp add: touched_only_def)
qed

context reliable_store
begin

lemma run_state_sure:
  assumes "ok s" and "sure s" and "run_state ops s row = (r, s')"
  shows "ok s' \<and> sure s' \<and> view s' = view s \<and> r \<noteq> Inl ()"
proof (cases "\<not> ap_suspendable row \<or> ap_message row = []")
  case True
  with assms show ?thesis by (auto simp: run_state_def)
next
  case False
  obtain u s1 where u: "op_get_run ops s (ap_message row) = (u, s1)" by fastforce
  have s1: "sure s1" "u \<noteq> Inl ()" using sure_get_run [OF assms(2) u] by auto
  then obtain saved where "u = Inr saved" by (cases u) auto
  with assms(3) False u have "s' = s1" "r \<noteq> Inl ()"
    by (auto simp: run_state_def split: option.splits if_splits)
  with s1 get_run_effect [OF assms(1) u] show ?thesis by simp
qed

lemma reap_pending_sure:
  assumes "ok s" and "sure s" and row: "view s (ap_id row) = Some row" "ap_status row = Pending" "lease_lapsed row now"
    and reap: "reap_pending ops cfg now row s = (taken, s')"
  shows "ok s' \<and> sure s' \<and> touched_only {ap_id row} (view s) (view s') \<and> past 0 (view s') row"
proof -
  obtain r s1 where r: "run_state ops s row = (r, s1)" by fastforce
  have s1: "ok s1" "sure s1" "view s1 = view s" "r \<noteq> Inl ()"
    using run_state_sure [OF assms(1,2) r] by auto
  then obtain u where u: "r = Inr u" by (cases r) auto
  define t where "t = (case u of None \<Rightarrow> orphan_expire_transition (ap_owner row) now
      | Some _ \<Rightarrow> orphan_suspend_transition (ap_owner row) now (expires_at cfg now))"
  obtain b where m: "op_move ops s1 now (ap_id row) t = (b, s')"
    using reap r u unfolding reap_pending_def t_def by (cases u) (auto split: prod.splits)
  have nb: "\<not> bad_transition t" by (simp add: t_def split: option.split)
  have "transition_enabled row t" and to: "0 < stage (tr_to t)"
    using row by (auto simp: t_def transition_enabled_def transition_defs lease_lapsed_def
        split: option.splits)
  with move_sure [OF s1(1,2) m nb] row(1) s1(3)
  have "ok s'" "sure s'" "view s' (ap_id row) = Some (transition_row now t row)" by auto
  with to reap_pending_touches [OF assms(1) reap] show ?thesis by (simp add: past_def)
qed

lemma reap_orphans_sure:
  "ok s \<Longrightarrow> sure s \<Longrightarrow> distinct (map ap_id rows) \<Longrightarrow>
     (\<forall>row \<in> set rows. view s (ap_id row) = Some row \<and> ap_status row = Pending \<and> lease_lapsed row now) \<Longrightarrow>
     reap_orphans ops cfg now rows n s = (n', s') \<Longrightarrow>
     ok s' \<and> sure s' \<and> touched_only (ap_id ` set rows) (view s) (view s')
   \<and> (\<forall>row \<in> set rows. past 0 (view s') row)"
proof (induction rows arbitrary: n s)
  case (Cons row rows)
  obtain taken s1 where t: "reap_pending ops cfg now row s = (taken, s1)" by fastforce
  have s1: "ok s1" "sure s1" "touched_only {ap_id row} (view s) (view s1)" "past 0 (view s1) row"
    using reap_pending_sure [OF Cons.prems(1,2) _ _ _ t] Cons.prems(4) by auto
  have "\<forall>r \<in> set rows. view s1 (ap_id r) = Some r \<and> ap_status r = Pending \<and> lease_lapsed r now"
    using Cons.prems(4) rest_untouched [OF s1(3) Cons.prems(3)] by simp
  then have rest: "ok s' \<and> sure s' \<and> touched_only (ap_id ` set rows) (view s1) (view s')
      \<and> (\<forall>row \<in> set rows. past 0 (view s') row)"
    using Cons.IH [OF s1(1,2), of "if taken then Suc n else n"] Cons.prems(3,5) t by simp
  have "touched_only (ap_id ` set (row # rows)) (view s) (view s1)"
    using s1(3) by (rule touched_only_mono) simp
  moreover have "touched_only (ap_id ` set (row # rows)) (view s1) (view s')"
    using rest by (auto intro: touched_only_mono)
  ultimately have "touched_only (ap_id ` set (row # rows)) (view s) (view s')"
    by (rule touched_only_trans)
  with rest past_later [OF s1(4)] show ?case by (auto simp: touched_only_def)
qed simp

lemma close_run_sure:
  assumes "ok s" and "sure s" and "froms \<noteq> []" and "to \<noteq> OtherStatus []"
    and close: "close_run ops hooks now row state froms to reason stale s = (taken, s')"
    and row: "view s (ap_id row) = Some row" "ap_status row \<in> set froms"
      "stale = None \<or> stale = Some now \<and> lease_lapsed row now"
  shows "ok s' \<and> sure s' \<and> (\<exists>q. view s' (ap_id row) = Some q \<and> ap_status q = to)"
proof -
  let ?t = "close_run_transition froms to reason (map_option (\<lambda>b. (ap_owner row, b)) stale)"
  obtain b s1 where m: "op_move ops s now (ap_id row) ?t = (b, s1)" by fastforce
  have nb: "\<not> bad_transition ?t" using assms(3,4) by simp
  have "transition_enabled row ?t"
    using row(2,3) by (auto simp: transition_enabled_def transition_defs Let_def lease_lapsed_def
        split: option.splits)
  with move_sure [OF assms(1,2) m nb] row(1)
  have s1: "ok s1" "sure s1" "b = Inr True" "view s1 (ap_id row) = Some (transition_row now ?t row)" by auto
  have "s' = s1 \<or> s' = drop_snapshot ops s1 (ap_message row) (ap_id row)"
    using close m by (auto simp: close_run_def split: option.splits if_splits)
  moreover have "sure (drop_snapshot ops s1 (ap_message row) (ap_id row))"
    unfolding drop_snapshot_def using sure_delete_run [OF s1(2)] by (metis prod.collapse)
  moreover have "tr_to ?t = to" by (simp add: transition_defs Let_def split: option.split)
  ultimately show ?thesis using s1 drop_snapshot_effect [OF s1(1)] by auto
qed

lemma close_suspended_sure:
  "ok s \<Longrightarrow> sure s \<Longrightarrow> distinct (map ap_id rows) \<Longrightarrow>
     (\<forall>row \<in> set rows. view s (ap_id row) = Some row \<and> ap_status row = Suspended) \<Longrightarrow>
     close_suspended ops hooks now Expired reason rows n s = (n', s') \<Longrightarrow>
     ok s' \<and> sure s' \<and> (\<forall>row \<in> set rows. past 1 (view s') row)"
proof (induction rows arbitrary: n s)
  case (Cons row rows)
  obtain r s1 where r: "run_state ops s row = (r, s1)" by fastforce
  have s1: "ok s1" "sure s1" "view s1 = view s" "r \<noteq> Inl ()"
    using run_state_sure [OF Cons.prems(1,2) r] by auto
  then obtain state where state: "r = Inr state" by (cases r) auto
  obtain taken s2 where c: "close_run ops hooks now row state [Suspended] Expired reason None s1 = (taken, s2)"
    by fastforce
  have s2: "ok s2" "sure s2" "past 1 (view s2) row"
    using close_run_sure [OF s1(1,2) _ _ c] Cons.prems(4) s1(3) by (auto simp: past_def)
  have touched: "touched_only {ap_id row} (view s) (view s2)"
    using close_run_touches [OF s1(1) c] s1(3) by simp
  have "\<forall>r \<in> set rows. view s2 (ap_id r) = Some r \<and> ap_status r = Suspended"
    using Cons.prems(4) rest_untouched [OF touched Cons.prems(3)] by simp
  moreover have run: "close_suspended ops hooks now Expired reason rows (if taken then Suc n else n) s2 = (n', s')"
    using Cons.prems(5) r state c by simp
  ultimately have rest: "ok s' \<and> sure s' \<and> (\<forall>row \<in> set rows. past 1 (view s') row)"
    using Cons.IH [OF s2(1,2)] Cons.prems(3) by simp
  have "rows_live_on (view s2) (view s')"
    using close_suspended_touches [OF s2(1) subset_refl _ run] by (simp add: touched_only_def)
  with rest past_later [OF s2(3)] show ?case by auto
qed simp

lemma close_resuming_sure:
  assumes "ok s" and "sure s" and close: "close_resuming ops hooks now row s = (taken, s')"
  shows "sure s'"
proof -
  obtain r s1 where r: "run_state ops s row = (r, s1)" by fastforce
  have s1: "ok s1" "sure s1" using run_state_sure [OF assms(1,2) r] by auto
  show ?thesis
  proof (cases "\<exists>st. r = Inr (Some st)")
    case True
    then obtain st where "r = Inr (Some st)" by blast
    with close r have c: "close_run ops hooks now row (Some st) [ap_status row] Failed
        (if ap_status row = Executing then reason_execute_stopped else reason_resume_stopped) (Some now) s1 = (taken, s')"
      by (simp add: close_resuming_def)
    let ?t = "close_run_transition [ap_status row] Failed
      (if ap_status row = Executing then reason_execute_stopped else reason_resume_stopped) (Some (ap_owner row, now))"
    obtain b s2 where m: "op_move ops s1 now (ap_id row) ?t = (b, s2)" by fastforce
    have "sure s2" using sure_move [OF s1(2) m] by simp
    moreover have "s' = s2 \<or> s' = drop_snapshot ops s2 (ap_message row) (ap_id row)"
      using c m by (auto simp: close_run_def split: option.splits if_splits)
    ultimately show ?thesis
      unfolding drop_snapshot_def using sure_delete_run by (metis prod.collapse)
  next
    case False
    with close r s1 show ?thesis
      by (cases r) (auto simp: close_resuming_def split: option.splits)
  qed
qed

lemma reap_resuming_sure:
  assumes hooks: "hooks_keep (\<lambda>s. ok s \<and> sure s) view hooks" and work: "hooks_work (\<lambda>s. ok s \<and> sure s) hooks"
  shows "ok s \<Longrightarrow> sure s \<Longrightarrow>
     (\<forall>row \<in> set rows. ap_status row = Answered \<or> ap_status row = Executing) \<Longrightarrow>
     reap_resuming ops hooks now rows n s = (go, n', s') \<Longrightarrow> go \<and> ok s' \<and> sure s'"
proof (induction rows arbitrary: n s)
  case (Cons row rows)
  have row: "ap_status row = Answered \<or> ap_status row = Executing" using Cons.prems(3) by simp
  have close: "go \<and> ok s' \<and> sure s'"
    if "ok u" "sure u" and run: "reap_resuming ops hooks now rows
        (if fst (close_resuming ops hooks now row u) then Suc n else n)
        (snd (close_resuming ops hooks now row u)) = (go, n', s')" for u
    using Cons.IH [OF _ _ _ run] close_resuming_touches [OF that(1) row, of hooks now]
      close_resuming_sure [OF that(1,2), of hooks now row] Cons.prems(3)
    by (cases "close_resuming ops hooks now row u") auto
  show ?case
  proof (cases "if ap_status row = Answered then hk_recover hooks else None")
    case None
    with Cons.prems(4) have "reap_resuming ops hooks now rows
        (if fst (close_resuming ops hooks now row s) then Suc n else n)
        (snd (close_resuming ops hooks now row s)) = (go, n', s')"
      by (simp add: case_prod_beta)
    with Cons.prems(1,2) show ?thesis by (rule close)
  next
    case (Some f)
    obtain r s1 where r: "f row s = (r, s1)" by fastforce
    have f: "hk_recover hooks = Some f" using Some by (simp split: if_splits)
    have s1: "ok s1" "sure s1" "r \<noteq> Inl ()"
      using hooks work f r Cons.prems(1,2) unfolding hooks_keep_def hooks_work_def by blast+
    then consider "r = Inr True" | "r = Inr False" by (cases r) auto
    then show ?thesis
    proof cases
      case 1
      with Cons.prems(4) Some r have "reap_resuming ops hooks now rows n s1 = (go, n', s')" by simp
      moreover have "\<forall>row \<in> set rows. ap_status row = Answered \<or> ap_status row = Executing"
        using Cons.prems(3) by simp
      ultimately show ?thesis by (rule_tac Cons.IH [OF s1(1,2)])
    next
      case 2
      with Cons.prems(4) Some r have "reap_resuming ops hooks now rows
          (if fst (close_resuming ops hooks now row s1) then Suc n else n)
          (snd (close_resuming ops hooks now row s1)) = (go, n', s')"
        by (simp add: case_prod_beta)
      with s1(1,2) show ?thesis by (rule close)
    qed
  qed
qed simp

text \<open>A listing that did not fill its batch names every matching row.\<close>

lemma listed_complete:
  assumes "listed P limit v xs" and "finite (dead_ids now v)" and "card (dead_ids now v) < limit"
    and "\<And>row. P row \<Longrightarrow> dead now row" and "v i = Some row" and "P row"
  shows "row \<in> set xs"
proof -
  have "length xs = card (ap_id ` set xs)"
    using assms(1) unfolding listed_def by (metis distinct_card length_map list.set_map)
  also have "\<dots> \<le> card (dead_ids now v)"
    using listed_dead [OF assms(1,4)] assms(2) by (simp add: card_mono)
  finally have "length xs < limit" using assms(3) by simp
  with assms(1,5,6) show ?thesis unfolding listed_def by blast
qed

lemma reap_clears:
  assumes okst: "ok s" "sure s" and keep: "hooks_keep ok view hooks"
    and hooks: "hooks_keep (\<lambda>s. ok s \<and> sure s) view hooks" and work: "hooks_work (\<lambda>s. ok s \<and> sure s) hooks"
    and few: "finite (dead_ids now (view s))" "card (dead_ids now (view s)) < reap_batch"
    and reap: "reap ops cfg hooks now s = (go, n, s')"
  shows "go \<and> (\<forall>i row. view s' i = Some row \<longrightarrow>
     \<not> (ap_status row = Pending \<and> lease_lapsed row now) \<and> \<not> (ap_status row = Suspended \<and> prompt_expired row now))"
proof -
  let ?D = "dead_ids now (view s)"
  have batch: "0 < reap_batch" by (simp add: reap_batch_def)
  have fewer: "finite (dead_ids now (view u)) \<and> card (dead_ids now (view u)) < reap_batch"
    if "touched_only ?D (view s) (view u)" for u
    using dead_ids_later [OF that] few by (meson card_mono finite_subset le_less_trans)
  obtain p s0 where p: "op_stale ops s [Pending] now reap_batch = (p, s0)" by fastforce
  obtain pending where pending: "p = Inr pending" using sure_stale [OF okst(2) p] by (cases p) auto
  have s0: "ok s0" "sure s0" "view s0 = view s"
    and l1: "listed (\<lambda>row. ap_status row \<in> set [Pending] \<and> lease_lapsed row now) reap_batch (view s) pending"
    using stale_effect [OF okst(1) p batch] sure_stale [OF okst(2) p] pending by auto
  obtain n1 s1 where o1: "reap_orphans ops cfg now pending 0 s0 = (n1, s1)" by fastforce
  have in1: "\<forall>row \<in> set pending. view s0 (ap_id row) = Some row \<and> ap_status row = Pending \<and> lease_lapsed row now"
      "distinct (map ap_id pending)"
    using l1 s0(3) by (auto simp: listed_def)
  have s1: "ok s1" "sure s1" "touched_only (ap_id ` set pending) (view s) (view s1)"
      "\<forall>row \<in> set pending. past 0 (view s1) row"
    using reap_orphans_sure [OF s0(1,2) in1(2,1) o1] s0(3) by auto
  have t1: "touched_only ?D (view s) (view s1)"
    using touched_only_mono [OF s1(3)] listed_dead [OF l1, of now] by (auto simp: dead_def)
  obtain q s2 where q: "op_stale ops s1 [Answered, Executing] now reap_batch = (q, s2)" by fastforce
  obtain resuming where resuming: "q = Inr resuming" using sure_stale [OF s1(2) q] by (cases q) auto
  have s2: "ok s2" "sure s2" "view s2 = view s1"
    and l2: "listed (\<lambda>row. ap_status row \<in> set [Answered, Executing] \<and> lease_lapsed row now) reap_batch (view s1) resuming"
    using stale_effect [OF s1(1) q batch] sure_stale [OF s1(2) q] resuming by auto
  have in2: "\<forall>row \<in> set resuming. ap_status row = Answered \<or> ap_status row = Executing"
    using l2 by (simp add: listed_def)
  obtain go3 n3 s3 where o3: "reap_resuming ops hooks now resuming n1 s2 = (go3, n3, s3)" by (metis prod_cases3)
  have s3: "go3" "ok s3" "sure s3" using reap_resuming_sure [OF hooks work s2(1,2) in2 o3] by auto
  have "ap_id ` set resuming \<subseteq> ?D"
    using listed_dead [OF l2, of now] dead_ids_later [OF t1] by (auto simp: dead_def)
  with in2 o3 have t3: "touched_only ?D (view s1) (view s3)"
    using reap_resuming_touches [OF keep s2(1)] s2(3) by metis
  obtain x s4 where x: "op_expired ops s3 now reap_batch = (x, s4)" by fastforce
  obtain expired where expired: "x = Inr expired" using sure_expired [OF s3(3) x] by (cases x) auto
  have s4: "ok s4" "sure s4" "view s4 = view s3"
    and l4: "listed (\<lambda>row. ap_status row = Suspended \<and> prompt_expired row now) reap_batch (view s3) expired"
    using expired_effect [OF s3(2) x batch] sure_expired [OF s3(3) x] expired by auto
  obtain n5 s5 where o5: "close_suspended ops hooks now Expired reason_prompt_expired expired n3 s4 = (n5, s5)"
    by fastforce
  have in4: "\<forall>row \<in> set expired. view s4 (ap_id row) = Some row \<and> ap_status row = Suspended"
      "distinct (map ap_id expired)"
    using l4 s4(3) by (auto simp: listed_def)
  have s5: "\<forall>row \<in> set expired. past 1 (view s5) row"
    and t5: "touched_only (ap_id ` set expired) (view s3) (view s5)"
    using close_suspended_sure [OF s4(1,2) in4(2,1) o5] close_suspended_touches [OF s4(1) subset_refl _ o5] s4(3)
    by auto
  have end_state: "go" "s' = s5"
    using reap p pending o1 q resuming o3 s3(1) x expired o5 by (auto simp: reap_def)
  have on: "rows_live_on (view s1) (view s5)"
    using t3 t5 rows_live_on_trans by (auto simp: touched_only_def)
  show ?thesis
  proof (intro conjI allI impI)
    show go by (rule end_state)
  next
    fix i row assume row: "view s' i = Some row"
    have t13: "touched_only ?D (view s) (view s3)" using t1 t3 by (rule touched_only_trans)
    have early: "i \<notin> ap_id ` set expired" if "stage (ap_status row) \<le> 1"
      using s5 row that by (auto simp: past_def end_state)
    then have row3: "view s3 i = Some row" if "stage (ap_status row) \<le> 1"
      using t5 row that by (simp add: touched_only_def end_state)
    show "\<not> (ap_status row = Suspended \<and> prompt_expired row now)"
    proof
      assume sus: "ap_status row = Suspended \<and> prompt_expired row now"
      then have "row \<in> set expired"
        using listed_complete [OF l4, of now i row] fewer [OF t13] row3 by (simp add: dead_def)
      moreover have "ap_id row = i" using view_id [OF s3(2) row3] sus by simp
      ultimately show False using early sus by auto
    qed
    show "\<not> (ap_status row = Pending \<and> lease_lapsed row now)"
    proof
      assume pen: "ap_status row = Pending \<and> lease_lapsed row now"
      then have row3': "view s3 i = Some row" using row3 by simp
      have "i \<in> ?D"
        using t13 row3' pen by (auto simp: touched_only_def dead_ids_def dead_def)
      then obtain row0 where row0: "view s i = Some row0" "dead now row0" by (auto simp: dead_ids_def)
      have "lives_on row0 row" using t13 row0(1) row3' unfolding touched_only_def rows_live_on_def by force
      then have "stage (ap_status row0) = 0" using pen by (simp add: lives_on_def)
      then have p0: "ap_status row0 = Pending" by (cases "ap_status row0") simp_all
      with row0(2) have "lease_lapsed row0 now" by (simp add: dead_def)
      then have "row0 \<in> set pending"
        using listed_complete [OF l1 few, of i row0] row0(1) p0 by (simp add: dead_def)
      then have "past 0 (view s5) row0" using s1(4) past_later [OF _ on] by blast
      then show False
        using row pen view_id [OF okst(1) row0(1)] by (simp add: past_def end_state)
    qed
  qed
qed

end

lemma finite_table: "finite (dead_ids now (find_row s))"
proof -
  have "i \<in> ap_id ` set (pt_rows s)" if "find_row s i = Some y" for i y
    using find_id [of ap_id i "pt_rows s" y] that by (auto simp: find_row_def)
  then have "dead_ids now (find_row s) \<subseteq> ap_id ` set (pt_rows s)"
    by (auto simp: dead_ids_def)
  then show ?thesis by (rule finite_subset) simp
qed


end
