(* ===== verification/Grants.thy ===== *)
theory Grants
  imports Policy
begin

text \<open>
  Remembered approvals: \<open>internal/types/agent_grant.go\<close> (the row and when it lapses),
  \<open>internal/agent/approval/grants.go\<close> (the gate's lookup and \<open>remember\<close>) and
  \<open>internal/application/repository/agent_grant_repository.go\<close> (the store). Instants are
  nanoseconds as \<open>int\<close>; the zero \<open>time.Time\<close> of \<open>CreatedAt\<close> is \<open>0\<close>. The database is a
  list of rows kept unique on the index \<open>idx_agent_grants_key\<close>; a failing query is the flag
  \<open>db_down\<close>, which the environment sets.
\<close>

section \<open>The row\<close>

type_synonym time = int

datatype lapse = NoLapse | LapseRevoked | LapseExpired | LapseChanged | LapseIdle

record grant_scope =
  gs_scope :: string
  gs_scope_id :: string
  gs_binding :: string

type_synonym grant_key = "nat \<times> string \<times> string \<times> string \<times> string"

record agent_grant =
  g_id :: string
  g_tenant :: nat
  g_user :: string
  g_scope :: string
  g_scope_id :: string
  g_key :: string
  g_label :: string
  g_binding :: string
  g_risk :: risk
  g_prompt :: string
  g_created :: time
  g_updated :: time
  g_last_used :: "time option"
  g_expires :: "time option"
  g_revoked :: "time option"

definition row_key :: "agent_grant \<Rightarrow> grant_key" where
  "row_key g = (g_tenant g, g_user g, g_scope g, g_scope_id g, g_key g)"

definition idle_expiry :: time where
  "idle_expiry = 90 * 24 * 3600 * 1000000000"

definition lapse_at :: "agent_grant \<Rightarrow> time \<Rightarrow> string \<Rightarrow> lapse" where
  "lapse_at g now binding =
     (if g_revoked g \<noteq> None then LapseRevoked
      else if (case g_expires g of Some e \<Rightarrow> \<not> now < e | None \<Rightarrow> False) then LapseExpired
      else if g_binding g \<noteq> binding then LapseChanged
      else if g_scope g = ''automation'' \<and>
              now - (case g_last_used g of Some u \<Rightarrow> u | None \<Rightarrow> g_created g) \<ge> idle_expiry
           then LapseIdle
      else NoLapse)"

definition active_at :: "agent_grant option \<Rightarrow> time \<Rightarrow> string \<Rightarrow> bool" where
  "active_at g now binding = (case g of None \<Rightarrow> False | Some g \<Rightarrow> lapse_at g now binding = NoLapse)"

section \<open>The store\<close>

record grant_db =
  rows :: "agent_grant list"
  db_down :: bool

definition find_grant :: "grant_db \<Rightarrow> grant_key \<Rightarrow> unit + agent_grant option" where
  "find_grant db k =
     (if db_down db then Inl () else Inr (List.find (\<lambda>g. row_key g = k) (rows db)))"

text \<open>
  \<open>SaveGrant\<close>: \<open>fresh\<close> is the identifier \<open>BeforeCreate\<close> draws. A row with the same key keeps
  its identifier and its key and takes the assigned columns.
\<close>

definition upsert_row :: "agent_grant \<Rightarrow> time \<Rightarrow> agent_grant \<Rightarrow> agent_grant" where
  "upsert_row g now old =
     old\<lparr>g_label := g_label g, g_binding := g_binding g, g_risk := g_risk g, g_prompt := g_prompt g,
         g_created := g_created g, g_updated := now, g_last_used := None,
         g_expires := g_expires g, g_revoked := None\<rparr>"

definition save_grant :: "grant_db \<Rightarrow> string \<Rightarrow> time \<Rightarrow> agent_grant \<Rightarrow> unit + grant_db" where
  "save_grant db fresh now g0 =
     (if g_tenant g0 = 0 \<or> g_user g0 = [] \<or> g_scope g0 = [] \<or> g_scope_id g0 = [] \<or> g_key g0 = []
      then Inl ()
      else
        (let g1 = (if g_risk g0 = OtherRisk [] then g0\<lparr>g_risk := RiskWrite\<rparr> else g0);
             g2 = (if g_created g1 = 0 then g1\<lparr>g_created := now\<rparr> else g1);
             g3 = g2\<lparr>g_updated := now\<rparr>;
             g = (if g_id g3 = [] then g3\<lparr>g_id := fresh\<rparr> else g3)
         in if db_down db then Inl ()
            else if List.find (\<lambda>r. row_key r = row_key g) (rows db) = None
            then Inr (db\<lparr>rows := rows db @ [g]\<rparr>)
            else Inr (db\<lparr>rows := map (\<lambda>r. if row_key r = row_key g then upsert_row g now r else r)
                                  (rows db)\<rparr>)))"

definition touch_grant :: "grant_db \<Rightarrow> string \<Rightarrow> time \<Rightarrow> grant_db" where
  "touch_grant db i at =
     (if db_down db then db
      else db\<lparr>rows := map (\<lambda>r. if g_id r = i then r\<lparr>g_last_used := Some at\<rparr> else r) (rows db)\<rparr>)"

text \<open>\<open>RevokeGrant\<close>: the boolean is \<open>RowsAffected > 0\<close>.\<close>

definition revoke_matches :: "nat \<Rightarrow> string \<Rightarrow> string \<Rightarrow> agent_grant \<Rightarrow> bool" where
  "revoke_matches tenant user i r \<longleftrightarrow>
     g_id r = i \<and> g_tenant r = tenant \<and> g_user r = user \<and> g_revoked r = None"

definition revoke_grant ::
    "grant_db \<Rightarrow> nat \<Rightarrow> string \<Rightarrow> string \<Rightarrow> time \<Rightarrow> unit + (bool \<times> grant_db)" where
  "revoke_grant db tenant user i at =
     (if db_down db then Inl ()
      else Inr (\<exists>r \<in> set (rows db). revoke_matches tenant user i r,
                db\<lparr>rows := map (\<lambda>r. if revoke_matches tenant user i r
                                     then r\<lparr>g_revoked := Some at, g_updated := at\<rparr> else r)
                                (rows db)\<rparr>))"

definition delete_scopes :: "grant_db \<Rightarrow> nat \<Rightarrow> string \<Rightarrow> string list \<Rightarrow> unit + grant_db" where
  "delete_scopes db tenant scope ids =
     (if ids = [] then Inr db
      else if db_down db then Inl ()
      else Inr (db\<lparr>rows := filter (\<lambda>r. \<not> (g_tenant r = tenant \<and> g_scope r = scope
                                          \<and> g_scope_id r \<in> set ids)) (rows db)\<rparr>))"

section \<open>The gate\<close>

text \<open>
  The fields of \<open>PendingRequest\<close> and of the stored prompt that grants read. What the gate
  takes from its context is explicit: the run's own scope and its standing scope, each
  \<open>None\<close> when the context carries none.
\<close>

record pending_request =
  rq_tenant :: nat
  rq_user :: string
  rq_session :: string
  rq_grant :: string
  rq_grant_scope :: string
  rq_grant_risk :: risk

definition req_grant_risk :: "pending_request \<Rightarrow> risk" where
  "req_grant_risk req = (if rq_grant_risk req = OtherRisk [] then RiskWrite else rq_grant_risk req)"

definition offered_grant_scope :: "pending_request \<Rightarrow> string" where
  "offered_grant_scope req =
     (if rq_grant req = [] \<or> req_grant_risk req \<noteq> RiskWrite then [] else rq_grant_scope req)"

definition scope_from_context :: "grant_scope option \<Rightarrow> grant_scope option" where
  "scope_from_context v =
     (case v of Some s \<Rightarrow> if gs_scope s \<noteq> [] \<and> gs_scope_id s \<noteq> [] then Some s else None
      | None \<Rightarrow> None)"

definition run_scope :: "grant_scope option \<Rightarrow> string \<Rightarrow> grant_scope option" where
  "run_scope ctx session =
     (case scope_from_context ctx of
        Some s \<Rightarrow> Some s
      | None \<Rightarrow> if session = [] then None
                else Some \<lparr>gs_scope = ''session'', gs_scope_id = session, gs_binding = []\<rparr>)"

definition req_key :: "pending_request \<Rightarrow> grant_scope \<Rightarrow> grant_key" where
  "req_key req s = (rq_tenant req, rq_user req, gs_scope s, gs_scope_id s, rq_grant req)"

text \<open>
  The gate holds a \<open>GrantStore\<close> interface value: its methods are the arguments \<open>lkup\<close>,
  \<open>touch\<close> and \<open>save\<close> of the gate's operations, over a store state of any type.
\<close>

definition granted_in ::
    "('s \<Rightarrow> grant_key \<Rightarrow> unit + agent_grant option) \<Rightarrow> ('s \<Rightarrow> string \<Rightarrow> time \<Rightarrow> 's)
       \<Rightarrow> 's \<Rightarrow> time \<Rightarrow> pending_request \<Rightarrow> grant_scope \<Rightarrow> bool \<times> lapse \<times> 's" where
  "granted_in lkup touch db now req s =
     (case lkup db (req_key req s) of
        Inl _ \<Rightarrow> (False, NoLapse, db)
      | Inr None \<Rightarrow> (False, NoLapse, db)
      | Inr (Some g) \<Rightarrow>
          if \<not> covers (g_risk g) (req_grant_risk req) then (False, NoLapse, db)
          else (case lapse_at g now (gs_binding s) of
                  NoLapse \<Rightarrow> (True, NoLapse, touch db (g_id g) now)
                | LapseRevoked \<Rightarrow> (False, NoLapse, db)
                | l \<Rightarrow> (False, l, db)))"

fun granted_scopes ::
    "('s \<Rightarrow> grant_key \<Rightarrow> unit + agent_grant option) \<Rightarrow> ('s \<Rightarrow> string \<Rightarrow> time \<Rightarrow> 's)
       \<Rightarrow> 's \<Rightarrow> time \<Rightarrow> pending_request \<Rightarrow> grant_scope list \<Rightarrow> lapse \<Rightarrow> bool \<times> lapse \<times> 's" where
  "granted_scopes lkup touch db now req [] lps = (False, lps, db)"
| "granted_scopes lkup touch db now req (s # ss) lps =
     (case granted_in lkup touch db now req s of
        (True, _, db') \<Rightarrow> (True, NoLapse, db')
      | (False, why, db') \<Rightarrow>
          granted_scopes lkup touch db' now req ss (if lps = NoLapse then why else lps))"

definition opt_list :: "'a option \<Rightarrow> 'a list" where
  "opt_list x = (case x of None \<Rightarrow> [] | Some y \<Rightarrow> [y])"

definition request_scopes ::
    "grant_scope option \<Rightarrow> grant_scope option \<Rightarrow> pending_request \<Rightarrow> grant_scope list" where
  "request_scopes ctx standing req =
     opt_list (run_scope ctx (rq_session req)) @ opt_list (scope_from_context standing)"

text \<open>\<open>None\<close> for the store is a gate without \<open>WithGrants\<close>.\<close>

definition granted ::
    "('s \<Rightarrow> grant_key \<Rightarrow> unit + agent_grant option) \<Rightarrow> ('s \<Rightarrow> string \<Rightarrow> time \<Rightarrow> 's)
       \<Rightarrow> 's option \<Rightarrow> time \<Rightarrow> grant_scope option \<Rightarrow> grant_scope option \<Rightarrow> pending_request
       \<Rightarrow> bool \<times> lapse \<times> 's option" where
  "granted lkup touch store now ctx standing req =
     (case store of
        None \<Rightarrow> (False, NoLapse, None)
      | Some db \<Rightarrow>
          if rq_grant req = [] \<or> rq_user req = [] \<or> rq_tenant req = 0 then (False, NoLapse, Some db)
          else (case granted_scopes lkup touch db now req (request_scopes ctx standing req) NoLapse of
                  (ok, l, db') \<Rightarrow> (ok, l, Some db')))"

record prompt_decision =
  d_approved :: bool
  d_allow_in_session :: bool

record stored_prompt =
  p_id :: string
  p_tenant :: nat
  p_user :: string
  p_session :: string
  p_grant :: string        \<comment> \<open>\<open>Grant\<close> of the encoded request; empty when it does not decode\<close>
  p_grant_scope :: string

definition remembered_grant :: "stored_prompt \<Rightarrow> grant_scope \<Rightarrow> agent_grant" where
  "remembered_grant p s =
     \<lparr>g_id = [], g_tenant = p_tenant p, g_user = p_user p,
      g_scope = gs_scope s, g_scope_id = gs_scope_id s,
      g_key = p_grant p, g_label = p_grant_scope p,
      g_binding = gs_binding s, g_risk = RiskWrite,
      g_prompt = p_id p, g_created = 0, g_updated = 0,
      g_last_used = None, g_expires = None, g_revoked = None\<rparr>"

definition remember ::
    "('s \<Rightarrow> string \<Rightarrow> time \<Rightarrow> agent_grant \<Rightarrow> unit + 's) \<Rightarrow> 's option \<Rightarrow> string \<Rightarrow> time
       \<Rightarrow> grant_scope option \<Rightarrow> prompt_decision \<Rightarrow> stored_prompt option \<Rightarrow> 's option" where
  "remember save store fresh now ctx d prompt =
     (case (store, prompt) of
        (Some db, Some p) \<Rightarrow>
          if \<not> d_approved d \<or> \<not> d_allow_in_session d then Some db
          else if p_grant p = [] then Some db
          else (case run_scope ctx (p_session p) of
                  None \<Rightarrow> Some db
                | Some s \<Rightarrow>
                    if p_tenant p = 0 \<or> p_user p = [] then Some db
                    else (case save db fresh now (remembered_grant p s) of
                            Inl _ \<Rightarrow> Some db
                          | Inr db' \<Rightarrow> Some db'))
      | (s, _) \<Rightarrow> s)"

section \<open>The interface\<close>

text \<open>What a use of a grant may change: only when it was last used.\<close>

definition same_grant :: "agent_grant \<Rightarrow> agent_grant \<Rightarrow> bool" where
  "same_grant g g' \<longleftrightarrow> g'\<lparr>g_last_used := g_last_used g\<rparr> = g"

text \<open>
  The \<open>GrantStore\<close> contract the gate relies on: a lookup returns a row of the key asked
  for, recording a use changes nothing else, a saved grant is found live and with what was
  saved, and saving one key leaves the others alone.
\<close>

locale grant_store =
  fixes lkup :: "'s \<Rightarrow> grant_key \<Rightarrow> unit + agent_grant option"
    and touch :: "'s \<Rightarrow> string \<Rightarrow> time \<Rightarrow> 's"
    and save :: "'s \<Rightarrow> string \<Rightarrow> time \<Rightarrow> agent_grant \<Rightarrow> unit + 's"
  assumes find_key: "lkup s k = Inr (Some g) \<Longrightarrow> row_key g = k"
    and touch_find: "lkup (touch s i at) k = Inr (Some g') \<Longrightarrow>
      \<exists>g. lkup s k = Inr (Some g) \<and> same_grant g g'"
    and save_find: "save s fresh now g = Inr s' \<Longrightarrow> g_risk g \<noteq> OtherRisk [] \<Longrightarrow> g_revoked g = None \<Longrightarrow> g_last_used g = None \<Longrightarrow>
      \<exists>g'. lkup s' (row_key g) = Inr (Some g') \<and> g_risk g' = g_risk g \<and>
           g_binding g' = g_binding g \<and> g_revoked g' = g_revoked g \<and> g_expires g' = g_expires g \<and>
           g_created g' = (if g_created g = 0 then now else g_created g) \<and> g_last_used g' = None"
    and save_other: "save s fresh now g = Inr s' \<Longrightarrow> g_risk g \<noteq> OtherRisk [] \<Longrightarrow> k \<noteq> row_key g \<Longrightarrow> lkup s' k = lkup s k"
begin

lemma granted_in_sound:
  assumes "granted_in lkup touch s now req sc = (True, l, s')"
  shows "\<exists>g. lkup s (req_key req sc) = Inr (Some g) \<and> covers (g_risk g) (req_grant_risk req) \<and>
             lapse_at g now (gs_binding sc) = NoLapse \<and> s' = touch s (g_id g) now"
  using assms
  by (auto simp: granted_in_def split: sum.splits option.splits if_splits lapse.splits)

lemma granted_in_refused:
  "granted_in lkup touch s now req sc = (False, l, s') \<Longrightarrow> s' = s"
  by (auto simp: granted_in_def split: sum.splits option.splits if_splits lapse.splits)

lemma granted_scopes_sound:
  assumes "granted_scopes lkup touch s now req scs l0 = (True, l, s')"
  shows "\<exists>sc\<in>set scs. \<exists>g. lkup s (req_key req sc) = Inr (Some g) \<and>
           covers (g_risk g) (req_grant_risk req) \<and> lapse_at g now (gs_binding sc) = NoLapse \<and>
           s' = touch s (g_id g) now"
  using assms
proof (induction scs arbitrary: s l0)
  case Nil
  then show ?case by simp
next
  case (Cons sc scs)
  obtain ok why s1 where step: "granted_in lkup touch s now req sc = (ok, why, s1)"
    by (metis prod_cases3)
  show ?case
  proof (cases ok)
    case True
    with Cons.prems step have "s' = s1" by simp
    with step True granted_in_sound [of s now req sc why s1] show ?thesis by auto
  next
    case False
    with step have "s1 = s" using granted_in_refused by simp
    with Cons.prems step False
    have "granted_scopes lkup touch s now req scs (if l0 = NoLapse then why else l0) = (True, l, s')"
      by simp
    from Cons.IH [OF this] show ?thesis by auto
  qed
qed

lemma granted_scopes_refused:
  "granted_scopes lkup touch s now req scs l0 = (False, l, s') \<Longrightarrow> s' = s"
proof (induction scs arbitrary: s l0)
  case (Cons sc scs)
  then show ?case
    by (auto split: prod.splits bool.splits dest: granted_in_refused)
qed simp

lemma granted_scopes_complete:
  assumes "sc \<in> set scs" "lkup s (req_key req sc) = Inr (Some g)"
    and "covers (g_risk g) (req_grant_risk req)" "lapse_at g now (gs_binding sc) = NoLapse"
  shows "fst (granted_scopes lkup touch s now req scs l0)"
  using assms(1)
proof (induction scs arbitrary: l0)
  case (Cons c scs)
  obtain ok why s1 where step: "granted_in lkup touch s now req c = (ok, why, s1)"
    by (metis prod_cases3)
  show ?case
  proof (cases ok)
    case True
    with step show ?thesis by simp
  next
    case False
    with step have "s1 = s" using granted_in_refused by simp
    moreover have "c \<noteq> sc" using step False assms by (auto simp: granted_in_def)
    ultimately show ?thesis using Cons step False by simp
  qed
qed simp

lemma remember_then_find:
  assumes "remember save (Some s) fresh now ctx d (Some p) = Some s'" "s' \<noteq> s"
  shows "\<exists>sc g. run_scope ctx (p_session p) = Some sc \<and>
           lkup s' (p_tenant p, p_user p, gs_scope sc, gs_scope_id sc, p_grant p) = Inr (Some g) \<and>
           g_risk g = RiskWrite \<and> g_binding g = gs_binding sc \<and> g_revoked g = None \<and>
           g_expires g = None \<and> g_created g = now \<and> g_last_used g = None \<and>
           p_grant p \<noteq> [] \<and> p_tenant p \<noteq> 0 \<and> p_user p \<noteq> [] \<and>
           d_approved d \<and> d_allow_in_session d"
proof -
  from assms obtain sc where sc: "run_scope ctx (p_session p) = Some sc"
    and sv: "save s fresh now (remembered_grant p sc) = Inr s'"
    and ok: "p_grant p \<noteq> []" "p_tenant p \<noteq> 0" "p_user p \<noteq> []" "d_approved d" "d_allow_in_session d"
    by (auto simp: remember_def split: if_splits option.splits sum.splits)
  from save_find [OF sv] show ?thesis
    using sc ok by (auto simp: remembered_grant_def row_key_def)
qed

end

section \<open>The repository provides it\<close>

lemma find_row_key: "List.find (\<lambda>g. row_key g = k) xs = Some g \<Longrightarrow> row_key g = k"
  by (auto simp: find_Some_iff)

lemma find_map_key:
  assumes "\<And>r. r \<in> set xs \<Longrightarrow> row_key (f r) = row_key r"
  shows "List.find (\<lambda>g. row_key g = k) (map f xs)
           = map_option f (List.find (\<lambda>g. row_key g = k) xs)"
  using assms by (induction xs) auto

lemma row_key_upsert [simp]: "row_key (upsert_row g now r) = row_key r"
  by (simp add: upsert_row_def row_key_def)

lemma repo_touch_find:
  assumes "find_grant (touch_grant db i at) k = Inr (Some g')"
  shows "\<exists>g. find_grant db k = Inr (Some g) \<and> same_grant g g'"
proof -
  let ?f = "\<lambda>r. if g_id r = i then r\<lparr>g_last_used := Some at\<rparr> else r"
  have up: "\<not> db_down db"
    using assms by (auto simp: find_grant_def touch_grant_def split: if_splits)
  with assms have "List.find (\<lambda>g. row_key g = k) (map ?f (rows db)) = Some g'"
    by (simp add: find_grant_def touch_grant_def)
  moreover have "List.find (\<lambda>g. row_key g = k) (map ?f (rows db))
      = map_option ?f (List.find (\<lambda>g. row_key g = k) (rows db))"
    by (rule find_map_key) (simp add: row_key_def)
  ultimately obtain g where "List.find (\<lambda>g. row_key g = k) (rows db) = Some g" "g' = ?f g"
    by auto
  with up show ?thesis by (auto simp: find_grant_def same_grant_def)
qed

lemma repo_save_cases:
  assumes "save_grant db fresh now g = Inr db'" "g_risk g \<noteq> OtherRisk []"
  shows "\<not> db_down db \<and> \<not> db_down db' \<and>
    (\<exists>g'. row_key g' = row_key g \<and> g_risk g' = g_risk g \<and> g_binding g' = g_binding g \<and>
          g_revoked g' = g_revoked g \<and> g_expires g' = g_expires g \<and> g_last_used g' = g_last_used g \<and>
          g_created g' = (if g_created g = 0 then now else g_created g) \<and>
          (if List.find (\<lambda>r. row_key r = row_key g) (rows db) = None
           then rows db' = rows db @ [g']
           else rows db' = map (\<lambda>r. if row_key r = row_key g then upsert_row g' now r else r) (rows db)))"
proof -
  let ?g2 = "if g_created g = 0 then g\<lparr>g_created := now\<rparr> else g"
  let ?g3 = "?g2\<lparr>g_updated := now\<rparr>"
  let ?g = "if g_id ?g3 = [] then ?g3\<lparr>g_id := fresh\<rparr> else ?g3"
  have key: "row_key ?g = row_key g"
    by (simp add: row_key_def)
  have "save_grant db fresh now g =
     (if g_tenant g = 0 \<or> g_user g = [] \<or> g_scope g = [] \<or> g_scope_id g = [] \<or> g_key g = [] then Inl ()
      else if db_down db then Inl ()
      else if List.find (\<lambda>r. row_key r = row_key ?g) (rows db) = None
      then Inr (db\<lparr>rows := rows db @ [?g]\<rparr>)
      else Inr (db\<lparr>rows := map (\<lambda>r. if row_key r = row_key ?g then upsert_row ?g now r else r) (rows db)\<rparr>))"
    using assms(2) by (simp only: save_grant_def Let_def if_False simp_thms)
  with assms(1) key show ?thesis
    by (intro conjI exI [of _ ?g]) (auto split: if_splits)
qed

lemma repo_save_find:
  assumes "save_grant db fresh now g = Inr db'" "g_risk g \<noteq> OtherRisk []" "g_revoked g = None"
    and "g_last_used g = None"
  shows "\<exists>g'. find_grant db' (row_key g) = Inr (Some g') \<and> g_risk g' = g_risk g \<and>
           g_binding g' = g_binding g \<and> g_revoked g' = g_revoked g \<and> g_expires g' = g_expires g \<and>
           g_created g' = (if g_created g = 0 then now else g_created g) \<and> g_last_used g' = None"
proof -
  let ?P = "\<lambda>r. row_key r = row_key g"
  from repo_save_cases [OF assms(1,2)] obtain n where up: "\<not> db_down db'"
    and n: "row_key n = row_key g" "g_risk n = g_risk g" "g_binding n = g_binding g"
      "g_revoked n = g_revoked g" "g_expires n = g_expires g"
      "g_created n = (if g_created g = 0 then now else g_created g)" "g_last_used n = g_last_used g"
    and rows: "if List.find ?P (rows db) = None then rows db' = rows db @ [n]
       else rows db' = map (\<lambda>r. if ?P r then upsert_row n now r else r) (rows db)"
    by auto
  show ?thesis
  proof (cases "List.find ?P (rows db)")
    case None
    with rows n up have "find_grant db' (row_key g) = Inr (Some n)"
      by (simp add: find_grant_def find_append)
    show ?thesis
    proof (intro exI conjI)
      show "find_grant db' (row_key g) = Inr (Some n)" by fact
    qed (use n assms(3,4) in simp_all)
  next
    case (Some r)
    then have "row_key r = row_key g" by (rule find_row_key)
    with Some rows up have "find_grant db' (row_key g) = Inr (Some (upsert_row n now r))"
      by (simp add: find_grant_def find_map_key)
    with n assms(3) show ?thesis by (auto simp: upsert_row_def)
  qed
qed

lemma repo_save_other:
  assumes "save_grant db fresh now g = Inr db'" "g_risk g \<noteq> OtherRisk []" "k \<noteq> row_key g"
  shows "find_grant db' k = find_grant db k"
proof -
  have keep: "List.find (\<lambda>r. row_key r = k)
      (map (\<lambda>r. if row_key r = row_key g then upsert_row n t r else r) xs)
        = List.find (\<lambda>r. row_key r = k) xs" for n t xs
    using assms(3) by (induction xs) auto
  from repo_save_cases [OF assms(1,2)] assms(3) show ?thesis
    by (auto simp: find_grant_def find_append keep split: if_splits option.splits)
qed

lemma repo_find_key: "find_grant db k = Inr (Some g) \<Longrightarrow> row_key g = k"
  by (auto simp: find_grant_def split: if_splits dest: find_row_key)

interpretation repo: grant_store find_grant touch_grant save_grant
  by (unfold_locales; (rule repo_find_key repo_touch_find repo_save_find repo_save_other; assumption))

section \<open>Properties\<close>

lemma scope_of_request_key:
  "row_key g = req_key req sc \<longleftrightarrow> g_tenant g = rq_tenant req \<and> g_user g = rq_user req \<and>
     g_scope g = gs_scope sc \<and> g_scope_id g = gs_scope_id sc \<and> g_key g = rq_grant req"
  by (auto simp: row_key_def req_key_def)

lemma find_grant_in_rows:
  "find_grant db k = Inr (Some g) \<Longrightarrow> g \<in> set (rows db) \<and> row_key g = k \<and> \<not> db_down db"
  by (auto simp: find_grant_def find_Some_iff split: if_splits)

lemma granted_cases:
  assumes "granted lkup touch store now ctx standing req = (True, l, store')"
  shows "\<exists>db db'. store = Some db \<and> store' = Some db' \<and>
           granted_scopes lkup touch db now req (request_scopes ctx standing req) NoLapse = (True, l, db')"
  using assms by (auto simp: granted_def split: option.splits if_splits prod.splits)

lemma granted_only_by_live_grant':
  assumes "granted find_grant touch_grant (Some db) now ctx standing req = (True, l, store')"
  shows "\<exists>g sc. g \<in> set (rows db) \<and> sc \<in> set (request_scopes ctx standing req) \<and>
     row_key g = req_key req sc \<and>
     covers (g_risk g) (req_grant_risk req) \<and> active_at (Some g) now (gs_binding sc) \<and>
     store' = Some (touch_grant db (g_id g) now)"
proof -
  from granted_cases [OF assms] obtain db' where st: "store' = Some db'"
    and run: "granted_scopes find_grant touch_grant db now req (request_scopes ctx standing req) NoLapse
       = (True, l, db')" by auto
  from repo.granted_scopes_sound [OF run] obtain sc g
    where sc: "sc \<in> set (request_scopes ctx standing req)"
      and f: "find_grant db (req_key req sc) = Inr (Some g)"
      and g: "covers (g_risk g) (req_grant_risk req)" "lapse_at g now (gs_binding sc) = NoLapse"
        "db' = touch_grant db (g_id g) now" by auto
  from find_grant_in_rows [OF f] sc g st show ?thesis
    by (auto simp: active_at_def)
qed

text \<open>
  A call runs on a remembered approval only if the store holds a row of the same tenant,
  user and grant key, in the run's own or standing scope and under that scope's binding, that
  is neither revoked nor expired nor idle and was approved for at least the call's risk; and
  granting it changes nothing in the store but the row's time of last use.
\<close>

theorem granted_only_by_live_grant:
  assumes "granted find_grant touch_grant (Some db) now ctx standing req = (True, l, store')"
  shows "\<exists>g sc. g \<in> set (rows db) \<and> sc \<in> set (request_scopes ctx standing req) \<and>
     g_tenant g = rq_tenant req \<and> g_user g = rq_user req \<and> g_key g = rq_grant req \<and>
     g_scope g = gs_scope sc \<and> g_scope_id g = gs_scope_id sc \<and>
     covers (g_risk g) (req_grant_risk req) \<and> active_at (Some g) now (gs_binding sc) \<and>
     store' = Some (touch_grant db (g_id g) now)"
  using granted_only_by_live_grant' [OF assms] by (auto simp: scope_of_request_key)

definition example_scope :: "grant_scope" where
  "example_scope = \<lparr>gs_scope = ''session'', gs_scope_id = ''s1'', gs_binding = []\<rparr>"

definition example_grant :: "agent_grant" where
  "example_grant =
     \<lparr>g_id = ''g1'', g_tenant = 7, g_user = ''u1'', g_scope = ''session'', g_scope_id = ''s1'',
      g_key = ''kb:write'', g_label = [], g_binding = [], g_risk = RiskWrite, g_prompt = ''p1'',
      g_created = 10, g_updated = 10, g_last_used = None, g_expires = None, g_revoked = None\<rparr>"

definition example_request :: "pending_request" where
  "example_request =
     \<lparr>rq_tenant = 7, rq_user = ''u1'', rq_session = ''s1'', rq_grant = ''kb:write'',
      rq_grant_scope = ''this base'', rq_grant_risk = RiskWrite\<rparr>"

lemmas grant_eval = granted_def request_scopes_def run_scope_def scope_from_context_def opt_list_def
  granted_in_def find_grant_def req_key_def row_key_def example_grant_def example_request_def
  req_grant_risk_def policy_defs lapse_at_def touch_grant_def

lemma granted_only_by_live_grant_witness:
  "\<exists>g. g \<in> set [example_grant] \<and> g_user g = ''u1'' \<and> g_key g = ''kb:write'' \<and> covers (g_risk g) RiskWrite"
proof -
  have "granted find_grant touch_grant (Some \<lparr>rows = [example_grant], db_down = False\<rparr>) 20 None None
     example_request = (True, NoLapse,
       Some (touch_grant \<lparr>rows = [example_grant], db_down = False\<rparr> ''g1'' 20))"
    by (simp add: grant_eval)
  from granted_only_by_live_grant [OF this] show ?thesis
    by (auto simp: example_request_def req_grant_risk_def)
qed

text \<open>
  Round trip of remembering: once an approved prompt allowed the rest of the run and the
  store took it, a later call of the same user, tenant and grant key in the same run scope is
  granted without asking, at any later time, whenever its risk is at most a recoverable write.
\<close>

theorem remembered_grant_is_used:
  assumes rem: "remember save_grant (Some db) fresh now ctx d (Some p) = Some db'" "db' \<noteq> db"
    and req: "rq_tenant req = p_tenant p" "rq_user req = p_user p" "rq_session req = p_session p"
      "rq_grant req = p_grant p" "req_grant_risk req \<in> {RiskRead, RiskProbe, RiskWrite}"
    and sess: "run_scope ctx (p_session p) = Some sc" "gs_scope sc \<noteq> ''automation''"
  shows "fst (granted find_grant touch_grant (Some db') later ctx standing req)"
proof -
  from repo.remember_then_find [OF rem] sess obtain g
    where f: "find_grant db' (p_tenant p, p_user p, gs_scope sc, gs_scope_id sc, p_grant p) = Inr (Some g)"
      and g: "g_risk g = RiskWrite" "g_binding g = gs_binding sc" "g_revoked g = None" "g_expires g = None"
      and p: "p_grant p \<noteq> []" "p_tenant p \<noteq> 0" "p_user p \<noteq> []" by auto
  have scin: "sc \<in> set (request_scopes ctx standing req)"
    using sess req by (simp add: request_scopes_def opt_list_def)
  have f': "find_grant db' (req_key req sc) = Inr (Some g)"
    using f req by (simp add: req_key_def)
  have "g_scope g = gs_scope sc"
    using find_grant_in_rows [OF f'] by (simp add: scope_of_request_key)
  with g sess have live: "lapse_at g later (gs_binding sc) = NoLapse"
    by (simp add: lapse_at_def)
  have cov: "covers (g_risk g) (req_grant_risk req)"
    using g req by (simp add: covers_write)
  have "fst (granted_scopes find_grant touch_grant db' later req (request_scopes ctx standing req) NoLapse)"
    by (rule repo.granted_scopes_complete [OF scin f' cov live])
  with p req show ?thesis
    by (auto simp: granted_def split: prod.splits)
qed

definition example_prompt :: stored_prompt where
  "example_prompt = \<lparr>p_id = ''p1'', p_tenant = 7, p_user = ''u1'', p_session = ''s1'',
     p_grant = ''kb:write'', p_grant_scope = ''this base''\<rparr>"

lemma remembered_grant_is_used_witness:
  "\<exists>db'. remember save_grant (Some \<lparr>rows = [], db_down = False\<rparr>) ''g1'' 10 None
     \<lparr>d_approved = True, d_allow_in_session = True\<rparr> (Some example_prompt) = Some db' \<and>
   fst (granted find_grant touch_grant (Some db') 99 None None example_request)"
proof -
  let ?db' = "\<lparr>rows = [example_grant\<lparr>g_label := ''this base''\<rparr>], db_down = False\<rparr>"
  have rem: "remember save_grant (Some \<lparr>rows = [], db_down = False\<rparr>) ''g1'' 10 None
     \<lparr>d_approved = True, d_allow_in_session = True\<rparr> (Some example_prompt) = Some ?db'"
    by (simp add: remember_def example_prompt_def run_scope_def scope_from_context_def
        save_grant_def remembered_grant_def example_grant_def)
  have "fst (granted find_grant touch_grant (Some ?db') 99 None None example_request)"
    by (rule remembered_grant_is_used [OF rem, where sc = example_scope])
      (simp_all add: example_request_def example_prompt_def req_grant_risk_def run_scope_def
        scope_from_context_def example_scope_def)
  with rem show ?thesis by blast
qed

lemma save_grant_risks:
  assumes "save_grant db fresh now g = Inr db'" "g_risk g = RiskWrite"
    and "\<forall>r\<in>set (rows db). g_risk r = RiskWrite"
  shows "\<forall>r\<in>set (rows db'). g_risk r = RiskWrite"
  using assms
  by (auto simp: save_grant_def upsert_row_def Let_def split: if_splits)

text \<open>
  C21. Remembering never escalates: \<open>remember\<close> only ever stores recoverable-write grants, and a
  store that holds only those grants no destructive call, whoever asks and in whatever scope.
\<close>

theorem remembering_never_escalates:
  assumes "\<forall>r\<in>set (rows db). g_risk r = RiskWrite"
    and "remember save_grant (Some db) fresh now ctx d prompt = Some db'"
  shows "(\<forall>r\<in>set (rows db'). g_risk r = RiskWrite) \<and>
    (req_grant_risk req = RiskDestructive \<longrightarrow>
       \<not> fst (granted find_grant touch_grant (Some db') later ctx' standing req))"
proof
  show w: "\<forall>r\<in>set (rows db'). g_risk r = RiskWrite"
    using assms
    by (auto simp: remember_def remembered_grant_def
        split: option.splits if_splits sum.splits dest!: save_grant_risks)
  show "req_grant_risk req = RiskDestructive \<longrightarrow>
      \<not> fst (granted find_grant touch_grant (Some db') later ctx' standing req)"
  proof (intro impI notI)
    assume r: "req_grant_risk req = RiskDestructive"
      and "fst (granted find_grant touch_grant (Some db') later ctx' standing req)"
    then obtain l st where
      "granted find_grant touch_grant (Some db') later ctx' standing req = (True, l, st)"
      by (metis prod_cases3 fst_conv)
    from granted_only_by_live_grant' [OF this] w r show False
      by (auto simp: covers_write)
  qed
qed

lemma remembering_never_escalates_witness:
  "\<not> fst (granted find_grant touch_grant (Some \<lparr>rows = [example_grant], db_down = False\<rparr>) 99 None None
     (example_request\<lparr>rq_grant_risk := RiskDestructive\<rparr>))"
proof -
  have e: "remember save_grant (Some \<lparr>rows = [example_grant], db_down = False\<rparr>) ''g2'' 10 None
     \<lparr>d_approved = False, d_allow_in_session = False\<rparr> None
       = Some \<lparr>rows = [example_grant], db_down = False\<rparr>"
    by (simp add: remember_def)
  show ?thesis
    using remembering_never_escalates [OF _ e, where req = "example_request\<lparr>rq_grant_risk := RiskDestructive\<rparr>"]
    by (simp add: example_grant_def req_grant_risk_def example_request_def)
qed

end
