(* ===== verification/ApprovalJson.thy ===== *)
theory ApprovalJson
  imports PromptStore
begin

text \<open>
  What the approval gate uses of package \<open>encoding/json\<close>: decoding an object into a struct of
  scalar fields, with and without \<open>DisallowUnknownFields\<close>, and encoding one. A struct is the list
  of its fields by their JSON name; a document is the tree its bytes stand for.
\<close>

section \<open>Decoding into a struct\<close>

text \<open>The values of a field: a boolean, a pointer to one, a string, a \<open>RawMessage\<close>.\<close>

datatype slot =
    SBool bool
  | SFlag "bool option"
  | SText string
  | SRaw raw

type_synonym struct = "(string \<times> slot) list"

text \<open>
  A key names the field of exactly that name, else the first one of the same folded name. Folding
  maps a rune to the smallest in its class; of the runes outside ASCII only the Kelvin sign
  and the long s are in the class of an ASCII letter.
\<close>

definition upper_byte :: "char \<Rightarrow> char" where
  "upper_byte c = (let n = of_char c :: nat in if 97 \<le> n \<and> n \<le> 122 then char_of (n - 32) else c)"

fun fold_name :: "string \<Rightarrow> string" where
  "fold_name [] = []"
| "fold_name (c # cs) =
     (if c = CHR 0xE2 \<and> take 2 cs = [CHR 0x84, CHR 0xAA] then CHR ''K'' # fold_name (drop 2 cs)
      else if c = CHR 0xC5 \<and> take 1 cs = [CHR 0xBF] then CHR ''S'' # fold_name (drop 1 cs)
      else upper_byte c # fold_name cs)"

definition find_field :: "struct \<Rightarrow> string \<Rightarrow> string option" where
  "find_field fs key =
     (if key \<in> fst ` set fs then Some key
      else map_option fst (List.find (\<lambda>f. fold_name (fst f) = fold_name key) fs))"

text \<open>\<open>null\<close> leaves a value alone, except that a pointer becomes nil and raw bytes are kept.\<close>

fun put_slot :: "slot \<Rightarrow> json \<Rightarrow> slot option" where
  "put_slot (SRaw r) j = Some (SRaw (Doc j))"
| "put_slot (SFlag b) JNull = Some (SFlag None)"
| "put_slot (SFlag b) (JBool c) = Some (SFlag (Some c))"
| "put_slot (SBool b) JNull = Some (SBool b)"
| "put_slot (SBool b) (JBool c) = Some (SBool c)"
| "put_slot (SText s) JNull = Some (SText s)"
| "put_slot (SText s) (JStr u) = Some (SText u)"
| "put_slot _ _ = None"

fun decode_fields :: "bool \<Rightarrow> (string \<times> json) list \<Rightarrow> struct \<Rightarrow> struct option" where
  "decode_fields strict [] fs = Some fs"
| "decode_fields strict ((key, v) # kvs) fs =
     (case find_field fs key of
        None \<Rightarrow> if strict then None else decode_fields strict kvs fs
      | Some name \<Rightarrow>
          (case map_of fs name of
             None \<Rightarrow> None
           | Some old \<Rightarrow>
               (case put_slot old v of
                  None \<Rightarrow> None
                | Some new \<Rightarrow> decode_fields strict kvs (AList.update name new fs))))"

definition decode_struct :: "bool \<Rightarrow> struct \<Rightarrow> raw \<Rightarrow> struct option" where
  "decode_struct strict zero r =
     (case r of
        Doc j \<Rightarrow> (case j of JNull \<Rightarrow> Some zero | JObj kvs \<Rightarrow> decode_fields strict kvs zero | _ \<Rightarrow> None)
      | _ \<Rightarrow> None)"

text \<open>Reading the fields of a decoded struct.\<close>

definition text_of :: "struct \<Rightarrow> string \<Rightarrow> string" where
  "text_of fs name = (case map_of fs name of Some (SText s) \<Rightarrow> s | _ \<Rightarrow> [])"

definition bool_of :: "struct \<Rightarrow> string \<Rightarrow> bool" where
  "bool_of fs name = (case map_of fs name of Some (SBool b) \<Rightarrow> b | _ \<Rightarrow> False)"

definition flag_of :: "struct \<Rightarrow> string \<Rightarrow> bool option" where
  "flag_of fs name = (case map_of fs name of Some (SFlag b) \<Rightarrow> b | _ \<Rightarrow> None)"

definition raw_of :: "struct \<Rightarrow> string \<Rightarrow> raw" where
  "raw_of fs name = (case map_of fs name of Some (SRaw r) \<Rightarrow> r | _ \<Rightarrow> NoBytes)"

section \<open>Encoding a struct\<close>

text \<open>Bytes of a string that are not UTF-8 are encoded as the replacement character.\<close>

definition json_text :: "string \<Rightarrow> string" where
  "json_text s =
     concat (map (\<lambda>(r, bs). if r = rune_error \<and> length bs = 1 then [CHR 0xEF, CHR 0xBF, CHR 0xBD] else bs)
       (rune_segs s))"

text \<open>A member of an object with \<open>omitempty\<close>; raw bytes must be a document.\<close>

definition text_member :: "string \<Rightarrow> string \<Rightarrow> (string \<times> json) list" where
  "text_member name s = (if s = [] then [] else [(name, JStr (json_text s))])"

definition bool_member :: "string \<Rightarrow> bool \<Rightarrow> (string \<times> json) list" where
  "bool_member name b = (if b then [(name, JBool True)] else [])"

definition raw_member :: "string \<Rightarrow> raw \<Rightarrow> (string \<times> json) list" where
  "raw_member name r = (case r of Doc j \<Rightarrow> [(name, j)] | _ \<Rightarrow> [])"

section \<open>Facts\<close>

lemma json_text_Nil [simp]: "json_text [] = []"
  by (simp add: json_text_def)

lemma json_text_ascii: "ascii s \<Longrightarrow> json_text s = s"
proof (induction s)
  case (Cons c s)
  then have "(of_char c :: nat) < 0x80" "ascii s" by simp_all
  with Cons.IH show ?case by (simp add: json_text_def rune_segs_ascii rune_error_def)
qed simp

lemma find_field_exact [simp]: "key \<in> fst ` set fs \<Longrightarrow> find_field fs key = Some key"
  by (simp add: find_field_def)

lemma map_fst_update_known: "map_of fs name = Some old \<Longrightarrow> map fst (AList.update name v fs) = map fst fs"
  by (induction fs) auto

lemma decode_fields_names: "decode_fields strict kvs fs = Some fs' \<Longrightarrow> map fst fs' = map fst fs"
proof (induction kvs arbitrary: fs)
  case (Cons kv kvs)
  obtain key v where "kv = (key, v)" by fastforce
  with Cons show ?case
    by (auto simp: map_fst_update_known split: option.splits if_splits)
qed simp

section \<open>Evaluation\<close>

text \<open>
  Equations that evaluate plain ASCII text without decoding it, for the examples.
\<close>

lemma json_text_code [code]:
  "json_text s = (if \<forall>c \<in> set s. \<not> digit7 c then s else
     concat (map (\<lambda>(r, bs). if r = rune_error \<and> length bs = 1 then [CHR 0xEF, CHR 0xBF, CHR 0xBD] else bs)
       (rune_segs s)))"
  using json_text_ascii [OF plain_bytes_ascii, of s] by (simp add: json_text_def)

end
