(* ===== verification/ApprovalGate.thy ===== *)
theory ApprovalGate
  imports PromptBroker Grants ApprovalJson
begin

text \<open>
  The approval gate: \<open>internal/agent/approval/gate.go\<close>, with the requests and responses of
  \<open>internal/types/agent_prompt.go\<close> and the run modes of \<open>internal/types/run_mode.go\<close>. A call asks
  the remembered grants first, then the user through the prompt broker; the answer is
  claimed before the call may run.

  The gate's state is the prompt store and the grant store. What a call draws from its
  surroundings is explicit: the context before and after the wait, fresh identifiers, times, and
  the events of the wait. The events shown to clients are left out; only whether showing the
  card failed matters.
\<close>

section \<open>Requests and responses as documents\<close>

definition lapse_label :: "lapse \<Rightarrow> string" where
  "lapse_label l =
     (case l of NoLapse \<Rightarrow> [] | LapseRevoked \<Rightarrow> ''revoked'' | LapseExpired \<Rightarrow> ''expired''
      | LapseChanged \<Rightarrow> ''changed'' | LapseIdle \<Rightarrow> ''idle'')"

definition risk_label :: "risk \<Rightarrow> string" where
  "risk_label r =
     (case r of RiskRead \<Rightarrow> ''read'' | RiskProbe \<Rightarrow> ''probe'' | RiskWrite \<Rightarrow> ''write''
      | RiskDestructive \<Rightarrow> ''destructive'' | OtherRisk s \<Rightarrow> s)"

text \<open>
  \<open>PendingRequest\<close>: \<open>tq_call\<close> holds the fields grants read. The event bus is nil or a function
  that says whether the card of a prompt could be shown.
\<close>

record tool_request =
  tq_call :: pending_request
  tq_message :: string
  tq_request_id :: string
  tq_bus :: "(agent_prompt \<Rightarrow> bool) option"
  tq_service_id :: string
  tq_service_name :: string
  tq_mcp_tool :: string
  tq_registered :: string
  tq_description :: string
  tq_args :: raw
  tq_tool_call :: string
  tq_snapshot :: "raw option"
  tq_version :: int

definition grant_risk_label :: "pending_request \<Rightarrow> string" where
  "grant_risk_label rq = (if rq_grant rq = [] then [] else risk_label (req_grant_risk rq))"

definition grant_label :: "pending_request \<Rightarrow> string" where
  "grant_label rq = (if rq_grant rq = [] then [] else rq_grant_scope rq)"

definition encode_tool_request :: "tool_request \<Rightarrow> lapse \<Rightarrow> raw option" where
  "encode_tool_request rq lapse =
     (if tq_args rq = Malformed then None
      else Some (Doc (JObj
        ([(''service_id'', JStr (json_text (tq_service_id rq))),
          (''service_name'', JStr (json_text (tq_service_name rq))),
          (''mcp_tool_name'', JStr (json_text (tq_mcp_tool rq))),
          (''registered_tool_name'', JStr (json_text (tq_registered rq)))]
         @ text_member ''description'' (tq_description rq)
         @ raw_member ''args'' (tq_args rq)
         @ text_member ''grant'' (rq_grant (tq_call rq))
         @ text_member ''grant_scope'' (offered_grant_scope (tq_call rq))
         @ text_member ''grant_lapsed'' (lapse_label lapse)
         @ text_member ''grant_risk'' (grant_risk_label (tq_call rq))
         @ text_member ''grant_label'' (grant_label (tq_call rq))))))"

text \<open>A host approval names only the registered tool.\<close>

definition encode_host_request :: "string \<Rightarrow> raw" where
  "encode_host_request tool =
     Doc (JObj [(''service_id'', JStr []), (''service_name'', JStr []), (''mcp_tool_name'', JStr []),
                (''registered_tool_name'', JStr (json_text tool))])"

definition request_zero :: struct where
  "request_zero =
     [(''service_id'', SText []), (''service_name'', SText []), (''mcp_tool_name'', SText []),
      (''registered_tool_name'', SText []), (''description'', SText []), (''args'', SRaw NoBytes),
      (''grant'', SText []), (''grant_scope'', SText []), (''grant_lapsed'', SText []),
      (''grant_risk'', SText []), (''grant_label'', SText [])]"

record approval_response =
  ar_approved :: bool
  ar_args :: raw
  ar_reason :: string
  ar_allow :: bool
  ar_scope :: string
  ar_access :: string

definition encode_approval :: "approval_response \<Rightarrow> raw option" where
  "encode_approval a =
     (if ar_args a = Malformed then None
      else Some (Doc (JObj
        ([(''approved'', JBool (ar_approved a))]
         @ raw_member ''modified_args'' (ar_args a)
         @ text_member ''reason'' (ar_reason a)
         @ bool_member ''allow_in_session'' (ar_allow a)
         @ text_member ''scope'' (ar_scope a)
         @ text_member ''access'' (ar_access a)))))"

definition approval_fields :: "slot \<Rightarrow> struct" where
  "approval_fields approved =
     [(''approved'', approved), (''modified_args'', SRaw NoBytes), (''reason'', SText []),
      (''allow_in_session'', SBool False), (''scope'', SText []), (''access'', SText [])]"

definition read_approval :: "raw \<Rightarrow> approval_response option" where
  "read_approval r =
     (case decode_struct False (approval_fields (SBool False)) r of
        None \<Rightarrow> None
      | Some fs \<Rightarrow>
          Some \<lparr>ar_approved = bool_of fs ''approved'', ar_args = raw_of fs ''modified_args'',
                ar_reason = text_of fs ''reason'', ar_allow = bool_of fs ''allow_in_session'',
                ar_scope = text_of fs ''scope'', ar_access = text_of fs ''access''\<rparr>)"

definition json_object :: "raw \<Rightarrow> bool" where
  "json_object r = (case r of Doc (JObj kvs) \<Rightarrow> True | _ \<Rightarrow> False)"

text \<open>The validator of the kind: strict, with a required verdict.\<close>

definition validate_tool_approval :: "raw \<Rightarrow> raw \<Rightarrow> bool" where
  "validate_tool_approval request response =
     (case decode_struct True (approval_fields (SFlag None)) response of
        None \<Rightarrow> False
      | Some fs \<Rightarrow>
          (case flag_of fs ''approved'' of
             None \<Rightarrow> False
           | Some approved \<Rightarrow>
               if bool_of fs ''allow_in_session''
                  \<and> (\<not> approved
                     \<or> (case decode_struct False request_zero request of
                          None \<Rightarrow> True
                        | Some offer \<Rightarrow> text_of offer ''grant'' = [] \<or> text_of offer ''grant_scope'' = []))
               then False
               else if raw_of fs ''modified_args'' = NoBytes then True
               else approved \<and> json_object (raw_of fs ''modified_args'')))"

record oauth_response =
  or_authorized :: bool
  or_reason :: string

definition encode_oauth :: "oauth_response \<Rightarrow> raw" where
  "encode_oauth a =
     Doc (JObj ([(''authorized'', JBool (or_authorized a))] @ text_member ''reason'' (or_reason a)))"

definition read_oauth :: "raw \<Rightarrow> oauth_response option" where
  "read_oauth r =
     (case decode_struct False [(''authorized'', SBool False), (''reason'', SText [])] r of
        None \<Rightarrow> None
      | Some fs \<Rightarrow> Some \<lparr>or_authorized = bool_of fs ''authorized'', or_reason = text_of fs ''reason''\<rparr>)"

definition validate_mcp_oauth :: "raw \<Rightarrow> raw \<Rightarrow> bool" where
  "validate_mcp_oauth request response = (read_oauth response \<noteq> None)"

text \<open>
  The kinds the gate registers with its broker. The validators of questions, page actions
  and secure forms belong to package types and are arguments.
\<close>

definition kind_tool_approval :: string where "kind_tool_approval = ''tool_approval''"
definition kind_mcp_oauth :: string where "kind_mcp_oauth = ''mcp_oauth''"
definition kind_ask_user :: string where "kind_ask_user = ''ask_user''"
definition kind_page_action :: string where "kind_page_action = ''page_action''"
definition kind_secure_form :: string where "kind_secure_form = ''secure_form''"

definition gate_validators ::
    "(raw \<Rightarrow> raw \<Rightarrow> bool) \<Rightarrow> (raw \<Rightarrow> raw \<Rightarrow> bool) \<Rightarrow> (raw \<Rightarrow> raw \<Rightarrow> bool) \<Rightarrow> validators" where
  "gate_validators ask page form kind =
     (if kind = kind_tool_approval then Some validate_tool_approval
      else if kind = kind_mcp_oauth then Some validate_mcp_oauth
      else if kind = kind_ask_user then Some ask
      else if kind = kind_page_action then Some page
      else if kind = kind_secure_form then Some form
      else None)"

section \<open>The gate and its surroundings\<close>

definition second :: int where
  "second = 1000000000"

record gate =
  gt_timeout :: int
  gt_hot_wait :: int
  gt_fail_close :: bool
  gt_broker :: broker_config

record agent_settings =
  as_approval_timeout :: int
  as_hot_wait :: int

definition prompt_hot_wait :: "agent_settings option \<Rightarrow> int" where
  "prompt_hot_wait cfg =
     (case cfg of None \<Rightarrow> 120 * second
      | Some a \<Rightarrow> if as_hot_wait a \<le> 0 then 120 * second else as_hot_wait a * second)"

text \<open>\<open>NewGate\<close>; \<open>env\<close> is the variable that lets policy errors through.\<close>

definition new_gate :: "agent_settings option \<Rightarrow> string \<Rightarrow> broker_config \<Rightarrow> gate" where
  "new_gate cfg env broker =
     \<lparr>gt_timeout = (case cfg of
         Some a \<Rightarrow> if 0 < as_approval_timeout a then as_approval_timeout a * second else 600 * second
       | None \<Rightarrow> 600 * second),
      gt_hot_wait = prompt_hot_wait cfg,
      gt_fail_close = (fold_name (trim_space env) \<noteq> ''TRUE''),
      gt_broker = broker\<rparr>"

datatype run_mode = Attended | Deferred | Unattended | OtherMode string

fun normalize_mode :: "run_mode \<Rightarrow> run_mode" where
  "normalize_mode Attended = Attended"
| "normalize_mode Deferred = Deferred"
| "normalize_mode Unattended = Unattended"
| "normalize_mode (OtherMode s) = Unattended"

definition mode_from_context :: "run_mode option \<Rightarrow> run_mode" where
  "mode_from_context m = (case m of None \<Rightarrow> Unattended | Some m \<Rightarrow> normalize_mode m)"

text \<open>
  The context: \<open>cx_live\<close> and \<open>cx_live_after\<close> say whether it has no error before and after the
  wait, \<open>cx_check_after\<close> is the delegation's verdict after the wait.
\<close>

record run_context =
  cx_live :: bool
  cx_live_after :: bool
  cx_delegation :: "delegation option"
  cx_check_after :: bool
  cx_mode :: "run_mode option"
  cx_scope :: "grant_scope option"
  cx_standing :: "grant_scope option"

definition delegation_after :: "run_context \<Rightarrow> delegation option" where
  "delegation_after cx = map_option (\<lambda>d. d\<lparr>dl_check := cx_check_after cx\<rparr>) (cx_delegation cx)"

text \<open>Identifiers and times a call draws, and what happens while it waits.\<close>

record 's surroundings =
  sr_prompt :: string
  sr_token :: string
  sr_grant :: string
  sr_now :: instant
  sr_later :: instant
  sr_events :: "'s await_event list"

record 'g grant_ops =
  go_find :: "'g \<Rightarrow> grant_key \<Rightarrow> unit + agent_grant option"
  go_touch :: "'g \<Rightarrow> string \<Rightarrow> time \<Rightarrow> 'g"
  go_save :: "'g \<Rightarrow> string \<Rightarrow> time \<Rightarrow> agent_grant \<Rightarrow> unit + 'g"

text \<open>The production gate keeps its grants in the repository of theory \<open>Grants\<close>.\<close>

definition repo_grants :: "grant_db grant_ops" where
  "repo_grants = \<lparr>go_find = find_grant, go_touch = touch_grant, go_save = save_grant\<rparr>"

type_synonym ('s, 'g) gate_state = "'s \<times> 'g option"

section \<open>Decisions\<close>

record suspension =
  su_detached :: bool
  su_prompt :: string
  su_kind :: string
  su_expires :: "instant option"

record decision =
  dc_owner :: string
  dc_answered :: bool
  dc_pending :: string
  dc_approved :: bool
  dc_args :: raw
  dc_reason :: string
  dc_timed_out :: bool
  dc_canceled :: bool
  dc_allow :: bool
  dc_granted :: bool
  dc_suspended :: "suspension option"
  dc_scope :: string
  dc_access :: string

definition no_decision :: decision where
  "no_decision =
     \<lparr>dc_owner = [], dc_answered = False, dc_pending = [], dc_approved = False, dc_args = NoBytes,
      dc_reason = [], dc_timed_out = False, dc_canceled = False, dc_allow = False,
      dc_granted = False, dc_suspended = None, dc_scope = [], dc_access = []\<rparr>"

datatype gate_error =
    NilGate | NoEventBus | NoSessionOwner | BadRequest | AwaitFailed await_error | BadKind
  | BadResponse | ResolveFailed resolve_error

definition outcome_decision :: "outcome \<Rightarrow> decision" where
  "outcome_decision out =
     no_decision\<lparr>dc_pending := ap_id (oc_prompt out), dc_owner := ap_owner (oc_prompt out),
                 dc_answered := oc_answered out, dc_reason := oc_reason out,
                 dc_timed_out := oc_timed_out out, dc_canceled := oc_canceled out\<rparr>"

definition tool_approval_decision :: "outcome \<Rightarrow> decision" where
  "tool_approval_decision out =
     (let d = outcome_decision out in
      if \<not> oc_answered out then d
      else (case read_approval (ap_response (oc_prompt out)) of
              None \<Rightarrow> d\<lparr>dc_reason := ''unreadable approval response''\<rparr>
            | Some r \<Rightarrow>
                d\<lparr>dc_approved := ar_approved r, dc_reason := ar_reason r,
                  dc_scope := ar_scope r, dc_access := ar_access r,
                  dc_args := (if ar_approved r then ar_args r else NoBytes),
                  dc_allow := (ar_approved r \<and> ar_allow r)\<rparr>))"

definition oauth_decision :: "outcome \<Rightarrow> decision" where
  "oauth_decision out =
     (let d = outcome_decision out in
      if \<not> oc_answered out then d
      else (case read_oauth (ap_response (oc_prompt out)) of
              None \<Rightarrow> d\<lparr>dc_reason := ''unreadable authorization response''\<rparr>
            | Some r \<Rightarrow> d\<lparr>dc_approved := or_authorized r, dc_reason := or_reason r\<rparr>))"

text \<open>What \<open>remember\<close> reads of the stored prompt.\<close>

definition stored_of :: "agent_prompt \<Rightarrow> stored_prompt" where
  "stored_of p =
     (let offer = decode_struct False request_zero (ap_request p) in
      \<lparr>p_id = ap_id p, p_tenant = ap_tenant p, p_user = ap_user p, p_session = ap_session p,
       p_grant = (case offer of None \<Rightarrow> [] | Some fs \<Rightarrow> text_of fs ''grant''),
       p_grant_scope = (case offer of None \<Rightarrow> [] | Some fs \<Rightarrow> text_of fs ''grant_scope'')\<rparr>)"

definition remember_decision ::
    "'g grant_ops \<Rightarrow> run_context \<Rightarrow> string \<Rightarrow> instant \<Rightarrow> decision \<Rightarrow> agent_prompt \<Rightarrow> 'g option \<Rightarrow> 'g option" where
  "remember_decision gops cx fresh now d p g =
     remember (go_save gops) g fresh now (cx_scope cx)
       \<lparr>d_approved = dc_approved d, d_allow_in_session = dc_allow d\<rparr> (Some (stored_of p))"

definition unowned_reason :: string where
  "unowned_reason = ''approval is no longer owned or was already consumed''"

definition unconfirmed_reason :: string where
  "unconfirmed_reason = ''could not confirm tool approval; tool was not executed''"

definition detached_suspension :: "string \<Rightarrow> string \<Rightarrow> suspension" where
  "detached_suspension pid kind = \<lparr>su_detached = True, su_prompt = pid, su_kind = kind, su_expires = None\<rparr>"

definition withdraw_decision :: "bool reply \<Rightarrow> decision \<Rightarrow> decision" where
  "withdraw_decision claimed d =
     (let d = d\<lparr>dc_approved := False, dc_args := NoBytes, dc_scope := [], dc_access := []\<rparr>
      in if claimed = Inr False
         then d\<lparr>dc_reason := unowned_reason,
                dc_suspended := Some (detached_suspension (dc_pending d) kind_tool_approval)\<rparr>
         else d\<lparr>dc_reason := unconfirmed_reason\<rparr>)"

definition consume_decision ::
    "'s prompt_ops \<Rightarrow> 'g grant_ops \<Rightarrow> run_context \<Rightarrow> 's surroundings \<Rightarrow> decision \<Rightarrow> agent_prompt
       \<Rightarrow> ('s, 'g) gate_state \<Rightarrow> decision \<times> ('s, 'g) gate_state" where
  "consume_decision ops gops cx sr d p w =
     (case consume ops (cx_live_after cx) (delegation_after cx) (fst w) (sr_later sr) (dc_pending d)
             (if dc_approved d then Executing else Done) (dc_owner d) of
        (claimed, s) \<Rightarrow>
          if claimed = Inr True
          then (d, s, remember_decision gops cx (sr_grant sr) (sr_later sr) d p (snd w))
          else if dc_answered d then (withdraw_decision claimed d, s, snd w)
          else (d, s, snd w))"

section \<open>Asking\<close>

text \<open>A prompt literal of a kind, with the fields every caller fills in.\<close>

definition prompt_of :: "tool_request \<Rightarrow> string \<Rightarrow> raw \<Rightarrow> agent_prompt" where
  "prompt_of rq kind request =
     (blank_prompt [] (OtherStatus []))
       \<lparr>ap_tenant := rq_tenant (tq_call rq), ap_user := rq_user (tq_call rq),
        ap_session := rq_session (tq_call rq), ap_message := tq_message rq,
        ap_request_id := tq_request_id rq, ap_kind := kind, ap_tool_call := tq_tool_call rq,
        ap_request := request\<rparr>"

definition snapshot_spec :: "tool_request \<Rightarrow> suspend_spec option" where
  "snapshot_spec rq = map_option (\<lambda>b. \<lparr>ss_snapshot = b, ss_version = tq_version rq\<rparr>) (tq_snapshot rq)"

definition tool_spec ::
    "gate \<Rightarrow> run_mode \<Rightarrow> tool_request \<Rightarrow> (agent_prompt \<Rightarrow> bool) \<Rightarrow> raw \<Rightarrow> prompt_spec" where
  "tool_spec gt mode rq emit request =
     \<lparr>sp_prompt = Some (prompt_of rq kind_tool_approval request),
      sp_timeout = (if mode = Deferred then 0
                    else if tq_snapshot rq \<noteq> None then gt_hot_wait gt else gt_timeout gt),
      sp_timeout_reason = ''approval timeout'', sp_emit = emit,
      sp_suspend = snapshot_spec rq,
      sp_fallback = (if mode = Deferred then 0 else gt_timeout gt)\<rparr>"

definition unattended_reason :: string where
  "unattended_reason = ''it needs the user's approval, which nobody can give in this run''"

definition deferred_reason :: string where
  "deferred_reason = ''it needs the user's approval, and this run cannot wait for it''"

definition suspended_decision :: "outcome \<Rightarrow> string \<Rightarrow> decision" where
  "suspended_decision out kind =
     no_decision\<lparr>dc_pending := ap_id (oc_prompt out),
       dc_suspended := Some \<lparr>su_detached = oc_detached out, su_prompt = ap_id (oc_prompt out),
                             su_kind = kind, su_expires = oc_expires out\<rparr>\<rparr>"

definition gate_await ::
    "'s prompt_ops \<Rightarrow> gate \<Rightarrow> run_context \<Rightarrow> 's surroundings \<Rightarrow> prompt_spec \<Rightarrow> 's
       \<Rightarrow> (await_error + outcome) option \<times> 's" where
  "gate_await ops gt cx sr spec s =
     await ops (gt_broker gt) (cx_live cx) (cx_delegation cx) (sr_prompt sr) (sr_token sr) (sr_now sr)
       spec (sr_events sr) s"

text \<open>\<open>None\<close> is a wait that goes on.\<close>

definition await_tool_approval ::
    "'s prompt_ops \<Rightarrow> 'g grant_ops \<Rightarrow> gate \<Rightarrow> run_context \<Rightarrow> 's surroundings \<Rightarrow> tool_request
       \<Rightarrow> ('s, 'g) gate_state \<Rightarrow> (gate_error + decision) option \<times> ('s, 'g) gate_state" where
  "await_tool_approval ops gops gt cx sr rq w =
     (case granted (go_find gops) (go_touch gops) (snd w) (sr_now sr) (cx_scope cx) (cx_standing cx) (tq_call rq) of
        (ok, lapse, g) \<Rightarrow>
          (let w = (fst w, g); mode = mode_from_context (cx_mode cx) in
           if ok then (Some (Inr (no_decision\<lparr>dc_approved := True, dc_granted := True\<rparr>)), w)
           else if mode = Unattended then (Some (Inr (no_decision\<lparr>dc_reason := unattended_reason\<rparr>)), w)
           else if mode = Deferred \<and> tq_snapshot rq = None
           then (Some (Inr (no_decision\<lparr>dc_reason := deferred_reason\<rparr>)), w)
           else (case tq_bus rq of
                   None \<Rightarrow> (Some (Inl NoEventBus), w)
                 | Some emit \<Rightarrow>
                     (case encode_tool_request rq lapse of
                        None \<Rightarrow> (Some (Inl BadRequest), w)
                      | Some request \<Rightarrow>
                          (case gate_await ops gt cx sr (tool_spec gt mode rq emit request) (fst w) of
                             (None, s) \<Rightarrow> (None, s, g)
                           | (Some (Inl e), s) \<Rightarrow> (Some (Inl (AwaitFailed e)), s, g)
                           | (Some (Inr out), s) \<Rightarrow>
                               if oc_suspended out
                               then (Some (Inr (suspended_decision out kind_tool_approval)), s, g)
                               else (case consume_decision ops gops cx sr (tool_approval_decision out)
                                            (oc_prompt out) (s, g) of
                                       (d, w') \<Rightarrow> (Some (Inr d), w')))))))"

text \<open>The entries; a nil gate is \<open>None\<close>.\<close>

definition request_and_wait ::
    "'s prompt_ops \<Rightarrow> 'g grant_ops \<Rightarrow> gate option \<Rightarrow> run_context \<Rightarrow> 's surroundings \<Rightarrow> tool_request
       \<Rightarrow> ('s, 'g) gate_state \<Rightarrow> (gate_error + decision) option \<times> ('s, 'g) gate_state" where
  "request_and_wait ops gops gt cx sr rq w =
     (case gt of
        None \<Rightarrow> (Some (Inr (no_decision\<lparr>dc_approved := True\<rparr>)), w)
      | Some gt \<Rightarrow> await_tool_approval ops gops gt cx sr rq w)"

definition request_builtin_approval ::
    "'s prompt_ops \<Rightarrow> 'g grant_ops \<Rightarrow> gate option \<Rightarrow> run_context \<Rightarrow> 's surroundings \<Rightarrow> tool_request
       \<Rightarrow> ('s, 'g) gate_state \<Rightarrow> (gate_error + decision) option \<times> ('s, 'g) gate_state" where
  "request_builtin_approval ops gops gt cx sr rq w =
     (case gt of
        None \<Rightarrow> (Some (Inl NilGate), w)
      | Some gt \<Rightarrow> await_tool_approval ops gops gt cx sr rq w)"

text \<open>A host approval; of the request it reads the identities, the bus and the tool's name.\<close>

definition host_tool_name :: "string \<Rightarrow> string" where
  "host_tool_name tool = (if trim_space tool = [] then ''shell_exec'' else tool)"

definition stop_wins :: "bool \<Rightarrow> decision \<Rightarrow> decision" where
  "stop_wins live d =
     (if \<not> live \<and> dc_approved d
      then d\<lparr>dc_approved := False, dc_args := NoBytes, dc_scope := [], dc_access := [],
             dc_reason := ''request canceled'', dc_canceled := True\<rparr>
      else d)"

definition request_host_and_wait ::
    "'s prompt_ops \<Rightarrow> 'g grant_ops \<Rightarrow> gate option \<Rightarrow> run_context \<Rightarrow> 's surroundings \<Rightarrow> tool_request
       \<Rightarrow> ('s, 'g) gate_state \<Rightarrow> (gate_error + decision) option \<times> ('s, 'g) gate_state" where
  "request_host_and_wait ops gops gt cx sr rq w =
     (case gt of
        None \<Rightarrow> (Some (Inl NilGate), w)
      | Some gt \<Rightarrow>
          (case tq_bus rq of
             None \<Rightarrow> (Some (Inl NoEventBus), w)
           | Some emit \<Rightarrow>
               if trim_space (rq_user (tq_call rq)) = [] then (Some (Inl NoSessionOwner), w)
               else
                 (case gate_await ops gt cx sr
                         \<lparr>sp_prompt = Some (prompt_of rq kind_tool_approval
                                             (encode_host_request (host_tool_name (tq_registered rq)))),
                          sp_timeout = gt_timeout gt, sp_timeout_reason = ''approval timeout'',
                          sp_emit = emit, sp_suspend = None, sp_fallback = 0\<rparr> (fst w) of
                    (None, s) \<Rightarrow> (None, s, snd w)
                  | (Some (Inl e), s) \<Rightarrow> (Some (Inl (AwaitFailed e)), s, snd w)
                  | (Some (Inr out), s) \<Rightarrow>
                      if oc_suspended out
                      then (Some (Inr (suspended_decision out kind_tool_approval)), s, snd w)
                      else (case consume_decision ops gops cx sr
                                   (stop_wins (cx_live_after cx) (tool_approval_decision out))
                                   (oc_prompt out) (s, snd w) of
                              (d, w') \<Rightarrow> (Some (Inr d), w')))))"

definition answered_outcome :: "agent_prompt \<Rightarrow> outcome" where
  "answered_outcome p = (plain_outcome p)\<lparr>oc_answered := True\<rparr>"

definition resume_decision ::
    "'s prompt_ops \<Rightarrow> 'g grant_ops \<Rightarrow> run_context \<Rightarrow> 's surroundings \<Rightarrow> agent_prompt
       \<Rightarrow> ('s, 'g) gate_state \<Rightarrow> decision \<times> ('s, 'g) gate_state" where
  "resume_decision ops gops cx sr p w =
     consume_decision ops gops cx sr (tool_approval_decision (answered_outcome p)) p w"

text \<open>How long the card counts down.\<close>

definition prompt_wait_seconds :: "bool \<Rightarrow> int \<Rightarrow> int \<Rightarrow> int" where
  "prompt_wait_seconds suspendable wait fallback =
     max (go_div (if suspendable then wait else fallback) second) 1"

section \<open>Authorization of a service\<close>

text \<open>The request names the service in \<open>tq_service_id\<close> and so on; the override is of the wait.\<close>

definition encode_oauth_request :: "tool_request \<Rightarrow> raw" where
  "encode_oauth_request rq =
     Doc (JObj ([(''service_id'', JStr (json_text (tq_service_id rq))),
                 (''service_name'', JStr (json_text (tq_service_name rq)))]
                @ text_member ''mcp_tool_name'' (tq_mcp_tool rq)))"

definition withdraw_oauth :: "bool reply \<Rightarrow> decision \<Rightarrow> decision" where
  "withdraw_oauth claimed d =
     d\<lparr>dc_approved := False,
       dc_reason := (if claimed = Inr False then ''authorization is no longer owned or was already consumed''
                     else ''could not confirm authorization; tool was not retried'')\<rparr>"

definition request_oauth_and_wait ::
    "'s prompt_ops \<Rightarrow> gate option \<Rightarrow> run_context \<Rightarrow> 's surroundings \<Rightarrow> int \<Rightarrow> tool_request \<Rightarrow> 's
       \<Rightarrow> (gate_error + decision) option \<times> 's" where
  "request_oauth_and_wait ops gt cx sr wait rq s =
     (case gt of
        None \<Rightarrow> (Some (Inl NilGate), s)
      | Some gt \<Rightarrow>
          (case tq_bus rq of
             None \<Rightarrow> (Some (Inl NoEventBus), s)
           | Some emit \<Rightarrow>
               (case gate_await ops gt cx sr
                       \<lparr>sp_prompt = Some (prompt_of rq kind_mcp_oauth (encode_oauth_request rq)),
                        sp_timeout = (if 0 < wait then wait else gt_timeout gt),
                        sp_timeout_reason = ''authorization timeout'', sp_emit = emit,
                        sp_suspend = None, sp_fallback = 0\<rparr> s of
                  (None, s1) \<Rightarrow> (None, s1)
                | (Some (Inl e), s1) \<Rightarrow> (Some (Inl (AwaitFailed e)), s1)
                | (Some (Inr out), s1) \<Rightarrow>
                    (let d = oauth_decision out in
                     case consume ops (cx_live_after cx) (delegation_after cx) s1 (sr_later sr)
                            (dc_pending d) Done (dc_owner d) of
                       (claimed, s2) \<Rightarrow>
                         (Some (Inr (if claimed \<noteq> Inr True \<and> dc_answered d then withdraw_oauth claimed d else d)),
                          s2)))))"

section \<open>Answering\<close>

text \<open>\<open>ResolveRequest\<close>; an empty kind is a tool approval.\<close>

record gate_answer =
  ga_tenant :: nat
  ga_user :: string
  ga_session :: string
  ga_kind :: string
  ga_pending :: string
  ga_decision :: decision

definition decision_response :: "decision \<Rightarrow> approval_response" where
  "decision_response d =
     \<lparr>ar_approved = dc_approved d, ar_args = (if dc_approved d then dc_args d else NoBytes),
      ar_reason = dc_reason d, ar_allow = (dc_approved d \<and> dc_allow d),
      ar_scope = dc_scope d, ar_access = dc_access d\<rparr>"

definition encode_decision :: "string \<Rightarrow> decision \<Rightarrow> gate_error + raw" where
  "encode_decision kind d =
     (if kind = kind_tool_approval
      then (case encode_approval (decision_response d) of None \<Rightarrow> Inl BadResponse | Some r \<Rightarrow> Inr r)
      else if kind = kind_mcp_oauth
      then Inr (encode_oauth \<lparr>or_authorized = dc_approved d, or_reason = dc_reason d\<rparr>)
      else Inl BadKind)"

definition resolve_for_resume ::
    "'s prompt_ops \<Rightarrow> gate option \<Rightarrow> validators \<Rightarrow> instant \<Rightarrow> string \<Rightarrow> gate_answer \<Rightarrow> 's
       \<Rightarrow> (gate_error + resolution) \<times> 's" where
  "resolve_for_resume ops gt validate now fresh ans s =
     (case gt of
        None \<Rightarrow> (Inl NilGate, s)
      | Some gt \<Rightarrow>
          (let kind = (if ga_kind ans = [] then kind_tool_approval else ga_kind ans) in
           case encode_decision kind (ga_decision ans) of
             Inl e \<Rightarrow> (Inl e, s)
           | Inr payload \<Rightarrow>
               (case resolve ops (gt_broker gt) validate now fresh
                       \<lparr>rr_tenant = ga_tenant ans, rr_user = ga_user ans, rr_session = ga_session ans,
                        rr_kind = kind, rr_prompt = ga_pending ans, rr_response = payload\<rparr> s of
                  (Inl e, s') \<Rightarrow> (Inl (ResolveFailed e), s')
                | (Inr rn, s') \<Rightarrow> (Inr rn, s'))))"

definition answerable_kinds :: "string list" where
  "answerable_kinds = [kind_ask_user, kind_tool_approval, kind_page_action]"

definition resolve_response ::
    "'s prompt_ops \<Rightarrow> gate option \<Rightarrow> validators \<Rightarrow> instant \<Rightarrow> string \<Rightarrow> resolve_request \<Rightarrow> 's
       \<Rightarrow> (gate_error + resolution) \<times> 's" where
  "resolve_response ops gt validate now fresh req s =
     (case gt of
        None \<Rightarrow> (Inl NilGate, s)
      | Some gt \<Rightarrow>
          if rr_kind req \<notin> set answerable_kinds then (Inl BadKind, s)
          else (case resolve ops (gt_broker gt) validate now fresh req s of
                  (Inl e, s') \<Rightarrow> (Inl (ResolveFailed e), s')
                | (Inr rn, s') \<Rightarrow> (Inr rn, s')))"

definition gate_mark_executed :: "'s prompt_ops \<Rightarrow> gate option \<Rightarrow> instant \<Rightarrow> string \<Rightarrow> 's \<Rightarrow> 's" where
  "gate_mark_executed ops gt now pid s =
     (case gt of None \<Rightarrow> s | Some gt \<Rightarrow> mark_executed ops s now pid)"

end
