(* ===== verification/ApprovalFlow.thy ===== *)
theory ApprovalFlow
  imports PromptWait ApprovalGate
begin

text \<open>
  What the approval gate promises: a call runs only on a live grant or on an approval its run has
  claimed, a stop beats an approval that arrives with it, what the user decided is what the
  run is told, and only an approval that was claimed is remembered. The lemmas about waiting
  and claiming are proved over any prompt store; the claims are about the database, which may
  refuse a statement or lose its reply at any moment.
\<close>

section \<open>Claiming an answer\<close>

context prompt_store
begin

text \<open>The row of a claim: where it stands and who holds it.\<close>

definition held :: "string \<Rightarrow> prompt_status \<Rightarrow> string \<Rightarrow> 's \<Rightarrow> bool" where
  "held pid to owner s \<longleftrightarrow> (\<exists>row. view s pid = Some row \<and> ap_status row = to \<and> ap_owner row = owner)"

lemma claim_move_effect:
  assumes "ok s" and "to = Executing \<or> to = Done"
    and "op_move ops s now pid (claim_transition to owner) = (r, s')"
  shows "ok s' \<and> rows_live_on (view s) (view s') \<and> (r = Inr True \<longrightarrow> held pid to owner s')"
  using assms(1,3)
proof (cases rule: move_rows)
  case Kept
  with move_effect [OF assms(1,3)] show ?thesis by simp
next
  case (Moved row)
  let ?q = "transition_row now (claim_transition to owner) row"
  have "ap_status ?q = to" "ap_owner ?q = owner"
    using Moved(2) by (auto simp: transition_row_def transition_enabled_def transition_defs assign_def)
  with Moved claim_lives_on [OF assms(2) Moved(2)] move_effect [OF assms(1,3)]
    rows_live_on_update [of "view s" pid row ?q] show ?thesis
    by (auto simp: held_def)
qed

lemma give_up_move_effect:
  assumes "ok s" and "op_move ops s now pid (give_up_transition owner) = (r, s')"
  shows "ok s' \<and> rows_live_on (view s) (view s')"
  using assms
proof (cases rule: move_rows)
  case Kept
  with move_effect [OF assms] show ?thesis by simp
next
  case (Moved row)
  let ?q = "transition_row now (give_up_transition owner) row"
  from Moved give_up_lives_on [OF Moved(2)] move_effect [OF assms] rows_live_on_update [of "view s" pid row ?q]
  show ?thesis by auto
qed

lemma consume_call_effect:
  assumes okst: "ok s" and to: "to = Executing \<or> to = Done" and new: "\<not> consume_ended ph"
    and call: "consume_call ops now pid to owner ph s = (ph', s')"
  shows "ok s' \<and> rows_live_on (view s) (view s') \<and> (ph' = Claimed \<longrightarrow> held pid to owner s')"
proof (cases ph)
  case (Trying n)
  obtain r where r: "op_move ops s now pid (claim_transition to owner) = (r, s')"
      and ph': "ph' = consume_react to owner (Trying n) (moved_reply r)"
    using call Trying by (auto split: prod.splits)
  have "r = Inr True" if "ph' = Claimed"
    using that unfolding ph' by (auto simp: moved_reply_def split: sum.splits if_splits)
  with claim_move_effect [OF okst to r] show ?thesis by blast
next
  case Confirming
  obtain r where r: "op_get ops s pid = (r, s')"
      and ph': "ph' = consume_react to owner Confirming (row_reply r)"
    using call Confirming by (auto split: prod.splits)
  have "held pid to owner s'" if "ph' = Claimed"
    using that get_effect [OF okst r] unfolding ph'
    by (auto simp: row_reply_def held_def split: sum.splits option.splits if_splits)
  with get_effect [OF okst r] show ?thesis by simp
next
  case GivingUp
  obtain r where r: "op_move ops s now pid (give_up_transition owner) = (r, s')" and ph': "ph' = Unconfirmed"
    using call GivingUp by (auto split: prod.splits)
  with give_up_move_effect [OF okst r] show ?thesis by simp
qed (use new in simp_all)

lemma consume_loop_effect:
  assumes "ok s" and "to = Executing \<or> to = Done" and "ph = Claimed \<Longrightarrow> held pid to owner s"
    and "consume_loop n ops now pid to owner ph s = (ph', s')"
  shows "ok s' \<and> rows_live_on (view s) (view s') \<and> (ph' = Claimed \<longrightarrow> held pid to owner s')"
  using assms
proof (induction n arbitrary: ph s)
  case (Suc n)
  show ?case
  proof (cases "consume_ended ph")
    case True
    with Suc.prems show ?thesis by auto
  next
    case False
    obtain ph1 s1 where call: "consume_call ops now pid to owner ph s = (ph1, s1)" by fastforce
    note eff = consume_call_effect [OF Suc.prems(1,2) False call]
    have "consume_loop n ops now pid to owner ph1 s1 = (ph', s')"
      using Suc.prems(4) False call by simp
    from Suc.IH [OF _ Suc.prems(2) _ this] eff rows_live_on_trans show ?thesis by blast
  qed
qed auto

lemma consume_effect:
  assumes "ok s" and "to = Executing \<or> to = Done"
    and "consume ops live deleg s now pid to owner = (r, s')"
  shows "ok s' \<and> rows_live_on (view s) (view s')
       \<and> (r = Inr True \<longrightarrow> check_delegation live deleg \<and> held pid to owner s')"
proof (cases "check_delegation live deleg")
  case True
  obtain ph s1 where l: "consume_loop (consume_left (Trying 0)) ops now pid to owner (Trying 0) s = (ph, s1)"
    by fastforce
  have "s' = s1" "r = Inr True \<longrightarrow> ph = Claimed"
    using assms(3) True l by (auto simp: consume_def split: if_splits)
  with consume_loop_effect [OF assms(1,2) _ l] True show ?thesis by auto
next
  case False
  with assms show ?thesis by (auto simp: consume_def)
qed

section \<open>Waiting for an answer\<close>

text \<open>An answered outcome is the row as it was read, held by the waiter.\<close>

definition answer_read :: "string \<Rightarrow> string \<Rightarrow> outcome \<Rightarrow> 's \<Rightarrow> bool" where
  "answer_read pid owner out s \<longleftrightarrow>
     view s pid = Some (oc_prompt out) \<and> ap_status (oc_prompt out) = Answered
   \<and> ap_owner (oc_prompt out) = owner \<and> ap_id (oc_prompt out) = pid"

lemma closed_answer:
  assumes "ok s" and "closed ops s pid owner = (r, s')"
  shows "ok s' \<and> view s' = view s
       \<and> (case r of Some out \<Rightarrow> oc_answered out \<longrightarrow> answer_read pid owner out s' | None \<Rightarrow> True)"
proof -
  obtain g s1 where g: "op_get ops s pid = (g, s1)" by fastforce
  note eff = get_effect [OF assms(1) g]
  have s': "s' = s1" and r: "r = (case g of Inr (Some row) \<Rightarrow> closed_row row owner | _ \<Rightarrow> None)"
    using assms(2) g by (auto simp: closed_def split: sum.splits option.splits)
  have "answer_read pid owner out s'" if out: "r = Some out" and ans: "oc_answered out" for out
  proof -
    from out r obtain row where g': "g = Inr (Some row)" and c: "closed_row row owner = Some out"
      by (auto split: sum.splits option.splits)
    from g' eff have "view s1 pid = Some row" by auto
    with view_id eff have "ap_id row = pid" by blast
    with c ans \<open>view s1 pid = Some row\<close> s' show ?thesis
      by (auto simp: closed_row_def plain_outcome_def answer_read_def split: if_splits)
  qed
  with eff s' show ?thesis by (auto split: option.splits)
qed

lemma issued_move_effect:
  assumes "ok s" and "move_issued m" and "op_move ops s now i (move_transition m) = (b, s')"
  shows "ok s' \<and> rows_live_on (view s) (view s')"
  using assms(1,3)
proof (cases rule: move_rows)
  case Kept
  with move_effect [OF assms(1,3)] show ?thesis by simp
next
  case (Moved row)
  with move_lives_on [OF assms(2) Moved(2), of now] move_effect [OF assms(1,3)]
    rows_live_on_update [of "view s" i row "transition_row now (move_transition m) row"]
  show ?thesis by simp
qed

lemma close_as_owner_answer:
  assumes okst: "ok s" and status: "status = Expired \<or> status = Canceled"
    and close: "close_as_owner ops s now pid owner status reason = (out, s')"
  shows "ok s' \<and> rows_live_on (view s) (view s') \<and> (oc_answered out \<longrightarrow> answer_read pid owner out s')"
proof -
  obtain b s1 where b: "op_move ops s now pid (close_transition owner status reason) = (b, s1)" by fastforce
  obtain r s2 where r: "closed ops s1 pid owner = (r, s2)" by fastforce
  have ok1: "ok s1" "rows_live_on (view s) (view s1)"
    using issued_move_effect [OF okst, of "CloseMove owner status reason"] b status by auto
  note c = closed_answer [OF ok1(1) r]
  from close b r have "(\<not> oc_answered out \<and> (s' = s1 \<or> s' = s2)) \<or> (r = Some out \<and> s' = s2)"
    by (auto simp: close_as_owner_def plain_outcome_def Let_def split: if_splits option.splits)
  with c ok1 show ?thesis by auto
qed

lemma suspend_answer:
  assumes okst: "ok s" and sus: "suspend_prompt ops cfg s now pid owner = (out, s')"
  shows "ok s' \<and> rows_live_on (view s) (view s') \<and> (oc_answered out \<longrightarrow> answer_read pid owner out s')"
proof -
  obtain b s1 where b: "op_move ops s now pid (suspend_transition owner (expires_at cfg now)) = (b, s1)" by fastforce
  obtain r s2 where r: "closed ops s1 pid owner = (r, s2)" by fastforce
  have ok1: "ok s1" "rows_live_on (view s) (view s1)"
    using issued_move_effect [OF okst, of "SuspendMove owner (expires_at cfg now)"] b by auto
  note c = closed_answer [OF ok1(1) r]
  from sus b r consider (Moved) "\<not> oc_answered out" "s' = s1" | (Read) "r = Some out" "s' = s2"
    | (Close) "close_as_owner ops s2 now pid owner Expired ''prompt could not be suspended'' = (out, s')"
    by (auto simp: suspend_prompt_def plain_outcome_def Let_def split: if_splits option.splits)
  then show ?thesis
  proof cases
    case Close
    have "rows_live_on (view s) (view s2)" "ok s2" using c ok1 by auto
    with close_as_owner_answer [OF _ _ Close] rows_live_on_trans show ?thesis by blast
  qed (use c ok1 in auto)
qed

text \<open>What other replicas do in between keeps to the life of prompts.\<close>

definition lawful :: "('s \<Rightarrow> 's) \<Rightarrow> bool" where
  "lawful f \<longleftrightarrow> (\<forall>u. ok u \<longrightarrow> ok (f u) \<and> rows_live_on (view u) (view (f u)))"

lemma renew_lives_on:
  assumes "ok s" and "op_renew ops s now pid owner until = (b, s')"
  shows "ok s' \<and> rows_live_on (view s) (view s')"
proof -
  have eff: "ok s'" "write_reply (renewed now pid owner until (view s)) (view s) b (view s')"
    using renew_effect [OF assms] by auto
  have "view s' = view s \<or> (\<exists>row. view s pid = Some row
      \<and> view s' = (view s)(pid \<mapsto> row\<lparr>ap_lease := Some until, ap_updated := now\<rparr>))"
    using eff(2) by (auto simp: write_reply_def renewed_def split: option.splits if_splits)
  moreover have "lives_on row (row\<lparr>ap_lease := Some until, ap_updated := now\<rparr>)" for row
    by (simp add: lives_on_def same_question_def same_answer_def)
  ultimately show ?thesis
    using eff(1) rows_live_on_update [of "view s" pid] by auto
qed

lemma wait_step_answer:
  assumes okst: "ok s" and env: "\<And>f. e = Elsewhere f \<Longrightarrow> lawful f"
    and step: "wait_step ops cfg suspendable reason pid owner e s = (r, s')"
  shows "ok s' \<and> rows_live_on (view s) (view s')
       \<and> (case r of Some out \<Rightarrow> oc_answered out \<longrightarrow> answer_read pid owner out s' | None \<Rightarrow> True)"
proof (cases e)
  case (Renew now)
  obtain b u where b: "op_renew ops s now pid owner (now + bc_lease_ttl cfg) = (b, u)" by fastforce
  with step Renew renew_lives_on [OF okst b] show ?thesis by auto
next
  case (TimerFires now)
  with step suspend_answer [OF okst, of cfg now pid owner]
    close_as_owner_answer [OF okst, of Expired now pid owner reason] show ?thesis
    by (auto split: prod.splits if_splits)
next
  case (Stopped now)
  with step close_as_owner_answer [OF okst, of Canceled now pid owner "''request canceled''"] show ?thesis
    by (auto split: prod.splits)
next
  case (Elsewhere f)
  with step okst env [OF Elsewhere] show ?thesis by (auto simp: lawful_def)
qed (use step okst closed_answer [OF okst] in \<open>auto split: option.splits\<close>)

lemma wait_loop_answer:
  assumes "ok s" and "\<And>f. Elsewhere f \<in> set events \<Longrightarrow> lawful f"
    and "wait_loop ops cfg suspendable reason pid owner events s = (r, s')"
  shows "ok s' \<and> rows_live_on (view s) (view s')
       \<and> (case r of Some out \<Rightarrow> oc_answered out \<longrightarrow> answer_read pid owner out s' | None \<Rightarrow> True)"
  using assms
proof (induction events arbitrary: s)
  case (Cons e es)
  obtain q s1 where q: "wait_step ops cfg suspendable reason pid owner e s = (q, s1)" by fastforce
  have step: "ok s1 \<and> rows_live_on (view s) (view s1)
      \<and> (case q of Some out \<Rightarrow> oc_answered out \<longrightarrow> answer_read pid owner out s1 | None \<Rightarrow> True)"
    using wait_step_answer [OF Cons.prems(1) _ q] Cons.prems(2) by auto
  show ?case
  proof (cases q)
    case None
    have "wait_loop ops cfg suspendable reason pid owner es s1 = (r, s')"
      using Cons.prems(3) q None by simp
    from Cons.IH [OF _ _ this] step Cons.prems(2) rows_live_on_trans show ?thesis by auto
  next
    case (Some out)
    with Cons.prems(3) q step show ?thesis by auto
  qed
qed auto

lemma raise_prompt_effect:
  assumes okst: "ok s" and pid: "ap_id p \<noteq> []"
    and raise: "raise_prompt ops cfg deleg owner now spec p s = (Inr row, s')"
  shows "ok s' \<and> ap_id row = ap_id p \<and> same_question p row
       \<and> (\<exists>row'. view s' (ap_id p) = Some row' \<and> lives_on row row')"
proof -
  let ?p = "p\<lparr>ap_status := Pending, ap_owner := owner, ap_lease := Some (now + bc_lease_ttl cfg)\<rparr>"
  obtain b s1 where b: "op_create ops s now ?p = (b, s1)" by fastforce
  from raise b have row: "row = ?p" "s' = s1" "b \<noteq> Inl ()"
    by (auto simp: raise_prompt_def Let_def split: if_splits sum.splits)
  have "ok s1" "inserted ?p (view s) (view s1)"
    using create_effect [OF okst b] pid row(3) by auto
  with row show ?thesis
    by (auto simp: inserted_def same_question_def lives_on_def same_answer_def)
qed

lemma save_run_state_effect:
  assumes okst: "ok s" and save: "save_run_state ops s now spec p = (Inr (spec', p', armed), s')"
  shows "ok s' \<and> view s' = view s \<and> (\<exists>b. p' = p\<lparr>ap_suspendable := b\<rparr>)"
proof (cases "sp_suspend spec")
  case None
  with save okst show ?thesis
    by (auto simp: save_run_state_def intro!: exI [of _ "ap_suspendable p'"])
next
  case (Some ss)
  obtain r u where r: "op_save_run ops s now (run_state_of (p\<lparr>ap_suspendable := True\<rparr>) ss) = (r, u)" by fastforce
  from Some save r have "s' = u" "\<exists>b. p' = p\<lparr>ap_suspendable := b\<rparr>"
    by (auto simp: save_run_state_def Let_def split: if_splits sum.splits)
  with save_run_effect [OF okst r] show ?thesis by auto
qed

lemma deferred_drop_effect:
  assumes "ok s"
  shows "ok (deferred_drop ops armed p owner suspended s)
       \<and> view (deferred_drop ops armed p owner suspended s) = view s"
proof -
  obtain g s1 where g: "op_get ops s (ap_id p) = (g, s1)" by fastforce
  obtain r s2 where r: "op_delete_run ops s1 (ap_message p) (ap_id p) = (r, s2)" by fastforce
  have g1: "ok s1" "view s1 = view s" using get_effect [OF assms g] by auto
  with delete_run_effect [OF g1(1) r] assms g r show ?thesis
    by (auto simp: deferred_drop_def drop_snapshot_def split: sum.splits option.splits)
qed

text \<open>The answer a wait returns is an answer to the question that was asked.\<close>

definition answer_to :: "agent_prompt \<Rightarrow> string \<Rightarrow> outcome \<Rightarrow> 's \<Rightarrow> bool" where
  "answer_to p owner out s \<longleftrightarrow>
     answer_read (ap_id (oc_prompt out)) owner out s
   \<and> (\<exists>pid b. same_question (p\<lparr>ap_id := pid, ap_suspendable := b\<rparr>) (oc_prompt out))"

lemma await_answer:
  assumes okst: "ok s" and fresh: "fresh \<noteq> []" and p: "sp_prompt spec = Some p"
    and env: "\<And>f. Elsewhere f \<in> set events \<Longrightarrow> lawful f"
    and aw: "await ops cfg live deleg fresh owner now spec events s = (Some (Inr out), s')"
  shows "ok s' \<and> (oc_answered out \<longrightarrow> answer_to p owner out s')"
proof -
  define p1 where "p1 = (if ap_id p = [] then p\<lparr>ap_id := fresh\<rparr> else p)"
  have id1: "ap_id p1 \<noteq> []" using fresh by (simp add: p1_def)
  from aw p obtain spec1 where spec1: "delegated_spec live deleg spec = Inr spec1"
    by (auto simp: await_def Let_def split: sum.splits)
  from aw p spec1 obtain spec2 p2 armed s1
    where save: "save_run_state ops s now spec1 p1 = (Inr (spec2, p2, armed), s1)"
    by (auto simp: await_def Let_def p1_def split: sum.splits prod.splits)
  from aw p spec1 save obtain row s2
    where raise: "raise_prompt ops cfg deleg owner now spec2 p2 s1 = (Inr row, s2)"
    by (auto simp: await_def Let_def p1_def [symmetric] split: sum.splits prod.splits)
  from aw p spec1 save raise obtain s3
    where loop: "wait_loop ops cfg (sp_suspend spec2 \<noteq> None) (sp_timeout_reason spec2) (ap_id row) owner events s2
             = (Some out, s3)"
      and s': "s' = deferred_drop ops armed row owner (oc_suspended out) s3"
    by (auto simp: await_def Let_def p1_def [symmetric] split: sum.splits prod.splits option.splits)
  obtain b where s1: "ok s1" "p2 = p1\<lparr>ap_suspendable := b\<rparr>"
    using save_run_state_effect [OF okst save] by blast
  have s2: "ok s2" "ap_id row = ap_id p2" "same_question p2 row"
      "\<exists>row'. view s2 (ap_id row) = Some row' \<and> lives_on row row'"
    using raise_prompt_effect [OF s1(1) _ raise] id1 s1(2) by auto
  have w: "ok s3" "rows_live_on (view s2) (view s3)" "oc_answered out \<longrightarrow> answer_read (ap_id row) owner out s3"
    using wait_loop_answer [OF s2(1) env loop] by auto
  have final: "ok s'" "view s' = view s3" using deferred_drop_effect [OF w(1)] s' by auto
  have "answer_to p owner out s'" if "oc_answered out"
  proof -
    have r: "answer_read (ap_id row) owner out s3" using w(3) that by simp
    obtain row1 where row1: "view s2 (ap_id row) = Some row1" "lives_on row row1" using s2(4) by blast
    then obtain row2 where row2: "view s3 (ap_id row) = Some row2" "lives_on row1 row2"
      using w(2) unfolding rows_live_on_def by blast
    have "oc_prompt out = row2" "ap_id (oc_prompt out) = ap_id row"
      using r row2(1) by (simp_all add: answer_read_def)
    moreover have "same_question p2 row2"
      using s2(3) row1(2) row2(2) same_question_trans unfolding lives_on_def by blast
    moreover have "\<exists>pid. p1 = p\<lparr>ap_id := pid\<rparr>"
    proof (cases "ap_id p = []")
      case False
      then have "p1 = p\<lparr>ap_id := ap_id p\<rparr>" by (simp add: p1_def)
      then show ?thesis by blast
    qed (auto simp: p1_def)
    ultimately show ?thesis
      using r final(2) s1(2) unfolding answer_to_def answer_read_def by auto
  qed
  with final(1) show ?thesis by simp
qed

end

section \<open>From the answer to the decision\<close>

text \<open>A decision says what its outcome says: it approves only what the stored response approves.\<close>

definition speaks_for :: "outcome \<Rightarrow> decision \<Rightarrow> bool" where
  "speaks_for out d \<longleftrightarrow>
     dc_pending d = ap_id (oc_prompt out) \<and> dc_owner d = ap_owner (oc_prompt out)
   \<and> dc_answered d = oc_answered out \<and> \<not> dc_granted d
   \<and> (dc_approved d \<longrightarrow> oc_answered out
        \<and> (\<exists>r. read_approval (ap_response (oc_prompt out)) = Some r \<and> ar_approved r
               \<and> dc_args d = ar_args r \<and> dc_allow d = ar_allow r))"

lemma decision_speaks_for: "speaks_for out (tool_approval_decision out)"
  by (auto simp: speaks_for_def tool_approval_decision_def outcome_decision_def no_decision_def Let_def
      split: option.splits)

lemma stop_speaks_for: "speaks_for out d \<Longrightarrow> speaks_for out (stop_wins live d)"
  by (simp add: speaks_for_def stop_wins_def)

text \<open>
  The row behind an approval: the prompt of this very call, answered, claimed by this run, with a
  response that approves and carries the arguments the call will run with.
\<close>

definition approved_row :: "prompt_rows \<Rightarrow> agent_prompt \<Rightarrow> string \<Rightarrow> decision \<Rightarrow> bool" where
  "approved_row v p token d \<longleftrightarrow>
     (\<exists>row r pid b. v (dc_pending d) = Some row
        \<and> same_question (p\<lparr>ap_id := pid, ap_suspendable := b\<rparr>) row
        \<and> ap_status row = Executing \<and> ap_owner row = token
        \<and> read_approval (ap_response row) = Some r \<and> ar_approved r \<and> dc_args d = ar_args r
        \<and> dc_allow d = ar_allow r)"

lemma withdraw_not_approved [simp]: "\<not> dc_approved (withdraw_decision claimed d)"
  by (simp add: withdraw_decision_def Let_def)

lemma remember_none:
  "\<not> (dc_approved d \<and> dc_allow d) \<Longrightarrow> remember_decision gops cx fresh now d p g = g"
  by (cases g) (auto simp: remember_decision_def remember_def)

context prompt_store
begin

lemma consume_decision_approved:
  assumes okst: "ok (fst w)" and d: "speaks_for out d"
    and read: "oc_answered out \<longrightarrow> answer_to p token out (fst w)"
    and cons: "consume_decision ops gops cx sr d (oc_prompt out) w = (d', w')"
  shows "ok (fst w')
     \<and> (dc_approved d' \<longrightarrow> check_delegation (cx_live_after cx) (delegation_after cx)
          \<and> \<not> dc_granted d' \<and> approved_row (view (fst w')) p token d')
     \<and> (snd w' \<noteq> snd w \<longrightarrow> dc_approved d' \<and> dc_allow d')"
proof -
  define to where "to = (if dc_approved d then Executing else Done)"
  obtain claimed s where c: "consume ops (cx_live_after cx) (delegation_after cx) (fst w) (sr_later sr)
      (dc_pending d) to (dc_owner d) = (claimed, s)" by fastforce
  have to: "to = Executing \<or> to = Done" by (simp add: to_def)
  note eff = consume_effect [OF okst to c]
  show ?thesis
  proof (cases "claimed = Inr True")
    case False
    with cons c eff d show ?thesis
      by (auto simp: consume_decision_def to_def [symmetric] speaks_for_def split: if_splits)
  next
    case True
    with cons c have w': "d' = d" "fst w' = s"
        "snd w' = remember_decision gops cx (sr_grant sr) (sr_later sr) d (oc_prompt out) (snd w)"
      by (auto simp: consume_decision_def to_def [symmetric])
    have "approved_row (view s) p token d" if app: "dc_approved d"
    proof -
      from d app obtain r where r: "oc_answered out" "read_approval (ap_response (oc_prompt out)) = Some r"
          "ar_approved r" "dc_args d = ar_args r" "dc_allow d = ar_allow r"
        by (auto simp: speaks_for_def)
      let ?q = "oc_prompt out"
      have q: "view (fst w) (dc_pending d) = Some ?q" "ap_status ?q = Answered" "ap_owner ?q = token"
        and ask: "\<exists>pid b. same_question (p\<lparr>ap_id := pid, ap_suspendable := b\<rparr>) ?q"
        using read r(1) d by (auto simp: answer_to_def answer_read_def speaks_for_def)
      obtain row where row: "view s (dc_pending d) = Some row" "lives_on ?q row"
        using eff q(1) unfolding rows_live_on_def by blast
      have "same_question ?q row" "same_answer ?q row" "ap_status row = Executing"
        using row q(2) eff True app by (auto simp: lives_on_def held_def to_def)
      with row(1) ask r q(3) same_question_trans show ?thesis
        unfolding approved_row_def same_answer_def by metis
    qed
    moreover have "snd w' \<noteq> snd w \<longrightarrow> dc_approved d \<and> dc_allow d"
      using w'(3) remember_none by metis
    ultimately show ?thesis
      using w'(1,2) eff True d by (simp add: speaks_for_def)
  qed
qed

lemma gate_await_answer:
  assumes "ok s" and "sr_prompt sr \<noteq> []" and "sp_prompt spec = Some p"
    and "\<And>f. Elsewhere f \<in> set (sr_events sr) \<Longrightarrow> lawful f"
    and "gate_await ops gt cx sr spec s = (Some (Inr out), s')"
  shows "ok s' \<and> (oc_answered out \<longrightarrow> answer_to p (sr_token sr) out s')"
  using await_answer [OF assms(1-4)] assms(5) by (simp add: gate_await_def)

end

section \<open>Tool calls\<close>

text \<open>What other replicas do to the database between the events of a wait.\<close>

definition lawful_table :: "(prompt_table \<Rightarrow> prompt_table) \<Rightarrow> bool" where
  "lawful_table f \<longleftrightarrow> (\<forall>u. repo_ok u \<longrightarrow> repo_ok (f u) \<and> rows_live_on (find_row u) (find_row (f u)))"

lemma lawful_table: "database.lawful f \<longleftrightarrow> lawful_table f"
  by (simp add: database.lawful_def lawful_table_def)

text \<open>A live grant that covers the call.\<close>

definition granted_by :: "grant_db option \<Rightarrow> instant \<Rightarrow> run_context \<Rightarrow> pending_request \<Rightarrow> bool" where
  "granted_by g now cx rq \<longleftrightarrow>
     (\<exists>db sc row. g = Some db \<and> sc \<in> set (request_scopes (cx_scope cx) (cx_standing cx) rq)
        \<and> find_grant db (req_key rq sc) = Inr (Some row) \<and> covers (g_risk row) (req_grant_risk rq)
        \<and> lapse_at row now (gs_binding sc) = NoLapse)"

lemma granted_true:
  assumes "granted find_grant touch_grant g now ctx standing rq = (True, l, g')"
  shows "\<exists>db sc row. g = Some db \<and> sc \<in> set (request_scopes ctx standing rq)
        \<and> find_grant db (req_key rq sc) = Inr (Some row) \<and> covers (g_risk row) (req_grant_risk rq)
        \<and> lapse_at row now (gs_binding sc) = NoLapse"
proof (cases g)
  case (Some db)
  with assms obtain db' where "granted_scopes find_grant touch_grant db now rq
      (request_scopes ctx standing rq) NoLapse = (True, l, db')"
    by (auto simp: granted_def split: if_splits prod.splits)
  from repo.granted_scopes_sound [OF this] Some show ?thesis by blast
qed (use assms in \<open>simp add: granted_def\<close>)

text \<open>
  C1. A tool call runs only with permission. Whatever statements the database refuses or commits
  without a reply, and whatever other replicas do during the wait, a call the gate approves
  either has a live remembered grant of the same user and workspace that covers its risk, or the
  user approved exactly this question: its row is claimed by this run, the stored response
  approves, the arguments are those of the response, the run was neither stopped nor delegated
  to a stale worker, and it was a run somebody could answer.
\<close>

theorem call_runs_only_with_approval:
  assumes "repo_ok s" and "sr_prompt sr \<noteq> []"
    and "\<And>f. Elsewhere f \<in> set (sr_events sr) \<Longrightarrow> lawful_table f"
    and call: "request_and_wait repo_ops repo_grants (Some gt) cx sr rq (s, g) = (Some (Inr d), s', g')"
    and app: "dc_approved d"
  shows "dc_granted d \<and> granted_by g (sr_now sr) cx (tq_call rq)
     \<or> \<not> dc_granted d \<and> mode_from_context (cx_mode cx) \<noteq> Unattended
       \<and> check_delegation (cx_live_after cx) (delegation_after cx)
       \<and> (\<exists>lapse request. encode_tool_request rq lapse = Some request
            \<and> approved_row (find_row s') (prompt_of rq kind_tool_approval request) (sr_token sr) d)"
proof -
  obtain ok lapse g1 where gr: "granted find_grant touch_grant g (sr_now sr) (cx_scope cx) (cx_standing cx)
      (tq_call rq) = (ok, lapse, g1)" by (metis prod_cases3)
  show ?thesis
  proof (cases ok)
    case True
    with call gr granted_true [of g "sr_now sr" "cx_scope cx" "cx_standing cx" "tq_call rq"] show ?thesis
      by (auto simp: request_and_wait_def await_tool_approval_def repo_grants_def Let_def granted_by_def)
  next
    case False
    let ?mode = "mode_from_context (cx_mode cx)"
    from call gr False app obtain emit request where mode: "?mode \<noteq> Unattended" and
        enc: "encode_tool_request rq lapse = Some request" and emit: "tq_bus rq = Some emit"
      by (auto simp: request_and_wait_def await_tool_approval_def repo_grants_def no_decision_def Let_def
          split: if_splits option.splits)
    obtain r s1 where aw: "gate_await repo_ops gt cx sr (tool_spec gt ?mode rq emit request) s = (r, s1)"
      by fastforce
    from call gr False app mode enc emit aw obtain out where out: "r = Some (Inr out)"
        and cons: "consume_decision repo_ops repo_grants cx sr (tool_approval_decision out) (oc_prompt out)
              (s1, g1) = (d, s', g')"
      by (auto simp: request_and_wait_def await_tool_approval_def repo_grants_def no_decision_def Let_def
          suspended_decision_def split: if_splits option.splits sum.splits prod.splits)
    have p: "sp_prompt (tool_spec gt ?mode rq emit request) = Some (prompt_of rq kind_tool_approval request)"
      by (simp add: tool_spec_def)
    have w: "repo_ok s1" "oc_answered out \<longrightarrow>
        database.answer_to (prompt_of rq kind_tool_approval request) (sr_token sr) out s1"
      using database.gate_await_answer [OF assms(1,2) p _ aw [unfolded out]] assms(3) lawful_table by auto
    have "\<not> dc_granted d \<and> check_delegation (cx_live_after cx) (delegation_after cx)
        \<and> approved_row (find_row s') (prompt_of rq kind_tool_approval request) (sr_token sr) d"
      using database.consume_decision_approved [OF _ decision_speaks_for _ cons,
          of "prompt_of rq kind_tool_approval request" "sr_token sr"] w app by simp
    with mode enc show ?thesis by blast
  qed
qed


text \<open>
  C25. A resumed run claims its answer before it acts on it, and only a claimed approval is
  remembered. When the run that was suspended on an answered prompt is told to go ahead, or when
  a grant is stored on the way, the prompt is executing under the token the answer was handed
  to and its response approves; a grant is stored only when the response asked for it.
\<close>

theorem resumed_call_claims_first:
  assumes "repo_ok s" and "find_row s (ap_id p) = Some p" and "ap_status p = Answered"
    and call: "resume_decision repo_ops gops cx sr p (s, g) = (d, s', g')"
    and "dc_approved d \<or> g' \<noteq> g"
  shows "approved_row (find_row s') p (ap_owner p) d \<and> dc_approved d \<and> (g' \<noteq> g \<longrightarrow> dc_allow d)
     \<and> check_delegation (cx_live_after cx) (delegation_after cx)"
proof -
  let ?out = "answered_outcome p"
  have out: "oc_prompt ?out = p" "oc_answered ?out"
    by (simp_all add: answered_outcome_def plain_outcome_def)
  have "same_question (p\<lparr>ap_id := ap_id p, ap_suspendable := ap_suspendable p\<rparr>) p"
    by (simp add: same_question_def)
  then have "database.answer_to p (ap_owner p) ?out s"
    using assms(2,3) unfolding database.answer_to_def database.answer_read_def out by blast
  with database.consume_decision_approved [OF _ decision_speaks_for, of "(s, g)" ?out p "ap_owner p"
      gops cx sr d "(s', g')"] call assms(1,5) out
  show ?thesis by (auto simp: resume_decision_def)
qed

section \<open>Examples\<close>

definition example_gate :: gate where
  "example_gate = new_gate None [] \<lparr>bc_lease_ttl = 30, bc_suspend_expiry = 0\<rparr>"

definition example_context :: run_context where
  "example_context =
     \<lparr>cx_live = True, cx_live_after = True, cx_delegation = None, cx_check_after = True,
      cx_mode = Some Attended, cx_scope = None, cx_standing = None\<rparr>"

definition example_call :: tool_request where
  "example_call =
     \<lparr>tq_call = \<lparr>rq_tenant = 7, rq_user = ''u'', rq_session = ''s'', rq_grant = ''k'',
                rq_grant_scope = ''label'', rq_grant_risk = RiskWrite\<rparr>,
      tq_message = ''m'', tq_request_id = [], tq_bus = Some (\<lambda>_. True), tq_service_id = ''svc'',
      tq_service_name = ''svc'', tq_mcp_tool = ''tool'', tq_registered = ''mcp_tool'',
      tq_description = [], tq_args = Doc (JObj []), tq_tool_call = ''c'', tq_snapshot = None,
      tq_version = 0\<rparr>"

definition example_yes :: raw where
  "example_yes = Doc (JObj [(''approved'', JBool True)])"

definition example_answering :: "prompt_table \<Rightarrow> prompt_table" where
  "example_answering s = snd (repo_transition s 9 ''p'' (answer_transition Pending example_yes ''u'' 9))"

definition example_surroundings :: "prompt_table surroundings" where
  "example_surroundings =
     \<lparr>sr_prompt = ''p'', sr_token = ''o'', sr_grant = ''g'', sr_now = 5, sr_later = 20,
      sr_events = [Poll, Elsewhere example_answering, Wake]\<rparr>"

definition empty_table :: prompt_table where
  "empty_table = \<lparr>pt_rows = [], pt_runs = [], pt_faults = []\<rparr>"

lemma empty_table_ok [simp]: "repo_ok empty_table"
  by (simp add: repo_ok_def empty_table_def)

lemma example_answering_lawful: "lawful_table example_answering"
  unfolding lawful_table_def
proof (intro allI impI)
  fix u assume "repo_ok u"
  obtain b v where m: "repo_transition u 9 ''p'' (answer_transition Pending example_yes ''u'' 9) = (b, v)" by fastforce
  with database.issued_move_effect [OF \<open>repo_ok u\<close>, of "AnswerMove example_yes ''u'' 9" 9 "''p''" b v]
  show "repo_ok (example_answering u) \<and> rows_live_on (find_row u) (find_row (example_answering u))"
    by (simp add: example_answering_def repo_ops_def)
qed

lemma example_events_lawful: "Elsewhere f \<in> set (sr_events example_surroundings) \<Longrightarrow> lawful_table f"
  using example_answering_lawful by (auto simp: example_surroundings_def)

definition example_flow :: "(gate_error + decision) option \<times> (prompt_table, grant_db) gate_state" where
  "example_flow = request_and_wait repo_ops repo_grants (Some example_gate) example_context
     example_surroundings example_call (empty_table, None)"

definition said_yes :: "(gate_error + decision) option \<Rightarrow> bool" where
  "said_yes r = (case r of Some (Inr d) \<Rightarrow> dc_approved d | _ \<Rightarrow> False)"

lemma said_yes_decision: "said_yes r \<Longrightarrow> \<exists>d. r = Some (Inr d) \<and> dc_approved d"
  by (auto simp: said_yes_def split: option.splits sum.splits)

lemma call_runs_only_with_approval_witness:
  "\<exists>d row. fst example_flow = Some (Inr d) \<and> dc_approved d
     \<and> find_row (fst (snd example_flow)) (dc_pending d) = Some row \<and> ap_status row = Executing
     \<and> ap_owner row = ''o''"
proof -
  have "said_yes (fst example_flow)" by code_simp
  then obtain d where d: "fst example_flow = Some (Inr d)" "dc_approved d" using said_yes_decision by blast
  obtain s g where sg: "example_flow = (Some (Inr d), s, g)" using d(1) by (metis prod.collapse)
  have pr: "sr_prompt example_surroundings \<noteq> []" "sr_token example_surroundings = ''o''"
    by (simp_all add: example_surroundings_def)
  from call_runs_only_with_approval [OF empty_table_ok pr(1) example_events_lawful
      sg [unfolded example_flow_def] d(2)] pr(2)
  show ?thesis unfolding sg by (auto simp: granted_by_def approved_row_def d(2))
qed

definition example_host :: "(gate_error + decision) option \<times> (prompt_table, grant_db) gate_state" where
  "example_host = request_host_and_wait repo_ops repo_grants (Some example_gate) example_context
     example_surroundings example_call (empty_table, None)"


definition example_answered_row :: agent_prompt where
  "example_answered_row = (example_row ''p'')\<lparr>ap_status := Answered, ap_response := example_yes\<rparr>"

definition example_resumed :: "decision \<times> (prompt_table, grant_db) gate_state" where
  "example_resumed = resume_decision repo_ops repo_grants example_context example_surroundings
     example_answered_row (empty_table\<lparr>pt_rows := [example_answered_row]\<rparr>, None)"

lemma resumed_call_claims_first_witness:
  "\<exists>row. find_row (fst (snd example_resumed)) (dc_pending (fst example_resumed)) = Some row
     \<and> ap_status row = Executing \<and> ap_owner row = ''o''"
proof -
  obtain d s g where r: "example_resumed = (d, s, g)" by (metis prod_cases3)
  have "dc_approved (fst example_resumed)" by code_simp
  then have app: "dc_approved d" by (simp add: r)
  have row: "ap_id example_answered_row = ''p''" "ap_status example_answered_row = Answered"
      "ap_owner example_answered_row = ''o''"
    by (simp_all add: example_answered_row_def example_row_def)
  let ?s = "empty_table\<lparr>pt_rows := [example_answered_row]\<rparr>"
  have "repo_ok ?s" "find_row ?s (ap_id example_answered_row) = Some example_answered_row"
    by (simp_all add: repo_ok_def empty_table_def find_row_def)
  from resumed_call_claims_first [OF this row(2) r [unfolded example_resumed_def]] app row(3)
  show ?thesis unfolding r by (auto simp: approved_row_def)
qed

end
