(* ===== verification/ApprovalAnswer.thy ===== *)
theory ApprovalAnswer
  imports ApprovalFlow
begin

text \<open>
  The way of an answer: what the user decided is encoded, checked, stored, read back by the run
  that waits or resumes, and decoded. The encoder and the two decoders of \<open>ApprovalGate\<close> meet
  here, and the store of \<open>PromptWait\<close> in between.
\<close>

section \<open>The encoding of an approval\<close>

text \<open>What decoding gives back: strings as JSON texts.\<close>

definition cleaned :: "approval_response \<Rightarrow> approval_response" where
  "cleaned a = a\<lparr>ar_reason := json_text (ar_reason a), ar_scope := json_text (ar_scope a),
                 ar_access := json_text (ar_access a)\<rparr>"

lemmas member_defs = text_member_def bool_member_def raw_member_def

lemmas field_defs = approval_fields_def find_field_def text_of_def bool_of_def flag_of_def raw_of_def

text \<open>The struct after decoding an encoded approval into fields whose verdict is a given slot.\<close>

definition approval_struct :: "slot \<Rightarrow> approval_response \<Rightarrow> struct" where
  "approval_struct approved a =
     [(''approved'', approved), (''modified_args'', SRaw (ar_args a)), (''reason'', SText (json_text (ar_reason a))),
      (''allow_in_session'', SBool (ar_allow a)), (''scope'', SText (json_text (ar_scope a))),
      (''access'', SText (json_text (ar_access a)))]"

text \<open>Decoding one member after the other.\<close>

lemma decode_text_member:
  assumes "map_of fs name = Some (SText [])"
  shows "decode_fields strict (text_member name s @ kvs) fs =
     decode_fields strict kvs (AList.update name (SText (json_text s)) fs)"
proof (cases "s = []")
  case True
  have "AList.update name (SText []) fs = fs" if "map_of fs name = Some (SText [])" for fs :: struct
    using that by (induction fs) auto
  with True assms show ?thesis by (simp add: text_member_def)
next
  case False
  have "name \<in> fst ` set fs" using assms by (force dest: map_of_SomeD)
  with False assms show ?thesis by (simp add: text_member_def)
qed

lemma decode_bool_member:
  assumes "map_of fs name = Some (SBool False)"
  shows "decode_fields strict (bool_member name b @ kvs) fs =
     decode_fields strict kvs (AList.update name (SBool b) fs)"
proof (cases b)
  case False
  have "AList.update name (SBool False) fs = fs" if "map_of fs name = Some (SBool False)" for fs :: struct
    using that by (induction fs) auto
  with False assms show ?thesis by (simp add: bool_member_def)
next
  case True
  have "name \<in> fst ` set fs" using assms by (force dest: map_of_SomeD)
  with True assms show ?thesis by (simp add: bool_member_def)
qed

lemma decode_raw_member:
  assumes "map_of fs name = Some (SRaw NoBytes)" and "r \<noteq> Malformed"
  shows "decode_fields strict (raw_member name r @ kvs) fs =
     decode_fields strict kvs (AList.update name (SRaw r) fs)"
proof (cases r)
  case NoBytes
  have "AList.update name (SRaw NoBytes) fs = fs" if "map_of fs name = Some (SRaw NoBytes)" for fs :: struct
    using that by (induction fs) auto
  with NoBytes assms show ?thesis by (simp add: raw_member_def)
next
  case (Doc j)
  have "name \<in> fst ` set fs" using assms by (force dest: map_of_SomeD)
  with Doc assms show ?thesis by (simp add: raw_member_def)
qed (use assms in simp)

lemma decode_text_member_last:
  "map_of fs name = Some (SText []) \<Longrightarrow>
     decode_fields strict (text_member name s) fs = Some (AList.update name (SText (json_text s)) fs)"
  using decode_text_member [of fs name strict s "[]"] by simp

lemmas decode_members = decode_text_member decode_bool_member decode_raw_member decode_text_member_last

lemma decode_encoded_approval:
  assumes enc: "encode_approval a = Some r" and slot: "put_slot approved (JBool (ar_approved a)) = Some verdict"
  shows "decode_struct strict (approval_fields approved) r = Some (approval_struct verdict a)"
proof -
  have args: "ar_args a \<noteq> Malformed" and r: "r = Doc (JObj ((''approved'', JBool (ar_approved a))
      # (raw_member ''modified_args'' (ar_args a) @ text_member ''reason'' (ar_reason a)
      @ bool_member ''allow_in_session'' (ar_allow a) @ text_member ''scope'' (ar_scope a)
      @ text_member ''access'' (ar_access a))))"
    using enc by (auto simp: encode_approval_def split: if_splits)
  have "decode_struct strict (approval_fields approved) r =
      decode_fields strict (raw_member ''modified_args'' (ar_args a) @ text_member ''reason'' (ar_reason a)
        @ bool_member ''allow_in_session'' (ar_allow a) @ text_member ''scope'' (ar_scope a)
        @ text_member ''access'' (ar_access a)) (approval_fields verdict)"
    using slot by (simp add: r decode_struct_def approval_fields_def)
  also have "\<dots> = Some (approval_struct verdict a)"
    using args by (simp add: approval_fields_def decode_members approval_struct_def)
  finally show ?thesis .
qed

lemma read_encoded_approval:
  assumes "encode_approval a = Some r"
  shows "read_approval r = Some (cleaned a)"
proof -
  have "decode_struct False (approval_fields (SBool False)) r = Some (approval_struct (SBool (ar_approved a)) a)"
    by (rule decode_encoded_approval [OF assms]) simp
  then show ?thesis
    by (simp add: read_approval_def approval_struct_def text_of_def bool_of_def raw_of_def cleaned_def)
qed

text \<open>Which approvals the validator accepts, for the request that was shown.\<close>

definition offers_grant :: "raw \<Rightarrow> bool" where
  "offers_grant request =
     (case decode_struct False request_zero request of
        None \<Rightarrow> False
      | Some offer \<Rightarrow> text_of offer ''grant'' \<noteq> [] \<and> text_of offer ''grant_scope'' \<noteq> [])"

definition acceptable :: "raw \<Rightarrow> approval_response \<Rightarrow> bool" where
  "acceptable request a \<longleftrightarrow>
     (ar_allow a \<longrightarrow> ar_approved a \<and> offers_grant request)
   \<and> (ar_args a \<noteq> NoBytes \<longrightarrow> ar_approved a \<and> json_object (ar_args a))"

lemma validate_encoded_approval:
  assumes "encode_approval a = Some r"
  shows "validate_tool_approval request r \<longleftrightarrow> acceptable request a"
proof -
  have d: "decode_struct True (approval_fields (SFlag None)) r
      = Some (approval_struct (SFlag (Some (ar_approved a))) a)"
    using assms by (simp add: decode_encoded_approval)
  have g: "(case decode_struct False request_zero request of None \<Rightarrow> True
      | Some offer \<Rightarrow> text_of offer ''grant'' = [] \<or> text_of offer ''grant_scope'' = []) = (\<not> offers_grant request)"
    by (simp add: offers_grant_def split: option.splits)
  show ?thesis
    unfolding validate_tool_approval_def d g
    by (auto simp: approval_struct_def field_defs acceptable_def)
qed

section \<open>Through the store\<close>

text \<open>
  C8. What the user decided is what the run is told. When an answer to a tool approval is recorded,
  its row holds a response from which the waiting or resuming run reads the same verdict, the
  same edited arguments, and the same scope and reason up to the replacement of bytes that
  are no text; arguments and the wish to remember travel with an approval only, edited arguments
  are an object, and remembering was offered on the card.
\<close>

theorem decision_reaches_run:
  assumes "repo_ok s" and "ga_kind ans = [] \<or> ga_kind ans = kind_tool_approval"
    and res: "resolve_for_resume repo_ops (Some gt) (gate_validators ask page form) now fresh ans s = (Inr rn, s')"
    and d: "d = ga_decision ans"
  shows "\<exists>row. find_row s' (ga_pending ans) = Some row \<and> ap_status row = Answered
     \<and> ap_resolved_by row = ga_user ans
     \<and> (let e = tool_approval_decision (answered_outcome row) in
          dc_approved e = dc_approved d
        \<and> dc_args e = (if dc_approved d then dc_args d else NoBytes)
        \<and> dc_allow e = (dc_approved d \<and> dc_allow d)
        \<and> dc_reason e = json_text (dc_reason d)
        \<and> dc_scope e = json_text (dc_scope d) \<and> dc_access e = json_text (dc_access d)
        \<and> (dc_args e \<noteq> NoBytes \<longrightarrow> json_object (dc_args e))
        \<and> (dc_allow e \<longrightarrow> offers_grant (ap_request row)))"
proof -
  let ?a = "decision_response d"
  define req where "req = (\<lambda>r. \<lparr>rr_tenant = ga_tenant ans, rr_user = ga_user ans, rr_session = ga_session ans,
      rr_kind = kind_tool_approval, rr_prompt = ga_pending ans, rr_response = r\<rparr>)"
  have kind: "(if ga_kind ans = [] then kind_tool_approval else ga_kind ans) = kind_tool_approval"
    using assms(2) by auto
  from res obtain r where enc: "encode_approval ?a = Some r"
      and rv: "resolve repo_ops (gt_broker gt) (gate_validators ask page form) now fresh (req r) s = (Inr rn, s')"
    unfolding resolve_for_resume_def kind req_def
    by (auto simp: encode_decision_def d Let_def split: sum.splits option.splits prod.splits)
  from database.resolve_recorded [OF assms(1) rv] obtain row row' where
      row: "refuse_answer (gate_validators ask page form) (req r) (Some row) = None"
        "find_row s' (ga_pending ans) = Some row'" "same_question row row'" "ap_status row' = Answered"
        "ap_resolved_by row' = ga_user ans"
        "ap_response row' = (if r = NoBytes then ap_response row else r)"
    by (auto simp: req_def)
  have "ap_kind row = kind_tool_approval \<and> validate_tool_approval (ap_request row) r"
    using row(1) by (auto simp: refuse_answer_def req_def gate_validators_def kind_tool_approval_def
        split: if_splits option.splits)
  then have acc: "acceptable (ap_request row') ?a"
    using validate_encoded_approval [OF enc] row(3) by (simp add: same_question_def)
  have "ap_response row' = r" using enc row(6) by (auto simp: encode_approval_def split: if_splits)
  then have "read_approval (ap_response row') = Some (cleaned ?a)"
    using read_encoded_approval [OF enc] by simp
  with row(2,4,5) acc show ?thesis
    by (auto simp: tool_approval_decision_def answered_outcome_def plain_outcome_def outcome_decision_def
        no_decision_def cleaned_def decision_response_def acceptable_def Let_def)
qed

definition example_gate_answer :: gate_answer where
  "example_gate_answer =
     \<lparr>ga_tenant = 7, ga_user = ''u'', ga_session = ''s'', ga_kind = [], ga_pending = ''p'',
      ga_decision = no_decision\<lparr>dc_approved := True, dc_reason := ''fine''\<rparr>\<rparr>"

definition example_recorded :: "(gate_error + resolution) \<times> prompt_table" where
  "example_recorded =
     resolve_for_resume repo_ops (Some example_gate)
       (gate_validators (\<lambda>_ _. True) (\<lambda>_ _. True) (\<lambda>_ _. True)) 9 ''new'' example_gate_answer
       (empty_table\<lparr>pt_rows := [example_row ''p'']\<rparr>)"

lemma decision_reaches_run_witness:
  "\<exists>row. find_row (snd example_recorded) ''p'' = Some row
     \<and> dc_approved (tool_approval_decision (answered_outcome row))"
proof -
  have "case fst example_recorded of Inr rn \<Rightarrow> True | Inl _ \<Rightarrow> False" by code_simp
  then obtain rn where "fst example_recorded = Inr rn" by (auto split: sum.splits)
  then have r: "example_recorded = (Inr rn, snd example_recorded)" by (metis prod.collapse)
  have okst: "repo_ok (empty_table\<lparr>pt_rows := [example_row ''p'']\<rparr>)"
    by (simp add: repo_ok_def empty_table_def)
  from decision_reaches_run [OF okst _ r [unfolded example_recorded_def] refl]
  show ?thesis
    by (auto simp: example_gate_answer_def no_decision_def Let_def example_recorded_def)
qed

text \<open>
  The reason a stop leaves behind. \<open>RequestHostAndWait\<close> sets it to a canceled request, but claiming
  in a context that has ended always fails and the failure replaces the reason; the answered row
  is not touched any more.
\<close>

lemma stop_reason_replaced:
  assumes "\<not> cx_live_after cx" and "dc_answered d" and "dc_approved d"
    and "consume_decision ops gops cx sr (stop_wins (cx_live_after cx) d) p w = (d', w')"
  shows "dc_reason d' = unconfirmed_reason \<and> dc_canceled d' \<and> w' = w"
  using assms
  by (cases w) (auto simp: consume_decision_def consume_def check_delegation_def stop_wins_def
      withdraw_decision_def Let_def)

end
