(* ===== verification/Admission.thy ===== *)
theory Admission
  imports Prelude
begin

text \<open>
  Admission of operations on a shared machine: \<open>internal/sandbox/admission/admission.go\<close> (scopes,
  the Lost/deadline/Release bookkeeping of leases and barriers) and
  \<open>internal/sandbox/admission/memory.go\<close> (the process-local registry). Every method body runs
  under a mutex, so each is one atomic operation here; \<open>finish\<close> and the callback it runs are
  one operation. Instants and durations are nanoseconds as \<open>int\<close>; \<open>None\<close> is the zero
  \<open>time.Time\<close> or a nil timer.
\<close>

section \<open>Scopes\<close>

record adm_scope =
  sc_tag :: string
  sc_name :: string

definition machine_scope :: "string \<Rightarrow> adm_scope" where
  "machine_scope digest = \<lparr>sc_tag = digest, sc_name = ''machine''\<rparr>"

definition session_scope :: "string \<Rightarrow> string \<Rightarrow> adm_scope" where
  "session_scope digest session = \<lparr>sc_tag = digest, sc_name = ''session:'' @ session\<rparr>"

definition session_member :: "string \<Rightarrow> string \<Rightarrow> string \<Rightarrow> string" where
  "session_member session knd token = ''s:'' @ session @ '':'' @ knd @ '':'' @ token"

section \<open>Signals\<close>

text \<open>
  \<open>lost\<close>: the Lost channel is closed; \<open>fin\<close>: \<open>finishOnce\<close> has run; \<open>timer\<close>: when the armed
  \<open>AfterFunc\<close> fires.
\<close>

record signal =
  lost :: bool
  fin :: bool
  stopped :: bool
  deadline :: "int option"
  timer :: "int option"

definition new_signal :: signal where
  "new_signal = \<lparr>lost = False, fin = False, stopped = False, deadline = None, timer = None\<rparr>"

definition mark_lost :: "signal \<Rightarrow> signal" where
  "mark_lost s = s\<lparr>lost := True\<rparr>"

definition renew_margin :: "int \<Rightarrow> int" where
  "renew_margin ttl = go_div ttl 6"

definition arm_locked :: "int \<Rightarrow> int \<Rightarrow> signal \<Rightarrow> signal" where
  "arm_locked now delay s =
     (let s' = s\<lparr>timer := None\<rparr>
      in if delay \<le> 0 then mark_lost s' else s'\<lparr>timer := Some (now + delay)\<rparr>)"

text \<open>Any real instant is after the zero \<open>time.Time\<close>.\<close>

definition after_deadline :: "int \<Rightarrow> int option \<Rightarrow> bool" where
  "after_deadline d old = (case old of None \<Rightarrow> True | Some o' \<Rightarrow> d > o')"

definition extend :: "int \<Rightarrow> int \<Rightarrow> int \<Rightarrow> signal \<Rightarrow> signal" where
  "extend now sent_at ttl s =
     (let d = sent_at + (ttl - renew_margin ttl)
      in if stopped s \<or> lost s then s
         else if (case deadline s of Some dl \<Rightarrow> \<not> now < dl | None \<Rightarrow> False) then mark_lost s
         else if \<not> after_deadline d (deadline s) then s
         else arm_locked now (d - now) (s\<lparr>deadline := Some d\<rparr>))"

definition on_deadline :: "int \<Rightarrow> signal \<Rightarrow> signal" where
  "on_deadline now s =
     (case deadline s of
        None \<Rightarrow> s
      | Some dl \<Rightarrow>
          if stopped s \<or> lost s then s
          else if dl - now > 0 then s\<lparr>timer := Some dl\<rparr>
          else mark_lost s)"

text \<open>\<open>Check\<close>: the boolean is "no error".\<close>

definition check :: "int \<Rightarrow> signal \<Rightarrow> bool \<times> signal" where
  "check now s =
     (if lost s then (False, s)
      else if stopped s then (True, s)
      else (case deadline s of
              Some dl \<Rightarrow> if \<not> now < dl then (False, mark_lost s) else (True, s)
            | None \<Rightarrow> (True, s)))"

text \<open>The signal's part of \<open>finish\<close>; the callback is run by the registry below.\<close>

definition finish_signal :: "signal \<Rightarrow> signal" where
  "finish_signal s = s\<lparr>fin := True, stopped := True, timer := None\<rparr>"

subsection \<open>The life of a signal\<close>

datatype sig_event =
    Extend int int int   \<comment> \<open>now, when the request was sent, ttl\<close>
  | Fire int
  | Check int
  | MarkLost
  | Finish

fun sig_step :: "signal \<Rightarrow> sig_event \<Rightarrow> signal" where
  "sig_step s (Extend now sent ttl) = extend now sent ttl s"
| "sig_step s (Fire now) = on_deadline now s"
| "sig_step s (Check now) = snd (check now s)"
| "sig_step s MarkLost = mark_lost s"
| "sig_step s Finish = (if fin s then s else finish_signal s)"

fun sig_run :: "signal \<Rightarrow> sig_event list \<Rightarrow> signal" where
  "sig_run s [] = s"
| "sig_run s (e # es) = sig_run (sig_step s e) es"

lemmas signal_defs = new_signal_def mark_lost_def arm_locked_def after_deadline_def extend_def
  on_deadline_def check_def finish_signal_def

lemma sig_run_append [simp]: "sig_run s (xs @ ys) = sig_run (sig_run s xs) ys"
  by (induction xs arbitrary: s) auto

lemma sig_step_lost: "lost s \<Longrightarrow> lost (sig_step s e)"
  by (cases e) (auto simp: signal_defs Let_def split: option.splits)

lemma sig_run_lost: "lost s \<Longrightarrow> lost (sig_run s es)"
  by (induction es arbitrary: s) (auto intro: sig_step_lost)

lemma sig_step_stopped: "stopped s \<Longrightarrow> stopped (sig_step s e)"
  by (cases e) (auto simp: signal_defs Let_def split: option.splits)

lemma sig_run_stopped: "stopped s \<Longrightarrow> stopped (sig_run s es)"
  by (induction es arbitrary: s) (auto intro: sig_step_stopped)

text \<open>A deadline always comes from a confirmation, less its margin.\<close>

definition confirmed :: "sig_event list \<Rightarrow> int \<Rightarrow> bool" where
  "confirmed es d \<longleftrightarrow>
     (\<exists>now sent ttl. Extend now sent ttl \<in> set es \<and> d = sent + ttl - renew_margin ttl)"

lemma sig_step_deadline:
  "deadline (sig_step s e) = Some d \<Longrightarrow> deadline s = Some d \<or> confirmed [e] d"
  by (cases e) (auto simp: signal_defs Let_def confirmed_def split: option.splits if_splits)

lemma sig_run_deadline:
  "deadline (sig_run s es) = Some d \<Longrightarrow> deadline s = Some d \<or> confirmed es d"
proof (induction es arbitrary: s)
  case (Cons e es)
  then have "deadline (sig_step s e) = Some d \<or> confirmed es d" by simp
  then show ?case
    using sig_step_deadline [of s e d] by (auto simp: confirmed_def)
qed simp

lemma sig_step_deadline_kept:
  "deadline s \<noteq> None \<Longrightarrow> deadline (sig_step s e) \<noteq> None"
  by (cases e) (auto simp: signal_defs Let_def split: option.splits if_splits)

lemma sig_run_deadline_kept:
  "deadline s \<noteq> None \<Longrightarrow> deadline (sig_run s es) \<noteq> None"
proof (induction es arbitrary: s)
  case (Cons e es)
  from sig_step_deadline_kept [OF Cons.prems] show ?case
    using Cons.IH [of "sig_step s e"] by simp
qed simp

lemma extend_sets_deadline:
  "\<not> stopped s \<Longrightarrow> \<not> lost s \<Longrightarrow> deadline (extend now sent ttl s) \<noteq> None"
  by (auto simp: signal_defs Let_def split: option.splits)

text \<open>
  A lease that is still held (not released) and was confirmed at least once passes
  \<open>Check\<close> only strictly inside the lifetime of some confirmation, counted from when its
  request was sent and cut by the renewal margin, whatever extensions, timer wakes and checks
  came before and in whatever order; and once \<open>Check\<close> has failed it fails for good.
\<close>

theorem check_within_confirmed_lifetime:
  assumes run: "s = sig_run new_signal (es1 @ Extend t sent0 ttl0 # es2)"
    and held: "\<not> stopped s"
  shows "(fst (check now s) \<longrightarrow>
      (\<exists>t' sent ttl. Extend t' sent ttl \<in> set (es1 @ Extend t sent0 ttl0 # es2) \<and>
         now < sent + ttl - renew_margin ttl)) \<and>
    (\<not> fst (check now s) \<longrightarrow> \<not> fst (check now' (sig_run (snd (check now s)) es3)))"
proof (intro conjI impI)
  assume ok: "fst (check now s)"
  let ?es = "es1 @ Extend t sent0 ttl0 # es2"
  have notlost: "\<not> lost s" using ok by (auto simp: check_def split: if_splits)
  let ?s1 = "sig_run new_signal es1"
  have "s = sig_run (extend t sent0 ttl0 ?s1) es2" using run by simp
  moreover have "\<not> lost ?s1"
    using run notlost sig_run_lost [of ?s1 "Extend t sent0 ttl0 # es2"] by auto
  moreover have "\<not> stopped ?s1"
    using run held sig_run_stopped [of ?s1 "Extend t sent0 ttl0 # es2"] by auto
  ultimately have "deadline s \<noteq> None"
    using extend_sets_deadline sig_run_deadline_kept by metis
  then obtain d where d: "deadline s = Some d" by auto
  then have "confirmed ?es d"
    using run sig_run_deadline [of new_signal ?es d] by (auto simp: new_signal_def)
  moreover have "now < d"
    using ok d held by (auto simp: check_def split: if_splits)
  ultimately show "\<exists>t' sent ttl. Extend t' sent ttl \<in> set ?es \<and> now < sent + ttl - renew_margin ttl"
    by (auto simp: confirmed_def)
next
  assume "\<not> fst (check now s)"
  then have "lost (snd (check now s))"
    using held by (auto simp: check_def mark_lost_def split: option.splits if_splits)
  from sig_run_lost [OF this] show "\<not> fst (check now' (sig_run (snd (check now s)) es3))"
    by (simp add: check_def)
qed

lemma check_within_confirmed_lifetime_witness:
  "fst (check 90 (sig_run new_signal [Extend 10 5 120])) \<and>
   \<not> fst (check 130 (sig_run new_signal [Extend 10 5 120])) \<and>
   \<not> fst (check 20 (sig_run (snd (check 130 (sig_run new_signal [Extend 10 5 120]))) [Extend 20 19 900]))"
proof -
  let ?s = "sig_run new_signal [Extend 10 5 120]"
  have e: "?s = sig_run new_signal ([] @ Extend 10 5 120 # [])" by simp
  have h: "\<not> stopped ?s" by (simp add: signal_defs renew_margin_def go_div_def)
  have no: "\<not> fst (check 130 ?s)" by (simp add: signal_defs renew_margin_def go_div_def)
  have "\<not> fst (check 20 (sig_run (snd (check 130 ?s)) [Extend 20 19 900]))"
    using check_within_confirmed_lifetime [OF e h, of 130] no by blast
  moreover have "fst (check 90 ?s)" by (simp add: signal_defs renew_margin_def go_div_def)
  ultimately show ?thesis using no by blast
qed

end
