(* ===== verification/AdmissionRegistry.thy ===== *)
theory AdmissionRegistry
  imports Admission
begin

text \<open>
  The process-local registry of \<open>internal/sandbox/admission/memory.go\<close>. Leases and barriers are
  heap objects, since the code compares pointers before it removes a map entry: \<open>leases\<close> and
  \<open>bars\<close> map an address to its object, and the maps \<open>members\<close> and \<open>barriers\<close> hold addresses.
\<close>

section \<open>State\<close>

record lease_obj =
  lo_signal :: signal
  lo_scope :: adm_scope
  lo_member :: string

record barrier_obj =
  bo_signal :: signal
  bo_scope :: adm_scope

record registry =
  next_addr :: nat
  leases :: "nat \<rightharpoonup> lease_obj"
  bars :: "nat \<rightharpoonup> barrier_obj"
  members :: "adm_scope \<Rightarrow> (string \<times> nat) list"
  barriers :: "adm_scope \<rightharpoonup> nat"

definition new_memory :: registry where
  "new_memory = \<lparr>next_addr = 0, leases = Map.empty, bars = Map.empty,
                 members = (\<lambda>_. []), barriers = Map.empty\<rparr>"

datatype adm_error = ErrClosed | ErrLeaseLost

section \<open>Operations\<close>

definition hold :: "registry \<Rightarrow> adm_scope \<Rightarrow> string \<Rightarrow> (adm_error + nat) \<times> registry" where
  "hold r sc m =
     (case barriers r sc of
        Some _ \<Rightarrow> (Inl ErrClosed, r)
      | None \<Rightarrow>
          (let a = next_addr r
           in (Inr a,
               r\<lparr>next_addr := Suc a,
                 leases := (leases r)(a \<mapsto> \<lparr>lo_signal = new_signal, lo_scope = sc, lo_member = m\<rparr>),
                 members := (members r)(sc := AList.update m a (members r sc))\<rparr>)))"

definition active_except :: "registry \<Rightarrow> adm_scope \<Rightarrow> string list \<Rightarrow> nat" where
  "active_except r sc except = length (filter (\<lambda>x. fst x \<notin> set except) (members r sc))"

definition close_scope :: "registry \<Rightarrow> adm_scope \<Rightarrow> (adm_error + nat) \<times> registry" where
  "close_scope r sc =
     (case barriers r sc of
        Some _ \<Rightarrow> (Inl ErrClosed, r)
      | None \<Rightarrow>
          (let a = next_addr r
           in (Inr a,
               r\<lparr>next_addr := Suc a,
                 bars := (bars r)(a \<mapsto> \<lparr>bo_signal = new_signal, bo_scope = sc\<rparr>),
                 barriers := (barriers r)(sc \<mapsto> a)\<rparr>)))"

definition release_lease :: "registry \<Rightarrow> nat \<Rightarrow> registry" where
  "release_lease r a =
     (case leases r a of
        None \<Rightarrow> r
      | Some l \<Rightarrow>
          if fin (lo_signal l) then r
          else (let r' = r\<lparr>leases := (leases r)(a \<mapsto> l\<lparr>lo_signal := finish_signal (lo_signal l)\<rparr>)\<rparr>;
                    set = members r (lo_scope l)
                in if map_of set (lo_member l) = Some a
                   then r'\<lparr>members := (members r)(lo_scope l := AList.delete (lo_member l) set)\<rparr>
                   else r'))"

text \<open>\<open>Release\<close> reopens the scope, \<open>Seal\<close> does not; a memory barrier has no seal callback.\<close>

definition finish_barrier :: "registry \<Rightarrow> nat \<Rightarrow> bool \<Rightarrow> registry" where
  "finish_barrier r a reopen =
     (case bars r a of
        None \<Rightarrow> r
      | Some b \<Rightarrow>
          if fin (bo_signal b) then r
          else (let r' = r\<lparr>bars := (bars r)(a \<mapsto> b\<lparr>bo_signal := finish_signal (bo_signal b)\<rparr>)\<rparr>
                in if reopen \<and> barriers r (bo_scope b) = Some a
                   then r'\<lparr>barriers := (barriers r)(bo_scope b := None)\<rparr>
                   else r'))"

definition lose_lease :: "nat \<Rightarrow> (nat \<rightharpoonup> lease_obj) \<Rightarrow> (nat \<rightharpoonup> lease_obj)" where
  "lose_lease a ls =
     (case ls a of None \<Rightarrow> ls | Some l \<Rightarrow> ls(a \<mapsto> l\<lparr>lo_signal := mark_lost (lo_signal l)\<rparr>))"

definition expire_scope :: "registry \<Rightarrow> adm_scope \<Rightarrow> registry" where
  "expire_scope r sc =
     r\<lparr>members := (members r)(sc := []),
       leases := fold (\<lambda>x. lose_lease (snd x)) (members r sc) (leases r)\<rparr>"

definition expire_member :: "registry \<Rightarrow> adm_scope \<Rightarrow> string \<Rightarrow> registry" where
  "expire_member r sc m =
     (let r' = r\<lparr>members := (members r)(sc := AList.delete m (members r sc))\<rparr>
      in case map_of (members r sc) m of
           None \<Rightarrow> r'
         | Some a \<Rightarrow> r'\<lparr>leases := lose_lease a (leases r)\<rparr>)"

definition lose_barrier :: "registry \<Rightarrow> adm_scope \<Rightarrow> registry" where
  "lose_barrier r sc =
     (case barriers r sc of
        None \<Rightarrow> r
      | Some a \<Rightarrow>
          r\<lparr>barriers := (barriers r)(sc := None),
            bars := (case bars r a of
                       None \<Rightarrow> bars r
                     | Some b \<Rightarrow> (bars r)(a \<mapsto> b\<lparr>bo_signal := mark_lost (bo_signal b)\<rparr>))\<rparr>)"

datatype adm_op =
    Hold adm_scope string
  | CloseScope adm_scope
  | ReleaseLease nat
  | ReleaseBarrier nat
  | SealBarrier nat
  | ExpireScope adm_scope
  | ExpireMember adm_scope string
  | LoseBarrier adm_scope

fun adm_step :: "registry \<Rightarrow> adm_op \<Rightarrow> registry" where
  "adm_step r (Hold sc m) = snd (hold r sc m)"
| "adm_step r (CloseScope sc) = snd (close_scope r sc)"
| "adm_step r (ReleaseLease a) = release_lease r a"
| "adm_step r (ReleaseBarrier a) = finish_barrier r a True"
| "adm_step r (SealBarrier a) = finish_barrier r a False"
| "adm_step r (ExpireScope sc) = expire_scope r sc"
| "adm_step r (ExpireMember sc m) = expire_member r sc m"
| "adm_step r (LoseBarrier sc) = lose_barrier r sc"

fun adm_run :: "registry \<Rightarrow> adm_op list \<Rightarrow> registry" where
  "adm_run r [] = r"
| "adm_run r (x # xs) = adm_run (adm_step r x) xs"

lemma adm_run_append [simp]: "adm_run r (xs @ ys) = adm_run (adm_run r xs) ys"
  by (induction xs arbitrary: r) auto

lemmas adm_defs = hold_def close_scope_def release_lease_def finish_barrier_def expire_scope_def
  expire_member_def lose_barrier_def Let_def

section \<open>Invariant\<close>

text \<open>
  A lease is live while it was neither released nor lost. With members unique per hold, as
  \<open>SessionMember\<close> promises of its token, the member map holds exactly the live leases.
  \<open>U\<close> is the set of the scope and member pairs used so far.
\<close>

definition live :: "lease_obj \<Rightarrow> bool" where
  "live l \<longleftrightarrow> \<not> fin (lo_signal l) \<and> \<not> lost (lo_signal l)"

definition lease_id :: "lease_obj \<Rightarrow> adm_scope \<times> string" where
  "lease_id l = (lo_scope l, lo_member l)"

definition fresh_above :: "registry \<Rightarrow> bool" where
  "fresh_above r \<longleftrightarrow> (\<forall>a. next_addr r \<le> a \<longrightarrow> leases r a = None)"

definition ids_unique :: "(adm_scope \<times> string) set \<Rightarrow> registry \<Rightarrow> bool" where
  "ids_unique U r \<longleftrightarrow>
     (\<forall>a l. leases r a = Some l \<longrightarrow> lease_id l \<in> U) \<and>
     (\<forall>a l a' l'. leases r a = Some l \<longrightarrow> leases r a' = Some l' \<longrightarrow> lease_id l = lease_id l' \<longrightarrow> a = a')"

definition members_live :: "registry \<Rightarrow> bool" where
  "members_live r \<longleftrightarrow>
     (\<forall>sc m a. map_of (members r sc) m = Some a \<longleftrightarrow>
        (\<exists>l. leases r a = Some l \<and> lease_id l = (sc, m) \<and> live l))"

definition reg_inv :: "(adm_scope \<times> string) set \<Rightarrow> registry \<Rightarrow> bool" where
  "reg_inv U r \<longleftrightarrow> fresh_above r \<and> ids_unique U r \<and> members_live r \<and> (\<forall>sc. keys_distinct (members r sc))"

text \<open>An operation that only changes the state of some leases keeps all but \<open>members_live\<close>.\<close>

definition same_ids :: "registry \<Rightarrow> registry \<Rightarrow> bool" where
  "same_ids r r' \<longleftrightarrow> next_addr r' = next_addr r \<and>
     (\<forall>a. map_option lease_id (leases r' a) = map_option lease_id (leases r a))"

lemma same_ids_keep:
  assumes "same_ids r r'" "fresh_above r" "ids_unique U r"
  shows "fresh_above r' \<and> ids_unique U r'"
proof -
  have n: "leases r' a = None \<longleftrightarrow> leases r a = None" for a
    using assms(1) unfolding same_ids_def by (metis option.map_disc_iff)
  have i: "\<exists>l0. leases r a = Some l0 \<and> lease_id l0 = lease_id l" if "leases r' a = Some l" for a l
    using assms(1) that unfolding same_ids_def by (metis map_option_eq_Some)
  have "ids_unique U r'"
    using assms(3) i unfolding ids_unique_def by metis
  moreover have "fresh_above r'"
    using assms n by (simp add: fresh_above_def same_ids_def)
  ultimately show ?thesis by simp
qed

lemma reg_inv_new: "reg_inv {} new_memory"
  by (simp add: reg_inv_def new_memory_def fresh_above_def ids_unique_def members_live_def)

lemma hold_reg_inv:
  assumes inv: "reg_inv U r" and new: "(sc, m) \<notin> U"
  shows "reg_inv (insert (sc, m) U) (snd (hold r sc m))"
proof (cases "barriers r sc")
  case (Some b)
  with inv show ?thesis
    by (auto simp: hold_def reg_inv_def ids_unique_def)
next
  case None
  let ?a = "next_addr r"
  let ?l = "\<lparr>lo_signal = new_signal, lo_scope = sc, lo_member = m\<rparr>"
  let ?r = "snd (hold r sc m)"
  have ls: "leases ?r = (leases r)(?a \<mapsto> ?l)" and na: "next_addr ?r = Suc ?a"
    and ms: "members ?r = (members r)(sc := AList.update m ?a (members r sc))"
    using None by (simp_all add: hold_def Let_def)
  have fresh: "leases r a = None" if "?a \<le> a" for a
    using inv that by (simp add: reg_inv_def fresh_above_def)
  have used: "lease_id l \<in> U" if "leases r a = Some l" for a l
    using inv that by (auto simp: reg_inv_def ids_unique_def)
  have id: "lease_id ?l = (sc, m)" "live ?l"
    by (simp_all add: lease_id_def live_def new_signal_def)
  have f: "fresh_above ?r"
    using fresh by (auto simp: fresh_above_def ls na)
  have un: "ids_unique (insert (sc, m) U) ?r"
  proof -
    have "leases r a = Some l \<Longrightarrow> leases r a' = Some l' \<Longrightarrow> lease_id l = lease_id l' \<Longrightarrow> a = a'" for a a' l l'
      using inv unfolding reg_inv_def ids_unique_def by blast
    then show ?thesis
      unfolding ids_unique_def ls using used new id by (auto split: if_splits; metis)
  qed
  have old: "map_of (members r sc') m' = Some a \<longleftrightarrow> (\<exists>l. leases r a = Some l \<and> lease_id l = (sc', m') \<and> live l)"
    for sc' m' a using inv by (simp add: reg_inv_def members_live_def)
  have "map_of (members ?r sc') m' = Some a \<longleftrightarrow>
      (\<exists>l. leases ?r a = Some l \<and> lease_id l = (sc', m') \<and> live l)" for sc' m' a
  proof (cases "sc' = sc \<and> m' = m")
    case True
    have "\<not> (\<exists>l. leases r a = Some l \<and> lease_id l = (sc, m))"
      using used new by metis
    with True id show ?thesis by (auto simp: ms ls)
  next
    case False
    then have "map_of (members ?r sc') m' = map_of (members r sc') m'"
      by (auto simp: ms update_conv')
    moreover have "leases r ?a = None" using fresh by simp
    ultimately show ?thesis
      using False old [of sc' m' a] id by (auto simp: ls)
  qed
  moreover have "keys_distinct (members ?r sc')" for sc'
    using inv by (simp add: ms reg_inv_def)
  ultimately show ?thesis
    using f un by (simp add: reg_inv_def members_live_def)
qed

text \<open>
  Removing the entries of a set \<open>D\<close> of addresses while those leases stop being live, and no
  others change, keeps the invariant.
\<close>

lemma drop_leases_inv:
  assumes inv: "reg_inv U r"
    and ids: "same_ids r r'"
    and dead: "\<And>a l. a \<in> D \<Longrightarrow> leases r' a = Some l \<Longrightarrow> \<not> live l"
    and keep: "\<And>a. a \<notin> D \<Longrightarrow> leases r' a = leases r a"
    and mem: "\<And>sc m a. map_of (members r' sc) m = Some a \<longleftrightarrow> map_of (members r sc) m = Some a \<and> a \<notin> D"
    and dist: "\<And>sc. keys_distinct (members r' sc)"
  shows "reg_inv U r'"
proof -
  have "members_live r'"
    unfolding members_live_def
  proof (intro allI)
    fix sc m a
    have "map_of (members r sc) m = Some a \<longleftrightarrow> (\<exists>l. leases r a = Some l \<and> lease_id l = (sc, m) \<and> live l)"
      using inv by (simp add: reg_inv_def members_live_def)
    then show "map_of (members r' sc) m = Some a \<longleftrightarrow>
        (\<exists>l. leases r' a = Some l \<and> lease_id l = (sc, m) \<and> live l)"
      using mem dead keep by metis
  qed
  moreover have "fresh_above r' \<and> ids_unique U r'"
    using same_ids_keep [OF ids, of U] inv by (simp add: reg_inv_def)
  ultimately show ?thesis using dist by (simp add: reg_inv_def)
qed

lemma release_lease_inv:
  assumes inv: "reg_inv U r"
  shows "reg_inv U (release_lease r a)"
proof (cases "\<exists>l. leases r a = Some l \<and> \<not> fin (lo_signal l)")
  case False
  then have "release_lease r a = r" by (auto simp: release_lease_def split: option.splits)
  with inv show ?thesis by simp
next
  case True
  then obtain l where l: "leases r a = Some l" "\<not> fin (lo_signal l)" by auto
  let ?r = "release_lease r a"
  let ?sc = "lo_scope l" and ?m = "lo_member l"
  have ls: "leases ?r = (leases r)(a \<mapsto> l\<lparr>lo_signal := finish_signal (lo_signal l)\<rparr>)"
    using l by (simp add: release_lease_def Let_def)
  have ms: "members ?r = (if map_of (members r ?sc) ?m = Some a
      then (members r)(?sc := AList.delete ?m (members r ?sc)) else members r)"
    using l by (simp add: release_lease_def Let_def)
  have at: "map_of (members r sc) m = Some a \<longleftrightarrow> (sc, m) = (?sc, ?m) \<and> live l" for sc m
    using inv l by (auto simp: reg_inv_def members_live_def lease_id_def)
  show ?thesis
  proof (rule drop_leases_inv [OF inv, where D = "{a}"])
    show "same_ids r ?r"
      using l by (auto simp: same_ids_def ls lease_id_def release_lease_def Let_def)
    show "map_of (members ?r sc) m = Some a' \<longleftrightarrow> map_of (members r sc) m = Some a' \<and> a' \<notin> {a}"
      for sc m a'
      using at [of sc m] at [of ?sc ?m] by (auto simp: ms delete_conv')
    show "keys_distinct (members ?r sc)" for sc
      using inv by (simp add: ms reg_inv_def)
  qed (auto simp: ls live_def finish_signal_def)
qed

lemma lose_fold:
  "fold (\<lambda>x. lose_lease (snd x)) xs ls a =
     (if a \<in> snd ` set xs
      then map_option (\<lambda>l. l\<lparr>lo_signal := mark_lost (lo_signal l)\<rparr>) (ls a) else ls a)"
proof (induction xs arbitrary: ls)
  case (Cons x xs)
  have "lose_lease (snd x) ls a =
      (if a = snd x then map_option (\<lambda>l. l\<lparr>lo_signal := mark_lost (lo_signal l)\<rparr>) (ls a) else ls a)"
    by (auto simp: lose_lease_def split: option.splits)
  then show ?case
    by (cases "ls a") (auto simp: Cons.IH mark_lost_def)
qed simp

lemma expire_scope_inv:
  assumes inv: "reg_inv U r"
  shows "reg_inv U (expire_scope r sc)"
proof (rule drop_leases_inv [OF inv, where D = "snd ` set (members r sc)"])
  let ?r = "expire_scope r sc" and ?D = "snd ` set (members r sc)"
  show "same_ids r ?r"
    by (auto simp: same_ids_def expire_scope_def lose_fold lease_id_def option.map_comp comp_def
        intro!: map_option_cong)
  show "\<not> live l" if "a \<in> ?D" "leases ?r a = Some l" for a l
    using that by (auto simp: expire_scope_def lose_fold live_def mark_lost_def)
  show "leases ?r a = leases r a" if "a \<notin> ?D" for a
    using that by (simp add: expire_scope_def lose_fold)
  have dist: "keys_distinct (members r s')" for s'
    using inv by (simp add: reg_inv_def)
  have inD: "a \<in> ?D \<longleftrightarrow> (\<exists>m. map_of (members r sc) m = Some a)" for a
    using keys_distinct_map_of [OF dist] map_of_in_set by (force simp: image_iff)
  have same: "s' = sc" if "map_of (members r s') m' = Some a" "map_of (members r sc) m = Some a" for s' m' m a
    using inv that by (auto simp: reg_inv_def members_live_def lease_id_def)
  show "map_of (members ?r s') m = Some a \<longleftrightarrow> map_of (members r s') m = Some a \<and> a \<notin> ?D" for s' m a
  proof (cases "s' = sc")
    case True
    then have "map_of (members ?r s') m = None" by (simp add: expire_scope_def)
    with True inD show ?thesis by auto
  next
    case False
    then have "members ?r s' = members r s'" by (simp add: expire_scope_def)
    with False same inD show ?thesis by metis
  qed
  show "keys_distinct (members ?r s')" for s'
    using dist by (simp add: expire_scope_def)
qed

lemma expire_member_inv:
  assumes inv: "reg_inv U r"
  shows "reg_inv U (expire_member r sc m)"
proof (cases "map_of (members r sc) m")
  case None
  then have "AList.delete m (members r sc) = members r sc"
    by (simp add: map_of_eq_None_iff)
  with None have "expire_member r sc m = r" by (simp add: expire_member_def)
  with inv show ?thesis by simp
next
  case (Some a)
  let ?r = "expire_member r sc m"
  obtain l where l: "leases r a = Some l" "lease_id l = (sc, m)"
    using inv Some by (auto simp: reg_inv_def members_live_def)
  have ls: "leases ?r = (leases r)(a \<mapsto> l\<lparr>lo_signal := mark_lost (lo_signal l)\<rparr>)"
    and ms: "members ?r = (members r)(sc := AList.delete m (members r sc))"
    using Some l by (simp_all add: expire_member_def lose_lease_def)
  have at: "map_of (members r s') m' = Some a \<longleftrightarrow> (s', m') = (sc, m)" for s' m'
    using inv l Some by (auto simp: reg_inv_def members_live_def)
  show ?thesis
  proof (rule drop_leases_inv [OF inv, where D = "{a}"])
    show "same_ids r ?r"
      using l Some by (simp add: same_ids_def ls) (simp add: lease_id_def expire_member_def)
    show "map_of (members ?r s') m' = Some a' \<longleftrightarrow> map_of (members r s') m' = Some a' \<and> a' \<notin> {a}"
      for s' m' a'
      using at [of s' m'] at [of sc m] by (auto simp: ms delete_conv')
    show "keys_distinct (members ?r s')" for s'
      using inv by (simp add: ms reg_inv_def)
  qed (auto simp: ls live_def mark_lost_def)
qed

lemma barrier_ops_frame:
  "members (snd (close_scope r sc)) = members r" "leases (snd (close_scope r sc)) = leases r"
  "next_addr r \<le> next_addr (snd (close_scope r sc))"
  "members (finish_barrier r a b) = members r" "leases (finish_barrier r a b) = leases r"
  "next_addr (finish_barrier r a b) = next_addr r"
  "members (lose_barrier r sc) = members r" "leases (lose_barrier r sc) = leases r"
  "next_addr (lose_barrier r sc) = next_addr r"
  by (auto simp: close_scope_def finish_barrier_def lose_barrier_def Let_def split: option.splits)

lemma frame_inv:
  assumes "reg_inv U r" "members r' = members r" "leases r' = leases r" "next_addr r \<le> next_addr r'"
  shows "reg_inv U r'"
  using assms by (auto simp: reg_inv_def fresh_above_def ids_unique_def members_live_def)

text \<open>The identities an operation adds, and runs that never reuse one.\<close>

fun op_ids :: "adm_op \<Rightarrow> (adm_scope \<times> string) set" where
  "op_ids (Hold sc m) = {(sc, m)}"
| "op_ids _ = {}"

fun holds_of :: "adm_op list \<Rightarrow> (adm_scope \<times> string) list" where
  "holds_of [] = []"
| "holds_of (Hold sc m # xs) = (sc, m) # holds_of xs"
| "holds_of (_ # xs) = holds_of xs"

lemma holds_of_Cons: "set (holds_of (x # xs)) = op_ids x \<union> set (holds_of xs)"
  by (cases x) auto

lemma holds_of_append [simp]: "holds_of (xs @ ys) = holds_of xs @ holds_of ys"
  by (induction xs rule: holds_of.induct) auto

lemma step_inv:
  assumes "reg_inv U r" "op_ids x \<inter> U = {}"
  shows "reg_inv (op_ids x \<union> U) (adm_step r x)"
  using assms
  by (cases x)
    (auto intro: hold_reg_inv release_lease_inv expire_scope_inv expire_member_inv
      frame_inv [OF _ barrier_ops_frame(1) barrier_ops_frame(2) barrier_ops_frame(3)]
      frame_inv [OF _ barrier_ops_frame(4) barrier_ops_frame(5)]
      frame_inv [OF _ barrier_ops_frame(7) barrier_ops_frame(8)] simp: barrier_ops_frame)

lemma run_inv:
  assumes "reg_inv U r" "distinct (holds_of xs)" "set (holds_of xs) \<inter> U = {}"
  shows "reg_inv (set (holds_of xs) \<union> U) (adm_run r xs)"
  using assms
proof (induction xs arbitrary: r U)
  case (Cons x xs)
  have d: "distinct (holds_of xs)" "op_ids x \<inter> set (holds_of xs) = {}" "op_ids x \<inter> U = {}"
    "set (holds_of xs) \<inter> U = {}"
    using Cons.prems by (cases x; auto simp: holds_of_Cons)+
  have "reg_inv (op_ids x \<union> U) (adm_step r x)"
    by (rule step_inv) (use Cons.prems d in auto)
  from Cons.IH [OF this d(1)] d show ?case
    by (simp add: holds_of_Cons Un_ac Int_Un_distrib Int_commute)
qed simp

section \<open>Closing a scope\<close>

text \<open>Operations that reopen the barrier \<open>b\<close> of scope \<open>sc\<close>.\<close>

definition keeps_barrier :: "adm_scope \<Rightarrow> nat \<Rightarrow> adm_op list \<Rightarrow> bool" where
  "keeps_barrier sc b xs \<longleftrightarrow> ReleaseBarrier b \<notin> set xs \<and> LoseBarrier sc \<notin> set xs"

lemma step_keeps_barrier:
  assumes "barriers r sc = Some b" "x \<noteq> ReleaseBarrier b" "x \<noteq> LoseBarrier sc"
  shows "barriers (adm_step r x) sc = Some b"
  using assms
  by (cases x) (auto simp: adm_defs split: option.splits)

lemma run_keeps_barrier:
  "barriers r sc = Some b \<Longrightarrow> keeps_barrier sc b xs \<Longrightarrow> barriers (adm_run r xs) sc = Some b"
proof (induction xs arbitrary: r)
  case (Cons x xs)
  from Cons.prems have "barriers (adm_step r x) sc = Some b"
    by (intro step_keeps_barrier) (auto simp: keeps_barrier_def)
  with Cons.IH [of "adm_step r x"] Cons.prems show ?case by (simp add: keeps_barrier_def)
qed simp

lemma filter_delete_le:
  "length (filter P (AList.delete k al)) \<le> length (filter P al)"
  by (induction al) auto

lemma closed_step_active:
  assumes "barriers r sc = Some b"
  shows "active_except (adm_step r x) sc ex \<le> active_except r sc ex"
  using assms
  by (cases x) (auto simp: adm_defs active_except_def filter_delete_le split: option.splits)

lemma closed_run_active:
  "barriers r sc = Some b \<Longrightarrow> keeps_barrier sc b xs \<Longrightarrow>
   active_except (adm_run r xs) sc ex \<le> active_except r sc ex"
proof (induction xs arbitrary: r)
  case (Cons x xs)
  then have "barriers (adm_step r x) sc = Some b"
    by (intro step_keeps_barrier) (auto simp: keeps_barrier_def)
  with Cons have "active_except (adm_run (adm_step r x) xs) sc ex \<le> active_except (adm_step r x) sc ex"
    by (simp add: keeps_barrier_def)
  with closed_step_active [OF Cons.prems(1), of x ex] show ?case by simp
qed simp

lemma close_scope_closed:
  "fst (close_scope r sc) = Inr b \<Longrightarrow> barriers (snd (close_scope r sc)) sc = Some b"
  by (auto simp: close_scope_def Let_def split: option.splits)

lemma active_zero_no_live:
  assumes "reg_inv U r" "active_except r sc [] = 0" "leases r a = Some l" "lo_scope l = sc"
  shows "\<not> live l"
proof
  assume "live l"
  with assms(1,3) have "map_of (members r (lo_scope l)) (lo_member l) = Some a"
    unfolding reg_inv_def members_live_def lease_id_def by blast
  with assms(2,4) show False by (simp add: active_except_def)
qed



section \<open>Ending a hold or a barrier\<close>

text \<open>
  Releasing a hold is idempotent and never ends another one: every member entry that
  belongs to a different lease, including one that re-registered the same member, survives,
  and no barrier and no other lease changes.
\<close>

theorem release_only_own:
  "release_lease (release_lease r a) a = release_lease r a \<and>
   (a' \<noteq> a \<longrightarrow> leases (release_lease r a) a' = leases r a' \<and>
      (map_of (members (release_lease r a) sc) m = Some a' \<longleftrightarrow> map_of (members r sc) m = Some a')) \<and>
   barriers (release_lease r a) = barriers r"
  by (auto simp: release_lease_def Let_def finish_signal_def delete_conv' split: option.splits)

lemma release_only_own_witness:
  "map_of (members (release_lease (adm_run new_memory [Hold (machine_scope ''d'') ''m'', Hold (machine_scope ''d'') ''m'']) 0)
     (machine_scope ''d'')) ''m'' = Some 1"
proof -
  let ?sc = "machine_scope ''d''"
  let ?r = "adm_run new_memory [Hold ?sc ''m'', Hold ?sc ''m'']"
  have "map_of (members ?r ?sc) ''m'' = Some 1"
    by (simp add: adm_defs new_memory_def)
  then show ?thesis using release_only_own [of ?r 0 1 ?sc "''m''"] by simp
qed

text \<open>The barrier \<open>b\<close> was sealed, and its address is not reused.\<close>

definition sealed :: "registry \<Rightarrow> adm_scope \<Rightarrow> nat \<Rightarrow> bool" where
  "sealed r sc b \<longleftrightarrow> barriers r sc = Some b \<and> b < next_addr r \<and>
     (\<exists>o'. bars r b = Some o' \<and> fin (bo_signal o'))"

lemma step_sealed:
  assumes "sealed r sc b" "x \<noteq> LoseBarrier sc"
  shows "sealed (adm_step r x) sc b"
  using assms unfolding sealed_def
  by (cases x) (auto simp: adm_defs mark_lost_def finish_signal_def split: option.splits)

lemma run_sealed: "sealed r sc b \<Longrightarrow> LoseBarrier sc \<notin> set xs \<Longrightarrow> sealed (adm_run r xs) sc b"
proof (induction xs arbitrary: r)
  case (Cons x xs)
  from Cons.prems have "sealed (adm_step r x) sc b" by (intro step_sealed) auto
  with Cons.IH [of "adm_step r x"] Cons.prems show ?case by simp
qed simp

text \<open>
  Release and Seal of a barrier are exclusive, whichever runs first wins: after a close and
  a Seal no later operation but a loss of the barrier reopens the scope, not even Release of the
  same barrier, so every hold and every close of it is refused.
\<close>

theorem sealed_scope_stays_closed:
  assumes closed: "close_scope r sc = (Inr b, r1)"
    and held: "keeps_barrier sc b xs"
    and no_loss: "LoseBarrier sc \<notin> set ys"
  shows "let r2 = adm_run (finish_barrier (adm_run r1 xs) b False) ys in
     hold r2 sc m = (Inl ErrClosed, r2) \<and> close_scope r2 sc = (Inl ErrClosed, r2)"
proof -
  let ?r = "adm_run r1 xs"
  have b: "barriers r1 sc = Some b"
    using close_scope_closed [of r sc b] closed by simp
  have alloc: "b < next_addr r1 \<and> bars r1 b \<noteq> None"
    using closed by (auto simp: close_scope_def Let_def split: option.splits)
  have keep: "b < next_addr (adm_step q x) \<and> bars (adm_step q x) b \<noteq> None"
    if "b < next_addr q \<and> bars q b \<noteq> None" for q x
    using that by (cases x) (auto simp: adm_defs split: option.splits)
  have "b < next_addr (adm_run q zs) \<and> bars (adm_run q zs) b \<noteq> None"
    if "b < next_addr q \<and> bars q b \<noteq> None" for q zs
    using that by (induction zs arbitrary: q) (use keep in auto)
  from this [OF alloc] obtain bo where bo: "b < next_addr ?r" "bars ?r b = Some bo" by blast
  have "barriers ?r sc = Some b" by (rule run_keeps_barrier [OF b held])
  with bo have "sealed (finish_barrier ?r b False) sc b"
    by (auto simp: sealed_def finish_barrier_def Let_def finish_signal_def)
  from run_sealed [OF this no_loss] show ?thesis
    by (simp add: Let_def sealed_def hold_def close_scope_def)
qed

lemma sealed_scope_stays_closed_witness:
  "fst (hold (adm_run (finish_barrier (adm_run (snd (close_scope new_memory (machine_scope ''d''))) []) 0 False)
      [ReleaseBarrier 0]) (machine_scope ''d'') ''m'') = Inl ErrClosed"
proof -
  have c: "close_scope new_memory (machine_scope ''d'')
      = (Inr 0, snd (close_scope new_memory (machine_scope ''d'')))"
    by (simp add: close_scope_def new_memory_def Let_def)
  show ?thesis
    using sealed_scope_stays_closed [OF c, of "[]" "[ReleaseBarrier 0]" "''m''"]
    by (simp add: keeps_barrier_def Let_def)
qed

end
