(* ===== verification/GoPath.thy ===== *)
theory GoPath
  imports Prelude "HOL-Library.Sublist"
begin

text \<open>
  The lexical path functions of Go's package \<open>path\<close> that the workspace rules are written with:
  \<open>Clean\<close>, \<open>Join\<close> and \<open>IsAbs\<close>, on byte strings with the separator \<open>/\<close>. A clean absolute path
  is a slash followed by good components.
\<close>

abbreviation slash :: char where
  "slash \<equiv> CHR ''/''"

fun split_slash :: "string \<Rightarrow> string list" where
  "split_slash [] = [[]]"
| "split_slash (c # cs) =
     (if c = slash then [] # split_slash cs
      else (case split_slash cs of x # xs \<Rightarrow> (c # x) # xs | [] \<Rightarrow> [[c]]))"

fun join_slash :: "string list \<Rightarrow> string" where
  "join_slash [] = []"
| "join_slash [c] = c"
| "join_slash (c # cs) = c @ slash # join_slash cs"

definition push_comp :: "bool \<Rightarrow> string list \<Rightarrow> string \<Rightarrow> string list" where
  "push_comp rooted acc c =
     (if c = [] \<or> c = ''.'' then acc
      else if c = ''..'' then
        (case acc of
           [] \<Rightarrow> if rooted then [] else [c]
         | a # as \<Rightarrow> if a = ''..'' then c # acc else as)
      else c # acc)"

definition is_abs :: "string \<Rightarrow> bool" where
  "is_abs p \<longleftrightarrow> (case p of [] \<Rightarrow> False | c # _ \<Rightarrow> c = slash)"

definition clean_comps :: "string \<Rightarrow> string list" where
  "clean_comps p = rev (foldl (push_comp (is_abs p)) [] (split_slash p))"

definition clean :: "string \<Rightarrow> string" where
  "clean p =
     (if p = [] then ''.''
      else if is_abs p then slash # join_slash (clean_comps p)
      else if clean_comps p = [] then ''.''
      else join_slash (clean_comps p))"

definition path_join :: "string list \<Rightarrow> string" where
  "path_join es = (let ne = filter (\<lambda>e. e \<noteq> []) es in if ne = [] then [] else clean (join_slash ne))"

section \<open>Components\<close>

definition good_comp :: "string \<Rightarrow> bool" where
  "good_comp c \<longleftrightarrow> c \<noteq> [] \<and> c \<noteq> ''.'' \<and> c \<noteq> ''..'' \<and> slash \<notin> set c"

definition abs_path :: "string list \<Rightarrow> string" where
  "abs_path cs = slash # join_slash cs"

lemma split_slash_not_Nil [simp]: "split_slash s \<noteq> []"
  by (cases s) (auto split: list.splits)

lemma split_slash_no_slash: "c \<in> set (split_slash s) \<Longrightarrow> slash \<notin> set c"
  by (induction s arbitrary: c) (auto split: if_splits list.splits)

lemma split_slash_single: "slash \<notin> set c \<Longrightarrow> split_slash c = [c]"
  by (induction c) auto

lemma split_slash_append: "slash \<notin> set c \<Longrightarrow> split_slash (c @ slash # s) = c # split_slash s"
  by (induction c) auto

lemma split_join:
  "cs \<noteq> [] \<Longrightarrow> \<forall>c\<in>set cs. slash \<notin> set c \<Longrightarrow> split_slash (join_slash cs) = cs"
  by (induction cs rule: join_slash.induct) (auto simp: split_slash_single split_slash_append)

lemma join_split: "join_slash (split_slash s) = s"
proof (induction s)
  case (Cons c s)
  then show ?case
    by (cases "split_slash s" rule: join_slash.cases) auto
qed simp

lemma join_slash_inj:
  assumes "join_slash cs = join_slash ds" "cs \<noteq> []" "ds \<noteq> []"
    and "\<forall>c\<in>set cs. slash \<notin> set c" "\<forall>c\<in>set ds. slash \<notin> set c"
  shows "cs = ds"
  using assms split_join by metis

lemma join_slash_append:
  "cs \<noteq> [] \<Longrightarrow> ds \<noteq> [] \<Longrightarrow> join_slash (cs @ ds) = join_slash cs @ slash # join_slash ds"
  by (induction cs rule: join_slash.induct) (auto simp: neq_Nil_conv)

lemma push_good:
  "\<forall>c\<in>set acc. good_comp c \<Longrightarrow> slash \<notin> set c \<Longrightarrow> \<forall>c\<in>set (push_comp True acc c). good_comp c"
  by (cases acc) (auto simp: push_comp_def good_comp_def)

lemma clean_comps_good: "is_abs p \<Longrightarrow> \<forall>c\<in>set (clean_comps p). good_comp c"
proof -
  assume "is_abs p"
  have "\<forall>c\<in>set (foldl (push_comp True) [] (split_slash p)). good_comp c"
    by (rule foldl_inv) (simp, rule push_good, assumption, rule split_slash_no_slash)
  with \<open>is_abs p\<close> show ?thesis by (simp add: clean_comps_def)
qed

lemma foldl_push_id:
  "\<forall>c\<in>set cs. good_comp c \<Longrightarrow> foldl (push_comp r) acc cs = rev cs @ acc"
  by (induction cs arbitrary: acc) (auto simp: push_comp_def good_comp_def)

lemma clean_comps_abs_path:
  assumes "\<forall>c\<in>set cs. good_comp c"
  shows "clean_comps (abs_path cs) = cs"
proof (cases "cs = []")
  case True
  then show ?thesis by (simp add: clean_comps_def abs_path_def is_abs_def push_comp_def)
next
  case False
  then have "split_slash (abs_path cs) = [] # cs"
    using assms split_join [of cs] by (simp add: abs_path_def good_comp_def)
  then show ?thesis
    using assms by (simp add: clean_comps_def abs_path_def is_abs_def foldl_push_id push_comp_def)
qed

lemma clean_abs_path: "\<forall>c\<in>set cs. good_comp c \<Longrightarrow> clean (abs_path cs) = abs_path cs"
  using clean_comps_abs_path [of cs] by (simp add: clean_def) (simp add: abs_path_def is_abs_def)

lemma clean_is_abs_path:
  assumes "is_abs p"
  shows "clean p = abs_path (clean_comps p)" "\<forall>c\<in>set (clean_comps p). good_comp c"
  using assms clean_comps_good by (auto simp: clean_def abs_path_def is_abs_def)

lemma clean_idem_abs: "is_abs p \<Longrightarrow> clean (clean p) = clean p"
  using clean_is_abs_path clean_abs_path by metis

lemma push_nonempty:
  "\<forall>c\<in>set acc. c \<noteq> [] \<Longrightarrow> \<forall>c\<in>set (push_comp r acc c). c \<noteq> []"
  by (cases acc) (auto simp: push_comp_def)

lemma clean_comps_nonempty: "\<forall>c\<in>set (clean_comps p). c \<noteq> []"
proof -
  have "\<forall>c\<in>set (foldl (push_comp (is_abs p)) [] (split_slash p)). c \<noteq> []"
    by (rule foldl_inv) (simp, rule push_nonempty)
  then show ?thesis by (simp add: clean_comps_def)
qed

lemma clean_nonempty [simp]: "clean p \<noteq> []"
  using clean_comps_nonempty [of p]
  by (cases "clean_comps p" rule: join_slash.cases) (auto simp: clean_def)

section \<open>Subtrees\<close>

text \<open>\<open>p\<close> is \<open>root\<close> or lies beneath it, for clean absolute paths.\<close>

lemma abs_path_prefix:
  assumes "\<forall>c\<in>set cs. good_comp c" "\<forall>c\<in>set ds. good_comp c" "ds \<noteq> []"
  shows "abs_path cs = abs_path ds \<or> has_prefix (abs_path cs) (abs_path ds @ [slash])
    \<longleftrightarrow> prefix ds cs"
proof
  assume "prefix ds cs"
  then obtain es where cs: "cs = ds @ es" by (auto elim: prefixE)
  show "abs_path cs = abs_path ds \<or> has_prefix (abs_path cs) (abs_path ds @ [slash])"
  proof (cases "es = []")
    case False
    then have "abs_path cs = (abs_path ds @ [slash]) @ join_slash es"
      using cs assms(3) by (simp add: abs_path_def join_slash_append)
    then show ?thesis by (metis has_prefix_append)
  qed (use cs in simp)
next
  assume *: "abs_path cs = abs_path ds \<or> has_prefix (abs_path cs) (abs_path ds @ [slash])"
  have noslash: "\<forall>c\<in>set cs. slash \<notin> set c" "\<forall>c\<in>set ds. slash \<notin> set c"
    using assms by (auto simp: good_comp_def)
  from * show "prefix ds cs"
  proof
    assume "abs_path cs = abs_path ds"
    then show ?thesis
      using assms clean_comps_abs_path by (metis prefix_order.refl)
  next
    assume "has_prefix (abs_path cs) (abs_path ds @ [slash])"
    then obtain r where r: "join_slash cs = join_slash ds @ slash # r"
      by (auto simp: has_prefix_conv abs_path_def)
    then have ne: "cs \<noteq> []" by auto
    have "join_slash cs = join_slash (ds @ split_slash r)"
      using r assms(3) by (simp add: join_slash_append join_split)
    then have "cs = ds @ split_slash r"
      using join_slash_inj [of cs "ds @ split_slash r"] ne noslash split_slash_no_slash by auto
    then show ?thesis by simp
  qed
qed

end
