(* ===== verification/Workspace.thy ===== *)
theory Workspace
  imports GoPath
begin

text \<open>
  The workspace of one session inside a remote sandbox: \<open>internal/sandbox/workspace/layout.go\<close>
  (layouts, session directory names, prompt-safe paths) and
  \<open>internal/sandbox/workspace/paths.go\<close> (the lexical path rules of the tools). SHA-256 of the
  standard library is the parameter \<open>sha\<close>, from bytes to bytes.
\<close>

section \<open>Layouts\<close>

datatype origin = OriginUnspecified | OriginRemote | OriginHost | OriginRemoteShared

record layout =
  l_origin :: origin
  l_root :: string
  l_write_roots :: "string list"
  l_read_roots :: "string list"
  l_input_dir :: string
  l_output_dir :: string
  l_hint :: string
  l_git_dir :: string
  l_browser_root :: string
  l_work_dir_roots :: "string list"

definition ws_root :: string where "ws_root = ''/workspace''"
definition ws_input :: string where "ws_input = ''/workspace/input''"
definition ws_output :: string where "ws_output = ''/workspace/output''"
definition ws_git :: string where "ws_git = ''/var/lib/weknora/workspace.git''"
definition skills_image_root :: string where "skills_image_root = ''/opt/weknora/tenant/skills''"
definition user_sessions_root :: string where "user_sessions_root = ''/workspace/sessions''"
definition user_git_root :: string where "user_git_root = ''/var/lib/weknora/sessions''"
definition remote_browser_root :: string where
  "remote_browser_root = ''/var/lib/weknora/browser/session''"

lemmas ws_consts = ws_root_def ws_input_def ws_output_def ws_git_def skills_image_root_def
  user_sessions_root_def user_git_root_def remote_browser_root_def

definition empty_layout :: layout where
  "empty_layout = \<lparr>l_origin = OriginUnspecified, l_root = [], l_write_roots = [], l_read_roots = [],
     l_input_dir = [], l_output_dir = [], l_hint = [], l_git_dir = [], l_browser_root = [],
     l_work_dir_roots = []\<rparr>"

definition is_host :: "layout \<Rightarrow> bool" where
  "is_host l \<longleftrightarrow> l_origin l = OriginHost"

definition is_shared_remote :: "layout \<Rightarrow> bool" where
  "is_shared_remote l \<longleftrightarrow> l_origin l = OriginRemoteShared"

definition has_root :: "layout \<Rightarrow> bool" where
  "has_root l \<longleftrightarrow> trim_space (l_root l) \<noteq> []"

definition clean_layout_path :: "string \<Rightarrow> string" where
  "clean_layout_path p = (let q = trim_space p in if q = [] then [] else clean q)"

definition clean_layout_roots :: "string list \<Rightarrow> string list" where
  "clean_layout_roots roots =
     foldl (\<lambda>out root. let c = clean_layout_path root
                       in if c = [] \<or> c \<in> set out then out else out @ [c]) [] roots"

definition normalized :: "layout \<Rightarrow> layout" where
  "normalized l =
     l\<lparr>l_root := clean_layout_path (l_root l), l_input_dir := clean_layout_path (l_input_dir l),
       l_output_dir := clean_layout_path (l_output_dir l), l_git_dir := clean_layout_path (l_git_dir l),
       l_browser_root := clean_layout_path (l_browser_root l),
       l_write_roots := clean_layout_roots (l_write_roots l),
       l_read_roots := clean_layout_roots (l_read_roots l),
       l_work_dir_roots := clean_layout_roots (l_work_dir_roots l),
       l_hint := trim_space (l_hint l)\<rparr>"

definition remote_layout :: layout where
  "remote_layout =
     \<lparr>l_origin = OriginRemote, l_root = ws_root, l_write_roots = [ws_root, ws_output],
      l_read_roots = [ws_output, ws_input, ws_root], l_input_dir = ws_input,
      l_output_dir = ws_output, l_hint = ws_root, l_git_dir = ws_git,
      l_browser_root = remote_browser_root, l_work_dir_roots = []\<rparr>"

definition hex_digits :: string where
  "hex_digits = ''0123456789abcdef''"

definition hex_digit :: "nat \<Rightarrow> char" where
  "hex_digit n = hex_digits ! (n mod 16)"

definition hex_encode :: "string \<Rightarrow> string" where
  "hex_encode bs = concat (map (\<lambda>b. [hex_digit (of_char b div 16), hex_digit (of_char b)]) bs)"

definition is_lower_hex :: "char \<Rightarrow> bool" where
  "is_lower_hex c \<longleftrightarrow> (48 \<le> (of_char c :: nat) \<and> (of_char c :: nat) \<le> 57)
                    \<or> (97 \<le> (of_char c :: nat) \<and> (of_char c :: nat) \<le> 102)"

definition is_canonical_uuid :: "string \<Rightarrow> bool" where
  "is_canonical_uuid s \<longleftrightarrow>
     length s = 36 \<and>
     list_all (\<lambda>i. if i \<in> {8, 13, 18, 23} then s ! i = CHR ''-'' else is_lower_hex (s ! i)) [0..<36]"

definition session_dir_name :: "(string \<Rightarrow> string) \<Rightarrow> string \<Rightarrow> unit + string" where
  "session_dir_name sha sid =
     (if \<not> is_canonical_uuid sid then Inl () else Inr (take 12 (hex_encode (sha sid))))"

definition user_session :: "(string \<Rightarrow> string) \<Rightarrow> string \<Rightarrow> unit + layout" where
  "user_session sha sid =
     (case session_dir_name sha sid of
        Inl e \<Rightarrow> Inl e
      | Inr name \<Rightarrow>
          (let root = path_join [user_sessions_root, name];
               input = path_join [root, ''input''];
               output = path_join [root, ''output'']
           in Inr \<lparr>l_origin = OriginRemoteShared, l_root = root,
                   l_write_roots = [ws_root, ws_output],
                   l_read_roots = [output, input, root, skills_image_root],
                   l_input_dir = input, l_output_dir = output, l_hint = root,
                   l_git_dir = path_join [user_git_root, name @ ''.git''],
                   l_browser_root = path_join [user_git_root, sid @ ''.browser''],
                   l_work_dir_roots = []\<rparr>))"

definition failed_host :: layout where
  "failed_host = empty_layout\<lparr>l_origin := OriginHost\<rparr>"

definition prompt_safe_path :: "string \<Rightarrow> string" where
  "prompt_safe_path p0 =
     (let p = trim_space p0
      in if p = [] then []
         else if list_ex (\<lambda>r. r < 0x20 \<or> r = 0x7F \<or> r = 60 \<or> r = 62 \<or> r = 38) (runes p) then []
         else p)"

section \<open>Path rules\<close>

definition resolve_path_in :: "layout \<Rightarrow> string \<Rightarrow> string" where
  "resolve_path_in l value0 =
     (let value = trim_space value0
      in if \<not> is_abs value
         then path_join [if l_root l = [] then ws_root else l_root l, value]
         else clean value)"

definition is_under :: "string \<Rightarrow> string \<Rightarrow> bool" where
  "is_under p root =
     (if root = [slash] then has_prefix p [slash] else p = root \<or> has_prefix p (root @ [slash]))"

definition under_any :: "string \<Rightarrow> string list \<Rightarrow> bool" where
  "under_any p roots = list_ex (is_under p) roots"

text \<open>\<open>strings.CutPrefix\<close> and the first two results of \<open>strings.Cut\<close> at a slash.\<close>

definition cut_prefix :: "string \<Rightarrow> string \<Rightarrow> string option" where
  "cut_prefix s p = (if has_prefix s p then Some (drop (length p) s) else None)"

definition cut_slash :: "string \<Rightarrow> (string \<times> string) option" where
  "cut_slash s = (if slash \<in> set s
     then Some (takeWhile (\<lambda>c. c \<noteq> slash) s, tl (dropWhile (\<lambda>c. c \<noteq> slash) s)) else None)"

definition read_only_input_root :: "layout \<Rightarrow> string \<Rightarrow> string" where
  "read_only_input_root l p =
     (if l_input_dir l \<noteq> [] \<and> is_under p (l_input_dir l) then l_input_dir l
      else if \<not> is_shared_remote l then []
      else if is_under p ws_input then ws_input
      else (case cut_prefix p (user_sessions_root @ [slash]) of
              None \<Rightarrow> []
            | Some relative \<Rightarrow>
                (case cut_slash relative of
                   None \<Rightarrow> []
                 | Some (name, _) \<Rightarrow>
                     if name = [] then []
                     else (let input = path_join [user_sessions_root, name, ''input'']
                           in if is_under p input then input else []))))"

datatype path_error = NotAbsoluteFile | IsDirectory | ReadOnlyInput string | OutsideInput | OutsideRoots

definition clean_write_file_in :: "layout \<Rightarrow> string \<Rightarrow> path_error + string" where
  "clean_write_file_in l file =
     (let p = resolve_path_in l file
      in if \<not> is_abs p \<or> p = ''.'' \<or> p = [slash] then Inl NotAbsoluteFile
         else if p = l_root l \<or> p = l_output_dir l \<or> p = l_input_dir l then Inl IsDirectory
         else if read_only_input_root l p \<noteq> [] then Inl (ReadOnlyInput (read_only_input_root l p))
         else Inr p)"

definition clean_input_path_in :: "layout \<Rightarrow> string \<Rightarrow> path_error + string" where
  "clean_input_path_in l file =
     (let p = clean (trim_space file)
      in if l_input_dir l \<noteq> [] \<and> is_under p (l_input_dir l) then Inr p else Inl OutsideInput)"

definition clean_work_dir_in :: "layout \<Rightarrow> string \<Rightarrow> bool \<Rightarrow> path_error + string" where
  "clean_work_dir_in l dir allow_skills =
     (let p = clean (trim_space dir)
      in if \<not> is_abs p then Inl NotAbsoluteFile
         else if allow_skills
         then (if under_any p [l_root l, skills_image_root] then Inr p else Inl OutsideRoots)
         else Inr p)"

definition valid_output_dir_in :: "layout \<Rightarrow> string \<Rightarrow> string option" where
  "valid_output_dir_in l dir =
     (let root = (if l_root l = [] then ws_root else l_root l);
          p = clean (trim_space dir)
      in if has_prefix p (root @ [slash]) then Some p else None)"

definition runnable_script_in :: "layout \<Rightarrow> string \<Rightarrow> string option" where
  "runnable_script_in l script =
     (let p = clean (trim_space script)
      in if p = l_root l \<or> p = l_output_dir l \<or> p = l_input_dir l then None
         else if \<not> has_prefix p (l_root l @ [slash]) then None
         else if l_input_dir l \<noteq> [] \<and> has_prefix p (l_input_dir l @ [slash]) then None
         else Some p)"

section \<open>Clean absolute paths as component lists\<close>

lemma path_join_abs_path:
  assumes "\<forall>c\<in>set (ds @ cs). good_comp c" "ds \<noteq> []"
  shows "path_join (abs_path ds # cs) = abs_path (ds @ cs)"
proof -
  have ne: "filter (\<lambda>e. e \<noteq> []) (abs_path ds # cs) = abs_path ds # cs"
    using assms by (auto simp: abs_path_def good_comp_def intro!: filter_True)
  have "join_slash (abs_path ds # cs) = abs_path (ds @ cs)"
    using assms by (cases cs) (auto simp: abs_path_def join_slash_append)
  with ne clean_abs_path [OF assms(1)] show ?thesis
    by (simp add: path_join_def Let_def)
qed

lemma is_under_abs_path:
  assumes "\<forall>c\<in>set cs. good_comp c" "\<forall>c\<in>set ds. good_comp c" "ds \<noteq> []"
  shows "is_under (abs_path cs) (abs_path ds) \<longleftrightarrow> prefix ds cs"
proof -
  have "abs_path ds \<noteq> [slash]"
    using assms(2,3) by (cases ds rule: join_slash.cases) (auto simp: abs_path_def good_comp_def)
  then show ?thesis using abs_path_prefix [OF assms] by (simp add: is_under_def)
qed

lemma ws_abs_paths:
  "user_sessions_root = abs_path [''workspace'', ''sessions'']" "ws_input = abs_path [''workspace'', ''input'']"
  "ws_root = abs_path [''workspace'']"
  by (simp_all add: ws_consts abs_path_def)

lemma good_ws_comps [simp]:
  "good_comp ''workspace''" "good_comp ''sessions''" "good_comp ''input''" "good_comp ''output''"
  by (simp_all add: good_comp_def)

lemma session_input_path:
  "good_comp name \<Longrightarrow> path_join [user_sessions_root, name, ''input'']
     = abs_path [''workspace'', ''sessions'', name, ''input'']"
  using path_join_abs_path [of "[''workspace'', ''sessions'']" "[name, ''input'']"]
  by (simp add: ws_abs_paths)

lemma cut_session_name:
  assumes "good_comp name"
  shows "cut_prefix (abs_path (''workspace'' # ''sessions'' # name # c # cs)) (user_sessions_root @ [slash])
      = Some (name @ slash # join_slash (c # cs))"
    "cut_slash (name @ slash # s) = Some (name, s)"
proof -
  have "\<forall>x\<in>set name. x \<noteq> slash" "slash \<in> set (name @ slash # s)"
    using assms by (auto simp: good_comp_def)
  then show "cut_slash (name @ slash # s) = Some (name, s)"
    by (simp add: cut_slash_def takeWhile_append2 dropWhile_append2)
qed (simp add: cut_prefix_def abs_path_def user_sessions_root_def has_prefix_def)

text \<open>On a shared machine no session's attachments are writable.\<close>

lemma shared_input_reserved:
  assumes "is_shared_remote l" "good_comp name" "\<forall>c\<in>set cs. good_comp c"
    and "prefix [''workspace'', ''sessions'', name, ''input''] cs"
  shows "read_only_input_root l (abs_path cs) \<noteq> []"
proof -
  from assms(4) obtain es where cs: "cs = ''workspace'' # ''sessions'' # name # ''input'' # es"
    by (auto elim: prefixE)
  let ?in = "abs_path [''workspace'', ''sessions'', name, ''input'']"
  have "is_under (abs_path cs) ?in"
    using assms by (subst is_under_abs_path) auto
  moreover have "?in \<noteq> []" "ws_input \<noteq> []" "name \<noteq> []"
    using assms(2) by (auto simp: abs_path_def ws_consts good_comp_def)
  ultimately show ?thesis
    using assms(1,2) cut_session_name [OF assms(2)] session_input_path [OF assms(2)]
    by (auto simp: read_only_input_root_def cs Let_def)
qed

text \<open>Whatever the tools resolve is a clean absolute path, once the root is one.\<close>

definition rooted_layout :: "layout \<Rightarrow> bool" where
  "rooted_layout l \<longleftrightarrow> l_root l = [] \<or> is_abs (l_root l)"

lemma path_join_is_abs: "is_abs r \<Longrightarrow> \<exists>p. is_abs p \<and> path_join (r # es) = clean p"
proof -
  assume r: "is_abs r"
  then have "r \<noteq> []" by (auto simp: is_abs_def)
  have "is_abs (join_slash (r # xs))" for xs
    using r by (cases xs) (auto simp: is_abs_def split: list.splits)
  with \<open>r \<noteq> []\<close> show ?thesis by (auto simp: path_join_def Let_def)
qed

lemma resolve_clean:
  assumes "rooted_layout l"
  shows "\<exists>cs. resolve_path_in l v = abs_path cs \<and> (\<forall>c\<in>set cs. good_comp c)"
proof -
  have "\<exists>p. is_abs p \<and> resolve_path_in l v = clean p"
    using assms path_join_is_abs
    by (auto simp: resolve_path_in_def Let_def rooted_layout_def ws_root_def is_abs_def)
  then show ?thesis using clean_is_abs_path by metis
qed

lemma abs_path_eq_slash: "\<forall>c\<in>set cs. good_comp c \<Longrightarrow> abs_path cs = [slash] \<longleftrightarrow> cs = []"
  by (cases cs rule: join_slash.cases) (auto simp: abs_path_def good_comp_def)

section \<open>Properties\<close>



lemma hex_digit_in: "hex_digit n \<in> set hex_digits"
proof -
  have "n mod 16 < length hex_digits" by (simp add: hex_digits_def)
  then show ?thesis unfolding hex_digit_def by (rule nth_mem)
qed

lemma hex_encode_chars: "set (hex_encode bs) \<subseteq> set hex_digits"
  using hex_digit_in by (auto simp: hex_encode_def)

lemma length_hex_encode: "length (hex_encode bs) = 2 * length bs"
  by (induction bs) (auto simp: hex_encode_def)

lemma good_hex_comp: "set c \<subseteq> set hex_digits \<Longrightarrow> c \<noteq> [] \<Longrightarrow> good_comp c"
  by (cases c) (auto simp: good_comp_def hex_digits_def)

lemma session_dir_good:
  assumes "\<And>x. length (sha x) = 32" "session_dir_name sha sid = Inr name"
  shows "good_comp name \<and> length name = 12"
proof -
  have n: "name = take 12 (hex_encode (sha sid))"
    using assms(2) by (auto simp: session_dir_name_def split: if_splits)
  then have "set name \<subseteq> set hex_digits"
    using hex_encode_chars set_take_subset by (metis subset_trans)
  moreover have len: "length name = 12"
    by (simp add: n length_hex_encode assms(1))
  moreover have "name \<noteq> []" using len by auto
  ultimately show ?thesis using good_hex_comp by blast
qed

lemma user_session_paths:
  assumes "\<And>x. length (sha x) = 32" "user_session sha sid = Inr l"
  shows "\<exists>name. session_dir_name sha sid = Inr name \<and> good_comp name \<and>
     l_root l = abs_path [''workspace'', ''sessions'', name] \<and>
     l_input_dir l = abs_path [''workspace'', ''sessions'', name, ''input''] \<and>
     l_output_dir l = abs_path [''workspace'', ''sessions'', name, ''output''] \<and> is_shared_remote l"
proof -
  from assms(2) obtain name where n: "session_dir_name sha sid = Inr name"
    by (auto simp: user_session_def split: sum.splits)
  have g: "good_comp name" using session_dir_good [OF assms(1) n] by simp
  have root: "path_join [user_sessions_root, name] = abs_path [''workspace'', ''sessions'', name]"
    using g path_join_abs_path [of "[''workspace'', ''sessions'']" "[name]"] by (simp add: ws_abs_paths)
  have sub: "path_join [abs_path [''workspace'', ''sessions'', name], d]
      = abs_path [''workspace'', ''sessions'', name, d]" if "good_comp d" for d
    using g that path_join_abs_path [of "[''workspace'', ''sessions'', name]" "[d]"] by simp
  from assms(2) n g show ?thesis
    by (auto simp: user_session_def Let_def root sub is_shared_remote_def)
qed

text \<open>
  Sessions that share a machine never share a file: when the directory names of two
  sessions differ, no absolute path lies in both workspaces, and each session's attachment and
  output trees lie inside its own workspace and not in the other's.
\<close>

theorem user_sessions_disjoint:
  assumes sha: "\<And>x. length (sha x) = 32"
    and a: "user_session sha sa = Inr la" and b: "user_session sha sb = Inr lb"
    and diff: "session_dir_name sha sa \<noteq> session_dir_name sha sb"
    and p: "is_abs p"
  shows "\<not> (is_under (clean p) (l_root la) \<and> is_under (clean p) (l_root lb)) \<and>
     is_under (l_input_dir la) (l_root la) \<and> is_under (l_output_dir la) (l_root la) \<and>
     \<not> is_under (l_input_dir la) (l_root lb) \<and> \<not> is_under (l_output_dir la) (l_root lb)"
proof -
  from user_session_paths [OF sha a] obtain na where na: "session_dir_name sha sa = Inr na" "good_comp na"
    "l_root la = abs_path [''workspace'', ''sessions'', na]"
    "l_input_dir la = abs_path [''workspace'', ''sessions'', na, ''input'']"
    "l_output_dir la = abs_path [''workspace'', ''sessions'', na, ''output'']" by auto
  from user_session_paths [OF sha b] obtain nb where nb: "session_dir_name sha sb = Inr nb" "good_comp nb"
    "l_root lb = abs_path [''workspace'', ''sessions'', nb]" by auto
  have ne: "na \<noteq> nb" using diff na nb by auto
  have under: "is_under (abs_path cs) (abs_path [''workspace'', ''sessions'', n])
      \<longleftrightarrow> prefix [''workspace'', ''sessions'', n] cs" if "good_comp n" "\<forall>c\<in>set cs. good_comp c" for n cs
    using that by (subst is_under_abs_path) auto
  obtain cs where cs: "clean p = abs_path cs" "\<forall>c\<in>set cs. good_comp c"
    using clean_is_abs_path [OF p] by metis
  have "\<not> (prefix [''workspace'', ''sessions'', na] cs \<and> prefix [''workspace'', ''sessions'', nb] cs)"
    using ne by (auto elim!: prefixE)
  then show ?thesis
    using na nb ne cs under by simp
qed

definition example_sha :: "string \<Rightarrow> string" where
  "example_sha s = replicate 32 (if s = ''0f8fad5b-d9cb-469f-a165-70867728950e'' then CHR ''a'' else CHR ''b'')"

lemma user_sessions_disjoint_witness:
  "\<exists>la lb. user_session example_sha ''0f8fad5b-d9cb-469f-a165-70867728950e'' = Inr la \<and>
     user_session example_sha ''1f8fad5b-d9cb-469f-a165-70867728950e'' = Inr lb \<and>
     \<not> is_under (l_input_dir la) (l_root lb)"
proof -
  let ?a = "''0f8fad5b-d9cb-469f-a165-70867728950e''" and ?b = "''1f8fad5b-d9cb-469f-a165-70867728950e''"
  have n: "session_dir_name example_sha ?a = Inr ''616161616161''"
    "session_dir_name example_sha ?b = Inr ''626262626262''"
    by code_simp+
  have "\<exists>l. user_session example_sha ?a = Inr l" "\<exists>l. user_session example_sha ?b = Inr l"
    unfolding user_session_def n sum.case Let_def by blast+
  then obtain la lb where l: "user_session example_sha ?a = Inr la" "user_session example_sha ?b = Inr lb"
    by blast
  have sha: "length (example_sha x) = 32" for x by (simp add: example_sha_def)
  have diff: "session_dir_name example_sha ?a \<noteq> session_dir_name example_sha ?b" unfolding n by simp
  have ab: "is_abs ''/''" by (simp add: is_abs_def)
  have "\<not> is_under (l_input_dir la) (l_root lb)"
    using user_sessions_disjoint [OF sha l diff ab] by blast
  with l show ?thesis by blast
qed

end
