(* ===== verification/Allocation.thy ===== *)
theory Allocation
  imports Workspace GoStrings
begin

text \<open>
  Placing a session on a remote machine: the package \<open>internal/sandbox/allocation\<close> (mode.go,
  owner.go, machine.go, assignment.go, retention.go). \<open>uint64\<close> identifiers are \<open>nat\<close>; string
  types with constants are datatypes whose last constructor is any other string.
\<close>

section \<open>Modes, owners and decisions\<close>

datatype mode = ModeSession | ModeUser

datatype purpose = PurposeChat | PurposeMaintenance | OtherPurpose string

datatype fallback_reason =
    ReasonNone | ReasonMaintenanceDedicated | ReasonUserModeUnavailable | ReasonOwnerIdentityInvalid
  | ReasonSharedAPIKey | ReasonSharedMCPEndpoint | ReasonChannelIdentity
  | ReasonOwnerIdentityUnverified | ReasonSessionIDNotUUID | ReasonLegacySessionSandbox

definition parse_mode :: "string \<Rightarrow> mode option" where
  "parse_mode raw =
     (let m = trim_space raw
      in if m = [] \<or> m = ''session'' then Some ModeSession
         else if m = ''user'' then Some ModeUser else None)"

datatype owner_kind =
    KindUnknown | KindWebUser | KindAPIExternalUser | KindAPITenantKey | KindAPIPlatformKey
  | KindMCPEndpoint | KindEmbed | KindIM | OtherKind string

datatype auth_source =
    SourceUnknown | SourceWeb | SourceAPIDirectHeader | SourceAPISignedToken | SourceAPITenantKey
  | SourceAPIPlatformKey | SourceMCPEndpoint | SourceEmbed | SourceIM | SourceInternal
  | OtherSource string

definition max_owner_id_length :: nat where
  "max_owner_id_length = 512"

record owner =
  ow_tenant :: nat
  ow_id :: string
  ow_kind :: owner_kind
  ow_source :: auth_source

definition validate_owner_id :: "string \<Rightarrow> bool" where
  "validate_owner_id i \<longleftrightarrow>
     trim_space i \<noteq> [] \<and> length i \<le> max_owner_id_length \<and>
     \<not> list_ex (\<lambda>c. c = CHR ''{'' \<or> c = CHR ''}'') i \<and>
     \<not> list_ex is_control (runes i)"

record decide_input =
  di_config_mode :: mode
  di_purpose :: purpose
  di_owner :: owner
  di_session :: string
  di_user_mode_available :: bool

record decision =
  dec_mode :: mode
  dec_reason :: fallback_reason

fun eligible_for_user :: "owner_kind \<Rightarrow> auth_source \<Rightarrow> bool" where
  "eligible_for_user KindWebUser s = (s = SourceWeb)"
| "eligible_for_user KindAPIExternalUser s = (s = SourceAPIDirectHeader \<or> s = SourceAPISignedToken)"
| "eligible_for_user _ s = False"

definition on_session :: "fallback_reason \<Rightarrow> decision" where
  "on_session r = \<lparr>dec_mode = ModeSession, dec_reason = r\<rparr>"

definition decide_placement :: "decide_input \<Rightarrow> decision" where
  "decide_placement i =
     (if di_purpose i = PurposeMaintenance then on_session ReasonMaintenanceDedicated
      else if di_config_mode i \<noteq> ModeUser then on_session ReasonNone
      else if \<not> di_user_mode_available i then on_session ReasonUserModeUnavailable
      else if trim_space (ow_id (di_owner i)) = [] then on_session ReasonOwnerIdentityUnverified
      else if \<not> validate_owner_id (ow_id (di_owner i)) then on_session ReasonOwnerIdentityInvalid
      else if eligible_for_user (ow_kind (di_owner i)) (ow_source (di_owner i)) then
        (if \<not> is_canonical_uuid (di_session i) then on_session ReasonSessionIDNotUUID
         else \<lparr>dec_mode = ModeUser, dec_reason = ReasonNone\<rparr>)
      else (case ow_kind (di_owner i) of
              KindAPITenantKey \<Rightarrow> on_session ReasonSharedAPIKey
            | KindAPIPlatformKey \<Rightarrow> on_session ReasonSharedAPIKey
            | KindMCPEndpoint \<Rightarrow> on_session ReasonSharedMCPEndpoint
            | KindEmbed \<Rightarrow> on_session ReasonChannelIdentity
            | KindIM \<Rightarrow> on_session ReasonChannelIdentity
            | _ \<Rightarrow> on_session ReasonOwnerIdentityUnverified))"

section \<open>Shared machines\<close>

record user_machine =
  um_owner_tenant :: nat
  um_owner_id :: string
  um_config_tenant :: nat
  um_config_id :: string

definition no_machine :: user_machine where
  "no_machine = \<lparr>um_owner_tenant = 0, um_owner_id = [], um_config_tenant = 0, um_config_id = []\<rparr>"

definition validate_machine :: "user_machine \<Rightarrow> bool" where
  "validate_machine m \<longleftrightarrow>
     um_owner_tenant m \<noteq> 0 \<and> validate_owner_id (um_owner_id m) \<and> um_config_tenant m \<noteq> 0 \<and>
     trim_space (um_config_id m) \<noteq> []"

text \<open>\<open>binary.BigEndian.PutUint64\<close>; \<open>strconv.FormatUint(n, 10)\<close> prints what \<open>itoa\<close> does.\<close>

fun be_bytes :: "nat \<Rightarrow> nat \<Rightarrow> string" where
  "be_bytes 0 n = []"
| "be_bytes (Suc k) n = be_bytes k (n div 256) @ [char_of (n mod 256)]"

definition write_field :: "string \<Rightarrow> string" where
  "write_field s = be_bytes 8 (length s) @ s"

definition machine_encoding :: "string \<Rightarrow> user_machine \<Rightarrow> string" where
  "machine_encoding namespace m =
     write_field ''weknora-user-sandbox/v1'' @ write_field namespace @
     write_field (itoa (um_owner_tenant m)) @ write_field (um_owner_id m) @
     write_field (itoa (um_config_tenant m)) @ write_field (um_config_id m)"

definition machine_digest :: "(string \<Rightarrow> string) \<Rightarrow> string \<Rightarrow> user_machine \<Rightarrow> string" where
  "machine_digest sha namespace m = hex_encode (sha (machine_encoding namespace m))"

section \<open>Assignments and retention\<close>

record assignment =
  as_session :: string
  as_config_tenant :: nat
  as_config_id :: string
  as_machine :: user_machine
  as_released_at :: "int option"

definition released :: "assignment \<Rightarrow> bool" where
  "released a \<longleftrightarrow> as_released_at a \<noteq> None"

definition assignment_mode :: "assignment \<Rightarrow> mode" where
  "assignment_mode a = (if as_machine a \<noteq> no_machine then ModeUser else ModeSession)"

definition assignment_layout :: "(string \<Rightarrow> string) \<Rightarrow> assignment \<Rightarrow> unit + layout" where
  "assignment_layout sha a =
     (if assignment_mode a = ModeUser then user_session sha (as_session a) else Inr remote_layout)"

definition effective_retention_days :: "int \<Rightarrow> int" where
  "effective_retention_days stored = (if stored \<le> 0 then 7 else stored)"

definition validate_retention_days :: "int \<Rightarrow> bool" where
  "validate_retention_days stored \<longleftrightarrow> \<not> (stored < 0 \<or> stored > 90)"

section \<open>Lemmas\<close>

lemma decide_user_iff:
  "dec_mode (decide_placement i) = ModeUser \<longleftrightarrow>
     di_purpose i \<noteq> PurposeMaintenance \<and> di_config_mode i = ModeUser \<and> di_user_mode_available i \<and>
     validate_owner_id (ow_id (di_owner i)) \<and>
     eligible_for_user (ow_kind (di_owner i)) (ow_source (di_owner i)) \<and> is_canonical_uuid (di_session i)"
  by (auto simp: decide_placement_def on_session_def validate_owner_id_def split: owner_kind.splits)

lemma length_be_bytes [simp]: "length (be_bytes k n) = k"
  by (induction k arbitrary: n) auto

lemma be_bytes_inj: "be_bytes k n = be_bytes k m \<Longrightarrow> n < 256 ^ k \<Longrightarrow> m < 256 ^ k \<Longrightarrow> n = m"
proof (induction k arbitrary: n m)
  case (Suc k)
  then have c: "char_of (n mod 256) = (char_of (m mod 256) :: char)"
    and r: "be_bytes k (n div 256) = be_bytes k (m div 256)"
    by (simp_all del: char_of_mod_256)
  from c have "n mod 256 = m mod 256"
    by (metis mod_mod_trivial of_char_byte)
  moreover have "n div 256 = m div 256"
    using Suc.IH [OF r] Suc.prems by (simp add: less_mult_imp_div_less mult.commute)
  ultimately show ?case by (metis div_mult_mod_eq)
qed simp

lemma write_field_inj:
  assumes "write_field s @ r = write_field s' @ r'" "length s < 256 ^ 8" "length s' < 256 ^ 8"
  shows "s = s' \<and> r = r'"
proof -
  have eq: "be_bytes 8 (length s) @ s @ r = be_bytes 8 (length s') @ s' @ r'"
    using assms(1) by (simp add: write_field_def)
  then have "be_bytes 8 (length s) = be_bytes 8 (length s')" "s @ r = s' @ r'"
    by (simp_all add: append_eq_append_conv)
  moreover have "length s = length s'"
    using be_bytes_inj [OF calculation(1)] assms by simp
  ultimately show ?thesis by simp
qed

text \<open>Field lengths of a machine identity fit an \<open>int\<close>, as every Go string does.\<close>

definition fields_fit :: "string \<Rightarrow> user_machine \<Rightarrow> bool" where
  "fields_fit namespace m \<longleftrightarrow>
     list_all (\<lambda>s. length s < 256 ^ 8)
       [namespace, itoa (um_owner_tenant m), um_owner_id m,
        itoa (um_config_tenant m), um_config_id m]"

section \<open>Properties\<close>

text \<open>
  The admission whitelist for sharing a machine: a session is placed in user mode exactly
  if its config asks for it and the deployment allows it, it is no maintenance session, its
  owner id is valid, its owner is a server-verified web account or an API external user from
  the direct header or a signed token, and its id is a canonical UUID; and then its workspace
  on the shared machine exists. Otherwise it gets a machine of its own.
\<close>

theorem user_mode_whitelist:
  "dec_mode (decide_placement i) =
     (if di_purpose i \<noteq> PurposeMaintenance \<and> di_config_mode i = ModeUser \<and> di_user_mode_available i \<and>
         validate_owner_id (ow_id (di_owner i)) \<and> is_canonical_uuid (di_session i) \<and>
         (ow_kind (di_owner i), ow_source (di_owner i)) \<in>
           {(KindWebUser, SourceWeb), (KindAPIExternalUser, SourceAPIDirectHeader),
            (KindAPIExternalUser, SourceAPISignedToken)}
      then ModeUser else ModeSession) \<and>
   (dec_mode (decide_placement i) = ModeUser \<longrightarrow>
      dec_reason (decide_placement i) = ReasonNone \<and> (\<exists>l. user_session sha (di_session i) = Inr l))"
proof (cases "dec_mode (decide_placement i) = ModeUser")
  case True
  then have w: "di_purpose i \<noteq> PurposeMaintenance" "di_config_mode i = ModeUser"
     "di_user_mode_available i" "validate_owner_id (ow_id (di_owner i))"
     "eligible_for_user (ow_kind (di_owner i)) (ow_source (di_owner i))" "is_canonical_uuid (di_session i)"
    unfolding decide_user_iff by blast+
  then have "dec_reason (decide_placement i) = ReasonNone"
    by (auto simp: decide_placement_def on_session_def validate_owner_id_def)
  moreover have "\<exists>l. user_session sha (di_session i) = Inr l"
    unfolding user_session_def session_dir_name_def using w(6) by (simp add: Let_def)
  ultimately show ?thesis
    using True w by (cases "ow_kind (di_owner i)") auto
next
  case False
  then have s: "dec_mode (decide_placement i) = ModeSession"
    using mode.exhaust by blast
  from False have "\<not> (di_purpose i \<noteq> PurposeMaintenance \<and> di_config_mode i = ModeUser \<and>
      di_user_mode_available i \<and> validate_owner_id (ow_id (di_owner i)) \<and>
      eligible_for_user (ow_kind (di_owner i)) (ow_source (di_owner i)) \<and> is_canonical_uuid (di_session i))"
    by (simp add: decide_user_iff)
  then show ?thesis
    unfolding s by (cases "ow_kind (di_owner i)") auto
qed

definition example_input :: decide_input where
  "example_input =
     \<lparr>di_config_mode = ModeUser, di_purpose = PurposeChat,
      di_owner = \<lparr>ow_tenant = 7, ow_id = ''u-1'', ow_kind = KindWebUser, ow_source = SourceWeb\<rparr>,
      di_session = ''0f8fad5b-d9cb-469f-a165-70867728950e'', di_user_mode_available = True\<rparr>"

lemma user_mode_whitelist_witness:
  "dec_mode (decide_placement example_input) = ModeUser \<and>
   dec_reason (decide_placement example_input) = ReasonNone"
proof -
  have "is_canonical_uuid (di_session example_input)" by code_simp
  moreover have "validate_owner_id (ow_id (di_owner example_input))"
    by (simp add: example_input_def validate_owner_id_def trim_space_id is_space_def runes_ascii
        max_owner_id_length_def is_control_def)
  ultimately show ?thesis
    using user_mode_whitelist [of example_input] by (simp add: example_input_def)
qed

text \<open>
  The bytes a machine digest hashes determine the deployment namespace and the machine:
  no two machines, and no two deployments, share an encoding by moving a boundary between
  fields, so equal digests mean a collision of SHA-256 itself.
\<close>

theorem machine_encoding_injective:
  assumes "machine_encoding n m = machine_encoding n' m'" "fields_fit n m" "fields_fit n' m'"
  shows "n = n' \<and> m = m'"
proof -
  have len: "length n < 256 ^ 8" "length n' < 256 ^ 8"
    "length (itoa (um_owner_tenant m)) < 256 ^ 8" "length (itoa (um_owner_tenant m')) < 256 ^ 8"
    "length (um_owner_id m) < 256 ^ 8" "length (um_owner_id m') < 256 ^ 8"
    "length (itoa (um_config_tenant m)) < 256 ^ 8" "length (itoa (um_config_tenant m')) < 256 ^ 8"
    "length (um_config_id m) < 256 ^ 8" "length (um_config_id m') < 256 ^ 8"
    using assms(2,3) by (simp_all add: fields_fit_def)
  let ?last = "\<lambda>m. write_field (um_config_id m) @ []"
  have e: "write_field n @ write_field (itoa (um_owner_tenant m)) @ write_field (um_owner_id m) @
      write_field (itoa (um_config_tenant m)) @ ?last m =
    write_field n' @ write_field (itoa (um_owner_tenant m')) @ write_field (um_owner_id m') @
      write_field (itoa (um_config_tenant m')) @ ?last m'"
    using assms(1) by (simp add: machine_encoding_def)
  note s1 = write_field_inj [OF e len(1,2)]
  note s2 = write_field_inj [OF conjunct2 [OF s1] len(3,4)]
  note s3 = write_field_inj [OF conjunct2 [OF s2] len(5,6)]
  note s4 = write_field_inj [OF conjunct2 [OF s3] len(7,8)]
  note s5 = write_field_inj [OF conjunct2 [OF s4] len(9,10)]
  have "um_owner_tenant m = um_owner_tenant m'" "um_config_tenant m = um_config_tenant m'"
    using s2 s4 itoa_inj by blast+
  then have "m = m'"
    using s3 s5 by simp
  with s1 show ?thesis by blast
qed

lemma machine_encoding_injective_witness:
  "machine_encoding ''n'' \<lparr>um_owner_tenant = 7, um_owner_id = ''ab'', um_config_tenant = 9, um_config_id = ''c''\<rparr>
     \<noteq> machine_encoding ''n'' \<lparr>um_owner_tenant = 7, um_owner_id = ''a'', um_config_tenant = 9, um_config_id = ''bc''\<rparr>"
proof
  let ?a = "\<lparr>um_owner_tenant = 7, um_owner_id = ''ab'', um_config_tenant = 9, um_config_id = ''c''\<rparr>"
  let ?b = "\<lparr>um_owner_tenant = 7, um_owner_id = ''a'', um_config_tenant = 9, um_config_id = ''bc''\<rparr>"
  assume e: "machine_encoding ''n'' ?a = machine_encoding ''n'' ?b"
  have "fields_fit ''n'' ?a" "fields_fit ''n'' ?b"
    by (simp_all add: fields_fit_def itoa.simps)
  from machine_encoding_injective [OF e this] show False by simp
qed

end
