(* ===== verification/Limiter.thy ===== *)
theory Limiter
  imports Prelude "HOL-Library.List_Lexorder"
begin

text \<open>
  The process-wide concurrency governor (models/limiter/governor.go): the gate every model
  client calls and the in-process counting semaphore per model that backs it. Acquire runs
  in critical sections under \<open>localLimiter.mu\<close>; between them a caller blocks on the
  semaphore's \<open>changed\<close> channel. A channel is the number of its generation: it is closed
  exactly when the semaphore has moved on to a later one. The calls in flight are a list, one
  entry per Acquire, and a step of the program is one critical section, one deferred
  decrement or one call of a release function.
\<close>

section \<open>The semaphores\<close>

record lsem =
  sem_active :: int
  sem_limit :: int
  sem_gen :: nat

record tsem =
  tr_limit :: int
  tr_waiting :: int
  tr_name :: string

record limiter =
  lim_sems :: "(string \<times> lsem) list"
  lim_tracked :: "(string \<times> tsem) list"

datatype acq_call =
    Waiting string nat
  | Leaving string bool
  | Holding string
  | Finished

definition new_local_limiter :: limiter where
  "new_local_limiter = \<lparr>lim_sems = [], lim_tracked = []\<rparr>"

definition no_tracked :: tsem where
  "no_tracked = \<lparr>tr_limit = 0, tr_waiting = 0, tr_name = []\<rparr>"

definition tracked_of :: "string \<Rightarrow> limiter \<Rightarrow> tsem" where
  "tracked_of key l = (case map_of (lim_tracked l) key of None \<Rightarrow> no_tracked | Some t \<Rightarrow> t)"

definition set_sem :: "string \<Rightarrow> lsem \<Rightarrow> limiter \<Rightarrow> limiter" where
  "set_sem key s l = l\<lparr>lim_sems := AList.update key s (lim_sems l)\<rparr>"

definition set_tracked :: "string \<Rightarrow> tsem \<Rightarrow> limiter \<Rightarrow> limiter" where
  "set_tracked key t l = l\<lparr>lim_tracked := AList.update key t (lim_tracked l)\<rparr>"

text \<open>\<open>close(sem.changed); sem.changed = make(chan struct{})\<close>.\<close>

definition renew_changed :: "lsem \<Rightarrow> lsem" where
  "renew_changed s = s\<lparr>sem_gen := sem_gen s + 1\<rparr>"

text \<open>The body of the loop: take a slot, or capture the channel to wait on.\<close>

definition acquire_try :: "string \<Rightarrow> limiter \<Rightarrow> limiter \<times> acq_call" where
  "acquire_try key l = (case map_of (lim_sems l) key of
       None \<Rightarrow> (l, Finished)
     | Some s \<Rightarrow>
         if sem_active s < sem_limit s
         then (set_sem key (s\<lparr>sem_active := sem_active s + 1\<rparr>) l, Leaving key True)
         else (l, Waiting key (sem_gen s)))"

text \<open>The first critical section of Acquire up to the loop.\<close>

definition acquire_sem :: "string \<Rightarrow> int \<Rightarrow> limiter \<Rightarrow> lsem" where
  "acquire_sem key limit l = (case map_of (lim_sems l) key of
       None \<Rightarrow> \<lparr>sem_active = 0, sem_limit = limit, sem_gen = 0\<rparr>
     | Some s \<Rightarrow> if sem_limit s \<noteq> limit then renew_changed (s\<lparr>sem_limit := limit\<rparr>) else s)"

definition acquire_enter :: "string \<Rightarrow> int \<Rightarrow> limiter \<Rightarrow> limiter" where
  "acquire_enter key limit l =
     set_tracked key ((tracked_of key l)\<lparr>tr_limit := limit, tr_waiting := tr_waiting (tracked_of key l) + 1\<rparr>)
       (set_sem key (acquire_sem key limit l) l)"

definition acquire :: "string \<Rightarrow> int \<Rightarrow> limiter \<Rightarrow> limiter \<times> acq_call" where
  "acquire key limit l =
     (if limit \<le> 0 \<or> key = [] then (l, Finished)
      else acquire_try key (acquire_enter key limit l))"

text \<open>\<open>case <-changed\<close> is ready when the captured channel has been closed.\<close>

definition changed_closed :: "string \<Rightarrow> nat \<Rightarrow> limiter \<Rightarrow> bool" where
  "changed_closed key gen l = (case map_of (lim_sems l) key of
       None \<Rightarrow> False | Some s \<Rightarrow> gen < sem_gen s)"

text \<open>The deferred \<open>tracked.waiting.Add(-1)\<close>.\<close>

definition acquire_return :: "string \<Rightarrow> limiter \<Rightarrow> limiter" where
  "acquire_return key l =
     set_tracked key ((tracked_of key l)\<lparr>tr_waiting := tr_waiting (tracked_of key l) - 1\<rparr>) l"

text \<open>The body of the release function, guarded by its \<open>sync.Once\<close>.\<close>

definition release_slot :: "string \<Rightarrow> limiter \<Rightarrow> limiter" where
  "release_slot key l = (case map_of (lim_sems l) key of
       None \<Rightarrow> l
     | Some s \<Rightarrow> set_sem key (renew_changed (s\<lparr>sem_active := sem_active s - 1\<rparr>)) l)"

definition release_call :: "acq_call \<Rightarrow> limiter \<Rightarrow> limiter \<times> acq_call" where
  "release_call c l = (case c of Holding key \<Rightarrow> (release_slot key l, Finished) | _ \<Rightarrow> (l, c))"

definition set_model_name :: "string \<Rightarrow> string \<Rightarrow> limiter \<Rightarrow> limiter" where
  "set_model_name key name l =
     (if key = [] \<or> name = [] then l
      else set_tracked key ((tracked_of key l)\<lparr>tr_name := name\<rparr>) l)"

record rstat =
  rs_model :: string
  rs_name :: string
  rs_active :: int
  rs_waiting :: int
  rs_limit :: int

definition runtime_stats :: "limiter \<Rightarrow> rstat list" where
  "runtime_stats l =
     sort_key (\<lambda>s. map (of_char :: char \<Rightarrow> nat) (rs_model s))
       (map (\<lambda>(key, s). \<lparr>rs_model = key, rs_name = tr_name (tracked_of key l), rs_active = sem_active s,
              rs_waiting = tr_waiting (tracked_of key l), rs_limit = tr_limit (tracked_of key l)\<rparr>)
         (lim_sems l))"


section \<open>Steps of the program\<close>

text \<open>The set \<open>asks\<close> holds the arguments of the Acquire calls the program makes.\<close>

inductive lim_step :: "(string \<times> int) set \<Rightarrow> limiter \<times> acq_call list \<Rightarrow> limiter \<times> acq_call list \<Rightarrow> bool"
  for asks where
  step_acquire: "\<lbrakk>(key, limit) \<in> asks; acquire key limit l = (l', c)\<rbrakk> \<Longrightarrow> lim_step asks (l, cs) (l', cs @ [c])"
| step_wake: "\<lbrakk>i < length cs; cs ! i = Waiting key gen; changed_closed key gen l; acquire_try key l = (l', c)\<rbrakk>
    \<Longrightarrow> lim_step asks (l, cs) (l', cs[i := c])"
| step_cancel: "\<lbrakk>i < length cs; cs ! i = Waiting key gen\<rbrakk> \<Longrightarrow> lim_step asks (l, cs) (l, cs[i := Leaving key False])"
| step_return: "\<lbrakk>i < length cs; cs ! i = Leaving key got\<rbrakk>
    \<Longrightarrow> lim_step asks (l, cs) (acquire_return key l, cs[i := if got then Holding key else Finished])"
| step_release: "\<lbrakk>i < length cs; cs ! i = Holding key \<or> cs ! i = Finished; release_call (cs ! i) l = (l', c)\<rbrakk>
    \<Longrightarrow> lim_step asks (l, cs) (l', cs[i := c])"
| step_name: "lim_step asks (l, cs) (set_model_name key name l, cs)"

inductive_cases lim_stepE: "lim_step asks (l, cs) w'"

text \<open>The calls that hold a slot of a key, and those its waiting counter counts.\<close>

fun holds :: "string \<Rightarrow> acq_call \<Rightarrow> bool" where
  "holds key (Leaving k got) \<longleftrightarrow> k = key \<and> got"
| "holds key (Holding k) \<longleftrightarrow> k = key"
| "holds key _ \<longleftrightarrow> False"

fun in_acquire :: "string \<Rightarrow> acq_call \<Rightarrow> bool" where
  "in_acquire key (Waiting k g) \<longleftrightarrow> k = key"
| "in_acquire key (Leaving k got) \<longleftrightarrow> k = key"
| "in_acquire key _ \<longleftrightarrow> False"

definition count_if :: "('a \<Rightarrow> bool) \<Rightarrow> 'a list \<Rightarrow> int" where
  "count_if P xs = int (length (filter P xs))"

lemma count_if_simps [simp]:
  "count_if P [] = 0" "count_if P (xs @ ys) = count_if P xs + count_if P ys"
  "count_if P [x] = of_bool (P x)"
  by (simp_all add: count_if_def)

lemma count_if_update:
  "i < length xs \<Longrightarrow> count_if P (xs[i := y]) = count_if P xs - of_bool (P (xs ! i)) + of_bool (P y)"
proof (induction xs arbitrary: i)
  case (Cons x xs)
  show ?case
  proof (cases i)
    case 0
    then show ?thesis by (simp add: count_if_def)
  next
    case (Suc j)
    then have "count_if P (xs[j := y]) = count_if P xs - of_bool (P (xs ! j)) + of_bool (P y)"
      using Cons by simp
    then show ?thesis using Suc by (simp add: count_if_def)
  qed
qed simp

lemma count_if_nonneg: "0 \<le> count_if P xs"
  by (simp add: count_if_def)

lemma count_if_pos: "0 < count_if P xs \<Longrightarrow> \<exists>i < length xs. P (xs ! i)"
  by (metis count_if_def filter_False in_set_conv_nth length_0_conv list.size(3) of_nat_0 order_less_irrefl)

text \<open>
  The invariant of one key: its counter is the number of its holders, its limit is positive,
  and a call waiting on the channel that is still open waits because the semaphore is full.
\<close>

definition sem_ok :: "string \<Rightarrow> lsem option \<Rightarrow> acq_call list \<Rightarrow> bool" where
  "sem_ok key os cs \<longleftrightarrow> (case os of
       None \<Rightarrow> (\<forall>c \<in> set cs. \<not> holds key c \<and> \<not> in_acquire key c)
     | Some s \<Rightarrow> sem_active s = count_if (holds key) cs \<and> 0 < sem_limit s
         \<and> (\<forall>gen. Waiting key gen \<in> set cs \<longrightarrow>
              gen \<le> sem_gen s \<and> (gen = sem_gen s \<longrightarrow> sem_limit s \<le> sem_active s)))"

definition lim_inv :: "limiter \<times> acq_call list \<Rightarrow> bool" where
  "lim_inv w \<longleftrightarrow> (\<forall>key. sem_ok key (map_of (lim_sems (fst w)) key) (snd w)
     \<and> tr_waiting (tracked_of key (fst w)) = count_if (in_acquire key) (snd w))"

lemma sems_set_sem [simp]:
  "map_of (lim_sems (set_sem key s l)) k = (if k = key then Some s else map_of (lim_sems l) k)"
  "lim_tracked (set_sem key s l) = lim_tracked l"
  by (simp_all add: set_sem_def)

lemma sems_set_tracked [simp]:
  "lim_sems (set_tracked key t l) = lim_sems l"
  "tracked_of k (set_tracked key t l) = (if k = key then t else tracked_of k l)"
  "tracked_of k (set_sem key s l) = tracked_of k l"
  by (simp_all add: set_tracked_def tracked_of_def)

lemma set_update_cases: "x \<in> set (xs[i := y]) \<Longrightarrow> x = y \<or> x \<in> set xs"
  using set_update_subset_insert by fastforce

lemma renew_changed_simps [simp]:
  "sem_active (renew_changed s) = sem_active s" "sem_limit (renew_changed s) = sem_limit s"
  "sem_gen (renew_changed s) = Suc (sem_gen s)"
  by (simp_all add: renew_changed_def)

text \<open>Replacing one call of another key, or one that neither holds nor waits on the key.\<close>

lemma sem_ok_update_other:
  assumes "sem_ok key os cs" "i < length cs" "holds key (cs ! i) = holds key c"
    "\<And>g. c \<noteq> Waiting key g" "in_acquire key c \<Longrightarrow> in_acquire key (cs ! i)"
  shows "sem_ok key os (cs[i := c])"
proof -
  have "\<And>x. x \<in> set (cs[i := c]) \<Longrightarrow> x = c \<or> x \<in> set cs" by (rule set_update_cases)
  moreover have "cs ! i \<in> set cs" using assms(2) by simp
  ultimately show ?thesis using assms
    by (fastforce simp: sem_ok_def count_if_update split: option.splits)
qed

lemma sem_ok_append_other:
  "\<lbrakk>sem_ok key os cs; \<not> holds key c; \<not> in_acquire key c\<rbrakk> \<Longrightarrow> sem_ok key os (cs @ [c])"
  by (auto simp: sem_ok_def split: option.splits)

text \<open>A change of the semaphore that closes its channel keeps the invariant of its key.\<close>

lemma sem_ok_renew:
  assumes "sem_ok key (Some s) cs" "0 < n"
  shows "sem_ok key (Some (renew_changed (s\<lparr>sem_limit := n\<rparr>))) cs"
  using assms by (auto simp: sem_ok_def)

lemma acquire_sem_ok:
  assumes "sem_ok key (map_of (lim_sems l) key) cs" "0 < limit"
  shows "sem_ok key (Some (acquire_sem key limit l)) cs"
proof (cases "map_of (lim_sems l) key")
  case None
  have "count_if (holds key) cs = 0"
    using assms None by (simp add: sem_ok_def count_if_def)
  then show ?thesis using assms None by (auto simp: sem_ok_def acquire_sem_def)
next
  case (Some s)
  then show ?thesis using assms sem_ok_renew by (auto simp: acquire_sem_def)
qed

text \<open>The loop body on a key whose invariant holds, with the call put in one place.\<close>

lemma acquire_try_cases:
  assumes "acquire_try key l = (l', c)" "map_of (lim_sems l) key = Some s"
  obtains "sem_active s < sem_limit s" "c = Leaving key True"
      "l' = set_sem key (s\<lparr>sem_active := sem_active s + 1\<rparr>) l"
  | "sem_limit s \<le> sem_active s" "c = Waiting key (sem_gen s)" "l' = l"
  using assms by (auto simp: acquire_try_def split: if_splits)

lemma not_Waiting_other [simp]: "\<not> holds key (Waiting k g)" "\<not> holds key Finished" "\<not> in_acquire key Finished"
  by simp_all

lemma sem_ok_try_append:
  assumes ok: "sem_ok key (Some s) cs" and s: "map_of (lim_sems l) key = Some s"
    and t: "acquire_try key l = (l', c)"
  shows "sem_ok key (map_of (lim_sems l') key) (cs @ [c])"
  using t s by (rule acquire_try_cases) (use ok s in \<open>auto simp: sem_ok_def\<close>)

lemma sem_ok_try_update:
  assumes ok: "sem_ok key (Some s) cs" and s: "map_of (lim_sems l) key = Some s"
    and t: "acquire_try key l = (l', c)" and i: "i < length cs" "cs ! i = Waiting key g"
  shows "sem_ok key (map_of (lim_sems l') key) (cs[i := c])"
  using t s
  by (rule acquire_try_cases)
    (use ok s i in \<open>auto simp: sem_ok_def count_if_update dest!: set_update_cases\<close>)

lemma acquire_try_other:
  assumes "acquire_try key l = (l', c)" "k \<noteq> key"
  shows "map_of (lim_sems l') k = map_of (lim_sems l) k" "\<not> holds k c" "\<not> in_acquire k c" "c \<noteq> Waiting k g"
  using assms by (auto simp: acquire_try_def split: option.splits if_splits)

lemma acquire_try_tracked: "acquire_try key l = (l', c) \<Longrightarrow> tracked_of k l' = tracked_of k l"
  by (auto simp: acquire_try_def split: option.splits if_splits)

lemma lim_inv_acquire:
  assumes inv: "lim_inv (l, cs)" and a: "acquire key limit l = (l', c)"
  shows "lim_inv (l', cs @ [c])"
proof (cases "limit \<le> 0 \<or> key = []")
  case True
  then have "l' = l" "c = Finished" using a by (auto simp: acquire_def)
  then show ?thesis using inv by (auto simp: lim_inv_def sem_ok_append_other)
next
  case False
  let ?e = "acquire_enter key limit l"
  have t: "acquire_try key ?e = (l', c)" using a False by (auto simp: acquire_def)
  have e: "map_of (lim_sems ?e) key = Some (acquire_sem key limit l)"
    by (simp add: acquire_enter_def)
  have eo: "map_of (lim_sems ?e) k = map_of (lim_sems l) k" if "k \<noteq> key" for k
    using that by (simp add: acquire_enter_def)
  have ok: "sem_ok key (Some (acquire_sem key limit l)) cs"
    using inv False by (auto simp: lim_inv_def intro!: acquire_sem_ok)
  have "sem_ok k (map_of (lim_sems l') k) (cs @ [c])" for k
  proof (cases "k = key")
    case True
    then show ?thesis using sem_ok_try_append [OF ok e t] by simp
  next
    case False
    then show ?thesis using inv eo acquire_try_other [OF t False]
      by (auto simp: lim_inv_def intro!: sem_ok_append_other)
  qed
  moreover have "in_acquire key c"
    using t e by (rule acquire_try_cases) auto
  then have "tr_waiting (tracked_of k l') = count_if (in_acquire k) (cs @ [c])" for k
    using inv acquire_try_tracked [OF t, of k] acquire_try_other(3) [OF t, of k]
    by (cases "k = key") (auto simp: lim_inv_def acquire_enter_def)
  ultimately show ?thesis by (simp add: lim_inv_def)
qed

lemma lim_inv_wake:
  assumes inv: "lim_inv (l, cs)" and i: "i < length cs" "cs ! i = Waiting key gen"
    and t: "acquire_try key l = (l', c)"
  shows "lim_inv (l', cs[i := c])"
proof -
  have mem: "Waiting key gen \<in> set cs" using i by (metis nth_mem)
  then obtain s where s: "map_of (lim_sems l) key = Some s" "sem_ok key (Some s) cs"
    using inv by (fastforce simp: lim_inv_def sem_ok_def split: option.splits)
  have "sem_ok k (map_of (lim_sems l') k) (cs[i := c])" for k
  proof (cases "k = key")
    case True
    then show ?thesis using sem_ok_try_update [OF s(2) s(1) t i] by simp
  next
    case False
    then show ?thesis using inv i acquire_try_other [OF t False]
      by (auto simp: lim_inv_def intro!: sem_ok_update_other)
  qed
  moreover have "in_acquire key c"
    using t s(1) by (rule acquire_try_cases) auto
  then have "tr_waiting (tracked_of k l') = count_if (in_acquire k) (cs[i := c])" for k
    using inv i acquire_try_tracked [OF t, of k] acquire_try_other(3) [OF t, of k]
    by (cases "k = key") (auto simp: lim_inv_def count_if_update)
  ultimately show ?thesis by (simp add: lim_inv_def)
qed

lemma lim_inv_release:
  assumes inv: "lim_inv (l, cs)" and i: "i < length cs" "cs ! i = Holding key"
  shows "lim_inv (release_slot key l, cs[i := Finished])"
proof -
  have mem: "Holding key \<in> set cs" using i by (metis nth_mem)
  then obtain s where s: "map_of (lim_sems l) key = Some s" "sem_ok key (Some s) cs"
    using inv by (fastforce simp: lim_inv_def sem_ok_def split: option.splits)
  have "sem_ok k (map_of (lim_sems (release_slot key l)) k) (cs[i := Finished])" for k
  proof (cases "k = key")
    case True
    then show ?thesis using s i
      by (auto simp: release_slot_def sem_ok_def count_if_update dest!: set_update_cases)
  next
    case False
    then show ?thesis using inv i s(1)
      by (auto simp: lim_inv_def release_slot_def intro!: sem_ok_update_other)
  qed
  then show ?thesis using inv i s(1)
    by (auto simp: lim_inv_def count_if_update release_slot_def)
qed

lemma lim_inv_step:
  assumes "lim_step asks w w'" "lim_inv w"
  shows "lim_inv w'"
  using assms
proof cases
  case (step_acquire key limit l l' c cs)
  then show ?thesis using assms(2) lim_inv_acquire by blast
next
  case (step_wake i cs key gen l l' c)
  then show ?thesis using assms(2) lim_inv_wake by blast
next
  case (step_cancel i cs key gen l)
  then show ?thesis using assms(2)
    by (auto simp: lim_inv_def count_if_update intro!: sem_ok_update_other)
next
  case (step_return i cs key got l)
  then show ?thesis using assms(2)
    by (auto simp: lim_inv_def count_if_update acquire_return_def intro!: sem_ok_update_other)
next
  case (step_release i cs key l l' c)
  show ?thesis
  proof (cases "cs ! i = Holding key")
    case True
    then show ?thesis using step_release assms(2) lim_inv_release [of l cs i key]
      by (auto simp: release_call_def)
  next
    case False
    then have "l' = l" "cs[i := c] = cs"
      using step_release list_update_id [of cs i] by (auto simp: release_call_def)
    then show ?thesis using step_release assms(2) by simp
  qed
next
  case (step_name l cs key name)
  then show ?thesis using assms(2) by (auto simp: lim_inv_def set_model_name_def)
qed

abbreviation lim_start :: "limiter \<times> acq_call list" where
  "lim_start \<equiv> (new_local_limiter, [])"

definition lim_reach :: "(string \<times> int) set \<Rightarrow> limiter \<times> acq_call list \<Rightarrow> bool" where
  "lim_reach asks w \<longleftrightarrow> (lim_step asks)\<^sup>*\<^sup>* lim_start w"

lemma lim_reach_step: "lim_reach asks w \<Longrightarrow> lim_step asks w w' \<Longrightarrow> lim_reach asks w'"
  by (simp add: lim_reach_def)

lemma lim_reach_start: "lim_reach asks lim_start"
  by (simp add: lim_reach_def)

lemma lim_reach_inv:
  assumes "lim_reach asks w" "I lim_start" "\<And>w w'. lim_step asks w w' \<Longrightarrow> lim_reach asks w \<Longrightarrow> I w \<Longrightarrow> I w'"
  shows "I w"
proof -
  have "lim_reach asks w \<and> I w"
    using assms(1) [unfolded lim_reach_def]
  proof (induction rule: rtranclp_induct)
    case base
    then show ?case using assms(2) by (simp add: lim_reach_start)
  next
    case (step y z)
    then show ?case using assms(3) lim_reach_step by blast
  qed
  then show ?thesis by simp
qed

lemma lim_inv_reach: "lim_reach asks w \<Longrightarrow> lim_inv w"
  by (rule lim_reach_inv)
    (auto simp: lim_inv_def sem_ok_def new_local_limiter_def tracked_of_def no_tracked_def dest: lim_inv_step [unfolded lim_inv_def sem_ok_def])

text \<open>Under a bound on the limits of a key's Acquire calls, its counter stays within it.\<close>

definition sem_within :: "string \<Rightarrow> int \<Rightarrow> limiter \<Rightarrow> bool" where
  "sem_within key n l \<longleftrightarrow> (\<forall>s. map_of (lim_sems l) key = Some s \<longrightarrow> sem_limit s \<le> n \<and> sem_active s \<le> n)"

lemma sem_within_try: "acquire_try k l = (l', c) \<Longrightarrow> sem_within key n l \<Longrightarrow> sem_within key n l'"
  by (auto simp: acquire_try_def sem_within_def split: option.splits if_splits)

lemma sem_within_step:
  assumes "lim_step asks w w'" "sem_within key n (fst w)" "\<forall>m. (key, m) \<in> asks \<longrightarrow> m \<le> n" "0 \<le> n"
  shows "sem_within key n (fst w')"
  using assms
proof cases
  case (step_acquire k limit l l' c cs)
  have "sem_within key n (acquire_enter k limit l)"
    using step_acquire assms
    by (auto simp: sem_within_def acquire_enter_def acquire_sem_def split: option.splits if_splits)
  then show ?thesis using step_acquire assms sem_within_try
    by (auto simp: acquire_def split: if_splits)
next
  case (step_release i cs k l l' c)
  then show ?thesis using assms
    by (auto simp: release_call_def release_slot_def sem_within_def split: option.splits if_splits)
next
  case (step_wake i cs k gen l l' c)
  then show ?thesis using assms sem_within_try by simp
qed (simp_all add: acquire_return_def set_model_name_def sem_within_def)

section \<open>The gate\<close>

text \<open>
  \<open>GateNamedN\<close>: which Acquire a model call makes, if any. The governor is the installed
  limiter (absent for nil) and the default limit; whether the call is a background task comes
  with its context. The release function of a call that makes none is a no-op.
\<close>

record gov_state =
  gov_limiter :: "limiter option"
  gov_default :: int

definition set_governor :: "limiter option \<Rightarrow> int \<Rightarrow> gov_state" where
  "set_governor l limit = \<lparr>gov_limiter = l, gov_default = limit\<rparr>"

definition set_global_limit :: "int \<Rightarrow> gov_state \<Rightarrow> gov_state" where
  "set_global_limit limit g = g\<lparr>gov_default := limit\<rparr>"

definition gate_limit :: "gov_state \<Rightarrow> int \<Rightarrow> int" where
  "gate_limit g model_limit = (if model_limit \<le> 0 then gov_default g else model_limit)"

definition gate_named_n :: "bool \<Rightarrow> string \<Rightarrow> string \<Rightarrow> int \<Rightarrow> gov_state \<Rightarrow> gov_state \<times> acq_call" where
  "gate_named_n background key name model_limit g =
     (case gov_limiter g of
        None \<Rightarrow> (g, Finished)
      | Some l \<Rightarrow>
          if gate_limit g model_limit \<le> 0 \<or> \<not> background then (g, Finished)
          else (let (l', c) = acquire key (gate_limit g model_limit) (set_model_name key name l)
                in (g\<lparr>gov_limiter := Some l'\<rparr>, c)))"

definition gate_n :: "bool \<Rightarrow> string \<Rightarrow> int \<Rightarrow> gov_state \<Rightarrow> gov_state \<times> acq_call" where
  "gate_n background key model_limit g = gate_named_n background key [] model_limit g"

definition gate :: "bool \<Rightarrow> string \<Rightarrow> gov_state \<Rightarrow> gov_state \<times> acq_call" where
  "gate background key g = gate_n background key 0 g"

definition gov_runtime_stats :: "gov_state \<Rightarrow> rstat list \<times> bool" where
  "gov_runtime_stats g = (case gov_limiter g of None \<Rightarrow> ([], False) | Some l \<Rightarrow> (runtime_stats l, True))"

text \<open>A call through the gate is at most one naming step and one Acquire of the limiter.\<close>

lemma gate_is_step:
  assumes "gate_named_n background key name m g = (g', c)" "gov_limiter g = Some l"
    "(key, gate_limit g m) \<in> asks"
  shows "\<exists>l'. gov_limiter g' = Some l' \<and>
    ((l', cs @ [c]) = (l, cs @ [Finished])
     \<or> lim_step asks (l, cs) (set_model_name key name l, cs)
       \<and> lim_step asks (set_model_name key name l, cs) (l', cs @ [c]))"
  using assms
  by (auto simp: gate_named_n_def split: if_splits prod.splits intro: lim_step.intros)

section \<open>Properties\<close>

text \<open>
  C28. However the calls of a process interleave, the calls that hold a slot of a model never
  outnumber the largest limit anyone asked for that model with, and the semaphore's counter is
  exactly their number: no release is lost, none is counted twice.
\<close>

theorem holders_within_limit:
  assumes "lim_reach asks (l, cs)" "\<forall>m. (key, m) \<in> asks \<longrightarrow> m \<le> n" "0 \<le> n"
  shows "count_if (holds key) cs \<le> n
    \<and> (\<forall>s. map_of (lim_sems l) key = Some s \<longrightarrow> sem_active s = count_if (holds key) cs)"
proof -
  have "sem_ok key (map_of (lim_sems l) key) cs"
    using lim_inv_reach [OF assms(1)] by (simp add: lim_inv_def)
  moreover have "sem_within key n (fst (l, cs))"
    using assms(1)
  proof (rule lim_reach_inv)
    show "sem_within key n (fst lim_start)"
      by (simp add: sem_within_def new_local_limiter_def)
  qed (rule sem_within_step [OF _ _ assms(2,3)])
  ultimately show ?thesis using assms(3)
    by (auto simp: sem_ok_def sem_within_def count_if_def split: option.splits)
qed

text \<open>The run the witnesses use: two Acquires at limit one, the first returned.\<close>

definition demo_lim :: limiter where
  "demo_lim = \<lparr>lim_sems = [(''m'', \<lparr>sem_active = 1, sem_limit = 1, sem_gen = 0\<rparr>)],
     lim_tracked = [(''m'', \<lparr>tr_limit = 1, tr_waiting = 2, tr_name = []\<rparr>)]\<rparr>"

lemma demo_reach:
  "lim_reach {(''m'', 1)} (demo_lim, [Leaving ''m'' True, Waiting ''m'' 0])"
proof -
  let ?l1 = "\<lparr>lim_sems = [(''m'', \<lparr>sem_active = 1, sem_limit = 1, sem_gen = 0\<rparr>)],
     lim_tracked = [(''m'', \<lparr>tr_limit = 1, tr_waiting = 1, tr_name = []\<rparr>)]\<rparr>"
  have "acquire ''m'' 1 new_local_limiter = (?l1, Leaving ''m'' True)" by code_simp
  then have "lim_reach {(''m'', 1)} (?l1, [Leaving ''m'' True])"
    using lim_reach_step [OF lim_reach_start] step_acquire by (metis append_Nil insertI1)
  moreover have "acquire ''m'' 1 ?l1 = (demo_lim, Waiting ''m'' 0)" by code_simp
  ultimately show ?thesis
    using lim_reach_step step_acquire by (metis append_Cons append_Nil insertI1)
qed

lemma holders_within_limit_witness:
  "count_if (holds ''m'') [Leaving ''m'' True, Waiting ''m'' 0] \<le> 1"
  using holders_within_limit [OF demo_reach, of "''m''" 1] by simp

text \<open>
  C29. No wakeup is lost: in every reachable state, a call waiting for a model with fewer
  holders than its limit can leave the channel and take a slot at once; and when the model is
  full some call holds a slot whose release will close the channel.
\<close>

theorem waiter_never_stranded:
  assumes "lim_reach asks (l, cs)" "i < length cs" "cs ! i = Waiting key gen"
  shows "\<exists>s. map_of (lim_sems l) key = Some s \<and>
    (if count_if (holds key) cs < sem_limit s
     then changed_closed key gen l \<and> snd (acquire_try key l) = Leaving key True
     else \<exists>j < length cs. holds key (cs ! j))"
proof -
  have mem: "Waiting key gen \<in> set cs" using assms by (metis nth_mem)
  have ok: "sem_ok key (map_of (lim_sems l) key) cs"
    using lim_inv_reach [OF assms(1)] by (simp add: lim_inv_def)
  then obtain s where s: "map_of (lim_sems l) key = Some s" "sem_ok key (Some s) cs"
    using mem by (fastforce simp: sem_ok_def split: option.splits)
  show ?thesis
  proof (cases "count_if (holds key) cs < sem_limit s")
    case True
    then have "gen < sem_gen s"
      using s mem by (fastforce simp: sem_ok_def)
    then show ?thesis using s True
      by (auto simp: changed_closed_def acquire_try_def sem_ok_def)
  next
    case False
    then have "0 < count_if (holds key) cs" using s by (auto simp: sem_ok_def)
    then show ?thesis using s(1) False count_if_pos by auto
  qed
qed

lemma waiter_never_stranded_witness:
  "\<exists>s. map_of (lim_sems demo_lim) ''m'' = Some s \<and>
    (if count_if (holds ''m'') [Leaving ''m'' True, Waiting ''m'' 0] < sem_limit s
     then changed_closed ''m'' 0 demo_lim \<and> snd (acquire_try ''m'' demo_lim) = Leaving ''m'' True
     else \<exists>j < length [Leaving ''m'' True, Waiting ''m'' 0]. holds ''m'' ([Leaving ''m'' True, Waiting ''m'' 0] ! j))"
  by (rule waiter_never_stranded [OF demo_reach, where i = 1 and gen = 0]) simp_all

end
