(* ===== verification/RateLimit.thy ===== *)
theory RateLimit
  imports Prelude
begin

text \<open>
  The sliding-window rate limiter (ratelimit/limiter.go). The local fallback keeps one entry
  per key in a \<open>sync.Map\<close>; entries are shared objects with a lock and a \<open>deleted\<close> mark, so
  the model keeps them in a heap (a list indexed by address) and the map holds addresses. One
  function per critical section: the load, the locked body of a call and the sweep. The Redis
  script's answer is an input of \<open>limiter_allow\<close>.
\<close>

section \<open>The local limiter\<close>

record rl_entry =
  ent_times :: "int list"
  ent_deleted :: bool

record rl_store =
  rl_heap :: "rl_entry list"
  rl_map :: "(string \<times> nat) list"

definition new_rl_store :: rl_store where
  "new_rl_store = \<lparr>rl_heap = [], rl_map = []\<rparr>"

text \<open>\<open>entries.LoadOrStore(key, &localEntry{})\<close>: a fresh object, kept when the key is absent.\<close>

definition load_or_store :: "string \<Rightarrow> rl_store \<Rightarrow> nat \<times> rl_store" where
  "load_or_store key st = (case map_of (rl_map st) key of
       Some a \<Rightarrow> (a, st)
     | None \<Rightarrow> (length (rl_heap st),
         \<lparr>rl_heap = rl_heap st @ [\<lparr>ent_times = [], ent_deleted = False\<rparr>],
          rl_map = AList.update key (length (rl_heap st)) (rl_map st)\<rparr>))"

definition set_entry :: "nat \<Rightarrow> rl_entry \<Rightarrow> rl_store \<Rightarrow> rl_store" where
  "set_entry a e st = st\<lparr>rl_heap := (rl_heap st)[a := e]\<rparr>"

text \<open>
  The body under the entry's lock: a deleted entry is dropped from the map and the call tries
  again (\<open>Inl\<close>), otherwise the call is decided (\<open>Inr\<close>).
\<close>

definition allow_locked ::
    "string \<Rightarrow> int \<Rightarrow> int \<Rightarrow> int \<Rightarrow> nat \<Rightarrow> rl_store \<Rightarrow> rl_store + (bool \<times> rl_store)" where
  "allow_locked key window max_hits now a st =
     (let e = rl_heap st ! a in
      if ent_deleted e then Inl (st\<lparr>rl_map := AList.delete key (rl_map st)\<rparr>)
      else (let valid = filter (\<lambda>t. now - window < t) (ent_times e) in
            if max_hits \<le> int (length valid)
            then Inr (False, set_entry a (e\<lparr>ent_times := valid\<rparr>) st)
            else Inr (True, set_entry a (e\<lparr>ent_times := valid @ [now]\<rparr>) st)))"

text \<open>The loop of \<open>allow\<close> with no other call between its two sections.\<close>

partial_function (option) allow_loop ::
    "string \<Rightarrow> int \<Rightarrow> int \<Rightarrow> int \<Rightarrow> rl_store \<Rightarrow> (bool \<times> rl_store) option" where
  "allow_loop key window max_hits now st =
     (case load_or_store key st of (a, st1) \<Rightarrow>
       (case allow_locked key window max_hits now a st1 of
          Inl st2 \<Rightarrow> allow_loop key window max_hits now st2
        | Inr r \<Rightarrow> Some r))"

text \<open>One entry of the sweep, and the whole sweep of a tick.\<close>

definition sweep_entry :: "int \<Rightarrow> int \<Rightarrow> rl_store \<Rightarrow> string \<times> nat \<Rightarrow> rl_store" where
  "sweep_entry window now st ka = (case ka of (key, a) \<Rightarrow>
     (let e = rl_heap st ! a in
      if \<exists>t \<in> set (ent_times e). now - window < t then st
      else (set_entry a (e\<lparr>ent_deleted := True\<rparr>) st)\<lparr>rl_map := AList.delete key (rl_map st)\<rparr>))"

definition sweep :: "int \<Rightarrow> int \<Rightarrow> rl_store \<Rightarrow> rl_store" where
  "sweep window now st = foldl (sweep_entry window now) st (rl_map st)"

text \<open>The limiter: times are nanoseconds, the window defaults to a minute.\<close>

definition minute :: int where
  "minute = 60 * 1000000000"

record rl_limiter =
  rlm_window :: int
  rlm_local :: rl_store

definition new_rate_limiter :: "int \<Rightarrow> rl_limiter" where
  "new_rate_limiter window =
     \<lparr>rlm_window = (if window \<le> 0 then minute else window), rlm_local = new_rl_store\<rparr>"

text \<open>
  \<open>Allow\<close>: without a Redis client (\<open>None\<close>) or when the script fails (\<open>Some None\<close>) the local
  limiter decides.
\<close>

definition limiter_allow ::
    "bool option option \<Rightarrow> string \<Rightarrow> int \<Rightarrow> int \<Rightarrow> rl_limiter \<Rightarrow> (bool \<times> rl_limiter) option" where
  "limiter_allow redis key max_hits now l =
     (if max_hits \<le> 0 then Some (True, l)
      else case redis of
        Some (Some allowed) \<Rightarrow> Some (allowed, l)
      | _ \<Rightarrow> (case allow_loop key (rlm_window l) max_hits now (rlm_local l) of
                None \<Rightarrow> None | Some (b, st) \<Rightarrow> Some (b, l\<lparr>rlm_local := st\<rparr>)))"

definition cleanup_tick :: "int \<Rightarrow> rl_limiter \<Rightarrow> rl_limiter" where
  "cleanup_tick now l =
     l\<lparr>rlm_local := sweep (if rlm_window l \<le> 0 then minute else rlm_window l) now (rlm_local l)\<rparr>"

section \<open>Runs\<close>

datatype rl_event = Hit int string int | Sweep int

fun event_time :: "rl_event \<Rightarrow> int" where
  "event_time (Hit now _ _) = now"
| "event_time (Sweep now) = now"

text \<open>The decisions of a run: the key, the time and the answer of every call.\<close>

fun rl_run :: "rl_event list \<Rightarrow> rl_limiter \<Rightarrow> (string \<times> int \<times> bool) list option" where
  "rl_run [] l = Some []"
| "rl_run (Hit now key max_hits # evs) l =
     (case limiter_allow None key max_hits now l of
        None \<Rightarrow> None
      | Some (b, l') \<Rightarrow> map_option (Cons (key, now, b)) (rl_run evs l'))"
| "rl_run (Sweep now # evs) l = rl_run evs (cleanup_tick now l)"

text \<open>
  The promise: the times of the allowed calls of each key, and a call is allowed exactly when
  fewer than its maximum lie in the window that ends with it. Nothing is ever forgotten.
\<close>

definition spec_allow ::
    "int \<Rightarrow> string \<Rightarrow> int \<Rightarrow> int \<Rightarrow> (string \<Rightarrow> int list) \<Rightarrow> bool \<times> (string \<Rightarrow> int list)" where
  "spec_allow window key max_hits now hits =
     (if max_hits \<le> 0 then (True, hits)
      else if int (length (filter (\<lambda>t. now - window < t) (hits key))) < max_hits
      then (True, hits(key := hits key @ [now]))
      else (False, hits))"

fun spec_run :: "int \<Rightarrow> rl_event list \<Rightarrow> (string \<Rightarrow> int list) \<Rightarrow> (string \<times> int \<times> bool) list" where
  "spec_run window [] hits = []"
| "spec_run window (Hit now key max_hits # evs) hits =
     (let (b, hits') = spec_allow window key max_hits now hits
      in (key, now, b) # spec_run window evs hits')"
| "spec_run window (Sweep now # evs) hits = spec_run window evs hits"

section \<open>The refinement\<close>

text \<open>The store is well formed when the map names distinct live objects of the heap.\<close>

definition rl_ok :: "rl_store \<Rightarrow> bool" where
  "rl_ok st \<longleftrightarrow> keys_distinct (rl_map st) \<and> inj_on (map_of (rl_map st)) (dom (map_of (rl_map st)))
     \<and> (\<forall>k a. map_of (rl_map st) k = Some a \<longrightarrow> a < length (rl_heap st) \<and> \<not> ent_deleted (rl_heap st ! a))"

definition times_of :: "rl_store \<Rightarrow> string \<Rightarrow> int list" where
  "times_of st key = (case map_of (rl_map st) key of None \<Rightarrow> [] | Some a \<Rightarrow> ent_times (rl_heap st ! a))"

text \<open>Store and log agree on everything a call at \<open>now\<close> or later can still see.\<close>

definition rl_abs :: "int \<Rightarrow> int \<Rightarrow> rl_store \<Rightarrow> (string \<Rightarrow> int list) \<Rightarrow> bool" where
  "rl_abs window now st hits \<longleftrightarrow> rl_ok st \<and>
     (\<forall>k. filter (\<lambda>t. now - window < t) (times_of st k) = filter (\<lambda>t. now - window < t) (hits k))"

lemma filter_later: "(b::int) \<le> c \<Longrightarrow> filter (\<lambda>t. b < t) xs = filter (\<lambda>t. b < t) ys
    \<Longrightarrow> filter (\<lambda>t. c < t) xs = filter (\<lambda>t. c < t) ys"
proof -
  assume "b \<le> c" and eq: "filter (\<lambda>t. b < t) xs = filter (\<lambda>t. b < t) ys"
  then have *: "filter (\<lambda>t. c < t) zs = filter (\<lambda>t. c < t) (filter (\<lambda>t. b < t) zs)" for zs
    by (auto intro: filter_cong)
  show ?thesis by (subst (1 2) *) (simp add: eq)
qed

lemma rl_abs_later: "rl_abs window now st hits \<Longrightarrow> now \<le> now' \<Longrightarrow> rl_abs window now' st hits"
  unfolding rl_abs_def by (metis filter_later diff_right_mono)

lemma map_of_inj_other:
  "rl_ok st \<Longrightarrow> map_of (rl_map st) k = Some a \<Longrightarrow> map_of (rl_map st) k' = Some a \<Longrightarrow> k' = k"
  by (metis domI inj_on_def rl_ok_def)

lemma load_or_store_ok:
  assumes "rl_ok st" "load_or_store key st = (a, st')"
  shows "rl_ok st'" "map_of (rl_map st') key = Some a" "times_of st' k = times_of st k"
proof -
  have "rl_ok st' \<and> map_of (rl_map st') key = Some a \<and> times_of st' k = times_of st k"
  proof (cases "map_of (rl_map st) key")
    case (Some b)
    then show ?thesis using assms by (auto simp: load_or_store_def)
  next
    case None
    have bound: "map_of (rl_map st) k = Some b \<Longrightarrow> b < length (rl_heap st)" for k b
      using assms(1) by (auto simp: rl_ok_def)
    have st': "a = length (rl_heap st)" "rl_heap st' = rl_heap st @ [\<lparr>ent_times = [], ent_deleted = False\<rparr>]"
      "rl_map st' = AList.update key a (rl_map st)"
      using assms(2) None by (auto simp: load_or_store_def)
    have m: "map_of (rl_map st') = (map_of (rl_map st))(key \<mapsto> a)"
      by (simp add: st' update_conv')
    have "inj_on (map_of (rl_map st')) (dom (map_of (rl_map st')))"
      using assms(1) bound by (fastforce simp: m rl_ok_def inj_on_def st'(1))
    then have "rl_ok st'"
      using assms(1) bound st' m by (fastforce simp: rl_ok_def nth_append)
    moreover have "times_of st' k = times_of st k"
      using bound None
      by (cases "k = key") (auto simp: times_of_def m st'(1,2) nth_append split: option.splits)
    ultimately show ?thesis by (simp add: m)
  qed
  then show "rl_ok st'" "map_of (rl_map st') key = Some a" "times_of st' k = times_of st k" by auto
qed

lemma rl_ok_set_entry:
  assumes "rl_ok st" "map_of (rl_map st) key = Some a" "\<not> ent_deleted e"
  shows "rl_ok (set_entry a e st)"
    "times_of (set_entry a e st) k = (if k = key then ent_times e else times_of st k)"
proof -
  have a: "a < length (rl_heap st)" using assms by (auto simp: rl_ok_def)
  show "rl_ok (set_entry a e st)"
    using assms a by (auto simp: rl_ok_def set_entry_def nth_list_update)
  show "times_of (set_entry a e st) k = (if k = key then ent_times e else times_of st k)"
  proof (cases "k = key")
    case True
    then show ?thesis using assms(2) a by (simp add: times_of_def set_entry_def)
  next
    case False
    then have "map_of (rl_map st) k \<noteq> Some a"
      using map_of_inj_other [OF assms(1,2)] by blast
    then show ?thesis using False
      by (auto simp: times_of_def set_entry_def split: option.splits)
  qed
qed

text \<open>A call on a well-formed store returns in its first round and decides as the log does.\<close>

lemma allow_loop_refines:
  assumes abs: "rl_abs window now st hits" and "0 < max_hits"
  shows "\<exists>st'. allow_loop key window max_hits now st = Some (fst (spec_allow window key max_hits now hits), st')
    \<and> rl_abs window now st' (snd (spec_allow window key max_hits now hits))"
proof -
  let ?f = "filter (\<lambda>t. now - window < t)"
  obtain a st1 where ls: "load_or_store key st = (a, st1)" by force
  have ok: "rl_ok st" using abs by (simp add: rl_abs_def)
  note l = load_or_store_ok [OF ok ls]
  let ?e = "rl_heap st1 ! a"
  have live: "\<not> ent_deleted ?e" using l(1,2) by (auto simp: rl_ok_def)
  have times: "ent_times ?e = times_of st1 key" using l(2) by (simp add: times_of_def)
  have seen: "?f (times_of st1 k) = ?f (hits k)" for k
    using abs l(3) by (simp add: rl_abs_def)
  have e: "rl_ok (set_entry a (?e\<lparr>ent_times := ts\<rparr>) st1)"
      "times_of (set_entry a (?e\<lparr>ent_times := ts\<rparr>) st1) k = (if k = key then ts else times_of st1 k)" for ts k
    using rl_ok_set_entry [OF l(1,2)] live by simp_all
  have abs': "rl_abs window now (set_entry a (?e\<lparr>ent_times := ts\<rparr>) st1) (hits(key := hs))"
    if "?f ts = ?f hs" for ts hs
    using that seen by (simp add: rl_abs_def e)
  have count: "length (?f (times_of st1 key)) = length (?f (hits key))"
    by (simp add: seen)
  have eq: "?f (times_of st1 key) = ?f (hits key)" by (rule seen)
  show ?thesis
  proof (cases "int (length (?f (hits key))) < max_hits")
    case True
    then show ?thesis
      using assms(2) live abs' [of "?f (hits key) @ [now]" "hits key @ [now]"]
      by (subst allow_loop.simps)
        (simp add: ls allow_locked_def spec_allow_def Let_def times eq)
  next
    case False
    then show ?thesis
      using assms(2) live abs' [of "?f (hits key)" "hits key"]
      by (subst allow_loop.simps)
        (simp add: ls allow_locked_def spec_allow_def Let_def times eq)
  qed
qed

lemma sweep_entry_ok:
  assumes abs: "rl_abs window now st hits" and m: "map_of (rl_map st) key = Some a"
  shows "rl_abs window now (sweep_entry window now st (key, a)) hits
    \<and> (\<forall>k. k \<noteq> key \<longrightarrow> map_of (rl_map (sweep_entry window now st (key, a))) k = map_of (rl_map st) k)"
proof (cases "\<exists>t \<in> set (ent_times (rl_heap st ! a)). now - window < t")
  case True
  then show ?thesis using abs by (auto simp: sweep_entry_def Let_def)
next
  case False
  let ?st = "sweep_entry window now st (key, a)"
  have ok: "rl_ok st" using abs by (simp add: rl_abs_def)
  have map': "map_of (rl_map ?st) k = (if k = key then None else map_of (rl_map st) k)" for k
    using False by (simp add: sweep_entry_def Let_def set_entry_def delete_conv')
  have other: "map_of (rl_map st) k = Some b \<Longrightarrow> k \<noteq> key \<Longrightarrow> b \<noteq> a" for k b
    using map_of_inj_other [OF ok m] by blast
  have heap': "rl_heap ?st ! b = rl_heap st ! b" if "b \<noteq> a" for b
    using False that by (simp add: sweep_entry_def Let_def set_entry_def)
  have len': "length (rl_heap ?st) = length (rl_heap st)"
    using False by (simp add: sweep_entry_def Let_def set_entry_def)
  have kd: "keys_distinct (rl_map ?st)"
    using False ok by (simp add: sweep_entry_def Let_def set_entry_def rl_ok_def)
  have inj: "inj_on (map_of (rl_map ?st)) (dom (map_of (rl_map ?st)))"
  proof (rule inj_onI)
    fix x y assume "x \<in> dom (map_of (rl_map ?st))" "map_of (rl_map ?st) x = map_of (rl_map ?st) y"
    then obtain b where "map_of (rl_map st) x = Some b" "map_of (rl_map st) y = Some b"
      by (auto simp: map' split: if_splits)
    then show "x = y" using map_of_inj_other [OF ok] by blast
  qed
  have bound: "b < length (rl_heap st) \<and> \<not> ent_deleted (rl_heap st ! b)" if "map_of (rl_map st) k = Some b" for k b
    using ok that by (simp add: rl_ok_def)
  have "b < length (rl_heap ?st) \<and> \<not> ent_deleted (rl_heap ?st ! b)" if "map_of (rl_map ?st) k = Some b" for k b
  proof -
    have "k \<noteq> key" "map_of (rl_map st) k = Some b" using that map' by (auto split: if_splits)
    then show ?thesis using bound other heap' len' by simp
  qed
  then have "rl_ok ?st" using kd inj by (simp add: rl_ok_def)
  moreover have "filter (\<lambda>t. now - window < t) (times_of ?st k) = filter (\<lambda>t. now - window < t) (hits k)" for k
  proof (cases "k = key")
    case True
    have "filter (\<lambda>t. now - window < t) (ent_times (rl_heap st ! a)) = []"
      using False by (simp add: filter_empty_conv)
    then have "filter (\<lambda>t. now - window < t) (hits key) = []"
      using abs m by (metis rl_abs_def times_of_def option.simps(5))
    then show ?thesis using True by (simp add: times_of_def map')
  next
    case False
    then have "times_of ?st k = times_of st k"
      using other heap' by (auto simp: times_of_def map' split: option.splits)
    then show ?thesis using abs by (simp add: rl_abs_def)
  qed
  ultimately show ?thesis by (simp add: rl_abs_def map')
qed

lemma sweep_fold_ok:
  "\<lbrakk>rl_abs window now st hits; distinct (map fst xs);
    \<forall>ka \<in> set xs. map_of (rl_map st) (fst ka) = Some (snd ka)\<rbrakk>
   \<Longrightarrow> rl_abs window now (foldl (sweep_entry window now) st xs) hits"
proof (induction xs arbitrary: st)
  case (Cons ka xs)
  have "map_of (rl_map st) (fst ka) = Some (snd ka)" using Cons.prems by simp
  from sweep_entry_ok [OF Cons.prems(1) this]
  have step: "rl_abs window now (sweep_entry window now st ka) hits"
    "\<forall>k. k \<noteq> fst ka \<longrightarrow> map_of (rl_map (sweep_entry window now st ka)) k = map_of (rl_map st) k"
    by simp_all
  show ?case using Cons.IH [OF step(1)] step(2) Cons.prems(2,3)
    by (simp add: rev_image_eqI) (metis image_eqI)
qed simp

lemma sweep_refines: "rl_abs window now st hits \<Longrightarrow> rl_abs window now (sweep window now st) hits"
  unfolding sweep_def
  by (rule sweep_fold_ok) (auto simp: rl_abs_def rl_ok_def keys_distinct_def)

lemma rl_run_refines:
  assumes "rl_abs window now (rlm_local l) hits" "rlm_window l = window" "0 < window"
    "sorted (now # map event_time evs)"
  shows "rl_run evs l = Some (spec_run window evs hits)"
  using assms
proof (induction evs arbitrary: now l hits)
  case (Cons ev evs)
  have later: "rl_abs window (event_time ev) (rlm_local l) hits"
    using rl_abs_later Cons.prems(1,4) by simp
  have sorted: "sorted (event_time ev # map event_time evs)" using Cons.prems(4) by simp
  show ?case
  proof (cases ev)
    case (Sweep t)
    then show ?thesis
      using Cons.IH [OF _ _ Cons.prems(3) sorted] sweep_refines [OF later] Cons.prems(2,3)
      by (simp add: cleanup_tick_def)
  next
    case (Hit t key max_hits)
    show ?thesis
    proof (cases "max_hits \<le> 0")
      case True
      then show ?thesis using Cons.IH [OF later Cons.prems(2,3) sorted] Hit
        by (simp add: limiter_allow_def spec_allow_def)
    next
      case False
      then obtain st' where st': "allow_loop key window max_hits t (rlm_local l)
          = Some (fst (spec_allow window key max_hits t hits), st')"
        "rl_abs window t st' (snd (spec_allow window key max_hits t hits))"
        using allow_loop_refines [of window t "rlm_local l" hits max_hits key] later Hit by auto
      then show ?thesis
        using Cons.IH [of t "l\<lparr>rlm_local := st'\<rparr>", OF _ _ Cons.prems(3)] sorted Cons.prems(2) Hit False
        by (simp add: limiter_allow_def split: prod.splits)
    qed
  qed
qed simp

lemma rl_abs_new: "rl_abs window now new_rl_store (\<lambda>_. [])"
  by (simp add: rl_abs_def rl_ok_def new_rl_store_def times_of_def)

section \<open>The budget of the specification\<close>

definition hits_in :: "int \<Rightarrow> int \<Rightarrow> int list \<Rightarrow> int" where
  "hits_in window t ts = int (length (filter (\<lambda>x. t - window < x \<and> x \<le> t) ts))"

definition budget_ok :: "int \<Rightarrow> string \<Rightarrow> int \<Rightarrow> int \<Rightarrow> (string \<Rightarrow> int list) \<Rightarrow> bool" where
  "budget_ok window key n now hits \<longleftrightarrow> (\<forall>x \<in> set (hits key). x \<le> now)
     \<and> (\<forall>t. hits_in window t (hits key) \<le> n)"

lemma hits_in_append: "hits_in window t (xs @ [y]) = hits_in window t xs + of_bool (t - window < y \<and> y \<le> t)"
  by (simp add: hits_in_def)

lemma spec_allow_budget:
  assumes "budget_ok window key n now hits" "now \<le> now'" "k = key \<longrightarrow> m \<le> n" "0 < window"
  shows "budget_ok window key n now' (snd (spec_allow window k m now' hits))"
proof (cases "k = key \<and> 0 < m \<and> int (length (filter (\<lambda>t. now' - window < t) (hits key))) < m")
  case True
  let ?vis = "filter (\<lambda>t. now' - window < t) (hits key)"
  have "hits_in window t (hits key @ [now']) \<le> n" for t
  proof (cases "now' \<le> t \<and> t - window < now'")
    case in_window: True
    have "length (filter (\<lambda>x. t - window < x \<and> x \<le> t) (hits key)) \<le> length ?vis"
      using in_window by (auto simp: length_filter_conv_card intro!: card_mono)
    then show ?thesis using True assms(3) by (simp add: hits_in_append) (simp add: hits_in_def)
  next
    case False
    then show ?thesis using assms(1) by (auto simp: hits_in_append budget_ok_def)
  qed
  then show ?thesis using True assms by (auto simp: spec_allow_def budget_ok_def)
next
  case False
  then have "snd (spec_allow window k m now' hits) key = hits key"
    by (auto simp: spec_allow_def)
  then show ?thesis using assms by (auto simp: budget_ok_def)
qed

definition allowed_times :: "string \<Rightarrow> (string \<times> int \<times> bool) list \<Rightarrow> int list" where
  "allowed_times key outs = map (\<lambda>o3. fst (snd o3)) (filter (\<lambda>o3. fst o3 = key \<and> snd (snd o3)) outs)"

lemma hits_in_nonneg: "0 \<le> hits_in window t ts"
  by (simp add: hits_in_def)

lemma spec_run_budget:
  assumes "budget_ok window key n now hits" "sorted (now # map event_time evs)" "0 < window"
    "\<forall>t m. Hit t key m \<in> set evs \<longrightarrow> 0 < m \<and> m \<le> n"
  shows "hits_in window t (hits key @ allowed_times key (spec_run window evs hits)) \<le> n"
  using assms
proof (induction evs arbitrary: now hits)
  case Nil
  then show ?case by (simp add: allowed_times_def budget_ok_def)
next
  case (Cons ev evs)
  have sorted: "sorted (event_time ev # map event_time evs)" using Cons.prems(2) by simp
  have rest: "\<forall>t m. Hit t key m \<in> set evs \<longrightarrow> 0 < m \<and> m \<le> n" using Cons.prems(4) by simp
  have now: "now \<le> event_time ev" using Cons.prems(2) by simp
  show ?case
  proof (cases ev)
    case (Sweep x)
    have "budget_ok window key n x hits" using Cons.prems(1) now Sweep by (auto simp: budget_ok_def)
    from Cons.IH [OF this _ Cons.prems(3) rest] show ?thesis using sorted Sweep by simp
  next
    case (Hit x k m)
    have km: "k = key \<longrightarrow> m \<le> n" and pos: "k = key \<longrightarrow> 0 < m" using Cons.prems(4) Hit by auto
    let ?h = "snd (spec_allow window k m x hits)"
    have x: "now \<le> x" using now Hit by simp
    have "budget_ok window key n x ?h"
      by (rule spec_allow_budget [OF Cons.prems(1) x km Cons.prems(3)])
    from Cons.IH [OF this _ Cons.prems(3) rest]
    have ih: "hits_in window t (?h key @ allowed_times key (spec_run window evs ?h)) \<le> n"
      using sorted Hit by simp
    have "?h key = hits key @ (if k = key \<and> fst (spec_allow window k m x hits) then [x] else [])"
      using pos by (auto simp: spec_allow_def)
    then show ?thesis using ih Hit
      by (auto simp: allowed_times_def split: prod.splits)
  qed
qed

section \<open>Properties\<close>

text \<open>
  C30. On a single goroutine's schedule with a clock that never goes back, the local limiter
  with its pruning, its deleted entries and its periodic sweeps answers every call exactly as
  the rule that remembers every hit for ever: it always returns, and an eviction never
  changes an answer.
\<close>

theorem local_limiter_refines_window:
  assumes "sorted (map event_time evs)"
  shows "rl_run evs (new_rate_limiter w) = Some (spec_run (rlm_window (new_rate_limiter w)) evs (\<lambda>_. []))"
proof (cases evs)
  case (Cons ev evs')
  show ?thesis
    using assms Cons
    by (intro rl_run_refines [where now = "event_time ev"])
      (auto simp: new_rate_limiter_def rl_abs_new minute_def)
qed simp

lemma local_limiter_refines_window_witness:
  "rl_run [Hit 0 ''a'' 1, Hit 3 ''a'' 1, Sweep 10, Hit 10 ''a'' 1] (new_rate_limiter 10)
     = Some [(''a'', 0, True), (''a'', 3, False), (''a'', 10, True)]"
  using local_limiter_refines_window [of "[Hit 0 ''a'' 1, Hit 3 ''a'' 1, Sweep 10, Hit 10 ''a'' 1]" 10]
  by (simp add: new_rate_limiter_def spec_allow_def)

text \<open>
  The budget: in every window of the limiter's length, ending at any instant, at most
  \<open>n\<close> calls of a key are let through when every call of the key asks with a maximum of at
  most \<open>n\<close>, and the calls always return.
\<close>

theorem window_budget:
  assumes "sorted (map event_time evs)" "\<forall>t m. Hit t key m \<in> set evs \<longrightarrow> 0 < m \<and> m \<le> n" "0 \<le> n"
  shows "\<exists>outs. rl_run evs (new_rate_limiter w) = Some outs
    \<and> (\<forall>t. hits_in (rlm_window (new_rate_limiter w)) t (allowed_times key outs) \<le> n)"
proof (cases evs)
  case Nil
  then show ?thesis using assms(3) by (simp add: allowed_times_def hits_in_def)
next
  case (Cons ev evs')
  let ?w = "rlm_window (new_rate_limiter w)"
  have "rl_run evs (new_rate_limiter w) = Some (spec_run ?w evs (\<lambda>_. []))"
    using assms(1) Cons
    by (intro rl_run_refines [where now = "event_time ev"])
      (auto simp: new_rate_limiter_def rl_abs_new minute_def)
  moreover have "hits_in ?w t ([] @ allowed_times key (spec_run ?w evs (\<lambda>_. []))) \<le> n" for t
    using assms Cons
    by (intro spec_run_budget [where now = "event_time ev" and hits = "\<lambda>_. []"])
      (auto simp: budget_ok_def new_rate_limiter_def minute_def hits_in_def)
  ultimately show ?thesis by simp
qed

lemma window_budget_witness:
  "\<exists>outs. rl_run [Hit 0 ''a'' 2, Hit 3 ''a'' 1, Hit 12 ''b'' 9] (new_rate_limiter 10) = Some outs
    \<and> (\<forall>t. hits_in (rlm_window (new_rate_limiter 10)) t (allowed_times ''a'' outs) \<le> 2)"
  by (rule window_budget) simp_all

text \<open>
  The retry path of \<open>allow\<close> drops the key without looking at the map again. When call A has
  loaded an entry, a sweep deletes it, call B records its hit in a fresh entry and only then
  A takes the lock, A drops B's entry: both calls pass with a maximum of one, at the same
  instant. The sections are those of the code, in an order the locks allow.
\<close>

definition raced_store :: rl_store where
  "raced_store = \<lparr>rl_heap = [\<lparr>ent_times = [0], ent_deleted = False\<rparr>], rl_map = [(''a'', 0)]\<rparr>"

definition race :: "(bool \<times> bool) option" where
  "race = (let (a, s1) = load_or_store ''a'' raced_store; s2 = sweep 10 20 s1 in
     case load_or_store ''a'' s2 of (b, s3) \<Rightarrow>
     (case allow_locked ''a'' 10 1 20 b s3 of
        Inl _ \<Rightarrow> None
      | Inr (okB, s4) \<Rightarrow>
          (case allow_locked ''a'' 10 1 20 a s4 of
             Inr _ \<Rightarrow> None
           | Inl s5 \<Rightarrow> (case load_or_store ''a'' s5 of (c, s6) \<Rightarrow>
               (case allow_locked ''a'' 10 1 20 c s6 of
                  Inl _ \<Rightarrow> None | Inr (okA, _) \<Rightarrow> Some (okB, okA))))))"

lemma race_exceeds_budget: "race = Some (True, True)"
  by code_simp

end
