(* ===== verification/StreamManager.thy ===== *)
theory StreamManager
  imports Prelude "HOL-Library.Sublist"
begin

text \<open>
  The in-memory stream manager (stream/memory_manager.go): per message a list of stream
  events that clients read with resumable offsets and a list of steer events that other
  requests post, update and dismiss while a turn runs; per session the marker of the run that
  is generating. Every operation holds its lock throughout, so a run of the program is a
  sequence of operations.
\<close>

section \<open>State\<close>

text \<open>A value of an event's \<open>Data\<close> map (\<open>interface{}\<close>); only booleans are inspected.\<close>

datatype any_value = VBool bool | VOther string

record stream_event =
  ev_id :: string
  ev_type :: string
  ev_content :: string
  ev_done :: bool
  ev_time :: "int option"
  ev_data :: "(string \<rightharpoonup> any_value) option"

record stream_data =
  str_events :: "stream_event list"
  str_steer :: "stream_event list"
  str_updated :: int

record live_run =
  run_assistant :: string
  run_request :: string

record stream_mgr =
  mgr_streams :: "string \<rightharpoonup> (string \<times> stream_data) list"
  mgr_live :: "string \<rightharpoonup> live_run"

definition new_memory_stream_manager :: stream_mgr where
  "new_memory_stream_manager = \<lparr>mgr_streams = Map.empty, mgr_live = Map.empty\<rparr>"

definition get_stream :: "string \<Rightarrow> string \<Rightarrow> stream_mgr \<Rightarrow> stream_data option" where
  "get_stream s m mgr = (case mgr_streams mgr s of None \<Rightarrow> None | Some sm \<Rightarrow> map_of sm m)"

definition put_stream :: "string \<Rightarrow> string \<Rightarrow> stream_data \<Rightarrow> stream_mgr \<Rightarrow> stream_mgr" where
  "put_stream s m d mgr =
     mgr\<lparr>mgr_streams := (mgr_streams mgr)
       (s \<mapsto> AList.update m d (case mgr_streams mgr s of None \<Rightarrow> [] | Some sm \<Rightarrow> sm))\<rparr>"

definition get_or_create_stream :: "int \<Rightarrow> string \<Rightarrow> string \<Rightarrow> stream_mgr \<Rightarrow> stream_data \<times> stream_mgr" where
  "get_or_create_stream now s m mgr = (case get_stream s m mgr of
       Some d \<Rightarrow> (d, mgr)
     | None \<Rightarrow> (let d = \<lparr>str_events = [], str_steer = [], str_updated = now\<rparr>
                 in (d, put_stream s m d mgr)))"

section \<open>Stream events\<close>

definition stamp :: "int \<Rightarrow> stream_event \<Rightarrow> stream_event" where
  "stamp now e = (if ev_time e = None then e\<lparr>ev_time := Some now\<rparr> else e)"

definition append_event :: "int \<Rightarrow> string \<Rightarrow> string \<Rightarrow> stream_event \<Rightarrow> stream_mgr \<Rightarrow> stream_mgr" where
  "append_event now s m e mgr =
     (let (d, mgr') = get_or_create_stream now s m mgr
      in put_stream s m (d\<lparr>str_events := str_events d @ [stamp now e], str_updated := now\<rparr>) mgr')"

definition reset_events :: "int \<Rightarrow> string \<Rightarrow> string \<Rightarrow> stream_mgr \<Rightarrow> stream_mgr" where
  "reset_events now s m mgr = (case get_stream s m mgr of
       None \<Rightarrow> mgr
     | Some d \<Rightarrow> put_stream s m (d\<lparr>str_events := [], str_updated := now\<rparr>) mgr)"

text \<open>
  The slice \<open>xs[from:]\<close> with the next offset. A negative offset below the length panics
  (\<open>None\<close>); an offset at or past the end is returned unchanged.
\<close>

definition slice_from :: "int \<Rightarrow> 'e list \<Rightarrow> ('e list \<times> int) option" where
  "slice_from from_offset xs =
     (if int (length xs) \<le> from_offset then Some ([], from_offset)
      else if from_offset < 0 then None
      else Some (drop (nat from_offset) xs, int (length xs)))"

definition get_events :: "string \<Rightarrow> string \<Rightarrow> int \<Rightarrow> stream_mgr \<Rightarrow> (stream_event list \<times> int) option" where
  "get_events s m from_offset mgr = (case get_stream s m mgr of
       None \<Rightarrow> Some ([], from_offset)
     | Some d \<Rightarrow> slice_from from_offset (str_events d))"

section \<open>Steer events\<close>

definition append_steer_one ::
    "int \<Rightarrow> stream_event list \<times> string set \<Rightarrow> stream_event \<Rightarrow> stream_event list \<times> string set" where
  "append_steer_one now acc e = (case acc of (evs, seen) \<Rightarrow>
     if ev_id e \<noteq> [] \<and> ev_id e \<in> seen then (evs, seen)
     else (evs @ [stamp now e], insert (ev_id e) seen))"

definition append_steer_list :: "int \<Rightarrow> stream_event list \<Rightarrow> stream_event list \<Rightarrow> stream_event list" where
  "append_steer_list now evs new = fst (foldl (append_steer_one now) (evs, ev_id ` set evs) new)"

definition append_steer_events ::
    "int \<Rightarrow> string \<Rightarrow> string \<Rightarrow> stream_event list \<Rightarrow> stream_mgr \<Rightarrow> stream_mgr" where
  "append_steer_events now s m new mgr =
     (let (d, mgr') = get_or_create_stream now s m mgr
      in put_stream s m (d\<lparr>str_steer := append_steer_list now (str_steer d) new, str_updated := now\<rparr>) mgr')"

definition get_steer_events :: "string \<Rightarrow> string \<Rightarrow> int \<Rightarrow> stream_mgr \<Rightarrow> (stream_event list \<times> int) option" where
  "get_steer_events s m from_offset mgr = (case get_stream s m mgr of
       None \<Rightarrow> Some ([], from_offset)
     | Some d \<Rightarrow> slice_from from_offset (str_steer d))"

definition merge_data :: "(string \<rightharpoonup> any_value) option \<Rightarrow> (string \<rightharpoonup> any_value) \<Rightarrow> (string \<rightharpoonup> any_value) option" where
  "merge_data old new = Some ((case old of None \<Rightarrow> Map.empty | Some d \<Rightarrow> d) ++ new)"

text \<open>The loops of UpdateSteerEventData and DeleteSteerEvent: the first event with the id.\<close>

fun update_steer_list ::
    "string \<Rightarrow> (string \<rightharpoonup> any_value) \<Rightarrow> stream_event list \<Rightarrow> stream_event list \<times> bool" where
  "update_steer_list i new [] = ([], False)"
| "update_steer_list i new (e # es) =
     (if ev_id e \<noteq> i then (let (es', ok) = update_steer_list i new es in (e # es', ok))
      else (e\<lparr>ev_data := merge_data (ev_data e) new\<rparr> # es, True))"

definition update_steer_event_data ::
    "int \<Rightarrow> string \<Rightarrow> string \<Rightarrow> string \<Rightarrow> (string \<rightharpoonup> any_value) \<Rightarrow> stream_mgr \<Rightarrow> bool \<times> stream_mgr" where
  "update_steer_event_data now s m i new mgr = (case get_stream s m mgr of
       None \<Rightarrow> (False, mgr)
     | Some d \<Rightarrow> (let (evs, ok) = update_steer_list i new (str_steer d) in
         if ok then (True, put_stream s m (d\<lparr>str_steer := evs, str_updated := now\<rparr>) mgr)
         else (False, mgr)))"

definition consumed_key :: string where
  "consumed_key = ''consumed''"

definition ev_consumed :: "stream_event \<Rightarrow> bool" where
  "ev_consumed e = (case ev_data e of
       None \<Rightarrow> False
     | Some d \<Rightarrow> (case d consumed_key of Some (VBool b) \<Rightarrow> b | _ \<Rightarrow> False))"

fun delete_steer_list :: "string \<Rightarrow> stream_event list \<Rightarrow> stream_event list \<times> bool" where
  "delete_steer_list i [] = ([], False)"
| "delete_steer_list i (e # es) =
     (if ev_id e \<noteq> i then (let (es', ok) = delete_steer_list i es in (e # es', ok))
      else if ev_consumed e then (e # es, False)
      else (es, True))"

definition delete_steer_event :: "int \<Rightarrow> string \<Rightarrow> string \<Rightarrow> string \<Rightarrow> stream_mgr \<Rightarrow> bool \<times> stream_mgr" where
  "delete_steer_event now s m i mgr = (case get_stream s m mgr of
       None \<Rightarrow> (False, mgr)
     | Some d \<Rightarrow> (let (evs, ok) = delete_steer_list i (str_steer d) in
         if ok then (True, put_stream s m (d\<lparr>str_steer := evs, str_updated := now\<rparr>) mgr)
         else (False, mgr)))"

section \<open>Live runs\<close>

datatype live_error = ErrLiveRunExists

definition set_live_run :: "string \<Rightarrow> string \<Rightarrow> string \<Rightarrow> stream_mgr \<Rightarrow> live_error option \<times> stream_mgr" where
  "set_live_run s a r mgr = (case mgr_live mgr s of
       Some x \<Rightarrow> if run_assistant x \<noteq> a then (Some ErrLiveRunExists, mgr)
                 else (None, mgr\<lparr>mgr_live := (mgr_live mgr)(s \<mapsto> \<lparr>run_assistant = a, run_request = r\<rparr>)\<rparr>)
     | None \<Rightarrow> (None, mgr\<lparr>mgr_live := (mgr_live mgr)(s \<mapsto> \<lparr>run_assistant = a, run_request = r\<rparr>)\<rparr>))"

definition claim_live_run :: "string \<Rightarrow> string \<Rightarrow> string \<Rightarrow> stream_mgr \<Rightarrow> stream_mgr" where
  "claim_live_run s a r mgr = mgr\<lparr>mgr_live := (mgr_live mgr)(s \<mapsto> \<lparr>run_assistant = a, run_request = r\<rparr>)\<rparr>"

definition get_live_run :: "string \<Rightarrow> stream_mgr \<Rightarrow> string \<times> string" where
  "get_live_run s mgr = (case mgr_live mgr s of
       None \<Rightarrow> ([], []) | Some x \<Rightarrow> (run_assistant x, run_request x))"

definition clear_if :: "string \<Rightarrow> string \<Rightarrow> (string \<rightharpoonup> live_run) \<Rightarrow> (string \<rightharpoonup> live_run)" where
  "clear_if s a live = (case live s of
       Some x \<Rightarrow> if run_assistant x = a then live(s := None) else live
     | None \<Rightarrow> live)"

definition clear_live_run :: "string \<Rightarrow> string \<Rightarrow> stream_mgr \<Rightarrow> stream_mgr" where
  "clear_live_run s a mgr = mgr\<lparr>mgr_live := clear_if s a (mgr_live mgr)\<rparr>"

text \<open>
  The two effects of the loop of DropMessageStreams; a session whose map becomes empty is
  dropped.
\<close>

definition drop_one :: "string \<Rightarrow> stream_mgr \<Rightarrow> string \<Rightarrow> stream_mgr" where
  "drop_one s mgr m = mgr\<lparr>
     mgr_streams := (case mgr_streams mgr s of None \<Rightarrow> mgr_streams mgr
                     | Some sm \<Rightarrow> (mgr_streams mgr)(s \<mapsto> AList.delete m sm)),
     mgr_live := clear_if s m (mgr_live mgr)\<rparr>"

definition drop_message_streams :: "string \<Rightarrow> string list \<Rightarrow> stream_mgr \<Rightarrow> stream_mgr" where
  "drop_message_streams s ms mgr =
     (if s = [] \<or> ms = [] then mgr
      else (let mgr' = foldl (drop_one s) mgr ms in
        case mgr_streams mgr' s of
          None \<Rightarrow> mgr'
        | Some sm \<Rightarrow> if sm = [] then mgr'\<lparr>mgr_streams := (mgr_streams mgr')(s := None)\<rparr> else mgr'))"

section \<open>Operations as a trace\<close>

datatype stream_op =
    OAppend int string string stream_event
  | OReset int string string
  | OSteer int string string "stream_event list"
  | OUpdate int string string string "string \<rightharpoonup> any_value"
  | ODelete int string string string
  | OSetLive string string string
  | OClaim string string string
  | OClear string string
  | ODrop string "string list"

fun apply_op :: "stream_op \<Rightarrow> stream_mgr \<Rightarrow> stream_mgr" where
  "apply_op (OAppend now s m e) = append_event now s m e"
| "apply_op (OReset now s m) = reset_events now s m"
| "apply_op (OSteer now s m es) = append_steer_events now s m es"
| "apply_op (OUpdate now s m i new) = (\<lambda>mgr. snd (update_steer_event_data now s m i new mgr))"
| "apply_op (ODelete now s m i) = (\<lambda>mgr. snd (delete_steer_event now s m i mgr))"
| "apply_op (OSetLive s a r) = (\<lambda>mgr. snd (set_live_run s a r mgr))"
| "apply_op (OClaim s a r) = claim_live_run s a r"
| "apply_op (OClear s a) = clear_live_run s a"
| "apply_op (ODrop s ms) = drop_message_streams s ms"

definition apply_ops :: "stream_op list \<Rightarrow> stream_mgr \<Rightarrow> stream_mgr" where
  "apply_ops ops mgr = foldl (\<lambda>st op. apply_op op st) mgr ops"

lemma apply_ops_simps [simp]:
  "apply_ops [] mgr = mgr" "apply_ops (op # ops) mgr = apply_ops ops (apply_op op mgr)"
  "apply_ops (xs @ ys) mgr = apply_ops ys (apply_ops xs mgr)"
  by (simp_all add: apply_ops_def)

text \<open>What a message's lists are, absent streams being empty.\<close>

definition events_at :: "string \<Rightarrow> string \<Rightarrow> stream_mgr \<Rightarrow> stream_event list" where
  "events_at s m mgr = (case get_stream s m mgr of None \<Rightarrow> [] | Some d \<Rightarrow> str_events d)"

definition steer_at :: "string \<Rightarrow> string \<Rightarrow> stream_mgr \<Rightarrow> stream_event list" where
  "steer_at s m mgr = (case get_stream s m mgr of None \<Rightarrow> [] | Some d \<Rightarrow> str_steer d)"

text \<open>Where an operation writes a stream, and what it writes.\<close>

lemma get_put_stream [simp]:
  "get_stream s' m' (put_stream s m d mgr) = (if s' = s \<and> m' = m then Some d else get_stream s' m' mgr)"
  by (auto simp: get_stream_def put_stream_def update_conv' split: option.splits)

lemma live_put_stream [simp]: "mgr_live (put_stream s m d mgr) = mgr_live mgr"
  by (simp add: put_stream_def)

lemma get_or_create_stream_cases:
  assumes "get_or_create_stream now s m mgr = (d, mgr')"
  shows "events_at s m mgr = str_events d" "steer_at s m mgr = str_steer d"
    "get_stream s' m' mgr' = (if s' = s \<and> m' = m then Some d else get_stream s' m' mgr)"
    "mgr_live mgr' = mgr_live mgr"
  using assms by (auto simp: get_or_create_stream_def events_at_def steer_at_def Let_def split: option.splits)

lemma events_append_event [simp]:
  "events_at s m (append_event now s' m' e mgr)
     = events_at s m mgr @ (if s' = s \<and> m' = m then [stamp now e] else [])"
  "steer_at s m (append_event now s' m' e mgr) = steer_at s m mgr"
  "mgr_live (append_event now s' m' e mgr) = mgr_live mgr"
proof -
  obtain d mgr' where g: "get_or_create_stream now s' m' mgr = (d, mgr')" by force
  note c = get_or_create_stream_cases [OF g]
  show "events_at s m (append_event now s' m' e mgr)
     = events_at s m mgr @ (if s' = s \<and> m' = m then [stamp now e] else [])"
    using c by (auto simp: append_event_def g) (auto simp: events_at_def c)
  show "steer_at s m (append_event now s' m' e mgr) = steer_at s m mgr"
    using c by (auto simp: append_event_def g) (auto simp: steer_at_def c)
  show "mgr_live (append_event now s' m' e mgr) = mgr_live mgr"
    by (simp add: append_event_def g c)
qed

lemma steer_append_steer_events [simp]:
  "steer_at s m (append_steer_events now s' m' new mgr)
     = (if s' = s \<and> m' = m then append_steer_list now (steer_at s m mgr) new else steer_at s m mgr)"
  "events_at s m (append_steer_events now s' m' new mgr) = events_at s m mgr"
  "mgr_live (append_steer_events now s' m' new mgr) = mgr_live mgr"
proof -
  obtain d mgr' where g: "get_or_create_stream now s' m' mgr = (d, mgr')" by force
  note c = get_or_create_stream_cases [OF g]
  show "steer_at s m (append_steer_events now s' m' new mgr)
     = (if s' = s \<and> m' = m then append_steer_list now (steer_at s m mgr) new else steer_at s m mgr)"
    using c by (auto simp: append_steer_events_def g) (auto simp: steer_at_def c)
  show "events_at s m (append_steer_events now s' m' new mgr) = events_at s m mgr"
    using c by (auto simp: append_steer_events_def g) (auto simp: events_at_def c)
  show "mgr_live (append_steer_events now s' m' new mgr) = mgr_live mgr"
    by (simp add: append_steer_events_def g c)
qed

lemma reset_events_simps [simp]:
  "events_at s m (reset_events now s' m' mgr) = (if s' = s \<and> m' = m then [] else events_at s m mgr)"
  "steer_at s m (reset_events now s' m' mgr) = steer_at s m mgr"
  "mgr_live (reset_events now s' m' mgr) = mgr_live mgr"
  by (auto simp: reset_events_def events_at_def steer_at_def split: option.splits)

lemma update_steer_list_missing: "\<not> snd (update_steer_list i new es) \<Longrightarrow> fst (update_steer_list i new es) = es"
  by (induction es) (auto split: prod.splits if_splits)

lemma delete_steer_list_missing: "\<not> snd (delete_steer_list i es) \<Longrightarrow> fst (delete_steer_list i es) = es"
  by (induction es) (auto split: prod.splits if_splits)

lemma update_steer_simps [simp]:
  "events_at s m (snd (update_steer_event_data now s' m' i new mgr)) = events_at s m mgr"
  "steer_at s m (snd (update_steer_event_data now s' m' i new mgr))
     = (if s' = s \<and> m' = m then fst (update_steer_list i new (steer_at s m mgr)) else steer_at s m mgr)"
  "mgr_live (snd (update_steer_event_data now s' m' i new mgr)) = mgr_live mgr"
  using update_steer_list_missing
  by (auto simp: update_steer_event_data_def events_at_def steer_at_def split: option.splits prod.splits)
    (metis fst_conv snd_conv)+

lemma delete_steer_simps [simp]:
  "events_at s m (snd (delete_steer_event now s' m' i mgr)) = events_at s m mgr"
  "steer_at s m (snd (delete_steer_event now s' m' i mgr))
     = (if s' = s \<and> m' = m then fst (delete_steer_list i (steer_at s m mgr)) else steer_at s m mgr)"
  "mgr_live (snd (delete_steer_event now s' m' i mgr)) = mgr_live mgr"
  using delete_steer_list_missing
  by (auto simp: delete_steer_event_def events_at_def steer_at_def split: option.splits prod.splits)
    (metis fst_conv snd_conv)+

lemma live_ops_streams [simp]:
  "get_stream s m (snd (set_live_run s' a r mgr)) = get_stream s m mgr"
  "get_stream s m (claim_live_run s' a r mgr) = get_stream s m mgr"
  "get_stream s m (clear_live_run s' a mgr) = get_stream s m mgr"
  by (auto simp: get_stream_def set_live_run_def claim_live_run_def clear_live_run_def split: option.splits)

lemma live_ops_lists [simp]:
  "events_at s m (snd (set_live_run s' a r mgr)) = events_at s m mgr"
  "events_at s m (claim_live_run s' a r mgr) = events_at s m mgr"
  "events_at s m (clear_live_run s' a mgr) = events_at s m mgr"
  "steer_at s m (snd (set_live_run s' a r mgr)) = steer_at s m mgr"
  "steer_at s m (claim_live_run s' a r mgr) = steer_at s m mgr"
  "steer_at s m (clear_live_run s' a mgr) = steer_at s m mgr"
  by (simp_all add: events_at_def steer_at_def)

lemma get_stream_drop_one:
  "get_stream s' m' (drop_one s mgr m) = (if s' = s \<and> m' = m then None else get_stream s' m' mgr)"
  by (auto simp: drop_one_def get_stream_def delete_conv' split: option.splits)

lemma get_stream_drop_fold:
  "get_stream s' m' (foldl (drop_one s) mgr ms) = (if s' = s \<and> m' \<in> set ms then None else get_stream s' m' mgr)"
  by (induction ms arbitrary: mgr) (auto simp: get_stream_drop_one)

lemma get_stream_drop:
  "get_stream s' m' (drop_message_streams s ms mgr)
     = (if s' = s \<and> s \<noteq> [] \<and> m' \<in> set ms then None else get_stream s' m' mgr)"
proof -
  let ?m = "foldl (drop_one s) mgr ms"
  have "get_stream s' m' (?m\<lparr>mgr_streams := (mgr_streams ?m)(s := None)\<rparr>) = get_stream s' m' ?m"
    if "mgr_streams ?m s = Some []"
    using that by (auto simp: get_stream_def)
  then show ?thesis
    using get_stream_drop_fold [of s' m' s mgr ms]
    by (auto simp: drop_message_streams_def Let_def split: option.splits)
qed

lemma live_drop_fold:
  "mgr_live (foldl (drop_one s) mgr ms) = foldl (\<lambda>live m. clear_if s m live) (mgr_live mgr) ms"
  by (induction ms arbitrary: mgr) (simp_all add: drop_one_def)

section \<open>Readers\<close>

text \<open>
  A client that reads with the offset its last read returned, while operations happen in
  between (\<open>None\<close> is a read). The result is what it received and its next offset.
\<close>

fun reader_run ::
    "(int \<Rightarrow> 'st \<Rightarrow> ('e list \<times> int) option) \<Rightarrow> ('op \<Rightarrow> 'st \<Rightarrow> 'st) \<Rightarrow> 'op option list \<Rightarrow>
     'st \<times> 'e list \<times> int \<Rightarrow> ('st \<times> 'e list \<times> int) option" where
  "reader_run rd step [] w = Some w"
| "reader_run rd step (None # t) w = (case w of (st, got, n) \<Rightarrow>
     (case rd n st of None \<Rightarrow> None | Some (es, n') \<Rightarrow> reader_run rd step t (st, got @ es, n')))"
| "reader_run rd step (Some op # t) w = (case w of (st, got, n) \<Rightarrow> reader_run rd step t (step op st, got, n))"

text \<open>
  The contract of a list read by offset: permitted operations only append to it and a read
  at a non-negative offset is the slice from there.
\<close>

locale resumable_log =
  fixes view :: "'st \<Rightarrow> 'e list"
    and step :: "'op \<Rightarrow> 'st \<Rightarrow> 'st"
    and keeps :: "'op \<Rightarrow> bool"
    and added :: "'op \<Rightarrow> 'st \<Rightarrow> 'e list"
    and rd :: "int \<Rightarrow> 'st \<Rightarrow> ('e list \<times> int) option"
  assumes grows: "keeps op \<Longrightarrow> view (step op st) = view st @ added op st"
    and reads: "0 \<le> n \<Longrightarrow> rd n st = slice_from n (view st)"
begin

lemma reader_received:
  assumes "\<forall>op. Some op \<in> set t \<longrightarrow> keeps op" "prefix got (view st)"
  shows "\<exists>st' got'. reader_run rd step t (st, got, int (length got)) = Some (st', got', int (length got'))
    \<and> prefix got' (view st')"
  using assms
proof (induction t arbitrary: st got)
  case (Cons a t)
  have rest: "\<forall>op. Some op \<in> set t \<longrightarrow> keeps op" using Cons.prems(1) by simp
  show ?case
  proof (cases a)
    case None
    obtain es where es: "view st = got @ es" using Cons.prems(2) by (auto simp: prefix_def)
    have r: "rd (int (length got)) st = Some (es, int (length (view st)))"
      by (simp add: reads slice_from_def es)
    then show ?thesis
      using Cons.IH [OF rest, of "view st" st] None es by simp
  next
    case (Some op)
    have "prefix got (view (step op st))"
      using grows Cons.prems Some by simp
    then show ?thesis using Cons.IH [OF rest] Some by simp
  qed
qed auto

lemma reader_run_append:
  "reader_run rd step (t @ u) w = (case reader_run rd step t w of None \<Rightarrow> None | Some w' \<Rightarrow> reader_run rd step u w')"
proof (induction t arbitrary: w)
  case (Cons a t)
  then show ?case by (cases a; cases w) (auto split: option.splits)
qed simp

text \<open>A reader that started at offset zero and reads last has received the whole list, once.\<close>

lemma reader_complete:
  assumes "\<forall>op. Some op \<in> set t \<longrightarrow> keeps op"
  shows "\<exists>st'. reader_run rd step (t @ [None]) (st, [], 0) = Some (st', view st', int (length (view st')))"
proof -
  obtain st' got where run: "reader_run rd step t (st, [], 0) = Some (st', got, int (length got))"
    and got: "prefix got (view st')"
    using reader_received [OF assms, of "[]" st] by auto
  then obtain es where "view st' = got @ es" by (auto simp: prefix_def)
  then have "rd (int (length got)) st' = Some (es, int (length (view st')))" "got @ es = view st'"
    by (simp_all add: reads slice_from_def)
  then show ?thesis using run by (simp add: reader_run_append)
qed

end

lemma reader_run_state:
  "reader_run rd step t (st, got, n) = Some (st', got', n')
     \<Longrightarrow> st' = foldl (\<lambda>st op. step op st) st (map the (filter (\<lambda>x. x \<noteq> None) t))"
proof (induction t arbitrary: st got n)
  case (Cons a t)
  then show ?case by (cases a) (auto split: option.splits)
qed simp

text \<open>Both lists of a message are such logs, for the operations that do not rewrite them.\<close>

fun keeps_events :: "string \<Rightarrow> string \<Rightarrow> stream_op \<Rightarrow> bool" where
  "keeps_events s m (OReset now s' m') \<longleftrightarrow> \<not> (s' = s \<and> m' = m)"
| "keeps_events s m (ODrop s' ms) \<longleftrightarrow> \<not> (s' = s \<and> m \<in> set ms)"
| "keeps_events s m _ \<longleftrightarrow> True"

fun added_events :: "string \<Rightarrow> string \<Rightarrow> stream_op \<Rightarrow> stream_event list" where
  "added_events s m (OAppend now s' m' e) = (if s' = s \<and> m' = m then [stamp now e] else [])"
| "added_events s m _ = []"

fun keeps_steer :: "string \<Rightarrow> string \<Rightarrow> stream_op \<Rightarrow> bool" where
  "keeps_steer s m (OUpdate now s' m' i new) \<longleftrightarrow> \<not> (s' = s \<and> m' = m)"
| "keeps_steer s m (ODelete now s' m' i) \<longleftrightarrow> \<not> (s' = s \<and> m' = m)"
| "keeps_steer s m (ODrop s' ms) \<longleftrightarrow> \<not> (s' = s \<and> m \<in> set ms)"
| "keeps_steer s m _ \<longleftrightarrow> True"

lemma append_steer_fold:
  "\<exists>added. fst (foldl (append_steer_one now) (evs, seen) new) = evs @ added"
proof (induction new arbitrary: evs seen)
  case (Cons e new)
  show ?case
    using Cons.IH [of "evs @ [stamp now e]" "insert (ev_id e) seen"] Cons.IH [of evs seen]
    by (auto simp: append_steer_one_def)
qed simp

fun added_steer :: "string \<Rightarrow> string \<Rightarrow> stream_op \<Rightarrow> stream_mgr \<Rightarrow> stream_event list" where
  "added_steer s m (OSteer now s' m' new) mgr = (if s' = s \<and> m' = m
     then drop (length (steer_at s m mgr)) (append_steer_list now (steer_at s m mgr) new) else [])"
| "added_steer s m _ mgr = []"

lemma events_at_drop:
  "\<not> (s' = s \<and> m \<in> set ms) \<Longrightarrow> events_at s m (drop_message_streams s' ms mgr) = events_at s m mgr"
  "\<not> (s' = s \<and> m \<in> set ms) \<Longrightarrow> steer_at s m (drop_message_streams s' ms mgr) = steer_at s m mgr"
  by (auto simp: events_at_def steer_at_def get_stream_drop)

lemma events_at_step: "keeps_events s m op \<Longrightarrow> events_at s m (apply_op op mgr) = events_at s m mgr @ added_events s m op"
  by (cases op) (auto simp: events_at_drop)

lemma steer_at_step: "keeps_steer s m op \<Longrightarrow> steer_at s m (apply_op op mgr) = steer_at s m mgr @ added_steer s m op mgr"
proof (cases op)
  case (OSteer now s' m' new)
  then show ?thesis
    using append_steer_fold [of now "steer_at s m mgr" "ev_id ` set (steer_at s m mgr)" new]
    by (auto simp: append_steer_list_def)
qed (auto simp: events_at_drop)

lemma get_events_slice: "0 \<le> n \<Longrightarrow> get_events s m n mgr = slice_from n (events_at s m mgr)"
  by (auto simp: get_events_def events_at_def slice_from_def split: option.splits)

lemma get_steer_events_slice: "0 \<le> n \<Longrightarrow> get_steer_events s m n mgr = slice_from n (steer_at s m mgr)"
  by (auto simp: get_steer_events_def steer_at_def slice_from_def split: option.splits)

interpretation event_log: resumable_log "events_at s m" apply_op "keeps_events s m"
    "\<lambda>op _. added_events s m op" "get_events s m" for s m
  by (unfold_locales; (rule events_at_step get_events_slice; assumption))

interpretation steer_log: resumable_log "steer_at s m" apply_op "keeps_steer s m"
    "added_steer s m" "get_steer_events s m" for s m
  by (unfold_locales; (rule steer_at_step get_steer_events_slice; assumption))

lemma events_at_ops:
  "\<forall>op \<in> set ops. keeps_events s m op \<Longrightarrow>
   events_at s m (foldl (\<lambda>st op. apply_op op st) mgr ops) = events_at s m mgr @ concat (map (added_events s m) ops)"
  by (induction ops arbitrary: mgr) (auto simp: events_at_step)

section \<open>Steer ids\<close>

definition named_ids :: "stream_event list \<Rightarrow> string list" where
  "named_ids es = filter (\<lambda>i. i \<noteq> []) (map ev_id es)"

lemma named_ids_simps [simp]:
  "named_ids [] = []" "named_ids (xs @ ys) = named_ids xs @ named_ids ys"
  "named_ids (e # es) = (if ev_id e = [] then named_ids es else ev_id e # named_ids es)"
  by (simp_all add: named_ids_def)

lemma set_named_ids: "set (named_ids es) = ev_id ` set es - {[]}"
  by (auto simp: named_ids_def)

lemma stamp_simps [simp]: "ev_id (stamp now e) = ev_id e" "ev_data (stamp now e) = ev_data e"
  by (simp_all add: stamp_def)

lemma append_steer_ids:
  assumes "distinct (named_ids evs)" "seen = ev_id ` set evs"
  shows "distinct (named_ids (fst (foldl (append_steer_one now) (evs, seen) new)))"
  using assms
proof (induction new arbitrary: evs seen)
  case (Cons e new)
  show ?case
  proof (cases "ev_id e \<noteq> [] \<and> ev_id e \<in> seen")
    case True
    then show ?thesis using Cons by (simp add: append_steer_one_def)
  next
    case False
    have "distinct (named_ids (evs @ [stamp now e]))"
      using Cons.prems False by (auto simp: set_named_ids)
    then show ?thesis
      using Cons.IH [of "evs @ [stamp now e]" "insert (ev_id e) seen"] Cons.prems(2) False
      by (auto simp: append_steer_one_def)
  qed
qed simp

lemma update_steer_ids: "map ev_id (fst (update_steer_list i new es)) = map ev_id es"
  by (induction es) (auto split: prod.splits)

lemma delete_steer_ids: "subseq (map ev_id (fst (delete_steer_list i es))) (map ev_id es)"
  by (induction es) (auto split: prod.splits)

lemma subseq_named_ids: "subseq (map ev_id xs) (map ev_id ys) \<Longrightarrow> subseq (named_ids xs) (named_ids ys)"
  unfolding named_ids_def by (rule subseq_filter)

lemma distinct_subseq: "subseq xs ys \<Longrightarrow> distinct ys \<Longrightarrow> distinct xs"
  by (induction rule: list_emb.induct) (auto dest: list_emb_set)

definition steer_ok :: "stream_mgr \<Rightarrow> bool" where
  "steer_ok mgr \<longleftrightarrow> (\<forall>s m. distinct (named_ids (steer_at s m mgr)))"

lemma steer_at_drop:
  "steer_at s m (drop_message_streams s' ms mgr)
     = (if s = s' \<and> s' \<noteq> [] \<and> m \<in> set ms then [] else steer_at s m mgr)"
  by (auto simp: steer_at_def get_stream_drop)

lemma steer_ok_step: "steer_ok mgr \<Longrightarrow> steer_ok (apply_op op mgr)"
proof (cases op)
  case (OSteer now s m new)
  then show "steer_ok mgr \<Longrightarrow> ?thesis"
    by (auto simp: steer_ok_def append_steer_list_def intro: append_steer_ids)
next
  case (OUpdate now s m i new)
  then show "steer_ok mgr \<Longrightarrow> ?thesis"
    by (auto simp: steer_ok_def named_ids_def update_steer_ids)
next
  case (ODelete now s m i)
  then show "steer_ok mgr \<Longrightarrow> ?thesis"
    using distinct_subseq [OF subseq_named_ids [OF delete_steer_ids]]
    by (auto simp: steer_ok_def)
qed (auto simp: steer_ok_def steer_at_drop)

lemma steer_ok_ops: "steer_ok (apply_ops ops new_memory_stream_manager)"
  unfolding apply_ops_def
  by (rule foldl_inv [where I = steer_ok])
    (simp_all add: steer_ok_step, simp add: steer_ok_def steer_at_def get_stream_def new_memory_stream_manager_def)

text \<open>A consumed event of a list survives every operation but an explicit unmarking.\<close>

definition consumed_in :: "string \<Rightarrow> stream_event list \<Rightarrow> bool" where
  "consumed_in i es \<longleftrightarrow> (\<exists>e \<in> set es. ev_id e = i \<and> ev_consumed e)"

lemma consumed_in_simps [simp]:
  "\<not> consumed_in i []" "consumed_in i (xs @ ys) \<longleftrightarrow> consumed_in i xs \<or> consumed_in i ys"
  "consumed_in i (e # es) \<longleftrightarrow> ev_id e = i \<and> ev_consumed e \<or> consumed_in i es"
  by (auto simp: consumed_in_def)

lemma consumed_append_steer: "consumed_in i evs \<Longrightarrow> consumed_in i (append_steer_list now evs new)"
  using append_steer_fold [of now evs "ev_id ` set evs" new] by (auto simp: append_steer_list_def)

lemma ev_consumed_merge:
  "ev_consumed e \<Longrightarrow> new consumed_key = None \<or> new consumed_key = Some (VBool True)
     \<Longrightarrow> ev_consumed (e\<lparr>ev_data := merge_data (ev_data e) new\<rparr>)"
  by (auto simp: ev_consumed_def merge_data_def map_add_def split: option.splits)

lemma consumed_update:
  "consumed_in i es \<Longrightarrow> j = i \<longrightarrow> new consumed_key = None \<or> new consumed_key = Some (VBool True)
     \<Longrightarrow> consumed_in i (fst (update_steer_list j new es))"
  by (induction es) (auto simp: ev_consumed_merge split: prod.splits)

lemma consumed_in_named: "consumed_in i es \<Longrightarrow> i \<noteq> [] \<Longrightarrow> i \<in> set (named_ids es)"
  by (auto simp: consumed_in_def set_named_ids)

lemma consumed_delete:
  "consumed_in i es \<Longrightarrow> i \<noteq> [] \<Longrightarrow> distinct (named_ids es) \<Longrightarrow> consumed_in i (fst (delete_steer_list j es))"
proof (induction es)
  case (Cons e es)
  show ?case
  proof (cases "ev_id e = j")
    case True
    show ?thesis
    proof (cases "ev_id e = i \<and> \<not> ev_consumed e")
      case bad: True
      then have "consumed_in i es" using Cons.prems(1) by auto
      then have "i \<in> set (named_ids es)" using consumed_in_named Cons.prems(2) by blast
      then show ?thesis using Cons.prems(2,3) bad by auto
    next
      case False
      then show ?thesis using Cons.prems True by auto
    qed
  next
    case False
    then show ?thesis using Cons by (auto split: prod.splits if_splits)
  qed
qed simp

fun keeps_consumed :: "string \<Rightarrow> string \<Rightarrow> string \<Rightarrow> stream_op \<Rightarrow> bool" where
  "keeps_consumed s m i (OUpdate now s' m' j new) \<longleftrightarrow>
     (s' = s \<and> m' = m \<and> j = i \<longrightarrow> new consumed_key = None \<or> new consumed_key = Some (VBool True))"
| "keeps_consumed s m i (ODrop s' ms) \<longleftrightarrow> \<not> (s' = s \<and> m \<in> set ms)"
| "keeps_consumed s m i _ \<longleftrightarrow> True"

lemma consumed_step:
  assumes "steer_ok mgr" "consumed_in i (steer_at s m mgr)" "i \<noteq> []" "keeps_consumed s m i op"
  shows "consumed_in i (steer_at s m (apply_op op mgr))"
proof (cases op)
  case (OSteer now s' m' new)
  then show ?thesis using assms by (simp add: consumed_append_steer)
next
  case (OUpdate now s' m' j new)
  then show ?thesis using assms by (auto intro: consumed_update)
next
  case (ODelete now s' m' j)
  then show ?thesis using assms by (auto simp: steer_ok_def intro: consumed_delete)
qed (use assms in \<open>auto simp: steer_at_drop\<close>)

section \<open>The live run\<close>

fun keeps_live :: "string \<Rightarrow> string \<Rightarrow> stream_op \<Rightarrow> bool" where
  "keeps_live s a (OClaim s' a' r) \<longleftrightarrow> (s' = s \<longrightarrow> a' = a)"
| "keeps_live s a (OClear s' a') \<longleftrightarrow> \<not> (s' = s \<and> a' = a)"
| "keeps_live s a (ODrop s' ms) \<longleftrightarrow> \<not> (s' = s \<and> a \<in> set ms)"
| "keeps_live s a _ \<longleftrightarrow> True"

definition live_is :: "string \<Rightarrow> string \<Rightarrow> stream_mgr \<Rightarrow> bool" where
  "live_is s a mgr \<longleftrightarrow> (\<exists>x. mgr_live mgr s = Some x \<and> run_assistant x = a)"

lemma clear_if_other: "s' \<noteq> s \<Longrightarrow> clear_if s' m live s = live s"
  by (auto simp: clear_if_def split: option.splits)

lemma clear_if_keeps: "live s = Some x \<Longrightarrow> run_assistant x \<noteq> m \<Longrightarrow> clear_if s' m live s = Some x"
  by (auto simp: clear_if_def split: option.splits)

lemma clear_fold_keeps:
  "live s = Some x \<Longrightarrow> s' = s \<longrightarrow> run_assistant x \<notin> set ms \<Longrightarrow> foldl (\<lambda>l m. clear_if s' m l) live ms s = Some x"
proof (induction ms arbitrary: live)
  case (Cons m ms)
  have "clear_if s' m live s = Some x"
    using Cons.prems clear_if_other [of s' s m live] clear_if_keeps [of live s x m s'] by auto
  then show ?case using Cons.IH Cons.prems(2) by simp
qed simp

lemma live_drop:
  "mgr_live (drop_message_streams s ms mgr)
     = (if s = [] then mgr_live mgr else foldl (\<lambda>live m. clear_if s m live) (mgr_live mgr) ms)"
  by (auto simp: drop_message_streams_def Let_def live_drop_fold split: option.splits)

lemma live_step:
  assumes "live_is s a mgr" "keeps_live s a op"
  shows "live_is s a (apply_op op mgr)"
proof (cases op)
  case (OSetLive s' a' r)
  then show ?thesis using assms by (auto simp: live_is_def set_live_run_def split: option.splits)
next
  case (OClaim s' a' r)
  then show ?thesis using assms by (auto simp: live_is_def claim_live_run_def)
next
  case (OClear s' a')
  then show ?thesis using assms
    by (auto simp: live_is_def clear_live_run_def clear_if_def split: option.splits)
next
  case (ODrop s' ms)
  then show ?thesis using assms clear_fold_keeps
    by (fastforce simp: live_is_def live_drop)
qed (use assms in \<open>auto simp: live_is_def\<close>)

lemma live_ops: "live_is s a mgr \<Longrightarrow> \<forall>op \<in> set ops. keeps_live s a op \<Longrightarrow> live_is s a (apply_ops ops mgr)"
  unfolding apply_ops_def by (rule foldl_inv [where I = "live_is s a"]) (auto simp: live_step)

section \<open>Properties\<close>

text \<open>
  C31. Resumable reading: a client that starts at offset zero and always continues with the
  offset its last read returned has, after a read, received every event appended to the
  message exactly once and in order, whatever other operations of the manager happened in
  between, as long as the message was neither reset nor dropped. No read panics.
\<close>

theorem reader_receives_every_event_once:
  assumes "\<forall>op. Some op \<in> set t \<longrightarrow> keeps_events s m op"
  shows "\<exists>st'. reader_run (get_events s m) apply_op (t @ [None]) (mgr, [], 0)
    = Some (st', events_at s m mgr @ concat (map (added_events s m) (map the (filter (\<lambda>x. x \<noteq> None) t))),
        int (length (events_at s m mgr @ concat (map (added_events s m) (map the (filter (\<lambda>x. x \<noteq> None) t))))))"
proof -
  obtain st' where r: "reader_run (get_events s m) apply_op (t @ [None]) (mgr, [], 0)
      = Some (st', events_at s m st', int (length (events_at s m st')))"
    using event_log.reader_complete [OF assms] by blast
  moreover have "events_at s m st'
      = events_at s m mgr @ concat (map (added_events s m) (map the (filter (\<lambda>x. x \<noteq> None) t)))"
    using reader_run_state [OF r] assms by (auto simp: events_at_ops)
  ultimately show ?thesis by simp
qed

definition demo_event :: "string \<Rightarrow> stream_event" where
  "demo_event i = \<lparr>ev_id = i, ev_type = ''answer'', ev_content = i, ev_done = False, ev_time = Some 1, ev_data = None\<rparr>"

lemma reader_receives_every_event_once_witness:
  "\<exists>st'. reader_run (get_events ''s'' ''m'') apply_op
      ([Some (OAppend 1 ''s'' ''m'' (demo_event ''a'')), None, Some (OAppend 2 ''s'' ''m'' (demo_event ''b''))] @ [None])
      (new_memory_stream_manager, [], 0)
    = Some (st', [demo_event ''a'', demo_event ''b''], 2)"
  using reader_receives_every_event_once
    [of "[Some (OAppend 1 ''s'' ''m'' (demo_event ''a'')), None, Some (OAppend 2 ''s'' ''m'' (demo_event ''b''))]"
      "''s''" "''m''" new_memory_stream_manager]
  by (simp add: events_at_def get_stream_def new_memory_stream_manager_def stamp_def demo_event_def)

text \<open>
  Steer events: in every state the manager can reach the non-empty ids of a message's
  queue are distinct, and an event marked consumed stays in the queue, still marked, through
  every further operation except dropping its message or writing its mark back; DeleteSteerEvent
  in particular never removes it.
\<close>

theorem consumed_steer_event_stays:
  assumes "consumed_in i (steer_at s m (apply_ops before new_memory_stream_manager))" "i \<noteq> []"
    "\<forall>op \<in> set after. keeps_consumed s m i op"
  shows "distinct (named_ids (steer_at s m (apply_ops (before @ after) new_memory_stream_manager)))
    \<and> consumed_in i (steer_at s m (apply_ops (before @ after) new_memory_stream_manager))"
proof -
  let ?I = "\<lambda>mgr. steer_ok mgr \<and> consumed_in i (steer_at s m mgr)"
  have "?I (apply_ops after (apply_ops before new_memory_stream_manager))"
    unfolding apply_ops_def [of after]
    by (rule foldl_inv [where I = ?I]) (use assms steer_ok_ops steer_ok_step consumed_step in auto)
  then show ?thesis by (simp add: steer_ok_def)
qed

lemma consumed_steer_event_stays_witness:
  "let before = [OSteer 1 ''s'' ''m'' [demo_event ''a'', demo_event ''b''],
                 OUpdate 2 ''s'' ''m'' ''a'' [consumed_key \<mapsto> VBool True]];
       after = [ODelete 3 ''s'' ''m'' ''a'', ODelete 3 ''s'' ''m'' ''b''];
       mgr = apply_ops (before @ after) new_memory_stream_manager
   in distinct (named_ids (steer_at ''s'' ''m'' mgr)) \<and> consumed_in ''a'' (steer_at ''s'' ''m'' mgr)"
  unfolding Let_def
proof (rule consumed_steer_event_stays)
  have "steer_at ''s'' ''m'' new_memory_stream_manager = []"
    by (simp add: steer_at_def get_stream_def new_memory_stream_manager_def)
  then show "consumed_in ''a'' (steer_at ''s'' ''m'' (apply_ops [OSteer 1 ''s'' ''m'' [demo_event ''a'', demo_event ''b''],
      OUpdate 2 ''s'' ''m'' ''a'' [consumed_key \<mapsto> VBool True]] new_memory_stream_manager))"
    by (simp add: append_steer_list_def append_steer_one_def demo_event_def ev_consumed_def merge_data_def)
qed simp_all

text \<open>
  One live run per session: once SetLiveRun succeeded for an assistant message, any other
  message is refused with ErrLiveRunExists, whatever happens in between, until a claim hands
  the session over, the same message clears its marker or is dropped.
\<close>

theorem live_run_is_exclusive:
  assumes "set_live_run s a r mgr = (None, mgr')" "\<forall>op \<in> set ops. keeps_live s a op" "b \<noteq> a"
  shows "fst (get_live_run s (apply_ops ops mgr')) = a
    \<and> set_live_run s b q (apply_ops ops mgr') = (Some ErrLiveRunExists, apply_ops ops mgr')"
proof -
  have "live_is s a mgr'"
    using assms(1) by (auto simp: set_live_run_def live_is_def split: option.splits if_splits)
  then have "live_is s a (apply_ops ops mgr')" using assms(2) live_ops by blast
  then show ?thesis using assms(3)
    by (auto simp: live_is_def get_live_run_def set_live_run_def)
qed

lemma live_run_is_exclusive_witness:
  "set_live_run ''s'' ''b'' ''q'' (apply_ops [OClear ''s'' ''b'', ODrop ''s'' [''z'']]
      (snd (set_live_run ''s'' ''a'' ''r'' new_memory_stream_manager)))
    = (Some ErrLiveRunExists, apply_ops [OClear ''s'' ''b'', ODrop ''s'' [''z'']]
      (snd (set_live_run ''s'' ''a'' ''r'' new_memory_stream_manager)))"
proof (rule live_run_is_exclusive [THEN conjunct2])
  show "set_live_run ''s'' ''a'' ''r'' new_memory_stream_manager
    = (None, snd (set_live_run ''s'' ''a'' ''r'' new_memory_stream_manager))"
    by (simp add: set_live_run_def new_memory_stream_manager_def)
qed simp_all

end
