(* ===== verification/CompactText.thy ===== *)
theory CompactText
  imports GoStrings
begin

text \<open>
  The text side of context compaction (agent/compaction: serialize.go, fileops.go,
  fallback.go) and the token estimator it measures with (agent/token/estimator.go): messages,
  their transcript, the file-operation block that every summary carries, and the raw archive
  used when the summarizer fails. The BPE codec, the float scaling and the JSON decoding of
  provider blobs and tool arguments are fields of \<open>estimator\<close> and \<open>json_fns\<close>.
\<close>

section \<open>Messages\<close>

record tool_call =
  tc_id :: string
  tc_name :: string
  tc_args :: string
  tc_meta :: "(string \<times> string) list"

record content_part =
  cp_type :: string
  cp_text :: string
  cp_image :: bool

record chat_msg =
  msg_role :: string
  msg_content :: string
  msg_multi :: "content_part list"
  msg_name :: string
  msg_call_id :: string
  msg_calls :: "tool_call list"
  msg_images :: nat
  msg_reasoning :: string
  msg_signature :: string
  msg_meta :: "(string \<times> string) list"
  msg_kind :: string
  msg_turn :: string

definition role_system :: string where "role_system = ''system''"
definition role_user :: string where "role_user = ''user''"
definition role_assistant :: string where "role_assistant = ''assistant''"
definition role_tool :: string where "role_tool = ''tool''"
definition kind_summary :: string where "kind_summary = ''compaction_summary''"

lemma roles_distinct [simp]:
  "role_system \<noteq> role_user" "role_system \<noteq> role_tool" "role_user \<noteq> role_tool"
  "role_assistant \<noteq> role_tool" "role_user \<noteq> role_assistant" "role_system \<noteq> role_assistant"
  "role_user \<noteq> role_system" "role_tool \<noteq> role_system" "role_tool \<noteq> role_user"
  "role_tool \<noteq> role_assistant" "role_assistant \<noteq> role_user" "role_assistant \<noteq> role_system"
  by (simp_all add: role_system_def role_user_def role_tool_def role_assistant_def)

text \<open>\<open>messageText\<close>.\<close>

definition message_text :: "chat_msg \<Rightarrow> string" where
  "message_text m = (if msg_multi m = [] then msg_content m
     else concat (map cp_text (filter (\<lambda>p. cp_type p = ''text'') (msg_multi m))))"

section \<open>Token estimation\<close>

text \<open>
  \<open>est_codec\<close> counts the tokens of a text or fails, \<open>est_scale\<close> is the multiplication by the
  learned factor with its rounding (absent at scale one), \<open>est_thinking\<close> tells whether the
  Anthropic thinking blocks decode.
\<close>

record estimator =
  est_codec :: "string \<Rightarrow> nat option"
  est_scale :: "(int \<Rightarrow> int) option"
  est_thinking :: "string \<Rightarrow> bool"

definition estimate_string :: "estimator \<Rightarrow> string \<Rightarrow> int" where
  "estimate_string e s = (if s = [] then 0 else
     let count = (case est_codec e s of Some n \<Rightarrow> int n | None \<Rightarrow> (int (length s) + 3) div 4)
     in case est_scale e of None \<Rightarrow> count | Some f \<Rightarrow> f count)"

definition estimate_metadata :: "estimator \<Rightarrow> (string \<times> string) list \<Rightarrow> int" where
  "estimate_metadata e md = sum_list (map (\<lambda>(k, v). estimate_string e k + estimate_string e v) md)"

definition thinking_blocks_key :: string where
  "thinking_blocks_key = ''anthropic_thinking_blocks''"

definition redacted_key :: string where
  "redacted_key = ''anthropic_redacted_thinking''"

text \<open>\<open>strings.Cut(sig, ":")\<close>: the payload after the protocol tag.\<close>

definition signature_payload :: "string \<Rightarrow> string" where
  "signature_payload sig = (case str_index [CHR 0x3A] sig of None \<Rightarrow> sig | Some i \<Rightarrow> drop (i + 1) sig)"

definition estimate_reasoning :: "estimator \<Rightarrow> chat_msg \<Rightarrow> int \<times> int" where
  "estimate_reasoning e m =
     (let raw = (case map_of (msg_meta m) thinking_blocks_key of None \<Rightarrow> [] | Some r \<Rightarrow> r) in
      if raw \<noteq> [] \<and> est_thinking e raw
      then (0, estimate_metadata e (filter (\<lambda>kv. fst kv \<noteq> redacted_key) (msg_meta m)))
      else (estimate_string e (msg_reasoning m),
            (if msg_signature m = [] then 0 else estimate_string e (signature_payload (msg_signature m)))
              + estimate_metadata e (msg_meta m)))"

definition estimate_image_parts :: "estimator \<Rightarrow> chat_msg \<Rightarrow> int" where
  "estimate_image_parts e m = (if msg_multi m = [] then int (msg_images m) * 1200
     else sum_list (map (\<lambda>p. if cp_image p \<or> cp_type p = ''image_url'' then 1200
                             else estimate_string e (cp_text p)) (msg_multi m)))"

definition estimate_call :: "estimator \<Rightarrow> tool_call \<Rightarrow> int" where
  "estimate_call e tc = estimate_string e (tc_name tc) + estimate_string e (tc_args tc)
     + estimate_metadata e (tc_meta tc) + 4"

definition estimate_message :: "estimator \<Rightarrow> chat_msg \<Rightarrow> int" where
  "estimate_message e m = 3 + estimate_string e (msg_role m) + estimate_string e (msg_content m)
     + estimate_string e (msg_name m) + estimate_string e (msg_call_id m)
     + (fst (estimate_reasoning e m) + snd (estimate_reasoning e m)) + estimate_image_parts e m
     + sum_list (map (estimate_call e) (msg_calls m))"

definition estimate_messages :: "estimator \<Rightarrow> chat_msg list \<Rightarrow> int" where
  "estimate_messages e ms = sum_list (map (estimate_message e) ms) + 3"

text \<open>The scaling never makes a count negative; then no estimate is.\<close>

definition est_ok :: "estimator \<Rightarrow> bool" where
  "est_ok e \<longleftrightarrow> (\<forall>f. est_scale e = Some f \<longrightarrow> (\<forall>n \<ge> 0. 0 \<le> f n))"

lemma estimate_string_nonneg [simp]: "est_ok e \<Longrightarrow> 0 \<le> estimate_string e s"
  by (auto simp: estimate_string_def est_ok_def Let_def split: option.splits)

lemma estimate_metadata_nonneg [simp]: "est_ok e \<Longrightarrow> 0 \<le> estimate_metadata e md"
  unfolding estimate_metadata_def by (rule sum_list_nonneg) auto

lemma estimate_reasoning_nonneg [simp]:
  "est_ok e \<Longrightarrow> 0 \<le> fst (estimate_reasoning e m)" "est_ok e \<Longrightarrow> 0 \<le> snd (estimate_reasoning e m)"
  by (simp_all add: estimate_reasoning_def Let_def)

lemma estimate_image_parts_nonneg [simp]: "est_ok e \<Longrightarrow> 0 \<le> estimate_image_parts e m"
  unfolding estimate_image_parts_def by (auto intro!: sum_list_nonneg)

lemma estimate_message_pos: "est_ok e \<Longrightarrow> 0 < estimate_message e m"
proof -
  assume e: "est_ok e"
  have "0 \<le> sum_list (map (estimate_call e) (msg_calls m))"
    by (rule sum_list_nonneg) (use e in \<open>auto simp: estimate_call_def\<close>)
  then show ?thesis using e
    by (simp add: estimate_message_def add_nonneg_nonneg add_pos_nonneg)
qed

section \<open>Transcript\<close>

record json_fns =
  js_path :: "string \<Rightarrow> string option"
  js_pairs :: "string \<Rightarrow> (string \<times> string) list option"

text \<open>
  \<open>truncate\<close> keeps the first runes of a trimmed text and says how many it dropped.
\<close>

definition truncate :: "string \<Rightarrow> nat \<Rightarrow> string" where
  "truncate s0 n = (let s = trim_space s0; rs = runes s in
     if length rs \<le> n then s
     else of_runes (take n rs) @ ''\<newline>\<newline>[... '' @ itoa (length rs - n) @ '' more characters truncated]'')"

text \<open>
  \<open>renderToolArgs\<close>: \<open>js_pairs\<close> gives the decoded object as its keys, in sorted order, with
  their re-encoded values.
\<close>

definition render_tool_args :: "json_fns \<Rightarrow> string \<Rightarrow> string" where
  "render_tool_args js args = (case js_pairs js args of
       None \<Rightarrow> truncate args 400
     | Some kvs \<Rightarrow> join '', '' (map (\<lambda>(k, v). k @ ''='' @ truncate v 400) kvs))"

definition serialize_tool_calls :: "json_fns \<Rightarrow> tool_call list \<Rightarrow> string" where
  "serialize_tool_calls js calls =
     join ''; '' (map (\<lambda>tc. tc_name tc @ ''('' @ render_tool_args js (tc_args tc) @ '')'') calls)"

definition serialize_message :: "json_fns \<Rightarrow> chat_msg \<Rightarrow> string list" where
  "serialize_message js m = (let t = message_text m in
     if msg_role m = role_user then
       (let c = truncate t 4000 in if c = [] then [] else [''[User]: '' @ c])
     else if msg_role m = role_assistant then
       (if msg_reasoning m = [] then [] else [''[Assistant thinking]: '' @ truncate (msg_reasoning m) 4000])
       @ (if t = [] then [] else [''[Assistant]: '' @ truncate t 4000])
       @ (let c = serialize_tool_calls js (msg_calls m) in if c = [] then [] else [''[Assistant tool calls]: '' @ c])
     else if msg_role m = role_tool then
       (let c = truncate t 2000 in if c = [] then [] else [''[Tool result '' @ msg_name m @ '']: '' @ c])
     else [])"

definition serialize_conversation :: "json_fns \<Rightarrow> chat_msg list \<Rightarrow> string" where
  "serialize_conversation js ms = join ''\<newline>\<newline>'' (concat (map (serialize_message js) ms))"

definition archive_line :: "json_fns \<Rightarrow> chat_msg \<Rightarrow> string" where
  "archive_line js m = (let t = truncate (message_text m) 500 in
     if msg_role m = role_user then ''- User: '' @ t @ ''\<newline>''
     else if msg_role m = role_assistant then
       (let c = serialize_tool_calls js (msg_calls m) in
        if c \<noteq> [] then ''- Assistant ['' @ c @ '']: '' @ t @ ''\<newline>''
        else ''- Assistant: '' @ t @ ''\<newline>'')
     else if msg_role m = role_tool then ''- Tool['' @ msg_name m @ '']: '' @ t @ ''\<newline>''
     else [])"

text \<open>
  The scan that keeps the newest entries within a budget, the newest one always: the number
  left out of a list of costs (the archive and the summarizer input share it).
\<close>

fun newest_scan :: "int \<Rightarrow> int list \<Rightarrow> nat \<Rightarrow> nat \<Rightarrow> int \<Rightarrow> nat" where
  "newest_scan budget costs n 0 used = 0"
| "newest_scan budget costs n (Suc i) used =
     (let used' = used + costs ! i in
      if budget < used' \<and> i < n - 1 then i + 1 else newest_scan budget costs n i used')"

definition omitted_oldest :: "int \<Rightarrow> int list \<Rightarrow> nat" where
  "omitted_oldest budget costs =
     (if budget \<le> 0 then 0 else newest_scan budget costs (length costs) (length costs) 0)"

definition raw_archive :: "json_fns \<Rightarrow> chat_msg list \<Rightarrow> int \<Rightarrow> estimator option \<Rightarrow> string" where
  "raw_archive js ms budget oe =
     (let ls = filter (\<lambda>l. l \<noteq> []) (map (archive_line js) ms);
          omitted = (case oe of None \<Rightarrow> 0 | Some e \<Rightarrow> omitted_oldest budget (map (estimate_string e) ls))
      in ''Raw conversation archive (LLM summarization unavailable):\<newline>\<newline>''
         @ (if 0 < omitted then ''['' @ itoa omitted @ '' earlier messages omitted]\<newline>'' else [])
         @ concat (drop omitted ls))"

text \<open>What is kept after the scan fits the budget, or is the newest entry alone.\<close>

lemma newest_scan_spec:
  assumes "i \<le> n" "n = length costs" "used = sum_list (drop i costs)"
    "i = n \<or> i = n - 1 \<or> used \<le> budget"
  shows "newest_scan budget costs n i used \<le> n - (if n = 0 then 0 else 1)
    \<and> (sum_list (drop (newest_scan budget costs n i used) costs) \<le> budget
       \<or> newest_scan budget costs n i used = n - 1)"
  using assms
proof (induction i arbitrary: used)
  case 0
  then show ?case by (cases "n = 0") auto
next
  case (Suc i)
  have i: "i < length costs" using Suc.prems by simp
  have used': "used + costs ! i = sum_list (drop i costs)"
    using Suc.prems(3) i by (simp add: Cons_nth_drop_Suc [symmetric])
  show ?case
  proof (cases "budget < used + costs ! i \<and> i < n - 1")
    case True
    then show ?thesis using Suc.prems by auto
  next
    case False
    then have "i = n \<or> i = n - 1 \<or> used + costs ! i \<le> budget" using Suc.prems(1) by linarith
    from Suc.IH [OF _ Suc.prems(2) used' this] show ?thesis using Suc.prems(1) False by auto
  qed
qed

lemma omitted_oldest_spec:
  assumes "costs \<noteq> []" "0 < budget"
  shows "omitted_oldest budget costs < length costs"
    "sum_list (drop (omitted_oldest budget costs) costs) \<le> budget \<or> omitted_oldest budget costs = length costs - 1"
  using newest_scan_spec [of "length costs" "length costs" costs 0 budget] assms
  by (auto simp: omitted_oldest_def)
    (metis One_nat_def diff_less le_less_trans length_greater_0_conv zero_less_one)

lemma omitted_oldest_le: "omitted_oldest budget costs \<le> length costs"
proof (cases "costs = [] \<or> budget \<le> 0")
  case True
  then show ?thesis by (auto simp: omitted_oldest_def)
next
  case False
  then show ?thesis using omitted_oldest_spec(1) by (simp add: less_imp_le)
qed

section \<open>File operations\<close>

record file_ops =
  fo_read :: "string list"
  fo_written :: "string list"
  fo_edited :: "string list"

definition read_files_tag :: string where "read_files_tag = ''read-files''"
definition modified_files_tag :: string where "modified_files_tag = ''modified-files''"
definition open_tag :: "string \<Rightarrow> string" where "open_tag tag = ''<'' @ tag @ ''>''"
definition close_tag :: "string \<Rightarrow> string" where "close_tag tag = ''</'' @ tag @ ''>''"

definition max_tracked :: nat where "max_tracked = 50"

definition append_unique :: "string list \<Rightarrow> string \<Rightarrow> string list" where
  "append_unique xs p0 = (let p = trim_space p0 in
     if p = [] then xs
     else if p \<in> set xs then xs
     else (if max_tracked \<le> length xs then drop (length xs - max_tracked + 1) xs else xs) @ [p])"

definition parse_tagged :: "string \<Rightarrow> string \<Rightarrow> string list" where
  "parse_tagged content tag = (case str_index (open_tag tag) content of
       None \<Rightarrow> []
     | Some i \<Rightarrow> (let rest = drop (i + length (open_tag tag)) content in
         case str_index (close_tag tag) rest of
           None \<Rightarrow> []
         | Some j \<Rightarrow> foldl append_unique [] (split_on CHR 0x0A (take j rest))))"

definition parse_file_ops_block :: "string \<Rightarrow> string list \<times> string list" where
  "parse_file_ops_block content = (parse_tagged content read_files_tag, parse_tagged content modified_files_tag)"

definition inherit_ops :: "string \<Rightarrow> file_ops \<Rightarrow> file_ops" where
  "inherit_ops content o1 = (if content = [] then o1 else
     (case parse_file_ops_block content of (rd, md) \<Rightarrow>
        o1\<lparr>fo_read := foldl append_unique (fo_read o1) rd,
           fo_written := foldl append_unique (fo_written o1) md\<rparr>))"

definition resolve_ops :: "file_ops \<Rightarrow> string list \<times> string list" where
  "resolve_ops o1 =
     (let md = foldl append_unique (foldl append_unique [] (fo_written o1)) (fo_edited o1)
      in (foldl (\<lambda>rd p. if p \<in> set md then rd else append_unique rd p) [] (fo_read o1), md))"

definition tool_call_path :: "json_fns \<Rightarrow> string \<Rightarrow> string" where
  "tool_call_path js args = (case js_path js args of None \<Rightarrow> [] | Some p \<Rightarrow> trim_space p)"

definition note_call :: "json_fns \<Rightarrow> file_ops \<Rightarrow> tool_call \<Rightarrow> file_ops" where
  "note_call js o1 tc = (let p = tool_call_path js (tc_args tc) in
     if p = [] then o1
     else if tc_name tc = ''write_sandbox_file'' then o1\<lparr>fo_written := append_unique (fo_written o1) p\<rparr>
     else if tc_name tc = ''edit_sandbox_file'' then o1\<lparr>fo_edited := append_unique (fo_edited o1) p\<rparr>
     else if tc_name tc = ''read_file'' \<or> tc_name tc = ''read_sandbox_file''
     then o1\<lparr>fo_read := append_unique (fo_read o1) p\<rparr>
     else o1)"

definition note_message :: "json_fns \<Rightarrow> file_ops \<Rightarrow> chat_msg \<Rightarrow> file_ops" where
  "note_message js o1 m = foldl (note_call js) (inherit_ops (message_text m) o1) (msg_calls m)"

definition extract_file_ops :: "json_fns \<Rightarrow> string \<Rightarrow> chat_msg list list \<Rightarrow> file_ops" where
  "extract_file_ops js prev groups =
     foldl (note_message js) (inherit_ops prev \<lparr>fo_read = [], fo_written = [], fo_edited = []\<rparr>) (concat groups)"

definition tagged_block :: "string \<Rightarrow> string list \<Rightarrow> string" where
  "tagged_block tag paths = (if paths = [] then []
     else ''\<newline>\<newline>'' @ open_tag tag @ ''\<newline>'' @ join ''\<newline>'' paths @ ''\<newline>'' @ close_tag tag)"

definition format_ops :: "file_ops \<Rightarrow> string" where
  "format_ops o1 = (case resolve_ops o1 of (rd, md) \<Rightarrow>
     if rd = [] \<and> md = [] then [] else tagged_block read_files_tag rd @ tagged_block modified_files_tag md)"

subsection \<open>Lists of tracked paths\<close>

text \<open>A tracked list: trimmed, non-empty, distinct paths, at most fifty.\<close>

definition tracked_paths :: "string list \<Rightarrow> bool" where
  "tracked_paths xs \<longleftrightarrow> distinct xs \<and> length xs \<le> max_tracked \<and> (\<forall>p \<in> set xs. p \<noteq> [] \<and> trim_space p = p)"

lemma dropWhile_idem: "dropWhile P (dropWhile P xs) = dropWhile P xs"
  by (induction xs) auto

lemma tracked_Nil [simp]: "tracked_paths []"
  by (simp add: tracked_paths_def)

lemma append_unique_new:
  "\<lbrakk>trim_space p = p; p \<noteq> []; p \<notin> set xs; length xs < max_tracked\<rbrakk> \<Longrightarrow> append_unique xs p = xs @ [p]"
  by (simp add: append_unique_def Let_def)

lemma append_unique_blank [simp]: "append_unique xs [] = xs"
  by (simp add: append_unique_def)

lemma foldl_append_unique_id:
  "tracked_paths (xs @ ys) \<Longrightarrow> foldl append_unique xs ys = xs @ ys"
proof (induction ys arbitrary: xs)
  case (Cons y ys)
  have "append_unique xs y = xs @ [y]"
    by (rule append_unique_new) (use Cons.prems in \<open>auto simp: tracked_paths_def\<close>)
  then show ?case using Cons.IH [of "xs @ [y]"] Cons.prems by simp
qed simp

text \<open>Paths that can stand in a block: no line break and no angle bracket.\<close>

definition block_safe :: "string list \<Rightarrow> bool" where
  "block_safe xs \<longleftrightarrow> (\<forall>p \<in> set xs. CHR 0x0A \<notin> set p \<and> CHR 0x3C \<notin> set p)"

lemma open_tag_simps [simp]: "open_tag t \<noteq> []" "close_tag t \<noteq> []"
  "CHR 0x3C \<in> set (open_tag t)" "CHR 0x3C \<in> set (close_tag t)"
  by (simp_all add: open_tag_def close_tag_def)

definition plain_tag :: "string \<Rightarrow> bool" where
  "plain_tag t \<longleftrightarrow> CHR 0x0A \<notin> set t"

lemma plain_tags [simp]: "plain_tag read_files_tag" "plain_tag modified_files_tag"
  by (simp_all add: plain_tag_def read_files_tag_def modified_files_tag_def)

lemma plain_tag_newline [simp]:
  "plain_tag t \<Longrightarrow> CHR 0x0A \<notin> set (open_tag t)" "plain_tag t \<Longrightarrow> CHR 0x0A \<notin> set (close_tag t)"
  by (auto simp: plain_tag_def open_tag_def close_tag_def)

lemma join_newline_safe: "block_safe xs \<Longrightarrow> CHR 0x3C \<notin> set (join [CHR 0x0A] xs)"
  by (auto simp: block_safe_def dest: join_set)

text \<open>A block is found again behind any text that does not already open its tag.\<close>

lemma parse_tagged_block:
  assumes "plain_tag t" "str_index (open_tag t) pre = None" "tracked_paths xs" "block_safe xs" "xs \<noteq> []"
  shows "parse_tagged (pre @ tagged_block t xs @ post) t = xs"
proof -
  let ?nl = "CHR 0x0A" and ?body = "join [CHR 0x0A] xs"
  have content: "pre @ tagged_block t xs @ post
      = pre @ ?nl # [] @ ?nl # open_tag t @ ?nl # ?body @ ?nl # close_tag t @ post"
    using assms(5) by (simp add: tagged_block_def)
  have i: "str_index (open_tag t) (pre @ tagged_block t xs @ post) = Some (length pre + 2)"
    unfolding content using assms(1,2)
      str_index_sep [of ?nl "open_tag t" "[]" "open_tag t @ ?nl # ?body @ ?nl # close_tag t @ post"]
      str_index_sep [of ?nl "open_tag t" pre "[] @ ?nl # open_tag t @ ?nl # ?body @ ?nl # close_tag t @ post"]
    by (simp del: str_index.simps(2))
  have rest: "drop (length pre + 2 + length (open_tag t)) (pre @ tagged_block t xs @ post)
      = ?nl # ?body @ ?nl # close_tag t @ post"
    unfolding content by simp
  have none: "str_index (close_tag t) (?nl # ?body) = None"
    by (rule str_index_absent [of "CHR 0x3C"]) (use assms(4) join_newline_safe in auto)
  have j: "str_index (close_tag t) (?nl # ?body @ ?nl # close_tag t @ post) = Some (length ?body + 2)"
    using assms(1) str_index_sep [of ?nl "close_tag t" "?nl # ?body" "close_tag t @ post"] none by simp
  have "take (length ?body + 2) (?nl # ?body @ ?nl # close_tag t @ post) = ?nl # ?body @ [?nl]"
    by simp
  moreover have "split_on ?nl (?nl # ?body @ [?nl]) = [] # xs @ [[]]"
    by (rule split_join_newlines) (use assms(4,5) in \<open>auto simp: block_safe_def\<close>)
  moreover have "foldl append_unique [] xs = xs"
    using foldl_append_unique_id [of "[]" xs] assms(3) by simp
  ultimately show ?thesis
    unfolding parse_tagged_def i option.case Let_def rest j by simp
qed

lemma parse_tagged_absent:
  "str_index (open_tag t) content = None \<Longrightarrow> parse_tagged content t = []"
  by (simp add: parse_tagged_def)

lemma tracked_append_unique: "tracked_paths xs \<Longrightarrow> tracked_paths (append_unique xs p)"
proof -
  assume t: "tracked_paths xs"
  let ?p = "trim_space p"
  let ?ys = "if max_tracked \<le> length xs then drop (length xs - max_tracked + 1) xs else xs"
  have sub: "set ?ys \<subseteq> set xs" by (auto dest: in_set_dropD)
  have "length ?ys < max_tracked" using t by (auto simp: tracked_paths_def max_tracked_def)
  moreover have "distinct ?ys" using t by (simp add: tracked_paths_def)
  ultimately have "tracked_paths (?ys @ [?p])" if "?p \<noteq> []" "?p \<notin> set xs"
    using t sub that by (auto simp: tracked_paths_def)
  then show ?thesis using t by (simp add: append_unique_def Let_def)
qed

lemma tracked_fold: "tracked_paths xs \<Longrightarrow> tracked_paths (foldl append_unique xs ys)"
  by (induction ys arbitrary: xs) (simp_all add: tracked_append_unique)

text \<open>The two lists of a block are always tracked lists, and they are disjoint.\<close>

lemma resolve_tracked:
  "tracked_paths (fst (resolve_ops o1))" "tracked_paths (snd (resolve_ops o1))"
proof -
  show "tracked_paths (snd (resolve_ops o1))"
    by (simp add: resolve_ops_def Let_def tracked_fold)
  show "tracked_paths (fst (resolve_ops o1))"
    unfolding resolve_ops_def Let_def fst_conv
    by (rule foldl_inv [where I = tracked_paths]) (auto simp: tracked_append_unique)
qed

lemma append_unique_set: "set (append_unique xs p) \<subseteq> insert (trim_space p) (set xs)"
  by (auto simp: append_unique_def Let_def dest: in_set_dropD)

definition ops_tracked :: "file_ops \<Rightarrow> bool" where
  "ops_tracked o1 \<longleftrightarrow> tracked_paths (fo_read o1) \<and> tracked_paths (fo_written o1) \<and> tracked_paths (fo_edited o1)"

lemma resolve_disjoint:
  assumes "ops_tracked o1"
  shows "set (fst (resolve_ops o1)) \<inter> set (snd (resolve_ops o1)) = {}"
proof -
  let ?md = "snd (resolve_ops o1)"
  let ?step = "\<lambda>rd p. if p \<in> set ?md then rd else append_unique rd p"
  have "set (foldl ?step [] (fo_read o1)) \<inter> set ?md = {}"
  proof (rule foldl_inv [where I = "\<lambda>rd. set rd \<inter> set ?md = {}"])
    fix rd p assume p: "p \<in> set (fo_read o1)" and rd: "set rd \<inter> set ?md = {}"
    have "trim_space p = p" using assms p by (simp add: ops_tracked_def tracked_paths_def)
    then show "set (?step rd p) \<inter> set ?md = {}"
      using rd append_unique_set [of rd p] by auto
  qed simp
  then show ?thesis by (simp add: resolve_ops_def Let_def)
qed

lemma inherit_tracked: "ops_tracked o1 \<Longrightarrow> ops_tracked (inherit_ops c o1)"
  by (simp add: inherit_ops_def ops_tracked_def tracked_fold split: prod.splits)

lemma note_call_tracked: "ops_tracked o1 \<Longrightarrow> ops_tracked (note_call js o1 tc)"
  by (simp add: note_call_def ops_tracked_def tracked_append_unique Let_def)

lemma note_message_tracked: "ops_tracked o1 \<Longrightarrow> ops_tracked (note_message js o1 m)"
  unfolding note_message_def
  by (rule foldl_inv [where I = ops_tracked]) (auto simp: note_call_tracked inherit_tracked)

lemma no_ops_tracked [simp]: "ops_tracked \<lparr>fo_read = [], fo_written = [], fo_edited = []\<rparr>"
  by (simp add: ops_tracked_def)

lemma extract_tracked: "ops_tracked (extract_file_ops js prev groups)"
  unfolding extract_file_ops_def
  by (rule foldl_inv [where I = ops_tracked]) (simp_all add: note_message_tracked inherit_tracked)

lemma tags_apart:
  "str_index (open_tag read_files_tag) (open_tag modified_files_tag) = None"
  "str_index (open_tag read_files_tag) (close_tag modified_files_tag) = None"
  "str_index (open_tag modified_files_tag) (open_tag read_files_tag) = None"
  "str_index (open_tag modified_files_tag) (close_tag read_files_tag) = None"
  by code_simp+

text \<open>A block of one tag does not hide an opening of the other.\<close>

lemma other_block_absent:
  assumes "plain_tag t" "str_index (open_tag t) pre = None" "str_index (open_tag t) (open_tag u) = None"
    "str_index (open_tag t) (close_tag u) = None" "block_safe xs"
  shows "str_index (open_tag t) (pre @ tagged_block u xs) = None"
proof (cases "xs = []")
  case True
  then show ?thesis using assms(2) by (simp add: tagged_block_def)
next
  case False
  let ?nl = "CHR 0x0A" and ?body = "join [CHR 0x0A] xs"
  have eq: "pre @ tagged_block u xs = pre @ ?nl # [] @ ?nl # open_tag u @ ?nl # ?body @ ?nl # close_tag u"
    using False by (simp add: tagged_block_def)
  note sep = str_index_sep [of ?nl "open_tag t"]
  have nl: "?nl \<notin> set (open_tag t)" using assms(1) by simp
  have "str_index (open_tag t) ?body = None"
    by (rule str_index_absent [of "CHR 0x3C"]) (use assms(5) join_newline_safe in auto)
  then have "str_index (open_tag t) (?body @ ?nl # close_tag u) = None"
    using sep [OF nl, of ?body "close_tag u"] assms(4) by simp
  then have "str_index (open_tag t) (open_tag u @ ?nl # ?body @ ?nl # close_tag u) = None"
    using sep [OF nl, of "open_tag u"] assms(3) by simp
  then have "str_index (open_tag t) ([] @ ?nl # open_tag u @ ?nl # ?body @ ?nl # close_tag u) = None"
    using sep [OF nl, of "[]"] by simp
  then show ?thesis
    using sep [OF nl, of pre] assms(2) unfolding eq by simp
qed

text \<open>A text in which no block of either tag opens.\<close>

definition no_block :: "string \<Rightarrow> bool" where
  "no_block t \<longleftrightarrow> str_index (open_tag read_files_tag) t = None
     \<and> str_index (open_tag modified_files_tag) t = None"

lemma parse_format:
  assumes "no_block pre" "block_safe (fst (resolve_ops o1))" "block_safe (snd (resolve_ops o1))"
  shows "parse_file_ops_block (pre @ format_ops o1) = resolve_ops o1"
proof -
  obtain rd md where r: "resolve_ops o1 = (rd, md)" by force
  have t: "tracked_paths rd" "tracked_paths md" using resolve_tracked [of o1] by (simp_all add: r)
  have safe: "block_safe rd" "block_safe md" using assms(2,3) by (simp_all add: r)
  have none: "str_index (open_tag read_files_tag) pre = None" "str_index (open_tag modified_files_tag) pre = None"
    using assms(1) by (simp_all add: no_block_def)
  have f: "pre @ format_ops o1 = pre @ tagged_block read_files_tag rd @ tagged_block modified_files_tag md"
    by (auto simp: format_ops_def r tagged_block_def)
  have "parse_tagged (pre @ tagged_block read_files_tag rd @ tagged_block modified_files_tag md) read_files_tag = rd"
  proof (cases "rd = []")
    case True
    then have "str_index (open_tag read_files_tag) (pre @ tagged_block read_files_tag rd @ tagged_block modified_files_tag md) = None"
      using other_block_absent [OF plain_tags(1) none(1) tags_apart(1,2) safe(2)] by (simp add: tagged_block_def)
    then show ?thesis using True by (simp add: parse_tagged_absent)
  qed (simp add: parse_tagged_block [OF plain_tags(1) none(1) t(1) safe(1)])
  moreover have "parse_tagged (pre @ tagged_block read_files_tag rd @ tagged_block modified_files_tag md) modified_files_tag = md"
  proof -
    have pre: "str_index (open_tag modified_files_tag) (pre @ tagged_block read_files_tag rd) = None"
      by (rule other_block_absent [OF plain_tags(2) none(2) tags_apart(3,4) safe(1)])
    show ?thesis
    proof (cases "md = []")
      case True
      then show ?thesis using pre by (simp add: parse_tagged_absent tagged_block_def)
    next
      case False
      then show ?thesis
        using parse_tagged_block [OF plain_tags(2) pre t(2) safe(2), of "[]"] by simp
    qed
  qed
  ultimately show ?thesis unfolding f parse_file_ops_block_def r by simp
qed

lemma inherit_empty:
  assumes "tracked_paths rd" "tracked_paths md" "parse_file_ops_block c = (rd, md)"
  shows "inherit_ops c \<lparr>fo_read = [], fo_written = [], fo_edited = []\<rparr> = \<lparr>fo_read = rd, fo_written = md, fo_edited = []\<rparr>"
proof (cases "c = []")
  case True
  then have "rd = []" "md = []" using assms(3)
    by (auto simp: parse_file_ops_block_def parse_tagged_def)
  then show ?thesis using True by (simp add: inherit_ops_def)
next
  case False
  then show ?thesis
    using assms foldl_append_unique_id [of "[]"] by (simp add: inherit_ops_def)
qed

lemma resolve_resolved:
  assumes "tracked_paths rd" "tracked_paths md" "set rd \<inter> set md = {}"
  shows "resolve_ops \<lparr>fo_read = rd, fo_written = md, fo_edited = []\<rparr> = (rd, md)"
proof -
  have md: "foldl append_unique [] md = md" using foldl_append_unique_id [of "[]" md] assms(2) by simp
  have "foldl (\<lambda>r p. if p \<in> set md then r else append_unique r p) acc xs = foldl append_unique acc xs"
    if "set xs \<inter> set md = {}" for acc xs
    using that by (induction xs arbitrary: acc) auto
  then have "foldl (\<lambda>r p. if p \<in> set md then r else append_unique r p) [] rd = rd"
    using assms(1,3) foldl_append_unique_id [of "[]" rd] by simp
  then show ?thesis by (simp add: resolve_ops_def md)
qed

section \<open>Fallback text\<close>

text \<open>\<open>withoutFileOps\<close>: every complete block is cut out, tag by tag.\<close>

function strip_tag :: "string \<Rightarrow> string \<Rightarrow> string" where
  "strip_tag tag s = (case str_index (open_tag tag) s of
       None \<Rightarrow> s
     | Some i \<Rightarrow> (case str_index (close_tag tag) (drop (i + length (open_tag tag)) s) of
           None \<Rightarrow> s
         | Some j \<Rightarrow> strip_tag tag (take i s @
             drop (i + length (open_tag tag) + j + length (close_tag tag)) s)))"
  by pat_completeness auto
termination
proof (relation "measure (length \<circ> snd)", goal_cases)
  case (2 tag s i j)
  have "i + length (open_tag tag) \<le> length s" using str_index_Some [OF 2(1)] by simp
  then show ?case by (simp add: open_tag_def close_tag_def)
qed simp

declare strip_tag.simps [simp del]

definition without_file_ops :: "string \<Rightarrow> string" where
  "without_file_ops s = trim_space (strip_tag modified_files_tag (strip_tag read_files_tag s))"

lemma strip_tag_absent: "str_index (open_tag t) s = None \<Longrightarrow> strip_tag t s = s"
  by (subst strip_tag.simps) simp

lemma strip_tag_block:
  assumes "plain_tag t" "str_index (open_tag t) pre = None" "block_safe xs"
  shows "strip_tag t (pre @ tagged_block t xs @ post)
    = strip_tag t (pre @ (if xs = [] then [] else ''\<newline>\<newline>'') @ post)"
proof (cases "xs = []")
  case True
  then show ?thesis by (simp add: tagged_block_def)
next
  case False
  let ?nl = "CHR 0x0A" and ?body = "join [CHR 0x0A] xs"
  have content: "pre @ tagged_block t xs @ post
      = pre @ ?nl # [] @ ?nl # open_tag t @ ?nl # ?body @ ?nl # close_tag t @ post"
    using False by (simp add: tagged_block_def)
  have i: "str_index (open_tag t) (pre @ tagged_block t xs @ post) = Some (length pre + 2)"
    unfolding content using assms(1,2)
      str_index_sep [of ?nl "open_tag t" "[]" "open_tag t @ ?nl # ?body @ ?nl # close_tag t @ post"]
      str_index_sep [of ?nl "open_tag t" pre "[] @ ?nl # open_tag t @ ?nl # ?body @ ?nl # close_tag t @ post"]
    by (simp del: str_index.simps(2))
  have rest: "drop (length pre + 2 + length (open_tag t)) (pre @ tagged_block t xs @ post)
      = ?nl # ?body @ ?nl # close_tag t @ post"
    unfolding content by simp
  have none: "str_index (close_tag t) (?nl # ?body) = None"
    by (rule str_index_absent [of "CHR 0x3C"]) (use assms(3) join_newline_safe in auto)
  have j: "str_index (close_tag t) (?nl # ?body @ ?nl # close_tag t @ post) = Some (length ?body + 2)"
    using assms(1) str_index_sep [of ?nl "close_tag t" "?nl # ?body" "close_tag t @ post"] none by simp
  have cut: "take (length pre + 2) (pre @ tagged_block t xs @ post)
      @ drop (length pre + 2 + length (open_tag t) + (length ?body + 2) + length (close_tag t))
          (pre @ tagged_block t xs @ post) = pre @ ''\<newline>\<newline>'' @ post"
  proof -
    let ?A = "pre @ ?nl # ?nl # open_tag t @ ?nl # ?body @ ?nl # close_tag t"
    have A: "pre @ tagged_block t xs @ post = ?A @ post" using content by simp
    have len: "length pre + 2 + length (open_tag t) + (length ?body + 2) + length (close_tag t) = length ?A"
      by simp
    have "\<And>B. drop (length B) (B @ post) = post" by simp
    then have "drop (length pre + 2 + length (open_tag t) + (length ?body + 2) + length (close_tag t))
        (pre @ tagged_block t xs @ post) = post"
      unfolding len A .
    moreover have "take (length pre + 2) (pre @ tagged_block t xs @ post) = pre @ ''\<newline>\<newline>''"
      unfolding content by simp
    ultimately show ?thesis by simp
  qed
  have "strip_tag t (pre @ tagged_block t xs @ post) = strip_tag t (pre @ ''\<newline>\<newline>'' @ post)"
    by (subst strip_tag.simps) (simp only: i rest j option.case cut)
  then show ?thesis using False by simp
qed

lemma str_index_newlines:
  "plain_tag t \<Longrightarrow> str_index (open_tag t) (s @ ''\<newline>\<newline>'' @ q) = (case str_index (open_tag t) s of
     Some i \<Rightarrow> Some i | None \<Rightarrow> map_option (\<lambda>i. length s + 2 + i) (str_index (open_tag t) q))"
  using str_index_sep [of "CHR 0x0A" "open_tag t" s "[] @ CHR 0x0A # q"]
    str_index_sep [of "CHR 0x0A" "open_tag t" "[]" q]
  by (cases "str_index (open_tag t) q"; cases "str_index (open_tag t) s") (simp_all del: str_index.simps(2))

lemma trim_newlines [simp]: "trim_space (s @ ''\<newline>\<newline>'') = trim_space s"
  using trim_space_right [of "CHR 0x0A" s] trim_space_right [of "CHR 0x0A" "s @ ''\<newline>''"]
  by (simp add: is_space_def)

lemma without_format:
  assumes "no_block pre" "block_safe (fst (resolve_ops o1))" "block_safe (snd (resolve_ops o1))"
  shows "without_file_ops (pre @ format_ops o1) = trim_space pre"
proof -
  obtain rd md where r: "resolve_ops o1 = (rd, md)" by force
  have safe: "block_safe rd" "block_safe md" using assms(2,3) by (simp_all add: r)
  have none: "str_index (open_tag read_files_tag) pre = None" "str_index (open_tag modified_files_tag) pre = None"
    using assms(1) by (simp_all add: no_block_def)
  have f: "pre @ format_ops o1 = pre @ tagged_block read_files_tag rd @ tagged_block modified_files_tag md"
    by (auto simp: format_ops_def r tagged_block_def)
  let ?sep = "\<lambda>xs :: string list. if xs = [] then [] else ''\<newline>\<newline>''"
  have sepnone: "plain_tag t \<Longrightarrow> str_index (open_tag t) pre = None \<Longrightarrow> str_index (open_tag t) (pre @ ?sep xs) = None" for t xs
    using str_index_newlines [of t pre "[]"] by simp
  have "strip_tag read_files_tag (pre @ format_ops o1)
      = strip_tag read_files_tag (pre @ ?sep rd @ tagged_block modified_files_tag md)"
    unfolding f by (rule strip_tag_block [OF plain_tags(1) none(1) safe(1)])
  also have "\<dots> = pre @ ?sep rd @ tagged_block modified_files_tag md"
    using other_block_absent [OF plain_tags(1) sepnone [OF plain_tags(1) none(1)] tags_apart(1,2) safe(2), of rd]
    by (intro strip_tag_absent) simp
  finally have "without_file_ops (pre @ format_ops o1)
      = trim_space (strip_tag modified_files_tag ((pre @ ?sep rd) @ tagged_block modified_files_tag md @ []))"
    by (simp add: without_file_ops_def)
  also have "\<dots> = trim_space (strip_tag modified_files_tag ((pre @ ?sep rd) @ ?sep md @ []))"
    by (subst strip_tag_block [OF plain_tags(2) sepnone [OF plain_tags(2) none(2)] safe(2)]) simp
  also have "strip_tag modified_files_tag ((pre @ ?sep rd) @ ?sep md @ []) = (pre @ ?sep rd) @ ?sep md"
  proof -
    have "str_index (open_tag modified_files_tag) (pre @ ?sep rd) = None"
      by (rule sepnone [OF plain_tags(2) none(2)])
    then have "str_index (open_tag modified_files_tag) ((pre @ ?sep rd) @ ?sep md) = None"
      using str_index_newlines [of modified_files_tag "pre @ ?sep rd" "[]"] by (cases "md = []") simp_all
    then show ?thesis using strip_tag_absent by simp
  qed
  also have "trim_space ((pre @ ?sep rd) @ ?sep md) = trim_space pre"
    using trim_newlines [of "pre @ ''\<newline>\<newline>''"] by auto
  finally show ?thesis .
qed

text \<open>The binary search of \<open>fitFallbackText\<close> over the number of kept runes.\<close>

function fit_search :: "(nat \<Rightarrow> bool) \<Rightarrow> nat \<Rightarrow> nat \<Rightarrow> nat" where
  "fit_search ok low high =
     (if low < high then
        (let mid = low + (high - low + 1) div 2 in
         if ok mid then fit_search ok mid high else fit_search ok low (mid - 1))
      else low)"
  by pat_completeness auto
termination
  by (relation "measure (\<lambda>(ok, low, high). high - low)") auto

declare fit_search.simps [simp del]

definition fit_fallback_text :: "string \<Rightarrow> (string \<Rightarrow> bool) \<Rightarrow> bool \<Rightarrow> string" where
  "fit_fallback_text txt fits keep_end =
     (if fits txt then txt
      else (let rs = runes txt;
                part = (\<lambda>n. of_runes (if keep_end then drop (length rs - n) rs else take n rs))
            in part (fit_search (\<lambda>n. fits (part n)) 0 (length rs))))"

lemma fit_search_step:
  "low < high \<Longrightarrow> ok (low + (high - low + 1) div 2) \<Longrightarrow>
     fit_search ok low high = fit_search ok (low + (high - low + 1) div 2) high"
  "low < high \<Longrightarrow> \<not> ok (low + (high - low + 1) div 2) \<Longrightarrow>
     fit_search ok low high = fit_search ok low (low + (high - low + 1) div 2 - 1)"
  "\<not> low < high \<Longrightarrow> fit_search ok low high = low"
  by (subst fit_search.simps; simp add: Let_def)+

lemma fit_search_spec:
  assumes "low \<le> high"
  shows "low \<le> fit_search ok low high \<and> fit_search ok low high \<le> high
    \<and> (fit_search ok low high = low \<or> ok (fit_search ok low high))"
  using assms
proof (induction ok low high rule: fit_search.induct)
  case (1 ok low high)
  let ?mid = "low + (high - low + 1) div 2"
  show ?case
  proof (cases "low < high")
    case True
    then have mid: "low < ?mid" "?mid \<le> high" by auto
    show ?thesis
    proof (cases "ok ?mid")
      case ok: True
      then show ?thesis
        using 1(1) [OF True refl ok mid(2)] mid unfolding fit_search_step(1) [of low high ok, OF True ok] by fastforce
    next
      case bad: False
      have "low \<le> ?mid - 1" using mid by simp
      from 1(2) [OF True refl bad this] show ?thesis
        unfolding fit_search_step(2) [of low high ok, OF True bad]
        using mid(2) by (meson diff_le_self le_trans)
    qed
  next
    case False
    then show ?thesis using 1(3) by (simp add: fit_search_step(3))
  qed
qed

lemma fit_search_max:
  assumes "low \<le> high" "\<And>i j. i \<le> j \<Longrightarrow> j \<le> high \<Longrightarrow> ok j \<Longrightarrow> ok i" "ok n" "n \<le> high" "low \<le> n"
  shows "n \<le> fit_search ok low high"
  using assms
proof (induction ok low high rule: fit_search.induct)
  case (1 ok low high)
  let ?mid = "low + (high - low + 1) div 2"
  show ?case
  proof (cases "low < high")
    case True
    then have mid: "low < ?mid" "?mid \<le> high" by auto
    show ?thesis
    proof (cases "ok ?mid")
      case ok: True
      have eq: "fit_search ok low high = fit_search ok ?mid high"
        using True ok by (subst fit_search.simps) (simp add: Let_def)
      show ?thesis
      proof (cases "?mid \<le> n")
        case True
        then show ?thesis unfolding eq using 1(1) [OF \<open>low < high\<close> refl ok mid(2)] 1(4-) by blast
      next
        case False
        then show ?thesis unfolding eq using fit_search_spec [of ?mid high ok] mid by linarith
      qed
    next
      case bad: False
      have eq: "fit_search ok low high = fit_search ok low (?mid - 1)"
        using True bad by (subst fit_search.simps) (simp add: Let_def)
      have "n \<le> ?mid - 1" using bad 1(4) [of ?mid n] 1(5,6) by (metis Suc_pred' leI less_Suc_eq_le mid(1) not_less_zero zero_less_iff_neq_zero)
      show ?thesis unfolding eq
      proof (rule 1(2) [OF True refl bad])
        show "low \<le> ?mid - 1" using mid by simp
        show "ok i" if "i \<le> j" "j \<le> ?mid - 1" "ok j" for i j
          using 1(4) that mid by (meson diff_le_self le_trans)
      qed (use \<open>n \<le> ?mid - 1\<close> 1(5,7) in auto)
    qed
  next
    case False
    then show ?thesis using 1(3,6) by (subst fit_search.simps) simp
  qed
qed

section \<open>Properties\<close>

text \<open>
  File operations survive compaction: the block written behind a summary is read back by
  the next compaction as exactly the same two lists of paths, so nothing is forgotten however
  many compactions follow, and the fallback path that removes old blocks recovers the summary
  text without them. The text must not open a block of its own and the paths must not contain
  a line break or an angle bracket.
\<close>

theorem file_ops_survive:
  assumes "o1 = extract_file_ops js prev groups" "no_block txt"
    "block_safe (fst (resolve_ops o1))" "block_safe (snd (resolve_ops o1))"
  shows "resolve_ops (extract_file_ops js (txt @ format_ops o1) []) = resolve_ops o1
    \<and> without_file_ops (txt @ format_ops o1) = trim_space txt"
proof -
  obtain rd md where r: "resolve_ops o1 = (rd, md)" by force
  have t: "tracked_paths rd" "tracked_paths md" using resolve_tracked [of o1] by (simp_all add: r)
  have disj: "set rd \<inter> set md = {}"
    using resolve_disjoint [of o1] extract_tracked [of js prev groups] assms(1) r by (metis fst_conv snd_conv)
  have "parse_file_ops_block (txt @ format_ops o1) = (rd, md)"
    using parse_format [OF assms(2,3,4)] by (simp add: r)
  then have "extract_file_ops js (txt @ format_ops o1) [] = \<lparr>fo_read = rd, fo_written = md, fo_edited = []\<rparr>"
    using inherit_empty [OF t] by (simp add: extract_file_ops_def)
  then show ?thesis
    using resolve_resolved [OF t disj] without_format [OF assms(2,3,4)] by (simp add: r)
qed

definition demo_js :: json_fns where
  "demo_js = \<lparr>js_path = (\<lambda>a. if a = [] then None else Some a), js_pairs = (\<lambda>_. None)\<rparr>"

definition demo_call :: "string \<Rightarrow> string \<Rightarrow> chat_msg" where
  "demo_call tool path = \<lparr>msg_role = ''assistant'', msg_content = [], msg_multi = [], msg_name = [], msg_call_id = [],
     msg_calls = [\<lparr>tc_id = ''c'', tc_name = tool, tc_args = path, tc_meta = []\<rparr>], msg_images = 0,
     msg_reasoning = [], msg_signature = [], msg_meta = [], msg_kind = [], msg_turn = []\<rparr>"

lemma trim_x: "trim_space ''x'' = ''x''" "trim_space ''y'' = ''y''"
  by (rule trim_space_id; simp add: is_space_def)+

lemma demo_ops:
  "extract_file_ops demo_js [] [[demo_call ''write_sandbox_file'' ''x'', demo_call ''read_file'' ''y'']]
     = \<lparr>fo_read = [''y''], fo_written = [''x''], fo_edited = []\<rparr>"
  by (simp add: extract_file_ops_def inherit_ops_def note_message_def demo_call_def message_text_def note_call_def
      tool_call_path_def demo_js_def trim_x append_unique_def)

lemma demo_resolve: "resolve_ops \<lparr>fo_read = [''y''], fo_written = [''x''], fo_edited = []\<rparr> = ([''y''], [''x''])"
  by (simp add: resolve_ops_def append_unique_def trim_x)

lemma file_ops_survive_witness:
  "resolve_ops (extract_file_ops demo_js (''done'' @ format_ops \<lparr>fo_read = [''y''], fo_written = [''x''], fo_edited = []\<rparr>) [])
     = ([''y''], [''x''])"
proof -
  have "no_block ''done''" unfolding no_block_def by code_simp
  then show ?thesis
    using file_ops_survive [OF demo_ops [symmetric], of "''done''"]
    by (simp add: demo_resolve block_safe_def)
qed

text \<open>
  Fallback text: what \<open>fitFallbackText\<close> keeps is a run of whole runes at the chosen end
  that fits whenever the empty text does, and for a test that shorter texts pass when longer
  ones do, no longer run fits: the binary search finds the maximum.
\<close>

theorem fallback_text_maximal:
  assumes "fits []" "\<not> fits s"
    "\<And>i j. \<lbrakk>i \<le> j; j \<le> length (runes s);
       fits (of_runes (if keep_end then drop (length (runes s) - j) (runes s) else take j (runes s)))\<rbrakk>
       \<Longrightarrow> fits (of_runes (if keep_end then drop (length (runes s) - i) (runes s) else take i (runes s)))"
  shows "\<exists>n \<le> length (runes s).
    fit_fallback_text s fits keep_end
      = of_runes (if keep_end then drop (length (runes s) - n) (runes s) else take n (runes s))
    \<and> fits (fit_fallback_text s fits keep_end)
    \<and> (\<forall>m \<le> length (runes s). n < m \<longrightarrow>
         \<not> fits (of_runes (if keep_end then drop (length (runes s) - m) (runes s) else take m (runes s))))"
proof -
  let ?rs = "runes s"
  define part where "part n = of_runes (if keep_end then drop (length ?rs - n) ?rs else take n ?rs)" for n
  define n where "n = fit_search (\<lambda>n. fits (part n)) 0 (length ?rs)"
  have r: "fit_fallback_text s fits keep_end = part n"
    using assms(2) by (simp add: fit_fallback_text_def Let_def part_def n_def)
  have spec: "n \<le> length ?rs" "n = 0 \<or> fits (part n)"
    using fit_search_spec [of 0 "length ?rs" "\<lambda>n. fits (part n)"] by (simp_all add: n_def)
  have "part 0 = []" by (simp add: part_def of_runes_def)
  then have "fits (part n)" using spec(2) assms(1) by auto
  moreover have "\<not> fits (part m)" if "m \<le> length ?rs" "n < m" for m
    using fit_search_max [of 0 "length ?rs" "\<lambda>n. fits (part n)" m] assms(3) that
    by (auto simp: part_def n_def)
  ultimately show ?thesis using spec(1) unfolding r by (auto simp: part_def [symmetric])
qed

lemma fallback_text_maximal_witness:
  "\<exists>n \<le> length (runes ''abc'').
    fit_fallback_text ''abc'' (\<lambda>t. length t \<le> 2) True
      = of_runes (if True then drop (length (runes ''abc'') - n) (runes ''abc'') else take n (runes ''abc''))
    \<and> length (fit_fallback_text ''abc'' (\<lambda>t. length t \<le> 2) True) \<le> 2
    \<and> (\<forall>m \<le> length (runes ''abc''). n < m \<longrightarrow>
         \<not> length (of_runes (if True then drop (length (runes ''abc'') - m) (runes ''abc'') else take m (runes ''abc''))) \<le> 2)"
proof (rule fallback_text_maximal [where keep_end = True and s = "''abc''" and fits = "\<lambda>t. length t \<le> 2"])
  have runes: "runes ''abc'' = [97, 98, 99]" by (simp add: runes_ascii)
  fix i j :: nat
  assume ij: "i \<le> j" "j \<le> length (runes ''abc'')"
    "length (of_runes (if True then drop (length (runes ''abc'') - j) (runes ''abc'') else take j (runes ''abc''))) \<le> 2"
  have "length (of_runes (drop (3 - i) [97, 98, 99])) \<le> length (of_runes (drop (3 - j) [97, 98, 99]))" if "i \<le> j"
  proof -
    have "drop (3 - i) [97, 98, 99 :: nat] = drop (j - i) (drop (3 - j) [97, 98, 99])"
      using ij runes by (simp add: add.commute)
    moreover have "length (of_runes (drop k xs)) \<le> length (of_runes xs)" for k xs
      by (metis append_take_drop_id le_add2 length_append of_runes_append)
    ultimately show ?thesis by metis
  qed
  then show "length (of_runes (if True then drop (length (runes ''abc'') - i) (runes ''abc'') else take i (runes ''abc''))) \<le> 2"
    using ij by (simp add: runes numeral_3_eq_3)
qed simp_all

end
