(* ===== verification/Compaction.thy ===== *)
theory Compaction
  imports CompactText
begin

text \<open>
  Context compaction of the agent loop (agent/compaction: settings.go, cutpoint.go,
  overflow.go, prepare.go, fallback.go, compactor.go): when to compact, where to cut, what is
  summarised and what is kept, and the retry and fallback around the summarizer. The
  summarizer's streams are inputs; everything decided around them is modelled.
\<close>

section \<open>Settings\<close>

record settings =
  set_enabled :: bool
  set_window :: int
  set_reserve :: int
  set_keep :: int
  set_max_summary :: int
  set_stall :: int

definition normalize_settings :: "settings \<Rightarrow> settings" where
  "normalize_settings s0 =
     (let s1 = (if set_reserve s0 \<le> 0 then s0\<lparr>set_reserve := 16384\<rparr> else s0);
          s2 = (if set_keep s1 \<le> 0 then s1\<lparr>set_keep := 20000\<rparr> else s1);
          quarter = go_div (set_window s2 - set_reserve s2) 4
      in if 0 < set_window s2 \<and> 0 < quarter \<and> quarter < set_keep s2
         then s2\<lparr>set_keep := quarter\<rparr> else s2)"

definition stall_timeout :: "settings \<Rightarrow> int" where
  "stall_timeout s = (if 0 < set_stall s then set_stall s else 120 * 1000000000)"

definition threshold :: "settings \<Rightarrow> int" where
  "threshold s = (if set_window s \<le> 0 then 0 else max (set_window s - set_reserve s) 1)"

definition should_compact :: "settings \<Rightarrow> int \<Rightarrow> bool" where
  "should_compact s n \<longleftrightarrow> set_enabled s \<and> 0 < threshold s \<and> threshold s < n"

definition summary_budget :: "settings \<Rightarrow> int" where
  "summary_budget s =
     (let b1 = go_div (set_reserve s * 4) 5;
          b2 = (if 0 < set_max_summary s \<and> set_max_summary s < b1 then set_max_summary s else b1);
          b3 = (if 0 < set_keep s \<and> set_keep s < b2 then set_keep s else b2)
      in max b3 1024)"

definition turn_prefix_budget :: "settings \<Rightarrow> int" where
  "turn_prefix_budget s = max (go_div (summary_budget s) 2) 512"

text \<open>The prompt texts of prompts.go, of which only the sizes matter here.\<close>

record prompts =
  pr_system :: string
  pr_initial :: string
  pr_update :: string
  pr_prefix :: string

definition summarizer_prompt_tokens :: "estimator \<Rightarrow> prompts \<Rightarrow> int" where
  "summarizer_prompt_tokens e pr = estimate_string e (pr_system pr)
     + max (max (estimate_string e (pr_initial pr)) (estimate_string e (pr_update pr))) (estimate_string e (pr_prefix pr))
     + 256"

definition summarizer_input_budget :: "settings \<Rightarrow> estimator \<Rightarrow> prompts \<Rightarrow> string \<Rightarrow> int \<Rightarrow> int" where
  "summarizer_input_budget s e pr prev max_tokens =
     (if set_window s \<le> 0 then 0
      else max (go_div ((set_window s
        - (max_tokens + summarizer_prompt_tokens e pr + estimate_string e prev)) * 9) 10) 1)"

section \<open>The cut point\<close>

record cut_point =
  cut_kept :: nat
  cut_turn :: "nat option"
  cut_split :: bool

definition is_cut_message :: "chat_msg \<Rightarrow> bool" where
  "is_cut_message m \<longleftrightarrow> msg_role m \<noteq> role_tool"

definition is_turn_start :: "chat_msg \<Rightarrow> bool" where
  "is_turn_start m \<longleftrightarrow> msg_role m = role_user"

definition history_start :: "chat_msg list \<Rightarrow> nat" where
  "history_start ms = (if ms \<noteq> [] \<and> msg_role (hd ms) = role_system then 1 else 0)"

text \<open>\<open>findTurnStartIdx\<close>: \<open>i + 1\<close> is the number of indices still to look at.\<close>

fun find_turn_start :: "chat_msg list \<Rightarrow> nat \<Rightarrow> nat \<Rightarrow> nat option" where
  "find_turn_start ms start 0 = None"
| "find_turn_start ms start (Suc i) =
     (if i < start then None else if is_turn_start (ms ! i) then Some i else find_turn_start ms start i)"

text \<open>The backward walk of \<open>FindCutPoint\<close>.\<close>

fun cut_scan :: "estimator \<Rightarrow> chat_msg list \<Rightarrow> nat \<Rightarrow> int \<Rightarrow> nat \<Rightarrow> int \<Rightarrow> nat \<Rightarrow> nat" where
  "cut_scan e ms start keep 0 acc best = best"
| "cut_scan e ms start keep (Suc i) acc best =
     (if i < start then best
      else (let acc' = acc + estimate_message e (ms ! i) in
        if keep < acc' then best
        else cut_scan e ms start keep i acc' (if is_cut_message (ms ! i) then i else best)))"

definition find_cut_point :: "estimator \<Rightarrow> chat_msg list \<Rightarrow> int \<Rightarrow> int \<Rightarrow> cut_point" where
  "find_cut_point e ms start0 keep =
     (let start = nat (max start0 0);
          cuts = filter (\<lambda>i. is_cut_message (ms ! i)) [start..<length ms]
      in if cuts = [] then \<lparr>cut_kept = start, cut_turn = None, cut_split = False\<rparr>
         else (let k = cut_scan e ms start keep (length ms) 0 (last cuts) in
           if is_turn_start (ms ! k) then \<lparr>cut_kept = k, cut_turn = None, cut_split = False\<rparr>
           else (let t = find_turn_start ms start (k + 1)
                 in \<lparr>cut_kept = k, cut_turn = t, cut_split = (t \<noteq> None)\<rparr>)))"

text \<open>The estimated size of the messages kept from an index on.\<close>

definition tail_cost :: "estimator \<Rightarrow> chat_msg list \<Rightarrow> nat \<Rightarrow> int" where
  "tail_cost e ms i = sum_list (map (estimate_message e) (drop i ms))"

definition legal_cut :: "chat_msg list \<Rightarrow> nat \<Rightarrow> nat \<Rightarrow> bool" where
  "legal_cut ms start i \<longleftrightarrow> start \<le> i \<and> i < length ms \<and> is_cut_message (ms ! i)"

lemma tail_cost_step: "i < length ms \<Longrightarrow> tail_cost e ms i = estimate_message e (ms ! i) + tail_cost e ms (Suc i)"
  by (simp add: tail_cost_def Cons_nth_drop_Suc [symmetric])

lemma tail_cost_mono:
  assumes "est_ok e" "i \<le> j"
  shows "tail_cost e ms j \<le> tail_cost e ms i"
  using assms(2)
proof (induction rule: dec_induct)
  case (step n)
  show ?case
  proof (cases "n < length ms")
    case True
    then show ?thesis using step estimate_message_pos [OF assms(1), of "ms ! n"] by (simp add: tail_cost_step)
  next
    case False
    then show ?thesis using step by (simp add: tail_cost_def)
  qed
qed simp

text \<open>
  What the walk finds: the earliest legal cut whose tail fits, when some legal cut below the
  index it has reached fits, and otherwise the cut it already had.
\<close>

lemma cut_scan_spec:
  assumes "est_ok e" "i \<le> length ms" "acc = tail_cost e ms i"
  shows "let k = cut_scan e ms start keep i acc best in
    (k = best \<and> (\<forall>j. legal_cut ms start j \<and> j < i \<longrightarrow> keep < tail_cost e ms j))
    \<or> (legal_cut ms start k \<and> k < i \<and> tail_cost e ms k \<le> keep
       \<and> (\<forall>j. legal_cut ms start j \<and> j < k \<longrightarrow> keep < tail_cost e ms j))"
  using assms
proof (induction i arbitrary: acc best)
  case (Suc i)
  have i: "i < length ms" using Suc.prems by simp
  have acc: "acc + estimate_message e (ms ! i) = tail_cost e ms i"
    using Suc.prems(3) i by (simp add: tail_cost_step)
  show ?case
  proof (cases "i < start")
    case True
    then show ?thesis by (auto simp: legal_cut_def)
  next
    case start: False
    show ?thesis
    proof (cases "keep < tail_cost e ms i")
      case True
      have "keep < tail_cost e ms j" if "j < Suc i" for j
        using tail_cost_mono [OF Suc.prems(1), of j i ms] True that by simp
      then show ?thesis using start True acc by (auto simp: Let_def)
    next
      case False
      let ?best = "if is_cut_message (ms ! i) then i else best"
      have eq: "cut_scan e ms start keep (Suc i) acc best = cut_scan e ms start keep i (tail_cost e ms i) ?best"
        using start False acc by (simp add: Let_def)
      have ih: "let k = cut_scan e ms start keep i (tail_cost e ms i) ?best in
        (k = ?best \<and> (\<forall>j. legal_cut ms start j \<and> j < i \<longrightarrow> keep < tail_cost e ms j))
        \<or> (legal_cut ms start k \<and> k < i \<and> tail_cost e ms k \<le> keep
           \<and> (\<forall>j. legal_cut ms start j \<and> j < k \<longrightarrow> keep < tail_cost e ms j))"
        using Suc.IH [OF Suc.prems(1)] i by simp
      show ?thesis
      proof (cases "is_cut_message (ms ! i)")
        case True
        then have "legal_cut ms start i" using start i by (simp add: legal_cut_def)
        then show ?thesis using ih True False unfolding eq Let_def
          by (auto simp: less_Suc_eq)
      next
        case not_cut: False
        then have "\<not> legal_cut ms start i" by (simp add: legal_cut_def)
        then show ?thesis using ih not_cut unfolding eq Let_def
          by (auto simp: less_Suc_eq)
      qed
    qed
  qed
qed (simp add: legal_cut_def)

lemma find_turn_start_Some:
  "find_turn_start ms start n = Some t \<Longrightarrow> start \<le> t \<and> t < n \<and> is_turn_start (ms ! t)
    \<and> (\<forall>j. t < j \<and> j < n \<longrightarrow> \<not> is_turn_start (ms ! j))"
proof (induction n)
  case (Suc n)
  show ?case
  proof (cases "is_turn_start (ms ! n)")
    case True
    then show ?thesis using Suc.prems by (auto split: if_splits)
  next
    case False
    then show ?thesis using Suc by (auto split: if_splits simp: less_Suc_eq)
  qed
qed simp

lemma cuts_legal:
  "set (filter (\<lambda>i. is_cut_message (ms ! i)) [start..<length ms]) = {i. legal_cut ms start i}"
  by (auto simp: legal_cut_def)

lemma last_cut_max:
  assumes "cuts = filter P [a..<n]" "cuts \<noteq> []" "j \<in> set cuts"
  shows "j \<le> last cuts"
proof -
  have "sorted cuts" unfolding assms(1) by (simp add: sorted_filter [of id, simplified])
  then show ?thesis using assms(2,3)
    by (metis in_set_conv_nth last_conv_nth length_greater_0_conv diff_less less_numeral_extra(1) sorted_nth_mono
        Suc_pred' less_Suc_eq_le)
qed

definition cut_candidates :: "chat_msg list \<Rightarrow> nat \<Rightarrow> nat list" where
  "cut_candidates ms start = filter (\<lambda>i. is_cut_message (ms ! i)) [start..<length ms]"

lemma cut_candidates_legal: "set (cut_candidates ms start) = {i. legal_cut ms start i}"
  unfolding cut_candidates_def by (rule cuts_legal)

lemma cut_candidates_last:
  assumes "legal_cut ms start i"
  shows "cut_candidates ms start \<noteq> []" "legal_cut ms start (last (cut_candidates ms start))"
    "i \<le> last (cut_candidates ms start)"
proof -
  have i: "i \<in> set (cut_candidates ms start)" using assms cut_candidates_legal by blast
  then show ne: "cut_candidates ms start \<noteq> []" by auto
  show "legal_cut ms start (last (cut_candidates ms start))"
    using last_in_set [OF ne] cut_candidates_legal by blast
  show "i \<le> last (cut_candidates ms start)"
    using last_cut_max [OF cut_candidates_def ne i] .
qed

definition chosen_cut :: "estimator \<Rightarrow> chat_msg list \<Rightarrow> nat \<Rightarrow> int \<Rightarrow> nat" where
  "chosen_cut e ms start keep = cut_scan e ms start keep (length ms) 0 (last (cut_candidates ms start))"

lemma find_cut_point_conv:
  "find_cut_point e ms start0 keep =
     (if cut_candidates ms (nat (max start0 0)) = []
      then \<lparr>cut_kept = nat (max start0 0), cut_turn = None, cut_split = False\<rparr>
      else if is_turn_start (ms ! chosen_cut e ms (nat (max start0 0)) keep)
      then \<lparr>cut_kept = chosen_cut e ms (nat (max start0 0)) keep, cut_turn = None, cut_split = False\<rparr>
      else \<lparr>cut_kept = chosen_cut e ms (nat (max start0 0)) keep,
             cut_turn = find_turn_start ms (nat (max start0 0)) (chosen_cut e ms (nat (max start0 0)) keep + 1),
             cut_split = (find_turn_start ms (nat (max start0 0)) (chosen_cut e ms (nat (max start0 0)) keep + 1) \<noteq> None)\<rparr>)"
  unfolding find_cut_point_def chosen_cut_def cut_candidates_def Let_def by (rule refl)

lemma chosen_cut_best:
  assumes "est_ok e" "legal_cut ms start i" "k = chosen_cut e ms start keep"
  shows "legal_cut ms start k" "tail_cost e ms k \<le> keep \<or> (\<forall>j. legal_cut ms start j \<longrightarrow> j \<le> k)"
    "\<forall>j. legal_cut ms start j \<and> j < k \<longrightarrow> keep < tail_cost e ms j"
proof -
  let ?l = "last (cut_candidates ms start)"
  have l: "legal_cut ms start ?l" "\<forall>j. legal_cut ms start j \<longrightarrow> j \<le> ?l"
    using cut_candidates_last assms(2) by blast+
  have "(k = ?l \<and> (\<forall>j. legal_cut ms start j \<and> j < length ms \<longrightarrow> keep < tail_cost e ms j))
    \<or> (legal_cut ms start k \<and> k < length ms \<and> tail_cost e ms k \<le> keep
       \<and> (\<forall>j. legal_cut ms start j \<and> j < k \<longrightarrow> keep < tail_cost e ms j))"
    using cut_scan_spec [OF assms(1), of "length ms" ms 0 start keep ?l]
    unfolding assms(3) chosen_cut_def Let_def by (simp add: tail_cost_def)
  moreover have "legal_cut ms start j \<Longrightarrow> j < length ms" for j by (simp add: legal_cut_def)
  ultimately show "legal_cut ms start k" "tail_cost e ms k \<le> keep \<or> (\<forall>j. legal_cut ms start j \<longrightarrow> j \<le> k)"
    "\<forall>j. legal_cut ms start j \<and> j < k \<longrightarrow> keep < tail_cost e ms j"
    using l by blast+
qed

lemma cut_scan_legal:
  "legal_cut ms start k \<Longrightarrow> i \<le> length ms \<Longrightarrow> legal_cut ms start (cut_scan e ms start keep i acc k)"
  by (induction i arbitrary: acc k) (auto simp: Let_def legal_cut_def)

lemma chosen_cut_legal: "legal_cut ms start i \<Longrightarrow> legal_cut ms start (chosen_cut e ms start keep)"
  unfolding chosen_cut_def using cut_candidates_last(2) by (blast intro: cut_scan_legal)

lemma cut_kept_conv: "legal_cut ms (nat (max start0 0)) i \<Longrightarrow>
    cut_kept (find_cut_point e ms start0 keep) = chosen_cut e ms (nat (max start0 0)) keep"
  using cut_candidates_last(1) by (simp add: find_cut_point_conv)

text \<open>Without a legal cut nothing is kept behind the start, and no turn is split.\<close>

lemma cut_kept_none: "\<nexists>i. legal_cut ms (nat (max start0 0)) i \<Longrightarrow>
    find_cut_point e ms start0 keep = \<lparr>cut_kept = nat (max start0 0), cut_turn = None, cut_split = False\<rparr>"
  using cut_candidates_legal [of ms "nat (max start0 0)"] by (simp add: find_cut_point_conv)

lemma find_cut_point_split:
  "cut_split (find_cut_point e ms start0 keep) \<longleftrightarrow> cut_turn (find_cut_point e ms start0 keep) \<noteq> None"
  by (simp add: find_cut_point_conv)

lemma find_cut_point_turn:
  assumes "cut_turn (find_cut_point e ms start0 keep) = Some t"
  shows "nat (max start0 0) \<le> t \<and> t < cut_kept (find_cut_point e ms start0 keep) \<and> is_turn_start (ms ! t)"
proof -
  define k where "k = chosen_cut e ms (nat (max start0 0)) keep"
  have k: "find_turn_start ms (nat (max start0 0)) (k + 1) = Some t" "\<not> is_turn_start (ms ! k)"
    "cut_kept (find_cut_point e ms start0 keep) = k"
    using assms unfolding find_cut_point_conv k_def [symmetric] by (simp_all split: if_splits)
  then have "t \<noteq> k" using find_turn_start_Some [OF k(1)] by blast
  then show ?thesis using find_turn_start_Some [OF k(1)] k(3) by simp
qed

section \<open>Preparation\<close>

definition summary_prefix :: string where
  "summary_prefix = ''The conversation history before this point was compacted into the following summary:\<newline>\<newline><summary>\<newline>''"

definition summary_suffix :: string where
  "summary_suffix = ''\<newline></summary>''"

definition blank_message :: chat_msg where
  "blank_message = \<lparr>msg_role = [], msg_content = [], msg_multi = [], msg_name = [], msg_call_id = [],
     msg_calls = [], msg_images = 0, msg_reasoning = [], msg_signature = [], msg_meta = [], msg_kind = [], msg_turn = []\<rparr>"

definition summary_message :: "string \<Rightarrow> chat_msg" where
  "summary_message txt = blank_message\<lparr>msg_role := role_user, msg_kind := kind_summary,
     msg_content := summary_prefix @ txt @ summary_suffix\<rparr>"

definition unwrap_summary :: "string \<Rightarrow> string" where
  "unwrap_summary content = (case str_index ''<summary>'' content of
       None \<Rightarrow> trim_space content
     | Some i \<Rightarrow> (let start = i + length ''<summary>'' in
         case str_last_index ''</summary>'' content of
           None \<Rightarrow> trim_space (drop start content)
         | Some j \<Rightarrow> if j < start then trim_space (drop start content)
                     else trim_space (take (j - start) (drop start content))))"

text \<open>The newest earlier summary at or after an index; the walk is from the end.\<close>

fun last_summary :: "chat_msg list \<Rightarrow> nat \<Rightarrow> nat \<Rightarrow> nat option" where
  "last_summary ms start 0 = None"
| "last_summary ms start (Suc i) =
     (if i < start then None else if msg_kind (ms ! i) = kind_summary then Some i else last_summary ms start i)"

definition boundary :: "chat_msg list \<Rightarrow> nat" where
  "boundary ms = (case last_summary ms (history_start ms) (length ms) of
       None \<Rightarrow> history_start ms | Some i \<Rightarrow> i + 1)"

definition previous_summary :: "chat_msg list \<Rightarrow> string" where
  "previous_summary ms = (case last_summary ms (history_start ms) (length ms) of
       None \<Rightarrow> [] | Some i \<Rightarrow> unwrap_summary (message_text (ms ! i)))"

definition clone_range :: "chat_msg list \<Rightarrow> nat \<Rightarrow> nat \<Rightarrow> chat_msg list" where
  "clone_range ms a b = take (b - a) (drop a ms)"

definition fit_summarizer_input ::
    "json_fns \<Rightarrow> estimator \<Rightarrow> chat_msg list \<Rightarrow> int \<Rightarrow> chat_msg list \<times> nat" where
  "fit_summarizer_input js e ms budget =
     (let k = omitted_oldest budget (map (\<lambda>m. estimate_string e (serialize_conversation js [m])) ms)
      in (drop k ms, k))"

definition stored_turn_ending_at :: "chat_msg list \<Rightarrow> nat \<Rightarrow> string" where
  "stored_turn_ending_at ms n =
     (if n = 0 \<or> length ms < n then []
      else (let t = msg_turn (ms ! (n - 1)) in
        if t = [] then [] else if n < length ms \<and> msg_turn (ms ! n) = t then [] else t))"

record preparation =
  pp_kept :: nat
  pp_history :: "chat_msg list"
  pp_prefix :: "chat_msg list"
  pp_split :: bool
  pp_previous :: string
  pp_before :: int
  pp_omitted_history :: nat
  pp_omitted_prefix :: nat
  pp_ops :: file_ops
  pp_history_ops :: file_ops
  pp_turn :: string

definition history_end :: "cut_point \<Rightarrow> nat" where
  "history_end cp = (case cut_turn cp of Some t \<Rightarrow> if cut_split cp then t else cut_kept cp | None \<Rightarrow> cut_kept cp)"

definition prepare ::
    "json_fns \<Rightarrow> prompts \<Rightarrow> chat_msg list \<Rightarrow> settings \<Rightarrow> estimator option \<Rightarrow> preparation option" where
  "prepare js pr ms s0 oe = (case oe of None \<Rightarrow> None | Some e \<Rightarrow>
     if ms = [] then None
     else (let s = normalize_settings s0; b = boundary ms; prev = previous_summary ms in
       if length ms \<le> b then None
       else (let cp = find_cut_point e ms (int b) (set_keep s);
                 hist = clone_range ms b (history_end cp);
                 pref = (if cut_split cp then clone_range ms (history_end cp) (cut_kept cp) else [])
             in if hist = [] \<and> pref = [] then None
                else (let (h, oh) = fit_summarizer_input js e hist
                             (summarizer_input_budget s e pr prev (summary_budget s));
                          (p, op) = fit_summarizer_input js e pref
                             (summarizer_input_budget s e pr [] (turn_prefix_budget s))
                      in Some \<lparr>pp_kept = cut_kept cp, pp_history = h, pp_prefix = p, pp_split = cut_split cp,
                           pp_previous = prev, pp_before = estimate_messages e ms,
                           pp_omitted_history = oh, pp_omitted_prefix = op,
                           pp_ops = extract_file_ops js prev [hist, pref],
                           pp_history_ops = extract_file_ops js prev [hist],
                           pp_turn = stored_turn_ending_at ms (history_end cp)\<rparr>))))"

text \<open>\<open>Apply\<close>: the system prompt, the summary and the kept tail.\<close>

definition apply_summary :: "chat_msg list \<Rightarrow> preparation \<Rightarrow> string \<Rightarrow> chat_msg list" where
  "apply_summary ms p txt =
     (if history_start ms = 1 then [hd ms] else []) @ [summary_message txt] @ drop (pp_kept p) ms"

section \<open>The compactor\<close>

datatype sum_error =
    SumStalled
  | SumCancelled
  | SumOpen string
  | SumNoStream
  | SumStream string
  | SumEmpty
  | SumIncomplete
  | SumTokenCap
  | SumFailed nat sum_error

text \<open>
  What a summarization stream delivers: chunks (kind, content, finish reason), its end, or the
  end of the call. A stream that goes quiet is ended by the stall timer.
\<close>

datatype chunk_kind = KindError | KindThinking | KindContent
datatype stream_ev = EvChunk chunk_kind string string | EvClosed | EvCancelled
datatype stream_open = OpenFailed string | OpenNil | Opened "stream_ev list"

fun collect_stream :: "stream_ev list \<Rightarrow> string \<Rightarrow> string \<Rightarrow> string \<Rightarrow> sum_error + (string \<times> string)" where
  "collect_stream [] acc fin err = Inl SumStalled"
| "collect_stream (EvCancelled # evs) acc fin err = Inl SumCancelled"
| "collect_stream (EvClosed # evs) acc fin err =
     (if err \<noteq> [] then Inl (SumStream err) else Inr (acc, fin))"
| "collect_stream (EvChunk k c f # evs) acc fin err =
     (let fin' = (if f \<noteq> [] then f else fin) in
      case k of
        KindError \<Rightarrow> collect_stream evs acc fin' c
      | KindThinking \<Rightarrow> collect_stream evs acc fin' err
      | KindContent \<Rightarrow> collect_stream evs (acc @ c) fin' err)"

definition stream_summary :: "stream_open \<Rightarrow> sum_error + (string \<times> string)" where
  "stream_summary so = (case so of OpenFailed e \<Rightarrow> Inl (SumOpen e) | OpenNil \<Rightarrow> Inl SumNoStream
     | Opened evs \<Rightarrow> collect_stream evs [] [] [])"

definition length_stops :: "string list" where
  "length_stops = [''length'', ''max_tokens'', ''max_output_tokens'', ''model_context_window_exceeded'']"

definition is_length_stop :: "string \<Rightarrow> bool" where
  "is_length_stop reason \<longleftrightarrow> to_lower (trim_space reason) \<in> set length_stops"

definition validate_summary :: "string \<Rightarrow> string \<Rightarrow> sum_error option" where
  "validate_summary content fin =
     (if trim_space content = [] then Some SumEmpty
      else if to_lower (trim_space fin) = ''incomplete'' then Some SumIncomplete
      else if is_length_stop fin then Some SumTokenCap
      else None)"

definition response_hit_context_limit :: "int \<Rightarrow> int \<Rightarrow> string \<Rightarrow> int \<Rightarrow> int \<Rightarrow> bool" where
  "response_hit_context_limit prompt completion reason window budget \<longleftrightarrow>
     (0 < window \<and> window < prompt)
     \<or> (0 < window \<and> is_length_stop reason \<and> completion = 0 \<and> 0 < prompt \<and> go_div (window * 99) 100 \<le> prompt)
     \<or> (is_length_stop reason \<and> 0 < budget \<and> 0 < completion \<and> completion < budget)"

definition build_summarization_prompt :: "json_fns \<Rightarrow> chat_msg list \<Rightarrow> nat \<Rightarrow> string \<Rightarrow> string \<Rightarrow> string" where
  "build_summarization_prompt js ms omitted prev instructions =
     ''<conversation>\<newline>''
     @ (if 0 < omitted then ''['' @ itoa omitted @ '' earlier messages are not shown: they did not fit in one summarization request, and no previous summary covers them. Do not guess at what they said.]\<newline>\<newline>'' else [])
     @ serialize_conversation js ms @ ''\<newline></conversation>\<newline>\<newline>''
     @ (if prev \<noteq> [] then ''<previous-summary>\<newline>'' @ prev @ ''\<newline></previous-summary>\<newline>\<newline>'' else [])
     @ instructions"

text \<open>
  The model behind the compactor: the stream of each attempt at a request with its token cap,
  and whether the turn has been stopped by the end of the attempt.
\<close>

record summarizer =
  sm_stream :: "nat \<Rightarrow> chat_msg list \<Rightarrow> int \<Rightarrow> stream_open"
  sm_stopped :: "nat \<Rightarrow> bool"

definition max_attempts :: nat where
  "max_attempts = 2"

fun summarize_loop :: "summarizer \<Rightarrow> chat_msg list \<Rightarrow> int \<Rightarrow> nat \<Rightarrow> nat \<Rightarrow> sum_error \<Rightarrow> sum_error + string" where
  "summarize_loop sm req cap 0 attempt last_err = Inl (SumFailed max_attempts last_err)"
| "summarize_loop sm req cap (Suc n) attempt last_err =
     (let r = (case stream_summary (sm_stream sm attempt req cap) of
                 Inl er \<Rightarrow> Inl er
               | Inr (content, fin) \<Rightarrow> (case validate_summary content fin of
                     Some er \<Rightarrow> Inl er | None \<Rightarrow> Inr (trim_space content)))
      in case r of
           Inr txt \<Rightarrow> Inr txt
         | Inl er \<Rightarrow> if sm_stopped sm attempt then Inl (SumFailed max_attempts er)
                     else summarize_loop sm req cap n (attempt + 1) er)"

definition summarize ::
    "json_fns \<Rightarrow> prompts \<Rightarrow> summarizer \<Rightarrow> chat_msg list \<Rightarrow> nat \<Rightarrow> string \<Rightarrow> string \<Rightarrow> int \<Rightarrow> sum_error + string" where
  "summarize js pr sm ms omitted prev instructions cap =
     summarize_loop sm
       [blank_message\<lparr>msg_role := role_system, msg_content := pr_system pr\<rparr>,
        blank_message\<lparr>msg_role := role_user,
          msg_content := build_summarization_prompt js ms omitted prev instructions\<rparr>]
       cap max_attempts 1 SumEmpty"

definition join_non_empty :: "string list \<Rightarrow> string" where
  "join_non_empty parts = join ''\<newline>\<newline>'' (filter (\<lambda>p. trim_space p \<noteq> []) parts)"

definition fallback_omission :: string where
  "fallback_omission = ''[Earlier context omitted to keep the fallback summary within its token budget.]''"

definition fallback_history :: "json_fns \<Rightarrow> estimator \<Rightarrow> settings \<Rightarrow> preparation \<Rightarrow> string" where
  "fallback_history js e s p =
     (let budget = summary_budget s;
          prev = without_file_ops (pp_previous p);
          archive = raw_archive js (pp_history p) budget (Some e);
          combined = join_non_empty [prev, archive]
      in if estimate_string e combined \<le> budget then combined
         else (let prev' = fit_fallback_text prev (\<lambda>t. estimate_string e t \<le> go_div budget 2) False;
                   pre = join_non_empty [prev', fallback_omission];
                   archive' = fit_fallback_text archive (\<lambda>t. estimate_string e (join_non_empty [pre, t]) \<le> budget) True
               in join_non_empty [pre, archive']))"

definition summarize_history ::
    "json_fns \<Rightarrow> prompts \<Rightarrow> estimator \<Rightarrow> settings \<Rightarrow> summarizer \<Rightarrow> preparation \<Rightarrow> string \<times> bool" where
  "summarize_history js pr e s sm p =
     (if pp_history p = [] then (pp_previous p, False)
      else case summarize js pr sm (pp_history p) (pp_omitted_history p) (pp_previous p)
             (if pp_previous p \<noteq> [] then pr_update pr else pr_initial pr) (summary_budget s) of
          Inl _ \<Rightarrow> (fallback_history js e s p, True)
        | Inr txt \<Rightarrow> (txt, False))"

definition split_turn_separator :: string where
  "split_turn_separator = ''\<newline>\<newline>---\<newline>\<newline>**Turn Context (split turn):**\<newline>\<newline>''"

definition append_turn_prefix ::
    "json_fns \<Rightarrow> prompts \<Rightarrow> estimator \<Rightarrow> settings \<Rightarrow> summarizer \<Rightarrow> preparation \<Rightarrow> string \<Rightarrow> string \<times> bool" where
  "append_turn_prefix js pr e s sm p history =
     (if \<not> pp_split p \<or> pp_prefix p = [] then (history, False)
      else (let (pref, degraded) =
                  (case summarize js pr sm (pp_prefix p) (pp_omitted_prefix p) [] (pr_prefix pr) (turn_prefix_budget s) of
                     Inl _ \<Rightarrow> (raw_archive js (pp_prefix p) (turn_prefix_budget s) (Some e), True)
                   | Inr txt \<Rightarrow> (txt, False))
            in ((if history = [] then ''No prior history.'' else history) @ split_turn_separator @ pref, degraded)))"

record checkpoint =
  ck_turn :: string
  ck_summary :: string
  ck_degraded :: bool

definition make_checkpoint :: "preparation \<Rightarrow> string \<Rightarrow> bool \<Rightarrow> checkpoint option" where
  "make_checkpoint p history degraded =
     (if pp_turn p = [] \<or> pp_history p = [] then None
      else Some \<lparr>ck_turn = pp_turn p, ck_summary = history @ format_ops (pp_history_ops p), ck_degraded = degraded\<rparr>)"

record compact_result =
  cr_messages :: "chat_msg list"
  cr_summary :: string
  cr_before :: int
  cr_after :: int
  cr_degraded :: bool
  cr_split :: bool
  cr_checkpoint :: "checkpoint option"
  cr_omitted :: nat

datatype compact_error = ErrNothingToCompact

record compactor =
  cm_estimator :: estimator
  cm_settings :: settings

definition new_compactor :: "bool \<Rightarrow> estimator option \<Rightarrow> settings \<Rightarrow> compactor option" where
  "new_compactor has_model oe s = (case oe of None \<Rightarrow> None | Some e \<Rightarrow>
     if \<not> has_model \<or> set_window s \<le> 0 then None
     else Some \<lparr>cm_estimator = e, cm_settings = normalize_settings s\<rparr>)"

definition compact ::
    "json_fns \<Rightarrow> prompts \<Rightarrow> compactor option \<Rightarrow> summarizer \<Rightarrow> chat_msg list \<Rightarrow> compact_error + compact_result" where
  "compact js pr oc sm ms = (case oc of None \<Rightarrow> Inl ErrNothingToCompact | Some c \<Rightarrow>
     (case prepare js pr ms (cm_settings c) (Some (cm_estimator c)) of
        None \<Rightarrow> Inl ErrNothingToCompact
      | Some p \<Rightarrow>
          (let (history, hd1) = summarize_history js pr (cm_estimator c) (cm_settings c) sm p;
               (txt, pd) = append_turn_prefix js pr (cm_estimator c) (cm_settings c) sm p history;
               summary = txt @ format_ops (pp_ops p);
               out = apply_summary ms p summary
           in Inr \<lparr>cr_messages = out, cr_summary = summary, cr_before = pp_before p,
                cr_after = estimate_messages (cm_estimator c) out, cr_degraded = (hd1 \<or> pd),
                cr_split = pp_split p, cr_checkpoint = make_checkpoint p history hd1,
                cr_omitted = pp_omitted_history p + pp_omitted_prefix p\<rparr>)))"

definition freed :: "compact_result \<Rightarrow> int" where
  "freed r = cr_before r - cr_after r"

section \<open>What a preparation is\<close>

lemma last_summary_Some:
  "last_summary ms start n = Some i \<Longrightarrow> start \<le> i \<and> i < n \<and> msg_kind (ms ! i) = kind_summary
     \<and> (\<forall>j. i < j \<and> j < n \<longrightarrow> msg_kind (ms ! j) \<noteq> kind_summary)"
proof (induction n)
  case (Suc n)
  show ?case
  proof (cases "n < start \<or> msg_kind (ms ! n) = kind_summary")
    case True
    then show ?thesis using Suc.prems by (auto split: if_splits)
  next
    case False
    then have "last_summary ms start n = Some i" using Suc.prems by simp
    with Suc.IH have ih: "start \<le> i \<and> i < n \<and> msg_kind (ms ! i) = kind_summary"
      "\<And>j. i < j \<Longrightarrow> j < n \<Longrightarrow> msg_kind (ms ! j) \<noteq> kind_summary" by blast+
    then show ?thesis using False by (metis less_SucE less_SucI)
  qed
qed simp

lemma last_summary_None:
  "last_summary ms start n = None \<Longrightarrow> start \<le> j \<Longrightarrow> j < n \<Longrightarrow> msg_kind (ms ! j) \<noteq> kind_summary"
proof (induction n)
  case (Suc n)
  show ?case
  proof (cases "n = j")
    case True
    then show ?thesis using Suc.prems by (auto split: if_splits)
  next
    case False
    have "\<not> n < start" using Suc.prems by simp
    then have "last_summary ms start n = None" using Suc.prems(1) by (auto split: if_splits)
    then show ?thesis using Suc.IH Suc.prems False by simp
  qed
qed simp

lemma boundary_ge: "history_start ms \<le> boundary ms"
  by (auto simp: boundary_def dest: last_summary_Some split: option.splits)

lemma no_summary_after_boundary:
  "boundary ms \<le> j \<Longrightarrow> j < length ms \<Longrightarrow> msg_kind (ms ! j) \<noteq> kind_summary"
proof (cases "last_summary ms (history_start ms) (length ms)")
  case None
  then show "boundary ms \<le> j \<Longrightarrow> j < length ms \<Longrightarrow> ?thesis"
    using last_summary_None [OF None] by (simp add: boundary_def)
next
  case (Some i)
  then show "boundary ms \<le> j \<Longrightarrow> j < length ms \<Longrightarrow> ?thesis"
    using last_summary_Some [OF Some] by (simp add: boundary_def)
qed

lemma history_end_le:
  "history_end (find_cut_point e ms start0 keep) \<le> cut_kept (find_cut_point e ms start0 keep)"
  using find_cut_point_turn [of e ms start0 keep]
  by (auto simp: history_end_def split: option.splits)

lemma history_end_ge:
  assumes "nat (max start0 0) \<le> cut_kept (find_cut_point e ms start0 keep)"
  shows "nat (max start0 0) \<le> history_end (find_cut_point e ms start0 keep)"
  using assms find_cut_point_turn [of e ms start0 keep]
  by (auto simp: history_end_def split: option.splits)

lemma clone_range_append:
  "a \<le> b \<Longrightarrow> b \<le> c \<Longrightarrow> clone_range ms a b @ clone_range ms b c = clone_range ms a c"
proof -
  assume ab: "a \<le> b" "b \<le> c"
  have "take (c - a) (drop a ms) = take (b - a) (drop a ms) @ take (c - a - (b - a)) (drop (b - a) (drop a ms))"
    using ab by (metis append_take_drop_id diff_le_mono le_add_diff_inverse min.absorb2 take_add take_drop)
  moreover have "drop (b - a) (drop a ms) = drop b ms" "c - a - (b - a) = c - b" using ab by simp_all
  ultimately show ?thesis by (simp add: clone_range_def)
qed

lemma clone_range_tail: "a \<le> b \<Longrightarrow> clone_range ms a b @ drop b ms = drop a ms"
  by (simp add: clone_range_def) (metis append_take_drop_id drop_drop le_add_diff_inverse2)

text \<open>A preparation comes from the cut at its kept index, which is legal and past the boundary.\<close>

lemma prepare_cut:
  assumes "prepare js pr ms s (Some e) = Some p"
  shows "pp_kept p = cut_kept (find_cut_point e ms (int (boundary ms)) (set_keep (normalize_settings s)))"
    "pp_split p = cut_split (find_cut_point e ms (int (boundary ms)) (set_keep (normalize_settings s)))"
    "legal_cut ms (boundary ms) (pp_kept p)" "boundary ms < pp_kept p" "ms \<noteq> []"
proof -
  let ?b = "boundary ms" and ?cp = "find_cut_point e ms (int (boundary ms)) (set_keep (normalize_settings s))"
  have k: "pp_kept p = cut_kept ?cp" "pp_split p = cut_split ?cp" and ne: "ms \<noteq> []" and lt: "?b < length ms"
    and nonempty: "clone_range ms ?b (history_end ?cp) \<noteq> []
      \<or> (cut_split ?cp \<and> clone_range ms (history_end ?cp) (cut_kept ?cp) \<noteq> [])"
    using assms by (auto simp: prepare_def Let_def split: if_splits prod.splits)
  then show "pp_kept p = cut_kept ?cp" "pp_split p = cut_split ?cp" "ms \<noteq> []" by simp_all
  have legal: "\<exists>i. legal_cut ms ?b i"
  proof (rule ccontr)
    assume none: "\<nexists>i. legal_cut ms ?b i"
    then have "?cp = \<lparr>cut_kept = ?b, cut_turn = None, cut_split = False\<rparr>"
      using cut_kept_none [of ms "int ?b"] by simp
    then show False using nonempty by (simp add: history_end_def clone_range_def)
  qed
  then obtain i where i: "legal_cut ms ?b i" by blast
  then have "cut_kept ?cp = chosen_cut e ms ?b (set_keep (normalize_settings s))"
    using cut_kept_conv [of ms "int ?b" i] by simp
  then show l: "legal_cut ms ?b (pp_kept p)" using chosen_cut_legal [OF i] k(1) by simp
  have "?b \<le> history_end ?cp" using history_end_ge [of "int ?b" e ms] l k(1) by (simp add: legal_cut_def)
  moreover have "history_end ?cp \<le> cut_kept ?cp" by (rule history_end_le)
  moreover have "?b \<noteq> cut_kept ?cp"
  proof
    assume eq: "?b = cut_kept ?cp"
    then have "history_end ?cp = ?b" using calculation by simp
    then show False using nonempty eq by (simp add: clone_range_def)
  qed
  ultimately show "?b < pp_kept p" using k(1) by simp
qed

definition history_range :: "estimator \<Rightarrow> chat_msg list \<Rightarrow> settings \<Rightarrow> chat_msg list" where
  "history_range e ms s = clone_range ms (boundary ms)
     (history_end (find_cut_point e ms (int (boundary ms)) (set_keep (normalize_settings s))))"

definition prefix_range :: "estimator \<Rightarrow> chat_msg list \<Rightarrow> settings \<Rightarrow> chat_msg list" where
  "prefix_range e ms s = (let cp = find_cut_point e ms (int (boundary ms)) (set_keep (normalize_settings s)) in
     if cut_split cp then clone_range ms (history_end cp) (cut_kept cp) else [])"

lemma prepare_fields:
  assumes "prepare js pr ms s (Some e) = Some p"
  shows "\<exists>b1 b2. (pp_history p, pp_omitted_history p) = fit_summarizer_input js e (history_range e ms s) b1
      \<and> (pp_prefix p, pp_omitted_prefix p) = fit_summarizer_input js e (prefix_range e ms s) b2"
    "pp_ops p = extract_file_ops js (previous_summary ms) [history_range e ms s, prefix_range e ms s]"
    "pp_before p = estimate_messages e ms"
    "pp_turn p = stored_turn_ending_at ms
       (history_end (find_cut_point e ms (int (boundary ms)) (set_keep (normalize_settings s))))"
    "pp_previous p = previous_summary ms"
proof -
  let ?h = "fit_summarizer_input js e (history_range e ms s)
    (summarizer_input_budget (normalize_settings s) e pr (previous_summary ms) (summary_budget (normalize_settings s)))"
  let ?p = "fit_summarizer_input js e (prefix_range e ms s)
    (summarizer_input_budget (normalize_settings s) e pr [] (turn_prefix_budget (normalize_settings s)))"
  have *: "(pp_history p, pp_omitted_history p) = ?h \<and> (pp_prefix p, pp_omitted_prefix p) = ?p
    \<and> pp_ops p = extract_file_ops js (previous_summary ms) [history_range e ms s, prefix_range e ms s]
    \<and> pp_before p = estimate_messages e ms
    \<and> pp_turn p = stored_turn_ending_at ms
       (history_end (find_cut_point e ms (int (boundary ms)) (set_keep (normalize_settings s))))
    \<and> pp_previous p = previous_summary ms"
    using assms unfolding prepare_def option.case Let_def
      history_range_def [symmetric] prefix_range_def [unfolded Let_def, symmetric]
    by (auto split: if_splits prod.splits)
  then show "\<exists>b1 b2. (pp_history p, pp_omitted_history p) = fit_summarizer_input js e (history_range e ms s) b1
      \<and> (pp_prefix p, pp_omitted_prefix p) = fit_summarizer_input js e (prefix_range e ms s) b2" by blast
  show "pp_ops p = extract_file_ops js (previous_summary ms) [history_range e ms s, prefix_range e ms s]"
    "pp_before p = estimate_messages e ms"
    "pp_turn p = stored_turn_ending_at ms
       (history_end (find_cut_point e ms (int (boundary ms)) (set_keep (normalize_settings s))))"
    "pp_previous p = previous_summary ms"
    using * by simp_all
qed

lemma fit_summarizer_input_le:
  "fit_summarizer_input js e ms b = (out, k) \<Longrightarrow> out = drop k ms \<and> k \<le> length ms"
  using omitted_oldest_le [of b "map (\<lambda>m. estimate_string e (serialize_conversation js [m])) ms"]
  by (auto simp: fit_summarizer_input_def Let_def)

text \<open>The ranges: what is summarised, what is left out of the request and what is kept.\<close>

lemma prepare_ranges:
  assumes "prepare js pr ms s (Some e) = Some p"
  shows "\<exists>hist pref. drop (boundary ms) ms = hist @ pref @ drop (pp_kept p) ms
    \<and> pp_history p = drop (pp_omitted_history p) hist \<and> pp_prefix p = drop (pp_omitted_prefix p) pref
    \<and> pp_omitted_history p \<le> length hist \<and> pp_omitted_prefix p \<le> length pref
    \<and> pp_ops p = extract_file_ops js (previous_summary ms) [hist, pref]
    \<and> (if pp_split p then pref \<noteq> [] \<and> is_turn_start (hd pref) else pref = [])"
proof -
  let ?b = "boundary ms" and ?cp = "find_cut_point e ms (int (boundary ms)) (set_keep (normalize_settings s))"
  note c = prepare_cut [OF assms]
  let ?hist = "history_range e ms s" and ?pref = "prefix_range e ms s"
  have b: "?b \<le> history_end ?cp" "history_end ?cp \<le> cut_kept ?cp"
    using history_end_ge [of "int ?b" e ms] history_end_le c(1,3) by (simp_all add: legal_cut_def)
  have fields: "pp_history p = drop (pp_omitted_history p) ?hist" "pp_prefix p = drop (pp_omitted_prefix p) ?pref"
    "pp_omitted_history p \<le> length ?hist" "pp_omitted_prefix p \<le> length ?pref"
    using prepare_fields(1) [OF assms] fit_summarizer_input_le by metis+
  note ranges = history_range_def prefix_range_def Let_def
  have part: "drop ?b ms = ?hist @ ?pref @ drop (pp_kept p) ms"
  proof (cases "cut_split ?cp")
    case True
    then show ?thesis using clone_range_tail [OF b(1), of ms] clone_range_tail [OF b(2), of ms] c(1) by (simp add: ranges)
  next
    case False
    then have "history_end ?cp = cut_kept ?cp"
      by (simp add: history_end_def split: option.splits)
    then show ?thesis using clone_range_tail [OF b(1), of ms] c(1) False by (simp add: ranges)
  qed
  have "if pp_split p then ?pref \<noteq> [] \<and> is_turn_start (hd ?pref) else ?pref = []"
  proof (cases "cut_split ?cp")
    case True
    then obtain t where t: "cut_turn ?cp = Some t" using find_cut_point_split by fastforce
    note tt = find_cut_point_turn [OF t]
    have e: "history_end ?cp = t" using t True by (simp add: history_end_def)
    have "t < length ms" using tt c(1,3) by (simp add: legal_cut_def)
    then have "?pref \<noteq> []" "hd ?pref = ms ! t"
      using tt True e by (simp_all add: ranges clone_range_def hd_drop_conv_nth)
    then show ?thesis using tt True c(2) by simp
  qed (simp add: c(2) ranges)
  then show ?thesis using part fields prepare_fields(2) [OF assms] by blast
qed

section \<open>Tool calls and their results\<close>

text \<open>
  Providers refuse a tool result that does not follow its call: every tool message stands in a
  run of tool messages behind an assistant message that made the call.
\<close>

definition tool_paired :: "chat_msg list \<Rightarrow> bool" where
  "tool_paired ms \<longleftrightarrow> (\<forall>i < length ms. msg_role (ms ! i) = role_tool \<longrightarrow>
     (\<exists>j < i. msg_role (ms ! j) = role_assistant \<and> msg_call_id (ms ! i) \<in> tc_id ` set (msg_calls (ms ! j))
       \<and> (\<forall>m. j < m \<and> m < i \<longrightarrow> msg_role (ms ! m) = role_tool)))"

lemma tool_paired_drop:
  assumes "tool_paired ms" "k < length ms" "msg_role (ms ! k) \<noteq> role_tool"
  shows "tool_paired (drop k ms)"
  unfolding tool_paired_def
proof (intro allI impI)
  fix i assume i: "i < length (drop k ms)" and tool: "msg_role (drop k ms ! i) = role_tool"
  have ki: "k + i < length ms" "msg_role (ms ! (k + i)) = role_tool" using i tool by simp_all
  then obtain j where j: "j < k + i" "msg_role (ms ! j) = role_assistant"
    "msg_call_id (ms ! (k + i)) \<in> tc_id ` set (msg_calls (ms ! j))"
    "\<forall>m. j < m \<and> m < k + i \<longrightarrow> msg_role (ms ! m) = role_tool"
    using assms(1) by (auto simp: tool_paired_def)
  have "0 < i" using ki(2) assms(3) by (cases i) auto
  then have "k \<le> j" using j(4) assms(3) by (metis less_add_same_cancel1 not_le)
  then show "\<exists>j < i. msg_role (drop k ms ! j) = role_assistant
      \<and> msg_call_id (drop k ms ! i) \<in> tc_id ` set (msg_calls (drop k ms ! j))
      \<and> (\<forall>m. j < m \<and> m < i \<longrightarrow> msg_role (drop k ms ! m) = role_tool)"
    using j i by (intro exI [of _ "j - k"]) auto
qed

lemma tool_paired_Cons:
  assumes "tool_paired ms" "msg_role m \<noteq> role_tool"
  shows "tool_paired (m # ms)"
  unfolding tool_paired_def
proof (intro allI impI)
  fix i assume i: "i < length (m # ms)" and tool: "msg_role ((m # ms) ! i) = role_tool"
  then obtain n where n: "i = Suc n" using assms(2) by (cases i) auto
  then obtain j where "j < n" "msg_role (ms ! j) = role_assistant"
    "msg_call_id (ms ! n) \<in> tc_id ` set (msg_calls (ms ! j))"
    "\<forall>k. j < k \<and> k < n \<longrightarrow> msg_role (ms ! k) = role_tool"
    using assms(1) i tool by (auto simp: tool_paired_def)
  then show "\<exists>j < i. msg_role ((m # ms) ! j) = role_assistant
      \<and> msg_call_id ((m # ms) ! i) \<in> tc_id ` set (msg_calls ((m # ms) ! j))
      \<and> (\<forall>k. j < k \<and> k < i \<longrightarrow> msg_role ((m # ms) ! k) = role_tool)"
    using n by (intro exI [of _ "Suc j"]) (auto simp: nth_Cons split: nat.splits)
qed

lemma history_start_system: "history_start ms = 1 \<Longrightarrow> ms \<noteq> [] \<and> msg_role (hd ms) = role_system"
  by (simp add: history_start_def split: if_splits)

lemma summary_message_simps [simp]:
  "msg_role (summary_message t) = role_user" "msg_kind (summary_message t) = kind_summary"
  "message_text (summary_message t) = summary_prefix @ t @ summary_suffix"
  by (simp_all add: summary_message_def message_text_def blank_message_def)

lemma apply_tool_paired:
  assumes "tool_paired ms" "prepare js pr ms s (Some e) = Some p"
  shows "tool_paired (apply_summary ms p txt)"
proof -
  have "legal_cut ms (boundary ms) (pp_kept p)" using prepare_cut(3) [OF assms(2)] .
  then have "tool_paired (drop (pp_kept p) ms)"
    by (intro tool_paired_drop [OF assms(1)]) (simp_all add: legal_cut_def is_cut_message_def)
  then show ?thesis using history_start_system [of ms]
    by (auto simp: apply_summary_def intro!: tool_paired_Cons)
qed

lemma compact_Inr:
  assumes "compact js pr (Some c) sm ms = Inr r"
  shows "\<exists>p. prepare js pr ms (cm_settings c) (Some (cm_estimator c)) = Some p
    \<and> cr_messages r = apply_summary ms p (cr_summary r)
    \<and> cr_before r = estimate_messages (cm_estimator c) ms
    \<and> (\<exists>history dg. cr_checkpoint r = make_checkpoint p history dg)
    \<and> (\<exists>txt. cr_summary r = txt @ format_ops (pp_ops p))"
  using assms
  by (auto simp: compact_def Let_def prepare_fields(3) split: option.splits prod.splits) blast

section \<open>The summary envelope\<close>

lemma unwrap_summary_message: "unwrap_summary (summary_prefix @ t @ summary_suffix) = trim_space t"
proof -
  let ?open = "''<summary>''" and ?close = "''</summary>''"
  define pre where "pre = summary_prefix"
  have pre: "str_index ?open pre = Some (length pre - length ?open - 1)"
    "length ?open < length pre" "drop (length pre - 1) pre = ''\<newline>''"
    unfolding pre_def by code_simp+
  let ?content = "pre @ t @ summary_suffix"
  have i: "str_index ?open ?content = Some (length pre - length ?open - 1)"
    by (rule str_index_append [OF pre(1)])
  have c: "?content = (pre @ t @ ''\<newline>'') @ ?close" by (simp add: summary_suffix_def)
  have j: "str_last_index ?close ?content = Some (length (pre @ t @ ''\<newline>''))"
    unfolding c by (rule str_last_index_end) simp
  have start: "length pre - length ?open - 1 + length ?open = length pre - 1" using pre(2) by simp
  have "drop (length pre - 1) ?content = ''\<newline>'' @ t @ summary_suffix"
    using pre(2,3) by simp
  then have body: "take (length (pre @ t @ ''\<newline>'') - (length pre - 1)) (drop (length pre - 1) ?content) = ''\<newline>'' @ t @ ''\<newline>''"
    using pre(2) by (simp add: summary_suffix_def)
  have le: "\<not> length (pre @ t @ ''\<newline>'') < length pre - 1" by simp
  have "unwrap_summary ?content = trim_space (''\<newline>'' @ t @ ''\<newline>'')"
    unfolding unwrap_summary_def i j option.case Let_def start body
    using le by (simp only: if_False)
  also have "\<dots> = trim_space (t @ ''\<newline>'')" using trim_space_left [of "CHR 0x0A" "t @ ''\<newline>''"] by (simp add: is_space_def)
  also have "\<dots> = trim_space t" by (rule trim_space_right) (simp_all add: is_space_def)
  finally show ?thesis by (simp add: pre_def)
qed

lemma last_summary_at:
  assumes "start \<le> i" "i < n" "msg_kind (ms ! i) = kind_summary"
    "\<And>j. i < j \<Longrightarrow> j < n \<Longrightarrow> msg_kind (ms ! j) \<noteq> kind_summary"
  shows "last_summary ms start n = Some i"
  using assms(2,4)
proof (induction n)
  case (Suc n)
  show ?case
  proof (cases "n = i")
    case True
    then show ?thesis using assms(1,3) by simp
  next
    case False
    then show ?thesis using Suc assms(1) by simp
  qed
qed simp

text \<open>After a compaction the next one starts behind the summary and reads it back.\<close>

lemma apply_summary_boundary:
  assumes "prepare js pr ms s (Some e) = Some p" "\<forall>m \<in> set new. msg_kind m \<noteq> kind_summary"
  shows "previous_summary (apply_summary ms p txt @ new) = trim_space txt"
    "drop (boundary (apply_summary ms p txt @ new)) (apply_summary ms p txt @ new) = drop (pp_kept p) ms @ new"
proof -
  let ?out = "apply_summary ms p txt @ new" and ?i = "history_start ms"
  have i: "?i = 0 \<or> ?i = 1" by (simp add: history_start_def)
  define tl where "tl = drop (pp_kept p) ms"
  have out: "?out = take ?i ms @ summary_message txt # tl @ new"
  proof (cases "?i = 1")
    case True
    then obtain m r where "ms = m # r" using history_start_system [of ms] by (cases ms) auto
    then show ?thesis using True by (simp add: apply_summary_def tl_def)
  next
    case False
    then show ?thesis using i by (simp add: apply_summary_def tl_def)
  qed
  have len: "length (take ?i ms) = ?i"
    using i history_start_system [of ms] by (cases ms) auto
  have hs: "history_start ?out = ?i"
  proof (cases "?i = 1")
    case True
    then obtain m r where m: "ms = m # r" "msg_role m = role_system"
      using history_start_system [of ms] by (cases ms) auto
    then have "?out = m # summary_message txt # tl @ new" using out True by simp
    then show ?thesis using True m(2) by (simp add: history_start_def)
  next
    case False
    then have "?i = 0" using i by simp
    moreover from this have "?out = summary_message txt # tl @ new" using out by simp
    ultimately show ?thesis by (simp add: history_start_def)
  qed
  have tail: "msg_kind m \<noteq> kind_summary" if "m \<in> set (tl @ new)" for m
  proof (cases "m \<in> set new")
    case False
    then have "m \<in> set (drop (pp_kept p) ms)" using that by (simp add: tl_def)
    then obtain n where "n < length ms - pp_kept p" "m = ms ! (pp_kept p + n)"
      by (metis in_set_conv_nth length_drop nth_drop nat_less_le less_imp_le not_le drop_all length_greater_0_conv empty_iff empty_set)
    then obtain j where "pp_kept p \<le> j" "j < length ms" "m = ms ! j"
      by (metis add.commute le_add1 less_diff_conv)
    then show ?thesis using no_summary_after_boundary prepare_cut(4) [OF assms(1)] by (metis less_imp_le le_trans)
  qed (use assms(2) in blast)
  have at: "?out ! ?i = summary_message txt" using out len by (metis nth_append_length)
  have "last_summary ?out ?i (length ?out) = Some ?i"
  proof (rule last_summary_at)
    show "?i < length ?out" unfolding out using len by simp
    fix j assume j: "?i < j" "j < length ?out"
    define d where "d = j - ?i - 1"
    have jd: "j = ?i + Suc d" using j(1) by (simp add: d_def)
    have "?out ! j = (tl @ new) ! d"
      unfolding out jd using len by (metis nth_Cons_Suc nth_append_length_plus)
    moreover have "length ?out = ?i + Suc (length (tl @ new))" unfolding out using len by simp
    then have "d < length (tl @ new)" using j(2) jd by simp
    ultimately show "msg_kind (?out ! j) \<noteq> kind_summary" using tail nth_mem by metis
  qed (simp_all add: at)
  then have l: "last_summary ?out (history_start ?out) (length ?out) = Some ?i" by (simp only: hs)
  show "previous_summary ?out = trim_space txt"
    unfolding previous_summary_def l by (simp add: at unwrap_summary_message)
  show "drop (boundary ?out) ?out = drop (pp_kept p) ms @ new"
    unfolding boundary_def l option.case using len by (subst out) (simp add: tl_def)
qed

section \<open>Properties\<close>

text \<open>
  The cut is the best one the budget allows: what Prepare keeps starts at a message that
  is not a tool result, something is always removed, the kept tail fits the keep-recent budget
  or starts at the newest place history may be cut at, and every earlier legal cut keeps more
  than the budget.
\<close>

theorem cut_is_earliest_fitting:
  assumes "est_ok e" "prepare js pr ms s (Some e) = Some p"
  shows "boundary ms < pp_kept p \<and> is_cut_message (ms ! pp_kept p)
    \<and> (tail_cost e ms (pp_kept p) \<le> set_keep (normalize_settings s)
       \<or> (\<forall>j. legal_cut ms (boundary ms) j \<longrightarrow> j \<le> pp_kept p))
    \<and> (\<forall>j < pp_kept p. legal_cut ms (boundary ms) j \<longrightarrow> set_keep (normalize_settings s) < tail_cost e ms j)"
proof -
  note c = prepare_cut [OF assms(2)]
  have k: "pp_kept p = chosen_cut e ms (boundary ms) (set_keep (normalize_settings s))"
    using c(1) cut_kept_conv [of ms "int (boundary ms)" "pp_kept p"] c(3) by simp
  from chosen_cut_best [OF assms(1) c(3) k] show ?thesis
    using c(4) by (auto simp: legal_cut_def)
qed

definition demo_est :: estimator where
  "demo_est = \<lparr>est_codec = (\<lambda>s. Some (length s)), est_scale = None, est_thinking = (\<lambda>_. False)\<rparr>"

definition demo_prompts :: prompts where
  "demo_prompts = \<lparr>pr_system = [], pr_initial = [], pr_update = [], pr_prefix = []\<rparr>"

definition demo_msg :: "string \<Rightarrow> string \<Rightarrow> chat_msg" where
  "demo_msg role content = blank_message\<lparr>msg_role := role, msg_content := content\<rparr>"

definition demo_history :: "chat_msg list" where
  "demo_history = [demo_msg ''system'' ''s'', demo_msg ''user'' ''a'', demo_msg ''user'' ''b'']"

definition demo_settings :: settings where
  "demo_settings = \<lparr>set_enabled = True, set_window = 120, set_reserve = 60, set_keep = 10, set_max_summary = 0, set_stall = 0\<rparr>"

lemma demo_cost:
  "estimate_message demo_est (demo_msg ''user'' ''a'') = 8" "estimate_message demo_est (demo_msg ''user'' ''b'') = 8"
  by (simp_all add: estimate_message_def demo_est_def demo_msg_def blank_message_def estimate_string_def
      estimate_reasoning_def estimate_metadata_def estimate_image_parts_def)

lemma demo_normal: "set_keep (normalize_settings demo_settings) = 10"
  by (simp add: normalize_settings_def demo_settings_def go_div_def)

lemma demo_boundary: "boundary demo_history = 1"
  by (simp add: boundary_def history_start_def demo_history_def demo_msg_def blank_message_def role_system_def
      kind_summary_def numeral_3_eq_3)

lemma demo_cut: "find_cut_point demo_est demo_history 1 10 = \<lparr>cut_kept = 2, cut_turn = None, cut_split = False\<rparr>"
proof -
  have ms: "demo_history ! 1 = demo_msg ''user'' ''a''" "demo_history ! 2 = demo_msg ''user'' ''b''"
    "length demo_history = 3"
    by (simp_all add: demo_history_def)
  have role: "msg_role (demo_msg r c) = r" for r c by (simp add: demo_msg_def)
  have cuts: "is_cut_message (demo_history ! 1)" "is_cut_message (demo_history ! 2)" "is_turn_start (demo_history ! 2)"
    unfolding ms by (simp_all add: is_cut_message_def is_turn_start_def role role_tool_def role_user_def)
  have upt: "[Suc 0..<3] = [Suc 0, 2]" by (simp add: upt_rec)
  have cand: "filter (\<lambda>i. is_cut_message (demo_history ! i)) [nat (max 1 0)..<length demo_history] = [1, 2]"
    using cuts by (simp add: ms(3) upt)
  have "cut_scan demo_est demo_history 1 10 3 0 2 = 2"
    using cuts(1,2) ms(1,2) demo_cost by (simp add: numeral_3_eq_3 numeral_2_eq_2 Let_def)
  then show ?thesis
    unfolding find_cut_point_def cand Let_def using cuts(3) by (simp add: ms(3))
qed

lemma demo_prepare: "\<exists>p. prepare demo_js demo_prompts demo_history demo_settings (Some demo_est) = Some p \<and> pp_kept p = 2"
proof -
  have "clone_range demo_history 1 2 \<noteq> []" "length demo_history = 3" "demo_history \<noteq> []"
    by (simp_all add: clone_range_def demo_history_def)
  then show ?thesis
    unfolding prepare_def option.case Let_def demo_boundary demo_normal
    by (auto simp: demo_cut history_end_def split: prod.splits)
qed

lemma demo_est_ok: "est_ok demo_est"
  by (simp add: est_ok_def demo_est_def)

lemma cut_is_earliest_fitting_witness:
  "\<exists>p. prepare demo_js demo_prompts demo_history demo_settings (Some demo_est) = Some p
    \<and> boundary demo_history < pp_kept p"
  using demo_prepare cut_is_earliest_fitting [OF demo_est_ok] by blast

text \<open>
  C32. A compaction never orphans a tool result: when every tool message of the conversation
  follows the assistant message that called it, the compacted conversation has the same
  property, whatever the summarizer answered, and it never has more messages than before.
\<close>

theorem compaction_keeps_tool_pairs:
  assumes "tool_paired ms" "compact js pr (Some c) sm ms = Inr r"
  shows "tool_paired (cr_messages r) \<and> length (cr_messages r) \<le> length ms"
proof -
  obtain p where p: "prepare js pr ms (cm_settings c) (Some (cm_estimator c)) = Some p"
    "cr_messages r = apply_summary ms p (cr_summary r)"
    using compact_Inr [OF assms(2)] by blast
  have "boundary ms < pp_kept p" "pp_kept p < length ms"
    using prepare_cut(3,4) [OF p(1)] by (simp_all add: legal_cut_def)
  then have "length (cr_messages r) \<le> length ms"
  proof -
    have "length (cr_messages r) = history_start ms + 1 + (length ms - pp_kept p)"
      unfolding p(2) apply_summary_def by (simp add: history_start_def)
    then show ?thesis using boundary_ge [of ms] \<open>boundary ms < pp_kept p\<close> \<open>pp_kept p < length ms\<close> by linarith
  qed
  then show ?thesis using apply_tool_paired [OF assms(1) p(1)] p(2) by simp
qed

definition demo_compactor :: compactor where
  "demo_compactor = \<lparr>cm_estimator = demo_est, cm_settings = demo_settings\<rparr>"

definition demo_summarizer :: summarizer where
  "demo_summarizer = \<lparr>sm_stream = (\<lambda>_ _ _. Opened [EvChunk KindContent ''x'' ''stop'', EvClosed]), sm_stopped = (\<lambda>_. False)\<rparr>"

lemma demo_compact: "\<exists>r. compact demo_js demo_prompts (Some demo_compactor) demo_summarizer demo_history = Inr r"
  using demo_prepare by (auto simp: compact_def demo_compactor_def Let_def split: prod.splits)

lemma demo_paired: "tool_paired demo_history"
  by (auto simp: tool_paired_def demo_history_def demo_msg_def role_tool_def less_Suc_eq)

lemma compaction_keeps_tool_pairs_witness:
  "\<exists>r. compact demo_js demo_prompts (Some demo_compactor) demo_summarizer demo_history = Inr r
    \<and> tool_paired (cr_messages r)"
  using demo_compact compaction_keeps_tool_pairs [OF demo_paired] by blast



text \<open>
  The budgets leave room: in settings that went through Normalize with a threshold of at
  least 4096 tokens, the recent messages a compaction keeps and the summary it may write
  together take at most half of the threshold, so a compaction does not re-trigger itself;
  normalising again changes nothing.
\<close>

theorem compacted_size_half_of_threshold:
  assumes "0 < set_window s0" "s = normalize_settings s0" "4096 \<le> threshold s"
  shows "2 * (set_keep s + summary_budget s) \<le> threshold s \<and> 0 < set_keep s \<and> 1024 \<le> summary_budget s
    \<and> normalize_settings s = s"
proof -
  define rsv where "rsv = (if set_reserve s0 \<le> 0 then 16384 else set_reserve s0)"
  define kp where "kp = (if set_keep s0 \<le> 0 then 20000 else set_keep s0)"
  have rsv: "0 < rsv" and kp: "0 < kp" by (simp_all add: rsv_def kp_def)
  have s: "s = s0\<lparr>set_reserve := rsv,
      set_keep := (if 0 < go_div (set_window s0 - rsv) 4 \<and> go_div (set_window s0 - rsv) 4 < kp
                   then go_div (set_window s0 - rsv) 4 else kp)\<rparr>"
    using assms(1) unfolding assms(2) normalize_settings_def rsv_def kp_def Let_def by simp
  have th: "threshold s = set_window s0 - rsv" "4096 \<le> set_window s0 - rsv"
    using assms(1,3) by (auto simp: threshold_def s)
  define q where "q = (set_window s0 - rsv) div 4"
  have q: "go_div (set_window s0 - rsv) 4 = q" using th(2) by (simp add: go_div_nonneg q_def)
  have q_bounds: "1024 \<le> q" "4 * q \<le> set_window s0 - rsv" using th(2) unfolding q_def by linarith+
  have keep: "set_keep s = min q kp" using q q_bounds by (auto simp: s)
  have b: "summary_budget s \<le> max (set_keep s) 1024"
    using keep kp q_bounds by (auto simp: summary_budget_def Let_def)
  have "normalize_settings s = s"
    using rsv kp q_bounds q by (simp add: normalize_settings_def s Let_def)
  moreover have "2 * (set_keep s + summary_budget s) \<le> threshold s"
  proof -
    have "set_keep s \<le> q" using keep by simp
    moreover have "summary_budget s \<le> q" using b keep q_bounds by simp
    ultimately have "2 * (set_keep s + summary_budget s) \<le> 4 * q" by simp
    also have "\<dots> \<le> threshold s" unfolding th(1) by (rule q_bounds(2))
    finally show ?thesis .
  qed
  ultimately show ?thesis using keep kp q_bounds by (simp add: summary_budget_def Let_def)
qed

lemma compacted_size_half_of_threshold_witness:
  "2 * (set_keep (normalize_settings \<lparr>set_enabled = True, set_window = 32000, set_reserve = 0, set_keep = 0, set_max_summary = 0, set_stall = 0\<rparr>)
      + summary_budget (normalize_settings \<lparr>set_enabled = True, set_window = 32000, set_reserve = 0, set_keep = 0, set_max_summary = 0, set_stall = 0\<rparr>))
    \<le> threshold (normalize_settings \<lparr>set_enabled = True, set_window = 32000, set_reserve = 0, set_keep = 0, set_max_summary = 0, set_stall = 0\<rparr>)"
  by (rule compacted_size_half_of_threshold [THEN conjunct1, OF _ refl])
    (simp_all add: normalize_settings_def threshold_def go_div_def)

end
