(* ===== verification/IpClass.thy ===== *)
theory IpClass
  imports Prelude "HOL-Library.Word"
begin

unbundle bit_operations_syntax

text \<open>
  The classification of IP addresses for outbound requests (ipclass/ipclass.go). An address is
  its byte slice, a list of 8-bit words; the predicates of package net are written out with the
  masks they use. The reason strings for the log are left out.
\<close>

section \<open>Package net\<close>

type_synonym byte = "8 word"

definition mapped_prefix :: "byte list" where
  "mapped_prefix = [0, 0, 0, 0, 0, 0, 0, 0, 0, 0, 0xFF, 0xFF]"

text \<open>\<open>net.IP.To4\<close>: four bytes, or sixteen behind the IPv4-mapped prefix.\<close>

definition to4 :: "byte list \<Rightarrow> byte list option" where
  "to4 ip = (if length ip = 4 then Some ip
     else if length ip = 16 \<and> take 12 ip = mapped_prefix then Some (drop 12 ip) else None)"

definition v6_loopback :: "byte list" where
  "v6_loopback = [0, 0, 0, 0, 0, 0, 0, 0, 0, 0, 0, 0, 0, 0, 0, 1]"

definition v6_zero :: "byte list" where
  "v6_zero = replicate 16 0"

definition is_private :: "byte list \<Rightarrow> bool" where
  "is_private ip = (case to4 ip of
       Some b \<Rightarrow> b ! 0 = 10 \<or> (b ! 0 = 172 \<and> b ! 1 AND 0xF0 = 16) \<or> (b ! 0 = 192 \<and> b ! 1 = 168)
     | None \<Rightarrow> length ip = 16 \<and> ip ! 0 AND 0xFE = 0xFC)"

definition is_loopback :: "byte list \<Rightarrow> bool" where
  "is_loopback ip = (case to4 ip of Some b \<Rightarrow> b ! 0 = 127 | None \<Rightarrow> ip = v6_loopback)"

definition is_link_local_unicast :: "byte list \<Rightarrow> bool" where
  "is_link_local_unicast ip = (case to4 ip of
       Some b \<Rightarrow> b ! 0 = 169 \<and> b ! 1 = 254
     | None \<Rightarrow> length ip = 16 \<and> ip ! 0 = 0xFE \<and> ip ! 1 AND 0xC0 = 0x80)"

definition is_link_local_multicast :: "byte list \<Rightarrow> bool" where
  "is_link_local_multicast ip = (case to4 ip of
       Some b \<Rightarrow> b ! 0 = 224 \<and> b ! 1 = 0 \<and> b ! 2 = 0
     | None \<Rightarrow> length ip = 16 \<and> ip ! 0 = 0xFF \<and> ip ! 1 AND 0x0F = 0x02)"

definition is_multicast :: "byte list \<Rightarrow> bool" where
  "is_multicast ip = (case to4 ip of
       Some b \<Rightarrow> b ! 0 AND 0xF0 = 0xE0
     | None \<Rightarrow> length ip = 16 \<and> ip ! 0 = 0xFF)"

definition is_unspecified :: "byte list \<Rightarrow> bool" where
  "is_unspecified ip = (case to4 ip of Some b \<Rightarrow> b = [0, 0, 0, 0] | None \<Rightarrow> ip = v6_zero)"

section \<open>Classes\<close>

datatype ip_class =
    IpPublic | IpInvalid | IpUnspecified | IpLoopback | IpPrivate | IpCGNAT | IpLinkLocal
  | IpMulticast | IpSiteLocal | IpReserved | IpDocumentation | IpTranslated

text \<open>The table of blocks: network, mask and class.\<close>

definition restricted_ranges :: "(byte list \<times> byte list \<times> ip_class) list" where
  "restricted_ranges =
     [([100, 64, 0, 0], [0xFF, 0xC0, 0, 0], IpCGNAT),
      ([0, 0, 0, 0], [0xFF, 0, 0, 0], IpReserved),
      ([240, 0, 0, 0], [0xF0, 0, 0, 0], IpReserved),
      ([198, 18, 0, 0], [0xFF, 0xFE, 0, 0], IpReserved),
      ([192, 0, 0, 0], [0xFF, 0xFF, 0xFF, 0], IpReserved),
      ([192, 0, 2, 0], [0xFF, 0xFF, 0xFF, 0], IpDocumentation),
      ([198, 51, 100, 0], [0xFF, 0xFF, 0xFF, 0], IpDocumentation),
      ([203, 0, 113, 0], [0xFF, 0xFF, 0xFF, 0], IpDocumentation)]"

text \<open>\<open>net.IPNet.Contains\<close> on a four-byte address.\<close>

definition block_contains :: "byte list \<Rightarrow> byte list \<Rightarrow> byte list \<Rightarrow> bool" where
  "block_contains net msk ip = list_all (\<lambda>i. net ! i AND msk ! i = ip ! i AND msk ! i) [0, 1, 2, 3]"

fun first_range :: "(byte list \<times> byte list \<times> ip_class) list \<Rightarrow> byte list \<Rightarrow> ip_class" where
  "first_range [] ip = IpPublic"
| "first_range ((net, msk, c) # rs) ip = (if block_contains net msk ip then c else first_range rs ip)"

text \<open>The switch over the predicates of package net.\<close>

definition net_class :: "byte list \<Rightarrow> ip_class option" where
  "net_class ip =
     (if is_private ip then Some IpPrivate
      else if is_loopback ip then Some IpLoopback
      else if is_link_local_unicast ip \<or> is_link_local_multicast ip then Some IpLinkLocal
      else if is_multicast ip then Some IpMulticast
      else if is_unspecified ip then Some IpUnspecified
      else None)"

text \<open>
  The call of \<open>Classify\<close> on the four bytes of an embedded address, written out so that the
  classification is not recursive.
\<close>

definition classify_v4 :: "byte list \<Rightarrow> ip_class" where
  "classify_v4 ip = (case net_class ip of
       Some c \<Rightarrow> c
     | None \<Rightarrow> (case to4 ip of Some b \<Rightarrow> first_range restricted_ranges b | None \<Rightarrow> IpPublic))"

definition is_zeros :: "byte list \<Rightarrow> bool" where
  "is_zeros b = list_all (\<lambda>v. v = 0) b"

definition embedded_ipv4 :: "byte list \<Rightarrow> byte list option" where
  "embedded_ipv4 ip =
     (if ip ! 0 = 0x20 \<and> ip ! 1 = 0x02 then Some (take 4 (drop 2 ip))
      else if ip ! 0 = 0 \<and> ip ! 1 = 0x64 \<and> ip ! 2 = 0xFF \<and> ip ! 3 = 0x9B \<and> is_zeros (take 8 (drop 4 ip))
      then Some (drop 12 ip)
      else if is_zeros (take 12 ip) then Some (drop 12 ip)
      else None)"

definition classify_ipv6 :: "byte list \<Rightarrow> ip_class" where
  "classify_ipv6 ip =
     (if ip ! 0 = 0 \<and> ip ! 1 = 0x64 \<and> ip ! 2 = 0xFF \<and> ip ! 3 = 0x9B \<and> ip ! 4 = 0 \<and> ip ! 5 = 1 then IpTranslated
      else if ip ! 0 = 0xFE \<and> ip ! 1 AND 0xC0 = 0xC0 then IpSiteLocal
      else if ip ! 0 AND 0xFE = 0xFC then IpPrivate
      else if ip ! 0 = 0x20 \<and> ip ! 1 = 1 \<and> ip ! 2 = 0 \<and> ip ! 3 = 0 then IpTranslated
      else (case embedded_ipv4 ip of
              Some b \<Rightarrow> if classify_v4 b \<noteq> IpPublic then IpTranslated else IpPublic
            | None \<Rightarrow> IpPublic))"

definition classify :: "byte list \<Rightarrow> ip_class" where
  "classify ip =
     (if length ip \<noteq> 4 \<and> length ip \<noteq> 16 then IpInvalid
      else case net_class ip of
        Some c \<Rightarrow> c
      | None \<Rightarrow> (case to4 ip of
            Some b \<Rightarrow> first_range restricted_ranges b
          | None \<Rightarrow> if length ip = 16 then classify_ipv6 ip else IpPublic))"

definition is_public :: "byte list \<Rightarrow> bool" where
  "is_public ip \<longleftrightarrow> classify ip = IpPublic"

section \<open>Masks as ranges\<close>

text \<open>Clearing the low bits of a byte rounds it down.\<close>

lemma unat_clear_low:
  fixes b :: byte
  shows "unat (b AND NOT (mask k)) = unat b div 2 ^ k * 2 ^ k"
proof -
  have eq: "b AND NOT (mask k) = push_bit k (drop_bit k b)"
    by (rule bit_word_eqI) (auto simp: bit_simps)
  have "unat b < 2 ^ 8" using unsigned_less [of b] by simp
  moreover from this have "unat b div 2 ^ k * 2 ^ k < 2 ^ 8"
    by (rule le_less_trans [OF div_times_less_eq_dividend])
  ultimately show ?thesis
    unfolding eq unsigned_push_bit_eq unsigned_drop_bit_eq
    by (simp add: push_bit_eq_mult drop_bit_eq_div take_bit_eq_mod)
qed

lemma byte_masks:
  fixes b :: byte
  shows "b AND 0xF0 = 16 \<longleftrightarrow> unat b div 16 = 1"
    "b AND 0xF0 = 0xE0 \<longleftrightarrow> unat b div 16 = 14"
    "240 = b AND 0xF0 \<longleftrightarrow> unat b div 16 = 15"
    "64 = b AND 0xC0 \<longleftrightarrow> unat b div 64 = 1"
    "18 = b AND 0xFE \<longleftrightarrow> unat b div 2 = 9"
    "b AND 0xFF = b"
proof -
  have m: "(0xF0 :: byte) = NOT (mask 4)" "(0xC0 :: byte) = NOT (mask 6)" "(0xFE :: byte) = NOT (mask 1)"
    "(0xFF :: byte) = NOT (mask 0)"
    by code_simp+
  have c: "unat (b AND 0xF0) = unat b div 16 * 16" "unat (b AND 0xC0) = unat b div 64 * 64"
    "unat (b AND 0xFE) = unat b div 2 * 2"
    using unat_clear_low [of b 4] unat_clear_low [of b 6] unat_clear_low [of b 1] by (simp_all add: m)
  show "b AND 0xF0 = 16 \<longleftrightarrow> unat b div 16 = 1" "b AND 0xF0 = 0xE0 \<longleftrightarrow> unat b div 16 = 14"
    "240 = b AND 0xF0 \<longleftrightarrow> unat b div 16 = 15" "64 = b AND 0xC0 \<longleftrightarrow> unat b div 64 = 1"
    "18 = b AND 0xFE \<longleftrightarrow> unat b div 2 = 9"
    unfolding word_unat_eq_iff c by auto
  show "b AND 0xFF = b" unfolding m by simp
qed

lemma mask_consts [simp]:
  "(100 :: byte) AND 0xFF = 100" "(64 :: byte) AND 0xC0 = 64" "(240 :: byte) AND 0xF0 = 240"
  "(198 :: byte) AND 0xFF = 198" "(18 :: byte) AND 0xFE = 18" "(192 :: byte) AND 0xFF = 192"
  "(51 :: byte) AND 0xFF = 51" "(203 :: byte) AND 0xFF = 203" "(113 :: byte) AND 0xFF = 113"
  "(2 :: byte) AND 0xFF = 2"
  by code_simp+

text \<open>The blocks an address of four bytes may not lie in, as numbers.\<close>

definition restricted_v4 :: "nat \<Rightarrow> nat \<Rightarrow> nat \<Rightarrow> bool" where
  "restricted_v4 a b c \<longleftrightarrow> a = 0 \<or> a = 10 \<or> a = 127 \<or> 224 \<le> a
     \<or> (a = 100 \<and> 64 \<le> b \<and> b < 128) \<or> (a = 169 \<and> b = 254) \<or> (a = 172 \<and> 16 \<le> b \<and> b < 32)
     \<or> (a = 192 \<and> b = 168) \<or> (a = 192 \<and> b = 0 \<and> (c = 0 \<or> c = 2))
     \<or> (a = 198 \<and> (b = 18 \<or> b = 19)) \<or> (a = 198 \<and> b = 51 \<and> c = 100) \<or> (a = 203 \<and> b = 0 \<and> c = 113)"

lemma to4_four [simp]: "to4 [a, b, c, d] = Some [a, b, c, d]"
  by (simp add: to4_def)

lemma first_range_v4:
  "first_range restricted_ranges [a, b, c, d] =
     (if a = 100 \<and> unat b div 64 = 1 then IpCGNAT
      else if a = 0 \<or> unat a div 16 = 15 \<or> (a = 198 \<and> unat b div 2 = 9) \<or> (a = 192 \<and> b = 0 \<and> c = 0) then IpReserved
      else if (a = 192 \<and> b = 0 \<and> c = 2) \<or> (a = 198 \<and> b = 51 \<and> c = 100) \<or> (a = 203 \<and> b = 0 \<and> c = 113) then IpDocumentation
      else IpPublic)"
  by (auto simp: restricted_ranges_def block_contains_def byte_masks)

lemma classify_four:
  "classify [a, b, c, d] = classify_v4 [a, b, c, d]"
  by (simp add: classify_def classify_v4_def split: option.splits)

lemma to4_v6: "length ip = 16 \<Longrightarrow> take 12 ip \<noteq> mapped_prefix \<Longrightarrow> to4 ip = None"
  by (simp add: to4_def)

lemma to4_mapped [simp]: "length v = 4 \<Longrightarrow> to4 (mapped_prefix @ v) = Some v"
  by (simp add: to4_def mapped_prefix_def)

lemma zero_bytes:
  "replicate 8 (0 :: byte) = [0, 0, 0, 0, 0, 0, 0, 0]" "replicate 12 (0 :: byte) = [0, 0, 0, 0, 0, 0, 0, 0, 0, 0, 0, 0]"
  by code_simp+

lemma four_bytes: "length v = 4 \<Longrightarrow> \<exists>a b c d. v = [a, b, c, d]"
  by (auto simp: length_Suc_conv numeral_eq_Suc)

section \<open>Properties\<close>

text \<open>
  Classification of IPv4: an address of four bytes is public exactly when it lies in none
  of the reserved blocks, stated as ranges of its numbers; the order of the predicates and of
  the table, and the masks they use, leave no gap and refuse nothing else. An address of any
  other length than four or sixteen bytes is never public.
\<close>

theorem ipv4_public_iff:
  "(is_public [a, b, c, d] \<longleftrightarrow> \<not> restricted_v4 (unat a) (unat b) (unat c))
   \<and> (length ip \<noteq> 4 \<longrightarrow> length ip \<noteq> 16 \<longrightarrow> \<not> is_public ip)"
proof
  have bound: "unat a < 256" "unat b < 256" using unsigned_less [of a] unsigned_less [of b] by simp_all
  have u: "unat a div 16 = 14 \<or> unat a div 16 = 15 \<longleftrightarrow> 224 \<le> unat a" using bound by auto
  have v: "unat b div 64 = 1 \<longleftrightarrow> 64 \<le> unat b \<and> unat b < 128" "unat b div 16 = 1 \<longleftrightarrow> 16 \<le> unat b \<and> unat b < 32"
    "unat b div 2 = 9 \<longleftrightarrow> unat b = 18 \<or> unat b = 19"
    by auto
  have w: "unat a = 224 \<longrightarrow> unat a div 16 = 14" by simp
  have n: "net_class [a, b, c, d] = None \<longleftrightarrow>
      \<not> (unat a = 10 \<or> (unat a = 172 \<and> unat b div 16 = 1) \<or> (unat a = 192 \<and> unat b = 168) \<or> unat a = 127
        \<or> (unat a = 169 \<and> unat b = 254) \<or> (unat a = 224 \<and> unat b = 0 \<and> unat c = 0)
        \<or> unat a div 16 = 14 \<or> (unat a = 0 \<and> unat b = 0 \<and> unat c = 0 \<and> unat d = 0))"
    by (simp add: net_class_def is_private_def is_loopback_def is_link_local_unicast_def
        is_link_local_multicast_def is_multicast_def is_unspecified_def byte_masks)
      (auto simp: word_unat_eq_iff)
  have pub: "net_class [a, b, c, d] \<noteq> Some IpPublic" by (simp add: net_class_def)
  have "is_public [a, b, c, d] \<longleftrightarrow> net_class [a, b, c, d] = None \<and> first_range restricted_ranges [a, b, c, d] = IpPublic"
    using pub by (auto simp: is_public_def classify_def split: option.splits)
  also have "first_range restricted_ranges [a, b, c, d] = IpPublic \<longleftrightarrow>
      \<not> ((unat a = 100 \<and> unat b div 64 = 1) \<or> unat a = 0 \<or> unat a div 16 = 15 \<or> (unat a = 198 \<and> unat b div 2 = 9)
        \<or> (unat a = 192 \<and> unat b = 0 \<and> unat c = 0) \<or> (unat a = 192 \<and> unat b = 0 \<and> unat c = 2)
        \<or> (unat a = 198 \<and> unat b = 51 \<and> unat c = 100) \<or> (unat a = 203 \<and> unat b = 0 \<and> unat c = 113))"
    by (simp add: first_range_v4 word_unat_eq_iff)
  finally show "is_public [a, b, c, d] \<longleftrightarrow> \<not> restricted_v4 (unat a) (unat b) (unat c)"
    unfolding n restricted_v4_def u [symmetric] v [symmetric] using w by argo
qed (simp add: is_public_def classify_def)

lemma ipv4_public_iff_witness: "is_public [8, 8, 8, 8] \<and> \<not> is_public [169, 254, 169, 254] \<and> \<not> is_public [1, 2, 3]"
  using ipv4_public_iff [of 8 8 8 8 "[1, 2, 3]"] ipv4_public_iff [of 169 254 169 254 "[]"]
  by (simp add: restricted_v4_def)

text \<open>
  No spelling hides a restricted address: when an IPv4 address is not public, neither is
  any of its IPv6 forms, mapped, 6to4 with any suffix, NAT64 behind the well-known prefix, or
  IPv4-compatible; and the mapped form has the class of the address itself.
\<close>

theorem no_spelling_is_public:
  assumes "length v = 4" "length suffix = 10"
  shows "classify (mapped_prefix @ v) = classify v
    \<and> (\<not> is_public v \<longrightarrow> \<not> is_public ([0x20, 0x02] @ v @ suffix)
        \<and> \<not> is_public ([0, 0x64, 0xFF, 0x9B] @ replicate 8 0 @ v) \<and> \<not> is_public (replicate 12 0 @ v))"
proof -
  obtain a b c d where v: "v = [a, b, c, d]" using four_bytes [OF assms(1)] by blast
  have len: "length (mapped_prefix @ v) = 16" by (simp add: mapped_prefix_def v)
  have n: "net_class (mapped_prefix @ v) = net_class v"
  proof -
    have t: "to4 (mapped_prefix @ v) = Some [a, b, c, d]" "to4 v = Some [a, b, c, d]"
      using to4_mapped [OF assms(1)] by (simp_all add: v)
    show ?thesis
      by (simp add: net_class_def is_private_def is_loopback_def is_link_local_unicast_def
          is_link_local_multicast_def is_multicast_def is_unspecified_def t)
  qed
  have mapped: "classify (mapped_prefix @ v) = classify v"
    using len assms(1) n by (simp add: classify_def v split: option.splits)
  have v4: "classify v = classify_v4 v" by (simp add: v classify_four)
  have embed: "\<not> is_public ip" if ip: "length ip = 16" "take 12 ip \<noteq> mapped_prefix" "embedded_ipv4 ip = Some v"
    and bad: "\<not> is_public v" for ip
  proof -
    have "classify_v4 v \<noteq> IpPublic" using bad v4 by (simp add: is_public_def)
    then have "classify_ipv6 ip \<noteq> IpPublic" using ip(3) by (simp add: classify_ipv6_def)
    moreover have "net_class ip \<noteq> Some IpPublic" by (simp add: net_class_def)
    ultimately show ?thesis using ip(1) to4_v6 [OF ip(1,2)]
      by (auto simp: is_public_def classify_def split: option.splits)
  qed
  have "embedded_ipv4 ([0x20, 0x02] @ v @ suffix) = Some v"
    by (simp add: embedded_ipv4_def v)
  moreover have "embedded_ipv4 ([0, 0x64, 0xFF, 0x9B] @ replicate 8 0 @ v) = Some v"
    by (simp add: embedded_ipv4_def v is_zeros_def zero_bytes)
  moreover have "embedded_ipv4 (replicate 12 0 @ v) = Some v"
    by (simp add: embedded_ipv4_def v is_zeros_def zero_bytes)
  moreover have "length ([0x20, 0x02] @ v @ suffix) = 16" "take 12 ([0x20, 0x02] @ v @ suffix) \<noteq> mapped_prefix"
    using assms by (simp_all add: mapped_prefix_def)
  moreover have "length ([0, 0x64, 0xFF, 0x9B] @ replicate 8 0 @ v) = 16"
      "take 12 ([0, 0x64, 0xFF, 0x9B] @ replicate 8 0 @ v) \<noteq> mapped_prefix"
    using assms by (simp_all add: mapped_prefix_def)
  moreover have "length (replicate 12 0 @ v) = 16" "take 12 (replicate 12 0 @ v) \<noteq> mapped_prefix"
    using assms(1) by (simp_all add: mapped_prefix_def zero_bytes)
  ultimately show ?thesis using mapped embed by metis
qed

lemma no_spelling_is_public_witness:
  "\<not> is_public ([0x20, 0x02] @ [169, 254, 169, 254] @ replicate 10 1)
   \<and> \<not> is_public ([0, 0x64, 0xFF, 0x9B] @ replicate 8 0 @ [169, 254, 169, 254])
   \<and> \<not> is_public (replicate 12 0 @ [169, 254, 169, 254])"
proof -
  have "\<not> is_public [169, 254, 169, 254]" by code_simp
  then show ?thesis
    using no_spelling_is_public [of "[169, 254, 169, 254]" "replicate 10 1"] by simp
qed

end
