(* ===== verification/RuneText.thy ===== *)
theory RuneText
  imports Prelude "HOL-Library.Sublist"
begin

text \<open>
  Texts as the lists of their runes, for the code that converts to \<open>[]rune\<close> or walks valid UTF-8
  rune by rune. For valid UTF-8, searching, comparing, cutting at matches and concatenating bytes
  is the same on runes, so the functions of package strings are written here on runes.
\<close>

type_synonym rtext = "nat list"

text \<open>The runes of an ASCII literal.\<close>

definition lit :: "string \<Rightarrow> rtext" where
  "lit s = map of_char s"

abbreviation nl :: nat where "nl \<equiv> 10"
abbreviation cr :: nat where "cr \<equiv> 13"
abbreviation pipe_rune :: nat where "pipe_rune \<equiv> 124"

text \<open>\<open>strings.Index\<close>; \<open>None\<close> is -1.\<close>

fun rt_index :: "rtext \<Rightarrow> rtext \<Rightarrow> nat option" where
  "rt_index sub [] = (if sub = [] then Some 0 else None)"
| "rt_index sub (c # s) = (if take (length sub) (c # s) = sub then Some 0 else map_option Suc (rt_index sub s))"

definition rt_contains :: "rtext \<Rightarrow> rtext \<Rightarrow> bool" where
  "rt_contains s sub \<longleftrightarrow> rt_index sub s \<noteq> None"

lemma rt_index_Some:
  "rt_index sub s = Some i \<Longrightarrow> i + length sub \<le> length s \<and> take (length sub) (drop i s) = sub"
proof (induction s arbitrary: i)
  case (Cons c s)
  show ?case
  proof (cases "take (length sub) (c # s) = sub")
    case True
    then have "i = 0" using Cons.prems by simp
    moreover have "length sub \<le> length (c # s)" using arg_cong [OF True, of length] by simp
    ultimately show ?thesis using True by simp
  next
    case False
    then obtain j where "rt_index sub s = Some j" "i = Suc j" using Cons.prems by auto
    then show ?thesis using Cons.IH by simp
  qed
qed (auto split: if_splits)

lemma rt_index_split:
  assumes "rt_index sub s = Some i"
  shows "s = take i s @ sub @ drop (i + length sub) s"
  using rt_index_Some [OF assms] by (metis add.commute append_take_drop_id drop_drop)

lemma rt_index_None: "rt_index sub s = None \<longleftrightarrow> \<not> sublist sub s"
proof (induction s)
  case (Cons c s)
  have p: "take (length sub) (c # s) = sub \<longleftrightarrow> prefix sub (c # s)"
    by (metis append_take_drop_id prefixI take_is_prefix append_eq_conv_conj prefix_def)
  show ?case using Cons by (simp add: sublist_Cons_right p)
qed simp

lemma rt_contains_iff [simp]: "rt_contains s sub \<longleftrightarrow> sublist sub s"
  by (simp add: rt_contains_def rt_index_None)

text \<open>The text before the first match holds no match.\<close>

lemma rt_index_first: "rt_index sub s = Some i \<Longrightarrow> j < i \<Longrightarrow> take (length sub) (drop j s) \<noteq> sub"
proof (induction s arbitrary: i j)
  case (Cons c s)
  then show ?case by (cases j) (auto split: if_splits)
qed (auto split: if_splits)

lemma rt_index_before: "rt_index sub s = Some i \<Longrightarrow> sub \<noteq> [] \<Longrightarrow> \<not> sublist sub (take i s)"
proof
  assume i: "rt_index sub s = Some i" "sub \<noteq> []" and "sublist sub (take i s)"
  then obtain p q where pq: "take i s = p @ sub @ q" by (auto simp: sublist_def)
  have "length p < i" using arg_cong [OF pq, of length] i(2) by (cases sub) auto
  moreover have "take (length sub) (drop (length p) s) = sub"
  proof -
    have "drop (length p) s = sub @ q @ drop i s"
      using pq by (metis append.assoc append_eq_conv_conj append_take_drop_id)
    then show ?thesis by simp
  qed
  ultimately show False using rt_index_first [OF i(1)] by blast
qed

section \<open>Trimming, splitting, joining\<close>

definition rt_trim_right :: "(nat \<Rightarrow> bool) \<Rightarrow> rtext \<Rightarrow> rtext" where
  "rt_trim_right p s = rev (dropWhile p (rev s))"

definition rt_trim :: "rtext \<Rightarrow> rtext" where
  "rt_trim s = rt_trim_right is_space (dropWhile is_space s)"

lemma rt_trim_Nil [simp]: "rt_trim [] = []"
  by (simp add: rt_trim_def rt_trim_right_def)

definition rt_suffix :: "rtext \<Rightarrow> rtext \<Rightarrow> bool" where
  "rt_suffix s p \<longleftrightarrow> length p \<le> length s \<and> drop (length s - length p) s = p"

text \<open>\<open>strings.Split\<close> at a single rune and \<open>strings.Join\<close>.\<close>

fun rt_lines :: "nat \<Rightarrow> rtext \<Rightarrow> rtext list" where
  "rt_lines d [] = [[]]"
| "rt_lines d (c # s) = (if c = d then [] # rt_lines d s
     else (case rt_lines d s of [] \<Rightarrow> [[c]] | l # ls \<Rightarrow> (c # l) # ls))"

fun rt_join :: "rtext \<Rightarrow> rtext list \<Rightarrow> rtext" where
  "rt_join sep [] = []"
| "rt_join sep [x] = x"
| "rt_join sep (x # y # ys) = x @ sep @ rt_join sep (y # ys)"

lemma rt_lines_ne [simp]: "rt_lines d s \<noteq> []"
  by (induction s) (auto split: list.splits)

lemma rt_join_lines [simp]: "rt_join [d] (rt_lines d s) = s"
proof (induction s)
  case (Cons c s)
  obtain l ls where l: "rt_lines d s = l # ls" by (cases "rt_lines d s") auto
  show ?case using Cons by (cases ls) (auto simp: l)
qed simp

end
