(* ===== verification/ChunkMerge.thy ===== *)
theory ChunkMerge
  imports RuneText "HOL-Library.Product_Lexorder" "HOL-Library.Multiset"
begin

text \<open>
  Joining the bodies of chunks (searchutil/chunkmerge.go). A content is the list of its runes:
  the code converts to \<open>[]rune\<close> before it cuts, and for valid UTF-8, which is what the database
  stores, searching, comparing and concatenating bytes is searching, comparing and concatenating
  runes.
\<close>

section \<open>Runes\<close>

definition min_overlap_runes :: nat where
  "min_overlap_runes = 12"

definition default_search_span :: nat where
  "default_search_span = 400"

text \<open>\<open>runeSlicesEqual\<close>: the lengths, then position by position.\<close>

definition rune_slices_equal :: "rtext \<Rightarrow> rtext \<Rightarrow> bool" where
  "rune_slices_equal l r \<longleftrightarrow> (if length l \<noteq> length r then False else list_all (\<lambda>i. l ! i = r ! i) [0 ..< length l])"

lemma rune_slices_equal_iff [simp]: "rune_slices_equal l r \<longleftrightarrow> l = r"
  by (auto simp: rune_slices_equal_def list_all_iff intro: nth_equalityI)

text \<open>
  \<open>indexRunes\<close>: the first position, at most \<open>maxStart\<close>, at which all runes of the needle
  match. The scan over the positions is the search of the list of candidates.
\<close>

definition match_at :: "rtext \<Rightarrow> rtext \<Rightarrow> nat \<Rightarrow> bool" where
  "match_at haystack needle i \<longleftrightarrow> list_all (\<lambda>j. haystack ! (i + j) = needle ! j) [0 ..< length needle]"

definition index_runes :: "rtext \<Rightarrow> rtext \<Rightarrow> nat \<Rightarrow> nat option" where
  "index_runes haystack needle max_start =
     (if needle = [] \<or> length haystack < length needle then None
      else List.find (match_at haystack needle) [0 ..< Suc (min (length haystack - length needle) max_start)])"

lemma match_at_iff:
  assumes "i + length needle \<le> length haystack"
  shows "match_at haystack needle i \<longleftrightarrow> take (length needle) (drop i haystack) = needle"
proof
  assume "match_at haystack needle i"
  then have "\<forall>j < length needle. haystack ! (i + j) = needle ! j" by (auto simp: match_at_def list_all_iff)
  then show "take (length needle) (drop i haystack) = needle"
    using assms by (intro nth_equalityI) auto
next
  assume eq: "take (length needle) (drop i haystack) = needle"
  have "haystack ! (i + j) = needle ! j" if "j < length needle" for j
    using arg_cong [OF eq, of "\<lambda>l. l ! j"] that assms by simp
  then show "match_at haystack needle i" by (auto simp: match_at_def list_all_iff)
qed

lemma index_runes_Some:
  assumes "index_runes haystack needle n = Some i"
  shows "i \<le> n" "i + length needle \<le> length haystack" "take (length needle) (drop i haystack) = needle"
proof -
  have len: "length needle \<le> length haystack" and f: "List.find (match_at haystack needle)
      [0 ..< Suc (min (length haystack - length needle) n)] = Some i"
    using assms by (auto simp: index_runes_def split: if_splits)
  obtain k where k: "k < Suc (min (length haystack - length needle) n)" "i = k" "match_at haystack needle i"
    using f by (fastforce simp: find_Some_iff simp del: upt_Suc)
  show "i \<le> n" using k by simp
  show *: "i + length needle \<le> length haystack" using k len by auto
  show "take (length needle) (drop i haystack) = needle" using k(3) match_at_iff [OF *] by simp
qed

lemma index_runes_sublist: "index_runes haystack needle n = Some i \<Longrightarrow> sublist needle haystack"
  by (metis append_take_drop_id index_runes_Some(3) sublist_appendI)

section \<open>Joining two bodies\<close>

definition contains_chunk_content :: "rtext \<Rightarrow> rtext \<Rightarrow> bool" where
  "contains_chunk_content container inner \<longleftrightarrow>
     (if container = [] \<or> inner = [] then False
      else if container = inner then True
      else min_overlap_runes \<le> length inner \<and> rt_contains container inner)"

text \<open>The loop over the overlap, from the longest down to the shortest allowed.\<close>

fun overlap_scan :: "rtext \<Rightarrow> rtext \<Rightarrow> nat \<Rightarrow> nat option" where
  "overlap_scan acc nxt 0 = None"
| "overlap_scan acc nxt (Suc k) =
     (if Suc k < min_overlap_runes then None
      else if rune_slices_equal (drop (length acc - Suc k) acc) (take (Suc k) nxt) then Some (Suc k)
      else overlap_scan acc nxt k)"

definition join_chunk_content :: "rtext \<Rightarrow> rtext \<Rightarrow> rtext \<Rightarrow> rtext" where
  "join_chunk_content acc nxt separator =
     (if acc = [] then nxt
      else if nxt = [] then acc
      else if contains_chunk_content acc nxt then acc
      else if contains_chunk_content nxt acc then nxt
      else case overlap_scan acc nxt (min (min (length acc) (length nxt)) default_search_span) of
          Some k \<Rightarrow> acc @ drop k nxt
        | None \<Rightarrow> acc @ separator @ nxt)"

lemma overlap_scan_Some:
  "overlap_scan acc nxt n = Some k \<Longrightarrow> min_overlap_runes \<le> k \<and> k \<le> n \<and> drop (length acc - k) acc = take k nxt"
  by (induction n) (auto split: if_splits)

lemma overlap_scan_max:
  "overlap_scan acc nxt n = None \<or> overlap_scan acc nxt n = Some k \<Longrightarrow> k < j \<or> overlap_scan acc nxt n = None \<Longrightarrow>
   min_overlap_runes \<le> j \<Longrightarrow> j \<le> n \<Longrightarrow> drop (length acc - j) acc \<noteq> take j nxt"
proof (induction n)
  case 0
  then show ?case by (simp add: min_overlap_runes_def)
next
  case (Suc n)
  then show ?case by (cases "j = Suc n") (auto split: if_splits)
qed

lemma contains_sublist: "contains_chunk_content c d \<Longrightarrow> sublist d c"
  by (auto simp: contains_chunk_content_def index_runes_sublist split: if_splits)

section \<open>Appending with a known or a searched overlap\<close>

text \<open>The loop of \<open>AppendWithOverlap\<close>: the longest suffix of the text found near the head of the next.\<close>

fun suffix_scan :: "rtext \<Rightarrow> rtext \<Rightarrow> nat \<Rightarrow> nat \<Rightarrow> (nat \<times> nat) option" where
  "suffix_scan acc nxt slack 0 = None"
| "suffix_scan acc nxt slack (Suc k) =
     (if Suc k < min_overlap_runes then None
      else case index_runes nxt (drop (length acc - Suc k) acc) slack of
          Some pos \<Rightarrow> Some (pos, Suc k)
        | None \<Rightarrow> suffix_scan acc nxt slack k)"

definition head_slack :: "int \<Rightarrow> nat" where
  "head_slack position_overlap = nat (max (position_overlap * 2) 320)"

definition append_with_overlap :: "rtext \<Rightarrow> rtext \<Rightarrow> int \<Rightarrow> rtext" where
  "append_with_overlap acc nxt position_overlap =
     (if acc = [] then nxt
      else if nxt = [] then acc
      else if position_overlap \<le> 0 then acc @ nxt
      else
        let max_k = min (min (length acc) (length nxt)) (nat (max (position_overlap * 3) (int default_search_span)))
        in case suffix_scan acc nxt (head_slack position_overlap) max_k of
            Some (pos, k) \<Rightarrow> acc @ drop (pos + k) nxt
          | None \<Rightarrow> acc @ nxt)"

definition append_with_exact_overlap :: "rtext \<Rightarrow> rtext \<Rightarrow> int \<Rightarrow> rtext option" where
  "append_with_exact_overlap acc nxt overlap =
     (if acc = [] then Some nxt
      else if nxt = [] then Some acc
      else if overlap < 0 then None
      else if overlap = 0 then Some (acc @ nxt)
      else if int (length acc) < overlap \<or> int (length nxt) < overlap then None
      else if \<not> rune_slices_equal (drop (length acc - nat overlap) acc) (take (nat overlap) nxt) then None
      else Some (acc @ drop (nat overlap) nxt))"

lemma suffix_scan_Some:
  "suffix_scan acc nxt slack n = Some (pos, k) \<Longrightarrow>
   min_overlap_runes \<le> k \<and> k \<le> n \<and> index_runes nxt (drop (length acc - k) acc) slack = Some pos"
  by (induction n) (auto split: if_splits option.splits)

section \<open>Rebuilding a document\<close>

text \<open>The fields of \<open>types.Chunk\<close> that the merge reads.\<close>

record doc_chunk =
  ck_content :: rtext
  ck_start :: int
  ck_end :: int
  ck_index :: int

text \<open>One round of the loop over the sorted chunks: the merged text and the end it reaches.\<close>

definition merge_step :: "rtext \<Rightarrow> rtext \<times> int \<Rightarrow> doc_chunk \<Rightarrow> rtext \<times> int" where
  "merge_step gap_sep st c = (case st of (merged, merged_end) \<Rightarrow>
     if ck_content c = [] then st
     else if merged = [] then (ck_content c, if 0 < ck_end c then ck_end c else merged_end)
     else if merged_end < ck_start c \<or> ck_end c = 0 then
       (merged @ gap_sep @ ck_content c, if 0 < ck_end c then ck_end c else merged_end)
     else if merged_end < ck_end c then
       (append_with_overlap merged (ck_content c) (merged_end - ck_start c), ck_end c)
     else st)"

text \<open>\<open>sort.SliceStable\<close> by start and then by index is the stable sort by that pair.\<close>

definition merge_text_chunks :: "doc_chunk list \<Rightarrow> rtext \<Rightarrow> rtext" where
  "merge_text_chunks chunks gap_sep =
     fst (foldl (merge_step gap_sep) ([], -1) (sort_key (\<lambda>c. (ck_start c, ck_index c)) chunks))"

section \<open>Properties\<close>

text \<open>
  Joining edited bodies loses nothing: the result of \<open>JoinChunkContent\<close> contains both
  bodies in full, starts with the first unless the second contains it, and is never longer than
  both bodies with the separator between them.
\<close>

theorem join_keeps_both_bodies:
  "sublist acc (join_chunk_content acc nxt sep) \<and> sublist nxt (join_chunk_content acc nxt sep)
   \<and> (prefix acc (join_chunk_content acc nxt sep) \<or> join_chunk_content acc nxt sep = nxt)
   \<and> length (join_chunk_content acc nxt sep) \<le> length acc + length sep + length nxt"
proof -
  consider "acc = []" | "nxt = []" | "acc \<noteq> []" "nxt \<noteq> []" "contains_chunk_content acc nxt"
    | "acc \<noteq> []" "nxt \<noteq> []" "\<not> contains_chunk_content acc nxt" "contains_chunk_content nxt acc"
    | "acc \<noteq> []" "nxt \<noteq> []" "\<not> contains_chunk_content acc nxt" "\<not> contains_chunk_content nxt acc"
    by blast
  then show ?thesis
  proof cases
    case 5
    show ?thesis
    proof (cases "overlap_scan acc nxt (min (min (length acc) (length nxt)) default_search_span)")
      case None
      have "sublist nxt (acc @ sep @ nxt)" by (metis append.assoc sublist_appendI append_Nil2)
      then show ?thesis using None 5 by (simp add: join_chunk_content_def sublist_append_rightI)
    next
      case (Some k)
      then have k: "drop (length acc - k) acc = take k nxt" using overlap_scan_Some by blast
      have "acc @ drop k nxt = take (length acc - k) acc @ nxt"
        using k by (metis append.assoc append_take_drop_id)
      then have "sublist nxt (acc @ drop k nxt)" by (metis sublist_append_leftI)
      then show ?thesis using Some 5 by (simp add: join_chunk_content_def sublist_append_rightI)
    qed
  qed (auto simp: join_chunk_content_def contains_sublist dest: contains_sublist)
qed

text \<open>
  An exact overlap is the inverse of cutting: \<open>AppendWithExactOverlap\<close> succeeds on two
  non-empty bodies and a non-negative overlap exactly when they are the head and the tail of
  one text that share that many runes, and then it returns that text.
\<close>

theorem exact_overlap_rebuilds:
  assumes "acc \<noteq> []" "nxt \<noteq> []" "0 \<le> overlap"
  shows "append_with_exact_overlap acc nxt overlap = Some r \<longleftrightarrow>
    (\<exists>a b c. acc = a @ b \<and> nxt = b @ c \<and> int (length b) = overlap \<and> r = a @ b @ c)"
proof
  assume ok: "append_with_exact_overlap acc nxt overlap = Some r"
  show "\<exists>a b c. acc = a @ b \<and> nxt = b @ c \<and> int (length b) = overlap \<and> r = a @ b @ c"
  proof (cases "overlap = 0")
    case True
    then show ?thesis using ok assms by (intro exI [of _ acc] exI [of _ "[]"] exI [of _ nxt])
      (simp add: append_with_exact_overlap_def)
  next
    case False
    let ?k = "nat overlap"
    have le: "?k \<le> length nxt" and eq: "drop (length acc - ?k) acc = take ?k nxt" and r: "r = acc @ drop ?k nxt"
      using ok assms False by (auto simp: append_with_exact_overlap_def split: if_splits)
    have "acc = take (length acc - ?k) acc @ take ?k nxt" using eq by (metis append_take_drop_id)
    moreover have "nxt = take ?k nxt @ drop ?k nxt" by simp
    moreover have "int (length (take ?k nxt)) = overlap" using le assms(3) by simp
    ultimately show ?thesis using r by (metis append.assoc)
  qed
next
  assume "\<exists>a b c. acc = a @ b \<and> nxt = b @ c \<and> int (length b) = overlap \<and> r = a @ b @ c"
  then obtain a b c where *: "acc = a @ b" "nxt = b @ c" "int (length b) = overlap" "r = a @ b @ c" by blast
  then have "nat overlap = length b" by simp
  then show "append_with_exact_overlap acc nxt overlap = Some r"
    using * assms by (auto simp: append_with_exact_overlap_def)
qed

lemma exact_overlap_rebuilds_witness:
  "append_with_exact_overlap [1, 2, 3] [2, 3, 4] 2 = Some [1, 2, 3, 4] \<and> append_with_exact_overlap [1, 2] [3] 1 = None"
proof -
  have "append_with_exact_overlap [1, 2, 3] [2, 3, 4] 2 = Some [1, 2, 3, 4]"
    by (subst exact_overlap_rebuilds) (auto intro: exI [of _ "[1]"] exI [of _ "[2, 3]"])
  moreover have "append_with_exact_overlap [1, 2] [3] 1 = None" by code_simp
  ultimately show ?thesis ..
qed

text \<open>
  What a searched overlap may cost: \<open>AppendWithOverlap\<close> keeps the whole text it has, and
  of the next body it drops a head of at most twice the overlap estimated from the positions
  (and at least 320 runes) together with a run of at least 12 runes that stands at the end of the
  text already; everything behind is kept. Without an estimated overlap nothing is dropped.
\<close>

theorem searched_overlap_loss:
  "append_with_overlap acc nxt ov = acc @ nxt
   \<or> (0 < ov \<and> (\<exists>head run rest. nxt = head @ run @ rest \<and> suffix run acc \<and> min_overlap_runes \<le> length run
        \<and> length head \<le> head_slack ov \<and> append_with_overlap acc nxt ov = acc @ rest))"
proof (cases "acc = [] \<or> nxt = [] \<or> ov \<le> 0")
  case False
  define n where "n = min (min (length acc) (length nxt)) (nat (max (ov * 3) (int default_search_span)))"
  show ?thesis
  proof (cases "suffix_scan acc nxt (head_slack ov) n")
    case None
    then show ?thesis using False by (simp add: append_with_overlap_def n_def)
  next
    case (Some p)
    obtain pos k where p: "p = (pos, k)" by force
    let ?run = "drop (length acc - k) acc"
    have k: "min_overlap_runes \<le> k" "k \<le> n" and i: "index_runes nxt ?run (head_slack ov) = Some pos"
      using suffix_scan_Some [OF Some [unfolded p]] by auto
    have len: "length ?run = k" using k(2) by (simp add: n_def)
    have split: "nxt = take pos nxt @ ?run @ drop (pos + k) nxt"
      using index_runes_Some(3) [OF i] len by (metis append_take_drop_id add.commute drop_drop)
    have "append_with_overlap acc nxt ov = acc @ drop (pos + k) nxt"
      using False Some p by (simp add: append_with_overlap_def n_def)
    moreover have "length (take pos nxt) \<le> head_slack ov" using index_runes_Some(1) [OF i] by simp
    moreover have "0 < ov" using False by simp
    ultimately show ?thesis using split len k(1) suffix_drop by metis
  qed
qed (auto simp: append_with_overlap_def)

text \<open>
  The pieces of a document between consecutive positions, each with its place and its number.
\<close>

fun tile :: "int \<Rightarrow> int \<Rightarrow> rtext list \<Rightarrow> doc_chunk list" where
  "tile pos i [] = []"
| "tile pos i (t # ts) =
     \<lparr>ck_content = t, ck_start = pos, ck_end = pos + int (length t), ck_index = i\<rparr>
       # tile (pos + int (length t)) (i + 1) ts"

lemma tile_start: "c \<in> set (tile pos i ts) \<Longrightarrow> pos \<le> ck_start c"
  by (induction ts arbitrary: pos i) force+

lemma tile_index: "c \<in> set (tile pos i ts) \<Longrightarrow> i \<le> ck_index c"
  by (induction ts arbitrary: pos i) force+

lemma tile_sorted: "sorted (map (\<lambda>c. (ck_start c, ck_index c)) (tile pos i ts))"
proof (induction ts arbitrary: pos i)
  case (Cons t ts)
  have "(pos, i) \<le> (ck_start c, ck_index c)" if "c \<in> set (tile (pos + int (length t)) (i + 1) ts)" for c
    using tile_start [OF that] tile_index [OF that] by (auto simp: less_eq_prod_def)
  then show ?case using Cons.IH by auto
qed simp

lemma tile_keys_distinct: "distinct (map ck_index (tile pos i ts))"
proof (induction ts arbitrary: pos i)
  case (Cons t ts)
  then show ?case using tile_index [of _ "pos + int (length t)" "i + 1" ts] by fastforce
qed auto

lemma merge_tile:
  "(if merged = [] then m \<le> pos else m = pos) \<Longrightarrow> 0 \<le> pos \<Longrightarrow>
   fst (foldl (merge_step sep) (merged, m) (tile pos i ts)) = merged @ concat ts"
proof (induction ts arbitrary: merged m pos i)
  case (Cons t ts)
  let ?c = "\<lparr>ck_content = t, ck_start = pos, ck_end = pos + int (length t), ck_index = i\<rparr>"
  show ?case
  proof (cases "t = []")
    case True
    then show ?thesis using Cons by (simp add: merge_step_def)
  next
    case False
    have "0 < int (length t)" using False by simp
    then have int_pos: "pos + int (length t) \<noteq> 0" using Cons.prems by linarith
    have step: "merge_step sep (merged, m) ?c = (merged @ t, pos + int (length t))"
      using False Cons.prems int_pos
      by (auto simp: merge_step_def append_with_overlap_def split: if_splits)
    show ?thesis using Cons.IH [of "merged @ t" "pos + int (length t)" "pos + int (length t)" "i + 1"] False Cons.prems
      by (simp add: step)
  qed
qed simp

text \<open>
  C34. A document cut into pieces at consecutive positions is rebuilt exactly, in whatever order
  the chunks come from the database and whatever the separator for gaps.
\<close>

theorem merge_rebuilds_document:
  assumes "mset chunks = mset (tile 0 i ts)"
  shows "merge_text_chunks chunks gap_sep = concat ts"
proof -
  let ?key = "\<lambda>c. (ck_start c, ck_index c)"
  have inj: "inj_on ?key (set (tile 0 i ts))"
    using tile_keys_distinct [of 0 i ts] by (auto simp: distinct_map inj_on_def)
  have "inj_on ?key (set chunks)" using inj assms by (metis set_mset_mset)
  then have "sort_key ?key chunks = tile 0 i ts"
    using assms tile_sorted by (intro sort_key_inj_key_eq) auto
  then show ?thesis using merge_tile [of "[]" "-1" 0 gap_sep i ts] by (simp add: merge_text_chunks_def)
qed

lemma merge_rebuilds_document_witness:
  "merge_text_chunks [\<lparr>ck_content = [7, 8], ck_start = 3, ck_end = 5, ck_index = 1\<rparr>,
      \<lparr>ck_content = [4, 5, 6], ck_start = 0, ck_end = 3, ck_index = 0\<rparr>] [10] = [4, 5, 6, 7, 8]"
  using merge_rebuilds_document [of "[\<lparr>ck_content = [7, 8], ck_start = 3, ck_end = 5, ck_index = 1\<rparr>,
      \<lparr>ck_content = [4, 5, 6], ck_start = 0, ck_end = 3, ck_index = 0\<rparr>]" 0 "[[4, 5, 6], [7, 8]]" "[10]"]
  by simp

end
