(* ===== verification/GoRegexp.thy ===== *)
theory GoRegexp
  imports RuneText
begin

text \<open>
  The part of Go's package regexp that the chunker uses: regular expressions without captures,
  with greedy and lazy repetition and the line anchors, matched leftmost-first as the package
  documents it. \<open>re_ends\<close> lists the ends of the matches at a position in order of preference, so
  its head is the match the package reports.
\<close>

datatype regex =
    RSet bool "(nat \<times> nat) list"  \<comment> \<open>a rune inside (\<open>True\<close>) or outside the ranges\<close>
  | RSeq regex regex
  | RAlt regex regex
  | RRep bool nat "nat option" regex  \<comment> \<open>greedy, least and largest number\<close>
  | RBegin | REnd  \<comment> \<open>the ends of the text\<close>
  | RLineBegin | RLineEnd

definition in_set :: "bool \<Rightarrow> (nat \<times> nat) list \<Rightarrow> nat \<Rightarrow> bool" where
  "in_set pos rs c \<longleftrightarrow> list_ex (\<lambda>(a, b). a \<le> c \<and> c \<le> b) rs = pos"

text \<open>
  Repetition from the ends of one round: \<open>n\<close> bounds the rounds, each of which must advance. The
  expressions below repeat nothing that matches the empty text.
\<close>

primrec re_star :: "(nat \<Rightarrow> nat list) \<Rightarrow> bool \<Rightarrow> nat \<Rightarrow> nat \<Rightarrow> nat list" where
  "re_star f g 0 i = [i]"
| "re_star f g (Suc n) i =
     (let more = concat (map (\<lambda>j. if i < j then re_star f g n j else []) (f i))
      in if g then more @ [i] else i # more)"

primrec re_times :: "(nat \<Rightarrow> nat list) \<Rightarrow> nat \<Rightarrow> nat \<Rightarrow> nat list" where
  "re_times f 0 i = [i]"
| "re_times f (Suc n) i = concat (map (re_times f n) (f i))"

primrec re_ends :: "regex \<Rightarrow> rtext \<Rightarrow> nat \<Rightarrow> nat list" where
  "re_ends (RSet p rs) t i = (if i < length t \<and> in_set p rs (t ! i) then [Suc i] else [])"
| "re_ends (RSeq r s) t i = concat (map (re_ends s t) (re_ends r t i))"
| "re_ends (RAlt r s) t i = re_ends r t i @ re_ends s t i"
| "re_ends (RRep g lo hi r) t i =
     concat (map (\<lambda>j. re_star (re_ends r t) g (case hi of None \<Rightarrow> length t - j | Some h \<Rightarrow> h - lo) j)
       (re_times (re_ends r t) lo i))"
| "re_ends RBegin t i = (if i = 0 then [i] else [])"
| "re_ends REnd t i = (if i = length t then [i] else [])"
| "re_ends RLineBegin t i = (if i = 0 \<or> t ! (i - 1) = nl then [i] else [])"
| "re_ends RLineEnd t i = (if i = length t \<or> t ! i = nl then [i] else [])"

text \<open>\<open>FindStringIndex\<close>: the first position with a match, and the preferred match there.\<close>

function re_find :: "regex \<Rightarrow> rtext \<Rightarrow> nat \<Rightarrow> (nat \<times> nat) option" where
  "re_find r t i =
     (if length t < i then None
      else case re_ends r t i of
          e # _ \<Rightarrow> Some (i, e)
        | [] \<Rightarrow> re_find r t (Suc i))"
  by pat_completeness auto
termination by (relation "measure (\<lambda>(r, t, i). Suc (length t) - i)") auto

declare re_find.simps [simp del]

definition re_match :: "regex \<Rightarrow> rtext \<Rightarrow> bool" where
  "re_match r t \<longleftrightarrow> re_find r t 0 \<noteq> None"

text \<open>
  \<open>FindAllStringIndex\<close> without its empty matches, which every caller drops: the search goes on
  behind a match, and one rune further behind an empty one.
\<close>

function re_find_all :: "regex \<Rightarrow> rtext \<Rightarrow> nat \<Rightarrow> (nat \<times> nat) list" where
  "re_find_all r t i =
     (case re_find r t i of
        None \<Rightarrow> []
      | Some (a, e) \<Rightarrow> if a < e \<and> i \<le> a \<and> i \<le> length t then (a, e) # re_find_all r t e
          else if i \<le> a \<and> i \<le> length t then re_find_all r t (Suc a) else [])"
  by pat_completeness auto
termination by (relation "measure (\<lambda>(r, t, i). Suc (length t) - i)") auto

declare re_find_all.simps [simp del]

section \<open>Writing expressions\<close>

definition re_chr :: "nat \<Rightarrow> regex" where
  "re_chr c = RSet True [(c, c)]"

definition re_one :: "rtext \<Rightarrow> regex" where
  "re_one cs = RSet True (map (\<lambda>c. (c, c)) cs)"

definition re_not :: "rtext \<Rightarrow> regex" where
  "re_not cs = RSet False (map (\<lambda>c. (c, c)) cs)"

definition re_any :: regex where
  "re_any = RSet False []"

fun re_seq :: "regex list \<Rightarrow> regex" where
  "re_seq [] = RRep True 0 (Some 0) re_any"
| "re_seq [r] = r"
| "re_seq (r # s # rs) = RSeq r (re_seq (s # rs))"

definition re_many :: "regex \<Rightarrow> regex" where "re_many r = RRep True 0 None r"
definition re_some :: "regex \<Rightarrow> regex" where "re_some r = RRep True 1 None r"
definition re_opt :: "regex \<Rightarrow> regex" where "re_opt r = RRep True 0 (Some 1) r"
definition re_lazy :: "regex \<Rightarrow> regex" where "re_lazy r = RRep False 0 None r"

text \<open>The classes \<open>\s\<close>, \<open>\w\<close> and the break runes, and a text taken literally.\<close>

definition re_space :: regex where "re_space = re_one [9, 10, 12, 13, 32]"
definition re_word :: regex where "re_word = RSet True [(48, 57), (65, 90), (95, 95), (97, 122)]"
definition re_breaks :: regex where "re_breaks = re_some (re_one [cr, nl])"
definition re_lit :: "string \<Rightarrow> regex" where "re_lit s = re_seq (map re_chr (lit s))"

lemmas re_writing = re_chr_def re_one_def re_not_def re_any_def re_many_def re_some_def re_opt_def
  re_lazy_def re_space_def re_word_def re_breaks_def re_lit_def lit_def

section \<open>Matches lie in the text\<close>

lemma re_star_range:
  assumes f: "\<And>j e. j \<le> n \<Longrightarrow> e \<in> set (f j) \<Longrightarrow> j \<le> e \<and> e \<le> n"
  shows "i \<le> n \<Longrightarrow> e \<in> set (re_star f g k i) \<Longrightarrow> i \<le> e \<and> e \<le> n"
proof (induction k arbitrary: i)
  case (Suc k)
  show ?case
  proof (cases "e = i")
    case False
    then obtain j where j: "j \<in> set (f i)" "i < j" "e \<in> set (re_star f g k j)"
      using Suc.prems(2) by (auto simp: Let_def split: if_splits)
    then show ?thesis using Suc.IH [of j] f [OF Suc.prems(1) j(1)] by linarith
  qed (use Suc.prems in simp)
qed simp

lemma re_times_range:
  assumes f: "\<And>j e. j \<le> n \<Longrightarrow> e \<in> set (f j) \<Longrightarrow> j \<le> e \<and> e \<le> n"
  shows "i \<le> n \<Longrightarrow> e \<in> set (re_times f k i) \<Longrightarrow> i \<le> e \<and> e \<le> n"
proof (induction k arbitrary: i)
  case (Suc k)
  then obtain j where j: "j \<in> set (f i)" "e \<in> set (re_times f k j)" by auto
  then show ?case using Suc.IH [of j] f [OF Suc.prems(1) j(1)] by linarith
qed simp

lemma re_ends_range: "e \<in> set (re_ends r t i) \<Longrightarrow> i \<le> length t \<Longrightarrow> i \<le> e \<and> e \<le> length t"
proof (induction r arbitrary: i e)
  case (RSeq r s)
  then show ?case by simp (meson order_trans)
next
  case (RRep g lo hi r)
  then obtain j k where j: "j \<in> set (re_times (re_ends r t) lo i)" and e: "e \<in> set (re_star (re_ends r t) g k j)"
    by auto
  have f: "\<And>j e. j \<le> length t \<Longrightarrow> e \<in> set (re_ends r t j) \<Longrightarrow> j \<le> e \<and> e \<le> length t"
    using RRep.IH by blast
  have ij: "i \<le> j \<and> j \<le> length t" by (rule re_times_range [OF f RRep.prems(2) j])
  have "j \<le> e \<and> e \<le> length t" by (rule re_star_range [OF f _ e]) (use ij in auto)
  then show ?case using ij by simp
qed (auto split: if_splits)

lemma re_find_range: "re_find r t i = Some (a, e) \<Longrightarrow> i \<le> a \<and> a \<le> e \<and> e \<le> length t \<and> e \<in> set (re_ends r t a)"
proof (induction r t i rule: re_find.induct)
  case (1 r t i)
  show ?case
  proof (cases "re_ends r t i")
    case Nil
    then have "re_find r t (Suc i) = Some (a, e)" "\<not> length t < i"
      using "1.prems" by (simp_all add: re_find.simps [of r t i] split: if_splits)
    then show ?thesis using "1.IH" Nil by fastforce
  next
    case (Cons e' es)
    then have "a = i" "e = e'" "\<not> length t < i"
      using "1.prems" by (simp_all add: re_find.simps [of r t i] split: if_splits)
    then show ?thesis using Cons re_ends_range [of e r t i] by simp
  qed
qed

lemma re_find_all_range: "(a, e) \<in> set (re_find_all r t i) \<Longrightarrow> a < e \<and> e \<le> length t"
proof (induction r t i rule: re_find_all.induct)
  case (1 r t i)
  show ?case
  proof (cases "re_find r t i")
    case None
    then show ?thesis using "1.prems" by (simp add: re_find_all.simps [of r t i])
  next
    case (Some p)
    obtain b f where p: "p = (b, f)" by force
    have f: "f \<le> length t" using re_find_range Some p by blast
    show ?thesis
    proof (cases "b < f \<and> i \<le> b \<and> i \<le> length t")
      case True
      then have "(a, e) = (b, f) \<or> (a, e) \<in> set (re_find_all r t f)"
        using "1.prems" Some p by (simp add: re_find_all.simps [of r t i])
      then show ?thesis using "1.IH"(1) Some p True f by auto
    next
      case False
      then have "i \<le> b \<and> i \<le> length t" "(a, e) \<in> set (re_find_all r t (Suc b))"
        using "1.prems" Some p by (auto simp: re_find_all.simps [of r t i] split: if_splits)
      then show ?thesis using "1.IH"(2) Some p False by auto
    qed
  qed
qed

end
