(* ===== verification/HeaderTracker.thy ===== *)
theory HeaderTracker
  imports GoRegexp
begin

text \<open>
  Tracking the header of a Markdown table across the units of a document
  (infrastructure/chunker/header_tracker.go), over the runes of the units.
\<close>

section \<open>Hooks\<close>

record header_hook =
  hk_start :: regex
  hk_end :: regex
  hk_priority :: nat

definition markdown_table_hook_priority :: nat where
  "markdown_table_hook_priority = 15"

text \<open>A cell with its leading pipe, and a cell of the separator row.\<close>

definition re_cells :: regex where
  "re_cells = re_some (RSeq (re_chr pipe_rune) (re_many (re_not [pipe_rune, nl])))"

definition re_sep_cells :: regex where
  "re_sep_cells = re_some (re_seq [re_chr pipe_rune, re_many re_space, re_opt (re_chr 58), RRep True 3 None (re_chr 45),
     re_opt (re_chr 58), re_many re_space])"

definition table_start_pattern :: regex where
  "table_start_pattern = re_seq [RBegin, re_many re_space, re_cells, re_breaks, re_many re_space, re_sep_cells,
     re_opt (re_chr pipe_rune), re_breaks, REnd]"

definition table_end_pattern :: regex where
  "table_end_pattern = RAlt (re_seq [RBegin, re_many re_space, REnd])
     (re_seq [RBegin, re_many re_space, re_not [pipe_rune, 9, 10, 12, 13, 32], re_many re_any, REnd])"

definition table_row_pattern :: regex where
  "table_row_pattern = re_seq [RLineBegin, re_many re_space, re_cells, re_chr pipe_rune, re_many re_space, RLineEnd]"

definition default_header_hooks :: "header_hook list" where
  "default_header_hooks = [\<lparr>hk_start = table_start_pattern, hk_end = table_end_pattern, hk_priority = 15\<rparr>]"

section \<open>Rows and columns\<close>

text \<open>\<open>splitTableCells\<close>: the cell read so far and the backslashes directly before the next rune.\<close>

fun table_cells :: "rtext \<Rightarrow> nat \<Rightarrow> rtext \<Rightarrow> rtext list" where
  "table_cells [] b cell = [cell]"
| "table_cells (c # s) b cell =
     (if c = 92 then table_cells s (Suc b) (cell @ [c])
      else if c = pipe_rune \<and> even b then cell # table_cells s 0 []
      else table_cells s 0 (cell @ [c]))"

definition split_table_cells :: "rtext \<Rightarrow> rtext list" where
  "split_table_cells line = table_cells line 0 []"

definition drop_blank_head :: "rtext list \<Rightarrow> rtext list" where
  "drop_blank_head ps = (if ps \<noteq> [] \<and> rt_trim (hd ps) = [] then tl ps else ps)"

definition drop_blank_last :: "rtext list \<Rightarrow> rtext list" where
  "drop_blank_last ps = (if ps \<noteq> [] \<and> rt_trim (last ps) = [] then butlast ps else ps)"

definition table_row_column_count :: "rtext \<Rightarrow> nat" where
  "table_row_column_count line0 =
     (let line = rt_trim line0 in
      if take 1 line \<noteq> [pipe_rune] then 0
      else length (drop_blank_last (drop_blank_head (split_table_cells line))))"

fun first_row_columns :: "rtext list \<Rightarrow> nat" where
  "first_row_columns [] = 0"
| "first_row_columns (l # ls) =
     (let line = rt_trim l in
      if line \<noteq> [] \<and> re_match table_row_pattern line then table_row_column_count line
      else first_row_columns ls)"

definition first_table_row_column_count :: "rtext \<Rightarrow> nat" where
  "first_table_row_column_count t = first_row_columns (rt_lines nl t)"

definition dashes :: rtext where
  "dashes = lit ''---''"

fun header_columns :: "rtext list \<Rightarrow> nat" where
  "header_columns [] = 0"
| "header_columns (l # ls) =
     (let line = rt_trim l in
      if line = [] \<or> rt_contains line dashes then header_columns ls
      else if 0 < table_row_column_count line then table_row_column_count line
      else header_columns ls)"

definition header_table_column_count :: "rtext \<Rightarrow> nat" where
  "header_table_column_count h = header_columns (rt_lines nl h)"

definition header_column_mismatch :: "rtext \<Rightarrow> rtext \<Rightarrow> bool" where
  "header_column_mismatch headers next_unit =
     (let hc = header_table_column_count headers; rc = first_table_row_column_count next_unit
      in 0 < hc \<and> 0 < rc \<and> hc \<noteq> rc)"

definition only_pipes :: "rtext \<Rightarrow> bool" where
  "only_pipes row \<longleftrightarrow> list_all (\<lambda>r. r = pipe_rune \<or> r = 32 \<or> r = 9) row"

definition is_empty_table_header_row :: "rtext \<Rightarrow> bool" where
  "is_empty_table_header_row header = (case rt_index [nl] header of
       None \<Rightarrow> False
     | Some i \<Rightarrow> only_pipes (rt_trim (take i header)))"

fun separator_line :: "rtext list \<Rightarrow> rtext" where
  "separator_line [] = []"
| "separator_line (l # ls) = (if rt_contains l dashes then l @ [nl] else separator_line ls)"

definition extract_separator_line :: "rtext \<Rightarrow> rtext" where
  "extract_separator_line header = separator_line (rt_lines nl header)"

definition split_ends_with_paragraph_break :: "rtext \<Rightarrow> bool" where
  "split_ends_with_paragraph_break split =
     (let trimmed = rt_trim_right (\<lambda>r. r = 32 \<or> r = 9 \<or> r = cr) split
      in rt_suffix trimmed [nl, nl] \<or> rt_suffix trimmed [cr, nl, cr, nl])"

section \<open>The tracker\<close>

record header_tracker =
  ht_hooks :: "header_hook list"
  ht_active :: "(nat \<times> rtext) list"
  ht_ended :: "nat list"
  ht_pending :: "nat list"
  ht_table_break :: bool
  ht_ended_this_unit :: bool

definition new_header_tracker :: header_tracker where
  "new_header_tracker = \<lparr>ht_hooks = default_header_hooks, ht_active = [], ht_ended = [], ht_pending = [],
     ht_table_break = False, ht_ended_this_unit = False\<rparr>"

definition is_active :: "nat \<Rightarrow> header_tracker \<Rightarrow> bool" where
  "is_active p ht \<longleftrightarrow> map_of (ht_active ht) p \<noteq> None"

definition end_header :: "nat \<Rightarrow> header_tracker \<Rightarrow> header_tracker" where
  "end_header p ht = ht\<lparr>ht_ended := List.insert p (ht_ended ht), ht_active := AList.delete p (ht_active ht),
     ht_pending := removeAll p (ht_pending ht)\<rparr>"

definition clear_table_header :: "header_tracker \<Rightarrow> header_tracker" where
  "clear_table_header ht = end_header markdown_table_hook_priority ht"

definition end_on_column_mismatch :: "rtext \<Rightarrow> header_tracker \<Rightarrow> header_tracker" where
  "end_on_column_mismatch split ht = (case map_of (ht_active ht) markdown_table_hook_priority of
       None \<Rightarrow> ht
     | Some header \<Rightarrow>
         (let rc = first_table_row_column_count split; hc = header_table_column_count header
          in if 0 < rc \<and> 0 < hc \<and> rc \<noteq> hc
             then (clear_table_header ht)\<lparr>ht_ended_this_unit := True\<rparr> else ht))"

text \<open>The rounds of \<open>update\<close>, in their order.\<close>

definition resolve_table_break :: "rtext \<Rightarrow> header_tracker \<Rightarrow> header_tracker" where
  "resolve_table_break split ht0 =
     (let ht = ht0\<lparr>ht_ended_this_unit := False\<rparr> in
      if \<not> ht_table_break ht then ht
      else (let ht1 = ht\<lparr>ht_table_break := False\<rparr> in
            if \<not> is_active markdown_table_hook_priority ht1 then ht1
            else if 0 < first_table_row_column_count split
            then (clear_table_header ht1)\<lparr>ht_ended_this_unit := True\<rparr>
            else clear_table_header ht1))"

definition check_end :: "rtext \<Rightarrow> header_tracker \<Rightarrow> header_hook \<Rightarrow> header_tracker" where
  "check_end split ht hk =
     (if is_active (hk_priority hk) ht \<and> re_match (hk_end hk) split then end_header (hk_priority hk) ht else ht)"

definition mark_break :: "rtext \<Rightarrow> header_tracker \<Rightarrow> header_tracker" where
  "mark_break split ht =
     (if is_active markdown_table_hook_priority ht \<and> markdown_table_hook_priority \<notin> set (ht_pending ht) then
        (if split_ends_with_paragraph_break split then ht\<lparr>ht_table_break := True\<rparr>
         else end_on_column_mismatch split ht)
      else ht)"

definition extend_pending :: "rtext \<Rightarrow> header_tracker \<Rightarrow> nat \<Rightarrow> header_tracker" where
  "extend_pending split ht p =
     (let ht1 = (case map_of (ht_active ht) p of
          Some header \<Rightarrow> if re_match table_row_pattern split
            then ht\<lparr>ht_active := AList.update p (split @ extract_separator_line header) (ht_active ht)\<rparr> else ht
        | None \<Rightarrow> ht)
      in ht1\<lparr>ht_pending := removeAll p (ht_pending ht1)\<rparr>)"

definition check_start :: "rtext \<Rightarrow> header_tracker \<Rightarrow> header_hook \<Rightarrow> header_tracker" where
  "check_start split ht hk =
     (let p = hk_priority hk in
      if is_active p ht \<or> p \<in> set (ht_ended ht) then ht
      else case re_find (hk_start hk) split 0 of
          None \<Rightarrow> ht
        | Some (a, e) \<Rightarrow>
            (let loc = take (e - a) (drop a split) in
             if loc = [] then ht
             else (let ht1 = ht\<lparr>ht_active := AList.update p loc (ht_active ht)\<rparr>
                   in if is_empty_table_header_row loc then ht1\<lparr>ht_pending := List.insert p (ht_pending ht1)\<rparr> else ht1)))"

definition tracker_update :: "rtext \<Rightarrow> header_tracker \<Rightarrow> header_tracker" where
  "tracker_update split ht0 =
     (let ht1 = resolve_table_break split ht0;
          ht2 = foldl (check_end split) ht1 (ht_hooks ht1);
          ht3 = mark_break split ht2;
          ht4 = foldl (extend_pending split) ht3 (ht_pending ht3);
          ht5 = foldl (check_start split) ht4 (ht_hooks ht4)
      in if ht_active ht5 = [] then ht5\<lparr>ht_ended := []\<rparr> else ht5)"

definition get_headers :: "header_tracker \<Rightarrow> rtext" where
  "get_headers ht = rt_join [nl] (map snd (sort_key (\<lambda>e. - int (fst e)) (ht_active ht)))"

end
