(* ===== verification/TextUnits.thy ===== *)
theory TextUnits
  imports HeaderTracker "HOL-Library.Product_Lexorder"
begin

text \<open>
  The first half of the recursive text splitter (infrastructure/chunker/splitter.go): its data,
  the protected regions, splitting at separators and the units a text is cut into. Texts are
  lists of runes, so byte and rune offsets coincide.
\<close>

section \<open>Data\<close>

record chunk =
  ch_content :: rtext
  ch_context :: rtext
  ch_seq :: nat
  ch_start :: int
  ch_end :: int

record splitter_config =
  sc_size :: int
  sc_overlap :: int
  sc_separators :: "rtext list"
  sc_strategy :: string
  sc_token_limit :: int
  sc_languages :: "string list"

record split_unit =
  u_text :: rtext
  u_start :: int
  u_end :: int

definition embedding_content :: "chunk \<Rightarrow> rtext" where
  "embedding_content c = (let body = rt_trim (ch_content c)
     in if ch_context c = [] then body else ch_context c @ [nl, nl] @ body)"

definition default_chunk_size :: int where "default_chunk_size = 512"
definition default_chunk_overlap :: int where "default_chunk_overlap = 80"

definition default_separators :: "rtext list" where
  "default_separators = [[nl, nl], [nl], [0x3002]]"

definition default_config :: splitter_config where
  "default_config = \<lparr>sc_size = default_chunk_size, sc_overlap = default_chunk_overlap,
     sc_separators = default_separators, sc_strategy = [], sc_token_limit = 0, sc_languages = []\<rparr>"

section \<open>Protected regions\<close>

text \<open>The bounded text and destination of a link, a table row and a code fence.\<close>

definition re_link_text :: "nat \<Rightarrow> regex" where
  "re_link_text least = RSeq (re_chr 91) (RSeq (RRep True least (Some 200) (re_not [93, nl])) (re_chr 93))"

definition re_link_dest :: regex where
  "re_link_dest = RSeq (re_chr 40) (RSeq (RRep True 1 (Some 500) (re_not [41, nl])) (re_chr 41))"

definition re_table_row :: regex where
  "re_table_row = re_seq [re_many (re_chr 32), re_cells, re_chr pipe_rune, re_breaks]"

definition protected_patterns :: "regex list" where
  "protected_patterns =
     [re_seq [re_lit ''$$'', re_lazy re_any, re_lit ''$$''],
      re_seq [re_chr 33, re_link_text 0, re_link_dest],
      re_seq [re_link_text 1, re_link_dest],
      re_seq [re_table_row, re_many re_space, re_sep_cells, re_chr pipe_rune, re_breaks],
      re_table_row,
      re_seq [re_lit ''```'', re_opt (re_some re_word), re_one [cr, nl], re_lazy re_any, re_lit ''```''],
      re_seq [re_chr 96, re_some (re_not [96, cr, nl]), re_chr 96]]"

text \<open>The pass over the sorted matches keeps those that start at or behind the last end.\<close>

fun drop_overlapping :: "nat \<Rightarrow> (nat \<times> nat) list \<Rightarrow> (nat \<times> nat) list" where
  "drop_overlapping last_end [] = []"
| "drop_overlapping last_end ((a, e) # ms) =
     (if last_end \<le> a then (a, e) # drop_overlapping e ms else drop_overlapping last_end ms)"

definition protected_spans :: "rtext \<Rightarrow> (nat \<times> nat) list" where
  "protected_spans t =
     drop_overlapping 0 (sort_key (\<lambda>(a, e). (a, - int e))
       (filter (\<lambda>(a, e). 0 < int e - int a) (concat (map (\<lambda>p. re_find_all p t 0) protected_patterns))))"

section \<open>Splitting at separators\<close>

definition slice :: "rtext \<Rightarrow> nat \<Rightarrow> nat \<Rightarrow> rtext" where
  "slice t a b = take (b - a) (drop a t)"

text \<open>
  The pieces between the matches of a separator and the matches themselves, without the empty
  pieces.
\<close>

function sep_pieces :: "rtext \<Rightarrow> rtext \<Rightarrow> rtext list" where
  "sep_pieces sep t =
     (case rt_index sep t of
        None \<Rightarrow> (if t = [] then [] else [t])
      | Some i \<Rightarrow> if sep = [] then [t]
          else (if i = 0 then [] else [take i t]) @ sep # sep_pieces sep (drop (i + length sep) t))"
  by pat_completeness auto
termination
proof (relation "measure (length \<circ> snd)", goal_cases)
  case (2 sep t i)
  then show ?case using rt_index_Some [of sep t i] by (cases sep) auto
qed simp

declare sep_pieces.simps [simp del]

fun split_by_separators :: "rtext \<Rightarrow> rtext list \<Rightarrow> int \<Rightarrow> rtext list" where
  "split_by_separators t [] budget = [t]"
| "split_by_separators t (sep # remaining) budget =
     (if t = [] then [t]
      else if 0 < budget \<and> int (length t) \<le> budget then [t]
      else if sep = [] then split_by_separators t remaining budget
      else if rt_index sep t = None then split_by_separators t remaining budget
      else let pieces = sep_pieces sep t in
        if length pieces \<le> 1 then split_by_separators t remaining budget
        else concat (map (\<lambda>p. if 0 < budget \<and> budget < int (length p) \<and> remaining \<noteq> []
               then split_by_separators p remaining budget else [p]) pieces))"

section \<open>Units\<close>

text \<open>The largest unit and chunk: \<open>maxProtectedSize\<close> and \<open>absoluteMaxSize\<close>.\<close>

definition max_unit_size :: nat where
  "max_unit_size = 7500"

text \<open>The search for a line break or a blank, downwards from \<open>i\<close> to above \<open>lo\<close>.\<close>

fun break_scan :: "rtext \<Rightarrow> nat \<Rightarrow> nat \<Rightarrow> nat option" where
  "break_scan t lo 0 = None"
| "break_scan t lo (Suc i) =
     (if lo < Suc i
      then (if t ! Suc i = nl \<or> t ! Suc i = 32 then Some (Suc (Suc i)) else break_scan t lo i)
      else None)"

definition forced_end :: "rtext \<Rightarrow> nat \<Rightarrow> nat" where
  "forced_end t offset =
     (let e = offset + max_unit_size in
      if length t < e then length t
      else (case break_scan t (max offset (e - 200)) (e - 1) of Some b \<Rightarrow> b | None \<Rightarrow> e))"

lemma break_scan_Some: "break_scan t lo i = Some b \<Longrightarrow> lo < b \<and> b \<le> Suc i"
  by (induction i) (auto split: if_splits)

lemma forced_end_range:
  "offset < length t \<Longrightarrow> offset < forced_end t offset \<and> forced_end t offset \<le> length t
     \<and> forced_end t offset \<le> offset + max_unit_size"
  using break_scan_Some [of t "max offset (offset + max_unit_size - 200)" "offset + max_unit_size - 1"]
  by (auto simp: forced_end_def Let_def max_unit_size_def split: option.splits)

text \<open>The loop that forcibly splits a text, as the list of its offsets.\<close>

function forced_pieces :: "rtext \<Rightarrow> nat \<Rightarrow> (nat \<times> nat) list" where
  "forced_pieces t offset =
     (if offset < length t then (offset, forced_end t offset) # forced_pieces t (forced_end t offset) else [])"
  by pat_completeness auto
termination
proof (relation "measure (\<lambda>(t, offset). length t - offset)", goal_cases)
  case (2 t offset)
  then show ?case using forced_end_range [of offset t] by auto
qed simp

declare forced_pieces.simps [simp del]

lemma forced_pieces_end [simp]: "length t \<le> offset \<Longrightarrow> forced_pieces t offset = []"
  by (simp add: forced_pieces.simps [of t offset])

fun place_parts :: "int \<Rightarrow> rtext list \<Rightarrow> split_unit list" where
  "place_parts pos [] = []"
| "place_parts pos (p # ps) =
     \<lparr>u_text = p, u_start = pos, u_end = pos + int (length p)\<rparr> # place_parts (pos + int (length p)) ps"

definition protected_units :: "rtext \<Rightarrow> nat \<times> nat \<Rightarrow> split_unit list" where
  "protected_units t p =
     (let prot = slice t (fst p) (snd p) in
      if max_unit_size < length prot
      then map (\<lambda>(a, b). \<lparr>u_text = slice prot a b, u_start = int (fst p + a), u_end = int (fst p + b)\<rparr>)
             (forced_pieces prot 0)
      else [\<lparr>u_text = prot, u_start = int (fst p), u_end = int (fst p + length prot)\<rparr>])"

fun units_from :: "rtext \<Rightarrow> rtext list \<Rightarrow> int \<Rightarrow> nat \<Rightarrow> (nat \<times> nat) list \<Rightarrow> split_unit list" where
  "units_from t seps budget pos [] =
     (if pos < length t then place_parts (int pos) (split_by_separators (drop pos t) seps budget) else [])"
| "units_from t seps budget pos (p # ps) =
     (if pos < fst p then place_parts (int pos) (split_by_separators (slice t pos (fst p)) seps budget) else [])
     @ protected_units t p @ units_from t seps budget (snd p) ps"

definition build_units_with_protection ::
    "rtext \<Rightarrow> (nat \<times> nat) list \<Rightarrow> rtext list \<Rightarrow> int \<Rightarrow> split_unit list" where
  "build_units_with_protection t protected seps budget = units_from t seps budget 0 protected"

definition units_text :: "split_unit list \<Rightarrow> rtext" where
  "units_text us = concat (map u_text us)"

section \<open>Slices and tilings\<close>

lemma slice_full [simp]: "slice t 0 (length t) = t"
  by (simp add: slice_def)

lemma slice_same [simp]: "slice t a a = []"
  by (simp add: slice_def)

lemma length_slice [simp]: "b \<le> length t \<Longrightarrow> length (slice t a b) = b - a"
  by (simp add: slice_def)

lemma slice_append: "a \<le> b \<Longrightarrow> b \<le> c \<Longrightarrow> slice t a b @ slice t b c = slice t a c"
proof -
  assume "a \<le> b" "b \<le> c"
  then have "take (c - a) (drop a t) = take (b - a) (drop a t) @ take (c - b) (drop (b - a) (drop a t))"
    by (metis le_add_diff_inverse add_diff_cancel_left' diff_add_assoc2 take_add diff_diff_left ordered_cancel_comm_monoid_diff_class.add_diff_assoc2 Nat.diff_diff_right)
  then show ?thesis using \<open>a \<le> b\<close> by (simp add: slice_def)
qed

lemma slice_slice: "b \<le> e - s \<Longrightarrow> slice (slice t s e) a b = slice t (s + a) (s + b)"
  by (simp add: slice_def drop_take add.commute min_def)

lemma drop_slice: "drop k (slice t a b) = slice t (a + k) b"
  by (simp add: slice_def drop_take add.commute)

text \<open>
  Units that cut a text from \<open>a\<close> to \<open>b\<close> without gap or overlap: each one is not empty, holds
  exactly the runes between its positions, and starts where the one before ends.
\<close>

fun tiled :: "rtext \<Rightarrow> nat \<Rightarrow> split_unit list \<Rightarrow> nat \<Rightarrow> bool" where
  "tiled t a [] b \<longleftrightarrow> a = b"
| "tiled t a (u # us) b \<longleftrightarrow> u_text u \<noteq> [] \<and> u_start u = int a
     \<and> u_end u = int (a + length (u_text u)) \<and> a + length (u_text u) \<le> length t
     \<and> u_text u = slice t a (a + length (u_text u)) \<and> tiled t (a + length (u_text u)) us b"

lemma tiled_append: "tiled t a (us @ vs) c \<longleftrightarrow> (\<exists>b. tiled t a us b \<and> tiled t b vs c)"
  by (induction us arbitrary: a) auto

lemma tiled_le: "tiled t a us b \<Longrightarrow> a \<le> length t \<Longrightarrow> a \<le> b \<and> b \<le> length t"
proof (induction us arbitrary: a)
  case (Cons u us)
  then have "a + length (u_text u) \<le> b \<and> b \<le> length t" using Cons.IH [of "a + length (u_text u)"] by simp
  then show ?case by linarith
qed simp

lemma tiled_text: "tiled t a us b \<Longrightarrow> a \<le> length t \<Longrightarrow> units_text us = slice t a b"
proof (induction us arbitrary: a)
  case (Cons u us)
  let ?m = "a + length (u_text u)"
  have "units_text us = slice t ?m b" and "?m \<le> b" and u: "u_text u = slice t a ?m"
    using Cons tiled_le [of t ?m us b] by simp_all
  then have "units_text (u # us) = slice t a ?m @ slice t ?m b" by (simp add: units_text_def)
  also have "\<dots> = slice t a b" using \<open>?m \<le> b\<close> by (simp add: slice_append)
  finally show ?case .
qed (simp add: units_text_def)

lemma tiled_place:
  "concat ps = slice t a b \<Longrightarrow> [] \<notin> set ps \<Longrightarrow> a \<le> b \<Longrightarrow> b \<le> length t \<Longrightarrow> tiled t a (place_parts (int a) ps) b"
proof (induction ps arbitrary: a)
  case Nil
  then show ?case using length_slice [of b t a] by simp
next
  case (Cons p ps)
  let ?m = "a + length p"
  have len: "length p + length (concat ps) = b - a" using Cons.prems length_slice [of b t a] by (metis concat.simps(2) length_append)
  then have m: "?m \<le> b" using Cons.prems(3) by linarith
  have cat: "p @ concat ps = slice t a ?m @ slice t ?m b"
    using Cons.prems(1) m by (simp add: slice_append)
  moreover have "length (slice t a ?m) = length p" using m Cons.prems(4) by simp
  ultimately have p: "p = slice t a ?m" and ps: "concat ps = slice t ?m b" by (simp_all add: append_eq_append_conv)
  have "tiled t ?m (place_parts (int ?m) ps) b" using Cons.IH [OF ps] Cons.prems m by simp
  then show ?case using p Cons.prems m by (auto simp: add.commute)
qed

section \<open>Pieces\<close>

lemma sep_pieces_concat: "concat (sep_pieces sep t) = t"
proof (induction sep t rule: sep_pieces.induct)
  case (1 sep t)
  show ?case
  proof (cases "rt_index sep t")
    case (Some i)
    show ?thesis
    proof (cases "sep = []")
      case False
      then have "concat (sep_pieces sep (drop (i + length sep) t)) = drop (i + length sep) t" using 1 Some by blast
      moreover have "take i t @ sep @ drop (i + length sep) t = t" using rt_index_split [OF Some] by simp
      ultimately show ?thesis using Some False by (auto simp: sep_pieces.simps [of sep t])
    qed (use Some in \<open>subst sep_pieces.simps, simp\<close>)
  qed (simp add: sep_pieces.simps [of sep t])
qed

text \<open>A piece is a separator or holds none; no piece is empty.\<close>

lemma sep_pieces_clean:
  "sep \<noteq> [] \<Longrightarrow> p \<in> set (sep_pieces sep t) \<Longrightarrow> p \<noteq> [] \<and> (p = sep \<or> \<not> sublist sep p)"
proof (induction sep t rule: sep_pieces.induct)
  case (1 sep t)
  show ?case
  proof (cases "rt_index sep t")
    case None
    then have "t \<noteq> []" "p = t" using "1.prems" by (auto simp: sep_pieces.simps [of sep t] split: if_splits)
    then show ?thesis using None rt_index_None by blast
  next
    case (Some i)
    have i: "i \<le> length t" using rt_index_Some [OF Some] by simp
    consider "i \<noteq> 0" "p = take i t" | "p = sep" | "p \<in> set (sep_pieces sep (drop (i + length sep) t))"
      using "1.prems" Some by (auto simp: sep_pieces.simps [of sep t] split: if_splits)
    then show ?thesis
    proof cases
      case 1
      then have "p \<noteq> []" using i by (cases t) auto
      then show ?thesis using rt_index_before [OF Some "1.prems"(1)] 1 by simp
    next
      case 3
      then show ?thesis using "1.IH" [OF Some "1.prems"(1)] "1.prems" by blast
    qed (use "1.prems" in simp)
  qed
qed

lemma concat_map_pieces: "(\<And>p. p \<in> set ps \<Longrightarrow> concat (f p) = p) \<Longrightarrow> concat (concat (map f ps)) = concat ps"
  by (induction ps) simp_all

text \<open>The three shapes of a split: left whole, left to the next separator, cut at this one.\<close>

lemma split_cases:
  obtains "split_by_separators t (sep # remaining) budget = [t]" "t = [] \<or> (0 < budget \<and> int (length t) \<le> budget)"
  | "split_by_separators t (sep # remaining) budget = split_by_separators t remaining budget"
    "t \<noteq> []" "sep = [] \<or> rt_index sep t = None \<or> length (sep_pieces sep t) \<le> 1"
  | "split_by_separators t (sep # remaining) budget = concat (map (\<lambda>p.
        if 0 < budget \<and> budget < int (length p) \<and> remaining \<noteq> []
        then split_by_separators p remaining budget else [p]) (sep_pieces sep t))" "t \<noteq> []" "sep \<noteq> []"
  by (cases "t = [] \<or> (0 < budget \<and> int (length t) \<le> budget)";
      cases "sep = [] \<or> rt_index sep t = None \<or> length (sep_pieces sep t) \<le> 1") (auto simp: Let_def)

lemma split_concat: "concat (split_by_separators t seps budget) = t"
proof (induction seps arbitrary: t)
  case (Cons sep remaining)
  show ?case
  proof (cases rule: split_cases [of t sep remaining budget])
    case 3
    show ?thesis unfolding 3(1)
      by (subst concat_map_pieces) (auto simp: Cons.IH sep_pieces_concat)
  qed (use Cons.IH in simp_all)
qed simp

lemma split_nonempty: "t \<noteq> [] \<Longrightarrow> [] \<notin> set (split_by_separators t seps budget)"
proof (induction seps arbitrary: t)
  case (Cons sep remaining)
  show ?case
  proof (cases rule: split_cases [of t sep remaining budget])
    case 3
    show ?thesis unfolding 3(1) using sep_pieces_clean [OF 3(3), of _ t] Cons.IH by auto
  qed (use Cons in simp_all)
qed simp

lemma piece_sublist: "concat ps = t \<Longrightarrow> p \<in> set ps \<Longrightarrow> sublist p t"
  by (auto simp: in_set_conv_decomp)

lemma split_sublist: "p \<in> set (split_by_separators t seps budget) \<Longrightarrow> sublist p t"
  by (rule piece_sublist [OF split_concat])

lemma not_sublist_below: "sublist p q \<Longrightarrow> \<not> sublist sep q \<Longrightarrow> \<not> sublist sep p"
  using sublist_order.order.trans by blast

lemma sublist_below: "sublist p sep \<Longrightarrow> p \<noteq> sep \<Longrightarrow> \<not> sublist sep p"
  using sublist_order.order.antisym by blast

lemma whole_piece: "u \<noteq> [] \<Longrightarrow> sep \<noteq> [] \<Longrightarrow> length (sep_pieces sep u) \<le> 1 \<Longrightarrow> u = sep \<or> \<not> sublist sep u"
proof -
  assume u: "u \<noteq> []" "sep \<noteq> []" "length (sep_pieces sep u) \<le> 1"
  then have "sep_pieces sep u = [u]" using sep_pieces_concat [of sep u] by (cases "sep_pieces sep u") auto
  then show ?thesis using sep_pieces_clean [OF u(2), of u u] by simp
qed

lemma piece_below: "u = sep \<or> \<not> sublist sep u \<Longrightarrow> sublist p u \<Longrightarrow> p = sep \<or> \<not> sublist sep p"
  using not_sublist_below [of p u sep] sublist_below [of p sep] by blast

lemma uncut_piece:
  "u \<noteq> [] \<Longrightarrow> sep = [] \<or> rt_index sep u = None \<or> length (sep_pieces sep u) \<le> 1 \<Longrightarrow> sublist p u \<Longrightarrow>
   sep = [] \<or> p = sep \<or> \<not> sublist sep p"
  using whole_piece [of u sep] rt_index_None [of sep u] piece_below [of u sep p] by blast

definition settled :: "rtext list \<Rightarrow> int \<Rightarrow> rtext \<Rightarrow> bool" where
  "settled seps budget p \<longleftrightarrow> int (length p) \<le> budget \<or> p \<in> set seps \<or> (\<forall>sep \<in> set seps. sep \<noteq> [] \<longrightarrow> \<not> sublist sep p)"

lemma settled_Cons:
  "settled seps budget p \<Longrightarrow> sep = [] \<or> p = sep \<or> \<not> sublist sep p \<Longrightarrow> settled (sep # seps) budget p"
  by (auto simp: settled_def)

lemma pieces_settled:
  "0 < budget \<Longrightarrow> u \<noteq> [] \<Longrightarrow> p \<in> set (split_by_separators u seps budget) \<Longrightarrow> settled seps budget p"
proof (induction seps arbitrary: u)
  case (Cons sep remaining)
  show ?case
  proof (cases rule: split_cases [of u sep remaining budget])
    case 1
    then have "p = u" using Cons.prems(3) by (simp only: list.set singleton_iff)
    then show ?thesis using 1(2) Cons.prems(2) by (simp add: settled_def)
  next
    case 2
    then have p: "p \<in> set (split_by_separators u remaining budget)" using Cons.prems(3) by (simp only:)
    show ?thesis
      by (rule settled_Cons [OF Cons.IH [OF Cons.prems(1,2) p] uncut_piece [OF 2(2,3) split_sublist [OF p]]])
  next
    case 3
    then obtain q where q: "q \<in> set (sep_pieces sep u)" and p: "p \<in> set (if 0 < budget \<and> budget < int (length q) \<and> remaining \<noteq> []
        then split_by_separators q remaining budget else [q])"
      using Cons.prems(3) unfolding 3(1) set_concat set_map by blast
    have clean: "q \<noteq> []" "q = sep \<or> \<not> sublist sep q" using sep_pieces_clean [OF 3(3) q] by simp_all
    show ?thesis
    proof (cases "budget < int (length q) \<and> remaining \<noteq> []")
      case True
      then have p: "p \<in> set (split_by_separators q remaining budget)" using p Cons.prems(1) by simp
      show ?thesis
        by (rule settled_Cons [OF Cons.IH [OF Cons.prems(1) clean(1) p]])
          (use piece_below [OF clean(2) split_sublist [OF p]] in blast)
    next
      case False
      then have "p = q" using p by (auto split: if_splits)
      then show ?thesis using False clean by (cases "remaining = []") (auto simp: settled_def)
    qed
  qed
qed (simp add: settled_def)

text \<open>
  Splitting at separators loses nothing and leaves no work: the pieces of a text joined give
  the text back, none of them is empty, and a piece that is still larger than the budget is
  itself a separator or contains none of them.
\<close>

theorem separator_pieces:
  assumes "t \<noteq> []" "0 < budget"
  shows "concat (split_by_separators t seps budget) = t \<and> [] \<notin> set (split_by_separators t seps budget)
    \<and> (\<forall>p \<in> set (split_by_separators t seps budget). int (length p) \<le> budget \<or> p \<in> set seps
         \<or> (\<forall>sep \<in> set seps. sep \<noteq> [] \<longrightarrow> \<not> sublist sep p))"
  using split_concat [of t seps budget] split_nonempty [OF assms(1), of seps budget]
    pieces_settled [OF assms(2,1), of _ seps] unfolding settled_def by blast

lemma separator_pieces_witness:
  "split_by_separators (lit ''ab--cde f'') [lit ''--'', lit '' ''] 3 = [lit ''ab'', lit ''--'', lit ''cde'', lit '' '', lit ''f'']
   \<and> concat (split_by_separators (lit ''ab--cde f'') [lit ''--'', lit '' ''] 3) = lit ''ab--cde f''"
proof
  show "split_by_separators (lit ''ab--cde f'') [lit ''--'', lit '' ''] 3 = [lit ''ab'', lit ''--'', lit ''cde'', lit '' '', lit ''f'']"
    by code_simp
  show "concat (split_by_separators (lit ''ab--cde f'') [lit ''--'', lit '' ''] 3) = lit ''ab--cde f''"
    by (rule separator_pieces [THEN conjunct1]) (simp_all add: lit_def)
qed

section \<open>Protected regions and units\<close>

text \<open>Regions in order, apart, not empty and inside the text.\<close>

fun spans_ok :: "nat \<Rightarrow> nat \<Rightarrow> (nat \<times> nat) list \<Rightarrow> bool" where
  "spans_ok lo n [] \<longleftrightarrow> True"
| "spans_ok lo n ((a, e) # ps) \<longleftrightarrow> lo \<le> a \<and> a < e \<and> e \<le> n \<and> spans_ok e n ps"

lemma spans_ok_drop: "\<forall>(a, e) \<in> set ms. a < e \<and> e \<le> n \<Longrightarrow> spans_ok lo n (drop_overlapping lo ms)"
  by (induction lo ms rule: drop_overlapping.induct) auto

lemma protected_spans_ok: "spans_ok 0 (length t) (protected_spans t)"
  unfolding protected_spans_def
  by (rule spans_ok_drop) (auto dest!: re_find_all_range)

lemma forced_pieces_tiled:
  "a \<le> length u \<Longrightarrow> u = slice t s (s + length u) \<Longrightarrow> s + length u \<le> length t \<Longrightarrow>
   tiled t (s + a) (map (\<lambda>(a, b). \<lparr>u_text = slice u a b, u_start = int (s + a), u_end = int (s + b)\<rparr>) (forced_pieces u a))
     (s + length u)"
proof (induction u a rule: forced_pieces.induct)
  case (1 u a)
  show ?case
  proof (cases "a < length u")
    case True
    let ?b = "forced_end u a"
    have b: "a < ?b" "?b \<le> length u" using forced_end_range [OF True] by simp_all
    have len: "length (slice u a ?b) = ?b - a" using b by simp
    have sl: "slice u a ?b = slice t (s + a) (s + ?b)"
      using b "1.prems"(2) slice_slice [of ?b "s + length u" s t a] by simp
    have "tiled t (s + ?b) (map (\<lambda>(a, b). \<lparr>u_text = slice u a b, u_start = int (s + a), u_end = int (s + b)\<rparr>)
        (forced_pieces u ?b)) (s + length u)"
      using "1.IH" [OF True] "1.prems" b(2) by blast
    moreover have "slice u a ?b \<noteq> []" by (metis b(1) len less_irrefl list.size(3) zero_less_diff)
    ultimately show ?thesis using True b len sl "1.prems"(3) by (simp add: forced_pieces.simps [of u a])
  qed (use "1.prems" in \<open>simp add: forced_pieces.simps [of u a]\<close>)
qed

lemma protected_units_tiled:
  assumes "a < e" "e \<le> length t"
  shows "tiled t a (protected_units t (a, e)) e"
proof (cases "max_unit_size < length (slice t a e)")
  case True
  then show ?thesis using forced_pieces_tiled [of 0 "slice t a e" t a] assms
    by (simp add: protected_units_def Let_def)
next
  case False
  moreover have "slice t a e \<noteq> []" using assms by (metis length_slice list.size(3) zero_less_diff less_irrefl)
  ultimately show ?thesis using assms by (simp add: protected_units_def Let_def)
qed

lemma parts_tiled:
  assumes "a < b" "b \<le> length t"
  shows "tiled t a (place_parts (int a) (split_by_separators (slice t a b) seps budget)) b"
proof -
  have "slice t a b \<noteq> []" using assms by (metis length_slice list.size(3) zero_less_diff less_irrefl)
  then show ?thesis using assms by (intro tiled_place) (simp_all add: split_concat split_nonempty)
qed

lemma units_from_tiled:
  "spans_ok pos (length t) ps \<Longrightarrow> pos \<le> length t \<Longrightarrow> tiled t pos (units_from t seps budget pos ps) (length t)"
proof (induction ps arbitrary: pos)
  case Nil
  have "drop pos t = slice t pos (length t)" by (simp add: slice_def)
  then show ?case using Nil parts_tiled [of pos "length t" t seps budget] by auto
next
  case (Cons p ps)
  obtain a e where p: "p = (a, e)" by force
  have ok: "pos \<le> a" "a < e" "e \<le> length t" "spans_ok e (length t) ps" using Cons.prems(1) p by simp_all
  have pre: "tiled t pos (if pos < a then place_parts (int pos) (split_by_separators (slice t pos a) seps budget) else []) a"
    using parts_tiled [of pos a t seps budget] ok by simp
  have "tiled t a (protected_units t (a, e)) e" by (rule protected_units_tiled [OF ok(2,3)])
  moreover have "tiled t e (units_from t seps budget e ps) (length t)" by (rule Cons.IH [OF ok(4,3)])
  ultimately show ?case using pre unfolding p units_from.simps tiled_append fst_conv snd_conv by blast
qed

lemma units_from_keeps:
  "(a, e) \<in> set ps \<Longrightarrow> spans_ok pos (length t) ps \<Longrightarrow> e - a \<le> max_unit_size \<Longrightarrow>
   \<lparr>u_text = slice t a e, u_start = int a, u_end = int e\<rparr> \<in> set (units_from t seps budget pos ps)"
proof (induction ps arbitrary: pos)
  case (Cons p ps)
  obtain b f where p: "p = (b, f)" by force
  have ok: "b < f" "f \<le> length t" "spans_ok f (length t) ps" using Cons.prems(2) p by simp_all
  show ?case
  proof (cases "(a, e) = p")
    case True
    then show ?thesis using p ok Cons.prems(3) by (auto simp: protected_units_def)
  next
    case False
    then show ?thesis using Cons ok p by auto
  qed
qed simp

text \<open>
  C35. The units of a text: they cut it from its first to its last rune without gap or overlap,
  each one holding exactly the runes between its positions; the protected regions are in order,
  apart and inside the text, and one of at most 7500 runes is a unit of its own, so no chunk
  boundary falls into it.
\<close>

theorem units_tile_text:
  assumes "units = build_units_with_protection t (protected_spans t) seps budget"
  shows "tiled t 0 units (length t) \<and> spans_ok 0 (length t) (protected_spans t)
    \<and> (\<forall>(a, e) \<in> set (protected_spans t). e - a \<le> max_unit_size \<longrightarrow>
         \<lparr>u_text = slice t a e, u_start = int a, u_end = int e\<rparr> \<in> set units)"
  using units_from_tiled [OF protected_spans_ok] units_from_keeps [OF _ protected_spans_ok] protected_spans_ok [of t]
  by (auto simp: assms build_units_with_protection_def)

lemma units_tile_text_witness:
  "\<lparr>u_text = lit ''`a b`'', u_start = 2, u_end = 7\<rparr>
     \<in> set (build_units_with_protection (lit ''x `a b` y'') (protected_spans (lit ''x `a b` y'')) [[32]] 2)"
proof -
  have "protected_spans (lit ''x `a b` y'') = [(2, 7)]" by code_simp
  moreover have "slice (lit ''x `a b` y'') 2 7 = lit ''`a b`''" by code_simp
  ultimately show ?thesis
    using units_tile_text [of _ "lit ''x `a b` y''" "[[32]]" 2, OF refl] by (simp add: max_unit_size_def)
qed

fun runs_to :: "nat \<Rightarrow> (nat \<times> nat) list \<Rightarrow> nat \<Rightarrow> bool" where
  "runs_to a [] n \<longleftrightarrow> a = n"
| "runs_to a ((b, e) # ps) n \<longleftrightarrow> a = b \<and> b < e \<and> runs_to e ps n"

lemma break_scan_break: "break_scan t lo i = Some b \<Longrightarrow> t ! (b - 1) = nl \<or> t ! (b - 1) = 32"
  by (induction i) (auto split: if_splits)

lemma break_scan_above: "break_scan t lo i = Some b \<Longrightarrow> Suc lo < b"
  by (induction i) (auto split: if_splits)

lemma forced_end_large: "forced_end t a < length t \<Longrightarrow> a + 7300 < forced_end t a"
  using break_scan_above [of t "max a (a + max_unit_size - 200)" "a + max_unit_size - 1"]
  by (auto simp: forced_end_def Let_def max_unit_size_def split: option.splits if_splits)

lemma forced_end_break:
  "forced_end t a = length t \<or> forced_end t a = a + max_unit_size
   \<or> t ! (forced_end t a - 1) = nl \<or> t ! (forced_end t a - 1) = 32"
  using break_scan_break [of t "max a (a + max_unit_size - 200)" "a + max_unit_size - 1"]
  by (auto simp: forced_end_def Let_def split: option.splits)

lemma forced_split_ends_lemma:
  assumes "a \<le> length t"
  shows "runs_to a (forced_pieces t a) (length t) \<and> length (forced_pieces t a) \<le> (length t - a) div 7300 + 1
    \<and> (\<forall>(b, e) \<in> set (forced_pieces t a). e - b \<le> max_unit_size
         \<and> (e = length t \<or> e = b + max_unit_size \<or> t ! (e - 1) = nl \<or> t ! (e - 1) = 32))"
  using assms
proof (induction t a rule: forced_pieces.induct)
  case (1 t a)
  show ?case
  proof (cases "a < length t")
    case True
    let ?e = "forced_end t a"
    have e: "a < ?e" "?e \<le> length t" "?e - a \<le> max_unit_size" using forced_end_range [OF True] by auto
    note IH = "1.IH" [OF True e(2), THEN conjunct1] "1.IH" [OF True e(2), THEN conjunct2, THEN conjunct1]
      "1.IH" [OF True e(2), THEN conjunct2, THEN conjunct2]
    have "length (forced_pieces t a) \<le> (length t - a) div 7300 + 1"
    proof (cases "?e = length t")
      case True
      then show ?thesis using \<open>a < length t\<close> by (simp add: forced_pieces.simps [of t a] forced_pieces.simps [of t "length t"])
    next
      case False
      then have "length t - ?e + 7300 \<le> length t - a" using forced_end_large [of t a] e by linarith
      then have "(length t - ?e) div 7300 + 1 \<le> (length t - a) div 7300"
        using div_le_mono [of "length t - ?e + 7300" "length t - a" 7300] div_add_self2 [of 7300 "length t - ?e"] by linarith
      then show ?thesis using IH(2) True by (simp add: forced_pieces.simps [of t a])
    qed
    moreover have "forced_pieces t a = (a, ?e) # forced_pieces t ?e" using True by (simp add: forced_pieces.simps [of t a])
    ultimately show ?thesis using IH(1,3) e forced_end_break [of t a] by auto
  qed (use "1.prems" in \<open>simp add: forced_pieces.simps [of t a]\<close>)
qed

text \<open>
  C36. The loop that forcibly splits an oversized text ends: its pieces run from the start to the
  end of the text, each has at least one and at most 7500 runes, each ends behind a line break or
  a blank, at the limit or at the end of the text, and a text of n runes takes at most
  n div 7300 + 1 rounds.
\<close>

theorem forced_split_ends:
  assumes "a \<le> length t"
  shows "runs_to a (forced_pieces t a) (length t) \<and> length (forced_pieces t a) \<le> (length t - a) div 7300 + 1
    \<and> (\<forall>(b, e) \<in> set (forced_pieces t a). e - b \<le> max_unit_size
         \<and> (e = length t \<or> e = b + max_unit_size \<or> t ! (e - 1) = nl \<or> t ! (e - 1) = 32))"
  by (rule forced_split_ends_lemma [OF assms])

lemma forced_split_ends_witness:
  "runs_to 0 (forced_pieces (replicate 9000 97) 0) 9000 \<and> length (forced_pieces (replicate 9000 97) 0) \<le> 2"
  using forced_split_ends [of 0 "replicate 9000 97"] by simp

end
