(* ===== verification/Splitter.thy ===== *)
theory Splitter
  imports TextUnits
begin

text \<open>
  The second half of the recursive text splitter (infrastructure/chunker/splitter.go): merging
  units into chunks with a semantic overlap and repeated table headers, and the two-level split
  into parents and children.
\<close>

section \<open>Chunks of units\<close>

definition build_chunk :: "split_unit list \<Rightarrow> nat \<Rightarrow> chunk" where
  "build_chunk us seq = \<lparr>ch_content = units_text us, ch_context = [], ch_seq = seq,
     ch_start = u_start (hd us), ch_end = u_end (last us)\<rparr>"

section \<open>Semantic overlap\<close>

text \<open>
  Boundary candidates: start, end and priority. The scan for paragraph breaks jumps over a break
  it found; the positions of paragraph breaks are left out of the scan for line breaks.
\<close>

function para_breaks :: "nat \<Rightarrow> rtext \<Rightarrow> (nat \<times> nat) list" where
  "para_breaks i s =
     (if s = [] then []
      else if take 4 s = [cr, nl, cr, nl] then (i, i + 4) # para_breaks (i + 4) (drop 4 s)
      else if take 2 s = [nl, nl] then (i, i + 2) # para_breaks (i + 2) (drop 2 s)
      else para_breaks (i + 1) (tl s))"
  by pat_completeness auto
termination by (relation "measure (\<lambda>(i, s). length s)") auto

declare para_breaks.simps [simp del]

definition in_para_break :: "(nat \<times> nat) list \<Rightarrow> nat \<Rightarrow> bool" where
  "in_para_break ps i \<longleftrightarrow> list_ex (\<lambda>(a, e). a \<le> i \<and> i < e) ps"

function line_breaks :: "(nat \<times> nat) list \<Rightarrow> nat \<Rightarrow> rtext \<Rightarrow> (nat \<times> nat) list" where
  "line_breaks ps i s =
     (if s = [] then []
      else if in_para_break ps i then line_breaks ps (i + 1) (tl s)
      else if take 2 s = [cr, nl] \<and> \<not> in_para_break ps (i + 1) then (i, i + 2) # line_breaks ps (i + 2) (drop 2 s)
      else if hd s = nl then (i, i + 1) # line_breaks ps (i + 1) (tl s)
      else line_breaks ps (i + 1) (tl s))"
  by pat_completeness auto
termination by (relation "measure (\<lambda>(ps, i, s). length s)") auto

declare line_breaks.simps [simp del]

fun sentence_ends :: "nat \<Rightarrow> rtext \<Rightarrow> (nat \<times> nat) list" where
  "sentence_ends i [] = []"
| "sentence_ends i (c # s) =
     (if c \<in> {0x3002, 0xFF1F, 0xFF01} then [(i, i + 1)]
      else if c \<in> {46, 63, 33} \<and> take 1 s = [32] then [(i, i + 2)] else []) @ sentence_ends (i + 1) s"

record boundary =
  bd_start :: nat
  bd_end :: nat
  bd_priority :: nat

fun inside_protected :: "(nat \<times> nat) list \<Rightarrow> nat \<Rightarrow> bool" where
  "inside_protected [] pos = False"
| "inside_protected ((a, e) # ps) pos =
     (if pos < a then False else if pos < e then True else inside_protected ps pos)"

definition has_meaningful_tail :: "rtext \<Rightarrow> nat \<Rightarrow> bool" where
  "has_meaningful_tail t e \<longleftrightarrow> e < length t \<and> rt_trim (drop e t) \<noteq> []"

definition consider_boundary ::
    "rtext \<Rightarrow> (nat \<times> nat) list \<Rightarrow> nat \<Rightarrow> boundary option \<Rightarrow> boundary \<Rightarrow> boundary option" where
  "consider_boundary t protected min_end best c =
     (if bd_end c \<le> bd_start c \<or> bd_end c < min_end \<or> length t < bd_end c
         \<or> inside_protected protected (bd_start c) \<or> \<not> has_meaningful_tail t (bd_end c) then best
      else case best of
          None \<Rightarrow> Some c
        | Some b \<Rightarrow> if bd_priority c < bd_priority b \<or> (bd_priority c = bd_priority b \<and> bd_start c < bd_start b)
            then Some c else best)"

definition boundary_candidates :: "rtext \<Rightarrow> boundary list" where
  "boundary_candidates t =
     (let paras = para_breaks 0 t; mk = (\<lambda>n (a, e). \<lparr>bd_start = a, bd_end = e, bd_priority = n\<rparr>)
      in map (mk 1) paras @ map (mk 2) (line_breaks paras 0 t) @ map (mk 3) (sentence_ends 0 t))"

definition find_boundary_from :: "rtext \<Rightarrow> nat \<Rightarrow> nat option" where
  "find_boundary_from t min_end =
     (if t = [] \<or> length t < min_end then None
      else map_option bd_end
        (foldl (consider_boundary t (protected_spans t) min_end) None (boundary_candidates t)))"

text \<open>The tail of the current units, from the last backwards; a generated header stops it.\<close>

fun tail_window :: "nat \<Rightarrow> split_unit list \<Rightarrow> split_unit list" where
  "tail_window remaining [] = []"
| "tail_window remaining (u # us) =
     (let n = length (u_text u) in
      if remaining = 0 then []
      else if n = 0 then tail_window remaining us
      else if u_start u = u_end u \<or> u_end u - u_start u \<noteq> int n then []
      else if n \<le> remaining then tail_window (remaining - n) us @ [u]
      else [\<lparr>u_text = drop (n - remaining) (u_text u), u_start = u_start u + int (n - remaining), u_end = u_end u\<rparr>])"

definition semantic_overlap_window :: "split_unit list \<Rightarrow> int \<Rightarrow> split_unit list" where
  "semantic_overlap_window current max_len =
     (if max_len \<le> 0 \<or> current = [] then [] else tail_window (nat max_len) (rev current))"

fun trim_units :: "nat \<Rightarrow> split_unit list \<Rightarrow> split_unit list" where
  "trim_units remaining [] = []"
| "trim_units remaining (u # us) =
     (let n = length (u_text u) in
      if n \<le> remaining then trim_units (remaining - n) us
      else if 0 < remaining
      then u\<lparr>u_text := drop remaining (u_text u), u_start := u_start u + int remaining\<rparr> # trim_units 0 us
      else u # trim_units 0 us)"

definition trim_units_prefix :: "split_unit list \<Rightarrow> nat \<Rightarrow> split_unit list" where
  "trim_units_prefix us prefix_len = (if prefix_len = 0 then us else trim_units prefix_len us)"

definition semantic_overlap_lookbehind :: int where
  "semantic_overlap_lookbehind = 4"

definition compute_overlap :: "split_unit list \<Rightarrow> int \<Rightarrow> int \<Rightarrow> int \<Rightarrow> split_unit list \<times> int" where
  "compute_overlap current chunk_overlap chunk_budget next_len =
     (if chunk_overlap \<le> 0 then ([], 0)
      else let max_overlap = (if chunk_budget - next_len < chunk_overlap then chunk_budget - next_len else chunk_overlap) in
        if max_overlap \<le> 0 then ([], 0)
        else let window = semantic_overlap_window current (max_overlap + semantic_overlap_lookbehind) in
          if window = [] then ([], 0)
          else case find_boundary_from (units_text window) (nat (int (length (units_text window)) - max_overlap)) of
              None \<Rightarrow> ([], 0)
            | Some b \<Rightarrow>
                let overlap = trim_units_prefix window b;
                    overlap_len = int (sum_list (map (\<lambda>u. length (u_text u)) overlap))
                in if overlap_len \<le> 0 \<or> max_overlap < overlap_len \<or> rt_trim (units_text overlap) = [] then ([], 0)
                   else (overlap, overlap_len))"

section \<open>Merging units into chunks\<close>

fun header_row :: "rtext list \<Rightarrow> rtext" where
  "header_row [] = []"
| "header_row (l # ls) =
     (let line = rt_trim l in
      if line = [] \<or> rt_contains line dashes then header_row ls
      else if \<not> only_pipes line then line else header_row ls)"

definition header_column_row :: "rtext \<Rightarrow> rtext" where
  "header_column_row header = header_row (rt_lines nl header)"

definition header_already_present :: "rtext \<Rightarrow> rtext \<Rightarrow> rtext \<Rightarrow> bool" where
  "header_already_present headers overlap_text unit_text =
     (if rt_contains overlap_text headers \<or> rt_contains unit_text headers then True
      else let row = header_column_row headers in
        if row = [] then False else rt_contains overlap_text row \<or> rt_contains unit_text row)"

record merge_state =
  ms_chunks :: "chunk list"
  ms_current :: "split_unit list"
  ms_len :: int
  ms_ht :: header_tracker

definition flush_chunk :: "merge_state \<Rightarrow> merge_state" where
  "flush_chunk ms = (if ms_current ms = [] then ms
     else ms\<lparr>ms_chunks := ms_chunks ms @ [build_chunk (ms_current ms) (length (ms_chunks ms))],
             ms_current := [], ms_len := 0\<rparr>)"

fun forced_chunks :: "split_unit \<Rightarrow> nat \<Rightarrow> (nat \<times> nat) list \<Rightarrow> chunk list" where
  "forced_chunks u seq [] = []"
| "forced_chunks u seq ((a, e) # ps) =
     \<lparr>ch_content = slice (u_text u) a e, ch_context = [], ch_seq = seq,
      ch_start = u_start u + int a, ch_end = u_start u + int e\<rparr> # forced_chunks u (Suc seq) ps"

fun shrink_overlap :: "int \<Rightarrow> split_unit list \<Rightarrow> int \<Rightarrow> split_unit list \<times> int" where
  "shrink_overlap room [] n = ([], n)"
| "shrink_overlap room (u # us) n =
     (if room < n then shrink_overlap room us (n - int (length (u_text u))) else (u # us, n))"

text \<open>Flushing with overlap, and the header in front of the next chunk.\<close>

definition start_next_chunk :: "int \<Rightarrow> int \<Rightarrow> rtext \<Rightarrow> split_unit \<Rightarrow> merge_state \<Rightarrow> merge_state" where
  "start_next_chunk chunk_budget chunk_overlap headers u ms =
     (let u_len = int (length (u_text u)); h_len = int (length headers);
          ms1 = ms\<lparr>ms_chunks := ms_chunks ms @ [build_chunk (ms_current ms) (length (ms_chunks ms))]\<rparr>;
          (cur, n) = compute_overlap (ms_current ms) chunk_overlap chunk_budget u_len
      in if headers \<noteq> [] \<and> h_len + u_len \<le> chunk_budget
         then let (cur', n') = shrink_overlap (chunk_budget - u_len - h_len) cur n in
           if \<not> header_already_present headers (units_text cur') (u_text u)
              \<and> \<not> header_column_mismatch headers (u_text u)
           then (let at = (if cur' \<noteq> [] then u_start (hd cur') else u_start u)
                 in ms1\<lparr>ms_current := \<lparr>u_text = headers, u_start = at, u_end = at\<rparr> # cur', ms_len := n' + h_len\<rparr>)
           else ms1\<lparr>ms_current := cur', ms_len := n'\<rparr>
         else ms1\<lparr>ms_current := cur, ms_len := n\<rparr>)"

definition merge_unit :: "int \<Rightarrow> int \<Rightarrow> merge_state \<Rightarrow> split_unit \<Rightarrow> merge_state" where
  "merge_unit chunk_budget chunk_overlap ms u =
     (let u_len = int (length (u_text u)) in
      if int max_unit_size < u_len
      then let ms1 = flush_chunk ms in
        ms1\<lparr>ms_ht := tracker_update (u_text u) (ms_ht ms1),
            ms_chunks := ms_chunks ms1 @ forced_chunks u (length (ms_chunks ms1)) (forced_pieces (u_text u) 0)\<rparr>
      else
        let ms1 = ms\<lparr>ms_ht := tracker_update (u_text u) (ms_ht ms)\<rparr>;
            ms2 = (if ht_ended_this_unit (ms_ht ms1) then flush_chunk ms1 else ms1);
            headers0 = get_headers (ms_ht ms2);
            headers = (if chunk_budget < int (length headers0) then [] else headers0);
            ms3 = (if chunk_budget < ms_len ms2 + u_len + int (length headers) \<and> ms_current ms2 \<noteq> []
                   then start_next_chunk chunk_budget chunk_overlap headers u ms2 else ms2);
            ms4 = (if int max_unit_size < ms_len ms3 + u_len then flush_chunk ms3 else ms3)
        in ms4\<lparr>ms_current := ms_current ms4 @ [u], ms_len := ms_len ms4 + u_len\<rparr>)"

definition merge_units :: "split_unit list \<Rightarrow> int \<Rightarrow> int \<Rightarrow> chunk list" where
  "merge_units us chunk_budget chunk_overlap =
     (if us = [] then []
      else ms_chunks (flush_chunk (foldl (merge_unit chunk_budget chunk_overlap)
        \<lparr>ms_chunks = [], ms_current = [], ms_len = 0, ms_ht = new_header_tracker\<rparr> us)))"

definition split_text :: "rtext \<Rightarrow> splitter_config \<Rightarrow> chunk list" where
  "split_text t cfg =
     (if t = [] then []
      else let chunk_budget = (if sc_size cfg \<le> 0 then 512 else sc_size cfg);
               chunk_overlap = (if sc_overlap cfg < 0 then 0 else sc_overlap cfg)
           in merge_units (build_units_with_protection t (protected_spans t) (sc_separators cfg) chunk_budget)
                chunk_budget chunk_overlap)"

section \<open>Parents and children\<close>

record child_chunk =
  cc_chunk :: chunk
  cc_parent :: int

record parent_child =
  pc_parents :: "chunk list"
  pc_children :: "child_chunk list"

definition map_child :: "chunk \<Rightarrow> chunk \<Rightarrow> chunk" where
  "map_child parent child =
     (let offset = ch_end parent - int (length (ch_content parent))
      in child\<lparr>ch_start := max (ch_start parent) (offset + ch_start child), ch_end := ch_end child + offset\<rparr>)"

definition map_children_to_source :: "chunk \<Rightarrow> chunk list \<Rightarrow> chunk list" where
  "map_children_to_source parent children =
     filter (\<lambda>c. ch_start c < ch_end c) (map (map_child parent) children)"

text \<open>
  One parent: its children, whether it stays as a parent, and their numbering. The headers of
  the children are left to the function \<open>ctx\<close>, which is the identity in SplitTextParentChild.
\<close>

definition number_children :: "(chunk \<Rightarrow> chunk) \<Rightarrow> int \<Rightarrow> nat \<Rightarrow> chunk list \<Rightarrow> child_chunk list" where
  "number_children ctx parent_index seq subs =
     map (\<lambda>(n, sub). \<lparr>cc_chunk = ctx (sub\<lparr>ch_seq := n\<rparr>), cc_parent = parent_index\<rparr>)
       (List.enumerate seq subs)"

definition add_parent ::
    "(chunk \<Rightarrow> chunk list) \<Rightarrow> (chunk \<Rightarrow> chunk \<Rightarrow> chunk) \<Rightarrow> parent_child \<Rightarrow> chunk \<Rightarrow> parent_child" where
  "add_parent splitter ctx res parent =
     (let subs = map_children_to_source parent (splitter parent);
          keep = 1 < length subs \<or> (length subs = 1 \<and> ch_content (hd subs) \<noteq> ch_content parent)
      in \<lparr>pc_parents = (if keep then pc_parents res @ [parent] else pc_parents res),
          pc_children = pc_children res @ number_children (ctx parent)
            (if keep then int (length (pc_parents res)) else -1) (length (pc_children res)) subs\<rparr>)"

definition split_text_parent_child :: "rtext \<Rightarrow> splitter_config \<Rightarrow> splitter_config \<Rightarrow> parent_child" where
  "split_text_parent_child t parent_cfg child_cfg =
     foldl (add_parent (\<lambda>p. split_text (ch_content p) child_cfg) (\<lambda>_ c. c))
       \<lparr>pc_parents = [], pc_children = []\<rparr> (split_text t parent_cfg)"

section \<open>The overlap is a tail of the source\<close>

lemma tiled_snoc:
  "tiled t a (us @ [u]) b \<longleftrightarrow> (\<exists>c. tiled t a us c \<and> tiled t c [u] b)"
  by (simp only: tiled_append)

lemma tiled_one:
  assumes "tiled t c [u] b"
  shows "u_text u = slice t c b" "u_start u = int c" "u_end u = int b" "c < b" "b \<le> length t"
    "length (u_text u) = b - c" "u_text u \<noteq> []"
proof -
  have *: "u_text u \<noteq> []" "u_start u = int c" "u_end u = int (c + length (u_text u))"
    "c + length (u_text u) \<le> length t" "u_text u = slice t c (c + length (u_text u))" "c + length (u_text u) = b"
    using assms unfolding tiled.simps by - (elim conjE, assumption)+
  show "u_text u = slice t c b" using *(5) unfolding *(6) .
  show "u_start u = int c" by (rule *(2))
  show "u_end u = int b" using *(3) unfolding *(6) .
  show "b \<le> length t" using *(4) unfolding *(6) .
  show "u_text u \<noteq> []" by (rule *(1))
  then have "0 < length (u_text u)" by simp
  then show "c < b" "length (u_text u) = b - c" using *(6) by linarith+
qed

lemma tiled_oneI:
  assumes "c < b" "b \<le> length t" "u_text u = slice t c b" "u_start u = int c" "u_end u = int b"
  shows "tiled t c [u] b"
proof -
  have len: "length (u_text u) = b - c" using assms(2,3) by simp
  then have cb: "c + length (u_text u) = b" using assms(1) by simp
  have "u_text u \<noteq> []" using len assms(1) by auto
  then show ?thesis unfolding tiled.simps cb using assms by blast
qed

lemma tail_window_tiled:
  assumes "rest = [] \<or> (\<exists>h. rest = [h] \<and> u_start h = u_end h)"
  shows "tiled t a us b \<Longrightarrow> a \<le> length t \<Longrightarrow>
    \<exists>c. tiled t c (tail_window n (rev us @ rest)) b \<and> a \<le> c \<and> c \<le> b \<and> b - c \<le> n"
proof (induction us arbitrary: b n rule: rev_induct)
  case Nil
  have "tail_window n rest = []" using assms by (auto simp: Let_def)
  then show ?case using Nil by auto
next
  case (snoc u us)
  obtain d where d: "tiled t a us d" "tiled t d [u] b" using snoc.prems(1) by (auto simp only: tiled_snoc)
  note u = tiled_one [OF d(2)]
  have ad: "a \<le> d" using tiled_le [OF d(1) snoc.prems(2)] by simp
  consider "n = 0" | "0 < n" "b - d \<le> n" | "0 < n" "n < b - d" by linarith
  then show ?case
  proof cases
    case 1
    then have "tail_window n (rev (us @ [u]) @ rest) = []" by simp
    then show ?thesis using u ad by (intro exI [of _ b]) (simp add: 1)
  next
    case 2
    obtain c where c: "tiled t c (tail_window (n - (b - d)) (rev us @ rest)) d" "a \<le> c" "c \<le> d" "d - c \<le> n - (b - d)"
      using snoc.IH [OF d(1) snoc.prems(2)] by blast
    have "tail_window n (rev (us @ [u]) @ rest) = tail_window (n - (b - d)) (rev us @ rest) @ [u]"
      using 2 u by (simp add: Let_def)
    then have "tiled t c (tail_window n (rev (us @ [u]) @ rest)) b" using c(1) d(2) by (auto simp only: tiled_snoc)
    then show ?thesis using c u 2 by (intro exI [of _ c]) linarith
  next
    case 3
    let ?k = "b - d - n"
    have w: "tail_window n (rev (us @ [u]) @ rest) =
        [\<lparr>u_text = drop ?k (u_text u), u_start = u_start u + int ?k, u_end = u_end u\<rparr>]"
      using 3 u by (simp add: Let_def)
    have "tiled t (d + ?k) [\<lparr>u_text = drop ?k (u_text u), u_start = u_start u + int ?k, u_end = u_end u\<rparr>] b"
      by (rule tiled_oneI) (use u 3 in \<open>auto simp: drop_slice\<close>)
    then show ?thesis unfolding w using 3 ad by (intro exI [of _ "d + ?k"]) auto
  qed
qed

lemma trim_units_tiled:
  "tiled t c us b \<Longrightarrow> c \<le> length t \<Longrightarrow> c + k \<le> b \<Longrightarrow> tiled t (c + k) (trim_units k us) b"
proof (induction us arbitrary: c k)
  case (Cons u us)
  let ?n = "length (u_text u)"
  have u: "u_text u \<noteq> []" "u_start u = int c" "u_end u = int (c + ?n)" "c + ?n \<le> length t"
    "u_text u = slice t c (c + ?n)" "tiled t (c + ?n) us b" using Cons.prems(1) by simp_all
  have b: "c + ?n \<le> b" using tiled_le [OF u(6,4)] by simp
  show ?case
  proof (cases "?n \<le> k")
    case True
    then show ?thesis using Cons.IH [OF u(6,4), of "k - ?n"] Cons.prems(3) by (simp add: Let_def)
  next
    case False
    have rest: "tiled t (c + ?n) (trim_units 0 us) b" using Cons.IH [OF u(6,4), of 0] b by simp
    show ?thesis
    proof (cases "k = 0")
      case True
      then show ?thesis using rest u False by (simp add: Let_def)
    next
      case k: False
      let ?v = "u\<lparr>u_text := drop k (u_text u), u_start := u_start u + int k\<rparr>"
      have "tiled t (c + k) [?v] (c + ?n)"
      proof (rule tiled_oneI)
        have "drop k (u_text u) = drop k (slice t c (c + ?n))" by (rule arg_cong [OF u(5)])
        then show "u_text ?v = slice t (c + k) (c + ?n)" by (simp add: drop_slice)
      qed (use u(2-4) False in auto)
      then have "tiled t (c + k) ([?v] @ trim_units 0 us) b" using rest by (auto simp only: tiled_append)
      moreover have "trim_units k (u # us) = [?v] @ trim_units 0 us" using False k by (simp add: Let_def)
      ultimately show ?thesis by (simp only:)
    qed
  qed
qed simp

lemma consider_boundary_end:
  "(case best of None \<Rightarrow> True | Some b \<Rightarrow> bd_end b \<le> length t \<and> m \<le> bd_end b) \<Longrightarrow>
   (case consider_boundary t ps m best c of None \<Rightarrow> True | Some b \<Rightarrow> bd_end b \<le> length t \<and> m \<le> bd_end b)"
  by (auto simp: consider_boundary_def split: option.splits)

lemma find_boundary_range: "find_boundary_from t m = Some e \<Longrightarrow> m \<le> e \<and> e \<le> length t"
proof -
  assume e: "find_boundary_from t m = Some e"
  let ?best = "foldl (consider_boundary t (protected_spans t) m) None (boundary_candidates t)"
  have "case ?best of None \<Rightarrow> True | Some b \<Rightarrow> bd_end b \<le> length t \<and> m \<le> bd_end b"
    by (rule foldl_inv) (auto intro: consider_boundary_end)
  then show ?thesis using e by (auto simp: find_boundary_from_def split: if_splits)
qed

text \<open>What a chunk may carry in front of its source: one generated header without width.\<close>

definition header_at :: "split_unit list \<Rightarrow> nat \<Rightarrow> bool" where
  "header_at hs a \<longleftrightarrow> hs = [] \<or> (\<exists>h. hs = [h] \<and> u_start h = int a \<and> u_end h = int a)"

lemma units_len: "sum_list (map (\<lambda>u. length (u_text u)) us) = length (units_text us)"
  by (simp add: units_text_def length_concat comp_def)

lemma compute_overlap_tiled:
  assumes t: "tiled t a us b" "a \<le> length t" and h: "header_at hs a"
    and res: "compute_overlap (hs @ us) ov budget next_len = (cur, n)"
  shows "\<exists>c. tiled t c cur b \<and> a \<le> c \<and> c \<le> b \<and> n = int (b - c) \<and> n \<le> max 0 (min ov (budget - next_len))"
proof (cases "cur = [] \<and> n = 0")
  case True
  then show ?thesis using tiled_le [OF t] by (intro exI [of _ b]) simp
next
  case False
  define mx where "mx = (if budget - next_len < ov then budget - next_len else ov)"
  define w where "w = semantic_overlap_window (hs @ us) (mx + semantic_overlap_lookbehind)"
  have pos: "0 < ov" "0 < mx" "w \<noteq> []" using res False
    by (auto simp: compute_overlap_def Let_def w_def mx_def split: if_splits)
  obtain e where e: "find_boundary_from (units_text w) (nat (int (length (units_text w)) - mx)) = Some e"
    using res False pos by (auto simp: compute_overlap_def Let_def w_def mx_def split: option.splits)
  have cur: "cur = trim_units_prefix w e" "n = int (length (units_text cur))" "n \<le> mx"
    using res False pos e unfolding compute_overlap_def Let_def mx_def [symmetric] w_def [symmetric]
    by (auto simp: units_len split: if_splits)
  have "w = tail_window (nat (mx + semantic_overlap_lookbehind)) (rev us @ rev hs)"
    using pos by (auto simp: w_def semantic_overlap_window_def semantic_overlap_lookbehind_def)
  moreover have "rev hs = [] \<or> (\<exists>h. rev hs = [h] \<and> u_start h = u_end h)"
    using h by (auto simp: header_at_def)
  ultimately obtain c where c: "tiled t c w b" "a \<le> c" "c \<le> b"
    using tail_window_tiled [OF _ t, of "rev hs"] by metis
  have cl: "c \<le> length t" using c tiled_le [OF t] by simp
  have len: "length (units_text w) = b - c" using tiled_text [OF c(1) cl] tiled_le [OF c(1) cl] by simp
  have "e \<le> b - c" using find_boundary_range [OF e] len by simp
  then have ce: "c + e \<le> b" using c(3) by linarith
  have cur_t: "tiled t (c + e) cur b"
    using trim_units_tiled [OF c(1) cl ce] c(1) by (simp add: cur(1) trim_units_prefix_def)
  have "length (units_text cur) = b - (c + e)"
    using tiled_text [OF cur_t] tiled_le [OF c(1) cl] ce by simp
  then show ?thesis using cur_t ce c(2) cur pos by (intro exI [of _ "c + e"]) (auto simp: mx_def split: if_splits)
qed

lemma shrink_overlap_tiled:
  "tiled t c cur b \<Longrightarrow> c \<le> length t \<Longrightarrow> n = int (b - c) \<Longrightarrow> shrink_overlap room cur n = (cur', n') \<Longrightarrow>
   \<exists>c'. tiled t c' cur' b \<and> c \<le> c' \<and> c' \<le> b \<and> n' = int (b - c') \<and> n' \<le> n \<and> (n' \<le> room \<or> cur' = [])"
proof (induction cur arbitrary: c n)
  case Nil
  then show ?case by auto
next
  case (Cons u us)
  show ?case
  proof (cases "room < n")
    case True
    let ?m = "c + length (u_text u)"
    have us: "tiled t ?m us b" "?m \<le> length t" using Cons.prems(1) by simp_all
    have m: "?m \<le> b" using tiled_le [OF us] by simp
    have arg: "int (b - ?m) = n - int (length (u_text u))" using Cons.prems(3) m by simp
    have "\<exists>c'. tiled t c' cur' b \<and> ?m \<le> c' \<and> c' \<le> b \<and> n' = int (b - c') \<and> n' \<le> int (b - ?m) \<and> (n' \<le> room \<or> cur' = [])"
      by (rule Cons.IH [OF us refl]) (use Cons.prems(4) True in \<open>simp add: arg del: of_nat_diff\<close>)
    then show ?thesis using Cons.prems(3) m by auto
  next
    case False
    then have "cur' = u # us" "n' = n" using Cons.prems(4) by auto
    then show ?thesis using Cons.prems False tiled_le [OF Cons.prems(1,2)] by (intro exI [of _ c]) auto
  qed
qed

section \<open>What the chunks of a text are\<close>

text \<open>
  \<open>chunk_ok t ov budget most cs p c b\<close>: the chunk \<open>c\<close>, behind the chunks \<open>cs\<close> that reach \<open>p\<close>,
  holds an optional header and the runes of \<open>t\<close> from its start to its end \<open>b\<close>; it starts at most
  \<open>ov\<close> runes before \<open>p\<close> and ends behind it. With a header it stays within the budget, but the
  chunk before would not have fitted in front of it.
\<close>

definition headed_ok :: "int \<Rightarrow> chunk list \<Rightarrow> int \<Rightarrow> bool" where
  "headed_ok budget cs n \<longleftrightarrow> n \<le> budget \<and> cs \<noteq> [] \<and> budget < int (length (ch_content (last cs))) + n"

definition chunk_ok :: "rtext \<Rightarrow> int \<Rightarrow> int \<Rightarrow> int \<Rightarrow> chunk list \<Rightarrow> nat \<Rightarrow> chunk \<Rightarrow> nat \<Rightarrow> bool" where
  "chunk_ok t ov budget most cs p c b \<longleftrightarrow> ch_seq c = length cs \<and> p < b \<and> b \<le> length t \<and> ch_end c = int b
     \<and> int (length (ch_content c)) \<le> most
     \<and> (\<exists>a h. ch_start c = int a \<and> a \<le> p \<and> int (p - a) \<le> ov \<and> ch_content c = h @ slice t a b
          \<and> (h = [] \<or> headed_ok budget cs (int (length (ch_content c)))))"

inductive covers :: "rtext \<Rightarrow> int \<Rightarrow> int \<Rightarrow> int \<Rightarrow> chunk list \<Rightarrow> nat \<Rightarrow> bool" for t ov budget most where
  covers_Nil: "covers t ov budget most [] 0"
| covers_snoc: "covers t ov budget most cs p \<Longrightarrow> chunk_ok t ov budget most cs p c b \<Longrightarrow>
    covers t ov budget most (cs @ [c]) b"

definition open_chunk ::
    "rtext \<Rightarrow> int \<Rightarrow> int \<Rightarrow> int \<Rightarrow> merge_state \<Rightarrow> nat \<Rightarrow> nat \<Rightarrow> split_unit list \<Rightarrow> split_unit list \<Rightarrow> nat \<Rightarrow> bool" where
  "open_chunk t ov budget most ms p pos hs us a \<longleftrightarrow> ms_current ms = hs @ us \<and> us \<noteq> [] \<and> header_at hs a
     \<and> tiled t a us pos \<and> a \<le> p \<and> p < pos \<and> int (p - a) \<le> ov
     \<and> ms_len ms = int (length (units_text (hs @ us))) \<and> (hs = [] \<or> headed_ok budget (ms_chunks ms) (ms_len ms)) \<and> ms_len ms \<le> most"

definition merge_inv :: "rtext \<Rightarrow> int \<Rightarrow> int \<Rightarrow> int \<Rightarrow> merge_state \<Rightarrow> nat \<Rightarrow> nat \<Rightarrow> bool" where
  "merge_inv t ov budget most ms p pos \<longleftrightarrow> covers t ov budget most (ms_chunks ms) p \<and> pos \<le> length t
     \<and> (ms_current ms = [] \<and> p = pos \<and> ms_len ms = 0
        \<or> (\<exists>hs us a. open_chunk t ov budget most ms p pos hs us a))"

lemma merge_inv_ht [simp]: "merge_inv t ov budget most (ms\<lparr>ms_ht := h\<rparr>) p pos = merge_inv t ov budget most ms p pos"
  by (simp add: merge_inv_def open_chunk_def)

lemma merge_invE:
  assumes "merge_inv t ov budget most ms p pos"
  obtains "covers t ov budget most (ms_chunks ms) pos" "pos \<le> length t" "ms_current ms = []" "p = pos" "ms_len ms = 0"
  | hs us a where "covers t ov budget most (ms_chunks ms) p" "pos \<le> length t" "open_chunk t ov budget most ms p pos hs us a"
  using assms unfolding merge_inv_def by blast

lemma open_chunkD:
  assumes "open_chunk t ov budget most ms p pos hs us a"
  shows "ms_current ms = hs @ us" "us \<noteq> []" "header_at hs a" "tiled t a us pos" "a \<le> p" "p < pos" "int (p - a) \<le> ov"
    "ms_len ms = int (length (units_text (hs @ us)))" "hs = [] \<or> headed_ok budget (ms_chunks ms) (ms_len ms)" "ms_len ms \<le> most"
  using assms unfolding open_chunk_def by blast+

lemma open_chunk_current: "open_chunk t ov budget most ms p pos hs us a \<Longrightarrow> ms_current ms \<noteq> []"
  by (simp add: open_chunk_def)

lemma tiled_ends:
  assumes "tiled t a us b" "us \<noteq> []"
  shows "u_start (hd us) = int a" "u_end (last us) = int b"
proof -
  show "u_start (hd us) = int a" using assms by (cases us) auto
  obtain vs v where us: "us = vs @ [v]" using assms(2) by (metis rev_exhaust)
  then obtain c where "tiled t c [v] b" using assms(1) by (auto simp only: tiled_snoc)
  then show "u_end (last us) = int b" using tiled_one(3) us by simp
qed

lemma units_text_append [simp]: "units_text (us @ vs) = units_text us @ units_text vs"
  by (simp add: units_text_def)

lemma units_text_Nil [simp]: "units_text [] = []"
  by (simp add: units_text_def)

lemma units_text_Cons [simp]: "units_text (u # us) = u_text u @ units_text us"
  by (simp add: units_text_def)

lemma header_at_hd: "header_at hs a \<Longrightarrow> tiled t a us b \<Longrightarrow> us \<noteq> [] \<Longrightarrow> u_start (hd (hs @ us)) = int a"
  using tiled_ends [of t a us b] by (auto simp: header_at_def)

lemma built_chunk_covers:
  assumes cs: "covers t ov budget most cs p" and cur: "header_at hs a" "tiled t a us pos" "us \<noteq> []"
    and le: "a \<le> p" "p < pos" "int (p - a) \<le> ov" "pos \<le> length t"
    and len: "hs = [] \<or> headed_ok budget cs (int (length (units_text (hs @ us))))" "int (length (units_text (hs @ us))) \<le> most"
  shows "covers t ov budget most (cs @ [build_chunk (hs @ us) (length cs)]) pos"
proof (rule covers_snoc [OF cs])
  have txt_eq: "units_text us = slice t a pos" using tiled_text [OF cur(2)] le by simp
  have "u_end (last (hs @ us)) = int pos" using tiled_ends [OF cur(2,3)] cur(3) by simp
  then show "chunk_ok t ov budget most cs p (build_chunk (hs @ us) (length cs)) pos"
    using header_at_hd [OF cur] le len txt_eq unfolding chunk_ok_def build_chunk_def
    by (auto simp: header_at_def)
qed

lemma open_chunk_covers:
  assumes "open_chunk t ov budget most ms p pos hs us a" "covers t ov budget most (ms_chunks ms) p" "pos \<le> length t"
  shows "covers t ov budget most (ms_chunks ms @ [build_chunk (ms_current ms) (length (ms_chunks ms))]) pos"
  unfolding open_chunkD(1) [OF assms(1)]
  by (rule built_chunk_covers [OF assms(2) open_chunkD(3,4,2,5,6,7) [OF assms(1)] assms(3)])
    (use open_chunkD(8-10) [OF assms(1)] in simp_all)

lemma flush_inv:
  assumes "merge_inv t ov budget most ms p pos"
  shows "merge_inv t ov budget most (flush_chunk ms) pos pos \<and> ms_current (flush_chunk ms) = []"
  using assms
proof (cases rule: merge_invE)
  case 1
  then show ?thesis by (simp add: merge_inv_def flush_chunk_def)
next
  case (2 hs us a)
  then show ?thesis using open_chunk_covers [OF 2(3,1,2)] open_chunk_current [OF 2(3)]
    by (simp add: merge_inv_def flush_chunk_def)
qed

definition add_unit :: "split_unit \<Rightarrow> merge_state \<Rightarrow> merge_state" where
  "add_unit u ms = ms\<lparr>ms_current := ms_current ms @ [u], ms_len := ms_len ms + int (length (u_text u))\<rparr>"

text \<open>A unit joins a state whose current chunk is a header and a tail of the source.\<close>

lemma add_unit_inv:
  assumes cs: "covers t ov budget most (ms_chunks ms) p" and cur: "ms_current ms = hs @ us" "header_at hs a" "tiled t a us pos"
    and le: "a \<le> p" "p \<le> pos" "int (p - a) \<le> ov" and u: "tiled t pos [u] pos'"
    and len: "ms_len ms = int (length (units_text (hs @ us)))"
      "hs = [] \<or> headed_ok budget (ms_chunks ms) (ms_len ms + int (length (u_text u)))" "ms_len ms + int (length (u_text u)) \<le> most"
  shows "merge_inv t ov budget most (add_unit u ms) p pos'"
proof -
  note one = tiled_one [OF u]
  have "tiled t a (us @ [u]) pos'" using cur(3) u by (auto simp only: tiled_snoc)
  then have "open_chunk t ov budget most (add_unit u ms) p pos' hs (us @ [u]) a"
    using cur(1,2) le len one(4) unfolding open_chunk_def add_unit_def by auto
  then show ?thesis using cs one(5) unfolding merge_inv_def add_unit_def by auto
qed

lemma start_next_inv:
  assumes inv: "merge_inv t ov budget most ms p pos" and ne: "ms_current ms \<noteq> []" and u: "tiled t pos [u] pos'"
    and ov: "0 \<le> ov" and b: "budget \<le> most" "int (length (u_text u)) \<le> most"
    and full: "budget < ms_len ms + int (length (u_text u)) + int (length headers)"
  shows "merge_inv t ov budget most (add_unit u (start_next_chunk budget ov headers u ms)) pos pos'
    \<and> ms_len (start_next_chunk budget ov headers u ms) + int (length (u_text u)) \<le> most"
proof -
  define ul where "ul = int (length (u_text u))"
  obtain hs us a where oc: "open_chunk t ov budget most ms p pos hs us a"
    and cs: "covers t ov budget most (ms_chunks ms) p" "pos \<le> length t"
    using inv ne by (auto elim: merge_invE)
  note c = open_chunkD [OF oc]
  define cs' where "cs' = ms_chunks ms @ [build_chunk (ms_current ms) (length (ms_chunks ms))]"
  have cov: "covers t ov budget most cs' pos" unfolding cs'_def by (rule open_chunk_covers [OF oc cs])
  have last: "cs' \<noteq> []" "int (length (ch_content (last cs'))) = ms_len ms"
    using c(1,8) by (simp_all add: cs'_def build_chunk_def)
  have al: "a \<le> length t" using c(5,6) cs(2) by simp
  obtain cur n where co: "compute_overlap (ms_current ms) ov budget ul = (cur, n)" by force
  obtain k where k: "tiled t k cur pos" "a \<le> k" "k \<le> pos" "n = int (pos - k)" "n \<le> max 0 (min ov (budget - ul))"
    using compute_overlap_tiled [OF c(4) al c(3) co [unfolded c(1)]] by blast
  have fin: "merge_inv t ov budget most (add_unit u ms') pos pos' \<and> ms_len ms' + ul \<le> most"
    if ms': "ms_chunks ms' = cs'" "ms_current ms' = hs' @ cur'" "header_at hs' k'" "tiled t k' cur' pos" "k' \<le> pos"
      "int (pos - k') \<le> n" "ms_len ms' = int (length (units_text hs')) + int (pos - k')"
      "hs' = [] \<and> ms_len ms' = int (pos - k') \<or> headed_ok budget cs' (ms_len ms' + ul)"
    for ms' hs' cur' k'
  proof -
    have kl: "k' \<le> length t" using ms'(5) cs(2) by simp
    have len: "length (units_text cur') = pos - k'" using tiled_text [OF ms'(4) kl] cs(2) by simp
    have bound: "ms_len ms' + ul \<le> most"
      using ms'(6,8) k(5) b unfolding ul_def headed_ok_def by (auto simp: max_def min_def split: if_splits)
    have "int (pos - k') \<le> ov" using ms'(6) k(5) ov by (auto simp: max_def min_def split: if_splits)
    then have "merge_inv t ov budget most (add_unit u ms') pos pos'"
      using cov ms' u len bound by (intro add_unit_inv [of t ov budget most ms' pos hs' cur' k' pos u pos'])
        (auto simp: ul_def)
    then show ?thesis using bound by simp
  qed
  let ?ms1 = "ms\<lparr>ms_chunks := cs'\<rparr>"
  show ?thesis
  proof (cases "headers \<noteq> [] \<and> int (length headers) + ul \<le> budget")
    case False
    then have "start_next_chunk budget ov headers u ms = ?ms1\<lparr>ms_current := cur, ms_len := n\<rparr>"
      using co by (auto simp: start_next_chunk_def Let_def ul_def cs'_def)
    then show ?thesis using fin [of "?ms1\<lparr>ms_current := cur, ms_len := n\<rparr>" "[]" cur k] k by (simp add: header_at_def ul_def)
  next
    case True
    obtain cur' n' where sh: "shrink_overlap (budget - ul - int (length headers)) cur n = (cur', n')" by force
    have kl: "k \<le> length t" using k(3) cs(2) by simp
    obtain k' where k': "tiled t k' cur' pos" "k \<le> k'" "k' \<le> pos" "n' = int (pos - k')" "n' \<le> n"
        "n' \<le> budget - ul - int (length headers) \<or> cur' = []"
      using shrink_overlap_tiled [OF k(1) kl k(4) sh] by blast
    show ?thesis
    proof (cases "\<not> header_already_present headers (units_text cur') (u_text u) \<and> \<not> header_column_mismatch headers (u_text u)")
      case False
      then have "start_next_chunk budget ov headers u ms = ?ms1\<lparr>ms_current := cur', ms_len := n'\<rparr>"
        using co sh True by (auto simp: start_next_chunk_def Let_def ul_def cs'_def)
      then show ?thesis using fin [of "?ms1\<lparr>ms_current := cur', ms_len := n'\<rparr>" "[]" cur' k'] k' by (simp add: header_at_def ul_def)
    next
      case hdr: True
      define at where "at = (if cur' \<noteq> [] then u_start (hd cur') else u_start u)"
      define h where "h = \<lparr>u_text = headers, u_start = at, u_end = at\<rparr>"
      have nx: "start_next_chunk budget ov headers u ms = ?ms1\<lparr>ms_current := h # cur', ms_len := n' + int (length headers)\<rparr>"
        using co sh True hdr by (auto simp: start_next_chunk_def Let_def ul_def cs'_def h_def at_def)
      have at: "at = int k'"
      proof (cases "cur' = []")
        case True
        then show ?thesis using k'(1) tiled_one(2) [OF u] by (simp add: at_def)
      next
        case False
        then show ?thesis using tiled_ends [OF k'(1)] by (simp add: at_def)
      qed
      have "n' = 0" if "cur' = []" using that k'(1,4) by simp
      then have "n' + int (length headers) + ul \<le> budget" using k'(6) True by auto
      then have room: "headed_ok budget cs' (n' + int (length headers) + ul)"
        using full last k'(4) unfolding headed_ok_def ul_def by auto
      show ?thesis unfolding nx ul_def [symmetric]
        by (rule fin [of _ "[h]" cur' k']) (use k' room at in \<open>auto simp: header_at_def h_def\<close>)
    qed
  qed
qed

lemma forced_chunks_cover:
  "covers t ov budget most cs (s + a) \<Longrightarrow> runs_to a ps n \<Longrightarrow> s + n \<le> length t \<Longrightarrow> u_text u = slice t s (s + n) \<Longrightarrow>
   u_start u = int s \<Longrightarrow> 0 \<le> ov \<Longrightarrow> \<forall>(b, e) \<in> set ps. int (e - b) \<le> most \<Longrightarrow>
   covers t ov budget most (cs @ forced_chunks u (length cs) ps) (s + n)"
proof (induction ps arbitrary: a cs)
  case Nil
  then show ?case by simp
next
  case (Cons q ps)
  obtain b e where q: "q = (b, e)" by force
  have r: "a = b" "b < e" "runs_to e ps n" using Cons.prems(2) q by simp_all
  have en: "e \<le> n" using r(3) by (induction ps arbitrary: e) (auto split: prod.splits, fastforce)
  let ?c = "\<lparr>ch_content = slice (u_text u) b e, ch_context = [], ch_seq = length cs,
      ch_start = u_start u + int b, ch_end = u_start u + int e\<rparr>"
  have sl: "slice (u_text u) b e = slice t (s + b) (s + e)"
    unfolding Cons.prems(4) using en by (intro slice_slice) simp
  have "chunk_ok t ov budget most cs (s + a) ?c (s + e)"
    unfolding chunk_ok_def using r Cons.prems(3,5,6,7) en sl q
    by (auto intro!: exI [of _ "s + b"])
  then have "covers t ov budget most (cs @ [?c]) (s + e)" by (rule covers_snoc [OF Cons.prems(1)])
  then have "covers t ov budget most ((cs @ [?c]) @ forced_chunks u (length (cs @ [?c])) ps) (s + n)"
    by (rule Cons.IH) (use r Cons.prems(3-7) in auto)
  then show ?case by (simp add: q)
qed

lemma merge_unit_inv:
  assumes inv: "merge_inv t ov budget most ms p pos" and u: "tiled t pos [u] pos'"
    and ov: "0 \<le> ov" and b: "budget \<le> most" "most \<le> int max_unit_size" "int (min (length (u_text u)) max_unit_size) \<le> most"
  shows "\<exists>p'. merge_inv t ov budget most (merge_unit budget ov ms u) p' pos'"
proof (cases "int max_unit_size < int (length (u_text u))")
  case True
  note one = tiled_one [OF u]
  let ?f = "flush_chunk ms"
  have f: "merge_inv t ov budget most ?f pos pos" "ms_current ?f = []" using flush_inv [OF inv] by simp_all
  have cs: "covers t ov budget most (ms_chunks ?f) (pos + 0)" "ms_len ?f = 0"
    using f by (auto simp: merge_inv_def open_chunk_def)
  have most: "int max_unit_size \<le> most" using b(3) True by (simp add: min_def)
  have ps: "runs_to 0 (forced_pieces (u_text u) 0) (length (u_text u))"
      "\<forall>(b, e) \<in> set (forced_pieces (u_text u) 0). e - b \<le> max_unit_size"
    using forced_split_ends_lemma [of 0 "u_text u"] by auto
  have "covers t ov budget most (ms_chunks ?f @ forced_chunks u (length (ms_chunks ?f)) (forced_pieces (u_text u) 0))
      (pos + length (u_text u))"
    by (rule forced_chunks_cover [OF cs(1) ps(1)]) (use one ov ps(2) most in fastforce)+
  moreover have "pos + length (u_text u) = pos'" using one(4,6) by simp
  ultimately show ?thesis using True f(2) cs(2) one(5)
    by (auto simp: merge_unit_def Let_def merge_inv_def intro!: exI [of _ pos'])
next
  case False
  define ul where "ul = int (length (u_text u))"
  define ms1 where "ms1 = ms\<lparr>ms_ht := tracker_update (u_text u) (ms_ht ms)\<rparr>"
  define ms2 where "ms2 = (if ht_ended_this_unit (ms_ht ms1) then flush_chunk ms1 else ms1)"
  define headers where "headers = (if budget < int (length (get_headers (ms_ht ms2))) then [] else get_headers (ms_ht ms2))"
  define ms3 where "ms3 = (if budget < ms_len ms2 + ul + int (length headers) \<and> ms_current ms2 \<noteq> []
      then start_next_chunk budget ov headers u ms2 else ms2)"
  have ul: "ul \<le> most" using b(3) False by (simp add: min_def ul_def split: if_splits)
  have "merge_inv t ov budget most ms1 p pos" using inv by (simp add: ms1_def)
  then obtain p2 where p2: "merge_inv t ov budget most ms2 p2 pos"
    using flush_inv [of t ov budget most ms1 p pos] unfolding ms2_def by (metis (full_types))
  have step: "merge_unit budget ov ms u = add_unit u (if int max_unit_size < ms_len ms3 + ul then flush_chunk ms3 else ms3)"
    using False by (simp only: merge_unit_def Let_def ms1_def ms2_def headers_def ms3_def ul_def add_unit_def if_False)
  have "\<exists>p'. merge_inv t ov budget most (add_unit u ms3) p' pos' \<and> ms_len ms3 + ul \<le> most"
  proof (cases "budget < ms_len ms2 + ul + int (length headers) \<and> ms_current ms2 \<noteq> []")
    case True
    then show ?thesis using start_next_inv [OF p2 _ u ov b(1), of headers] ul by (auto simp: ms3_def ul_def)
  next
    case False
    then have ms3: "ms3 = ms2" by (auto simp: ms3_def)
    show ?thesis
    proof (cases rule: merge_invE [OF p2])
      case 1
      have "merge_inv t ov budget most (add_unit u ms2) pos pos'"
        by (rule add_unit_inv [OF 1(1) _ _ _ _ _ _ u, of "[]" "[]" pos])
          (use 1 ul ov in \<open>auto simp: header_at_def ul_def\<close>)
      then show ?thesis using 1(5) ul ms3 by auto
    next
      case (2 hs us a)
      note c = open_chunkD [OF 2(3)]
      have len: "ms_len ms2 + ul \<le> budget" using False open_chunk_current [OF 2(3)] by auto
      have "merge_inv t ov budget most (add_unit u ms2) p2 pos'"
        by (rule add_unit_inv [OF 2(1) c(1,3,4,5) _ c(7) u c(8)]) (use len b(1) c(6,9) in \<open>auto simp: ul_def headed_ok_def\<close>)
      then show ?thesis using len b(1) ms3 by auto
    qed
  qed
  then show ?thesis using b(2) unfolding step by (auto split: if_splits)
qed

lemma merge_all_inv:
  "merge_inv t ov budget most ms p pos \<Longrightarrow> tiled t pos us b \<Longrightarrow> 0 \<le> ov \<Longrightarrow> budget \<le> most \<Longrightarrow> most \<le> int max_unit_size \<Longrightarrow>
   \<forall>u \<in> set us. int (min (length (u_text u)) max_unit_size) \<le> most \<Longrightarrow>
   \<exists>p'. merge_inv t ov budget most (foldl (merge_unit budget ov) ms us) p' b"
proof (induction us arbitrary: ms p pos)
  case (Cons u us)
  obtain c where c: "tiled t pos [u] c" "tiled t c us b"
    using Cons.prems(2) tiled_append [of t pos "[u]" us b] unfolding append_Cons append_Nil by blast
  obtain p' where "merge_inv t ov budget most (merge_unit budget ov ms u) p' c"
    using merge_unit_inv [OF Cons.prems(1) c(1)] Cons.prems(3-6) by auto
  then show ?case using Cons.IH [OF _ c(2)] Cons.prems(3-6) by simp
qed auto

text \<open>The chunks joined by their positions: what a chunk repeats is cut off at its source length.\<close>

definition rebuild :: "chunk list \<Rightarrow> rtext" where
  "rebuild cs = foldl (\<lambda>doc c. take (nat (ch_start c)) doc
     @ drop (length (ch_content c) - nat (ch_end c - ch_start c)) (ch_content c)) [] cs"

lemma covers_rebuild: "covers t ov budget most cs p \<Longrightarrow> rebuild cs = take p t \<and> p \<le> length t"
proof (induction rule: covers.induct)
  case (covers_snoc cs p c b)
  obtain a h where c: "ch_start c = int a" "ch_end c = int b" "a \<le> p" "p < b" "b \<le> length t" "ch_content c = h @ slice t a b"
    using covers_snoc.hyps(2) by (auto simp: chunk_ok_def)
  have "rebuild (cs @ [c]) = take a (take p t) @ slice t a b"
    using covers_snoc.IH c by (simp add: rebuild_def)
  also have "\<dots> = slice t 0 a @ slice t a b" using c(3) by (simp add: slice_def min_def)
  also have "\<dots> = slice t 0 b" using c(3,4) by (intro slice_append) simp_all
  finally show ?case using c(5) by (simp add: slice_def)
qed (simp add: rebuild_def)

definition longest :: "split_unit list \<Rightarrow> int" where
  "longest us = int (foldr max (map (\<lambda>u. min (length (u_text u)) max_unit_size) us) 0)"

lemma longest_bound: "u \<in> set us \<Longrightarrow> int (min (length (u_text u)) max_unit_size) \<le> longest us"
  unfolding longest_def by (induction us) (auto simp: max_def min_def)

lemma longest_max: "longest us \<le> int max_unit_size"
  unfolding longest_def by (induction us) auto

lemma chunks_cover_lemma:
  assumes "0 < sc_size cfg" "sc_size cfg \<le> int max_unit_size"
    and "units = build_units_with_protection t (protected_spans t) (sc_separators cfg) (sc_size cfg)"
  shows "covers t (max 0 (sc_overlap cfg)) (sc_size cfg) (max (sc_size cfg) (longest units)) (split_text t cfg) (length t)
    \<and> rebuild (split_text t cfg) = t"
proof -
  let ?ov = "max 0 (sc_overlap cfg)" and ?most = "max (sc_size cfg) (longest units)"
  have "covers t ?ov (sc_size cfg) ?most (split_text t cfg) (length t)"
  proof (cases "t = []")
    case True
    then show ?thesis by (simp add: split_text_def covers_Nil)
  next
    case False
    have units: "tiled t 0 units (length t)"
      unfolding assms(3) build_units_with_protection_def by (rule units_from_tiled [OF protected_spans_ok]) simp
    let ?s0 = "\<lparr>ms_chunks = [], ms_current = [], ms_len = 0, ms_ht = new_header_tracker\<rparr>"
    have "merge_inv t ?ov (sc_size cfg) ?most ?s0 0 0" by (simp add: merge_inv_def covers_Nil)
    moreover have "?most \<le> int max_unit_size" using assms(2) longest_max [of units] by simp
    moreover have "\<forall>u \<in> set units. int (min (length (u_text u)) max_unit_size) \<le> ?most"
      using longest_bound [of _ units] by (meson max.coboundedI2)
    ultimately obtain p' where "merge_inv t ?ov (sc_size cfg) ?most (foldl (merge_unit (sc_size cfg) ?ov) ?s0 units) p' (length t)"
      using merge_all_inv [OF _ units, of ?ov "sc_size cfg" ?most ?s0 0] by auto
    from flush_inv [OF this]
    have "covers t ?ov (sc_size cfg) ?most (ms_chunks (flush_chunk (foldl (merge_unit (sc_size cfg) ?ov) ?s0 units))) (length t)"
      by (simp add: merge_inv_def)
    moreover have "units \<noteq> []" using units False by auto
    moreover have "?ov = (if sc_overlap cfg < 0 then 0 else sc_overlap cfg)" by simp
    ultimately show ?thesis using False assms(1) by (simp add: split_text_def merge_units_def assms(3) Let_def)
  qed
  then show ?thesis using covers_rebuild by fastforce
qed

text \<open>
  C37. The chunks of a text, for a positive chunk size of at most 7500 runes: they are numbered
  in order and cover the text from its first to its last rune without a gap; each one holds the
  runes between its positions, behind a table header when one is repeated, and then it stays
  within the chunk size although it would not have fitted behind the chunk before; it reaches back at most the configured overlap behind the end of the
  chunk before, goes beyond that end, and is no longer than the chunk size or the longest unit;
  and joining the chunks by their positions gives the text back.
\<close>

theorem chunks_cover_text:
  assumes "0 < sc_size cfg" "sc_size cfg \<le> int max_unit_size"
    and "units = build_units_with_protection t (protected_spans t) (sc_separators cfg) (sc_size cfg)"
  shows "covers t (max 0 (sc_overlap cfg)) (sc_size cfg) (max (sc_size cfg) (longest units)) (split_text t cfg) (length t)
    \<and> rebuild (split_text t cfg) = t"
  by (rule chunks_cover_lemma [OF assms])

lemma chunks_cover_text_witness:
  "rebuild (split_text (lit ''one two. six'') (default_config\<lparr>sc_size := 6, sc_overlap := 2, sc_separators := [[32]]\<rparr>)) = lit ''one two. six''"
  using chunks_cover_text [of "default_config\<lparr>sc_size := 6, sc_overlap := 2, sc_separators := [[32]]\<rparr>", OF _ _ refl]
  by (simp add: max_unit_size_def)

section \<open>Children in their parents\<close>

text \<open>A chunk with a source: generated text in front of the runes between its positions.\<close>

definition sourced :: "rtext \<Rightarrow> chunk \<Rightarrow> bool" where
  "sourced t c \<longleftrightarrow> (\<exists>a b h. ch_start c = int a \<and> ch_end c = int b \<and> a < b \<and> b \<le> length t \<and> ch_content c = h @ slice t a b)"

text \<open>A chunk of a section is a chunk of the document, moved to where the section starts.\<close>

lemma sourced_shift:
  assumes "sourced (slice t s e) c" "s \<le> e" "e \<le> length t"
    and "ch_content d = ch_content c" "ch_start d = int s + ch_start c" "ch_end d = int s + ch_end c"
  shows "sourced t d"
proof -
  obtain a b h where a: "ch_start c = int a" "ch_end c = int b" "a < b" "b \<le> e - s" "ch_content c = h @ slice (slice t s e) a b"
    using assms(1,3) by (auto simp: sourced_def)
  have "slice (slice t s e) a b = slice t (s + a) (s + b)" by (rule slice_slice [OF a(4)])
  then show ?thesis using a assms(2-6) unfolding sourced_def
    by (intro exI [of _ "s + a"] exI [of _ "s + b"] exI [of _ h]) auto
qed

text \<open>Every rune of the kind \<open>q\<close> lies in some chunk.\<close>

definition runes_in :: "(nat \<Rightarrow> bool) \<Rightarrow> rtext \<Rightarrow> chunk list \<Rightarrow> bool" where
  "runes_in q t cs \<longleftrightarrow> (\<forall>k < length t. q (t ! k) \<longrightarrow> (\<exists>c \<in> set cs. ch_start c \<le> int k \<and> int k < ch_end c))"

abbreviation every_rune_in :: "rtext \<Rightarrow> chunk list \<Rightarrow> bool" where
  "every_rune_in \<equiv> runes_in (\<lambda>_. True)"

lemma covers_sourced: "covers t ov budget most cs p \<Longrightarrow> \<forall>c \<in> set cs. sourced t c"
proof (induction rule: covers.induct)
  case (covers_snoc cs p c b)
  then have "sourced t c" unfolding chunk_ok_def sourced_def by (metis order_le_less_trans)
  then show ?case using covers_snoc.IH by simp
qed simp

lemma covers_every_rune:
  "covers t ov budget most cs p \<Longrightarrow> k < p \<Longrightarrow> \<exists>c \<in> set cs. ch_start c \<le> int k \<and> int k < ch_end c"
proof (induction arbitrary: k rule: covers.induct)
  case (covers_snoc cs p c b)
  show ?case
  proof (cases "k < p")
    case False
    then have "ch_start c \<le> int k \<and> int k < ch_end c" using covers_snoc by (auto simp: chunk_ok_def)
    then show ?thesis by auto
  qed (use covers_snoc.IH in auto)
qed simp

lemma slice_append_right:
  "length h \<le> a \<Longrightarrow> slice (h @ s) a b = slice s (a - length h) (b - length h)"
  by (simp add: slice_def)

lemma slice_append_left:
  "a \<le> length h \<Longrightarrow> length h \<le> b \<Longrightarrow> slice (h @ s) a b = drop a h @ slice s 0 (b - length h)"
  by (simp add: slice_def)

lemma map_child_sourced:
  assumes p: "sourced t p" and c: "sourced (ch_content p) c" and ne: "ch_start (map_child p c) < ch_end (map_child p c)"
  shows "sourced t (map_child p c) \<and> ch_start p \<le> ch_start (map_child p c) \<and> ch_end (map_child p c) \<le> ch_end p"
proof -
  obtain a b h where p': "ch_start p = int a" "ch_end p = int b" "a < b" "b \<le> length t" "ch_content p = h @ slice t a b"
    using p by (auto simp: sourced_def)
  obtain a' b' h' where c': "ch_start c = int a'" "ch_end c = int b'" "a' < b'" "b' \<le> length (ch_content p)"
      "ch_content c = h' @ slice (ch_content p) a' b'"
    using c by (auto simp: sourced_def)
  have len: "length (ch_content p) = length h + (b - a)" using p' by simp
  have st: "ch_start (map_child p c) = max (int a) (int a + int a' - int (length h))"
      "ch_end (map_child p c) = int a + int b' - int (length h)" "ch_content (map_child p c) = ch_content c"
    using p'(1-3) len c'(1,2) by (simp_all add: map_child_def Let_def)
  have hb: "length h < b'" using ne st by linarith
  have b1: "a + (b' - length h) \<le> b" using c'(4) len hb p'(3) by linarith
  show ?thesis
  proof (cases "length h \<le> a'")
    case True
    have "slice (ch_content p) a' b' = slice (slice t a b) (a' - length h) (b' - length h)"
      unfolding p'(5) by (rule slice_append_right [OF True])
    also have "\<dots> = slice t (a + (a' - length h)) (a + (b' - length h))"
      using b1 by (intro slice_slice) linarith
    finally have "ch_content (map_child p c) = h' @ slice t (a + (a' - length h)) (a + (b' - length h))"
      using st c' by simp
    then have "sourced t (map_child p c)" unfolding sourced_def
      using st True hb b1 p'(4) c'(3)
      by (intro exI [of _ "a + (a' - length h)"] exI [of _ "a + (b' - length h)"] exI [of _ h']) auto
    then show ?thesis using st p' True hb b1 by simp
  next
    case False
    have "slice (ch_content p) a' b' = drop a' h @ slice (slice t a b) 0 (b' - length h)"
      unfolding p'(5) using False hb by (intro slice_append_left) simp_all
    also have "slice (slice t a b) 0 (b' - length h) = slice t (a + 0) (a + (b' - length h))"
      using b1 by (intro slice_slice) linarith
    finally have "ch_content (map_child p c) = (h' @ drop a' h) @ slice t a (a + (b' - length h))"
      using st c' by simp
    then have "sourced t (map_child p c)" unfolding sourced_def
      using st False hb b1 p'(4)
      by (intro exI [of _ a] exI [of _ "a + (b' - length h)"] exI [of _ "h' @ drop a' h"]) auto
    then show ?thesis using st p' False hb b1 by simp
  qed
qed

lemma map_child_every_rune:
  assumes p: "sourced t p" and e: "runes_in q (ch_content p) cs" and k: "ch_start p \<le> int k" "int k < ch_end p" "q (t ! k)"
  shows "\<exists>c \<in> set (map_children_to_source p cs). ch_start c \<le> int k \<and> int k < ch_end c"
proof -
  obtain a b h where p': "ch_start p = int a" "ch_end p = int b" "a < b" "b \<le> length t" "ch_content p = h @ slice t a b"
    using p by (auto simp: sourced_def)
  have len: "length (ch_content p) = length h + (b - a)" using p' by simp
  have kl: "k - a + length h < length (ch_content p)" using k p' len by simp
  have "ch_content p ! (k - a + length h) = t ! k"
    using k(1,2) p'(1-4) unfolding p'(5) add.commute [of "k - a"] nth_append_length_plus by (simp add: slice_def)
  then obtain c where c: "c \<in> set cs" "ch_start c \<le> int (k - a + length h)" "int (k - a + length h) < ch_end c"
    using e kl k(3) unfolding runes_in_def by metis
  then have "ch_start (map_child p c) \<le> int k \<and> int k < ch_end (map_child p c)"
    using p' len k by (simp add: map_child_def Let_def)
  moreover from this have "map_child p c \<in> set (map_children_to_source p cs)"
    using c(1) by (auto simp: map_children_to_source_def)
  ultimately show ?thesis by blast
qed

text \<open>What holds of child number \<open>i\<close> of a two-level split.\<close>

definition child_ok :: "rtext \<Rightarrow> parent_child \<Rightarrow> nat \<Rightarrow> bool" where
  "child_ok t res i \<longleftrightarrow> (let c = pc_children res ! i in ch_seq (cc_chunk c) = i \<and> sourced t (cc_chunk c)
     \<and> (cc_parent c = -1 \<or> (0 \<le> cc_parent c \<and> nat (cc_parent c) < length (pc_parents res)
          \<and> ch_start (pc_parents res ! nat (cc_parent c)) \<le> ch_start (cc_chunk c)
          \<and> ch_end (cc_chunk c) \<le> ch_end (pc_parents res ! nat (cc_parent c)))))"

definition good_split :: "(nat \<Rightarrow> bool) \<Rightarrow> rtext \<Rightarrow> chunk list \<Rightarrow> bool" where
  "good_split q t cs \<longleftrightarrow> (\<forall>c \<in> set cs. sourced t c) \<and> runes_in q t cs"

lemma child_ok_mono:
  "child_ok t res i \<Longrightarrow> i < length (pc_children res) \<Longrightarrow>
   child_ok t \<lparr>pc_parents = pc_parents res @ ps, pc_children = pc_children res @ cs\<rparr> i"
  by (auto simp: child_ok_def Let_def nth_append)

lemma sourced_seq [simp]: "sourced t (c\<lparr>ch_seq := n\<rparr>) = sourced t c"
  and sourced_context [simp]: "sourced t (c\<lparr>ch_context := x\<rparr>) = sourced t c"
  by (simp_all add: sourced_def)

lemma number_children_nth:
  "j < length subs \<Longrightarrow> number_children f i seq subs ! j = \<lparr>cc_chunk = f ((subs ! j)\<lparr>ch_seq := seq + j\<rparr>), cc_parent = i\<rparr>"
  by (simp add: number_children_def nth_enumerate_eq)

lemma length_number_children [simp]: "length (number_children f i seq subs) = length subs"
  by (simp add: number_children_def)

lemma add_parent_ok:
  assumes ok: "\<forall>i < length (pc_children res). child_ok t res i" and p: "sourced t p"
    and s: "good_split q (ch_content p) (splitter p)" and ctx: "\<And>c. \<exists>x. ctx p c = c\<lparr>ch_context := x\<rparr>"
  defines "res' \<equiv> add_parent splitter ctx res p"
  shows "\<forall>i < length (pc_children res'). child_ok t res' i"
proof (intro allI impI)
  define subs where "subs = map_children_to_source p (splitter p)"
  define keep where "keep = (1 < length subs \<or> (length subs = 1 \<and> ch_content (hd subs) \<noteq> ch_content p))"
  define idx where "idx = (if keep then int (length (pc_parents res)) else -1)"
  define ps where "ps = (if keep then [p] else [])"
  have res': "res' = \<lparr>pc_parents = pc_parents res @ ps,
      pc_children = pc_children res @ number_children (ctx p) idx (length (pc_children res)) subs\<rparr>"
    by (auto simp: res'_def add_parent_def Let_def subs_def keep_def idx_def ps_def)
  fix i assume i: "i < length (pc_children res')"
  show "child_ok t res' i"
  proof (cases "i < length (pc_children res)")
    case True
    then show ?thesis unfolding res' using ok by (intro child_ok_mono) simp_all
  next
    case False
    then obtain j where j: "i = length (pc_children res) + j" "j < length subs"
      using i unfolding res' by (auto simp: le_iff_add not_less)
    obtain x where x: "ctx p ((subs ! j)\<lparr>ch_seq := i\<rparr>) = (subs ! j)\<lparr>ch_seq := i, ch_context := x\<rparr>" using ctx by metis
    have child: "pc_children res' ! i = \<lparr>cc_chunk = (subs ! j)\<lparr>ch_seq := i, ch_context := x\<rparr>, cc_parent = idx\<rparr>"
      using j x unfolding res' by (simp add: number_children_nth)
    have par: "pc_parents res' = pc_parents res @ ps" by (simp add: res')
    have "subs ! j \<in> set subs" using j(2) by simp
    then obtain c where c: "c \<in> set (splitter p)" "subs ! j = map_child p c" "ch_start (subs ! j) < ch_end (subs ! j)"
      unfolding subs_def map_children_to_source_def by auto
    have "sourced t (subs ! j) \<and> ch_start p \<le> ch_start (subs ! j) \<and> ch_end (subs ! j) \<le> ch_end p"
      using map_child_sourced [OF p _ c(3) [unfolded c(2)]] s c(1,2) by (simp add: good_split_def)
    then show ?thesis unfolding child_ok_def child par by (simp add: idx_def ps_def Let_def)
  qed
qed

lemma add_parent_keeps: "set (pc_children res) \<subseteq> set (pc_children (add_parent splitter ctx res p))"
  by (auto simp: add_parent_def Let_def)

lemma foldl_add_parent_keeps: "set (pc_children res) \<subseteq> set (pc_children (foldl (add_parent splitter ctx) res ps))"
  using add_parent_keeps by (induction ps arbitrary: res) (simp, fastforce)

lemma add_parent_every_rune:
  assumes p: "sourced t p" and s: "good_split q (ch_content p) (splitter p)" and ctx: "\<And>c. \<exists>x. ctx p c = c\<lparr>ch_context := x\<rparr>"
    and k: "ch_start p \<le> int k" "int k < ch_end p" "q (t ! k)"
  shows "\<exists>c \<in> set (pc_children (add_parent splitter ctx res p)). ch_start (cc_chunk c) \<le> int k \<and> int k < ch_end (cc_chunk c)"
proof -
  obtain c where c: "c \<in> set (map_children_to_source p (splitter p))" "ch_start c \<le> int k" "int k < ch_end c"
    using map_child_every_rune [where q = q, OF p _ k] s by (auto simp: good_split_def)
  then obtain j where j: "j < length (map_children_to_source p (splitter p))" "c = map_children_to_source p (splitter p) ! j"
    by (metis in_set_conv_nth)
  let ?seq = "length (pc_children res) + j"
  obtain x where x: "ctx p (c\<lparr>ch_seq := ?seq\<rparr>) = c\<lparr>ch_seq := ?seq, ch_context := x\<rparr>" using ctx by metis
  obtain i where "pc_children (add_parent splitter ctx res p) = pc_children res
      @ number_children (ctx p) i (length (pc_children res)) (map_children_to_source p (splitter p))"
    by (auto simp: add_parent_def Let_def)
  moreover have "number_children (ctx p) i (length (pc_children res)) (map_children_to_source p (splitter p)) ! j
      = \<lparr>cc_chunk = c\<lparr>ch_seq := ?seq, ch_context := x\<rparr>, cc_parent = i\<rparr>"
    using j x by (simp add: number_children_nth)
  ultimately have "\<lparr>cc_chunk = c\<lparr>ch_seq := ?seq, ch_context := x\<rparr>, cc_parent = i\<rparr>
      \<in> set (pc_children (add_parent splitter ctx res p))"
    using j(1) by (metis Un_iff length_number_children nth_mem set_append)
  then show ?thesis using c(2,3) by force
qed

text \<open>The loop over the parents, whatever splits them and whatever context it writes.\<close>

lemma parents_and_children:
  assumes ps: "\<forall>p \<in> set ps. sourced t p \<and> good_split q (ch_content p) (splitter p)" and e: "runes_in q t ps"
    and ctx: "\<And>p c. \<exists>x. ctx p c = c\<lparr>ch_context := x\<rparr>"
  defines "res \<equiv> foldl (add_parent splitter ctx) \<lparr>pc_parents = [], pc_children = []\<rparr> ps"
  shows "(\<forall>i < length (pc_children res). child_ok t res i) \<and> runes_in q t (map cc_chunk (pc_children res))"
proof
  show "\<forall>i < length (pc_children res). child_ok t res i"
    unfolding res_def
  proof (rule foldl_inv [where I = "\<lambda>r. \<forall>i < length (pc_children r). child_ok t r i"])
    fix r p assume "p \<in> set ps" "\<forall>i < length (pc_children r). child_ok t r i"
    then show "\<forall>i < length (pc_children (add_parent splitter ctx r p)). child_ok t (add_parent splitter ctx r p) i"
      using ps ctx by (intro add_parent_ok) auto
  qed simp
  show "runes_in q t (map cc_chunk (pc_children res))"
    unfolding runes_in_def
  proof (intro allI impI)
    fix k assume k: "k < length t" "q (t ! k)"
    then obtain p where p: "p \<in> set ps" "ch_start p \<le> int k" "int k < ch_end p" using e unfolding runes_in_def by blast
    then obtain qs rs where "ps = qs @ p # rs" by (meson split_list)
    then have sub: "set (pc_children (add_parent splitter ctx (foldl (add_parent splitter ctx) \<lparr>pc_parents = [], pc_children = []\<rparr> qs) p))
        \<subseteq> set (pc_children res)"
      using foldl_add_parent_keeps by (simp add: res_def)
    have "\<exists>c \<in> set (pc_children (add_parent splitter ctx (foldl (add_parent splitter ctx) \<lparr>pc_parents = [], pc_children = []\<rparr> qs) p)).
        ch_start (cc_chunk c) \<le> int k \<and> int k < ch_end (cc_chunk c)"
      by (rule add_parent_every_rune [where q = q]) (use ps p ctx k in auto)
    with sub show "\<exists>c \<in> set (map cc_chunk (pc_children res)). ch_start c \<le> int k \<and> int k < ch_end c" by (simp, blast)
  qed
qed

lemma context_self: "\<exists>x. (c :: chunk) = c\<lparr>ch_context := x\<rparr>"
  by (rule exI [of _ "ch_context c"]) simp

lemma split_text_good:
  assumes "0 < sc_size cfg" "sc_size cfg \<le> int max_unit_size"
  shows "good_split (\<lambda>_. True) t (split_text t cfg)"
  using chunks_cover_lemma [OF assms refl, of t] covers_sourced covers_every_rune
  unfolding good_split_def runes_in_def by blast

text \<open>
  The two-level split, for chunk sizes of at most 7500 runes: child number i carries i as its
  number, lies inside its parent when it names one, and holds, possibly behind generated header
  text, exactly the runes of the document between its positions; and every rune of the document
  lies in some child, so that nothing is lost for retrieval although children that only repeat
  a header are dropped.
\<close>

theorem children_lie_in_parents:
  assumes "0 < sc_size parent_cfg" "sc_size parent_cfg \<le> int max_unit_size"
    and "0 < sc_size child_cfg" "sc_size child_cfg \<le> int max_unit_size"
    and "res = split_text_parent_child t parent_cfg child_cfg"
  shows "(\<forall>i < length (pc_children res). child_ok t res i) \<and> every_rune_in t (map cc_chunk (pc_children res))"
  unfolding assms(5) split_text_parent_child_def
  by (rule parents_and_children)
    (use split_text_good [OF assms(1,2)] split_text_good [OF assms(3,4)] in \<open>auto simp: good_split_def intro: context_self\<close>)

lemma children_lie_in_parents_witness:
  "every_rune_in (lit ''one two. six'') (map cc_chunk (pc_children
     (split_text_parent_child (lit ''one two. six'') default_config (default_config\<lparr>sc_size := 6\<rparr>))))"
  using children_lie_in_parents [of default_config "default_config\<lparr>sc_size := 6\<rparr>", OF _ _ _ _ refl]
  by (simp add: max_unit_size_def default_config_def default_chunk_size_def)

end
