(* ===== verification/DocProfile.thy ===== *)
theory DocProfile
  imports HeaderTracker
begin

text \<open>
  What a document looks like: the multilingual patterns (chunker/patterns.go), fenced code
  (chunker/fenced_code.go), and the profile with the choice of splitting tiers
  (chunker/profiler.go). The line-length statistics, the code ratio and the language hints of the
  profile are left out: no decision reads them.
\<close>

section \<open>Patterns\<close>

definition re_blanks :: regex where "re_blanks = re_many (re_one [32, 9])"
definition re_digits :: regex where "re_digits = re_some (RSet True [(48, 57)])"
definition re_roman :: regex where "re_roman = RRep True 1 (Some 5) (re_one [73, 86, 88])"
definition re_dot :: regex where "re_dot = re_not [nl]"
definition re_tail :: regex where "re_tail = RSeq (RRep True 0 (Some 200) re_dot) RLineEnd"

definition re_line :: "regex list \<Rightarrow> regex" where
  "re_line rs = re_seq ([RLineBegin, re_blanks] @ rs)"

definition numbered_section_pattern :: regex where
  "numbered_section_pattern = re_line
     [RAlt (re_seq [re_digits, RRep True 1 (Some 3) (RSeq (re_chr 46) re_digits), re_opt (re_chr 46)])
        (RSeq (RAlt re_digits re_roman) (re_chr 46)),
      re_some (re_one [32, 9]), re_not [9, 10, 12, 13, 32], re_tail]"

definition all_caps_heading_pattern :: regex where
  "all_caps_heading_pattern = re_line
     [RSet True [(65, 90), (0xC4, 0xC4), (0xD6, 0xD6), (0xDC, 0xDC)],
      RRep True 3 (Some 80) (RSet True [(65, 90), (0xC4, 0xC4), (0xD6, 0xD6), (0xDC, 0xDC), (32, 32), (45, 45)]),
      re_opt (re_chr 58), re_many re_space, RLineEnd]"

definition re_rule :: "nat \<Rightarrow> regex" where
  "re_rule c = RRep True 3 None (re_chr c)"

definition visual_separator_pattern :: regex where
  "visual_separator_pattern = re_line
     [RAlt (re_rule 45) (RAlt (re_rule 61) (RAlt (re_rule 42) (re_rule 95))), re_blanks, RLineEnd]"

text \<open>Words without regard to case; the letter s also folds to U+017F.\<close>

definition re_fold :: "string \<Rightarrow> regex" where
  "re_fold w = re_seq (map (\<lambda>c. re_one (if c = 115 then [115, 83, 0x17F] else [c, c - 32])) (lit w))"

definition page_footer_pattern :: regex where
  "page_footer_pattern = re_line
     [RAlt (re_fold ''seite'') (RAlt (re_fold ''page'') (RSeq (re_chr 0x9875) (re_opt (re_chr 0x7801)))),
      re_some re_space, re_digits,
      re_opt (re_seq [re_many re_space, RAlt (re_fold ''von'') (RAlt (re_fold ''of'') (re_chr 47)), re_many re_space, re_digits]),
      re_blanks, RLineEnd]"

definition chapter_pattern :: "string list \<Rightarrow> regex" where
  "chapter_pattern ws = re_line
     [foldr RAlt (map re_lit (butlast ws)) (re_lit (last ws)), re_some re_space, RAlt re_digits re_roman,
      re_one [46, 58, 32], re_tail]"

definition german_chapter_pattern :: regex where
  "german_chapter_pattern = chapter_pattern [''Kapitel'', ''Abschnitt'', ''Teil'']"

definition english_chapter_pattern :: regex where
  "english_chapter_pattern = chapter_pattern [''Chapter'', ''Section'', ''Part'']"

definition chinese_chapter_pattern :: regex where
  "chinese_chapter_pattern = re_line
     [re_chr 0x7B2C, re_blanks,
      re_some (RSet True (map (\<lambda>c. (c, c)) [0x4E00, 0x4E8C, 0x4E09, 0x56DB, 0x4E94, 0x516D, 0x4E03, 0x516B, 0x4E5D,
        0x5341, 0x767E, 0x5343, 0x96F6, 0x3007] @ [(48, 57)])),
      re_blanks,
      RAlt (re_one [0x7AE0, 0x8282, 0x7BC0]) (RAlt (RSeq (re_chr 0x90E8) (re_chr 0x5206)) (re_chr 0x7BC7)),
      re_opt (re_one [32, 9]), re_tail]"

definition excessive_blanks_pattern :: regex where
  "excessive_blanks_pattern = RRep True 3 None (re_chr nl)"

definition lang_english :: string where "lang_english = ''en''"
definition lang_german :: string where "lang_german = ''de''"
definition lang_chinese :: string where "lang_chinese = ''zh''"
definition lang_mixed :: string where "lang_mixed = ''mixed''"

definition chapter_patterns_for_langs :: "string list \<Rightarrow> regex list" where
  "chapter_patterns_for_langs langs =
     (let every = [german_chapter_pattern, english_chapter_pattern, chinese_chapter_pattern];
          out = concat (map (\<lambda>l. if l = lang_german then [german_chapter_pattern]
             else if l = lang_english then [english_chapter_pattern]
             else if l = lang_chinese then [chinese_chapter_pattern] else []) langs)
      in if langs = [] \<or> out = [] then every else out)"

text \<open>
  The Markdown heading, with its two captures: the number of hashes and the title. The captures
  are those of the first way to match in the order of preference. A line holds no line feed, so
  the expression can only match at its start.
\<close>

definition heading_matches :: "rtext \<Rightarrow> (nat \<times> nat \<times> nat) list" where
  "heading_matches line =
     concat (map (\<lambda>a. concat (map (\<lambda>b. concat (map (\<lambda>c. concat (map (\<lambda>d.
         map (\<lambda>e. (a, b, c)) (filter (\<lambda>e. re_ends RLineEnd line e \<noteq> []) (re_ends (re_many re_space) line d)))
         (re_ends (re_opt (RSeq (re_some (re_one [32, 9])) (re_some (re_chr 35)))) line c)))
         (re_ends (RRep False 1 None re_dot) line b)))
         (re_ends (re_some re_space) line a)))
       (re_ends (RRep True 1 (Some 6) (re_chr 35)) line 0))"

definition markdown_heading :: "rtext \<Rightarrow> (nat \<times> rtext) option" where
  "markdown_heading line = (case heading_matches line of
       [] \<Rightarrow> None
     | (a, b, c) # _ \<Rightarrow> Some (a, take (c - b) (drop b line)))"

section \<open>Fenced code\<close>

record fence =
  fn_marker :: nat
  fn_length :: nat

definition no_fence :: fence where
  "no_fence = \<lparr>fn_marker = 0, fn_length = 0\<rparr>"

text \<open>\<open>consume\<close>: whether the line is code, whether it is a delimiter, and the fence behind it.\<close>

definition fence_consume :: "rtext \<Rightarrow> fence \<Rightarrow> bool \<times> bool \<times> fence" where
  "fence_consume line0 f =
     (let inside = 0 < fn_length f;
          line = (if line0 \<noteq> [] \<and> last line0 = cr then butlast line0 else line0);
          indent = length (takeWhile (\<lambda>c. c = 32) line)
      in if 3 < indent \<or> indent = length line then (inside, False, f)
      else let body = drop indent line; marker = hd body in
        if marker \<noteq> 96 \<and> marker \<noteq> 126 then (inside, False, f)
        else let n = length (takeWhile (\<lambda>c. c = marker) body); rest = drop n body in
          if n < 3 then (inside, False, f)
          else if inside then
            (if marker = fn_marker f \<and> fn_length f \<le> n \<and> list_all (\<lambda>c. c = 32 \<or> c = 9) rest
             then (True, True, no_fence) else (True, False, f))
          else if marker = 96 \<and> 96 \<in> set rest then (False, False, f)
          else (True, True, \<lparr>fn_marker = marker, fn_length = n\<rparr>))"

section \<open>The profile\<close>

record doc_profile =
  dp_total_chars :: nat
  dp_total_lines :: nat
  dp_headings :: "nat \<Rightarrow> nat"
  dp_heading_total :: nat
  dp_numbered :: nat
  dp_all_caps :: nat
  dp_blank_breaks :: nat
  dp_form_feeds :: nat
  dp_visual_seps :: nat
  dp_german :: nat
  dp_english :: nat
  dp_chinese :: nat
  dp_footers :: nat
  dp_has_tables :: bool
  dp_has_code :: bool

definition empty_profile :: doc_profile where
  "empty_profile = \<lparr>dp_total_chars = 0, dp_total_lines = 0, dp_headings = (\<lambda>_. 0), dp_heading_total = 0,
     dp_numbered = 0, dp_all_caps = 0, dp_blank_breaks = 0, dp_form_feeds = 0, dp_visual_seps = 0, dp_german = 0,
     dp_english = 0, dp_chinese = 0, dp_footers = 0, dp_has_tables = False, dp_has_code = False\<rparr>"

text \<open>The share of heading lines above 0.005, as a comparison of whole numbers.\<close>

definition heading_density_high :: "doc_profile \<Rightarrow> bool" where
  "heading_density_high p \<longleftrightarrow> dp_total_lines p \<noteq> 0 \<and> 5 * dp_total_lines p < 1000 * dp_heading_total p"

definition dominant_heading_level :: "doc_profile \<Rightarrow> nat" where
  "dominant_heading_level p =
     (if dp_heading_total p = 0 then 0
      else case List.find (\<lambda>l. 3 \<le> dp_headings p l) [1, 2, 3, 4, 5, 6] of
          Some l \<Rightarrow> l
        | None \<Rightarrow> (case List.find (\<lambda>l. 0 < dp_headings p l) [6, 5, 4, 3, 2, 1] of Some l \<Rightarrow> l | None \<Rightarrow> 0))"

definition heuristic_marker_total :: "doc_profile \<Rightarrow> nat" where
  "heuristic_marker_total p = dp_numbered p + dp_german p + dp_english p + dp_chinese p + dp_all_caps p
     + dp_visual_seps p + dp_form_feeds p"

definition bump :: "regex \<Rightarrow> rtext \<Rightarrow> nat" where
  "bump r line = (if re_match r line then 1 else 0)"

definition profile_line :: "fence \<times> doc_profile \<Rightarrow> rtext \<Rightarrow> fence \<times> doc_profile" where
  "profile_line st line = (case st of (f, p) \<Rightarrow>
     (case fence_consume line f of (code, delimiter, f') \<Rightarrow>
        if code then (f', p\<lparr>dp_has_code := True\<rparr>)
        else case markdown_heading line of
            Some (level, _) \<Rightarrow> (f', p\<lparr>dp_headings := (dp_headings p)(level := dp_headings p level + 1),
              dp_heading_total := dp_heading_total p + 1\<rparr>)
          | None \<Rightarrow> (let trimmed = rt_trim line in
              (f', p\<lparr>dp_numbered := dp_numbered p + bump numbered_section_pattern line,
                dp_german := dp_german p + bump german_chapter_pattern line,
                dp_english := dp_english p + bump english_chapter_pattern line,
                dp_chinese := dp_chinese p + bump chinese_chapter_pattern line,
                dp_all_caps := dp_all_caps p + bump all_caps_heading_pattern line,
                dp_visual_seps := dp_visual_seps p + bump visual_separator_pattern line,
                dp_footers := dp_footers p + bump page_footer_pattern line,
                dp_has_tables := (dp_has_tables p
                  \<or> (take 1 trimmed = [pipe_rune] \<and> rt_suffix trimmed [pipe_rune]))\<rparr>))))"

text \<open>\<open>strings.Count\<close> of a text that is not empty: the matches that do not overlap.\<close>

function rt_count :: "rtext \<Rightarrow> rtext \<Rightarrow> nat" where
  "rt_count sub s = (case rt_index sub s of
       None \<Rightarrow> 0
     | Some i \<Rightarrow> if sub = [] then 0 else Suc (rt_count sub (drop (i + length sub) s)))"
  by pat_completeness auto
termination
proof (relation "measure (length \<circ> snd)", goal_cases)
  case (2 sub s i)
  then show ?case using rt_index_Some [of sub s i] by (cases sub) auto
qed simp

declare rt_count.simps [simp del]

definition profile_document :: "rtext \<Rightarrow> doc_profile" where
  "profile_document t =
     (if t = [] then empty_profile
      else let ls = rt_lines nl t in
        snd (foldl profile_line (no_fence, empty_profile\<lparr>dp_total_chars := length t,
           dp_form_feeds := rt_count [12] t, dp_total_lines := length ls,
           dp_blank_breaks := rt_count [nl, nl, nl] t\<rparr>) ls))"

datatype strategy_tier = TierHeading | TierHeuristic | TierLegacy

definition select_strategy :: "doc_profile option \<Rightarrow> strategy_tier list" where
  "select_strategy po = (case po of
       None \<Rightarrow> [TierLegacy]
     | Some p \<Rightarrow>
         (if 3 \<le> dp_heading_total p \<and> heading_density_high p \<and> 0 < dominant_heading_level p then [TierHeading] else [])
         @ (if 5 \<le> heuristic_marker_total p \<or> 0 < dp_form_feeds p \<or> 0 < dp_german p + dp_english p + dp_chinese p
            then [TierHeuristic] else [])
         @ [TierLegacy])"

end
