(* ===== verification/Headings.thy ===== *)
theory Headings
  imports Splitter DocProfile
begin

text \<open>
  Heading-aware splitting: the stack of active headings (chunker/heading_hierarchy.go) and the
  first tier of the chunker, which cuts a document at its dominant headings and merges short
  sections again (chunker/heading_splitter.go).
\<close>

section \<open>The heading stack\<close>

record heading_hierarchy =
  hh_stack :: "rtext list"
  hh_depth :: nat

definition new_heading_hierarchy :: heading_hierarchy where
  "new_heading_hierarchy = \<lparr>hh_stack = replicate 6 [], hh_depth = 0\<rparr>"

definition observe :: "rtext \<Rightarrow> heading_hierarchy \<Rightarrow> (nat \<times> rtext) \<times> heading_hierarchy" where
  "observe line h = (case markdown_heading line of
       None \<Rightarrow> ((0, []), h)
     | Some (level, title) \<Rightarrow>
         if level < 1 \<or> 6 < level then ((0, []), h)
         else (let heading = rt_trim title;
                   stack = map (\<lambda>i. if i = level - 1 then heading else if level \<le> i then [] else hh_stack h ! i) [0 ..< 6];
                   depth = (if hh_depth h < level then level
                     else foldl (\<lambda>d i. if stack ! i \<noteq> [] then i + 1 else d) 0 [0 ..< 6])
               in ((level, heading), \<lparr>hh_stack = stack, hh_depth = depth\<rparr>)))"

definition breadcrumb_with_hashes :: "heading_hierarchy \<Rightarrow> rtext" where
  "breadcrumb_with_hashes h =
     (if hh_depth h = 0 then []
      else rt_join [nl] (map (\<lambda>i. replicate (i + 1) 35 @ [32] @ hh_stack h ! i)
        (filter (\<lambda>i. hh_stack h ! i \<noteq> []) [0 ..< hh_depth h])))"

section \<open>Boundaries\<close>

text \<open>The lines of a text with the rune offset each one starts at.\<close>

fun line_positions :: "nat \<Rightarrow> rtext list \<Rightarrow> (nat \<times> rtext) list" where
  "line_positions pos [] = []"
| "line_positions pos (l # ls) = (pos, l) # line_positions (pos + length l + 1) ls"

type_synonym heading_bound = "nat \<times> rtext"

definition bound_line :: "nat \<Rightarrow> fence \<times> heading_bound list \<Rightarrow> nat \<times> rtext \<Rightarrow> fence \<times> heading_bound list" where
  "bound_line primary st pl = (case st of (f, bounds) \<Rightarrow> case pl of (pos, line) \<Rightarrow>
     (case fence_consume line f of (code, _, f') \<Rightarrow>
        if code then (f', bounds)
        else case markdown_heading line of
            None \<Rightarrow> (f', bounds)
          | Some (level, _) \<Rightarrow>
              if 1 \<le> level \<and> level \<le> primary \<and> 0 < pos then (f', bounds @ [(pos, line)])
              else if 1 \<le> level \<and> level \<le> primary then (f', bounds[0 := (fst (bounds ! 0), line)])
              else (f', bounds)))"

definition find_heading_boundaries :: "rtext \<Rightarrow> nat \<Rightarrow> heading_bound list" where
  "find_heading_boundaries t primary =
     (if t = [] then [(0, [])]
      else snd (foldl (bound_line primary) (no_fence, [(0, [])]) (line_positions 0 (rt_lines nl t))))"

definition observe_sub_line :: "nat \<Rightarrow> fence \<times> heading_hierarchy \<Rightarrow> rtext \<Rightarrow> fence \<times> heading_hierarchy" where
  "observe_sub_line primary st line = (case st of (f, h) \<Rightarrow>
     (case fence_consume line f of (code, _, f') \<Rightarrow>
        if code then (f', h)
        else case markdown_heading line of
            None \<Rightarrow> (f', h)
          | Some (level, _) \<Rightarrow> if primary < level then (f', snd (observe line h)) else (f', h)))"

definition observe_sub_headings :: "rtext \<Rightarrow> nat \<Rightarrow> heading_hierarchy \<Rightarrow> heading_hierarchy" where
  "observe_sub_headings t primary h =
     (if t = [] then h else snd (foldl (observe_sub_line primary) (no_fence, h) (rt_lines nl t)))"

definition breadcrumb_line ::
    "nat \<Rightarrow> fence \<times> heading_hierarchy \<times> (nat \<times> rtext) list \<Rightarrow> nat \<times> rtext
       \<Rightarrow> fence \<times> heading_hierarchy \<times> (nat \<times> rtext) list" where
  "breadcrumb_line primary st pl = (case st of (f, h, res) \<Rightarrow> case pl of (pos, line) \<Rightarrow>
     (case fence_consume line f of (code, _, f') \<Rightarrow>
        if code then (f', h, res)
        else case markdown_heading line of
            None \<Rightarrow> (f', h, res)
          | Some (level, _) \<Rightarrow>
              if primary < level
              then (let h' = snd (observe line h) in (f', h', res @ [(pos, breadcrumb_with_hashes h')]))
              else (f', h, res)))"

definition section_breadcrumbs :: "rtext \<Rightarrow> nat \<Rightarrow> heading_hierarchy \<Rightarrow> (nat \<times> rtext) list" where
  "section_breadcrumbs t primary seed =
     snd (snd (foldl (breadcrumb_line primary) (no_fence, seed, [(0, breadcrumb_with_hashes seed)])
       (line_positions 0 (rt_lines nl t))))"

fun breadcrumb_at_offset :: "(nat \<times> rtext) list \<Rightarrow> int \<Rightarrow> rtext \<Rightarrow> rtext" where
  "breadcrumb_at_offset [] offset bc = bc"
| "breadcrumb_at_offset ((p, b) # es) offset bc =
     (if offset < int p then bc else breadcrumb_at_offset es offset b)"

section \<open>Sections\<close>

text \<open>The common lines at the head of two breadcrumbs.\<close>

fun common_lines :: "rtext list \<Rightarrow> rtext list \<Rightarrow> rtext list" where
  "common_lines (x # xs) (y # ys) = (if x = y then x # common_lines xs ys else [])"
| "common_lines _ _ = []"

definition common_heading_prefix :: "rtext \<Rightarrow> rtext \<Rightarrow> rtext" where
  "common_heading_prefix a b =
     (if a = b then a
      else let common = common_lines (rt_lines nl a) (rt_lines nl b)
        in if common = [] then [] else rt_join [nl] common)"

fun coalesce :: "int \<Rightarrow> int \<Rightarrow> chunk \<Rightarrow> int \<Rightarrow> chunk list \<Rightarrow> chunk list" where
  "coalesce target budget cur cur_len [] = [cur]"
| "coalesce target budget cur cur_len (nxt # cs) =
     (let next_len = int (length (ch_content nxt));
          shared = common_heading_prefix (ch_context cur) (ch_context nxt)
      in if shared \<noteq> [] \<and> ch_end cur = ch_start nxt \<and> cur_len < target \<and> cur_len + next_len \<le> budget
         then coalesce target budget
           (cur\<lparr>ch_content := ch_content cur @ ch_content nxt, ch_context := shared, ch_end := ch_end nxt\<rparr>)
           (cur_len + next_len) cs
         else cur # coalesce target budget nxt next_len cs)"

definition resequence :: "chunk list \<Rightarrow> chunk list" where
  "resequence cs = map (\<lambda>(i, c). c\<lparr>ch_seq := i\<rparr>) (List.enumerate 0 cs)"

definition coalesce_tiny_chunks :: "chunk list \<Rightarrow> int \<Rightarrow> chunk list" where
  "coalesce_tiny_chunks cs budget = (case cs of
       [] \<Rightarrow> []
     | [c] \<Rightarrow> [c]
     | c # d # ds \<Rightarrow>
         if budget \<le> 0 then cs
         else (let half = budget div 2; target = (if half < 200 then 200 else half)
               in resequence (coalesce target budget c (int (length (ch_content c))) (d # ds))))"

text \<open>The chunks of one section, from a boundary to the next one.\<close>

definition section_chunks ::
    "rtext \<Rightarrow> splitter_config \<Rightarrow> nat \<Rightarrow> heading_hierarchy \<times> chunk list \<Rightarrow> heading_bound \<times> nat
       \<Rightarrow> heading_hierarchy \<times> chunk list" where
  "section_chunks t cfg primary st be = (case st of (h0, out) \<Rightarrow> case be of ((start, line), end_rune) \<Rightarrow>
     (let h1 = (if line \<noteq> [] then snd (observe line h0) else h0);
          breadcrumb = breadcrumb_with_hashes h1;
          section_runes = slice t start end_rune;
          h2 = observe_sub_headings section_runes primary h1
      in if section_runes = [] then (h2, out)
         else if int (length breadcrumb + 2 + length section_runes) \<le> sc_size cfg
         then (h2, out @ [\<lparr>ch_content = section_runes, ch_context = breadcrumb, ch_seq = length out,
             ch_start = int start, ch_end = int end_rune\<rparr>])
         else (let bcs = section_breadcrumbs section_runes primary h1
               in (h2, out @ map (\<lambda>(i, sub). \<lparr>ch_content = ch_content sub,
                     ch_context = breadcrumb_at_offset bcs (ch_start sub) breadcrumb, ch_seq = i,
                     ch_start = int start + ch_start sub, ch_end = int start + ch_end sub\<rparr>)
                   (List.enumerate (length out) (split_text section_runes cfg))))))"

definition split_by_headings :: "rtext \<Rightarrow> splitter_config \<Rightarrow> doc_profile option \<Rightarrow> chunk list" where
  "split_by_headings t cfg profile =
     (if t = [] then []
      else let p = (case profile of Some p \<Rightarrow> p | None \<Rightarrow> profile_document t);
               primary = dominant_heading_level p
        in if primary = 0 then split_text t cfg
           else let bounds = find_heading_boundaries t primary in
             if length bounds \<le> 1 then split_text t cfg
             else coalesce_tiny_chunks
               (snd (foldl (section_chunks t cfg primary) (new_heading_hierarchy, [])
                  (zip bounds (map fst (tl bounds) @ [length t])))) (sc_size cfg))"

section \<open>Boundaries are in order\<close>

fun ascending :: "nat \<Rightarrow> nat \<Rightarrow> nat list \<Rightarrow> bool" where
  "ascending lo hi [] \<longleftrightarrow> True"
| "ascending lo hi (x # xs) \<longleftrightarrow> lo \<le> x \<and> x \<le> hi \<and> ascending (Suc x) hi xs"

lemma ascending_weaken: "ascending lo hi xs \<Longrightarrow> lo' \<le> lo \<Longrightarrow> ascending lo' hi xs"
  by (cases xs) auto

lemma ascending_snoc: "ascending lo hi xs \<Longrightarrow> \<forall>x \<in> set xs. x < y \<Longrightarrow> lo \<le> y \<Longrightarrow> y \<le> hi \<Longrightarrow> ascending lo hi (xs @ [y])"
  by (induction lo hi xs rule: ascending.induct) auto

text \<open>The boundaries: the first at 0, each further one behind those before and at most at the last line.\<close>

definition bounds_ok :: "nat \<Rightarrow> nat \<Rightarrow> heading_bound list \<Rightarrow> bool" where
  "bounds_ok n pos bounds \<longleftrightarrow> bounds \<noteq> [] \<and> fst (hd bounds) = 0 \<and> ascending 0 n (map fst bounds) \<and> (\<forall>b \<in> set bounds. fst b < max pos 1)"

lemma bound_line_ok:
  assumes "bounds_ok n pos (snd st)" "pos \<le> n"
  shows "bounds_ok n (Suc (pos + length line)) (snd (bound_line primary st (pos, line)))"
proof -
  obtain f bounds where st: "st = (f, bounds)" by force
  note ok = assms(1) [unfolded st bounds_ok_def snd_conv]
  have keep: "bounds_ok n (Suc (pos + length line)) bounds" using ok by (fastforce simp: bounds_ok_def)
  have more: "bounds_ok n (Suc (pos + length line)) (bounds @ [(pos, line)])" if "0 < pos"
    using ok assms(2) that unfolding bounds_ok_def by (auto intro!: ascending_snoc)
  have first: "bounds_ok n (Suc (pos + length line)) (bounds[0 := (fst (bounds ! 0), line)])"
    using ok unfolding bounds_ok_def by (cases bounds) fastforce+
  show ?thesis using keep more first
    by (auto simp: st bound_line_def split: prod.splits option.splits)
qed

lemma foldl_bound_line_ok:
  "bounds_ok n pos (snd st) \<Longrightarrow> pos + length (rt_join [nl] ls) \<le> n \<Longrightarrow> ls \<noteq> [] \<Longrightarrow>
   \<exists>pos'. bounds_ok n pos' (snd (foldl (bound_line primary) st (line_positions pos ls)))"
proof (induction ls arbitrary: pos st)
  case (Cons x ls)
  have step: "bounds_ok n (Suc (pos + length x)) (snd (bound_line primary st (pos, x)))"
    using bound_line_ok [OF Cons.prems(1)] Cons.prems(2) by (cases ls) auto
  show ?case
  proof (cases ls)
    case Nil
    then show ?thesis using step by auto
  next
    case (Cons y ys)
    have "Suc (pos + length x) + length (rt_join [nl] ls) \<le> n" using Cons.prems(2) unfolding Cons by simp
    then show ?thesis
      using Cons.IH [of "Suc (pos + length x)" "bound_line primary st (pos, x)"] step unfolding Cons by simp
  qed
qed simp

lemma find_heading_boundaries_ok:
  "\<exists>bs. map fst (find_heading_boundaries t primary) = 0 # bs \<and> ascending 1 (length t) bs"
proof -
  have z: "bounds_ok (length t) 0 [(0, [])]" by (simp add: bounds_ok_def)
  obtain pos where "bounds_ok (length t) pos (find_heading_boundaries t primary)"
  proof (cases "t = []")
    case True
    then show ?thesis using that [of 0] z by (simp add: find_heading_boundaries_def)
  next
    case False
    then show ?thesis using that foldl_bound_line_ok [of "length t" 0 "(no_fence, [(0, [])])" "rt_lines nl t"] z
      by (auto simp: find_heading_boundaries_def)
  qed
  then show ?thesis by (cases "find_heading_boundaries t primary") (auto simp: bounds_ok_def)
qed

section \<open>Chunks of sections and their merging\<close>

text \<open>A chunk without a header, and lists in which only chunks that do not fit carry one.\<close>

definition plain :: "chunk \<Rightarrow> bool" where
  "plain c \<longleftrightarrow> int (length (ch_content c)) = ch_end c - ch_start c"

fun linked :: "int \<Rightarrow> chunk list \<Rightarrow> bool" where
  "linked b (c # d # cs) \<longleftrightarrow> (plain d \<or> b < int (length (ch_content c)) + int (length (ch_content d))) \<and> linked b (d # cs)"
| "linked b [c] \<longleftrightarrow> True"
| "linked b [] \<longleftrightarrow> True"

lemma linked_append:
  "linked b xs \<Longrightarrow> linked b ys \<Longrightarrow> xs = [] \<or> ys = [] \<or> plain (hd ys)
     \<or> b < int (length (ch_content (last xs))) + int (length (ch_content (hd ys))) \<Longrightarrow> linked b (xs @ ys)"
proof (induction b xs rule: linked.induct)
  case (2 b c)
  then show ?case by (cases ys) auto
qed auto

definition same_shape :: "chunk \<Rightarrow> chunk \<Rightarrow> bool" where
  "same_shape c d \<longleftrightarrow> ch_content c = ch_content d \<and> plain c = plain d"

lemma linked_cong: "linked b xs \<Longrightarrow> list_all2 same_shape xs ys \<Longrightarrow> linked b ys"
proof (induction b xs arbitrary: ys rule: linked.induct)
  case (1 b c d cs)
  then obtain y z zs where ys: "ys = y # z # zs" "same_shape c y" "same_shape d z" "list_all2 same_shape cs zs"
    by (auto simp: list_all2_Cons1)
  then have "linked b (z # zs)" using "1.IH" [of "z # zs"] "1.prems"(1) by simp
  then show ?case using "1.prems"(1) ys by (simp add: same_shape_def)
qed (auto simp: list_all2_Cons1)

lemma sourced_plain: "sourced t c \<Longrightarrow> plain c \<Longrightarrow> ch_content c = slice t (nat (ch_start c)) (nat (ch_end c))"
  by (auto simp: sourced_def plain_def)

lemma covers_linked:
  "covers t ov budget most cs p \<Longrightarrow> linked budget cs \<and> (cs \<noteq> [] \<longrightarrow> plain (hd cs))"
proof (induction rule: covers.induct)
  case (covers_snoc cs p c b)
  obtain a h where c: "ch_start c = int a" "ch_end c = int b" "a \<le> p" "p < b" "b \<le> length t" "ch_content c = h @ slice t a b"
      "h = [] \<or> headed_ok budget cs (int (length (ch_content c)))"
    using covers_snoc.hyps(2) by (auto simp: chunk_ok_def)
  have "h = [] \<Longrightarrow> plain c" using c by (simp add: plain_def)
  then show ?case using c(7) covers_snoc.IH
    by (cases "cs = []") (auto simp: headed_ok_def intro!: linked_append)
qed simp

definition tier_ok :: "rtext \<Rightarrow> int \<Rightarrow> nat \<Rightarrow> chunk list \<Rightarrow> bool" where
  "tier_ok t budget p out \<longleftrightarrow> (\<forall>c \<in> set out. sourced t c) \<and> linked budget out \<and> (out \<noteq> [] \<longrightarrow> plain (hd out))
     \<and> (\<forall>k < p. \<exists>c \<in> set out. ch_start c \<le> int k \<and> int k < ch_end c)"

lemma tier_ok_append:
  assumes "tier_ok t budget p out" "\<forall>c \<in> set cs. sourced t c" "linked budget cs" "cs \<noteq> [] \<longrightarrow> plain (hd cs)"
    and "\<forall>k. p \<le> k \<longrightarrow> k < e \<longrightarrow> (\<exists>c \<in> set cs. ch_start c \<le> int k \<and> int k < ch_end c)"
  shows "tier_ok t budget e (out @ cs)"
  using assms unfolding tier_ok_def
  by (auto intro!: linked_append simp: hd_append) (metis UnCI not_le)+

lemma split_text_linked:
  assumes "0 < sc_size cfg" "sc_size cfg \<le> int max_unit_size"
  shows "linked (sc_size cfg) (split_text t cfg) \<and> (split_text t cfg \<noteq> [] \<longrightarrow> plain (hd (split_text t cfg)))"
  using chunks_cover_lemma [OF assms refl, of t] covers_linked by blast

lemma section_chunks_ok:
  assumes cfg: "0 < sc_size cfg" "sc_size cfg \<le> int max_unit_size"
    and ok: "tier_ok t (sc_size cfg) s (snd st)" and se: "s \<le> e" "e \<le> length t"
  shows "tier_ok t (sc_size cfg) e (snd (section_chunks t cfg primary st ((s, line), e)))"
proof -
  obtain h0 out where st: "st = (h0, out)" by force
  show ?thesis
  proof (cases "slice t s e = []")
    case True
    then have "s = e" using se length_slice [of e t s] by simp
    then show ?thesis using ok by (simp add: st section_chunks_def Let_def)
  next
    case False
    then have lt: "s < e" by (cases "s < e") (auto simp: slice_def)
    define h1 where "h1 = (if line \<noteq> [] then snd (observe line h0) else h0)"
    show ?thesis
    proof (cases "int (length (breadcrumb_with_hashes h1) + 2 + length (slice t s e)) \<le> sc_size cfg")
      case True
      let ?c = "\<lparr>ch_content = slice t s e, ch_context = breadcrumb_with_hashes h1, ch_seq = length out,
          ch_start = int s, ch_end = int e\<rparr>"
      have "snd (section_chunks t cfg primary st ((s, line), e)) = out @ [?c]"
        using True False by (simp add: st section_chunks_def Let_def h1_def)
      moreover have "sourced t ?c" using lt se(2) unfolding sourced_def
        by (intro exI [of _ s] exI [of _ e] exI [of _ "[]"]) simp
      moreover have "plain ?c" using lt se(2) by (simp add: plain_def)
      ultimately show ?thesis using ok tier_ok_append [of t "sc_size cfg" s out "[?c]" e] by (simp add: st)
    next
      case big: False
      define subs where "subs = split_text (slice t s e) cfg"
      define shift where "shift = (\<lambda>(i, sub :: chunk). \<lparr>ch_content = ch_content sub,
          ch_context = breadcrumb_at_offset (section_breadcrumbs (slice t s e) primary h1) (ch_start sub) (breadcrumb_with_hashes h1),
          ch_seq = i, ch_start = int s + ch_start sub, ch_end = int s + ch_end sub\<rparr>)"
      define cs where "cs = map shift (List.enumerate (length out) subs)"
      have res: "snd (section_chunks t cfg primary st ((s, line), e)) = out @ cs"
        using big False by (simp add: st section_chunks_def Let_def h1_def cs_def shift_def subs_def)
      have nth: "j < length subs \<Longrightarrow> ch_content (cs ! j) = ch_content (subs ! j) \<and> ch_start (cs ! j) = int s + ch_start (subs ! j)
          \<and> ch_end (cs ! j) = int s + ch_end (subs ! j)" for j
        by (simp add: cs_def shift_def nth_enumerate_eq)
      have len: "length cs = length subs" by (simp add: cs_def)
      have good: "good_split (\<lambda>_. True) (slice t s e) subs" unfolding subs_def by (rule split_text_good [OF cfg])
      have src: "sourced t c" if "c \<in> set cs" for c
      proof -
        obtain j where j: "j < length subs" "c = cs ! j" using \<open>c \<in> set cs\<close> len by (metis in_set_conv_nth)
        then have "sourced (slice t s e) (subs ! j)" using good by (simp add: good_split_def)
        then show ?thesis using nth [OF j(1)] j(2) se by (intro sourced_shift [of t s e "subs ! j"]) simp_all
      qed
      have pl: "j < length subs \<Longrightarrow> plain (cs ! j) \<longleftrightarrow> plain (subs ! j)" for j
        using nth [of j] by (simp add: plain_def)
      have "list_all2 same_shape subs cs" using nth pl len by (simp add: list_all2_conv_all_nth same_shape_def)
      then have lk: "linked (sc_size cfg) cs"
        by (rule linked_cong [rotated]) (use split_text_linked [OF cfg, of "slice t s e"] in \<open>simp add: subs_def\<close>)
      have hd: "cs \<noteq> [] \<longrightarrow> plain (hd cs)"
      proof
        assume "cs \<noteq> []"
        then have "subs \<noteq> []" using len by auto
        then have "plain (subs ! 0)" "0 < length subs"
          using split_text_linked [OF cfg, of "slice t s e"] unfolding subs_def [symmetric] by (simp_all add: hd_conv_nth)
        then show "plain (hd cs)" using pl \<open>cs \<noteq> []\<close> by (simp add: hd_conv_nth)
      qed
      have cov: "\<exists>c \<in> set cs. ch_start c \<le> int k \<and> int k < ch_end c" if k: "s \<le> k" "k < e" for k
      proof -
        have "k - s < length (slice t s e)" using k se(2) by simp
        then obtain c where c: "c \<in> set subs" "ch_start c \<le> int (k - s)" "int (k - s) < ch_end c"
          using good unfolding good_split_def runes_in_def by blast
        then obtain j where j: "j < length subs" "c = subs ! j" by (metis in_set_conv_nth)
        then have "ch_start (cs ! j) \<le> int k \<and> int k < ch_end (cs ! j)" using nth [OF j(1)] c k by simp
        then show ?thesis using j(1) len by (metis nth_mem)
      qed
      show ?thesis unfolding res
        by (rule tier_ok_append [of _ _ s]) (use ok src lk hd cov in \<open>auto simp: st\<close>)
    qed
  qed
qed

lemma sections_ok:
  assumes cfg: "0 < sc_size cfg" "sc_size cfg \<le> int max_unit_size"
  shows "tier_ok t (sc_size cfg) s (snd st) \<Longrightarrow> s \<le> length t \<Longrightarrow> ascending (Suc s) (length t) bs \<Longrightarrow> map fst bounds = s # bs \<Longrightarrow>
    tier_ok t (sc_size cfg) (length t)
      (snd (foldl (section_chunks t cfg primary) st (zip bounds (map fst (tl bounds) @ [length t]))))"
proof (induction bs arbitrary: s st bounds)
  case Nil
  then obtain line where b: "bounds = [(s, line)]" by auto
  then show ?case using section_chunks_ok [OF cfg Nil.prems(1)] Nil.prems(2) by simp
next
  case (Cons e bs)
  then obtain line line' rest where b: "bounds = (s, line) # (e, line') # rest" "map fst rest = bs" by (auto simp: map_eq_Cons_conv)
  have se: "s \<le> e" "e \<le> length t" "ascending (Suc e) (length t) bs" using Cons.prems(3) by simp_all
  have "tier_ok t (sc_size cfg) e (snd (section_chunks t cfg primary st ((s, line), e)))"
    by (rule section_chunks_ok [OF cfg Cons.prems(1) se(1,2)])
  from Cons.IH [OF this se(2,3), of "(e, line') # rest"] show ?case using b by simp
qed

lemma coalesce_ok:
  assumes "sourced t cur" "\<forall>c \<in> set cs. sourced t c" "linked budget cs" "n = int (length (ch_content cur))"
    and "cs = [] \<or> plain (hd cs) \<or> budget < n + int (length (ch_content (hd cs)))"
  shows "(\<forall>c \<in> set (coalesce target budget cur n cs). sourced t c)
    \<and> (\<forall>k. (\<exists>c \<in> set (cur # cs). ch_start c \<le> k \<and> k < ch_end c) \<longrightarrow>
         (\<exists>c \<in> set (coalesce target budget cur n cs). ch_start c \<le> k \<and> k < ch_end c))"
  using assms
proof (induction target budget cur n cs rule: coalesce.induct)
  case (2 target budget cur n nxt cs)
  have lk: "linked budget cs" "cs = [] \<or> plain (hd cs) \<or> budget < int (length (ch_content nxt)) + int (length (ch_content (hd cs)))"
    using "2.prems"(3) by (cases cs; auto)+
  define shared where "shared = common_heading_prefix (ch_context cur) (ch_context nxt)"
  show ?case
  proof (cases "shared \<noteq> [] \<and> ch_end cur = ch_start nxt \<and> n < target \<and> n + int (length (ch_content nxt)) \<le> budget")
    case False
    have "coalesce target budget cur n (nxt # cs) = cur # coalesce target budget nxt (int (length (ch_content nxt))) cs"
      using False by (auto simp: shared_def Let_def)
    moreover have "(\<forall>c \<in> set (coalesce target budget nxt (int (length (ch_content nxt))) cs). sourced t c)
        \<and> (\<forall>k. (\<exists>c \<in> set (nxt # cs). ch_start c \<le> k \<and> k < ch_end c) \<longrightarrow>
         (\<exists>c \<in> set (coalesce target budget nxt (int (length (ch_content nxt))) cs). ch_start c \<le> k \<and> k < ch_end c))"
      by (rule "2.IH"(2) [OF refl refl]) (use False "2.prems" lk in \<open>auto simp: shared_def\<close>)
    ultimately show ?thesis using "2.prems"(1) by auto
  next
    case True
    define cur' where "cur' = cur\<lparr>ch_content := ch_content cur @ ch_content nxt, ch_context := shared, ch_end := ch_end nxt\<rparr>"
    have eq: "coalesce target budget cur n (nxt # cs) = coalesce target budget cur' (n + int (length (ch_content nxt))) cs"
      using True by (simp add: shared_def cur'_def Let_def)
    have nx: "plain nxt" using "2.prems"(5) True by auto
    obtain a b h where c: "ch_start cur = int a" "ch_end cur = int b" "a < b" "b \<le> length t" "ch_content cur = h @ slice t a b"
      using "2.prems"(1) by (auto simp: sourced_def)
    obtain e where d: "ch_end nxt = int e" "b < e" "e \<le> length t" "ch_content nxt = slice t b e"
    proof -
      have snxt: "sourced t nxt" using "2.prems"(2) by simp
      then obtain a' e h' where e: "ch_start nxt = int a'" "ch_end nxt = int e" "a' < e" "e \<le> length t"
        unfolding sourced_def by blast
      moreover have "a' = b" using True c(2) e(1) by simp
      moreover have "ch_content nxt = slice t a' e" using sourced_plain [OF snxt nx] e by simp
      ultimately show thesis using that by simp
    qed
    have "ch_content cur' = h @ slice t a e"
      using c d slice_append [of a b e t] by (simp add: cur'_def)
    then have src: "sourced t cur'" using c d unfolding sourced_def cur'_def
      by (intro exI [of _ a] exI [of _ e] exI [of _ h]) auto
    have fit: "cs = [] \<or> plain (hd cs) \<or> budget < n + int (length (ch_content nxt)) + int (length (ch_content (hd cs)))"
      using lk(2) "2.prems"(4) by auto
    have IH: "(\<forall>c \<in> set (coalesce target budget cur' (n + int (length (ch_content nxt))) cs). sourced t c)
        \<and> (\<forall>k. (\<exists>c \<in> set (cur' # cs). ch_start c \<le> k \<and> k < ch_end c) \<longrightarrow>
         (\<exists>c \<in> set (coalesce target budget cur' (n + int (length (ch_content nxt))) cs). ch_start c \<le> k \<and> k < ch_end c))"
      unfolding cur'_def shared_def
    proof (rule "2.IH"(1) [OF refl refl])
      show "sourced t (cur\<lparr>ch_content := ch_content cur @ ch_content nxt,
          ch_context := common_heading_prefix (ch_context cur) (ch_context nxt), ch_end := ch_end nxt\<rparr>)"
        using src unfolding cur'_def shared_def .
      show "\<forall>c \<in> set cs. sourced t c" using "2.prems"(2) by simp
      show "linked budget cs" by (rule lk(1))
    qed (use True fit "2.prems"(4) in \<open>simp_all add: shared_def\<close>)
    have "(\<exists>c \<in> set (cur # nxt # cs). ch_start c \<le> k \<and> k < ch_end c) \<longrightarrow> (\<exists>c \<in> set (cur' # cs). ch_start c \<le> k \<and> k < ch_end c)" for k
      using True c d by (auto simp: cur'_def)
    then show ?thesis unfolding eq using IH by blast
  qed
qed auto

lemma length_resequence [simp]: "length (resequence cs) = length cs"
  by (simp add: resequence_def)

lemma resequence_nth: "i < length cs \<Longrightarrow> resequence cs ! i = (cs ! i)\<lparr>ch_seq := i\<rparr>"
  by (simp add: resequence_def nth_enumerate_eq)

lemma resequence_good:
  assumes "good_split q t cs"
  shows "good_split q t (resequence cs)"
proof -
  have src: "\<forall>i < length cs. sourced t (cs ! i)" using assms by (simp add: good_split_def)
  have "\<exists>c \<in> set (resequence cs). ch_start c \<le> int k \<and> int k < ch_end c" if k: "k < length t" "q (t ! k)" for k
  proof -
    obtain c where "c \<in> set cs" "ch_start c \<le> int k" "int k < ch_end c"
      using assms k unfolding good_split_def runes_in_def by blast
    then obtain i where i: "i < length cs" "ch_start (cs ! i) \<le> int k" "int k < ch_end (cs ! i)" by (metis in_set_conv_nth)
    then have "resequence cs ! i \<in> set (resequence cs)" by simp
    then show ?thesis using i resequence_nth [OF i(1)] by (intro bexI [of _ "resequence cs ! i"]) simp_all
  qed
  moreover have "\<forall>c \<in> set (resequence cs). sourced t c"
    using src by (auto simp: in_set_conv_nth resequence_nth)
  ultimately show ?thesis by (simp add: good_split_def runes_in_def)
qed

lemma headings_good:
  assumes cfg: "0 < sc_size cfg" "sc_size cfg \<le> int max_unit_size"
  shows "good_split (\<lambda>_. True) t (split_by_headings t cfg profile)"
proof -
  define primary where "primary = dominant_heading_level (case profile of Some p \<Rightarrow> p | None \<Rightarrow> profile_document t)"
  define bounds where "bounds = find_heading_boundaries t primary"
  show ?thesis
  proof (cases "t = [] \<or> primary = 0 \<or> length bounds \<le> 1")
    case True
    then show ?thesis using split_text_good [OF cfg, of t]
      by (auto simp: split_by_headings_def Let_def primary_def bounds_def good_split_def runes_in_def)
  next
    case False
    define out where "out = snd (foldl (section_chunks t cfg primary) (new_heading_hierarchy, [])
        (zip bounds (map fst (tl bounds) @ [length t])))"
    have res: "split_by_headings t cfg profile = coalesce_tiny_chunks out (sc_size cfg)"
      using False by (simp add: split_by_headings_def Let_def primary_def bounds_def out_def)
    obtain bs where bs: "map fst bounds = 0 # bs" "ascending 1 (length t) bs"
      by (metis bounds_def find_heading_boundaries_ok)
    have ok: "tier_ok t (sc_size cfg) (length t) out"
      unfolding out_def by (rule sections_ok [OF cfg, of t 0 _ bs]) (use bs in \<open>auto simp: tier_ok_def\<close>)
    have "good_split (\<lambda>_. True) t (coalesce_tiny_chunks out (sc_size cfg))"
    proof (cases out rule: remdups_adj.cases)
      case (3 c d ds)
      have pre: "sourced t c" "\<forall>c \<in> set (d # ds). sourced t c" "linked (sc_size cfg) (d # ds)"
          "plain d \<or> sc_size cfg < int (length (ch_content c)) + int (length (ch_content d))"
        using ok unfolding tier_ok_def 3 by auto
      obtain target where eq: "coalesce_tiny_chunks out (sc_size cfg) = resequence (coalesce target (sc_size cfg) c (int (length (ch_content c))) (d # ds))"
        using cfg(1) by (simp add: coalesce_tiny_chunks_def 3 Let_def split: if_splits)
      have "\<forall>k < length t. \<exists>x \<in> set (c # d # ds). ch_start x \<le> int k \<and> int k < ch_end x"
        using ok unfolding tier_ok_def 3 by blast
      then show ?thesis unfolding eq
        using coalesce_ok [OF pre(1-3) refl, of target] pre(4)
        by (intro resequence_good) (auto simp: good_split_def runes_in_def)
    qed (use ok in \<open>auto simp: tier_ok_def coalesce_tiny_chunks_def good_split_def runes_in_def\<close>)
    then show ?thesis unfolding res .
  qed
qed

end
