(* ===== verification/Heuristics.thy ===== *)
theory Heuristics
  imports Headings
begin

text \<open>
  Boundary-driven splitting (chunker/heuristic_splitter.go): candidate boundaries from form
  feeds, section markers, separators and blank blocks, and the greedy packing of the blocks
  between them.
\<close>

section \<open>Boundaries\<close>

text \<open>A candidate: the rune offset where a chunk may start, and its priority.\<close>

type_synonym cand = "nat \<times> nat"

definition prio_form_feed :: nat where "prio_form_feed = 100"
definition prio_numbered_head :: nat where "prio_numbered_head = 90"
definition prio_chapter_marker :: nat where "prio_chapter_marker = 85"
definition prio_all_caps_heading :: nat where "prio_all_caps_heading = 70"
definition prio_visual_sep :: nat where "prio_visual_sep = 60"
definition prio_page_footer :: nat where "prio_page_footer = 50"
definition prio_blank_block :: nat where "prio_blank_block = 40"

definition all_rune_indices :: "rtext \<Rightarrow> nat \<Rightarrow> nat list" where
  "all_rune_indices t r = filter (\<lambda>i. t ! i = r) [0 ..< length t]"

definition line_priority :: "string list \<Rightarrow> rtext \<Rightarrow> nat option" where
  "line_priority langs line =
     (if list_ex (\<lambda>p. re_match p line) (chapter_patterns_for_langs langs) then Some prio_chapter_marker
      else if re_match numbered_section_pattern line then Some prio_numbered_head
      else if re_match all_caps_heading_pattern line then Some prio_all_caps_heading
      else if re_match visual_separator_pattern line then Some prio_visual_sep
      else if re_match page_footer_pattern line then Some prio_page_footer
      else None)"

definition mark_line :: "string list \<Rightarrow> bool \<times> cand list \<Rightarrow> nat \<times> rtext \<Rightarrow> bool \<times> cand list" where
  "mark_line langs st pl = (case st of (in_fence, bounds) \<Rightarrow> case pl of (pos, line) \<Rightarrow>
     (if take 3 (rt_trim line) = [96, 96, 96] then (\<not> in_fence, bounds)
      else if in_fence then (in_fence, bounds)
      else case line_priority langs line of
          None \<Rightarrow> (in_fence, bounds)
        | Some p \<Rightarrow> (in_fence, bounds @ [(pos, p)])))"

fun drop_same_start :: "int \<Rightarrow> cand list \<Rightarrow> cand list" where
  "drop_same_start prev [] = []"
| "drop_same_start prev ((s, p) # bs) =
     (if int s \<noteq> prev then (s, p) # drop_same_start (int s) bs else drop_same_start prev bs)"

definition raw_boundaries :: "rtext \<Rightarrow> string list \<Rightarrow> cand list" where
  "raw_boundaries t langs =
     map (\<lambda>i. (i, prio_form_feed)) (all_rune_indices t 12)
     @ snd (foldl (mark_line langs) (False, []) (line_positions 0 (rt_lines nl t)))
     @ map (\<lambda>(a, e). (e, prio_blank_block)) (re_find_all excessive_blanks_pattern t 0)"

definition find_heuristic_boundaries :: "rtext \<Rightarrow> string list \<Rightarrow> cand list" where
  "find_heuristic_boundaries t langs =
     drop_same_start (-1) (sort_key (\<lambda>(s, p). (s, - int p)) (raw_boundaries t langs))"

fun strictly_inside :: "(nat \<times> nat) list \<Rightarrow> nat \<Rightarrow> bool" where
  "strictly_inside [] b = False"
| "strictly_inside ((a, e) # ps) b = (if b \<le> a then False else if b < e then True else strictly_inside ps b)"

definition drop_bounds_inside_spans :: "cand list \<Rightarrow> (nat \<times> nat) list \<Rightarrow> cand list" where
  "drop_bounds_inside_spans bounds spans = filter (\<lambda>b. \<not> strictly_inside spans (fst b)) bounds"

section \<open>Packing\<close>

definition append_chunk :: "chunk list \<Rightarrow> rtext \<Rightarrow> nat \<Rightarrow> nat \<Rightarrow> chunk list" where
  "append_chunk out t s e =
     (if e \<le> s then out
      else let raw = slice t s e in
        if rt_trim raw = [] then out
        else out @ [\<lparr>ch_content = raw, ch_context = [], ch_seq = length out, ch_start = int s, ch_end = int e\<rparr>])"

definition append_oversize_block :: "chunk list \<Rightarrow> rtext \<Rightarrow> nat \<Rightarrow> nat \<Rightarrow> splitter_config \<Rightarrow> chunk list" where
  "append_oversize_block out t s e cfg =
     (if e \<le> s then out
      else out @ map (\<lambda>(i, sub). \<lparr>ch_content = ch_content sub, ch_context = [], ch_seq = i,
             ch_start = int s + ch_start sub, ch_end = int s + ch_end sub\<rparr>)
           (List.enumerate (length out) (split_text (slice t s e) cfg)))"

fun newline_scan :: "rtext \<Rightarrow> nat \<Rightarrow> nat \<Rightarrow> nat option" where
  "newline_scan t lo 0 = None"
| "newline_scan t lo (Suc i) =
     (if lo < Suc i \<and> Suc i < length t
      then (if t ! Suc i = nl then Some (Suc (Suc i)) else newline_scan t lo i) else None)"

definition apply_overlap_aligned :: "rtext \<Rightarrow> nat \<Rightarrow> int \<Rightarrow> nat list \<Rightarrow> nat" where
  "apply_overlap_aligned t cur_end overlap bounds =
     (if overlap \<le> 0 then cur_end
      else let target = cur_end - nat overlap; window = cur_end - 2 * nat overlap;
               inside = filter (\<lambda>b. window \<le> b \<and> b < cur_end) bounds
        in if inside \<noteq> [] then foldr max inside 0
           else case newline_scan t window target of Some i \<Rightarrow> i | None \<Rightarrow> target)"

definition pack_block ::
    "rtext \<Rightarrow> splitter_config \<Rightarrow> nat list \<Rightarrow> int \<Rightarrow> chunk list \<times> nat \<times> nat \<Rightarrow> nat \<Rightarrow> chunk list \<times> nat \<times> nat" where
  "pack_block t cfg bounds min_size st next_end = (case st of (out, chunk_start, cur_end) \<Rightarrow>
     (if sc_size cfg < int next_end - int cur_end
      then (append_oversize_block (if chunk_start < cur_end then append_chunk out t chunk_start cur_end else out)
              t cur_end next_end cfg, next_end, next_end)
      else if sc_size cfg < int next_end - int chunk_start \<and> min_size \<le> int cur_end - int chunk_start
      then (append_chunk out t chunk_start cur_end, apply_overlap_aligned t cur_end (sc_overlap cfg) bounds, next_end)
      else (out, chunk_start, next_end)))"

definition split_by_heuristics :: "rtext \<Rightarrow> splitter_config \<Rightarrow> chunk list" where
  "split_by_heuristics t cfg =
     (if t = [] then []
      else if int (length t) \<le> sc_size cfg then split_text t cfg
      else let found = drop_bounds_inside_spans (find_heuristic_boundaries t (sc_languages cfg)) (protected_spans t) in
        if found = [] then split_text t cfg
        else let with_end = map fst found @ [length t];
                 bounds = (if hd with_end \<noteq> 0 then 0 # with_end else with_end);
                 quarter = go_div (sc_size cfg) 4;
                 min_size = (if quarter < 50 then 50 else quarter)
             in case foldl (pack_block t cfg bounds min_size) ([], hd bounds, hd bounds) (tl bounds) of
                 (out, chunk_start, cur_end) \<Rightarrow>
                   if chunk_start < cur_end then append_chunk out t chunk_start cur_end else out)"

section \<open>What the packing keeps\<close>

lemma line_positions_le: "(q, l) \<in> set (line_positions pos ls) \<Longrightarrow> q \<le> pos + length (rt_join [nl] ls)"
proof (induction ls arbitrary: pos)
  case (Cons x ls)
  show ?case
  proof (cases "q = pos")
    case False
    then have in_rest: "(q, l) \<in> set (line_positions (pos + length x + 1) ls)" using Cons.prems by simp
    then have "ls \<noteq> []" by auto
    then have "length (rt_join [nl] (x # ls)) = length x + 1 + length (rt_join [nl] ls)" by (cases ls) simp_all
    moreover have "q \<le> pos + length x + 1 + length (rt_join [nl] ls)" by (rule Cons.IH [OF in_rest])
    ultimately show ?thesis by linarith
  qed simp
qed simp

lemma mark_line_bound: "\<forall>b \<in> set (snd st). fst b \<le> n \<Longrightarrow> pos \<le> n \<Longrightarrow> \<forall>b \<in> set (snd (mark_line langs st (pos, line))). fst b \<le> n"
proof -
  assume le: "\<forall>b \<in> set (snd st). fst b \<le> n" "pos \<le> n"
  have "set (snd (mark_line langs st (pos, line))) \<subseteq> set (snd st) \<union> {pos} \<times> UNIV"
  proof (cases "line_priority langs line")
    case None
    then show ?thesis by (simp add: mark_line_def split_beta)
  next
    case (Some p)
    then show ?thesis by (auto simp add: mark_line_def split_beta)
  qed
  then show ?thesis using le by fastforce
qed

lemma marked_bound:
  "\<forall>pl \<in> set pls. fst pl \<le> n \<Longrightarrow> \<forall>b \<in> set (snd st). fst b \<le> n \<Longrightarrow> \<forall>b \<in> set (snd (foldl (mark_line langs) st pls)). fst b \<le> n"
proof (induction pls arbitrary: st)
  case (Cons pl pls)
  have "\<forall>b \<in> set (snd (mark_line langs st (fst pl, snd pl))). fst b \<le> n"
    by (rule mark_line_bound [OF Cons.prems(2)]) (simp add: Cons.prems(1))
  then have "\<forall>b \<in> set (snd (mark_line langs st pl)). fst b \<le> n" by simp
  then show ?case using Cons.IH [of "mark_line langs st pl"] Cons.prems(1) by simp
qed simp

lemma raw_boundaries_bound: "b \<in> set (raw_boundaries t langs) \<Longrightarrow> fst b \<le> length t"
proof -
  assume b: "b \<in> set (raw_boundaries t langs)"
  have "\<forall>b \<in> set (snd (foldl (mark_line langs) (False, []) (line_positions 0 (rt_lines nl t)))). fst b \<le> length t"
  proof (rule marked_bound)
    have "rt_join [nl] (rt_lines nl t) = t" by simp
    then show "\<forall>pl \<in> set (line_positions 0 (rt_lines nl t)). fst pl \<le> length t"
      using line_positions_le [of _ _ 0 "rt_lines nl t"] by (metis add_0 prod.collapse)
  qed simp
  then show ?thesis using b by (auto simp: raw_boundaries_def all_rune_indices_def dest!: re_find_all_range)
qed

lemma drop_same_start_ascending:
  "sorted (map fst bs) \<Longrightarrow> \<forall>b \<in> set bs. prev \<le> int (fst b) \<and> fst b \<le> n \<Longrightarrow> -1 \<le> prev \<Longrightarrow>
   ascending (nat (prev + 1)) n (map fst (drop_same_start prev bs))"
proof (induction prev bs rule: drop_same_start.induct)
  case (2 prev s p bs)
  show ?case
  proof (cases "int s = prev")
    case True
    then show ?thesis using 2 by simp
  next
    case False
    have "ascending (nat (int s + 1)) n (map fst (drop_same_start (int s) bs))"
      using 2(1) [OF False] 2(3,4) by auto
    moreover have "nat (int s + 1) = Suc s" by simp
    moreover have "nat (prev + 1) \<le> s" using 2(4) False by auto
    ultimately show ?thesis using False 2(4) by simp
  qed
qed simp

lemma ascending_filter: "ascending lo n (map fst bs) \<Longrightarrow> ascending lo n (map fst (filter P bs))"
proof (induction bs arbitrary: lo)
  case (Cons b bs)
  then show ?case using ascending_weaken by fastforce
qed simp

lemma sorted_by_start: "sorted (map fst (sort_key (\<lambda>(s :: nat, p :: nat). (s, - int p)) bs))"
proof -
  define ys where "ys = sort_key (\<lambda>(s :: nat, p :: nat). (s, - int p)) bs"
  have "sorted (map (\<lambda>(s, p). (s, - int p)) ys)" unfolding ys_def by (rule sorted_sort_key)
  then have "sorted (map fst (map (\<lambda>(s, p). (s, - int p)) ys))"
    by (rule sorted_map_mono) (auto simp: mono_on_def less_eq_prod_def)
  also have "map fst (map (\<lambda>(s, p). (s, - int p)) ys) = map fst ys" by (induction ys) auto
  finally show ?thesis unfolding ys_def .
qed

lemma boundaries_ascending: "ascending 0 (length t) (map fst (drop_bounds_inside_spans (find_heuristic_boundaries t langs) spans))"
proof -
  have "ascending (nat (-1 + 1)) (length t) (map fst (find_heuristic_boundaries t langs))"
    unfolding find_heuristic_boundaries_def
    by (rule drop_same_start_ascending [OF sorted_by_start]) (auto dest: raw_boundaries_bound)
  then show ?thesis unfolding drop_bounds_inside_spans_def by (intro ascending_filter) simp
qed

lemma dropWhile_space: "dropWhile p s = [] \<longleftrightarrow> (\<forall>r \<in> set s. p r)"
  by simp

lemma rt_trim_empty: "rt_trim s = [] \<Longrightarrow> r \<in> set s \<Longrightarrow> is_space r"
proof -
  assume "rt_trim s = []" "r \<in> set s"
  then have "\<forall>x \<in> set (dropWhile is_space s). is_space x" by (simp add: rt_trim_def rt_trim_right_def)
  moreover have "r \<in> set (takeWhile is_space s) \<or> r \<in> set (dropWhile is_space s)"
    using \<open>r \<in> set s\<close> by (metis Un_iff set_append takeWhile_dropWhile_id)
  ultimately show ?thesis by (auto dest: set_takeWhileD)
qed

text \<open>The chunks so far hold every word before \<open>p\<close>, each chunk with its source.\<close>

definition packed :: "rtext \<Rightarrow> chunk list \<Rightarrow> nat \<Rightarrow> bool" where
  "packed t out p \<longleftrightarrow> (\<forall>c \<in> set out. sourced t c)
     \<and> (\<forall>k < p. \<not> is_space (t ! k) \<longrightarrow> (\<exists>c \<in> set out. ch_start c \<le> int k \<and> int k < ch_end c))"

lemma packed_append:
  assumes "packed t out p" "\<forall>c \<in> set cs. sourced t c"
    and "\<forall>k. p \<le> k \<longrightarrow> k < e \<longrightarrow> \<not> is_space (t ! k) \<longrightarrow> (\<exists>c \<in> set cs. ch_start c \<le> int k \<and> int k < ch_end c)"
  shows "packed t (out @ cs) e"
  unfolding packed_def
proof (intro conjI ballI allI impI)
  fix c assume "c \<in> set (out @ cs)"
  then show "sourced t c" using assms(1,2) by (auto simp: packed_def)
next
  fix k assume k: "k < e" "\<not> is_space (t ! k)"
  show "\<exists>c \<in> set (out @ cs). ch_start c \<le> int k \<and> int k < ch_end c"
  proof (cases "k < p")
    case True
    then obtain c where "c \<in> set out" "ch_start c \<le> int k" "int k < ch_end c"
      using assms(1) k unfolding packed_def by blast
    then show ?thesis by auto
  next
    case False
    then obtain c where "c \<in> set cs" "ch_start c \<le> int k" "int k < ch_end c"
      using assms(3) k by (meson not_le)
    then show ?thesis by auto
  qed
qed

lemma packed_le: "packed t out p \<Longrightarrow> q \<le> p \<Longrightarrow> packed t out q"
  unfolding packed_def by (meson order_less_le_trans)

lemma append_chunk_packed:
  assumes "packed t out s" "s \<le> e" "e \<le> length t"
  shows "packed t (append_chunk out t s e) e"
proof -
  consider "e = s" | "s < e" "rt_trim (slice t s e) = []" | "s < e" "rt_trim (slice t s e) \<noteq> []" using assms(2) by linarith
  then show ?thesis
  proof cases
    case 2
    have "is_space (t ! k)" if "s \<le> k" "k < e" for k
    proof (rule rt_trim_empty [OF 2(2)])
      have "slice t s e ! (k - s) = t ! k" using that assms(3) by (simp add: slice_def)
      then show "t ! k \<in> set (slice t s e)" using that assms(3) by (metis length_slice diff_less_mono nth_mem)
    qed
    then show ?thesis using packed_append [OF assms(1), of "[]" e] 2 by (simp add: append_chunk_def)
  next
    case 3
    let ?c = "\<lparr>ch_content = slice t s e, ch_context = [], ch_seq = length out, ch_start = int s, ch_end = int e\<rparr>"
    have "sourced t ?c" unfolding sourced_def using 3(1) assms(3)
      by (intro exI [of _ s] exI [of _ e] exI [of _ "[]"]) simp
    then have "packed t (out @ [?c]) e" by (intro packed_append [OF assms(1)]) auto
    then show ?thesis using 3 by (simp add: append_chunk_def Let_def)
  qed (use assms(1) in \<open>simp add: append_chunk_def\<close>)
qed

lemma append_oversize_packed:
  assumes cfg: "0 < sc_size cfg" "sc_size cfg \<le> int max_unit_size" and "packed t out s" "s \<le> e" "e \<le> length t"
  shows "packed t (append_oversize_block out t s e cfg) e"
proof (cases "s = e")
  case True
  then show ?thesis using assms(3) by (simp add: append_oversize_block_def)
next
  case False
  define subs where "subs = split_text (slice t s e) cfg"
  define shift where "shift = (\<lambda>(i :: nat, sub :: chunk). \<lparr>ch_content = ch_content sub, ch_context = [], ch_seq = i,
      ch_start = int s + ch_start sub, ch_end = int s + ch_end sub\<rparr>)"
  define cs where "cs = map shift (List.enumerate (length out) subs)"
  have good: "good_split (\<lambda>_. True) (slice t s e) subs" unfolding subs_def by (rule split_text_good [OF cfg])
  have nth: "j < length subs \<Longrightarrow> cs ! j = \<lparr>ch_content = ch_content (subs ! j), ch_context = [], ch_seq = length out + j,
      ch_start = int s + ch_start (subs ! j), ch_end = int s + ch_end (subs ! j)\<rparr>" for j
    by (simp add: cs_def shift_def nth_enumerate_eq)
  have len: "length cs = length subs" by (simp add: cs_def)
  have src: "sourced t c" if c: "c \<in> set cs" for c
  proof -
    obtain j where j: "j < length subs" "c = cs ! j" using c len by (metis in_set_conv_nth)
    then have "sourced (slice t s e) (subs ! j)" using good by (simp add: good_split_def)
    then show ?thesis using nth [OF j(1)] j(2) assms(4,5) by (intro sourced_shift [of t s e "subs ! j"]) simp_all
  qed
  have cov: "\<exists>c \<in> set cs. ch_start c \<le> int k \<and> int k < ch_end c" if k: "s \<le> k" "k < e" for k
  proof -
    have "k - s < length (slice t s e)" using k assms(5) by simp
    then obtain c where c: "c \<in> set subs" "ch_start c \<le> int (k - s)" "int (k - s) < ch_end c"
      using good unfolding good_split_def runes_in_def by blast
    then obtain j where j: "j < length subs" "c = subs ! j" by (metis in_set_conv_nth)
    then have "ch_start (cs ! j) \<le> int k \<and> int k < ch_end (cs ! j)" using nth [OF j(1)] c k by simp
    then show ?thesis using j(1) len by (metis nth_mem)
  qed
  have "append_oversize_block out t s e cfg = out @ cs"
    using False assms(4) by (simp add: append_oversize_block_def cs_def shift_def subs_def)
  then show ?thesis using src cov by (simp only:) (intro packed_append [OF assms(3)], auto)
qed

lemma newline_scan_le: "newline_scan t lo i = Some j \<Longrightarrow> j \<le> Suc i"
  by (induction i) (auto split: if_splits)

lemma foldr_max_le: "\<forall>x \<in> set xs. x \<le> n \<Longrightarrow> foldr max xs 0 \<le> (n :: nat)"
  by (induction xs) auto

lemma apply_overlap_le: "apply_overlap_aligned t e ov bounds \<le> e"
proof (cases "ov \<le> 0")
  case False
  have "foldr max (filter (\<lambda>b. e - 2 * nat ov \<le> b \<and> b < e) bounds) 0 \<le> e" by (rule foldr_max_le) auto
  moreover have "i \<le> e" if "newline_scan t w (e - nat ov) = Some i" for i w
  proof (cases "e - nat ov = 0")
    case True
    then show ?thesis using that by simp
  next
    case pos: False
    then show ?thesis using newline_scan_le [OF that] False by linarith
  qed
  ultimately show ?thesis by (auto simp: apply_overlap_aligned_def Let_def split: option.splits)
qed (simp add: apply_overlap_aligned_def)

lemma pack_block_packed:
  assumes cfg: "0 < sc_size cfg" "sc_size cfg \<le> int max_unit_size"
    and st: "st = (out, s, e)" and ok: "packed t out s" "s \<le> e" "e \<le> f" "f \<le> length t"
  shows "\<exists>out' s'. pack_block t cfg bounds m st f = (out', s', f) \<and> packed t out' s' \<and> s' \<le> f"
proof -
  have e: "e \<le> length t" using ok by simp
  have ch: "packed t (append_chunk out t s e) e" by (rule append_chunk_packed [OF ok(1,2) e])
  have pre: "packed t (if s < e then append_chunk out t s e else out) e"
    using ch ok(1,2) by (cases "s < e") auto
  have big: "packed t (append_oversize_block (if s < e then append_chunk out t s e else out) t e f cfg) f"
    by (rule append_oversize_packed [OF cfg pre ok(3,4)])
  have ov: "packed t (append_chunk out t s e) (apply_overlap_aligned t e (sc_overlap cfg) bounds)"
    by (rule packed_le [OF ch apply_overlap_le])
  have "apply_overlap_aligned t e (sc_overlap cfg) bounds \<le> f" using apply_overlap_le ok(3) by (rule order_trans)
  then show ?thesis using big ov ok by (auto simp: pack_block_def st)
qed

lemma pack_all_packed:
  assumes cfg: "0 < sc_size cfg" "sc_size cfg \<le> int max_unit_size"
  shows "packed t out s \<Longrightarrow> s \<le> e \<Longrightarrow> sorted (e # bs) \<Longrightarrow> \<forall>b \<in> set (e # bs). b \<le> length t \<Longrightarrow>
    \<exists>out' s'. foldl (pack_block t cfg bounds m) (out, s, e) bs = (out', s', last (e # bs)) \<and> packed t out' s' \<and> s' \<le> last (e # bs)"
proof (induction bs arbitrary: out s e)
  case (Cons f bs)
  obtain out' s' where 1: "pack_block t cfg bounds m (out, s, e) f = (out', s', f)" "packed t out' s'" "s' \<le> f"
    using pack_block_packed [OF cfg refl Cons.prems(1,2), of f bounds m] Cons.prems(3,4) by auto
  then show ?case using Cons.IH [OF 1(2,3)] Cons.prems(3,4) by simp
qed simp

lemma ascending_sorted: "ascending lo n xs \<Longrightarrow> sorted xs \<and> (\<forall>x \<in> set xs. lo \<le> x \<and> x \<le> n)"
proof (induction lo n xs rule: ascending.induct)
  case (2 lo hi x xs)
  then show ?case by fastforce
qed simp

lemma packed_good: "packed t out (length t) \<Longrightarrow> good_split (\<lambda>r. \<not> is_space r) t out"
  by (simp add: packed_def good_split_def runes_in_def)

lemma good_split_words: "good_split (\<lambda>_. True) t cs \<Longrightarrow> good_split (\<lambda>r. \<not> is_space r) t cs"
  by (simp add: good_split_def runes_in_def)

lemma heuristics_good:
  assumes cfg: "0 < sc_size cfg" "sc_size cfg \<le> int max_unit_size"
  shows "good_split (\<lambda>r. \<not> is_space r) t (split_by_heuristics t cfg)"
proof -
  define found where "found = drop_bounds_inside_spans (find_heuristic_boundaries t (sc_languages cfg)) (protected_spans t)"
  show ?thesis
  proof (cases "t = [] \<or> int (length t) \<le> sc_size cfg \<or> found = []")
    case True
    then show ?thesis using good_split_words [OF split_text_good [OF cfg, of t]]
      by (auto simp: split_by_heuristics_def Let_def found_def good_split_def runes_in_def)
  next
    case False
    define with_end where "with_end = map fst found @ [length t]"
    define bounds where "bounds = (if hd with_end \<noteq> 0 then 0 # with_end else with_end)"
    define m where "m = (if go_div (sc_size cfg) 4 < 50 then 50 else go_div (sc_size cfg) 4)"
    have asc: "sorted (map fst found)" "\<forall>x \<in> set (map fst found). x \<le> length t"
      using ascending_sorted [OF boundaries_ascending [of t "sc_languages cfg" "protected_spans t"]] by (auto simp: found_def)
    have we: "sorted with_end" "\<forall>x \<in> set with_end. x \<le> length t" "with_end \<noteq> []" "last with_end = length t"
      using asc by (auto simp: with_end_def sorted_append)
    obtain bs where b: "bounds = 0 # bs" "sorted (0 # bs)" "\<forall>x \<in> set (0 # bs). x \<le> length t" "last (0 # bs) = length t"
    proof (cases "hd with_end = 0")
      case True
      then show thesis using that [of "tl with_end"] we by (cases with_end) (simp_all add: bounds_def)
    next
      case False
      then show thesis using that [of with_end] we by (simp add: bounds_def)
    qed
    have "packed t [] 0" by (simp add: packed_def)
    then obtain out s where out: "foldl (pack_block t cfg bounds m) ([], 0, 0) bs = (out, s, length t)" "packed t out s" "s \<le> length t"
      using pack_all_packed [OF cfg, of t "[]" 0 0 bs bounds m] b by auto
    have "split_by_heuristics t cfg = (if s < length t then append_chunk out t s (length t) else out)"
      using False out(1) b(1)
      unfolding split_by_heuristics_def Let_def found_def [symmetric] with_end_def [symmetric] bounds_def [symmetric] m_def [symmetric]
      by simp
    moreover have "packed t (if s < length t then append_chunk out t s (length t) else out) (length t)"
      using append_chunk_packed [OF out(2,3)] out(2,3) by auto
    ultimately show ?thesis using packed_good by metis
  qed
qed

end
