(* ===== verification/ChunkStrategy.thy ===== *)
theory ChunkStrategy
  imports Heuristics
begin

text \<open>
  The entry points of the chunker: configuration defaults and the chain of tiers with its
  validation (chunker/strategy.go, chunker/validator.go). The float scaling of a token limit to a
  number of characters (chunker/tokens.go) is the parameter \<open>chars\<close>.
\<close>

section \<open>Configuration\<close>

definition default_chunk_size_and_overlap :: "splitter_config \<Rightarrow> splitter_config" where
  "default_chunk_size_and_overlap cfg =
     (let size_unset = sc_size cfg \<le> 0;
          cfg1 = (if size_unset then cfg\<lparr>sc_size := default_chunk_size\<rparr> else cfg)
      in if sc_overlap cfg1 < 0 \<or> (sc_overlap cfg1 = 0 \<and> size_unset)
         then cfg1\<lparr>sc_overlap := default_chunk_overlap\<rparr> else cfg1)"

definition fill_separators :: "splitter_config \<Rightarrow> splitter_config" where
  "fill_separators cfg = (if sc_separators cfg = [] then cfg\<lparr>sc_separators := default_separators\<rparr> else cfg)"

definition normalize_splitter_config :: "splitter_config \<Rightarrow> splitter_config" where
  "normalize_splitter_config cfg = fill_separators (default_chunk_size_and_overlap cfg)"

definition clamp_to_tokens :: "(int \<Rightarrow> string \<Rightarrow> int) \<Rightarrow> splitter_config \<Rightarrow> splitter_config" where
  "clamp_to_tokens chars cfg =
     (if 0 < sc_token_limit cfg
      then (let lang = (if sc_languages cfg \<noteq> [] then hd (sc_languages cfg) else lang_mixed);
                budget = chars (sc_token_limit cfg) lang
            in if 0 < budget \<and> (sc_size cfg = 0 \<or> budget < sc_size cfg) then cfg\<lparr>sc_size := budget\<rparr> else cfg)
      else cfg)"

definition cap_overlap :: "splitter_config \<Rightarrow> splitter_config" where
  "cap_overlap cfg =
     (if go_div (sc_size cfg) 2 < sc_overlap cfg \<and> 0 < sc_size cfg then cfg\<lparr>sc_overlap := go_div (sc_size cfg) 2\<rparr> else cfg)"

definition ensure_defaults :: "(int \<Rightarrow> string \<Rightarrow> int) \<Rightarrow> splitter_config \<Rightarrow> splitter_config" where
  "ensure_defaults chars cfg = cap_overlap (clamp_to_tokens chars (fill_separators (default_chunk_size_and_overlap cfg)))"

text \<open>\<open>NormalizeLineEndings\<close>: first the pairs, then the single carriage returns.\<close>

fun replace_crlf :: "rtext \<Rightarrow> rtext" where
  "replace_crlf (a # b # s) = (if a = cr \<and> b = nl then nl # replace_crlf s else a # replace_crlf (b # s))"
| "replace_crlf s = s"

definition normalize_line_endings :: "rtext \<Rightarrow> rtext" where
  "normalize_line_endings t =
     (if \<not> rt_contains t [cr] then t else map (\<lambda>c. if c = cr then nl else c) (replace_crlf t))"

definition derive_parent_child_configs :: "splitter_config \<Rightarrow> int \<Rightarrow> int \<Rightarrow> splitter_config \<times> splitter_config" where
  "derive_parent_child_configs base parent_size0 child_size0 =
     (let parent_size = (if parent_size0 \<le> 0 then 4096 else parent_size0);
          child_size = (if child_size0 \<le> 0 then 384 else child_size0)
      in (\<lparr>sc_size = parent_size, sc_overlap = sc_overlap base, sc_separators = sc_separators base,
            sc_strategy = sc_strategy base, sc_token_limit = 0, sc_languages = sc_languages base\<rparr>,
          \<lparr>sc_size = child_size, sc_overlap = go_div child_size 5, sc_separators = sc_separators base,
            sc_strategy = sc_strategy base, sc_token_limit = sc_token_limit base, sc_languages = sc_languages base\<rparr>))"

definition merge_breadcrumbs :: "rtext \<Rightarrow> rtext \<Rightarrow> rtext" where
  "merge_breadcrumbs parent child =
     (if parent = [] then child
      else if child = [] then parent
      else let parent_lines = rt_lines nl parent; child_lines0 = rt_lines nl child;
               child_lines = (if rt_trim (last parent_lines) = rt_trim (hd child_lines0) then tl child_lines0 else child_lines0)
           in if child_lines = [] then parent else parent @ [nl] @ rt_join [nl] child_lines)"

section \<open>Validation\<close>

datatype reject_reason = NoChunks | SingleChunk | TooManyTiny | FarBelowTarget | ExceedsTarget

definition validate_chunks :: "chunk list \<Rightarrow> nat \<Rightarrow> int \<Rightarrow> reject_reason option" where
  "validate_chunks cs total_chars chunk_budget =
     (if cs = [] then Some NoChunks
      else if length cs = 1 \<and> 2 * chunk_budget < int total_chars then Some SingleChunk
      else let lens = map (\<lambda>c. length (ch_content c)) cs;
               max_len = int (foldr max lens 0);
               tiny = length (filter (\<lambda>n. n < 50) (butlast lens))
           in if length cs div 4 < tiny \<and> 2 < tiny then Some TooManyTiny
              else if max_len < go_div chunk_budget 4 \<and> chunk_budget < int total_chars then Some FarBelowTarget
              else if 2 * chunk_budget < max_len \<and> 0 < chunk_budget then Some ExceedsTarget
              else None)"

section \<open>The chain of tiers\<close>

definition strategy_heading :: string where "strategy_heading = ''heading''"
definition strategy_heuristic :: string where "strategy_heuristic = ''heuristic''"
definition strategy_recursive :: string where "strategy_recursive = ''recursive''"
definition strategy_legacy :: string where "strategy_legacy = ''legacy''"

definition resolve_chain :: "rtext \<Rightarrow> splitter_config \<Rightarrow> strategy_tier list \<times> doc_profile option" where
  "resolve_chain t cfg =
     (if sc_strategy cfg = strategy_heading then ([TierHeading, TierLegacy], None)
      else if sc_strategy cfg = strategy_heuristic then ([TierHeuristic, TierLegacy], None)
      else if sc_strategy cfg = strategy_recursive then ([TierLegacy], None)
      else if sc_strategy cfg = strategy_legacy \<or> sc_strategy cfg = [] then ([TierLegacy], None)
      else (let profile = profile_document t in (select_strategy (Some profile), Some profile)))"

definition run_tier :: "strategy_tier \<Rightarrow> rtext \<Rightarrow> splitter_config \<Rightarrow> doc_profile option \<Rightarrow> chunk list" where
  "run_tier tier t cfg profile = (case tier of
       TierHeading \<Rightarrow> split_by_headings t cfg profile
     | TierHeuristic \<Rightarrow> split_by_heuristics t cfg
     | TierLegacy \<Rightarrow> split_text t cfg)"

text \<open>
  The loop of \<open>Split\<close>: the first output that validates, or the output of the legacy tier at the
  end of the chain, which may be empty (nil) and then falls back to the splitter itself.
\<close>

fun try_tiers :: "rtext \<Rightarrow> splitter_config \<Rightarrow> doc_profile option \<Rightarrow> strategy_tier list \<Rightarrow> chunk list" where
  "try_tiers t cfg profile [] = split_text t cfg"
| "try_tiers t cfg profile (tier # rest) =
     (let out = run_tier tier t cfg profile in
      case validate_chunks out (length t) (sc_size cfg) of
        None \<Rightarrow> out
      | Some _ \<Rightarrow> if tier = TierLegacy \<and> rest = [] \<and> out \<noteq> [] then out else try_tiers t cfg profile rest)"

definition split :: "(int \<Rightarrow> string \<Rightarrow> int) \<Rightarrow> rtext \<Rightarrow> splitter_config \<Rightarrow> chunk list" where
  "split chars t cfg0 =
     (if t = [] then []
      else let cfg = ensure_defaults chars cfg0 in
        case resolve_chain t cfg of (chain, profile) \<Rightarrow> try_tiers t cfg profile chain)"

record diagnostics =
  dg_selected :: strategy_tier
  dg_chain :: "strategy_tier list"
  dg_rejected :: "(strategy_tier \<times> reject_reason) list"
  dg_profile :: "doc_profile option"

fun try_tiers_diag ::
    "rtext \<Rightarrow> splitter_config \<Rightarrow> doc_profile option \<Rightarrow> strategy_tier list \<Rightarrow> diagnostics \<Rightarrow> chunk list \<times> diagnostics" where
  "try_tiers_diag t cfg profile [] diag = (split_text t cfg, diag)"
| "try_tiers_diag t cfg profile (tier # rest) diag =
     (let out = run_tier tier t cfg profile in
      case validate_chunks out (length t) (sc_size cfg) of
        None \<Rightarrow> (out, diag\<lparr>dg_selected := tier\<rparr>)
      | Some r \<Rightarrow>
          (let diag' = diag\<lparr>dg_rejected := dg_rejected diag @ [(tier, r)]\<rparr>
           in if tier = TierLegacy \<and> rest = [] \<and> out \<noteq> [] then (out, diag'\<lparr>dg_selected := tier\<rparr>)
              else try_tiers_diag t cfg profile rest diag'))"

definition split_with_diagnostics ::
    "(int \<Rightarrow> string \<Rightarrow> int) \<Rightarrow> rtext \<Rightarrow> splitter_config \<Rightarrow> chunk list \<times> diagnostics" where
  "split_with_diagnostics chars t cfg0 =
     (let diag = \<lparr>dg_selected = TierLegacy, dg_chain = [], dg_rejected = [], dg_profile = None\<rparr> in
      if t = [] then ([], diag)
      else let cfg = ensure_defaults chars cfg0 in
        case resolve_chain t cfg of (chain, profile) \<Rightarrow>
          try_tiers_diag t cfg profile chain (diag\<lparr>dg_chain := chain, dg_profile := profile\<rparr>))"

definition with_parent_context :: "chunk \<Rightarrow> chunk \<Rightarrow> chunk" where
  "with_parent_context parent sub = sub\<lparr>ch_context := merge_breadcrumbs (ch_context parent) (ch_context sub)\<rparr>"

definition split_parent_child ::
    "(int \<Rightarrow> string \<Rightarrow> int) \<Rightarrow> rtext \<Rightarrow> splitter_config \<Rightarrow> splitter_config \<Rightarrow> parent_child" where
  "split_parent_child chars t parent_cfg0 child_cfg0 =
     (let parent_cfg = ensure_defaults chars parent_cfg0; child_cfg = ensure_defaults chars child_cfg0
      in foldl (add_parent (\<lambda>p. split chars (ch_content p) child_cfg) with_parent_context)
           \<lparr>pc_parents = [], pc_children = []\<rparr> (split chars t parent_cfg))"

section \<open>Properties\<close>

definition token_language :: "splitter_config \<Rightarrow> string" where
  "token_language cfg = (if sc_languages cfg \<noteq> [] then hd (sc_languages cfg) else lang_mixed)"

text \<open>The stages of the defaults, one field at a time.\<close>

lemma default_stage [simp]:
  "0 < sc_size (default_chunk_size_and_overlap cfg)" "0 \<le> sc_overlap (default_chunk_size_and_overlap cfg)"
  "sc_token_limit (default_chunk_size_and_overlap cfg) = sc_token_limit cfg"
  "sc_languages (default_chunk_size_and_overlap cfg) = sc_languages cfg"
  "0 < sc_size cfg \<Longrightarrow> 0 \<le> sc_overlap cfg \<Longrightarrow> default_chunk_size_and_overlap cfg = cfg"
  by (simp_all add: default_chunk_size_and_overlap_def Let_def default_chunk_size_def default_chunk_overlap_def)

lemma separator_stage [simp]:
  "sc_size (fill_separators cfg) = sc_size cfg" "sc_overlap (fill_separators cfg) = sc_overlap cfg"
  "sc_token_limit (fill_separators cfg) = sc_token_limit cfg" "sc_languages (fill_separators cfg) = sc_languages cfg"
  "sc_separators (fill_separators cfg) \<noteq> []" "sc_separators cfg \<noteq> [] \<Longrightarrow> fill_separators cfg = cfg"
  by (simp_all add: fill_separators_def default_separators_def)

lemma clamp_unfold:
  "clamp_to_tokens chars cfg =
     (let budget = chars (sc_token_limit cfg) (token_language cfg)
      in if 0 < sc_token_limit cfg \<and> 0 < budget \<and> (sc_size cfg = 0 \<or> budget < sc_size cfg) then cfg\<lparr>sc_size := budget\<rparr> else cfg)"
  by (auto simp: clamp_to_tokens_def token_language_def Let_def)

lemma clamp_stage [simp]:
  "0 < sc_size cfg \<Longrightarrow> 0 < sc_size (clamp_to_tokens chars cfg)" "sc_overlap (clamp_to_tokens chars cfg) = sc_overlap cfg"
  "sc_separators (clamp_to_tokens chars cfg) = sc_separators cfg" "sc_token_limit (clamp_to_tokens chars cfg) = sc_token_limit cfg"
  "sc_languages (clamp_to_tokens chars cfg) = sc_languages cfg"
  by (simp_all add: clamp_unfold Let_def)

lemma clamp_size:
  "0 < sc_token_limit cfg \<Longrightarrow> 0 < chars (sc_token_limit cfg) (token_language cfg) \<Longrightarrow>
   sc_size (clamp_to_tokens chars cfg) \<le> chars (sc_token_limit cfg) (token_language cfg)"
  by (simp add: clamp_unfold Let_def)

lemma clamp_id:
  "0 < sc_size cfg \<Longrightarrow> sc_token_limit cfg \<le> 0 \<or> chars (sc_token_limit cfg) (token_language cfg) \<le> 0
     \<or> sc_size cfg \<le> chars (sc_token_limit cfg) (token_language cfg) \<Longrightarrow> clamp_to_tokens chars cfg = cfg"
  by (auto simp: clamp_unfold Let_def)

lemma cap_stage [simp]:
  "sc_size (cap_overlap cfg) = sc_size cfg" "sc_separators (cap_overlap cfg) = sc_separators cfg"
  "sc_token_limit (cap_overlap cfg) = sc_token_limit cfg" "sc_languages (cap_overlap cfg) = sc_languages cfg"
  by (simp_all add: cap_overlap_def)

lemma cap_range: "0 < sc_size cfg \<Longrightarrow> 0 \<le> sc_overlap cfg \<Longrightarrow> 0 \<le> sc_overlap (cap_overlap cfg) \<and> sc_overlap (cap_overlap cfg) \<le> sc_size cfg div 2"
  by (auto simp: cap_overlap_def go_div_nonneg)

lemma cap_id: "0 < sc_size cfg \<Longrightarrow> sc_overlap cfg \<le> sc_size cfg div 2 \<Longrightarrow> cap_overlap cfg = cfg"
  by (simp add: cap_overlap_def go_div_nonneg)

lemma ensure_defaults_size: "0 < sc_size (ensure_defaults chars cfg)"
  by (simp add: ensure_defaults_def)

lemma ensure_defaults_overlap:
  "0 \<le> sc_overlap (ensure_defaults chars cfg) \<and> sc_overlap (ensure_defaults chars cfg) \<le> sc_size (ensure_defaults chars cfg) div 2"
  unfolding ensure_defaults_def cap_stage by (rule cap_range) simp_all

lemma ensure_defaults_keeps:
  "sc_separators (ensure_defaults chars cfg) \<noteq> []" "sc_token_limit (ensure_defaults chars cfg) = sc_token_limit cfg"
  "token_language (ensure_defaults chars cfg) = token_language cfg"
  by (simp_all add: ensure_defaults_def token_language_def)

lemma ensure_defaults_tokens:
  assumes "0 < sc_token_limit cfg" "0 < chars (sc_token_limit cfg) (token_language cfg)"
  shows "sc_size (ensure_defaults chars cfg) \<le> chars (sc_token_limit cfg) (token_language cfg)"
proof -
  have "token_language (fill_separators (default_chunk_size_and_overlap cfg)) = token_language cfg"
    by (simp add: token_language_def)
  then show ?thesis using clamp_size [of "fill_separators (default_chunk_size_and_overlap cfg)" chars] assms
    by (simp add: ensure_defaults_def)
qed

lemma ensure_defaults_idem: "ensure_defaults chars (ensure_defaults chars cfg) = ensure_defaults chars cfg"
proof -
  let ?e = "ensure_defaults chars cfg"
  have "clamp_to_tokens chars ?e = ?e"
    using ensure_defaults_tokens [of cfg chars] ensure_defaults_size [of chars cfg]
    by (intro clamp_id) (simp_all add: ensure_defaults_keeps, linarith)
  moreover have "cap_overlap ?e = ?e"
    using ensure_defaults_overlap [of chars cfg] ensure_defaults_size [of chars cfg] by (intro cap_id) simp_all
  ultimately show ?thesis
    using ensure_defaults_keeps(1) [of chars cfg] ensure_defaults_overlap [of chars cfg] ensure_defaults_size [of chars cfg]
    by (subst ensure_defaults_def) simp
qed

text \<open>
  Any configuration becomes a usable one: after the defaults the chunk size is positive, the
  overlap is between zero and half of it, there are separators, a token limit is respected when
  the scaling gives it a positive number of characters, and settling the defaults again changes
  nothing.
\<close>

theorem defaults_in_range:
  "0 < sc_size (ensure_defaults chars cfg) \<and> 0 \<le> sc_overlap (ensure_defaults chars cfg)
   \<and> sc_overlap (ensure_defaults chars cfg) \<le> sc_size (ensure_defaults chars cfg) div 2
   \<and> sc_separators (ensure_defaults chars cfg) \<noteq> []
   \<and> (sc_token_limit cfg \<le> 0 \<or> chars (sc_token_limit cfg) (token_language cfg) \<le> 0
      \<or> sc_size (ensure_defaults chars cfg) \<le> chars (sc_token_limit cfg) (token_language cfg))
   \<and> ensure_defaults chars (ensure_defaults chars cfg) = ensure_defaults chars cfg"
  using ensure_defaults_size [of chars cfg] ensure_defaults_overlap [of chars cfg] ensure_defaults_keeps(1) [of chars cfg]
    ensure_defaults_tokens [of cfg chars] ensure_defaults_idem [of chars cfg]
  by linarith

lemma split_text_nonempty:
  assumes "t \<noteq> []" "0 < sc_size cfg" "sc_size cfg \<le> int max_unit_size"
  shows "split_text t cfg \<noteq> []"
proof
  assume none: "split_text t cfg = []"
  have "rebuild (split_text t cfg) = t" using chunks_cover_lemma [OF assms(2,3) refl] by blast
  then show False using assms(1) by (simp add: none rebuild_def)
qed

lemma try_tiers_diag_eq: "fst (try_tiers_diag t cfg profile chain diag) = try_tiers t cfg profile chain"
  by (induction chain arbitrary: diag) (auto simp: Let_def split: option.splits)

lemma chain_ends_legacy: "\<exists>pre. fst (resolve_chain t cfg) = pre @ [TierLegacy] \<and> TierLegacy \<notin> set pre"
  by (auto simp: resolve_chain_def Let_def select_strategy_def)

text \<open>What the loop returns on a chain that ends in the legacy tier.\<close>

lemma try_tiers_cases:
  "split_text t cfg \<noteq> [] \<Longrightarrow>
   (\<exists>as tier bs. pre @ [TierLegacy] = as @ tier # bs
      \<and> (\<forall>x \<in> set as. validate_chunks (run_tier x t cfg profile) (length t) (sc_size cfg) \<noteq> None)
      \<and> (validate_chunks (run_tier tier t cfg profile) (length t) (sc_size cfg) = None \<or> (tier = TierLegacy \<and> bs = []))
      \<and> try_tiers t cfg profile (pre @ [TierLegacy]) = run_tier tier t cfg profile
      \<and> dg_selected (snd (try_tiers_diag t cfg profile (pre @ [TierLegacy]) diag)) = tier
      \<and> map fst (dg_rejected (snd (try_tiers_diag t cfg profile (pre @ [TierLegacy]) diag))) = map fst (dg_rejected diag) @ as
          @ (if validate_chunks (run_tier tier t cfg profile) (length t) (sc_size cfg) = None then [] else [tier]))"
proof (induction pre arbitrary: diag)
  case Nil
  then show ?case
    by (intro exI [of _ "[]"] exI [of _ TierLegacy]) (auto simp: run_tier_def Let_def split: option.splits)
next
  case (Cons x pre)
  show ?case
  proof (cases "validate_chunks (run_tier x t cfg profile) (length t) (sc_size cfg)")
    case None
    then show ?thesis by (intro exI [of _ "[]"] exI [of _ x] exI [of _ "pre @ [TierLegacy]"]) (simp add: Let_def)
  next
    case (Some r)
    let ?d = "diag\<lparr>dg_rejected := dg_rejected diag @ [(x, r)]\<rparr>"
    have step: "try_tiers t cfg profile ((x # pre) @ [TierLegacy]) = try_tiers t cfg profile (pre @ [TierLegacy])"
      "try_tiers_diag t cfg profile ((x # pre) @ [TierLegacy]) diag = try_tiers_diag t cfg profile (pre @ [TierLegacy]) ?d"
      using Some by (simp_all add: Let_def)
    obtain as tier bs where IH: "pre @ [TierLegacy] = as @ tier # bs"
      "\<forall>x \<in> set as. validate_chunks (run_tier x t cfg profile) (length t) (sc_size cfg) \<noteq> None"
      "validate_chunks (run_tier tier t cfg profile) (length t) (sc_size cfg) = None \<or> (tier = TierLegacy \<and> bs = [])"
      "try_tiers t cfg profile (pre @ [TierLegacy]) = run_tier tier t cfg profile"
      "dg_selected (snd (try_tiers_diag t cfg profile (pre @ [TierLegacy]) ?d)) = tier"
      "map fst (dg_rejected (snd (try_tiers_diag t cfg profile (pre @ [TierLegacy]) ?d))) = map fst (dg_rejected ?d) @ as
          @ (if validate_chunks (run_tier tier t cfg profile) (length t) (sc_size cfg) = None then [] else [tier])"
      using Cons.IH [OF Cons.prems, of ?d] by blast
    show ?thesis
      by (rule exI [of _ "x # as"], rule exI [of _ tier], rule exI [of _ bs]) (unfold step, use IH Some in auto)
  qed
qed

text \<open>
  C38. A rejected tier never costs the document: for a text that is not empty the chain of tiers
  ends in the legacy splitter, all tiers before the selected one were rejected by the validator
  and are reported as rejected in order, the selected one validates or is the legacy tier, the
  chunks are those of the selected tier, \<open>Split\<close> and \<open>SplitWithDiagnostics\<close> return the same chunks,
  and there is at least one.
\<close>

theorem tiers_fall_back:
  assumes "t \<noteq> []" "cfg = ensure_defaults chars cfg0" "sc_size cfg \<le> int max_unit_size"
    and "resolve_chain t cfg = (chain, profile)" "split_with_diagnostics chars t cfg0 = (out, diag)"
  shows "split chars t cfg0 = out \<and> out \<noteq> [] \<and> dg_chain diag = chain \<and> last chain = TierLegacy
    \<and> (\<exists>as bs. chain = as @ dg_selected diag # bs \<and> out = run_tier (dg_selected diag) t cfg profile
        \<and> (\<forall>x \<in> set as. validate_chunks (run_tier x t cfg profile) (length t) (sc_size cfg) \<noteq> None)
        \<and> (validate_chunks out (length t) (sc_size cfg) = None \<or> dg_selected diag = TierLegacy)
        \<and> map fst (dg_rejected diag) = as @ (if validate_chunks out (length t) (sc_size cfg) = None then [] else [dg_selected diag]))"
proof -
  obtain pre where pre: "chain = pre @ [TierLegacy]" using chain_ends_legacy [of t cfg] assms(4) by auto
  have size: "0 < sc_size cfg" unfolding assms(2) by (rule ensure_defaults_size)
  have ne: "split_text t cfg \<noteq> []" by (rule split_text_nonempty [OF assms(1) size assms(3)])
  define d0 where "d0 = \<lparr>dg_selected = TierLegacy, dg_chain = chain, dg_rejected = [], dg_profile = profile\<rparr>"
  have diag: "try_tiers_diag t cfg profile (pre @ [TierLegacy]) d0 = (out, diag)"
    using assms by (simp add: split_with_diagnostics_def Let_def d0_def pre)
  have chain_kept: "dg_chain (snd (try_tiers_diag t cfg profile c d)) = dg_chain d" for c d
    by (induction c arbitrary: d) (auto simp: Let_def split: option.splits)
  have sp: "split chars t cfg0 = try_tiers t cfg profile (pre @ [TierLegacy])"
    using assms(1,2,4) by (simp add: split_def Let_def pre)
  then have eq: "split chars t cfg0 = out" using try_tiers_diag_eq [of t cfg profile "pre @ [TierLegacy]" d0] diag by simp
  have rej: "map fst (dg_rejected d0) = []" by (simp add: d0_def)
  obtain as tier bs where c: "pre @ [TierLegacy] = as @ tier # bs"
      "\<forall>x \<in> set as. validate_chunks (run_tier x t cfg profile) (length t) (sc_size cfg) \<noteq> None"
      "validate_chunks (run_tier tier t cfg profile) (length t) (sc_size cfg) = None \<or> (tier = TierLegacy \<and> bs = [])"
      "try_tiers t cfg profile (pre @ [TierLegacy]) = run_tier tier t cfg profile" "dg_selected diag = tier"
      "map fst (dg_rejected diag) = as @ (if validate_chunks (run_tier tier t cfg profile) (length t) (sc_size cfg) = None then [] else [tier])"
    using try_tiers_cases [OF ne, of pre profile d0] unfolding diag snd_conv rej append_Nil by blast
  have out: "out = run_tier tier t cfg profile" using eq sp c(4) by simp
  have "out \<noteq> []"
    using c(3) ne unfolding out by (auto simp: validate_chunks_def run_tier_def)
  moreover have "dg_chain diag = chain" using chain_kept [of "pre @ [TierLegacy]" d0] diag by (simp add: d0_def)
  moreover have "last chain = TierLegacy" using pre by simp
  moreover have "chain = as @ dg_selected diag # bs" using pre c(1,5) by simp
  moreover have "out = run_tier (dg_selected diag) t cfg profile" using out c(5) by simp
  moreover have "validate_chunks out (length t) (sc_size cfg) = None \<or> dg_selected diag = TierLegacy"
    using c(3,5) unfolding out by blast
  moreover have "map fst (dg_rejected diag)
      = as @ (if validate_chunks out (length t) (sc_size cfg) = None then [] else [dg_selected diag])"
    using c(5,6) unfolding out by simp
  ultimately show ?thesis using eq c(2) by blast
qed

lemma tiers_fall_back_witness:
  "split (\<lambda>n l. n) (lit ''ab'') default_config = fst (split_with_diagnostics (\<lambda>n l. n) (lit ''ab'') default_config)
   \<and> split (\<lambda>n l. n) (lit ''ab'') default_config \<noteq> []"
proof -
  obtain out diag where o: "split_with_diagnostics (\<lambda>n l. n) (lit ''ab'') default_config = (out, diag)" by force
  obtain chain profile where c: "resolve_chain (lit ''ab'') (ensure_defaults (\<lambda>n l. n) default_config) = (chain, profile)" by force
  have "sc_size (ensure_defaults (\<lambda>n l. n) default_config) \<le> int max_unit_size" by code_simp
  then show ?thesis using tiers_fall_back [OF _ refl _ c o] o by (simp add: lit_def)
qed

lemma run_tier_good:
  assumes "0 < sc_size cfg" "sc_size cfg \<le> int max_unit_size"
  shows "good_split (\<lambda>r. \<not> is_space r) t (run_tier tier t cfg profile)"
  using good_split_words [OF headings_good [OF assms]] heuristics_good [OF assms] good_split_words [OF split_text_good [OF assms]]
  by (cases tier) (simp_all add: run_tier_def)

lemma try_tiers_good:
  assumes "0 < sc_size cfg" "sc_size cfg \<le> int max_unit_size"
  shows "good_split (\<lambda>r. \<not> is_space r) t (try_tiers t cfg profile chain)"
  by (induction chain) (use run_tier_good [OF assms] good_split_words [OF split_text_good [OF assms]] in
      \<open>auto simp: Let_def split: option.splits\<close>)

lemma split_good:
  assumes "sc_size (ensure_defaults chars cfg) \<le> int max_unit_size"
  shows "good_split (\<lambda>r. \<not> is_space r) t (split chars t cfg)"
  using try_tiers_good [OF ensure_defaults_size assms]
  by (cases "resolve_chain t (ensure_defaults chars cfg)")
    (simp add: split_def Let_def good_split_def runes_in_def)

text \<open>
  C39. Whatever tier is chosen, chunking loses no word: for chunk sizes of at most 7500 runes
  every chunk of \<open>Split\<close> holds, possibly behind generated header text, exactly the runes of the
  document between its positions, and every rune that is not white space lies in some chunk; and
  the same holds for the children of the two-level split, whose numbers are dense and whose
  positions lie inside the parent they name.
\<close>

theorem chunking_keeps_every_word:
  assumes "sc_size (ensure_defaults chars cfg) \<le> int max_unit_size"
    and "sc_size (ensure_defaults chars child_cfg) \<le> int max_unit_size"
    and "res = split_parent_child chars t cfg child_cfg"
  shows "(\<forall>c \<in> set (split chars t cfg). sourced t c) \<and> runes_in (\<lambda>r. \<not> is_space r) t (split chars t cfg)
    \<and> (\<forall>i < length (pc_children res). child_ok t res i)
    \<and> runes_in (\<lambda>r. \<not> is_space r) t (map cc_chunk (pc_children res))"
proof -
  have p: "good_split (\<lambda>r. \<not> is_space r) t (split chars t (ensure_defaults chars cfg))"
    by (rule split_good) (simp add: ensure_defaults_idem assms(1))
  have c: "good_split (\<lambda>r. \<not> is_space r) u (split chars u (ensure_defaults chars child_cfg))" for u
    by (rule split_good) (simp add: ensure_defaults_idem assms(2))
  have "(\<forall>i < length (pc_children res). child_ok t res i) \<and> runes_in (\<lambda>r. \<not> is_space r) t (map cc_chunk (pc_children res))"
    unfolding assms(3) split_parent_child_def Let_def
  proof (rule parents_and_children)
    show "\<forall>p \<in> set (split chars t (ensure_defaults chars cfg)). sourced t p
        \<and> good_split (\<lambda>r. \<not> is_space r) (ch_content p) (split chars (ch_content p) (ensure_defaults chars child_cfg))"
      using p c unfolding good_split_def by blast
    show "runes_in (\<lambda>r. \<not> is_space r) t (split chars t (ensure_defaults chars cfg))"
      using p unfolding good_split_def by blast
    show "\<exists>x. with_parent_context q d = d\<lparr>ch_context := x\<rparr>" for q d
      unfolding with_parent_context_def by blast
  qed
  then show ?thesis using split_good [OF assms(1)] by (simp add: good_split_def)
qed

lemma chunking_keeps_every_word_witness:
  "runes_in (\<lambda>r. \<not> is_space r) (lit ''one two'') (split (\<lambda>n l. n) (lit ''one two'') default_config)
   \<and> runes_in (\<lambda>r. \<not> is_space r) (lit ''one two'')
       (map cc_chunk (pc_children (split_parent_child (\<lambda>n l. n) (lit ''one two'') default_config default_config)))"
proof -
  have "sc_size (ensure_defaults (\<lambda>n l. n) default_config) \<le> int max_unit_size" by code_simp
  then show ?thesis using chunking_keeps_every_word [OF _ _ refl, of "\<lambda>n l. n"] by blast
qed

end
