(* ===== verification/JsonField.thy ===== *)
theory JsonField
  imports GoStrings
begin

text \<open>
  Reading one string field out of tool arguments while the model still streams them
  (models/api/json_field_extractor.go). Fragments are byte strings and may end anywhere, also
  inside an escape sequence or a rune.
\<close>

section \<open>Escapes\<close>

abbreviation backslash :: char where "backslash \<equiv> CHR 0x5C"
abbreviation dquote :: char where "dquote \<equiv> CHR 0x22"
abbreviation letter_u :: char where "letter_u \<equiv> CHR ''u''"

definition hex_value :: "nat \<Rightarrow> nat" where
  "hex_value h = (if 48 \<le> h \<and> h \<le> 57 then h - 48 else if 97 \<le> h \<and> h \<le> 102 then h - 97 + 10
     else if 65 \<le> h \<and> h \<le> 70 then h - 65 + 10 else 0)"

definition unicode_escape :: "string \<Rightarrow> nat" where
  "unicode_escape hex = foldl (\<lambda>cp h. cp * 16 + hex_value h) 0 (runes hex)"

definition is_high_surrogate :: "nat \<Rightarrow> bool" where
  "is_high_surrogate r \<longleftrightarrow> 0xD800 \<le> r \<and> r \<le> 0xDBFF"

definition is_low_surrogate :: "nat \<Rightarrow> bool" where
  "is_low_surrogate r \<longleftrightarrow> 0xDC00 \<le> r \<and> r \<le> 0xDFFF"

definition decode_surrogates :: "nat \<Rightarrow> nat \<Rightarrow> nat" where
  "decode_surrogates high low = (high - 0xD800) * 1024 + (low - 0xDC00) + 0x10000"

definition simple_escape :: "char \<Rightarrow> char option" where
  "simple_escape c =
     (if c = dquote then Some dquote else if c = backslash then Some backslash else if c = CHR ''/'' then Some (CHR ''/'')
      else if c = CHR ''n'' then Some (CHR 10) else if c = CHR ''r'' then Some (CHR 13)
      else if c = CHR ''t'' then Some (CHR 9) else if c = CHR ''b'' then Some (CHR 8)
      else if c = CHR ''f'' then Some (CHR 12) else None)"

function unescape_loop :: "string \<Rightarrow> string" where
  "unescape_loop s = (case s of [] \<Rightarrow> [] | c # r \<Rightarrow>
     if c = backslash \<and> r \<noteq> [] then
       (case simple_escape (hd r) of
          Some d \<Rightarrow> d # unescape_loop (drop 2 s)
        | None \<Rightarrow>
            if hd r = letter_u then
              if 5 < length s then
                (let cp = unicode_escape (take 4 (drop 2 s)) in
                 if is_high_surrogate cp \<and> 11 < length s \<and> take 2 (drop 6 s) = [backslash, letter_u]
                     \<and> is_low_surrogate (unicode_escape (take 4 (drop 8 s)))
                 then encode_rune (decode_surrogates cp (unicode_escape (take 4 (drop 8 s)))) @ unescape_loop (drop 12 s)
                 else encode_rune cp @ unescape_loop (drop 6 s))
              else c # unescape_loop r
            else c # unescape_loop r)
     else c # unescape_loop r)"
  by pat_completeness auto
termination by (relation "measure length") auto

declare unescape_loop.simps [simp del]

definition unescape_json_string :: "string \<Rightarrow> string" where
  "unescape_json_string s = (if backslash \<notin> set s then s else unescape_loop s)"

section \<open>Finding the value\<close>

definition json_space :: "char \<Rightarrow> bool" where
  "json_space c \<longleftrightarrow> c = CHR 32 \<or> c = CHR 9 \<or> c = CHR 10 \<or> c = CHR 13"

definition skip_spaces :: "string \<Rightarrow> nat \<Rightarrow> nat" where
  "skip_spaces buf pos = pos + length (takeWhile json_space (drop pos buf))"

definition field_key :: "string \<Rightarrow> string" where
  "field_key name = [dquote] @ name @ [dquote]"

function find_from :: "string \<Rightarrow> string \<Rightarrow> nat \<Rightarrow> nat option" where
  "find_from buf name offset =
     (if length buf \<le> offset then None
      else case str_index (field_key name) (drop offset buf) of
          None \<Rightarrow> None
        | Some idx \<Rightarrow>
            (let after = offset + idx + length (field_key name); pos = skip_spaces buf after in
             if length buf \<le> pos then None
             else if buf ! pos \<noteq> CHR '':'' then find_from buf name after
             else let pos2 = skip_spaces buf (pos + 1) in
               if length buf \<le> pos2 then None
               else if buf ! pos2 = dquote then Some (pos2 + 1)
               else find_from buf name after))"
  by pat_completeness auto
termination by (relation "measure (\<lambda>(buf, name, offset). length buf - offset)") (auto simp: field_key_def)

declare find_from.simps [simp del]

definition find_field_value_start :: "string \<Rightarrow> string \<Rightarrow> nat option" where
  "find_field_value_start buf name = find_from buf name 0"

section \<open>How far a fragment can be emitted\<close>

function find_safe_end :: "string \<Rightarrow> nat \<Rightarrow> nat \<times> bool" where
  "find_safe_end v i =
     (if length v \<le> i then (i, False)
      else if v ! i = backslash then
        if length v \<le> i + 1 then (i, False)
        else if v ! (i + 1) = letter_u then
          if length v \<le> i + 5 then (i, False)
          else if is_high_surrogate (unicode_escape (take 4 (drop (i + 2) v))) then
            (let rest = drop (i + 6) v in
             if rest = [] \<or> rest = [backslash] \<or> (has_prefix rest [backslash, letter_u] \<and> length rest < 6) then (i, False)
             else if 6 \<le> length rest \<and> has_prefix rest [backslash, letter_u]
                 \<and> is_low_surrogate (unicode_escape (take 4 (drop 2 rest)))
               then find_safe_end v (i + 12)
             else find_safe_end v (i + 6))
          else find_safe_end v (i + 6)
        else find_safe_end v (i + 2)
      else if v ! i = dquote then (i, True)
      else find_safe_end v (i + (let w = snd (decode_rune (drop i v)) in if w = 0 then 1 else w)))"
  by pat_completeness auto
termination by (relation "measure (\<lambda>(v, i). length v - i)") (auto simp: Let_def)

declare find_safe_end.simps [simp del]

section \<open>The extractor\<close>

record json_extractor =
  je_field :: string
  je_buffer :: string
  je_value_start :: "nat option"
  je_last_emit :: nat
  je_done :: bool

definition new_json_field_extractor :: "string \<Rightarrow> json_extractor" where
  "new_json_field_extractor name =
     \<lparr>je_field = name, je_buffer = [], je_value_start = None, je_last_emit = 0, je_done = False\<rparr>"

definition emit_value :: "nat \<Rightarrow> json_extractor \<Rightarrow> string \<times> json_extractor" where
  "emit_value start e =
     (let content = drop start (je_buffer e);
          (safe_end, finished) = find_safe_end content (je_last_emit e);
          e1 = e\<lparr>je_done := je_done e \<or> finished\<rparr>
      in if safe_end \<le> je_last_emit e then ([], e1)
         else (unescape_json_string (drop (je_last_emit e) (take safe_end content)), e1\<lparr>je_last_emit := safe_end\<rparr>))"

definition feed :: "string \<Rightarrow> json_extractor \<Rightarrow> string \<times> json_extractor" where
  "feed delta e =
     (if je_done e then ([], e)
      else let e1 = e\<lparr>je_buffer := je_buffer e @ delta\<rparr> in
        case je_value_start e1 of
          Some start \<Rightarrow> emit_value start e1
        | None \<Rightarrow> (case find_field_value_start (je_buffer e1) (je_field e1) of
            None \<Rightarrow> ([], e1)
          | Some start \<Rightarrow> emit_value start (e1\<lparr>je_value_start := Some start, je_last_emit := 0\<rparr>)))"

fun feed_all :: "string list \<Rightarrow> json_extractor \<Rightarrow> string \<times> json_extractor" where
  "feed_all [] e = ([], e)"
| "feed_all (d # ds) e =
     (case feed d e of (out, e1) \<Rightarrow> case feed_all ds e1 of (outs, e2) \<Rightarrow> (out @ outs, e2))"

definition extract_field :: "string \<Rightarrow> string list \<Rightarrow> string \<times> bool" where
  "extract_field name ds = (case feed_all ds (new_json_field_extractor name) of (out, e) \<Rightarrow> (out, je_done e))"

section \<open>One step of the value\<close>

text \<open>What stands at the head of a value: nothing complete yet, the closing quote, or one character.\<close>

datatype json_step = Hold | Close | Emit nat string

definition low_follows :: "string \<Rightarrow> bool" where
  "low_follows rest \<longleftrightarrow> 6 \<le> length rest \<and> has_prefix rest [backslash, letter_u]
     \<and> is_low_surrogate (unicode_escape (take 4 (drop 2 rest)))"

definition pair_open :: "string \<Rightarrow> bool" where
  "pair_open rest \<longleftrightarrow> rest = [] \<or> rest = [backslash] \<or> (has_prefix rest [backslash, letter_u] \<and> length rest < 6)"

definition unicode_step :: "string \<Rightarrow> json_step" where
  "unicode_step v =
     (let cp = unicode_escape (take 4 (drop 2 v)); rest = drop 6 v in
      if length v \<le> 5 then Hold
      else if is_high_surrogate cp then
        if pair_open rest then Hold
        else if low_follows rest
          then Emit 12 (encode_rune (decode_surrogates cp (unicode_escape (take 4 (drop 8 v)))))
        else Emit 6 (encode_rune cp)
      else Emit 6 (encode_rune cp))"

definition next_step :: "string \<Rightarrow> json_step" where
  "next_step v = (case v of [] \<Rightarrow> Hold | c # r \<Rightarrow>
     if c = backslash then
       (case r of [] \<Rightarrow> Hold | d # t \<Rightarrow>
          if d = letter_u then unicode_step v
          else Emit 2 (case simple_escape d of Some e \<Rightarrow> [e] | None \<Rightarrow> [backslash, d]))
     else if c = dquote then Close else Emit 1 [c])"

lemma low_follows_length: "low_follows rest \<Longrightarrow> 6 \<le> length rest"
  by (simp add: low_follows_def)

lemma unicode_step_emit: "unicode_step v = Emit k out \<Longrightarrow> 0 < k \<and> k \<le> length v"
  using low_follows_length [of "drop 6 v"] by (auto simp: unicode_step_def Let_def split: if_splits)

lemma next_step_emit: "next_step v = Emit k out \<Longrightarrow> 0 < k \<and> k \<le> length v"
  by (auto simp: next_step_def dest: unicode_step_emit split: list.splits if_splits)

lemma pair_settled: "\<not> pair_open rest \<Longrightarrow> \<not> pair_open (rest @ x) \<and> low_follows (rest @ x) = low_follows rest"
proof -
  assume open_pair: "\<not> pair_open rest"
  show ?thesis
  proof (cases "has_prefix rest [backslash, letter_u]")
    case True
    then have "6 \<le> length rest" using open_pair by (simp add: pair_open_def)
    moreover from this have "rest @ x \<noteq> [backslash]" by (cases rest) auto
    ultimately show ?thesis using True by (auto simp: pair_open_def low_follows_def has_prefix_def)
  next
    case False
    have "rest \<noteq> []" "rest \<noteq> [backslash]" using open_pair by (simp_all add: pair_open_def)
    then consider a where "rest = [a]" "a \<noteq> backslash" | a b t where "rest = a # b # t"
      by (metis neq_Nil_conv)
    then have "\<not> has_prefix (rest @ x) [backslash, letter_u]"
      by cases (use False in \<open>auto simp: has_prefix_def\<close>)
    moreover have "rest @ x \<noteq> [backslash]" using \<open>rest \<noteq> []\<close> \<open>rest \<noteq> [backslash]\<close> by (cases rest) auto
    ultimately show ?thesis using False \<open>rest \<noteq> []\<close> by (auto simp: pair_open_def low_follows_def)
  qed
qed

lemma unicode_step_append: "unicode_step v = Emit k out \<Longrightarrow> unicode_step (v @ x) = Emit k out"
proof -
  assume e: "unicode_step v = Emit k out"
  then have len: "6 \<le> length v" by (simp add: unicode_step_def Let_def split: if_splits)
  show ?thesis
  proof (cases "is_high_surrogate (unicode_escape (take 4 (drop 2 v)))")
    case True
    then have po: "\<not> pair_open (drop 6 v)" using e by (auto simp: unicode_step_def Let_def split: if_splits)
    show ?thesis
    proof (cases "low_follows (drop 6 v)")
      case low: True
      then have "12 \<le> length v" using low_follows_length [OF low] by simp
      then show ?thesis using e True pair_settled [OF po, of x] po low by (simp add: unicode_step_def Let_def)
    qed (use e len True pair_settled [OF po, of x] po in \<open>simp add: unicode_step_def Let_def\<close>)
  qed (use e len in \<open>simp add: unicode_step_def Let_def\<close>)
qed

lemma next_step_append: "next_step v = Emit k out \<Longrightarrow> next_step (v @ x) = Emit k out"
proof -
  assume e: "next_step v = Emit k out"
  then obtain c r where v: "v = c # r" by (cases v) (auto simp: next_step_def)
  show ?thesis
  proof (cases r)
    case (Cons d t)
    then show ?thesis using e v unicode_step_append [of v k out x] by (simp add: next_step_def split: if_splits)
  qed (use e v in \<open>auto simp: next_step_def split: if_splits\<close>)
qed

lemma next_step_close: "next_step v = Close \<longleftrightarrow> (\<exists>r. v = dquote # r)"
  by (auto simp: next_step_def unicode_step_def Let_def split: list.splits if_splits)

text \<open>Running to the first point that cannot be settled: bytes consumed, text, closed or not.\<close>

function run_value :: "string \<Rightarrow> nat \<times> string \<times> bool" where
  "run_value v = (case next_step v of
       Hold \<Rightarrow> (0, [], False)
     | Close \<Rightarrow> (0, [], True)
     | Emit k out \<Rightarrow> (case run_value (drop k v) of (n, outs, closed) \<Rightarrow> (k + n, out @ outs, closed)))"
  by pat_completeness auto
termination by (relation "measure length") (auto dest: next_step_emit)

declare run_value.simps [simp del]

lemma run_value_le: "run_value v = (n, out, f) \<Longrightarrow> n \<le> length v"
proof (induction v arbitrary: n out f rule: run_value.induct)
  case (1 v)
  show ?case
  proof (cases "next_step v")
    case (Emit k o1)
    obtain m o2 g where r: "run_value (drop k v) = (m, o2, g)" by (metis prod_cases3)
    show ?thesis using "1.IH" [OF Emit r] "1.prems" next_step_emit [OF Emit] Emit r
      by (auto simp: run_value.simps [of v])
  qed (use "1.prems" in \<open>simp_all add: run_value.simps [of v]\<close>)
qed

text \<open>What was settled stays settled, and a run is taken up where it stopped.\<close>

lemma run_value_closed: "run_value v = (n, out, True) \<Longrightarrow> run_value (v @ x) = (n, out, True)"
proof (induction v arbitrary: n out rule: run_value.induct)
  case (1 v)
  show ?case
  proof (cases "next_step v")
    case Close
    then have "next_step (v @ x) = Close" by (auto simp: next_step_close)
    then show ?thesis using "1.prems" Close by (simp add: run_value.simps [of v] run_value.simps [of "v @ x"])
  next
    case (Emit k o1)
    obtain m o2 g where r: "run_value (drop k v) = (m, o2, g)" by (metis prod_cases3)
    then have p: "g" "n = k + m" "out = o1 @ o2" using "1.prems" Emit by (simp_all add: run_value.simps [of v])
    have "run_value (drop k v @ x) = (m, o2, True)" using "1.IH" [OF Emit] r p(1) by simp
    then show ?thesis using next_step_append [OF Emit, of x] next_step_emit [OF Emit] p
      by (simp add: run_value.simps [of "v @ x"])
  qed (use "1.prems" in \<open>simp_all add: run_value.simps [of v]\<close>)
qed

lemma run_value_resume:
  "run_value v = (n, out, False) \<Longrightarrow> run_value (drop n v @ x) = (m, out2, f) \<Longrightarrow>
   run_value (v @ x) = (n + m, out @ out2, f)"
proof (induction v arbitrary: n out rule: run_value.induct)
  case (1 v)
  show ?case
  proof (cases "next_step v")
    case (Emit k o1)
    obtain m1 o2 g where r: "run_value (drop k v) = (m1, o2, g)" by (metis prod_cases3)
    then have p: "\<not> g" "n = k + m1" "out = o1 @ o2" using "1.prems"(1) Emit by (simp_all add: run_value.simps [of v])
    have "run_value (drop m1 (drop k v) @ x) = (m, out2, f)" using "1.prems"(2) p(2) by (simp add: add.commute)
    then have "run_value (drop k v @ x) = (m1 + m, o2 @ out2, f)" using "1.IH" [OF Emit] r p(1) by simp
    then show ?thesis using next_step_append [OF Emit, of x] next_step_emit [OF Emit] p
      by (simp add: run_value.simps [of "v @ x"])
  qed (use "1.prems" in \<open>simp_all add: run_value.simps [of v]\<close>)
qed

section \<open>The code follows the steps\<close>

lemma decode_rune_tail: "j < snd (decode_rune s) \<Longrightarrow> 0 < j \<Longrightarrow> is_cont (s ! j)"
proof -
  assume j: "j < snd (decode_rune s)" "0 < j"
  then obtain c cs where s: "s = c # cs" by (cases s) auto
  have jn: "snd (decode_rune (c # cs)) \<noteq> 1" using j s by auto
  show ?thesis
    using decode_rune_classes [of "of_char c"]
  proof (elim disjE conjE)
    assume b: "\<not> (of_char c :: nat) < 0x80" "0xC2 \<le> (of_char c :: nat)" "(of_char c :: nat) < 0xE0"
    then obtain c1 t where "cs = c1 # t" "is_cont c1" "snd (decode_rune (c # cs)) = 2"
      using jn by (cases cs) (auto simp: decode_rune_cons Let_def simp del: decode_rune.simps split: if_splits)
    then show ?thesis using j s by (cases j) auto
  next
    assume b: "\<not> (of_char c :: nat) < 0x80" "\<not> (0xC2 \<le> (of_char c :: nat) \<and> (of_char c :: nat) < 0xE0)"
      "0xE0 \<le> (of_char c :: nat)" "(of_char c :: nat) < 0xF0"
    then have "snd (decode_rune (c # cs)) = snd (case cs of c1 # c2 # t \<Rightarrow> dec3 c c1 c2 | _ \<Rightarrow> (rune_error, 1))"
      by (simp add: decode_rune_cons Let_def del: decode_rune.simps)
    then obtain c1 c2 t where "cs = c1 # c2 # t" "snd (decode_rune (c # cs)) = snd (dec3 c c1 c2)"
      using jn by (auto split: list.splits)
    then have "cs = c1 # c2 # t" "is_cont c1" "is_cont c2" "snd (decode_rune (c # cs)) = 3"
      using jn by (auto simp: dec3_def Let_def split: if_splits)
    then show ?thesis using j s by (auto simp: nth_Cons' less_Suc_eq numeral_eq_Suc)
  next
    assume b: "\<not> (of_char c :: nat) < 0x80" "\<not> (0xC2 \<le> (of_char c :: nat) \<and> (of_char c :: nat) < 0xE0)"
      "\<not> (0xE0 \<le> (of_char c :: nat) \<and> (of_char c :: nat) < 0xF0)" "0xF0 \<le> (of_char c :: nat)" "(of_char c :: nat) < 0xF5"
    then have "snd (decode_rune (c # cs)) = snd (case cs of c1 # c2 # c3 # t \<Rightarrow> dec4 c c1 c2 c3 | _ \<Rightarrow> (rune_error, 1))"
      by (simp add: decode_rune_cons Let_def del: decode_rune.simps)
    then obtain c1 c2 c3 t where "cs = c1 # c2 # c3 # t" "snd (decode_rune (c # cs)) = snd (dec4 c c1 c2 c3)"
      using jn by (auto split: list.splits)
    then have "cs = c1 # c2 # c3 # t" "is_cont c1" "is_cont c2" "is_cont c3" "snd (decode_rune (c # cs)) = 4"
      using jn by (auto simp: dec4_def Let_def split: if_splits)
    then show ?thesis using j s by (auto simp: nth_Cons' less_Suc_eq numeral_eq_Suc)
  next
    assume "(of_char c :: nat) < 0x80"
    then show ?thesis using jn by (simp add: decode_rune_cons del: decode_rune.simps)
  next
    assume "\<not> (of_char c :: nat) < 0x80" "\<not> (0xC2 \<le> (of_char c :: nat) \<and> (of_char c :: nat) < 0xE0)"
      "\<not> (0xE0 \<le> (of_char c :: nat) \<and> (of_char c :: nat) < 0xF0)"
      "\<not> (0xF0 \<le> (of_char c :: nat) \<and> (of_char c :: nat) < 0xF5)"
    then have "decode_rune (c # cs) = (rune_error, 1)" by (simp only: decode_rune_cons Let_def if_False)
    then show ?thesis using jn by simp
  qed
qed

lemma decode_rune_cont: "is_cont c \<Longrightarrow> snd (decode_rune (c # s)) = 1"
  by (auto simp: is_cont_def Let_def)

lemma cont_plain: "is_cont c \<Longrightarrow> c \<noteq> backslash \<and> c \<noteq> dquote"
  by (auto simp: is_cont_def)

text \<open>A byte inside a rune is skipped alone as well, so runes never matter.\<close>

lemma safe_end_cont: "i < length v \<Longrightarrow> is_cont (v ! i) \<Longrightarrow> find_safe_end v i = find_safe_end v (i + 1)"
  using decode_rune_cont [of "v ! i" "drop (Suc i) v"] cont_plain [of "v ! i"]
  by (subst find_safe_end.simps) (simp add: Cons_nth_drop_Suc)

lemma safe_end_cont_run:
  "(\<And>j. i \<le> j \<Longrightarrow> j < i + n \<Longrightarrow> j < length v \<and> is_cont (v ! j)) \<Longrightarrow> find_safe_end v i = find_safe_end v (i + n)"
proof (induction n arbitrary: i)
  case (Suc n)
  have "find_safe_end v i = find_safe_end v (i + 1)" by (rule safe_end_cont) (use Suc.prems [of i] in simp_all)
  also have "\<dots> = find_safe_end v (i + 1 + n)" by (rule Suc.IH) (use Suc.prems in simp)
  finally show ?case by simp
qed simp

lemma safe_end_plain:
  assumes "i < length v" "v ! i \<noteq> backslash" "v ! i \<noteq> dquote"
  shows "find_safe_end v i = find_safe_end v (i + 1)"
proof -
  define w where "w = snd (decode_rune (drop i v))"
  have w: "0 < w" "w \<le> length v - i" using decode_rune_width [of "drop i v"] assms(1) by (simp_all add: w_def)
  have "find_safe_end v (i + 1) = find_safe_end v (i + 1 + (w - 1))"
  proof (rule safe_end_cont_run)
    fix j assume j: "i + 1 \<le> j" "j < i + 1 + (w - 1)"
    then have "is_cont (drop i v ! (j - i))" by (intro decode_rune_tail) (simp_all add: w_def)
    then show "j < length v \<and> is_cont (v ! j)" using j w by simp
  qed
  then show ?thesis using assms w by (simp add: find_safe_end.simps [of v i] w_def [symmetric])
qed

lemma drop_head: "i < length v \<Longrightarrow> drop i v = v ! i # drop (i + 1) v"
  by (simp add: Cons_nth_drop_Suc)

lemma safe_end_unicode:
  assumes "i + 1 < length v" "v ! i = backslash" "v ! (i + 1) = letter_u"
  shows "find_safe_end v i = (case unicode_step (drop i v) of
      Hold \<Rightarrow> (i, False) | Close \<Rightarrow> (i, True) | Emit k out \<Rightarrow> find_safe_end v (i + k))"
proof -
  let ?cp = "unicode_escape (take 4 (drop (i + 2) v))" and ?rest = "drop (i + 6) v"
  have short: "length (drop i v) \<le> 5 \<longleftrightarrow> length v \<le> i + 5" using assms(1) by auto
  have e: "find_safe_end v i =
     (if length v \<le> i + 5 then (i, False)
      else if is_high_surrogate ?cp
        then (if pair_open ?rest then (i, False) else find_safe_end v (if low_follows ?rest then i + 12 else i + 6))
      else find_safe_end v (i + 6))"
    using assms by (subst find_safe_end.simps) (simp add: pair_open_def low_follows_def Let_def)
  have u: "unicode_step (drop i v) =
     (if length v \<le> i + 5 then Hold
      else if is_high_surrogate ?cp
        then (if pair_open ?rest then Hold
          else if low_follows ?rest
            then Emit 12 (encode_rune (decode_surrogates ?cp (unicode_escape (take 4 (drop (i + 8) v)))))
          else Emit 6 (encode_rune ?cp))
      else Emit 6 (encode_rune ?cp))"
    unfolding unicode_step_def Let_def short by (simp add: add.commute)
  show ?thesis unfolding e u by simp
qed

lemma safe_end_step:
  assumes "i \<le> length v"
  shows "find_safe_end v i = (case next_step (drop i v) of
      Hold \<Rightarrow> (i, False) | Close \<Rightarrow> (i, True) | Emit k out \<Rightarrow> find_safe_end v (i + k))"
proof (cases "i < length v")
  case True
  note d = drop_head [OF True]
  show ?thesis
  proof (cases "v ! i = backslash")
    case bs: True
    show ?thesis
    proof (cases "i + 1 < length v")
      case two: True
      note d2 = drop_head [OF two]
      show ?thesis
      proof (cases "v ! (i + 1) = letter_u")
        case True
        then have "next_step (drop i v) = unicode_step (drop i v)" using d d2 bs by (simp add: next_step_def)
        then show ?thesis using safe_end_unicode [OF two bs True] by simp
      qed (use True d d2 bs two in \<open>simp add: next_step_def find_safe_end.simps [of v i]\<close>)
    qed (use True d bs in \<open>simp add: next_step_def find_safe_end.simps [of v i]\<close>)
  next
    case nb: False
    show ?thesis
    proof (cases "v ! i = dquote")
      case False
      then have "next_step (drop i v) = Emit 1 [v ! i]" using nb d by (simp add: next_step_def)
      then show ?thesis using safe_end_plain [OF True nb False] by simp
    qed (use True nb d in \<open>simp add: next_step_def find_safe_end.simps [of v i]\<close>)
  qed
qed (use assms in \<open>simp add: find_safe_end.simps [of v "length v"] next_step_def\<close>)

lemma safe_end_run:
  "i \<le> length v \<Longrightarrow> run_value (drop i v) = (n, out, f) \<Longrightarrow> find_safe_end v i = (i + n, f)"
proof (induction "length v - i" arbitrary: i n out f rule: less_induct)
  case less
  show ?case
  proof (cases "next_step (drop i v)")
    case (Emit k o1)
    obtain m o2 g where r: "run_value (drop (i + k) v) = (m, o2, g)" by (metis prod_cases3)
    have k: "0 < k" "i + k \<le> length v" using next_step_emit [OF Emit] less.prems(1) by auto
    have "find_safe_end v (i + k) = (i + k + m, g)" by (rule less.hyps [OF _ k(2) r]) (use k in simp)
    then show ?thesis using safe_end_step [OF less.prems(1)] less.prems(2) Emit r
      by (simp add: run_value.simps [of "drop i v"] add.commute)
  qed (use safe_end_step [OF less.prems(1)] less.prems(2) in \<open>simp_all add: run_value.simps [of "drop i v"]\<close>)
qed

text \<open>Unescaping what was settled gives the text of the steps.\<close>

lemma unescape_plain: "c \<noteq> backslash \<Longrightarrow> unescape_loop (c # r) = c # unescape_loop r"
  by (simp add: unescape_loop.simps [of "c # r"])

lemma unescape_loop_plain: "backslash \<notin> set s \<Longrightarrow> unescape_loop s = s"
  by (induction s) (auto simp: unescape_plain unescape_loop.simps [of "[]"])

lemma unescape_is_loop: "unescape_json_string s = unescape_loop s"
  by (simp add: unescape_json_string_def unescape_loop_plain)

lemma unescape_simple:
  assumes "d \<noteq> letter_u"
  shows "unescape_loop (backslash # d # y) = (case simple_escape d of Some e \<Rightarrow> [e] | None \<Rightarrow> [backslash, d]) @ unescape_loop y"
proof (cases "simple_escape d")
  case None
  then have "d \<noteq> backslash" by (auto simp: simple_escape_def)
  then show ?thesis using None assms by (simp add: unescape_loop.simps [of "backslash # d # y"] unescape_plain)
qed (simp add: unescape_loop.simps [of "backslash # d # y"])

lemma unescape_unicode:
  assumes "unicode_step (backslash # letter_u # t) = Emit k out" "k \<le> m"
  shows "unescape_loop (take m (backslash # letter_u # t)) = out @ unescape_loop (take (m - k) (drop k (backslash # letter_u # t)))"
proof -
  let ?v = "backslash # letter_u # t"
  let ?s = "take m ?v" and ?cp = "unicode_escape (take 4 t)"
  let ?low = "unicode_escape (take 4 (drop 6 t))"
  have len: "6 \<le> length ?v" "6 \<le> k" using assms(1) by (auto simp: unicode_step_def Let_def split: if_splits)
  then have m: "6 \<le> m" using assms(2) by simp
  have none: "simple_escape letter_u = None" by (simp add: simple_escape_def)
  have s: "?s = backslash # letter_u # take (m - 2) t" using m by (simp add: take_Cons' numeral_2_eq_2)
  have cp: "take 4 (drop 2 ?s) = take 4 t" using m by (simp add: s min_absorb1 le_diff_conv2)
  have step: "unescape_loop ?s =
     (if is_high_surrogate ?cp \<and> 11 < length ?s \<and> take 2 (drop 6 ?s) = [backslash, letter_u] \<and> is_low_surrogate (unicode_escape (take 4 (drop 8 ?s)))
      then encode_rune (decode_surrogates ?cp (unicode_escape (take 4 (drop 8 ?s)))) @ unescape_loop (drop 12 ?s)
      else encode_rune ?cp @ unescape_loop (drop 6 ?s))"
  proof -
    have "5 < length ?s" using len m by simp
    then show ?thesis using none cp by (subst unescape_loop.simps) (simp add: s Let_def)
  qed
  show ?thesis
  proof (cases "is_high_surrogate ?cp \<and> low_follows (drop 6 ?v)")
    case True
    then have po: "\<not> pair_open (drop 6 ?v)" "12 \<le> length ?v"
      using low_follows_length [of "drop 6 ?v"] by (auto simp: low_follows_def pair_open_def has_prefix_def)
    then have k: "k = 12" "out = encode_rune (decode_surrogates ?cp ?low)"
      using assms(1) True by (simp_all add: unicode_step_def Let_def split: if_splits)
    have "12 \<le> m" using k(1) assms(2) by simp
    then have "11 < length ?s" "take 2 (drop 6 ?s) = [backslash, letter_u]" "take 4 (drop 8 ?s) = take 4 (drop 6 t)"
      using po True by (auto simp: low_follows_def has_prefix_def drop_take min_def numeral_2_eq_2)
    then show ?thesis using step True k by (simp add: low_follows_def drop_take)
  next
    case False
    have k: "k = 6" "out = encode_rune ?cp"
      using assms(1) False by (auto simp: unicode_step_def Let_def split: if_splits)
    have neg: "\<not> (is_high_surrogate ?cp \<and> 11 < length ?s \<and> take 2 (drop 6 ?s) = [backslash, letter_u]
        \<and> is_low_surrogate (unicode_escape (take 4 (drop 8 ?s))))"
    proof
      assume a: "is_high_surrogate ?cp \<and> 11 < length ?s \<and> take 2 (drop 6 ?s) = [backslash, letter_u]
        \<and> is_low_surrogate (unicode_escape (take 4 (drop 8 ?s)))"
      then have "12 \<le> m" "10 \<le> length t" by auto
      then have "low_follows (drop 6 ?v)"
        using a by (simp add: low_follows_def has_prefix_def drop_take min_absorb1 numeral_2_eq_2)
      then show False using a False by blast
    qed
    have "unescape_loop ?s = encode_rune ?cp @ unescape_loop (drop 6 ?s)" unfolding step using neg by (rule if_not_P)
    then show ?thesis using k by (simp add: drop_take)
  qed
qed

lemma unescape_step:
  assumes "next_step v = Emit k out" "k \<le> m"
  shows "unescape_loop (take m v) = out @ unescape_loop (take (m - k) (drop k v))"
proof -
  obtain c r where v: "v = c # r" using assms(1) by (cases v) (auto simp: next_step_def)
  show ?thesis
  proof (cases "c = backslash")
    case True
    then obtain d t where r: "r = d # t" using assms(1) v by (cases r) (auto simp: next_step_def)
    show ?thesis
    proof (cases "d = letter_u")
      case True
      then show ?thesis using unescape_unicode [OF _ assms(2), of t out] assms(1) v r \<open>c = backslash\<close>
        by (simp add: next_step_def)
    next
      case False
      then have k: "k = 2" "out = (case simple_escape d of Some e \<Rightarrow> [e] | None \<Rightarrow> [backslash, d])"
        using assms(1) v r True by (simp_all add: next_step_def)
      then obtain j where "m = Suc (Suc j)" using assms(2) by (metis add_2_eq_Suc le_Suc_ex)
      then show ?thesis using unescape_simple [OF False, of "take j t"] v r True k by simp
    qed
  next
    case False
    then have k: "k = 1" "out = [c]" using assms(1) v by (simp_all add: next_step_def split: if_splits)
    then obtain j where "m = Suc j" using assms(2) by (cases m) auto
    then show ?thesis using unescape_plain [OF False] v k by simp
  qed
qed

lemma unescape_run: "run_value v = (n, out, f) \<Longrightarrow> unescape_json_string (take n v) = out"
  unfolding unescape_is_loop
proof (induction v arbitrary: n out f rule: run_value.induct)
  case (1 v)
  show ?case
  proof (cases "next_step v")
    case (Emit k o1)
    obtain m o2 g where r: "run_value (drop k v) = (m, o2, g)" by (metis prod_cases3)
    then have p: "n = k + m" "out = o1 @ o2" using "1.prems" Emit by (simp_all add: run_value.simps [of v])
    show ?thesis using unescape_step [OF Emit, of n] "1.IH" [OF Emit r] p by simp
  qed (use "1.prems" in \<open>simp_all add: run_value.simps [of v] unescape_loop.simps [of "[]"]\<close>)
qed

section \<open>Fragments\<close>

lemma skip_spaces_append: "skip_spaces buf pos < length buf \<Longrightarrow> skip_spaces (buf @ x) pos = skip_spaces buf pos"
proof -
  assume lt: "skip_spaces buf pos < length buf"
  have "takeWhile json_space (drop pos buf) \<noteq> drop pos buf"
  proof
    assume "takeWhile json_space (drop pos buf) = drop pos buf"
    then have "skip_spaces buf pos = pos + (length buf - pos)" unfolding skip_spaces_def by (simp only: length_drop)
    then show False using lt by simp
  qed
  then have "\<not> (\<forall>c \<in> set (drop pos buf). json_space c)" by (metis takeWhile_eq_all_conv)
  then obtain c where "c \<in> set (drop pos buf)" "\<not> json_space c" by blast
  then have "takeWhile json_space (drop pos buf @ drop (pos - length buf) x) = takeWhile json_space (drop pos buf)"
    by (rule takeWhile_append1)
  then show ?thesis by (simp add: skip_spaces_def)
qed

lemma find_from_append: "find_from buf name off = Some p \<Longrightarrow> find_from (buf @ x) name off = Some p \<and> p \<le> length buf"
proof (induction buf name off rule: find_from.induct)
  case (1 buf name off)
  let ?key = "field_key name"
  have off: "off < length buf" using "1.prems" by (subst (asm) find_from.simps) (simp split: if_splits)
  obtain idx where idx: "str_index ?key (drop off buf) = Some idx"
    using "1.prems" off by (subst (asm) find_from.simps) (auto split: option.splits)
  define after where "after = off + idx + length ?key"
  define pos where "pos = skip_spaces buf after"
  define pos2 where "pos2 = skip_spaces buf (pos + 1)"
  have e: "find_from buf name off = (if length buf \<le> pos then None
      else if buf ! pos \<noteq> CHR '':'' then find_from buf name after
      else if length buf \<le> pos2 then None else if buf ! pos2 = dquote then Some (pos2 + 1) else find_from buf name after)"
    using off idx by (subst find_from.simps) (simp add: after_def pos_def pos2_def Let_def)
  have pos: "pos < length buf" using "1.prems" e by (simp split: if_splits)
  then have posx: "skip_spaces (buf @ x) after = pos" by (simp add: pos_def skip_spaces_append)
  have idx': "str_index ?key (drop off (buf @ x)) = Some idx" using str_index_append [OF idx] off by simp
  have ih: "find_from (buf @ x) name after = Some p \<and> p \<le> length buf" if "find_from buf name after = Some p"
    "buf ! pos \<noteq> CHR '':'' \<or> (pos2 < length buf \<and> buf ! pos2 \<noteq> dquote)"
    using that "1.IH" off idx pos unfolding after_def pos_def pos2_def by (metis not_le)
  have ex: "find_from (buf @ x) name off = (if buf ! pos \<noteq> CHR '':'' then find_from (buf @ x) name after
      else let q = skip_spaces (buf @ x) (pos + 1) in
        if length (buf @ x) \<le> q then None else if (buf @ x) ! q = dquote then Some (q + 1) else find_from (buf @ x) name after)"
    using off idx' pos posx by (subst find_from.simps) (simp add: after_def [symmetric] Let_def nth_append)
  show ?case
  proof (cases "buf ! pos = CHR '':''")
    case True
    then have p2: "pos2 < length buf" using "1.prems" e pos by (simp split: if_splits)
    then have "skip_spaces (buf @ x) (pos + 1) = pos2" by (simp add: pos2_def skip_spaces_append)
    then show ?thesis using "1.prems" e ex True p2 pos ih by (auto simp: nth_append split: if_splits)
  next
    case False
    then show ?thesis using "1.prems" e ex pos ih by simp
  qed
qed

text \<open>What the extractor has given out after the text \<open>b\<close>.\<close>

definition given :: "string \<Rightarrow> string \<Rightarrow> nat \<times> string \<times> bool" where
  "given name b = (case find_field_value_start b name of None \<Rightarrow> (0, [], False) | Some p \<Rightarrow> run_value (drop p b))"

definition je_ok :: "string \<Rightarrow> string \<Rightarrow> json_extractor \<Rightarrow> string \<Rightarrow> bool" where
  "je_ok name b e out \<longleftrightarrow> je_field e = name \<and> given name b = (je_last_emit e, out, je_done e)
     \<and> (\<not> je_done e \<longrightarrow> je_buffer e = b \<and> je_value_start e = find_field_value_start b name)"

lemma je_okI:
  "je_field e = name \<Longrightarrow> given name b = (je_last_emit e, out, je_done e) \<Longrightarrow> je_buffer e = b \<Longrightarrow>
   je_value_start e = find_field_value_start b name \<Longrightarrow> je_ok name b e out"
  by (simp add: je_ok_def)

lemma given_closed: "given name b = (n, out, True) \<Longrightarrow> given name (b @ x) = (n, out, True)"
  using find_from_append [of b name 0 _ x] run_value_closed
  by (auto simp: given_def find_field_value_start_def split: option.splits)

lemma emit_value_ok:
  assumes "find_field_value_start (je_buffer e) name = Some p" "p \<le> length (je_buffer e)" "je_field e = name"
    "je_value_start e = Some p" "\<not> je_done e"
    "je_last_emit e \<le> length (drop p (je_buffer e))"
    "run_value (drop (je_last_emit e) (drop p (je_buffer e))) = (m, out2, f)"
    "run_value (drop p (je_buffer e)) = (je_last_emit e + m, out @ out2, f)"
    "emit_value p e = (o1, e1)"
  shows "o1 = out2 \<and> je_ok name (je_buffer e) e1 (out @ out2)"
proof -
  let ?c = "drop p (je_buffer e)"
  have se: "find_safe_end ?c (je_last_emit e) = (je_last_emit e + m, f)" by (rule safe_end_run [OF assms(6,7)])
  have g: "given name (je_buffer e) = (je_last_emit e + m, out @ out2, f)" using assms(1,8) by (simp add: given_def)
  show ?thesis
  proof (cases "m = 0")
    case True
    then have "out2 = []" using unescape_run [OF assms(7)] by (simp add: unescape_json_string_def)
    then show ?thesis using assms(1,3-5,9) se g True by (auto simp: emit_value_def je_ok_def)
  next
    case False
    have "unescape_json_string (drop (je_last_emit e) (take (je_last_emit e + m) ?c)) = out2"
      using unescape_run [OF assms(7)] by (simp add: drop_take)
    then show ?thesis using assms(1,3-5,9) se g False by (auto simp: emit_value_def je_ok_def)
  qed
qed

lemma feed_ok:
  assumes "je_ok name b e out" "feed x e = (o1, e1)"
  shows "je_ok name (b @ x) e1 (out @ o1)"
proof (cases "je_done e")
  case True
  then show ?thesis using assms given_closed [of name b _ out x] by (simp add: feed_def je_ok_def)
next
  case False
  define e0 where "e0 = e\<lparr>je_buffer := b @ x\<rparr>"
  have e: "je_field e = name" "je_buffer e = b" "je_value_start e = find_field_value_start b name"
    "given name b = (je_last_emit e, out, False)"
    using assms(1) False by (simp_all add: je_ok_def)
  have e0: "je_field e0 = name" "je_buffer e0 = b @ x" "je_last_emit e0 = je_last_emit e" "\<not> je_done e0"
    "je_value_start e0 = je_value_start e"
    using e(1) False by (simp_all add: e0_def)
  have f: "(o1, e1) = (case je_value_start e of
        Some start \<Rightarrow> emit_value start e0
      | None \<Rightarrow> (case find_field_value_start (b @ x) name of None \<Rightarrow> ([], e0)
          | Some start \<Rightarrow> emit_value start (e0\<lparr>je_value_start := Some start, je_last_emit := 0\<rparr>)))"
    unfolding e0_def using assms(2) False e by (auto simp: feed_def Let_def split: option.splits)
  show ?thesis
  proof (cases "find_field_value_start b name")
    case None
    then have z: "je_last_emit e = 0" "out = []" using e(4) by (simp_all add: given_def)
    show ?thesis
    proof (cases "find_field_value_start (b @ x) name")
      case None
      then show ?thesis using f e(3) e0 z \<open>find_field_value_start b name = None\<close> by (simp add: je_ok_def given_def)
    next
      case (Some p)
      let ?e = "e0\<lparr>je_value_start := Some p, je_last_emit := 0\<rparr>"
      obtain m out2 g where r: "run_value (drop p (b @ x)) = (m, out2, g)" by (metis prod_cases3)
      have p: "p \<le> length (b @ x)" using Some find_from_append [of "b @ x" name 0 p "[]"] by (simp add: find_field_value_start_def)
      have "emit_value p ?e = (o1, e1)" using f e(3) None Some by simp
      then show ?thesis using emit_value_ok [of ?e name p m out2 g "[]" o1 e1] Some p r e0 z by simp
    qed
  next
    case (Some p)
    obtain m out2 g where r: "run_value (drop (je_last_emit e) (drop p b) @ x) = (m, out2, g)" by (metis prod_cases3)
    have px: "find_field_value_start (b @ x) name = Some p" "p \<le> length b"
      using Some find_from_append [of b name 0 p x] by (simp_all add: find_field_value_start_def)
    have rb: "run_value (drop p b) = (je_last_emit e, out, False)" using e(4) Some by (simp add: given_def)
    have le: "je_last_emit e \<le> length (drop p b)" by (rule run_value_le [OF rb])
    have full: "run_value (drop p (b @ x)) = (je_last_emit e + m, out @ out2, g)"
      using run_value_resume [OF rb r] px(2) by simp
    have "emit_value p e0 = (o1, e1)" using f e(3) Some by simp
    then show ?thesis
      using emit_value_ok [of e0 name p m out2 g out o1 e1] px e0 r full le e(3) Some by simp
  qed
qed

lemma feed_all_ok:
  "je_ok name b e out \<Longrightarrow> feed_all ds e = (o1, e1) \<Longrightarrow> je_ok name (b @ concat ds) e1 (out @ o1)"
proof (induction ds arbitrary: b e out o1)
  case (Cons d ds)
  obtain o2 e2 where d: "feed d e = (o2, e2)" by force
  obtain o3 where ds: "feed_all ds e2 = (o3, e1)" "o1 = o2 @ o3" using Cons.prems(2) d by (auto split: prod.splits)
  show ?case using Cons.IH [OF feed_ok [OF Cons.prems(1) d] ds(1)] ds(2) by simp
qed simp

lemma extract_given: "extract_field name ds = (case given name (concat ds) of (n, out, f) \<Rightarrow> (out, f))"
proof -
  have none: "find_field_value_start [] name = None" by (simp add: find_field_value_start_def find_from.simps)
  have start: "je_ok name [] (new_json_field_extractor name) []"
    by (rule je_okI) (simp_all add: new_json_field_extractor_def given_def none)
  obtain o1 e1 where f: "feed_all ds (new_json_field_extractor name) = (o1, e1)" by force
  show ?thesis using feed_all_ok [OF start f] f by (simp add: extract_field_def je_ok_def)
qed

section \<open>Properties\<close>

text \<open>
  C40. How the provider cuts the arguments into fragments does not matter: the text given out over
  all fragments, and whether the value has been seen to its end, are those of a single fragment
  that holds everything, for every byte string, cut anywhere, complete or not.
\<close>

theorem field_ignores_fragments: "extract_field name ds = extract_field name [concat ds]"
  by (simp add: extract_given)

text \<open>The strings of JSON: an escaped text and the bytes it stands for.\<close>

definition hex_digits :: "string \<Rightarrow> bool" where
  "hex_digits h \<longleftrightarrow> length h = 4
     \<and> (\<forall>c \<in> set h. let b = of_char c :: nat in (48 \<le> b \<and> b \<le> 57) \<or> (65 \<le> b \<and> b \<le> 70) \<or> (97 \<le> b \<and> b \<le> 102))"

inductive json_text :: "string \<Rightarrow> string \<Rightarrow> bool" where
  json_nil: "json_text [] []"
| json_plain: "c \<noteq> dquote \<Longrightarrow> c \<noteq> backslash \<Longrightarrow> json_text e s \<Longrightarrow> json_text (c # e) (c # s)"
| json_simple: "simple_escape d = Some c \<Longrightarrow> json_text e s \<Longrightarrow> json_text (backslash # d # e) (c # s)"
| json_unicode: "hex_digits h \<Longrightarrow> \<not> is_high_surrogate (unicode_escape h) \<Longrightarrow> json_text e s \<Longrightarrow>
    json_text (backslash # letter_u # h @ e) (encode_rune (unicode_escape h) @ s)"
| json_pair: "hex_digits h \<Longrightarrow> hex_digits l \<Longrightarrow> is_high_surrogate (unicode_escape h) \<Longrightarrow>
    is_low_surrogate (unicode_escape l) \<Longrightarrow> json_text e s \<Longrightarrow>
    json_text (backslash # letter_u # h @ backslash # letter_u # l @ e)
      (encode_rune (decode_surrogates (unicode_escape h) (unicode_escape l)) @ s)"

lemma four: "length h = 4 \<Longrightarrow> \<exists>a b c d. h = [a, b, c, d]"
  by (auto simp: numeral_eq_Suc length_Suc_conv)

lemma run_value_text: "json_text e s \<Longrightarrow> run_value (e @ dquote # r) = (length e, s, True)"
proof (induction rule: json_text.induct)
  case json_nil
  then show ?case by (simp add: run_value.simps next_step_def)
next
  case (json_plain c e s)
  then have "next_step ((c # e) @ dquote # r) = Emit 1 [c]" by (simp add: next_step_def)
  then show ?case using json_plain by (simp add: run_value.simps [of "c # e @ dquote # r"])
next
  case (json_simple d c e s)
  then have "d \<noteq> letter_u" by (auto simp: simple_escape_def)
  then have "next_step ((backslash # d # e) @ dquote # r) = Emit 2 [c]" using json_simple by (simp add: next_step_def)
  then show ?case using json_simple by (simp add: run_value.simps [of "backslash # d # e @ dquote # r"])
next
  case (json_unicode h e s)
  then obtain a b c d where h: "h = [a, b, c, d]" using four [of h] by (auto simp: hex_digits_def)
  have "next_step ((backslash # letter_u # h @ e) @ dquote # r) = Emit 6 (encode_rune (unicode_escape h))"
    using json_unicode by (simp add: next_step_def unicode_step_def Let_def h)
  then show ?case using json_unicode.IH by (simp add: run_value.simps [of "backslash # letter_u # a # b # c # d # e @ dquote # r"] h)
next
  case (json_pair h l e s)
  then obtain a b c d a1 b1 c1 d1 where h: "h = [a, b, c, d]" "l = [a1, b1, c1, d1]"
    using four [of h] four [of l] by (auto simp: hex_digits_def)
  have "next_step ((backslash # letter_u # h @ backslash # letter_u # l @ e) @ dquote # r)
      = Emit 12 (encode_rune (decode_surrogates (unicode_escape h) (unicode_escape l)))"
    using json_pair by (simp add: next_step_def unicode_step_def pair_open_def low_follows_def has_prefix_def Let_def h)
  then show ?case using json_pair.IH
    by (simp add: h run_value.simps
      [of "backslash # letter_u # a # b # c # d # backslash # letter_u # a1 # b1 # c1 # d1 # e @ dquote # r"])
qed

lemma skip_spaces_run:
  "\<forall>c \<in> set ws. json_space c \<Longrightarrow> \<not> json_space d \<Longrightarrow> skip_spaces (p @ ws @ d # q) (length p) = length (p @ ws)"
  by (simp add: skip_spaces_def takeWhile_append2)

lemma find_at_key:
  assumes "str_index (field_key name) (pre @ field_key name) = Some (length pre)"
    and "\<forall>c \<in> set (ws @ ws'). json_space c"
    and "b = pre @ field_key name @ ws @ [CHR '':''] @ ws' @ [dquote] @ v"
  shows "find_field_value_start b name = Some (length b - length v)"
proof -
  let ?p1 = "pre @ field_key name" and ?p2 = "pre @ field_key name @ ws @ [CHR '':'']"
  have idx: "str_index (field_key name) b = Some (length pre)"
    using str_index_append [OF assms(1)] by (simp add: assms(3))
  have s1: "skip_spaces b (length ?p1) = length (?p1 @ ws)"
    using skip_spaces_run [of ws "CHR '':''" ?p1 "ws' @ [dquote] @ v"] assms(2) by (simp add: assms(3) json_space_def)
  have s2: "skip_spaces b (length ?p2) = length (?p2 @ ws')"
    using skip_spaces_run [of ws' dquote ?p2 v] assms(2) by (simp add: assms(3) json_space_def)
  have n1: "b ! length (?p1 @ ws) = CHR '':''" using nth_append_length [of "?p1 @ ws"] by (simp add: assms(3))
  have n2: "b ! length (?p2 @ ws') = dquote" using nth_append_length [of "?p2 @ ws'"] by (simp add: assms(3))
  have len: "length (?p1 @ ws) < length b" "length (?p2 @ ws') < length b" "length b - length v = Suc (length (?p2 @ ws'))"
    by (simp_all add: assms(3))
  have "b \<noteq> []" using len by auto
  then show ?thesis
    using idx s1 s2 n1 n2 len unfolding find_field_value_start_def
    by (subst find_from.simps) (simp add: Let_def)
qed

text \<open>
  The field comes out as it was written: when the arguments hold the key, a colon and a JSON
  string, and the key does not occur before, then over all fragments exactly the bytes the string
  stands for are given out, escapes and surrogate pairs decoded, and the value is known to be
  complete, whatever follows it.
\<close>

theorem field_value_decoded:
  assumes "json_text e s"
    and "str_index (field_key name) (pre @ field_key name) = Some (length pre)"
    and "\<forall>c \<in> set (ws @ ws'). json_space c"
    and "concat ds = pre @ field_key name @ ws @ [CHR '':''] @ ws' @ [dquote] @ e @ [dquote] @ rest"
  shows "extract_field name ds = (s, True)"
proof -
  let ?v = "e @ dquote # rest"
  have "find_field_value_start (concat ds) name = Some (length (concat ds) - length ?v)"
    by (rule find_at_key [OF assms(2,3)]) (simp add: assms(4))
  moreover have "drop (length (concat ds) - length ?v) (concat ds) = ?v" by (simp add: assms(4))
  ultimately show ?thesis using run_value_text [OF assms(1), of rest] by (simp add: extract_given given_def)
qed

lemma field_value_decoded_witness:
  "extract_field ''a'' [[CHR ''{'', dquote], ''a'' @ [dquote] @ '': '' @ [dquote] @ ''x'' @ [backslash], ''ny'' @ [dquote] @ ''}'']
   = (''x'' @ [CHR 10] @ ''y'', True)"
proof -
  have t: "json_text (''x'' @ [backslash] @ ''ny'') (''x'' @ [CHR 10] @ ''y'')"
    by (simp add: json_text.intros simple_escape_def)
  have "str_index (field_key ''a'') (''{'' @ field_key ''a'') = Some (length ''{'')"
    by (simp add: field_key_def has_prefix_def)
  then show ?thesis
    by (rule field_value_decoded [OF t, where ws = "[]" and ws' = "'' ''" and rest = "''}''"])
      (simp_all add: json_space_def field_key_def)
qed

end
