(* ===== verification/ModelHandles.thy ===== *)
theory ModelHandles
  imports GoStrings
begin

text \<open>
  The short handles a model sees instead of durable identifiers (modelcontext/handle_table.go,
  handles.go), and the streaming filters that keep handles whole although the provider cuts its
  output anywhere (modelcontext/stream.go): a locale for the withholding of a suffix, and the
  filter that drops unresolved resource handles.
\<close>

section \<open>The table\<close>

text \<open>The word-bounded pattern of an entry is computed from its handle and needs no field.\<close>

record 'm handle_entry =
  he_value :: string
  he_meta :: 'm

record 'm handle_table =
  mt_prefix :: string
  mt_width :: nat
  mt_next :: nat
  mt_by_key :: "(string \<times> string) list"
  mt_entries :: "(string \<times> 'm handle_entry) list"

definition new_handle_table :: "string \<Rightarrow> nat \<Rightarrow> nat \<Rightarrow> 'm handle_table" where
  "new_handle_table prefix width start =
     \<lparr>mt_prefix = prefix, mt_width = width, mt_next = start, mt_by_key = [], mt_entries = []\<rparr>"

text \<open>\<open>%d\<close>, and \<open>%0*d\<close> when the table has a width.\<close>

definition format_number :: "nat \<Rightarrow> nat \<Rightarrow> string" where
  "format_number width n =
     (if 0 < width then replicate (width - length (itoa n)) (CHR ''0'') @ itoa n else itoa n)"

definition register :: "string \<Rightarrow> string \<Rightarrow> 'm \<Rightarrow> ('m \<Rightarrow> 'm \<Rightarrow> 'm) option \<Rightarrow> 'm handle_table \<Rightarrow> string \<times> 'm handle_table" where
  "register key value meta merge t =
     (if key = [] then ([], t)
      else case map_of (mt_by_key t) key of
          Some handle \<Rightarrow>
            (handle, (case (merge, map_of (mt_entries t) handle) of
                (Some f, Some e) \<Rightarrow> t\<lparr>mt_entries := AList.update handle (e\<lparr>he_meta := f (he_meta e) meta\<rparr>) (mt_entries t)\<rparr>
              | _ \<Rightarrow> t))
        | None \<Rightarrow>
            (let handle = mt_prefix t @ format_number (mt_width t) (mt_next t) in
             (handle, t\<lparr>mt_next := mt_next t + 1, mt_by_key := AList.update key handle (mt_by_key t),
                mt_entries := AList.update handle \<lparr>he_value = value, he_meta = meta\<rparr> (mt_entries t)\<rparr>)))"

definition handle_for_key :: "'m handle_table \<Rightarrow> string \<Rightarrow> string option" where
  "handle_for_key t key = map_of (mt_by_key t) key"

definition resolve :: "'m handle_table \<Rightarrow> string \<Rightarrow> (string \<times> 'm) option" where
  "resolve t handle = map_option (\<lambda>e. (he_value e, he_meta e)) (map_of (mt_entries t) handle)"

definition has_handle :: "'m handle_table \<Rightarrow> string \<Rightarrow> bool" where
  "has_handle t handle \<longleftrightarrow> map_of (mt_entries t) handle \<noteq> None"

definition table_size :: "'m handle_table \<Rightarrow> nat" where
  "table_size t = length (mt_entries t)"

text \<open>The exported wrapper: the value is its own key, and both are trimmed.\<close>

definition register_value :: "string \<Rightarrow> unit handle_table \<Rightarrow> string \<times> unit handle_table" where
  "register_value value t = (let v = trim_space value in if v = [] then ([], t) else register v v () None t)"

definition resolve_value :: "unit handle_table \<Rightarrow> string \<Rightarrow> string option" where
  "resolve_value t handle = map_option fst (resolve t (trim_space handle))"

fun register_all :: "(string \<times> string \<times> 'm) list \<Rightarrow> ('m \<Rightarrow> 'm \<Rightarrow> 'm) option \<Rightarrow> 'm handle_table \<Rightarrow> string list \<times> 'm handle_table" where
  "register_all [] merge t = ([], t)"
| "register_all ((key, value, meta) # rs) merge t =
     (case register key value meta merge t of (h, t1) \<Rightarrow>
      case register_all rs merge t1 of (hs, t2) \<Rightarrow> (h # hs, t2))"

section \<open>Numbers of handles\<close>

lemma uint_value_zeros: "uint_value (replicate k (CHR ''0'') @ s) = uint_value s"
  by (induction k) (simp_all add: uint_value_def)

lemma format_number_inj: "format_number w n = format_number w m \<Longrightarrow> n = m"
proof -
  assume "format_number w n = format_number w m"
  moreover have "uint_value (format_number w k) = k" for k
    by (simp add: format_number_def uint_value_zeros uint_value_itoa)
  ultimately show "n = m" by metis
qed

text \<open>Keys and handles stay in one-to-one correspondence, and handles in use are older numbers.\<close>

definition table_ok :: "'m handle_table \<Rightarrow> bool" where
  "table_ok t \<longleftrightarrow> keys_distinct (mt_by_key t) \<and> keys_distinct (mt_entries t)
     \<and> (\<forall>k h. map_of (mt_by_key t) k = Some h \<longrightarrow> map_of (mt_entries t) h \<noteq> None
          \<and> (\<exists>n < mt_next t. h = mt_prefix t @ format_number (mt_width t) n))
     \<and> (\<forall>k k' h. map_of (mt_by_key t) k = Some h \<longrightarrow> map_of (mt_by_key t) k' = Some h \<longrightarrow> k = k')"

lemma table_ok_new: "table_ok (new_handle_table prefix width start)"
  by (simp add: table_ok_def new_handle_table_def)

lemma fresh_handle:
  assumes "table_ok t" "map_of (mt_by_key t) k = Some h"
  shows "h \<noteq> mt_prefix t @ format_number (mt_width t) (mt_next t)"
proof -
  obtain n where "n < mt_next t" "h = mt_prefix t @ format_number (mt_width t) n"
    using assms unfolding table_ok_def by blast
  then show ?thesis using format_number_inj by fastforce
qed

lemma register_ok: "table_ok t \<Longrightarrow> table_ok (snd (register key value meta merge t))"
proof (cases "key = [] \<or> map_of (mt_by_key t) key \<noteq> None")
  case True
  assume ok: "table_ok t"
  show ?thesis
  proof (cases "key = []")
    case False
    then obtain h where h: "map_of (mt_by_key t) key = Some h" using True by auto
    show ?thesis
    proof (cases "\<exists>f e. merge = Some f \<and> map_of (mt_entries t) h = Some e")
      case True
      then obtain f e where fe: "merge = Some f" "map_of (mt_entries t) h = Some e" by blast
      have "map_of (AList.update h e' (mt_entries t)) h' \<noteq> None \<longleftrightarrow> map_of (mt_entries t) h' \<noteq> None" for h' e'
        using fe(2) by (cases "h' = h") simp_all
      then show ?thesis using ok h fe False by (simp add: register_def table_ok_def)
    qed (use ok h False in \<open>auto simp: register_def split: option.splits\<close>)
  qed (use ok in \<open>simp add: register_def\<close>)
next
  case False
  assume ok: "table_ok t"
  let ?h = "mt_prefix t @ format_number (mt_width t) (mt_next t)"
  let ?t = "snd (register key value meta merge t)"
  have t: "mt_by_key ?t = AList.update key ?h (mt_by_key t)" "mt_prefix ?t = mt_prefix t" "mt_width ?t = mt_width t"
    "mt_next ?t = mt_next t + 1" "mt_entries ?t = AList.update ?h \<lparr>he_value = value, he_meta = meta\<rparr> (mt_entries t)"
    using False by (simp_all add: register_def Let_def)
  have old: "map_of (mt_entries t) h \<noteq> None" "\<exists>n < mt_next t. h = mt_prefix t @ format_number (mt_width t) n"
    if "map_of (mt_by_key t) k = Some h" for k h
    using ok that unfolding table_ok_def by blast+
  have inj: "k = k'" if "map_of (mt_by_key t) k = Some h" "map_of (mt_by_key t) k' = Some h" for k k' h
    using ok that unfolding table_ok_def by blast
  have each: "map_of (mt_entries ?t) h \<noteq> None \<and> (\<exists>n < mt_next ?t. h = mt_prefix ?t @ format_number (mt_width ?t) n)"
    if "map_of (mt_by_key ?t) k = Some h" for k h
  proof (cases "k = key")
    case True
    then have "h = ?h" using that t(1) by simp
    then show ?thesis using t by auto
  next
    case False
    then have k: "map_of (mt_by_key t) k = Some h" using that t(1) by simp
    have "h \<noteq> ?h" by (rule fresh_handle [OF ok k])
    then have "map_of (mt_entries ?t) h \<noteq> None" using old(1) [OF k] t(5) by simp
    moreover obtain n where "n < mt_next t" "h = mt_prefix t @ format_number (mt_width t) n" using old(2) [OF k] by blast
    ultimately show ?thesis using t by (intro conjI exI [of _ n]) simp_all
  qed
  have one: "k = k'" if "map_of (mt_by_key ?t) k = Some h" "map_of (mt_by_key ?t) k' = Some h" for k k' h
    using that t(1) inj fresh_handle [OF ok] by (cases "k = key"; cases "k' = key") (auto simp del: append_assoc)
  show ?thesis unfolding table_ok_def
    using ok each one t(1,5) by (intro conjI allI impI) (auto simp: table_ok_def)
qed

text \<open>The value a key stands for.\<close>

definition value_of :: "'m handle_table \<Rightarrow> string \<Rightarrow> string option" where
  "value_of t k = (case map_of (mt_by_key t) k of None \<Rightarrow> None
     | Some h \<Rightarrow> map_option he_value (map_of (mt_entries t) h))"

lemma value_of_new [simp]: "value_of (new_handle_table start_text width first) k = None"
  by (simp add: value_of_def new_handle_table_def)

lemma register_known:
  assumes "key \<noteq> []" "map_of (mt_by_key t) key = Some h" "register key value meta merge t = (h', t')"
  shows "h' = h" "mt_by_key t' = mt_by_key t" "value_of t' = value_of t"
proof -
  show "h' = h" "mt_by_key t' = mt_by_key t"
    using assms by (auto simp: register_def split: option.splits)
  show "value_of t' = value_of t"
  proof
    fix k
    have "map_option he_value (map_of (mt_entries t') g) = map_option he_value (map_of (mt_entries t) g)" for g
      using assms by (auto simp: register_def update_conv' split: option.splits)
    then show "value_of t' k = value_of t k" using \<open>mt_by_key t' = mt_by_key t\<close> by (simp add: value_of_def split: option.split)
  qed
qed

lemma register_fresh:
  assumes "table_ok t" "key \<noteq> []" "map_of (mt_by_key t) key = None" "register key value meta merge t = (h', t')"
  shows "mt_by_key t' = AList.update key h' (mt_by_key t)" "value_of t' = (value_of t)(key \<mapsto> value)"
proof -
  have t: "h' = mt_prefix t @ format_number (mt_width t) (mt_next t)" "mt_by_key t' = AList.update key h' (mt_by_key t)"
    "mt_entries t' = AList.update h' \<lparr>he_value = value, he_meta = meta\<rparr> (mt_entries t)"
    using assms(2-4) by (auto simp: register_def Let_def)
  show "mt_by_key t' = AList.update key h' (mt_by_key t)" by (rule t(2))
  show "value_of t' = (value_of t)(key \<mapsto> value)"
  proof
    fix k
    show "value_of t' k = ((value_of t)(key \<mapsto> value)) k"
    proof (cases "k = key")
      case False
      have "g \<noteq> h'" if "map_of (mt_by_key t) k = Some g" for g
        using fresh_handle [OF assms(1) that] t(1) by simp
      then show ?thesis using False t by (auto simp: value_of_def split: option.splits)
    qed (use t in \<open>simp add: value_of_def\<close>)
  qed
qed

lemma register_all_run:
  assumes "table_ok t" "\<forall>r \<in> set rs. fst r \<noteq> []" "register_all rs merge t = (hs, t')"
  shows "table_ok t' \<and> (\<forall>k h. map_of (mt_by_key t) k = Some h \<longrightarrow> map_of (mt_by_key t') k = Some h)
    \<and> (\<forall>k. value_of t' k = (case value_of t k of None \<Rightarrow> map_of (map (\<lambda>(k, v, m). (k, v)) rs) k | Some v \<Rightarrow> Some v))
    \<and> list_all2 (\<lambda>r h. map_of (mt_by_key t') (fst r) = Some h) rs hs"
  using assms
proof (induction rs arbitrary: t hs)
  case (Cons r rs)
  obtain key v m where r: "r = (key, v, m)" by (metis prod_cases3)
  have key: "key \<noteq> []" using Cons.prems(2) r by simp
  obtain h t1 where reg: "register key v m merge t = (h, t1)" by force
  obtain hs2 where all: "register_all rs merge t1 = (hs2, t')" "hs = h # hs2"
    using Cons.prems(3) r reg by (auto split: prod.splits)
  have ok1: "table_ok t1" using register_ok [OF Cons.prems(1), of key v m merge] reg by simp
  note IH = Cons.IH [OF ok1 _ all(1)]
  show ?case
  proof (cases "map_of (mt_by_key t) key")
    case None
    note f = register_fresh [OF Cons.prems(1) key None reg]
    have none: "value_of t key = None" using None by (simp add: value_of_def)
    have keep: "map_of (mt_by_key t1) k = Some g" if "map_of (mt_by_key t) k = Some g" for k g
      using that None f(1) by (cases "k = key") simp_all
    have "map_of (mt_by_key t1) key = Some h" using f(1) by simp
    then show ?thesis using IH Cons.prems(2) all(2) keep f(2) none r by (auto split: option.split)
  next
    case (Some g)
    note k = register_known [OF key Some reg]
    obtain e where "map_of (mt_entries t) g = Some e" using Cons.prems(1) Some unfolding table_ok_def by blast
    then have "value_of t key = Some (he_value e)" using Some by (simp add: value_of_def)
    then show ?thesis using IH Cons.prems(2) all(2) k Some r by (auto split: option.split)
  qed
qed (auto split: option.split)

text \<open>
  Handles are a faithful stand-in for what they name: after any sequence of registrations in
  one table, two registrations share a handle exactly if they share a key, the key still has that
  handle, and the handle resolves to the value the key was first registered with, whatever was
  registered later and however metadata was merged.
\<close>

theorem handles_round_trip:
  assumes "register_all rs merge (new_handle_table start_text width first) = (hs, t)" "\<forall>r \<in> set rs. fst r \<noteq> []"
  shows "length hs = length rs \<and> (\<forall>i < length rs.
      (\<forall>j < length rs. hs ! i = hs ! j \<longleftrightarrow> fst (rs ! i) = fst (rs ! j))
      \<and> handle_for_key t (fst (rs ! i)) = Some (hs ! i)
      \<and> map_option fst (resolve t (hs ! i)) = map_of (map (\<lambda>(k, v, m). (k, v)) rs) (fst (rs ! i)))"
proof -
  have run: "table_ok t" "value_of t k = map_of (map (\<lambda>(k, v, m). (k, v)) rs) k"
    and all: "list_all2 (\<lambda>r h. map_of (mt_by_key t) (fst r) = Some h) rs hs" for k
    using register_all_run [OF table_ok_new assms(2,1)] by simp_all
  have len: "length hs = length rs" using all by (simp add: list_all2_lengthD)
  have key: "map_of (mt_by_key t) (fst (rs ! i)) = Some (hs ! i)" if "i < length rs" for i
    using all that by (simp add: list_all2_conv_all_nth)
  have same: "hs ! i = hs ! j \<longleftrightarrow> fst (rs ! i) = fst (rs ! j)" if "i < length rs" "j < length rs" for i j
    using key [OF that(1)] key [OF that(2)] run(1) unfolding table_ok_def by (metis option.inject)
  have val: "map_option fst (resolve t (hs ! i)) = map_of (map (\<lambda>(k, v, m). (k, v)) rs) (fst (rs ! i))"
    if "i < length rs" for i
    using key [OF that] run(2) [of "fst (rs ! i)"]
    by (simp add: resolve_def option.map_comp comp_def value_of_def)
  show ?thesis using len same key val by (simp add: handle_for_key_def)
qed

lemma handles_round_trip_witness:
  "fst (register_all [(''a'', ''x'', ()), (''b'', ''y'', ()), (''a'', ''z'', ())] None (new_handle_table ''res://'' 4 1))
     = [''res://0001'', ''res://0002'', ''res://0001'']
   \<and> map_option fst (resolve (snd (register_all [(''a'', ''x'', ()), (''b'', ''y'', ()), (''a'', ''z'', ())] None
       (new_handle_table ''res://'' 4 1))) ''res://0001'') = Some ''x''"
proof -
  let ?rs = "[(''a'', ''x'', ()), (''b'', ''y'', ()), (''a'', ''z'', ())]"
  let ?run = "register_all ?rs None (new_handle_table ''res://'' 4 1)"
  have hs: "fst ?run = [''res://0001'', ''res://0002'', ''res://0001'']" by code_simp
  have "map_option fst (resolve (snd ?run) (fst ?run ! 0)) = Some ''x''"
    using handles_round_trip [of ?rs None "''res://''" 4 1 "fst ?run" "snd ?run"] by simp
  then show ?thesis using hs by simp
qed

end
