(* ===== verification/HandleStream.thy ===== *)
theory HandleStream
  imports ModelHandles
begin

text \<open>
  Streaming filters over model output (modelcontext/stream.go): the primitive that withholds a
  suffix which may still grow into a handle, as a locale over its three functions, the filter that
  drops unresolved resource handles, and the decoder of a handle table.
\<close>

section \<open>The primitive\<close>

definition hold_feed :: "(string \<Rightarrow> nat) \<Rightarrow> (string \<Rightarrow> string) \<Rightarrow> string \<Rightarrow> string \<Rightarrow> string \<times> string" where
  "hold_feed hold_len emit chunk pending =
     (let combined = pending @ chunk in
      if combined = [] then ([], [])
      else let hold = hold_len combined in
        if 0 < hold \<and> hold \<le> length combined
        then (emit (take (length combined - hold) combined), drop (length combined - hold) combined)
        else (emit combined, []))"

fun hold_run :: "(string \<Rightarrow> nat) \<Rightarrow> (string \<Rightarrow> string) \<Rightarrow> (string \<Rightarrow> string) \<Rightarrow> string list \<Rightarrow> string \<Rightarrow> string" where
  "hold_run hold_len emit flush [] pending = flush pending"
| "hold_run hold_len emit flush (chunk # chunks) pending =
     (case hold_feed hold_len emit chunk pending of
        (out, pending') \<Rightarrow> out @ hold_run hold_len emit flush chunks pending')"

definition settled_text :: "(string \<Rightarrow> nat) \<Rightarrow> string \<Rightarrow> string" where
  "settled_text hold_len s = take (length s - hold_len s) s"

definition held_text :: "(string \<Rightarrow> nat) \<Rightarrow> string \<Rightarrow> string" where
  "held_text hold_len s = drop (length s - hold_len s) s"

text \<open>
  What a filter needs so that the cuts of the provider do not show: what is withheld depends on
  the text so far only through what was withheld before, and emitting text in two settled parts is
  emitting it at once.
\<close>

locale suffix_hold =
  fixes hold_len :: "string \<Rightarrow> nat"
    and emit :: "string \<Rightarrow> string"
  assumes hold_le: "hold_len s \<le> length s"
    and hold_later: "hold_len (s @ x) = hold_len (held_text hold_len s @ x)"
    and emit_nothing: "emit [] = []"
    and emit_parts: "emit (settled_text hold_len s @ settled_text hold_len (held_text hold_len s @ x))
      = emit (settled_text hold_len s) @ emit (settled_text hold_len (held_text hold_len s @ x))"
begin

lemma settled_held: "settled_text hold_len s @ held_text hold_len s = s"
  by (simp add: settled_text_def held_text_def)

lemma held_none: "hold_len s = 0 \<Longrightarrow> held_text hold_len s = [] \<and> settled_text hold_len s = s"
  by (simp add: held_text_def settled_text_def)

lemma feed_step: "hold_feed hold_len emit x p = (emit (settled_text hold_len (p @ x)), held_text hold_len (p @ x))"
  using hold_le [of "p @ x"]
  by (auto simp: hold_feed_def Let_def settled_text_def held_text_def emit_nothing)

lemma parts_later:
  "settled_text hold_len (s @ x) = settled_text hold_len s @ settled_text hold_len (held_text hold_len s @ x)"
  "held_text hold_len (s @ x) = held_text hold_len (held_text hold_len s @ x)"
proof -
  let ?a = "settled_text hold_len s" and ?q = "held_text hold_len s"
  have s: "s @ x = ?a @ ?q @ x" using settled_held [of s] by simp
  have n: "length (s @ x) - hold_len (s @ x) = length ?a + (length (?q @ x) - hold_len (?q @ x))"
    using hold_later [of s x] hold_le [of "?q @ x"] arg_cong [OF s, of length] by simp
  let ?m = "length (?q @ x) - hold_len (?q @ x)"
  have "settled_text hold_len (s @ x) = take (length ?a + ?m) (s @ x)" by (simp only: settled_text_def [of hold_len "s @ x"] n)
  also have "\<dots> = take (length ?a + ?m) (?a @ ?q @ x)" by (simp only: s [symmetric])
  also have "\<dots> = ?a @ settled_text hold_len (?q @ x)" by (simp add: settled_text_def [of hold_len "?q @ x"])
  finally show "settled_text hold_len (s @ x) = ?a @ settled_text hold_len (?q @ x)" .
  have "held_text hold_len (s @ x) = drop (length ?a + ?m) (s @ x)" by (simp only: held_text_def [of hold_len "s @ x"] n)
  also have "\<dots> = drop (length ?a + ?m) (?a @ ?q @ x)" by (simp only: s [symmetric])
  also have "\<dots> = held_text hold_len (?q @ x)" by (simp add: held_text_def [of hold_len "?q @ x"])
  finally show "held_text hold_len (s @ x) = held_text hold_len (?q @ x)" .
qed

lemma run_later:
  "emit (settled_text hold_len s) @ hold_run hold_len emit flush xs (held_text hold_len s)
     = emit (settled_text hold_len (s @ concat xs)) @ flush (held_text hold_len (s @ concat xs))"
proof (induction xs arbitrary: s)
  case (Cons x xs)
  have "emit (settled_text hold_len s) @ hold_run hold_len emit flush (x # xs) (held_text hold_len s)
      = emit (settled_text hold_len (s @ x)) @ hold_run hold_len emit flush xs (held_text hold_len (s @ x))"
    by (simp add: feed_step emit_parts parts_later [of s x])
  also have "\<dots> = emit (settled_text hold_len ((s @ x) @ concat xs)) @ flush (held_text hold_len ((s @ x) @ concat xs))"
    by (rule Cons.IH)
  finally show ?case by simp
qed simp

text \<open>The output over all chunks is a function of the whole text.\<close>

lemma cuts_do_not_show:
  "hold_run hold_len emit flush xs [] = emit (settled_text hold_len (concat xs)) @ flush (held_text hold_len (concat xs))"
  using run_later [of "[]" flush xs] by (simp add: settled_text_def held_text_def emit_nothing)

end

section \<open>Unresolved resource handles\<close>

definition res_scheme :: string where "res_scheme = ''res://''"

definition is_digit :: "char \<Rightarrow> bool" where
  "is_digit c \<longleftrightarrow> 48 \<le> (of_char c :: nat) \<and> (of_char c :: nat) \<le> 57"

definition all_digits :: "string \<Rightarrow> bool" where
  "all_digits s \<longleftrightarrow> s \<noteq> [] \<and> list_all (\<lambda>r. 48 \<le> r \<and> r \<le> 57) (runes s)"

definition has_suffix :: "string \<Rightarrow> string \<Rightarrow> bool" where
  "has_suffix s p \<longleftrightarrow> length p \<le> length s \<and> drop (length s - length p) s = p"

text \<open>\<open>resourceHandleShapeRE.ReplaceAllString(s, "")\<close>: every \<open>res://\<close> with its digits is dropped.\<close>

function strip_handles :: "string \<Rightarrow> string" where
  "strip_handles s = (case s of [] \<Rightarrow> [] | c # r \<Rightarrow>
     if has_prefix s res_scheme \<and> drop 6 s \<noteq> [] \<and> is_digit (hd (drop 6 s))
     then strip_handles (dropWhile is_digit (drop 6 s)) else c # strip_handles r)"
  by pat_completeness auto
termination
proof (relation "measure length")
  fix s c r
  assume "s = c # (r :: string)" "has_prefix s res_scheme \<and> drop 6 s \<noteq> [] \<and> is_digit (hd (drop 6 s))"
  then show "(dropWhile is_digit (drop 6 s), s) \<in> measure length"
    using length_dropWhile_le [of is_digit "drop 6 s"] by (simp add: le_imp_less_Suc le_trans)
qed auto

declare strip_handles.simps [simp del]

definition orphan_hold_len :: "string \<Rightarrow> nat" where
  "orphan_hold_len combined =
     (let at_prefix = foldl (\<lambda>at n. if has_suffix combined (take n res_scheme) then Some (length combined - n) else at) None [1..<6];
          hold_at = (case str_last_index res_scheme combined of
              None \<Rightarrow> at_prefix
            | Some idx \<Rightarrow> (let digits = drop (idx + 6) combined in
                if digits = [] \<or> all_digits digits then Some idx else at_prefix))
      in case hold_at of None \<Rightarrow> 0 | Some at \<Rightarrow> length combined - at)"

definition orphan_flush :: "string \<Rightarrow> string" where
  "orphan_flush pending =
     (if has_prefix res_scheme pending \<and> 4 \<le> length pending then []
      else if has_prefix pending res_scheme \<and> (drop 6 pending = [] \<or> all_digits (drop 6 pending)) then []
      else strip_handles pending)"

definition orphan_stream :: "string list \<Rightarrow> string" where
  "orphan_stream chunks = hold_run orphan_hold_len strip_handles orphan_flush chunks []"

section \<open>What can still grow into a handle\<close>

text \<open>The suffix from the last letter r on, the only place where a handle can be open.\<close>

fun last_r :: "string \<Rightarrow> string" where
  "last_r [] = []"
| "last_r (c # s) = (if CHR ''r'' \<in> set s then last_r s else if c = CHR ''r'' then c # s else [])"

definition open_handle :: "string \<Rightarrow> bool" where
  "open_handle q \<longleftrightarrow> (\<exists>n \<in> {1..<6}. q = take n res_scheme) \<or> (\<exists>ds. q = res_scheme @ ds \<and> (\<forall>c \<in> set ds. is_digit c))"

lemma last_r_none: "CHR ''r'' \<notin> set s \<Longrightarrow> last_r s = []"
  by (cases s) auto

lemma last_r_some: "CHR ''r'' \<in> set s \<Longrightarrow> last_r s \<noteq> []"
  by (induction s) auto

lemma last_r_append:
  "last_r (s @ x) = (if CHR ''r'' \<in> set x then last_r x else if CHR ''r'' \<in> set s then last_r s @ x else [])"
  by (induction s) (auto simp: last_r_none)

lemma last_r_suffix: "\<exists>p. s = p @ last_r s"
proof (induction s)
  case (Cons c s)
  then obtain p where "s = p @ last_r s" by blast
  then show ?case by (cases "CHR ''r'' \<in> set s"; cases "c = CHR ''r''") (auto intro: exI [of _ "c # p"] exI [of _ "[]"])
qed simp

lemma digit_not_r: "is_digit c \<Longrightarrow> c \<noteq> CHR ''r''"
  by (auto simp: is_digit_def)

lemma length_scheme: "length res_scheme = 6"
  by (simp add: res_scheme_def)

lemma open_handle_shape: "open_handle q \<Longrightarrow> \<exists>t. q = CHR ''r'' # t \<and> CHR ''r'' \<notin> set t"
proof -
  assume "open_handle q"
  then consider n where "1 \<le> n" "n < 6" "q = take n res_scheme" | ds where "q = res_scheme @ ds" "\<forall>c \<in> set ds. is_digit c"
    by (auto simp: open_handle_def)
  then show ?thesis
  proof cases
    case (1 n)
    then have "n = 1 \<or> n = 2 \<or> n = 3 \<or> n = 4 \<or> n = 5" by linarith
    then show ?thesis using 1(3) by (auto simp: res_scheme_def)
  next
    case (2 ds)
    then show ?thesis using digit_not_r by (auto simp: res_scheme_def)
  qed
qed

lemma open_handle_unique: "open_handle q \<Longrightarrow> last_r (p @ q) = q"
  using open_handle_shape [of q] by (auto simp: last_r_append)

lemma not_open_Nil [simp]: "\<not> open_handle []"
  using open_handle_shape by blast

text \<open>A text that continues an open handle was one before.\<close>

lemma open_handle_prefix: "open_handle (q @ x) \<Longrightarrow> q \<noteq> [] \<Longrightarrow> open_handle q"
proof -
  assume o: "open_handle (q @ x)" and q: "q \<noteq> []"
  from o consider n where "1 \<le> n" "n < 6" "q @ x = take n res_scheme" | ds where "q @ x = res_scheme @ ds" "\<forall>c \<in> set ds. is_digit c"
    by (auto simp: open_handle_def)
  then show ?thesis
  proof cases
    case (1 n)
    then have "q = take (length q) (take n res_scheme)" by (metis append_eq_conv_conj)
    moreover have "length q \<le> n" using 1 by (metis length_append length_take le_add1 min.bounded_iff)
    ultimately show ?thesis using 1(2) q unfolding open_handle_def
      by (intro disjI1 bexI [of _ "length q"]) (auto simp: Suc_le_eq)
  next
    case (2 ds)
    show ?thesis
    proof (cases "length q < 6")
      case True
      have "q = take (length q) (res_scheme @ ds)" using 2 by (metis append_eq_conv_conj)
      then have "q = take (length q) res_scheme" using True by (simp add: length_scheme)
      then show ?thesis using True q unfolding open_handle_def
        by (intro disjI1 bexI [of _ "length q"]) (auto simp: Suc_le_eq)
    next
      case False
      then have "take 6 q = res_scheme" using arg_cong [OF 2(1), of "take 6"] by (simp add: length_scheme)
      then have q: "q = res_scheme @ drop 6 q" by (metis append_take_drop_id)
      then have "ds = drop 6 q @ x" using 2(1) by (metis append.assoc same_append_eq)
      then show ?thesis using 2(2) q unfolding open_handle_def by (intro disjI2 exI [of _ "drop 6 q"]) simp
    qed
  qed
qed

section \<open>Digits, runes and positions\<close>

lemma rune_small: "fst (decode_rune (c # cs)) < 0x80 \<Longrightarrow> decode_rune (c # cs) = (of_char c, 1)"
proof -
  assume r: "fst (decode_rune (c # cs)) < 0x80"
  show ?thesis
    using decode_rune_classes [of "of_char c"]
  proof (elim disjE conjE)
    assume "(of_char c :: nat) < 0x80"
    then show ?thesis by simp
  next
    assume "\<not> (of_char c :: nat) < 0x80" "0xC2 \<le> (of_char c :: nat)" "(of_char c :: nat) < 0xE0"
    then show ?thesis using r by (cases cs) (auto simp: decode_rune_cons Let_def rune_error_def simp del: decode_rune.simps split: if_splits)
  next
    assume b: "\<not> (of_char c :: nat) < 0x80" "\<not> (0xC2 \<le> (of_char c :: nat) \<and> (of_char c :: nat) < 0xE0)"
      "0xE0 \<le> (of_char c :: nat)" "(of_char c :: nat) < 0xF0"
    then have "decode_rune (c # cs) = (case cs of c1 # c2 # t \<Rightarrow> dec3 c c1 c2 | _ \<Rightarrow> (rune_error, 1))"
      by (simp add: decode_rune_cons Let_def del: decode_rune.simps)
    moreover have "\<not> fst (dec3 c c1 c2) < 0x80" for c1 c2 by (simp add: dec3_def rune_error_def Let_def)
    ultimately show ?thesis using r by (auto simp: rune_error_def simp del: decode_rune.simps split: list.splits)
  next
    assume b: "\<not> (of_char c :: nat) < 0x80" "\<not> (0xC2 \<le> (of_char c :: nat) \<and> (of_char c :: nat) < 0xE0)"
      "\<not> (0xE0 \<le> (of_char c :: nat) \<and> (of_char c :: nat) < 0xF0)" "0xF0 \<le> (of_char c :: nat)" "(of_char c :: nat) < 0xF5"
    then have "decode_rune (c # cs) = (case cs of c1 # c2 # c3 # t \<Rightarrow> dec4 c c1 c2 c3 | _ \<Rightarrow> (rune_error, 1))"
      by (simp add: decode_rune_cons Let_def del: decode_rune.simps)
    moreover have "\<not> fst (dec4 c c1 c2 c3) < 0x80" for c1 c2 c3 by (simp add: dec4_def rune_error_def Let_def)
    ultimately show ?thesis using r by (auto simp: rune_error_def simp del: decode_rune.simps split: list.splits)
  next
    assume "\<not> (of_char c :: nat) < 0x80" "\<not> (0xC2 \<le> (of_char c :: nat) \<and> (of_char c :: nat) < 0xE0)"
      "\<not> (0xE0 \<le> (of_char c :: nat) \<and> (of_char c :: nat) < 0xF0)"
      "\<not> (0xF0 \<le> (of_char c :: nat) \<and> (of_char c :: nat) < 0xF5)"
    then have "decode_rune (c # cs) = (rune_error, 1)" by (simp only: decode_rune_cons Let_def if_False)
    then show ?thesis using r by (simp add: rune_error_def)
  qed
qed

lemma runes_digits: "list_all (\<lambda>r. 48 \<le> r \<and> r \<le> 57) (runes s) \<longleftrightarrow> (\<forall>c \<in> set s. is_digit c)"
proof (induction s)
  case (Cons c s)
  show ?case
  proof (cases "(of_char c :: nat) < 0x80")
    case True
    then show ?thesis using Cons by (simp add: runes_def rune_segs_ascii is_digit_def)
  next
    case False
    have "\<not> fst (decode_rune (c # s)) < 0x80" using rune_small [of c s] False by auto
    then have "\<not> list_all (\<lambda>r. 48 \<le> r \<and> r \<le> 57) (runes (c # s))"
      by (simp add: runes_def rune_segs.simps [of "c # s"] split_beta del: decode_rune.simps)
    then show ?thesis using False by (auto simp: is_digit_def)
  qed
qed (simp add: runes_def)

lemma all_digits_iff: "s = [] \<or> all_digits s \<longleftrightarrow> (\<forall>c \<in> set s. is_digit c)"
  by (auto simp: all_digits_def runes_digits)

lemma has_suffix_iff: "has_suffix s p \<longleftrightarrow> (\<exists>q. s = q @ p)"
  by (auto simp: has_suffix_def intro: exI [of _ "take (length s - length p) s"]) (metis append_take_drop_id)

lemma last_index_Some:
  "str_last_index sub s = Some i \<Longrightarrow> i \<le> length s \<and> has_prefix (drop i s) sub"
  by (induction s arbitrary: i) (auto simp: has_prefix_def split: option.splits if_splits)

lemma last_index_above:
  "has_prefix (drop j s) sub \<Longrightarrow> j \<le> length s \<Longrightarrow> \<exists>i. str_last_index sub s = Some i \<and> j \<le> i"
proof (induction s arbitrary: j)
  case (Cons c s)
  show ?case
  proof (cases j)
    case 0
    then show ?thesis using Cons.prems by (auto split: option.split)
  next
    case (Suc k)
    then obtain i where "str_last_index sub s = Some i" "k \<le> i" using Cons.IH [of k] Cons.prems by auto
    then show ?thesis using Suc by auto
  qed
qed (simp add: has_prefix_def)

lemma foldl_last_match:
  "(\<And>n. n \<in> set ns \<Longrightarrow> P n \<Longrightarrow> f n = v) \<Longrightarrow>
   foldl (\<lambda>at n. if P n then Some (f n) else at) init ns = (if \<exists>n \<in> set ns. P n then Some v else init)"
  by (induction ns arbitrary: init) auto

section \<open>The filter follows the open handle\<close>

lemma orphan_hold_len_open:
  "orphan_hold_len s = (if open_handle (last_r s) then length (last_r s) else 0)"
proof -
  obtain p where p: "s = p @ last_r s" using last_r_suffix by blast
  have pre: "take n res_scheme = last_r s" if suf: "has_suffix s (take n res_scheme)" and n: "n \<in> set [1..<6]" for n
  proof -
    obtain q where "s = q @ take n res_scheme" using suf unfolding has_suffix_iff by blast
    moreover have "open_handle (take n res_scheme)" using n unfolding open_handle_def by auto
    ultimately show ?thesis using open_handle_unique by metis
  qed
  define at_prefix where "at_prefix = foldl (\<lambda>at n. if has_suffix s (take n res_scheme) then Some (length s - n) else at) None [1..<6]"
  have at_prefix: "at_prefix
      = (if \<exists>n \<in> set [1..<6]. has_suffix s (take n res_scheme) then Some (length s - length (last_r s)) else None)"
    unfolding at_prefix_def
  proof (rule foldl_last_match)
    fix n assume n: "n \<in> set [1..<6]" "has_suffix s (take n res_scheme)"
    have "length (take n res_scheme) = n" using n(1) by (simp add: length_scheme)
    then have "n = length (last_r s)" by (simp only: pre [OF n(2,1)])
    then show "length s - n = length s - length (last_r s)" by simp
  qed
  have le: "length (last_r s) \<le> length s" using arg_cong [OF p, of length] by simp
  show ?thesis
  proof (cases "\<exists>idx. str_last_index res_scheme s = Some idx \<and> (\<forall>c \<in> set (drop (idx + 6) s). is_digit c)")
    case True
    then obtain idx where idx: "str_last_index res_scheme s = Some idx" "\<forall>c \<in> set (drop (idx + 6) s). is_digit c" by blast
    then have "has_prefix (drop idx s) res_scheme" "idx \<le> length s" using last_index_Some [OF idx(1)] by blast+
    then have d: "drop idx s = res_scheme @ drop (idx + 6) s"
      by (metis add.commute append_take_drop_id drop_drop has_prefix_def length_scheme)
    then have o: "open_handle (drop idx s)" using idx(2) unfolding open_handle_def by blast
    have "last_r s = drop idx s" using open_handle_unique [OF o, of "take idx s"] by simp
    moreover have "orphan_hold_len s = length s - idx"
      using idx all_digits_iff [of "drop (idx + 6) s"] by (simp add: orphan_hold_len_def Let_def)
    ultimately show ?thesis using o by simp
  next
    case False
    have hold: "orphan_hold_len s = (case at_prefix of None \<Rightarrow> 0 | Some at \<Rightarrow> length s - at)"
      using False unfolding orphan_hold_len_def Let_def at_prefix_def [symmetric] all_digits_iff
      by (cases "str_last_index res_scheme s") auto
    have no_digits: "\<not> (\<exists>ds. last_r s = res_scheme @ ds \<and> (\<forall>c \<in> set ds. is_digit c))"
    proof
      assume "\<exists>ds. last_r s = res_scheme @ ds \<and> (\<forall>c \<in> set ds. is_digit c)"
      then obtain ds where ds: "last_r s = res_scheme @ ds" "\<forall>c \<in> set ds. is_digit c" by blast
      then have "has_prefix (drop (length p) s) res_scheme" "length p \<le> length s"
        using p by (metis append_eq_conv_conj has_prefix_append, metis le_add1 length_append)
      then obtain i where i: "str_last_index res_scheme s = Some i" "length p \<le> i" using last_index_above by blast
      have pi: "has_prefix (drop i s) res_scheme" using last_index_Some [OF i(1)] by simp
      have "drop i s = drop (i - length p) (last_r s)" using p i(2) by (metis drop_append append_Nil drop_all)
      have "i = length p"
      proof (rule ccontr)
        assume "i \<noteq> length p"
        then obtain k where k: "i - length p = Suc k" using i(2) by (metis Suc_diff_Suc diff_is_0_eq' le_neq_implies_less not0_implies_Suc)
        obtain t where t: "last_r s = CHR ''r'' # t" "CHR ''r'' \<notin> set t"
          using open_handle_shape [of "last_r s"] ds unfolding open_handle_def by blast
        have "drop i s = drop k t" using \<open>drop i s = drop (i - length p) (last_r s)\<close> k t(1) by simp
        then have "CHR ''r'' \<notin> set (drop i s)" using t(2) by (metis in_set_dropD)
        then show False using pi by (auto simp: has_prefix_conv res_scheme_def)
      qed
      then have "drop (i + 6) s = ds" using p ds(1)
        by (metis add.commute append_eq_conv_conj drop_drop length_scheme)
      then show False using False i(1) ds(2) by blast
    qed
    show ?thesis
    proof (cases "\<exists>n \<in> set [1..<6]. has_suffix s (take n res_scheme)")
      case True
      then have "open_handle (last_r s)" using pre by (auto simp: open_handle_def)
      then show ?thesis using hold at_prefix True le by simp
    next
      case no: False
      have "\<not> open_handle (last_r s)"
      proof
        assume "open_handle (last_r s)"
        then obtain n where "n \<in> {1..<6}" "last_r s = take n res_scheme" using no_digits unfolding open_handle_def by blast
        then show False using no p unfolding has_suffix_iff by (metis set_upt)
      qed
      then show ?thesis using hold at_prefix no by simp
    qed
  qed
qed

section \<open>Stripping in parts\<close>

lemma digits_append:
  "dropWhile is_digit (s @ x) = (if \<forall>c \<in> set s. is_digit c then dropWhile is_digit x else dropWhile is_digit s @ x)"
  by (induction s) auto

lemma dropWhile_digits_r: "b = [] \<or> hd b = CHR ''r'' \<Longrightarrow> dropWhile is_digit b = b"
  using digit_not_r by (cases b) auto

lemma strip_plain:
  "\<not> (has_prefix (c # s) res_scheme \<and> drop 6 (c # s) \<noteq> [] \<and> is_digit (hd (drop 6 (c # s)))) \<Longrightarrow>
   strip_handles (c # s) = c # strip_handles s"
  by (subst strip_handles.simps) auto

lemma strip_match:
  "has_prefix s res_scheme \<Longrightarrow> drop 6 s \<noteq> [] \<Longrightarrow> is_digit (hd (drop 6 s)) \<Longrightarrow>
   strip_handles s = strip_handles (dropWhile is_digit (drop 6 s))"
  by (subst strip_handles.simps) (cases s, auto)

lemma strip_Nil [simp]: "strip_handles [] = []"
  by (simp add: strip_handles.simps)

lemma last_r_drop: "\<not> open_handle (last_r (p @ s)) \<Longrightarrow> \<not> open_handle (last_r s)"
  using last_r_none [of s] by (cases "CHR ''r'' \<in> set s") (simp_all add: last_r_append)

text \<open>A prefix of the scheme at the very end of a text is an open handle.\<close>

lemma scheme_prefix_open: "q \<noteq> [] \<Longrightarrow> length q \<le> 6 \<Longrightarrow> has_prefix (q @ b) res_scheme \<Longrightarrow> open_handle q"
proof -
  assume q: "q \<noteq> []" "length q \<le> 6" "has_prefix (q @ b) res_scheme"
  then obtain r where "q @ b = res_scheme @ r" by (auto simp: has_prefix_conv)
  then have "q = take (length q) res_scheme" using q(2)
    by (metis append_eq_conv_conj length_scheme take_all take_append diff_is_0_eq' append_Nil2 take_0)
  then show ?thesis using q(1,2)
  proof (cases "length q = 6")
    case True
    then have "q = res_scheme @ []" using \<open>q = take (length q) res_scheme\<close> by (simp add: length_scheme)
    then show ?thesis unfolding open_handle_def by (intro disjI2 exI [of _ "[]"]) simp
  next
    case False
    then have "length q \<in> {1..<6}" using q(1,2) by (auto simp: Suc_le_eq)
    then show ?thesis using \<open>q = take (length q) res_scheme\<close> unfolding open_handle_def by blast
  qed
qed

lemma scheme_one_r: "0 < i \<Longrightarrow> i < 6 \<Longrightarrow> (res_scheme @ x) ! i \<noteq> CHR ''r''"
proof -
  assume "0 < i" "i < 6"
  then have "i = 1 \<or> i = 2 \<or> i = 3 \<or> i = 4 \<or> i = 5" by linarith
  then show ?thesis by (auto simp: res_scheme_def)
qed

lemma strip_cut:
  "b = [] \<or> hd b = CHR ''r'' \<or> \<not> open_handle (last_r a) \<Longrightarrow> strip_handles (a @ b) = strip_handles a @ strip_handles b"
proof (induction a rule: strip_handles.induct)
  case (1 a)
  show ?case
  proof (cases a)
    case (Cons c r)
    show ?thesis
    proof (cases "has_prefix a res_scheme \<and> drop 6 a \<noteq> [] \<and> is_digit (hd (drop 6 a))")
      case True
      then have len: "6 \<le> length a" by auto
      have ab: "has_prefix (a @ b) res_scheme" using True by (auto simp: has_prefix_conv)
      have strip_a: "strip_handles a = strip_handles (dropWhile is_digit (drop 6 a))" using True by (simp add: strip_match)
      have strip_ab: "strip_handles (a @ b) = strip_handles (dropWhile is_digit (drop 6 a @ b))"
        using strip_match [OF ab] True len by simp
      show ?thesis
      proof (cases "\<forall>x \<in> set (drop 6 a). is_digit x")
        case digits: True
        have "a = res_scheme @ drop 6 a" using True by (metis append_take_drop_id has_prefix_def length_scheme)
        then have o: "open_handle a" using digits unfolding open_handle_def by metis
        then have "last_r a = a" using open_handle_unique [OF o, of "[]"] by simp
        then have "dropWhile is_digit b = b" using "1.prems" o dropWhile_digits_r by auto
        then show ?thesis using strip_a strip_ab digits digits_append [of "drop 6 a" b] dropWhile_none [OF digits] by simp
      next
        case False
        obtain p where "a = p @ dropWhile is_digit (drop 6 a)" by (metis append_take_drop_id append.assoc takeWhile_dropWhile_id)
        then have "b = [] \<or> hd b = CHR ''r'' \<or> \<not> open_handle (last_r (dropWhile is_digit (drop 6 a)))"
          using "1.prems" last_r_drop by metis
        then have "strip_handles (dropWhile is_digit (drop 6 a) @ b) = strip_handles (dropWhile is_digit (drop 6 a)) @ strip_handles b"
          using "1.IH"(1) [OF Cons True] by blast
        then show ?thesis using strip_a strip_ab False digits_append [of "drop 6 a" b] by simp
      qed
    next
      case False
      have no: "\<not> (has_prefix (a @ b) res_scheme \<and> drop 6 (a @ b) \<noteq> [] \<and> is_digit (hd (drop 6 (a @ b))))"
      proof
        assume m: "has_prefix (a @ b) res_scheme \<and> drop 6 (a @ b) \<noteq> [] \<and> is_digit (hd (drop 6 (a @ b)))"
        show False
        proof (cases "6 < length a")
          case True
          then have "has_prefix a res_scheme" using m by (simp add: has_prefix_def length_scheme)
          then show False using False True m by auto
        next
          case short: False
          have o: "open_handle a" by (rule scheme_prefix_open) (use Cons short m in auto)
          then have "last_r a = a" using open_handle_unique [OF o, of "[]"] by simp
          then have b: "b = [] \<or> hd b = CHR ''r''" using "1.prems" o by simp
          have "b \<noteq> []" using m short by auto
          then obtain b' where b': "b = CHR ''r'' # b'" using b by (cases b) auto
          have "(a @ b) ! length a = CHR ''r''" using b' by simp
          moreover obtain r' where r': "a @ b = res_scheme @ r'" using m by (auto simp: has_prefix_conv)
          moreover have "0 < length a" using Cons by simp
          ultimately have "length a = 6" using short scheme_one_r [of "length a" r'] by (metis linorder_neqE_nat)
          then show False using m b' by (auto simp: is_digit_def)
        qed
      qed
      have "b = [] \<or> hd b = CHR ''r'' \<or> \<not> open_handle (last_r r)"
        using "1.prems" last_r_drop [of "[c]" r] Cons by auto
      then have IH: "strip_handles (r @ b) = strip_handles r @ strip_handles b" using "1.IH"(2) [OF Cons False] by blast
      show ?thesis using strip_plain [of c "r @ b"] strip_plain [of c r] no False IH Cons by simp
    qed
  qed simp
qed

section \<open>The filter is a hold\<close>

lemma held_orphan: "held_text orphan_hold_len s = (if open_handle (last_r s) then last_r s else [])"
proof -
  obtain p where p: "s = p @ last_r s" using last_r_suffix by blast
  then have "drop (length s - length (last_r s)) s = last_r s" by (metis append_eq_conv_conj diff_add_inverse2 length_append)
  then show ?thesis by (simp add: held_text_def orphan_hold_len_open)
qed

lemma orphan_hold_le: "orphan_hold_len s \<le> length s"
proof -
  obtain p where p: "s = p @ last_r s" using last_r_suffix by blast
  then have "length (last_r s) \<le> length s" by (metis le_add2 length_append)
  then show ?thesis by (simp add: orphan_hold_len_open)
qed

lemma orphan_hold_later: "orphan_hold_len (s @ x) = orphan_hold_len (held_text orphan_hold_len s @ x)"
proof (cases "CHR ''r'' \<in> set x")
  case True
  then show ?thesis by (simp add: orphan_hold_len_open last_r_append)
next
  case no_r: False
  show ?thesis
  proof (cases "open_handle (last_r s)")
    case True
    then obtain t where t: "last_r s = CHR ''r'' # t" "CHR ''r'' \<notin> set t" using open_handle_shape by blast
    have r: "CHR ''r'' \<in> set s" using last_r_suffix [of s] t(1) by (metis in_set_conv_decomp)
    have "last_r (last_r s @ x) = last_r s @ x" using no_r t by (simp add: last_r_append last_r_none)
    moreover have "last_r (s @ x) = last_r s @ x" using no_r r by (simp add: last_r_append)
    ultimately show ?thesis using True by (simp add: held_orphan orphan_hold_len_open)
  next
    case False
    have "last_r s = [] \<or> \<not> open_handle (last_r s @ x)" using open_handle_prefix False by blast
    then have "\<not> open_handle (last_r (s @ x))"
      using no_r last_r_none [of s] last_r_some [of s] by (cases "CHR ''r'' \<in> set s") (auto simp: last_r_append)
    then show ?thesis using False no_r by (simp add: held_orphan orphan_hold_len_open last_r_none)
  qed
qed

lemma settled_orphan_open: "settled_text orphan_hold_len (q @ x) = [] \<or> q = [] \<or> hd (settled_text orphan_hold_len (q @ x)) = hd q"
  by (cases q) (auto simp: settled_text_def take_Cons')

lemma orphan_parts:
  "strip_handles (settled_text orphan_hold_len s @ settled_text orphan_hold_len (held_text orphan_hold_len s @ x))
   = strip_handles (settled_text orphan_hold_len s) @ strip_handles (settled_text orphan_hold_len (held_text orphan_hold_len s @ x))"
proof (rule strip_cut)
  let ?b = "settled_text orphan_hold_len (held_text orphan_hold_len s @ x)"
  show "?b = [] \<or> hd ?b = CHR ''r'' \<or> \<not> open_handle (last_r (settled_text orphan_hold_len s))"
  proof (cases "open_handle (last_r s)")
    case True
    then obtain t where "held_text orphan_hold_len s = CHR ''r'' # t" using open_handle_shape by (fastforce simp: held_orphan)
    then show ?thesis using settled_orphan_open [of "held_text orphan_hold_len s" x] by auto
  next
    case False
    then have "settled_text orphan_hold_len s = s" by (simp add: settled_text_def orphan_hold_len_open)
    then show ?thesis using False by simp
  qed
qed

interpretation orphans: suffix_hold orphan_hold_len strip_handles
  by unfold_locales (rule orphan_hold_le orphan_hold_later strip_Nil orphan_parts)+

section \<open>Property\<close>

text \<open>What the end of the stream drops: a text that breaks off inside the scheme.\<close>

definition drop_cut_scheme :: "string \<Rightarrow> string" where
  "drop_cut_scheme s =
     (if has_suffix s ''res:'' then take (length s - 4) s
      else if has_suffix s ''res:/'' then take (length s - 5) s
      else if has_suffix s ''res://'' then take (length s - 6) s else s)"

lemma scheme_suffix_open: "n \<in> {4, 5, 6} \<Longrightarrow> has_suffix s (take n res_scheme) \<Longrightarrow> last_r s = take n res_scheme"
proof -
  assume n: "n \<in> {4, 5, 6}" "has_suffix s (take n res_scheme)"
  have "open_handle (take n res_scheme)"
  proof (cases "n = 6")
    case True
    then show ?thesis unfolding open_handle_def by (intro disjI2 exI [of _ "[]"]) (simp add: length_scheme)
  next
    case False
    then show ?thesis using n(1) unfolding open_handle_def by auto
  qed
  then show ?thesis using n(2) open_handle_unique unfolding has_suffix_iff by metis
qed

lemma scheme_takes: "take 4 res_scheme = ''res:''" "take 5 res_scheme = ''res:/''" "take 6 res_scheme = ''res://''"
  by (simp_all add: res_scheme_def)

lemma open_schemes: "open_handle ''res:''" "open_handle ''res:/''" "open_handle ''res://''"
proof -
  show "open_handle ''res:''" "open_handle ''res:/''"
    unfolding open_handle_def by (intro disjI1 bexI [of _ 4] bexI [of _ 5]; simp add: scheme_takes)+
  show "open_handle ''res://''"
    unfolding open_handle_def by (intro disjI2 exI [of _ "[]"]) (simp add: res_scheme_def)
qed

lemma drop_cut_other: "last_r s \<notin> {''res:'', ''res:/'', ''res://''} \<Longrightarrow> drop_cut_scheme s = s"
  using scheme_suffix_open [of 4 s] scheme_suffix_open [of 5 s] scheme_suffix_open [of 6 s]
  by (auto simp: drop_cut_scheme_def scheme_takes)

lemma orphan_end:
  assumes "s = a @ q" "open_handle q"
  shows "strip_handles a @ orphan_flush q = strip_handles (drop_cut_scheme s)"
proof -
  have lr: "last_r s = q" using open_handle_unique [OF assms(2)] assms(1) by simp
  have cut: "strip_handles (a @ q) = strip_handles a @ strip_handles q"
    by (rule strip_cut) (use open_handle_shape [OF assms(2)] in auto)
  consider n where "n \<in> {1, 2, 3 :: nat}" "q = take n res_scheme" | n where "n \<in> {4, 5 :: nat}" "q = take n res_scheme"
    | ds where "q = res_scheme @ ds" "\<forall>c \<in> set ds. is_digit c"
  proof (cases "\<exists>n \<in> {1..<6}. q = take n res_scheme")
    case True
    then obtain n where n: "n \<in> {1..<6}" "q = take n res_scheme" by blast
    then have "n \<in> {1, 2, 3} \<or> n \<in> {4, 5}" by auto
    then show thesis
    proof
      assume "n \<in> {1, 2, 3}"
      then show thesis by (rule that(1)) (rule n(2))
    next
      assume "n \<in> {4, 5}"
      then show thesis by (rule that(2)) (rule n(2))
    qed
  next
    case False
    then show thesis using assms(2) that(3) unfolding open_handle_def by blast
  qed
  then show ?thesis
  proof cases
    case (1 n)
    then have "q = ''r'' \<or> q = ''re'' \<or> q = ''res''" by (auto simp: res_scheme_def)
    then have "orphan_flush q = strip_handles q" "drop_cut_scheme s = s" using lr drop_cut_other [of s]
      by (auto simp: orphan_flush_def has_prefix_def res_scheme_def)
    then show ?thesis using cut assms(1) by simp
  next
    case (2 n)
    then have q: "q = ''res:'' \<or> q = ''res:/''" by (auto simp: res_scheme_def)
    then have "orphan_flush q = []" by (auto simp: orphan_flush_def has_prefix_def res_scheme_def)
    moreover have "drop_cut_scheme s = a" using q assms(1) by (auto simp: drop_cut_scheme_def has_suffix_def)
    ultimately show ?thesis by simp
  next
    case (3 ds)
    have flush: "orphan_flush q = []"
      using 3 all_digits_iff [of ds] by (auto simp: orphan_flush_def length_scheme)
    show ?thesis
    proof (cases "ds = []")
      case True
      then have q: "q = ''res://''" using 3 by (simp add: res_scheme_def)
      then have "drop_cut_scheme s = a" using assms(1) by (auto simp: drop_cut_scheme_def has_suffix_def)
      then show ?thesis using flush by simp
    next
      case False
      then have "strip_handles q = []" using 3 strip_match [of q] dropWhile_none [of ds is_digit]
        by (auto simp: length_scheme)
      moreover have "drop_cut_scheme s = s" by (rule drop_cut_other) (use 3 False lr in \<open>auto simp: res_scheme_def\<close>)
      ultimately show ?thesis using flush cut assms(1) by simp
    qed
  qed
qed

text \<open>
  The stream filter for unresolved resource handles shows the reader exactly what filtering
  the whole answer would: wherever the provider cuts the text, between any two bytes, the output
  over all chunks is the whole text without its handle-shaped tokens, and without a scheme the
  text breaks off in.
\<close>

theorem orphan_filter_ignores_cuts: "orphan_stream chunks = strip_handles (drop_cut_scheme (concat chunks))"
proof -
  let ?s = "concat chunks"
  have out: "orphan_stream chunks = strip_handles (settled_text orphan_hold_len ?s) @ orphan_flush (held_text orphan_hold_len ?s)"
    unfolding orphan_stream_def by (rule orphans.cuts_do_not_show)
  show ?thesis
  proof (cases "open_handle (last_r ?s)")
    case True
    then show ?thesis unfolding out held_orphan
      using orphan_end [OF _ True, of ?s "settled_text orphan_hold_len ?s"] orphans.settled_held [of ?s] held_orphan [of ?s] by simp
  next
    case False
    have "last_r ?s \<notin> {''res:'', ''res:/'', ''res://''}"
      using False open_schemes by auto
    then have "drop_cut_scheme ?s = ?s" by (rule drop_cut_other)
    moreover have "orphan_flush [] = []" by (simp add: orphan_flush_def has_prefix_def res_scheme_def)
    ultimately show ?thesis using False out by (simp add: held_orphan settled_text_def orphan_hold_len_open)
  qed
qed

section \<open>Decoding the handles of a table\<close>

definition word_byte :: "char \<Rightarrow> bool" where
  "word_byte c \<longleftrightarrow> (let b = of_char c :: nat in
     (48 \<le> b \<and> b \<le> 57) \<or> (65 \<le> b \<and> b \<le> 90) \<or> (97 \<le> b \<and> b \<le> 122) \<or> b = 95)"

definition is_handle_token_byte :: "char \<Rightarrow> bool" where
  "is_handle_token_byte c \<longleftrightarrow> word_byte c \<or> c = CHR ''-''"

text \<open>Replacing a handle between word boundaries; \<open>prev\<close> is the byte before the rest of the text.\<close>

function replace_bounded :: "string \<Rightarrow> string \<Rightarrow> char option \<Rightarrow> string \<Rightarrow> string" where
  "replace_bounded h v prev s = (case s of [] \<Rightarrow> [] | c # r \<Rightarrow>
     if h \<noteq> [] \<and> has_prefix s h
        \<and> (case prev of None \<Rightarrow> False | Some p \<Rightarrow> word_byte p) \<noteq> word_byte (hd h)
        \<and> (case drop (length h) s of [] \<Rightarrow> False | n # _ \<Rightarrow> word_byte n) \<noteq> word_byte (last h)
     then v @ replace_bounded h v (Some (last h)) (drop (length h) s)
     else c # replace_bounded h v (Some c) r)"
  by pat_completeness auto
termination by (relation "measure (\<lambda>(h, v, prev, s). length s)") auto

declare replace_bounded.simps [simp del]

definition decode_known_text :: "unit handle_table \<Rightarrow> string \<Rightarrow> string" where
  "decode_known_text t s =
     foldl (\<lambda>s (h, e). replace_bounded h (he_value e) None s) s (sort_key (\<lambda>(h, e). - int (length h)) (mt_entries t))"

definition could_be_numeric_handle :: "string \<Rightarrow> string \<Rightarrow> bool" where
  "could_be_numeric_handle v pre =
     (if v = [] \<or> pre = [] then False
      else if has_prefix pre v then True
      else if \<not> has_prefix v pre \<or> length v = length pre then False
      else list_all (\<lambda>r. 48 \<le> r \<and> r \<le> 57) (runes (drop (length pre) v)))"

definition handle_hold_len :: "string \<Rightarrow> string \<Rightarrow> nat" where
  "handle_hold_len pre combined =
     (let tail = rev (takeWhile is_handle_token_byte (rev combined))
      in if could_be_numeric_handle tail pre then length tail else 0)"

definition handle_stream :: "unit handle_table \<Rightarrow> string list \<Rightarrow> string" where
  "handle_stream t chunks = hold_run (handle_hold_len (mt_prefix t)) (decode_known_text t) (decode_known_text t) chunks []"

text \<open>
  Here the cuts do show: the decoder releases a token that cannot be a handle and forgets its last
  byte, so a handle at the start of the next chunk counts as a word of its own.
\<close>

lemma cut_inside_word:
  "handle_stream (snd (register_value ''issue-7'' (new_handle_table ''i'' 0 1))) [''Hawaii1''] = ''Hawaii1''
   \<and> handle_stream (snd (register_value ''issue-7'' (new_handle_table ''i'' 0 1))) [''Hawai'', ''i1''] = ''Hawaiissue-7''"
proof -
  have t: "snd (register_value ''issue-7'' (new_handle_table ''i'' 0 1))
    = \<lparr>mt_prefix = ''i'', mt_width = 0, mt_next = 2, mt_by_key = [(''issue-7'', ''i1'')],
        mt_entries = [(''i1'', \<lparr>he_value = ''issue-7'', he_meta = ()\<rparr>)]\<rparr>"
    by (simp add: register_value_def trim_space_id is_space_def Let_def register_def new_handle_table_def format_number_def itoa.simps char_of_def bit_0)
  show ?thesis unfolding t by code_simp
qed

end
