(* ===== verification/TeamDb.thy ===== *)
theory TeamDb
  imports AccessRoles Programs
begin

text \<open>
  The tables behind the members of a workspace: memberships, invitations, users with their
  home workspace and sessions, and the audit log, with the statements issued by
  \<open>internal/application/repository/tenant_member.go\<close>, \<open>tenant_invitation.go\<close>, \<open>user.go\<close> and
  \<open>audit_log.go\<close>. The unique indexes are those of the PostgreSQL schema.

  Creating an invitation is two statements although the code opens a transaction: nothing is locked
  between the look for a pending row and the insert. Demoting and removing an owner is one
  statement: the transaction locks the other owners, and every write that could take an owner away
  waits for that lock or is ordered before the count. Row identifiers of memberships, which no rule
  reads, and update times are left out; no code deletes an invitation.
\<close>

section \<open>Rows\<close>

type_synonym moment = int

datatype member_status = MemberActive | MemberInvited | MemberSuspended | NoMemberStatus string

record team_member =
  tm_user :: string
  tm_tenant :: nat
  tm_role :: tenant_role
  tm_status :: member_status
  tm_invited_by :: "string option"
  tm_joined :: moment
  tm_deleted :: bool

datatype invitation_status =
    InvitationPending | InvitationAccepted | InvitationDeclined | InvitationRevoked | InvitationExpiredStatus

definition invitation_terminal :: "invitation_status \<Rightarrow> bool" where
  "invitation_terminal s \<longleftrightarrow> s \<noteq> InvitationPending"

text \<open>The expiry is \<open>None\<close> for Go's zero time.\<close>

record invitation =
  iv_id :: nat
  iv_tenant :: nat
  iv_invitee :: string
  iv_token :: string
  iv_invited_by :: "string option"
  iv_role :: tenant_role
  iv_status :: invitation_status
  iv_message :: string
  iv_expires :: "moment option"
  iv_responded :: "moment option"
  iv_accepted :: nat

definition invitation_expired :: "invitation \<Rightarrow> moment \<Rightarrow> bool" where
  "invitation_expired i at = (case iv_expires i of None \<Rightarrow> False | Some e \<Rightarrow> e < at)"

text \<open>Of a user the rules read the home workspace, the last active one and the reach.\<close>

record user_row =
  us_id :: string
  us_email :: string
  us_home :: nat
  us_last :: "nat option"
  us_all :: bool

datatype audit_action =
    MemberAdded | MemberRoleChanged | MemberLeft | MemberRemoved
  | InvitationSent | InvitationAcceptedBy | InvitationDeclinedBy | InvitationRevokedBy

datatype audit_details = NoDetails | RoleChange tenant_role tenant_role | InvitationOf nat tenant_role

record audit_entry =
  au_tenant :: nat
  au_actor :: string
  au_role :: tenant_role
  au_action :: audit_action
  au_target :: "nat option"
  au_user :: string
  au_details :: audit_details

record team_db =
  td_members :: "team_member list"
  td_invites :: "invitation list"
  td_users :: "user_row list"
  td_tokens :: "(string \<times> bool) list"
  td_audit :: "audit_entry list"

section \<open>Queries\<close>

definition holds_membership :: "string \<Rightarrow> nat \<Rightarrow> team_member \<Rightarrow> bool" where
  "holds_membership user tenant m \<longleftrightarrow> \<not> tm_deleted m \<and> tm_user m = user \<and> tm_tenant m = tenant"

definition membership :: "team_db \<Rightarrow> string \<Rightarrow> nat \<Rightarrow> team_member option" where
  "membership db user tenant = List.find (holds_membership user tenant) (td_members db)"

definition active_owner :: "nat \<Rightarrow> team_member \<Rightarrow> bool" where
  "active_owner tenant m \<longleftrightarrow>
     \<not> tm_deleted m \<and> tm_tenant m = tenant \<and> tm_role m = TenantOwner \<and> tm_status m = MemberActive"

definition count_active_owners :: "team_db \<Rightarrow> nat \<Rightarrow> nat" where
  "count_active_owners db tenant = length (filter (active_owner tenant) (td_members db))"

definition other_owners :: "team_db \<Rightarrow> string \<Rightarrow> nat \<Rightarrow> team_member list" where
  "other_owners db user tenant = filter (\<lambda>m. active_owner tenant m \<and> tm_user m \<noteq> user) (td_members db)"

definition has_any_members :: "team_db \<Rightarrow> nat \<Rightarrow> bool" where
  "has_any_members db tenant =
     list_ex (\<lambda>m. \<not> tm_deleted m \<and> tm_tenant m = tenant \<and> tm_status m = MemberActive) (td_members db)"

text \<open>Rows are in the order of their identifiers, so sorting by joining time breaks ties by them.\<close>

definition members_of_user :: "team_db \<Rightarrow> string \<Rightarrow> team_member list" where
  "members_of_user db user = sort_key tm_joined (filter (\<lambda>m. \<not> tm_deleted m \<and> tm_user m = user) (td_members db))"

definition members_of_tenant :: "team_db \<Rightarrow> nat \<Rightarrow> team_member list" where
  "members_of_tenant db tenant = sort_key tm_joined (filter (\<lambda>m. \<not> tm_deleted m \<and> tm_tenant m = tenant) (td_members db))"

definition pending_for :: "nat \<Rightarrow> string \<Rightarrow> invitation \<Rightarrow> bool" where
  "pending_for tenant user i \<longleftrightarrow> iv_tenant i = tenant \<and> iv_invitee i = user \<and> iv_status i = InvitationPending"

definition invitations_listed :: "team_db \<Rightarrow> (invitation \<Rightarrow> bool) \<Rightarrow> bool \<Rightarrow> invitation list" where
  "invitations_listed db P terminal_too =
     rev (filter (\<lambda>i. P i \<and> (terminal_too \<or> iv_status i = InvitationPending)) (td_invites db))"

definition count_pending :: "team_db \<Rightarrow> string \<Rightarrow> nat" where
  "count_pending db user = length (filter (\<lambda>i. iv_invitee i = user \<and> iv_status i = InvitationPending) (td_invites db))"

section \<open>Statements\<close>

datatype membership_statement =
    InsertMembership team_member
  | SelectMembership string nat
  | UpdateMembershipRole string nat tenant_role
  | DeleteMembership string nat
  | DemoteOwner string nat tenant_role
  | RemoveOwner string nat
  | ProbeMembers nat
  | SelectMembershipsOf string
  | SelectTeam nat

datatype invitation_statement =
    InsertInvitation invitation
  | SelectInvitation nat
  | SelectPendingInvitation nat string
  | SelectInvitationByToken string
  | MarkInvitation nat invitation_status moment
  | SweepInvitations moment
  | BumpInvitation nat
  | SelectInvitationsOfTenant nat bool
  | SelectInvitationsOfUser string bool
  | CountPendingInvitations string

datatype account_statement =
    SelectUser string
  | SelectUserByEmail string
  | SaveUser user_row
  | RevokeTokens string
  | InsertAudit audit_entry

datatype team_statement =
    OnMemberships membership_statement
  | OnInvitations invitation_statement
  | OnAccounts account_statement

datatype team_reply =
    TeamLost | TeamRan | TeamAffected nat | TeamViolated | NoOtherOwner
  | MembershipReply "team_member option" | MembershipsReply "team_member list" | ProbeReply bool
  | InsertedInvitation invitation | InvitationReply "invitation option" | InvitationsReply "invitation list"
  | UserReply "user_row option" | TeamCounted nat

section \<open>Writes\<close>

text \<open>A status left blank becomes active.\<close>

definition member_defaults :: "team_member \<Rightarrow> team_member" where
  "member_defaults m = (if tm_status m = NoMemberStatus [] then m\<lparr>tm_status := MemberActive\<rparr> else m)"

definition insert_membership :: "team_member \<Rightarrow> team_db \<Rightarrow> team_reply \<times> team_db" where
  "insert_membership m db =
     (if membership db (tm_user m) (tm_tenant m) \<noteq> None then (TeamViolated, db)
      else (TeamRan, db\<lparr>td_members := td_members db @ [member_defaults m]\<rparr>))"

definition rewrite_membership :: "string \<Rightarrow> nat \<Rightarrow> (team_member \<Rightarrow> team_member) \<Rightarrow> team_db \<Rightarrow> team_db" where
  "rewrite_membership user tenant h db =
     db\<lparr>td_members := map (\<lambda>m. if holds_membership user tenant m then h m else m) (td_members db)\<rparr>"

definition touched :: "string \<Rightarrow> nat \<Rightarrow> team_db \<Rightarrow> nat" where
  "touched user tenant db = length (filter (holds_membership user tenant) (td_members db))"

definition update_membership_role :: "string \<Rightarrow> nat \<Rightarrow> tenant_role \<Rightarrow> team_db \<Rightarrow> team_reply \<times> team_db" where
  "update_membership_role user tenant role db =
     (TeamAffected (touched user tenant db), rewrite_membership user tenant (\<lambda>m. m\<lparr>tm_role := role\<rparr>) db)"

definition delete_membership :: "string \<Rightarrow> nat \<Rightarrow> team_db \<Rightarrow> team_reply \<times> team_db" where
  "delete_membership user tenant db =
     (TeamAffected (touched user tenant db), rewrite_membership user tenant (\<lambda>m. m\<lparr>tm_deleted := True\<rparr>) db)"

definition demote_owner :: "string \<Rightarrow> nat \<Rightarrow> tenant_role \<Rightarrow> team_db \<Rightarrow> team_reply \<times> team_db" where
  "demote_owner user tenant role db =
     (if other_owners db user tenant = [] then (NoOtherOwner, db) else update_membership_role user tenant role db)"

definition remove_owner :: "string \<Rightarrow> nat \<Rightarrow> team_db \<Rightarrow> team_reply \<times> team_db" where
  "remove_owner user tenant db =
     (if other_owners db user tenant = [] then (NoOtherOwner, db) else delete_membership user tenant db)"

text \<open>Identifiers of invitations come from a sequence.\<close>

definition next_invitation_id :: "team_db \<Rightarrow> nat" where
  "next_invitation_id db = Suc (fold max (map iv_id (td_invites db)) 0)"

definition insert_invitation :: "invitation \<Rightarrow> team_db \<Rightarrow> team_reply \<times> team_db" where
  "insert_invitation i db =
     (if iv_status i = InvitationPending \<and> iv_invitee i \<noteq> []
          \<and> list_ex (pending_for (iv_tenant i) (iv_invitee i)) (td_invites db)
        \<or> iv_token i \<noteq> [] \<and> list_ex (\<lambda>j. iv_token j = iv_token i) (td_invites db)
      then (TeamViolated, db)
      else (let row = i\<lparr>iv_id := next_invitation_id db\<rparr>
            in (InsertedInvitation row, db\<lparr>td_invites := td_invites db @ [row]\<rparr>)))"

definition settle_invitation :: "invitation_status \<Rightarrow> moment \<Rightarrow> invitation \<Rightarrow> invitation" where
  "settle_invitation status at i = i\<lparr>iv_status := status, iv_responded := Some at\<rparr>"

text \<open>Compare and set: only a row that is still pending changes.\<close>

definition mark_invitation :: "nat \<Rightarrow> invitation_status \<Rightarrow> moment \<Rightarrow> team_db \<Rightarrow> team_reply \<times> team_db" where
  "mark_invitation iid status at db =
     (let due = (\<lambda>i. iv_id i = iid \<and> iv_status i = InvitationPending)
      in (TeamAffected (length (filter due (td_invites db))),
          db\<lparr>td_invites := map (\<lambda>i. if due i then settle_invitation status at i else i) (td_invites db)\<rparr>))"

text \<open>For the database the zero time lies before every other.\<close>

definition overdue :: "moment \<Rightarrow> invitation \<Rightarrow> bool" where
  "overdue now i \<longleftrightarrow> iv_status i = InvitationPending \<and> (case iv_expires i of None \<Rightarrow> True | Some e \<Rightarrow> e < now)"

definition sweep_invitations :: "moment \<Rightarrow> team_db \<Rightarrow> team_reply \<times> team_db" where
  "sweep_invitations now db =
     (TeamAffected (length (filter (overdue now) (td_invites db))),
      db\<lparr>td_invites := map (\<lambda>i. if overdue now i then settle_invitation InvitationExpiredStatus now i else i)
          (td_invites db)\<rparr>)"

definition bump_invitation :: "nat \<Rightarrow> team_db \<Rightarrow> team_reply \<times> team_db" where
  "bump_invitation iid db =
     (TeamAffected (length (filter (\<lambda>i. iv_id i = iid) (td_invites db))),
      db\<lparr>td_invites := map (\<lambda>i. if iv_id i = iid then i\<lparr>iv_accepted := Suc (iv_accepted i)\<rparr> else i) (td_invites db)\<rparr>)"

definition save_user_row :: "user_row \<Rightarrow> team_db \<Rightarrow> team_db" where
  "save_user_row u db = db\<lparr>td_users := map (\<lambda>v. if us_id v = us_id u then u else v) (td_users db)\<rparr>"

definition revoke_tokens :: "string \<Rightarrow> team_db \<Rightarrow> team_db" where
  "revoke_tokens user db = db\<lparr>td_tokens := map (\<lambda>(u, r). (u, r \<or> u = user)) (td_tokens db)\<rparr>"

section \<open>What a statement does\<close>

primrec membership_effect :: "membership_statement \<Rightarrow> team_db \<Rightarrow> team_reply \<times> team_db" where
  "membership_effect (InsertMembership m) db = insert_membership m db"
| "membership_effect (SelectMembership user tenant) db = (MembershipReply (membership db user tenant), db)"
| "membership_effect (UpdateMembershipRole user tenant role) db = update_membership_role user tenant role db"
| "membership_effect (DeleteMembership user tenant) db = delete_membership user tenant db"
| "membership_effect (DemoteOwner user tenant role) db = demote_owner user tenant role db"
| "membership_effect (RemoveOwner user tenant) db = remove_owner user tenant db"
| "membership_effect (ProbeMembers tenant) db = (ProbeReply (has_any_members db tenant), db)"
| "membership_effect (SelectMembershipsOf user) db = (MembershipsReply (members_of_user db user), db)"
| "membership_effect (SelectTeam tenant) db = (MembershipsReply (members_of_tenant db tenant), db)"

primrec invitation_effect :: "invitation_statement \<Rightarrow> team_db \<Rightarrow> team_reply \<times> team_db" where
  "invitation_effect (InsertInvitation i) db = insert_invitation i db"
| "invitation_effect (SelectInvitation iid) db = (InvitationReply (List.find (\<lambda>i. iv_id i = iid) (td_invites db)), db)"
| "invitation_effect (SelectPendingInvitation tenant user) db =
     (InvitationReply (List.find (pending_for tenant user) (td_invites db)), db)"
| "invitation_effect (SelectInvitationByToken token) db =
     (InvitationReply (List.find (\<lambda>i. iv_token i = token \<and> iv_status i = InvitationPending) (td_invites db)), db)"
| "invitation_effect (MarkInvitation iid status at) db = mark_invitation iid status at db"
| "invitation_effect (SweepInvitations now) db = sweep_invitations now db"
| "invitation_effect (BumpInvitation iid) db = bump_invitation iid db"
| "invitation_effect (SelectInvitationsOfTenant tenant all) db =
     (InvitationsReply (invitations_listed db (\<lambda>i. iv_tenant i = tenant) all), db)"
| "invitation_effect (SelectInvitationsOfUser user all) db =
     (InvitationsReply (invitations_listed db (\<lambda>i. iv_invitee i = user) all), db)"
| "invitation_effect (CountPendingInvitations user) db = (TeamCounted (count_pending db user), db)"

primrec account_effect :: "account_statement \<Rightarrow> team_db \<Rightarrow> team_reply \<times> team_db" where
  "account_effect (SelectUser user) db = (UserReply (List.find (\<lambda>u. us_id u = user) (td_users db)), db)"
| "account_effect (SelectUserByEmail email) db = (UserReply (List.find (\<lambda>u. us_email u = email) (td_users db)), db)"
| "account_effect (SaveUser u) db = (TeamRan, save_user_row u db)"
| "account_effect (RevokeTokens user) db = (TeamRan, revoke_tokens user db)"
| "account_effect (InsertAudit e) db = (TeamRan, db\<lparr>td_audit := td_audit db @ [e]\<rparr>)"

primrec team_effect :: "team_statement \<Rightarrow> team_db \<Rightarrow> team_reply \<times> team_db" where
  "team_effect (OnMemberships st) db = membership_effect st db"
| "team_effect (OnInvitations st) db = invitation_effect st db"
| "team_effect (OnAccounts st) db = account_effect st db"

abbreviation team_machine :: "(team_statement, team_reply, team_db) machine" where
  "team_machine \<equiv> under_fault TeamLost team_effect"

section \<open>Operations\<close>

text \<open>Errors of the database and the repositories, then of the services.\<close>

datatype team_error =
    TeamDatabase | TeamDuplicate | TeamRowMissing | UserMissing | RepoLastOwner | RepoPendingExists
  | MembershipNotFound | MembershipAlreadyExists | InvalidTenantRole | KeyCannotAssignOwner | LastOwner
  | InvitationNotFound | PendingInvitationExists | AlreadyMember | InvitationNotPending
  | InvitationHasExpired | InvitationForbidden | InvitationTokenInvalid | NewUserRequired | NoRandomness

type_synonym 'a team_action = "(team_statement, team_reply, team_error + 'a) prog"

end
