(* ===== verification/Team.thy ===== *)
theory Team
  imports TeamDb
begin

text \<open>
  The services over memberships and invitations: \<open>internal/application/service/tenant_member.go\<close>
  and \<open>tenant_invitation.go\<close>, on the repositories of \<open>TeamDb\<close>. \<open>clock n\<close> is the n-th
  reading of the clock in an operation.
\<close>

section \<open>The repositories\<close>

definition team_call :: "team_statement \<Rightarrow> (team_reply \<Rightarrow> team_error + 'a) \<Rightarrow> 'a team_action" where
  "team_call st reading = call st reading"

fun team_ran :: "team_reply \<Rightarrow> team_error + unit" where
  "team_ran TeamRan = Inr ()"
| "team_ran TeamViolated = Inl TeamDuplicate"
| "team_ran NoOtherOwner = Inl RepoLastOwner"
| "team_ran r = Inl TeamDatabase"

text \<open>An update that reports how many rows it met, and fails when it met none.\<close>

fun met_a_row :: "team_reply \<Rightarrow> team_error + unit" where
  "met_a_row (TeamAffected n) = (if n = 0 then Inl TeamRowMissing else Inr ())"
| "met_a_row NoOtherOwner = Inl RepoLastOwner"
| "met_a_row r = Inl TeamDatabase"

fun ran_at_all :: "team_reply \<Rightarrow> team_error + unit" where
  "ran_at_all (TeamAffected n) = Inr ()"
| "ran_at_all r = Inl TeamDatabase"

fun read_membership :: "team_reply \<Rightarrow> team_error + team_member option" where
  "read_membership (MembershipReply m) = Inr m"
| "read_membership r = Inl TeamDatabase"

fun read_memberships :: "team_reply \<Rightarrow> team_error + team_member list" where
  "read_memberships (MembershipsReply ms) = Inr ms"
| "read_memberships r = Inl TeamDatabase"

fun read_probe :: "team_reply \<Rightarrow> team_error + bool" where
  "read_probe (ProbeReply b) = Inr b"
| "read_probe r = Inl TeamDatabase"

fun read_invitation :: "team_reply \<Rightarrow> team_error + invitation option" where
  "read_invitation (InvitationReply i) = Inr i"
| "read_invitation r = Inl TeamDatabase"

fun read_invitations :: "team_reply \<Rightarrow> team_error + invitation list" where
  "read_invitations (InvitationsReply is) = Inr is"
| "read_invitations r = Inl TeamDatabase"

fun read_inserted :: "team_reply \<Rightarrow> team_error + invitation" where
  "read_inserted (InsertedInvitation i) = Inr i"
| "read_inserted TeamViolated = Inl TeamDuplicate"
| "read_inserted r = Inl TeamDatabase"

fun read_user :: "team_reply \<Rightarrow> team_error + user_row" where
  "read_user (UserReply (Some u)) = Inr u"
| "read_user (UserReply None) = Inl UserMissing"
| "read_user r = Inl TeamDatabase"

fun read_team_count :: "team_reply \<Rightarrow> team_error + nat" where
  "read_team_count (TeamCounted n) = Inr n"
| "read_team_count r = Inl TeamDatabase"

definition create_membership :: "team_member \<Rightarrow> unit team_action" where
  "create_membership m = team_call (OnMemberships (InsertMembership m)) team_ran"

definition get_membership :: "string \<Rightarrow> nat \<Rightarrow> team_member option team_action" where
  "get_membership user tenant = team_call (OnMemberships (SelectMembership user tenant)) read_membership"

definition list_memberships :: "string \<Rightarrow> team_member list team_action" where
  "list_memberships user = team_call (OnMemberships (SelectMembershipsOf user)) read_memberships"

definition list_team :: "nat \<Rightarrow> team_member list team_action" where
  "list_team tenant = team_call (OnMemberships (SelectTeam tenant)) read_memberships"

definition save_membership_role :: "string \<Rightarrow> nat \<Rightarrow> tenant_role \<Rightarrow> unit team_action" where
  "save_membership_role user tenant role =
     team_call (OnMemberships (UpdateMembershipRole user tenant role)) met_a_row"

definition drop_membership :: "string \<Rightarrow> nat \<Rightarrow> unit team_action" where
  "drop_membership user tenant = team_call (OnMemberships (DeleteMembership user tenant)) ran_at_all"

definition demote_owner_atomically :: "string \<Rightarrow> nat \<Rightarrow> tenant_role \<Rightarrow> unit team_action" where
  "demote_owner_atomically user tenant role = team_call (OnMemberships (DemoteOwner user tenant role)) met_a_row"

definition remove_owner_atomically :: "string \<Rightarrow> nat \<Rightarrow> unit team_action" where
  "remove_owner_atomically user tenant = team_call (OnMemberships (RemoveOwner user tenant)) met_a_row"

definition any_members :: "nat \<Rightarrow> bool team_action" where
  "any_members tenant = team_call (OnMemberships (ProbeMembers tenant)) read_probe"

definition get_invitation :: "nat \<Rightarrow> invitation option team_action" where
  "get_invitation iid = team_call (OnInvitations (SelectInvitation iid)) read_invitation"

definition get_pending_by_pair :: "nat \<Rightarrow> string \<Rightarrow> invitation option team_action" where
  "get_pending_by_pair tenant user = team_call (OnInvitations (SelectPendingInvitation tenant user)) read_invitation"

definition get_active_by_token :: "string \<Rightarrow> invitation option team_action" where
  "get_active_by_token token =
     (if token = [] then give None
      else team_call (OnInvitations (SelectInvitationByToken token)) read_invitation)"

definition create_invitation_row :: "invitation \<Rightarrow> invitation team_action" where
  "create_invitation_row i =
     attempt (if iv_invitee i \<noteq> []
              then attempt (get_pending_by_pair (iv_tenant i) (iv_invitee i))
                     (\<lambda>found. if found = None then give () else fail RepoPendingExists)
              else give ())
       (\<lambda>_. team_call (OnInvitations (InsertInvitation i)) read_inserted)"

definition mark_if_pending :: "nat \<Rightarrow> invitation_status \<Rightarrow> moment \<Rightarrow> unit team_action" where
  "mark_if_pending iid status at = team_call (OnInvitations (MarkInvitation iid status at)) met_a_row"

definition sweep_expired :: "moment \<Rightarrow> unit team_action" where
  "sweep_expired now = team_call (OnInvitations (SweepInvitations now)) ran_at_all"

definition bump_accepted :: "nat \<Rightarrow> unit team_action" where
  "bump_accepted iid = team_call (OnInvitations (BumpInvitation iid)) met_a_row"

definition list_tenant_invitations :: "nat \<Rightarrow> bool \<Rightarrow> invitation list team_action" where
  "list_tenant_invitations tenant terminal_too =
     team_call (OnInvitations (SelectInvitationsOfTenant tenant terminal_too)) read_invitations"

definition list_user_invitations :: "string \<Rightarrow> bool \<Rightarrow> invitation list team_action" where
  "list_user_invitations user terminal_too =
     team_call (OnInvitations (SelectInvitationsOfUser user terminal_too)) read_invitations"

definition count_pending_by_invitee :: "string \<Rightarrow> nat team_action" where
  "count_pending_by_invitee user = team_call (OnInvitations (CountPendingInvitations user)) read_team_count"

definition get_user :: "string \<Rightarrow> user_row team_action" where
  "get_user user = team_call (OnAccounts (SelectUser user)) read_user"

definition get_user_by_email :: "string \<Rightarrow> user_row team_action" where
  "get_user_by_email email = team_call (OnAccounts (SelectUserByEmail email)) read_user"

definition save_user :: "user_row \<Rightarrow> unit team_action" where
  "save_user u = team_call (OnAccounts (SaveUser u)) team_ran"

definition revoke_user_tokens :: "string \<Rightarrow> unit team_action" where
  "revoke_user_tokens user = team_call (OnAccounts (RevokeTokens user)) team_ran"

text \<open>An effect whose failure is logged and otherwise ignored.\<close>

definition best_effort :: "'b team_action \<Rightarrow> 'a team_action \<Rightarrow> 'a team_action" where
  "best_effort p q = settle p (\<lambda>_. q)"

section \<open>Who acts\<close>

text \<open>What the request context says: the user, the role if one was set, and whether an API key asks.\<close>

record team_caller =
  tc_user :: string
  tc_role :: "tenant_role option"
  tc_key :: bool

definition audit_actor_role :: "team_caller \<Rightarrow> tenant_role" where
  "audit_actor_role c = (case tc_role c of Some r \<Rightarrow> if tenant_role_valid r then r else TenantViewer | None \<Rightarrow> TenantViewer)"

definition emit_audit :: "team_caller \<Rightarrow> nat \<Rightarrow> audit_action \<Rightarrow> nat option \<Rightarrow> string \<Rightarrow> audit_details \<Rightarrow> unit team_action" where
  "emit_audit c tenant action target user details =
     team_call (OnAccounts (InsertAudit \<lparr>au_tenant = tenant, au_actor = tc_user c, au_role = audit_actor_role c,
        au_action = action, au_target = target, au_user = user, au_details = details\<rparr>)) team_ran"

definition may_assign :: "team_caller \<Rightarrow> tenant_role \<Rightarrow> unit team_action" where
  "may_assign c role = (if role = TenantOwner \<and> tc_key c then fail KeyCannotAssignOwner else give ())"

section \<open>Members\<close>

definition new_member :: "string \<Rightarrow> nat \<Rightarrow> tenant_role \<Rightarrow> string option \<Rightarrow> moment \<Rightarrow> team_member" where
  "new_member user tenant role invited_by now =
     \<lparr>tm_user = user, tm_tenant = tenant, tm_role = role, tm_status = MemberActive, tm_invited_by = invited_by,
      tm_joined = now, tm_deleted = False\<rparr>"

definition add_member :: "team_caller \<Rightarrow> string \<Rightarrow> nat \<Rightarrow> tenant_role \<Rightarrow> string option \<Rightarrow> moment \<Rightarrow> team_member team_action" where
  "add_member c user tenant role invited_by now =
     (if \<not> tenant_role_valid role then fail InvalidTenantRole
      else attempt (may_assign c role) (\<lambda>_.
        attempt (get_membership user tenant) (\<lambda>existing.
          if existing \<noteq> None then fail MembershipAlreadyExists
          else (let m = new_member user tenant role invited_by now in
            settle (create_membership m) (\<lambda>r.
              case r of
                Inl e \<Rightarrow> fail (if e = TeamDuplicate then MembershipAlreadyExists else e)
              | Inr _ \<Rightarrow> best_effort (emit_audit c tenant MemberAdded None user NoDetails) (give m))))))"

definition ensure_owner :: "string \<Rightarrow> nat \<Rightarrow> moment \<Rightarrow> team_member team_action" where
  "ensure_owner user tenant now =
     attempt (get_membership user tenant) (\<lambda>existing.
       case existing of
         Some m \<Rightarrow> give m
       | None \<Rightarrow>
           (let m = new_member user tenant TenantOwner None now in
            settle (create_membership m) (\<lambda>r.
              case r of
                Inr _ \<Rightarrow> give m
              | Inl e \<Rightarrow>
                  if e = TeamDuplicate
                  then settle (get_membership user tenant) (\<lambda>winner.
                         case winner of Inr (Some w) \<Rightarrow> give w | _ \<Rightarrow> fail e)
                  else fail e)))"

definition change_role :: "team_caller \<Rightarrow> string \<Rightarrow> nat \<Rightarrow> tenant_role \<Rightarrow> unit team_action" where
  "change_role c user tenant role =
     (if \<not> tenant_role_valid role then fail InvalidTenantRole
      else attempt (may_assign c role) (\<lambda>_.
        attempt (get_membership user tenant) (\<lambda>current.
          case current of
            None \<Rightarrow> fail MembershipNotFound
          | Some m \<Rightarrow>
              if tm_role m = role then give ()
              else (let audited = best_effort (emit_audit c tenant MemberRoleChanged None user (RoleChange (tm_role m) role))
                                    (give ()) in
                if tm_role m = TenantOwner \<and> role \<noteq> TenantOwner
                then settle (demote_owner_atomically user tenant role) (\<lambda>r.
                       case r of
                         Inl e \<Rightarrow> fail (if e = RepoLastOwner then LastOwner else e)
                       | Inr _ \<Rightarrow> audited)
                else attempt (save_membership_role user tenant role) (\<lambda>_. audited)))))"

text \<open>A removed member keeps neither a home in the workspace nor a session.\<close>

definition forget_workspace :: "nat \<Rightarrow> user_row \<Rightarrow> user_row" where
  "forget_workspace tenant u =
     u\<lparr>us_home := (if us_home u = tenant then 0 else us_home u),
       us_last := (if us_last u = Some tenant then None else us_last u)\<rparr>"

definition cleanup_removed :: "string \<Rightarrow> nat \<Rightarrow> unit team_action" where
  "cleanup_removed user tenant =
     settle (get_user user) (\<lambda>r.
       case r of
         Inr u \<Rightarrow>
           if us_home u = tenant \<or> us_last u = Some tenant
           then best_effort (save_user (forget_workspace tenant u)) (best_effort (revoke_user_tokens user) (give ()))
           else best_effort (revoke_user_tokens user) (give ())
       | Inl _ \<Rightarrow> best_effort (revoke_user_tokens user) (give ()))"

definition after_removal :: "team_caller \<Rightarrow> string \<Rightarrow> nat \<Rightarrow> unit team_action" where
  "after_removal c user tenant =
     best_effort (emit_audit c tenant (if tc_user c \<noteq> [] \<and> tc_user c = user then MemberLeft else MemberRemoved)
                    None user NoDetails)
       (cleanup_removed user tenant)"

definition remove_member :: "team_caller \<Rightarrow> string \<Rightarrow> nat \<Rightarrow> unit team_action" where
  "remove_member c user tenant =
     attempt (get_membership user tenant) (\<lambda>current.
       case current of
         None \<Rightarrow> fail MembershipNotFound
       | Some m \<Rightarrow>
           if tm_role m = TenantOwner
           then settle (remove_owner_atomically user tenant) (\<lambda>r.
                  case r of
                    Inl e \<Rightarrow> fail (if e = RepoLastOwner then LastOwner else e)
                  | Inr _ \<Rightarrow> after_removal c user tenant)
           else attempt (drop_membership user tenant) (\<lambda>_. after_removal c user tenant))"

end
