(* ===== verification/TeamInvites.thy ===== *)
theory TeamInvites
  imports Team
begin

text \<open>
  Invitations to a workspace: \<open>internal/application/service/tenant_invitation.go\<close>. An invitation
  addresses one user, or is a share link that anyone who holds its token may use until it expires or
  is revoked. Random tokens are arguments, \<open>None\<close> when the source of randomness fails.
\<close>

section \<open>Life time\<close>

definition default_invitation_ttl :: int where
  "default_invitation_ttl = 7 * 24 * 3600 * 1000000000"

text \<open>
  The setting as a duration (\<open>time.ParseDuration\<close>) or else as a number of seconds
  (\<open>strconv.ParseInt\<close>), each \<open>None\<close> when it does not parse; the product wraps at 64 bits.
\<close>

definition invitation_ttl :: "string \<Rightarrow> int option \<Rightarrow> int option \<Rightarrow> int" where
  "invitation_ttl raw duration seconds =
     (if raw = [] then default_invitation_ttl
      else case duration of
        Some d \<Rightarrow> if 0 < d then d
                  else (case seconds of
                          Some s \<Rightarrow> if 0 < s then signed_take_bit 63 (s * 1000000000) else default_invitation_ttl
                        | None \<Rightarrow> default_invitation_ttl)
      | None \<Rightarrow> (case seconds of
                   Some s \<Rightarrow> if 0 < s then signed_take_bit 63 (s * 1000000000) else default_invitation_ttl
                 | None \<Rightarrow> default_invitation_ttl))"

section \<open>Issuing\<close>

definition sweep_invites :: "moment \<Rightarrow> 'a team_action \<Rightarrow> 'a team_action" where
  "sweep_invites now p = best_effort (sweep_expired now) p"

definition new_invitation :: "nat \<Rightarrow> string \<Rightarrow> string \<Rightarrow> tenant_role \<Rightarrow> string option \<Rightarrow> string \<Rightarrow> moment \<Rightarrow> invitation" where
  "new_invitation tenant invitee token role invited_by message expires =
     \<lparr>iv_id = 0, iv_tenant = tenant, iv_invitee = invitee, iv_token = token, iv_invited_by = invited_by,
      iv_role = role, iv_status = InvitationPending, iv_message = message, iv_expires = Some expires,
      iv_responded = None, iv_accepted = 0\<rparr>"

definition audit_invitation :: "team_caller \<Rightarrow> invitation \<Rightarrow> audit_action \<Rightarrow> string \<Rightarrow> unit team_action" where
  "audit_invitation c i action user =
     emit_audit c (iv_tenant i) action (Some (iv_id i)) user (InvitationOf (iv_id i) (iv_role i))"

definition invite :: "team_caller \<Rightarrow> nat \<Rightarrow> string \<Rightarrow> tenant_role \<Rightarrow> string option \<Rightarrow> string \<Rightarrow> (nat \<Rightarrow> moment) \<Rightarrow> int \<Rightarrow> invitation team_action" where
  "invite c tenant user role invited_by message clock ttl =
     (if \<not> tenant_role_valid role then fail InvalidTenantRole
      else attempt (may_assign c role) (\<lambda>_.
        attempt (get_membership user tenant) (\<lambda>existing.
          if (case existing of Some m \<Rightarrow> tm_status m = MemberActive | None \<Rightarrow> False) then fail AlreadyMember
          else settle (create_invitation_row (new_invitation tenant user [] role invited_by message (clock 0 + ttl)))
                 (\<lambda>r. case r of
                    Inl e \<Rightarrow> fail (if e = RepoPendingExists then PendingInvitationExists else e)
                  | Inr i \<Rightarrow> best_effort (audit_invitation c i InvitationSent user) (give i)))))"

definition create_share_link :: "team_caller \<Rightarrow> nat \<Rightarrow> tenant_role \<Rightarrow> string option \<Rightarrow> string \<Rightarrow> string option \<Rightarrow> (nat \<Rightarrow> moment) \<Rightarrow> int \<Rightarrow> (invitation \<times> string) team_action" where
  "create_share_link c tenant role invited_by message token clock ttl =
     (if \<not> tenant_role_valid role then fail InvalidTenantRole
      else attempt (may_assign c role) (\<lambda>_.
        case token of
          None \<Rightarrow> fail NoRandomness
        | Some t \<Rightarrow>
            attempt (create_invitation_row (new_invitation tenant [] t role invited_by message (clock 0 + ttl)))
              (\<lambda>i. best_effort (audit_invitation c i InvitationSent []) (give (i, t)))))"

section \<open>Answering\<close>

text \<open>The membership that an accepted invitation earns, or the one that is there already.\<close>

definition join_invited :: "team_caller \<Rightarrow> invitation \<Rightarrow> moment \<Rightarrow> team_member team_action" where
  "join_invited c i now =
     settle (add_member c (iv_invitee i) (iv_tenant i) (iv_role i) (iv_invited_by i) now) (\<lambda>a.
       case a of
         Inr m \<Rightarrow> best_effort (audit_invitation c i InvitationAcceptedBy (iv_invitee i)) (give m)
       | Inl e \<Rightarrow>
           if e = MembershipAlreadyExists
           then settle (get_membership (iv_invitee i) (iv_tenant i)) (\<lambda>g.
                  case g of
                    Inr (Some m) \<Rightarrow> best_effort (audit_invitation c i InvitationAcceptedBy (iv_invitee i)) (give m)
                  | _ \<Rightarrow> fail e)
           else fail e)"

definition accept :: "team_caller \<Rightarrow> nat \<Rightarrow> string \<Rightarrow> (nat \<Rightarrow> moment) \<Rightarrow> team_member team_action" where
  "accept c iid user clock =
     sweep_invites (clock 0)
       (attempt (get_invitation iid) (\<lambda>found.
          case found of
            None \<Rightarrow> fail InvitationNotFound
          | Some i \<Rightarrow>
              if iv_invitee i \<noteq> user then fail InvitationForbidden
              else if iv_status i \<noteq> InvitationPending then fail InvitationNotPending
              else if invitation_expired i (clock 1) then fail InvitationHasExpired
              else settle (mark_if_pending iid InvitationAccepted (clock 2)) (\<lambda>r.
                case r of
                  Inl _ \<Rightarrow> fail InvitationNotPending
                | Inr _ \<Rightarrow> join_invited c i (clock 3))))"

definition decline :: "team_caller \<Rightarrow> nat \<Rightarrow> string \<Rightarrow> (nat \<Rightarrow> moment) \<Rightarrow> unit team_action" where
  "decline c iid user clock =
     sweep_invites (clock 0)
       (attempt (get_invitation iid) (\<lambda>found.
          case found of
            None \<Rightarrow> fail InvitationNotFound
          | Some i \<Rightarrow>
              if iv_invitee i \<noteq> user then fail InvitationForbidden
              else if iv_status i \<noteq> InvitationPending then fail InvitationNotPending
              else if invitation_expired i (clock 1) then fail InvitationHasExpired
              else settle (mark_if_pending iid InvitationDeclined (clock 2)) (\<lambda>r.
                case r of
                  Inl _ \<Rightarrow> fail InvitationNotPending
                | Inr _ \<Rightarrow> best_effort (audit_invitation c i InvitationDeclinedBy (iv_invitee i)) (give ()))))"

definition revoke :: "team_caller \<Rightarrow> nat \<Rightarrow> (nat \<Rightarrow> moment) \<Rightarrow> unit team_action" where
  "revoke c iid clock =
     sweep_invites (clock 0)
       (attempt (get_invitation iid) (\<lambda>found.
          case found of
            None \<Rightarrow> fail InvitationNotFound
          | Some i \<Rightarrow>
              if iv_status i \<noteq> InvitationPending then fail InvitationNotPending
              else settle (mark_if_pending iid InvitationRevoked (clock 1)) (\<lambda>r.
                case r of
                  Inl _ \<Rightarrow> fail InvitationNotPending
                | Inr _ \<Rightarrow> best_effort (audit_invitation c i InvitationRevokedBy (iv_invitee i)) (give ()))))"

text \<open>After a user has joined another way, an invitation still open is closed.\<close>

definition mark_pending_accepted :: "nat \<Rightarrow> string \<Rightarrow> (nat \<Rightarrow> moment) \<Rightarrow> unit team_action" where
  "mark_pending_accepted tenant user clock =
     sweep_invites (clock 0)
       (attempt (get_pending_by_pair tenant user) (\<lambda>found.
          case found of
            None \<Rightarrow> give ()
          | Some i \<Rightarrow> mark_if_pending (iv_id i) InvitationAccepted (clock 1)))"

section \<open>Share links\<close>

definition lookup_by_token :: "string \<Rightarrow> (nat \<Rightarrow> moment) \<Rightarrow> invitation team_action" where
  "lookup_by_token token clock =
     (let t = trim_space token in
      if t = [] then fail InvitationTokenInvalid
      else sweep_invites (clock 0)
        (attempt (get_active_by_token t) (\<lambda>found.
           case found of
             None \<Rightarrow> fail InvitationTokenInvalid
           | Some i \<Rightarrow> if invitation_expired i (clock 1) then fail InvitationTokenInvalid else give i)))"

definition accept_by_token :: "team_caller \<Rightarrow> string \<Rightarrow> string \<Rightarrow> (nat \<Rightarrow> moment) \<Rightarrow> team_member team_action" where
  "accept_by_token c token user clock =
     (if user = [] then fail NewUserRequired
      else attempt (lookup_by_token token clock) (\<lambda>i.
        settle (add_member c user (iv_tenant i) (iv_role i) (iv_invited_by i) (clock 2)) (\<lambda>a.
          case a of
            Inl e \<Rightarrow>
              if e = MembershipAlreadyExists
              then settle (get_membership user (iv_tenant i)) (\<lambda>g.
                     case g of
                       Inr (Some m) \<Rightarrow>
                         best_effort (mark_pending_accepted (iv_tenant i) user (\<lambda>n. clock (n + 3))) (give m)
                     | _ \<Rightarrow> fail e)
              else fail e
          | Inr m \<Rightarrow>
              best_effort (bump_accepted (iv_id i))
                (best_effort (mark_pending_accepted (iv_tenant i) user (\<lambda>n. clock (n + 3)))
                  (best_effort (audit_invitation c i InvitationAcceptedBy user) (give m))))))"

section \<open>Listing\<close>

definition get_invitation_by_id :: "nat \<Rightarrow> invitation option team_action" where
  "get_invitation_by_id iid = get_invitation iid"

definition list_invitations_of_tenant :: "nat \<Rightarrow> bool \<Rightarrow> moment \<Rightarrow> invitation list team_action" where
  "list_invitations_of_tenant tenant terminal_too now = sweep_invites now (list_tenant_invitations tenant terminal_too)"

text \<open>
  A page of a list, with what the list holds in all; pages count from 1 and have at most 100 items.
  A product that wraps to a negative offset is no offset for the database layer.
\<close>

definition page_bounds :: "int \<Rightarrow> int \<Rightarrow> nat \<times> nat" where
  "page_bounds page per =
     (let p = (if page < 1 then 1 else page);
          s = (if per < 1 then 20 else if 100 < per then 100 else per)
      in (nat (signed_take_bit 63 ((p - 1) * s)), nat s))"

definition invitations_page :: "nat \<Rightarrow> bool \<Rightarrow> int \<Rightarrow> int \<Rightarrow> moment \<Rightarrow> (invitation list \<times> nat) team_action" where
  "invitations_page tenant terminal_too page per now =
     sweep_invites now
       (attempt (list_tenant_invitations tenant terminal_too) (\<lambda>counted.
          attempt (list_tenant_invitations tenant terminal_too) (\<lambda>rows.
            give (case page_bounds page per of (offset, limit) \<Rightarrow>
              (take limit (drop offset rows), length counted)))))"

definition list_invitations_of_user :: "string \<Rightarrow> bool \<Rightarrow> moment \<Rightarrow> invitation list team_action" where
  "list_invitations_of_user user terminal_too now = sweep_invites now (list_user_invitations user terminal_too)"

definition count_user_pending :: "string \<Rightarrow> moment \<Rightarrow> nat team_action" where
  "count_user_pending user now = sweep_invites now (count_pending_by_invitee user)"

text \<open>The members of a workspace, without a search term.\<close>

definition members_page :: "nat \<Rightarrow> int \<Rightarrow> int \<Rightarrow> (team_member list \<times> nat) team_action" where
  "members_page tenant page per =
     attempt (list_team tenant) (\<lambda>counted.
       attempt (list_team tenant) (\<lambda>rows.
         give (case page_bounds page per of (offset, limit) \<Rightarrow>
           (take limit (drop offset rows), length counted))))"

end
