(* ===== verification/TeamRun.thy ===== *)
theory TeamRun
  imports TeamInvites
begin

text \<open>
  The operations on members and invitations beside one another. A protocol is a relation between
  states that all of them stay within while they rely on it: what a service has read (a member
  is no owner, an invitation has been accepted) still holds when it writes. The locale
  \<open>team_protocol\<close> collects what a protocol has to satisfy and proves it for every operation once.
\<close>

section \<open>What happens to invitations\<close>

definition same_terms :: "invitation \<Rightarrow> invitation \<Rightarrow> bool" where
  "same_terms i j \<longleftrightarrow>
     iv_id j = iv_id i \<and> iv_tenant j = iv_tenant i \<and> iv_invitee j = iv_invitee i \<and> iv_token j = iv_token i
   \<and> iv_role j = iv_role i \<and> iv_invited_by j = iv_invited_by i \<and> iv_message j = iv_message i
   \<and> iv_expires j = iv_expires i"

definition evolves :: "invitation \<Rightarrow> invitation \<Rightarrow> bool" where
  "evolves i j \<longleftrightarrow>
     same_terms i j \<and> iv_accepted i \<le> iv_accepted j
   \<and> (iv_status i \<noteq> InvitationPending \<longrightarrow> iv_status j = iv_status i \<and> iv_responded j = iv_responded i)"

lemma same_terms_refl [simp]: "same_terms i i"
  by (simp add: same_terms_def)

lemma evolves_refl [simp]: "evolves i i"
  by (simp add: evolves_def)

lemma same_terms_trans: "same_terms i j \<Longrightarrow> same_terms j k \<Longrightarrow> same_terms i k"
  by (simp add: same_terms_def)

lemma evolves_trans: "evolves i j \<Longrightarrow> evolves j k \<Longrightarrow> evolves i k"
  by (auto simp: evolves_def intro: same_terms_trans)

primrec pending_once :: "invitation list \<Rightarrow> bool" where
  "pending_once [] = True"
| "pending_once (i # is) =
     ((iv_status i = InvitationPending \<and> iv_invitee i \<noteq> []
         \<longrightarrow> (\<forall>j \<in> set is. \<not> pending_for (iv_tenant i) (iv_invitee i) j)) \<and> pending_once is)"

lemma pending_once_snoc:
  "pending_once (is @ [i]) \<longleftrightarrow>
     pending_once is \<and> (iv_status i = InvitationPending \<and> iv_invitee i \<noteq> []
       \<longrightarrow> (\<forall>j \<in> set is. \<not> pending_for (iv_tenant i) (iv_invitee i) j))"
  by (induction "is") (auto simp: pending_for_def)

definition invitations_in_order :: "team_db \<Rightarrow> bool" where
  "invitations_in_order db \<longleftrightarrow> distinct (map iv_id (td_invites db)) \<and> pending_once (td_invites db)"

text \<open>Rows keep their place; new rows follow.\<close>

definition invitations_settle :: "team_db \<Rightarrow> team_db \<Rightarrow> bool" where
  "invitations_settle db db' \<longleftrightarrow>
     (\<exists>old new. td_invites db' = old @ new \<and> list_all2 evolves (td_invites db) old)
   \<and> (invitations_in_order db \<longrightarrow> invitations_in_order db')"

lemma invitations_settleI:
  "td_invites db' = old @ new \<Longrightarrow> list_all2 evolves (td_invites db) old
     \<Longrightarrow> (invitations_in_order db \<Longrightarrow> invitations_in_order db') \<Longrightarrow> invitations_settle db db'"
  by (auto simp: invitations_settle_def)

lemma list_all2_evolves_refl [simp]: "list_all2 evolves is is"
  by (simp add: list_all2_refl)

lemma list_all2_evolves_trans:
  "list_all2 evolves is js \<Longrightarrow> list_all2 evolves js ks \<Longrightarrow> list_all2 evolves is ks"
  by (rule list_all2_trans [of evolves evolves evolves]) (auto intro: evolves_trans)

lemma invitations_settle_refl: "invitations_settle db db"
  by (rule invitations_settleI [where old = "td_invites db" and new = "[]"]) simp_all

lemma invitations_settle_trans:
  assumes "invitations_settle a b" and "invitations_settle b c"
  shows "invitations_settle a c"
proof -
  from assms obtain ob nb oc nc where b: "td_invites b = ob @ nb" "list_all2 evolves (td_invites a) ob"
    and c: "td_invites c = oc @ nc" "list_all2 evolves (td_invites b) oc"
    by (auto simp: invitations_settle_def)
  from b(1) c(2) obtain o1 o2 where "oc = o1 @ o2" "list_all2 evolves ob o1"
    by (auto simp: list_all2_append1)
  then have "td_invites c = o1 @ (o2 @ nc) \<and> list_all2 evolves (td_invites a) o1"
    using b(2) c(1) list_all2_evolves_trans by simp
  moreover have "invitations_in_order a \<longrightarrow> invitations_in_order c" using assms by (simp add: invitations_settle_def)
  ultimately show ?thesis unfolding invitations_settle_def by blast
qed

lemma invitations_settle_same: "td_invites db' = td_invites db \<Longrightarrow> invitations_settle db db'"
  by (rule invitations_settleI [where old = "td_invites db" and new = "[]"]) (simp_all add: invitations_in_order_def)

lemma list_all2_map_evolves: "(\<And>i. i \<in> set is \<Longrightarrow> evolves i (h i)) \<Longrightarrow> list_all2 evolves is (map h is)"
  by (induction "is") auto

text \<open>A pending row that leaves the pending rows leaves room.\<close>

lemma pending_once_map:
  assumes "pending_once is"
    and "\<And>i. i \<in> set is \<Longrightarrow> same_terms i (h i) \<and> (iv_status (h i) = InvitationPending \<longrightarrow> iv_status i = InvitationPending)"
  shows "pending_once (map h is)"
  using assms
proof (induction "is")
  case (Cons i "is")
  have "\<not> pending_for (iv_tenant (h i)) (iv_invitee (h i)) (h j)"
    if "iv_status (h i) = InvitationPending" "iv_invitee (h i) \<noteq> []" "j \<in> set is" for j
  proof -
    have "i \<in> set (i # is)" "j \<in> set (i # is)" using that(3) by simp_all
    then have i: "same_terms i (h i)" "iv_status i = InvitationPending" and j: "same_terms j (h j)"
      "iv_status (h j) = InvitationPending \<longrightarrow> iv_status j = InvitationPending"
      using that(1) Cons.prems(2) by blast+
    have "\<not> pending_for (iv_tenant i) (iv_invitee i) j"
      using that i Cons.prems(1) by (simp add: same_terms_def)
    with i(1) j show ?thesis by (auto simp: pending_for_def same_terms_def)
  qed
  moreover have "pending_once (map h is)" using Cons.IH Cons.prems by simp
  ultimately show ?case by simp
qed simp

lemma invitations_settle_map:
  assumes "td_invites db' = map h (td_invites db)"
    and "\<And>i. evolves i (h i) \<and> (iv_status (h i) = InvitationPending \<longrightarrow> iv_status i = InvitationPending)"
  shows "invitations_settle db db'"
proof -
  have step: "same_terms i (h i) \<and> (iv_status (h i) = InvitationPending \<longrightarrow> iv_status i = InvitationPending)" for i
    using assms(2) [of i] by (simp add: evolves_def)
  have ids: "map iv_id (map h (td_invites db)) = map iv_id (td_invites db)"
    using step by (simp add: same_terms_def)
  have "list_all2 evolves (td_invites db) (td_invites db')"
    unfolding assms(1) by (rule list_all2_map_evolves) (simp add: assms(2))
  moreover have "pending_once (td_invites db')" if "pending_once (td_invites db)"
    unfolding assms(1) by (rule pending_once_map [OF that]) (rule step)
  moreover have "distinct (map iv_id (td_invites db'))" if "distinct (map iv_id (td_invites db))"
    unfolding assms(1) ids by (rule that)
  ultimately show ?thesis
    by (intro invitations_settleI [where old = "td_invites db'" and new = "[]"]) (simp_all add: invitations_in_order_def)
qed

lemma fold_max_ge: "n \<le> fold max ns n" for n :: nat
  by (induction ns arbitrary: n) (auto intro: order_trans [OF _ max.cobounded1] simp: le_max_iff_disj, metis max.cobounded2 order_trans)

lemma fold_max_bound: "x \<in> set ns \<Longrightarrow> x \<le> fold max ns n" for n :: nat
  by (induction ns arbitrary: n) (auto, metis fold_max_ge max.cobounded1 order_trans)

lemma next_invitation_id_fresh: "i \<in> set (td_invites db) \<Longrightarrow> iv_id i \<noteq> next_invitation_id db"
  using fold_max_bound [of "iv_id i" "map iv_id (td_invites db)" 0] by (auto simp: next_invitation_id_def)

lemma insert_invitation_settles: "invitations_settle db (snd (insert_invitation i db))"
proof (cases "fst (insert_invitation i db) = TeamViolated")
  case True
  then show ?thesis by (auto simp: insert_invitation_def Let_def invitations_settle_refl split: if_splits)
next
  case False
  let ?row = "i\<lparr>iv_id := next_invitation_id db\<rparr>"
  from False have new: "td_invites (snd (insert_invitation i db)) = td_invites db @ [?row]"
    and free: "iv_status i = InvitationPending \<and> iv_invitee i \<noteq> [] \<Longrightarrow> \<not> list_ex (pending_for (iv_tenant i) (iv_invitee i)) (td_invites db)"
    by (auto simp: insert_invitation_def Let_def split: if_splits)
  have "invitations_in_order (snd (insert_invitation i db))" if "invitations_in_order db"
    using that free next_invitation_id_fresh
    by (fastforce simp: invitations_in_order_def new pending_once_snoc list_ex_iff)
  then show ?thesis by (intro invitations_settleI [OF new]) simp_all
qed

lemma mark_invitation_settles: "status \<noteq> InvitationPending \<Longrightarrow> invitations_settle db (snd (mark_invitation iid status at db))"
  by (rule invitations_settle_map [where h = "\<lambda>i. if iv_id i = iid \<and> iv_status i = InvitationPending then settle_invitation status at i else i"])
     (auto simp: mark_invitation_def Let_def settle_invitation_def evolves_def same_terms_def)

lemma sweep_invitations_settles: "invitations_settle db (snd (sweep_invitations now db))"
  by (rule invitations_settle_map [where h = "\<lambda>i. if overdue now i then settle_invitation InvitationExpiredStatus now i else i"])
     (auto simp: sweep_invitations_def settle_invitation_def evolves_def same_terms_def overdue_def)

lemma bump_invitation_settles: "invitations_settle db (snd (bump_invitation iid db))"
  by (rule invitations_settle_map [where h = "\<lambda>i. if iv_id i = iid then i\<lparr>iv_accepted := Suc (iv_accepted i)\<rparr> else i"])
     (auto simp: bump_invitation_def evolves_def same_terms_def)

text \<open>What an invitation that was read has become.\<close>

lemma settled_row:
  assumes "invitations_settle db db'" and "i \<in> set (td_invites db)"
  obtains j where "j \<in> set (td_invites db')" and "evolves i j"
proof -
  from assms(1) obtain old new where o: "td_invites db' = old @ new" "list_all2 evolves (td_invites db) old"
    by (auto simp: invitations_settle_def)
  from assms(2) obtain k where "k < length (td_invites db)" "td_invites db ! k = i" by (auto simp: in_set_conv_nth)
  with o have "old ! k \<in> set (td_invites db')" "evolves i (old ! k)" by (auto simp: list_all2_conv_all_nth)
  then show thesis by (rule that)
qed

definition issued :: "invitation \<Rightarrow> team_db \<Rightarrow> bool" where
  "issued i db \<longleftrightarrow> (\<exists>j \<in> set (td_invites db). same_terms i j)"

definition settled_as :: "invitation_status \<Rightarrow> invitation \<Rightarrow> team_db \<Rightarrow> bool" where
  "settled_as s i db \<longleftrightarrow> (\<exists>j \<in> set (td_invites db). same_terms i j \<and> iv_status j = s)"

lemma issued_found: "List.find P (td_invites db) = Some i \<Longrightarrow> issued i db \<and> P i"
  unfolding issued_def by (metis find_Some_iff nth_mem same_terms_refl)

lemma issued_later: "invitations_settle db db' \<Longrightarrow> issued i db \<Longrightarrow> issued i db'"
  unfolding issued_def by (metis settled_row evolves_def same_terms_trans)

lemma settled_as_later:
  "invitations_settle db db' \<Longrightarrow> s \<noteq> InvitationPending \<Longrightarrow> settled_as s i db \<Longrightarrow> settled_as s i db'"
  unfolding settled_as_def by (metis settled_row evolves_def same_terms_trans)

lemma mark_settles_the_row:
  assumes "invitations_in_order db" and "issued i db" and "met_a_row (fst (mark_invitation (iv_id i) s at db)) = Inr ()"
  shows "settled_as s i (snd (mark_invitation (iv_id i) s at db))"
proof -
  from assms(3) obtain j where j: "j \<in> set (td_invites db)" "iv_id j = iv_id i" "iv_status j = InvitationPending"
    by (auto simp: mark_invitation_def Let_def filter_empty_conv split: if_splits)
  from assms(2) obtain k where k: "k \<in> set (td_invites db)" "same_terms i k" by (auto simp: issued_def)
  have "j = k" using assms(1) j k by (auto simp: invitations_in_order_def same_terms_def distinct_map inj_on_def)
  then have "settle_invitation s at j \<in> set (td_invites (snd (mark_invitation (iv_id i) s at db)))"
    using j by (auto simp: mark_invitation_def Let_def image_iff)
  moreover have "same_terms i (settle_invitation s at j)"
    using k \<open>j = k\<close> by (simp add: same_terms_def settle_invitation_def)
  moreover have "iv_status (settle_invitation s at j) = s" by (simp add: settle_invitation_def)
  ultimately show ?thesis unfolding settled_as_def by blast
qed

text \<open>What a read tells: a membership of no owner is loose, a row that was found was issued.\<close>

definition told :: "('a \<Rightarrow> 'd \<Rightarrow> bool) \<Rightarrow> 'a option \<Rightarrow> 'd \<Rightarrow> bool" where
  "told P x db \<longleftrightarrow> (\<forall>y. x = Some y \<longrightarrow> P y db)"

lemma told_simps [simp]: "told P None = (\<lambda>_. True)" "told P (Some y) = P y"
  by (simp_all add: told_def fun_eq_iff)

lemma told_lasts: "(\<And>y. lasting G (P y)) \<Longrightarrow> lasting G (told P x)"
  by (cases x) simp_all

definition loose_unless_owner :: "(string \<Rightarrow> nat \<Rightarrow> team_db \<Rightarrow> bool) \<Rightarrow> string \<Rightarrow> nat \<Rightarrow> team_member \<Rightarrow> team_db \<Rightarrow> bool" where
  "loose_unless_owner loose user tenant m db \<longleftrightarrow> tm_role m \<noteq> TenantOwner \<longrightarrow> loose user tenant db"

definition issued_as :: "nat \<Rightarrow> invitation \<Rightarrow> team_db \<Rightarrow> bool" where
  "issued_as iid i db \<longleftrightarrow> issued i db \<and> iv_id i = iid"

definition offered :: "invitation \<Rightarrow> team_db \<Rightarrow> bool" where
  "offered i db \<longleftrightarrow> issued i db \<and> iv_token i \<noteq> []"

section \<open>What a protocol has to satisfy\<close>

text \<open>
  \<open>I\<close> holds throughout; \<open>direct\<close> says whether members are added and roles changed outright,
  \<open>grants\<close> which roles are given; \<open>may_add\<close> allows a membership row; \<open>loose\<close> says that a membership
  may go without looking at the other owners.
\<close>

locale team_protocol = protocol G
  for G :: "team_db \<Rightarrow> team_db \<Rightarrow> bool" +
  fixes I :: "team_db \<Rightarrow> bool"
    and direct :: bool
    and grants :: "tenant_role \<Rightarrow> bool"
    and may_add :: "team_member \<Rightarrow> team_db \<Rightarrow> bool"
    and loose :: "string \<Rightarrow> nat \<Rightarrow> team_db \<Rightarrow> bool"
  assumes settles: "G db db' \<Longrightarrow> invitations_settle db db'"
    and I_lasts: "lasting G I"
    and may_add_lasts: "lasting G (may_add m)"
    and loose_lasts: "lasting G (loose user tenant)"
    and in_order: "I db \<Longrightarrow> invitations_in_order db"
    and granted: "I db \<Longrightarrow> i \<in> set (td_invites db) \<Longrightarrow> grants (iv_role i)"
    and add_kept: "I db \<Longrightarrow> may_add m db \<Longrightarrow> G db (snd (insert_membership m db))"
    and direct_add: "direct \<Longrightarrow> grants role \<Longrightarrow> may_add (new_member user tenant role invited_by now) db"
    and accepted_add: "I db \<Longrightarrow> settled_as InvitationAccepted i db
          \<Longrightarrow> may_add (new_member (iv_invitee i) (iv_tenant i) (iv_role i) invited_by now) db"
    and link_add: "I db \<Longrightarrow> issued i db \<Longrightarrow> iv_token i \<noteq> []
          \<Longrightarrow> may_add (new_member user (iv_tenant i) (iv_role i) invited_by now) db"
    and read_loose: "I db \<Longrightarrow> membership db user tenant = Some m \<Longrightarrow> tm_role m \<noteq> TenantOwner \<Longrightarrow> loose user tenant db"
    and role_kept: "I db \<Longrightarrow> direct \<Longrightarrow> grants role \<Longrightarrow> loose user tenant db
          \<Longrightarrow> G db (snd (update_membership_role user tenant role db))"
    and demote_kept: "I db \<Longrightarrow> direct \<Longrightarrow> grants role \<Longrightarrow> role \<noteq> TenantOwner \<Longrightarrow> G db (snd (demote_owner user tenant role db))"
    and drop_kept: "I db \<Longrightarrow> loose user tenant db \<Longrightarrow> G db (snd (delete_membership user tenant db))"
    and remove_kept: "I db \<Longrightarrow> G db (snd (remove_owner user tenant db))"
    and invite_kept: "I db \<Longrightarrow> grants (iv_role i) \<Longrightarrow> iv_status i = InvitationPending
          \<Longrightarrow> G db (snd (insert_invitation i db))"
    and mark_kept: "I db \<Longrightarrow> status \<noteq> InvitationPending \<Longrightarrow> G db (snd (mark_invitation iid status at db))"
    and sweep_kept: "I db \<Longrightarrow> G db (snd (sweep_invitations now db))"
    and bump_kept: "I db \<Longrightarrow> G db (snd (bump_invitation iid db))"
    and neutral: "td_members db' = td_members db \<Longrightarrow> td_invites db' = td_invites db \<Longrightarrow> G db db'"

text \<open>What a program may take for granted: it lasts, and the invariant is part of it.\<close>

definition resting :: "(team_db \<Rightarrow> team_db \<Rightarrow> bool) \<Rightarrow> (team_db \<Rightarrow> bool) \<Rightarrow> (team_db \<Rightarrow> bool) \<Rightarrow> bool" where
  "resting G I K \<longleftrightarrow> lasting G K \<and> (\<forall>db. K db \<longrightarrow> I db)"

lemma restingD: "resting G I K \<Longrightarrow> lasting G K" "resting G I K \<Longrightarrow> K db \<Longrightarrow> I db"
  by (simp_all add: resting_def)

lemma resting_and: "resting G I K \<Longrightarrow> lasting G L \<Longrightarrow> resting G I (\<lambda>db. K db \<and> L db)"
  by (auto simp: resting_def)

context team_protocol
begin

lemma settle_rule:
  assumes "secures ex G K p P" and "resting G I K" and "\<And>x. lasting G (P x)"
    and "\<And>e. secures ex G K (f (Inl e)) R"
    and "\<And>x. resting G I (\<lambda>db. K db \<and> P x db) \<Longrightarrow> secures ex G (\<lambda>db. K db \<and> P x db) (f (Inr x)) R"
  shows "secures ex G K (settle p f) R"
proof (rule secures_settle [OF assms(1)])
  show "secures ex G (\<lambda>db. K db \<and> P x db) (f (Inr x)) R" for x
    using resting_and [OF assms(2) assms(3)] by (rule assms(5))
qed (use assms in \<open>auto intro: restingD\<close>)

lemma attempt_rule:
  assumes "secures ex G K p P" and "resting G I K" and "\<And>x. lasting G (P x)"
    and "\<And>x. resting G I (\<lambda>db. K db \<and> P x db) \<Longrightarrow> secures ex G (\<lambda>db. K db \<and> P x db) (f x) R"
  shows "secures ex G K (attempt p f) R"
proof (rule secures_attempt [OF assms(1)])
  show "secures ex G (\<lambda>db. K db \<and> P x db) (f x) R" for x
    using resting_and [OF assms(2) assms(3)] by (rule assms(4))
qed (use assms in \<open>auto intro: restingD\<close>)

lemma best_effort_rule:
  assumes "secures ex G K p (\<lambda>_ _. True)" and "resting G I K" and "secures ex G K q R"
  shows "secures ex G K (best_effort p q) R"
  using assms unfolding best_effort_def by (intro secures_settle [of ex K p "\<lambda>_ _. True"]) (auto intro: restingD)

lemma give_rule: "secures ex G K (give x) (\<lambda>_ _. True)"
  by (rule secures_give) simp_all

lemma known_rule: "resting G I K \<Longrightarrow> lasting G (P x) \<Longrightarrow> (\<And>db. K db \<Longrightarrow> P x db) \<Longrightarrow> secures ex G K (give x) P"
  by (rule secures_give)

text \<open>Statements.\<close>

lemma call_rule:
  assumes "resting G I K" and "\<And>x. lasting G (P x)" and "\<And>db. K db \<Longrightarrow> G db (snd (team_effect st db))"
    and "\<And>db x. K db \<Longrightarrow> reading (fst (team_effect st db)) = Inr x \<Longrightarrow> P x (snd (team_effect st db))"
    and "\<And>x. reading TeamLost \<noteq> Inr x"
  shows "secures team_machine G K (team_call st reading) P"
  unfolding team_call_def by (rule secures_call) (use assms restingD in auto)

lemma plain_call_rule:
  assumes "resting G I K" and "\<And>db. K db \<Longrightarrow> G db (snd (team_effect st db))" and "\<And>x. reading TeamLost \<noteq> Inr x"
  shows "secures team_machine G K (team_call st reading) (\<lambda>_ _. True)"
  by (rule call_rule) (use assms in auto)

lemma reads_secure:
  assumes "resting G I K"
  shows "secures team_machine G K (get_pending_by_pair tenant user) (\<lambda>_ _. True)"
    and "secures team_machine G K (get_user user) (\<lambda>_ _. True)"
    and "secures team_machine G K (get_user_by_email email) (\<lambda>_ _. True)"
    and "secures team_machine G K (any_members tenant) (\<lambda>_ _. True)"
  unfolding get_pending_by_pair_def get_user_def get_user_by_email_def any_members_def
  by (rule plain_call_rule; simp add: assms same)+

lemma accounts_secure:
  assumes "resting G I K"
  shows "secures team_machine G K (save_user u) (\<lambda>_ _. True)"
    and "secures team_machine G K (revoke_user_tokens user) (\<lambda>_ _. True)"
    and "secures team_machine G K (emit_audit c tenant action target user' details) (\<lambda>_ _. True)"
  unfolding save_user_def revoke_user_tokens_def emit_audit_def
  by (rule plain_call_rule; simp add: assms neutral save_user_row_def revoke_tokens_def)+

lemma knowledge_lasts:
  "lasting G (loose_unless_owner loose user tenant m)"
  "lasting G (issued_as iid i)"
  "lasting G (offered i)"
  "s \<noteq> InvitationPending \<Longrightarrow> lasting G (settled_as s i)"
  using loose_lasts [of user tenant]
  by (auto simp: lasting_def loose_unless_owner_def issued_as_def offered_def
        dest!: settles intro: issued_later settled_as_later)

lemma get_membership_secures:
  assumes "resting G I K"
  shows "secures team_machine G K (get_membership user tenant) (told (loose_unless_owner loose user tenant))"
  unfolding get_membership_def
  by (rule call_rule) (use assms in \<open>auto simp: same told_def loose_unless_owner_def
    intro: told_lasts knowledge_lasts read_loose restingD\<close>)

lemma get_invitation_secures:
  assumes "resting G I K"
  shows "secures team_machine G K (get_invitation iid) (told (issued_as iid))"
  unfolding get_invitation_def
  by (rule call_rule) (use assms in \<open>auto simp: same told_def issued_as_def dest: issued_found
    intro: told_lasts knowledge_lasts\<close>)

lemma get_active_by_token_secures:
  assumes "resting G I K"
  shows "secures team_machine G K (get_active_by_token token) (told offered)"
proof (cases "token = []")
  case True
  then show ?thesis using assms by (auto simp: get_active_by_token_def intro: known_rule)
next
  case False
  then show ?thesis
    by (simp add: get_active_by_token_def)
       (rule call_rule, use assms in \<open>auto simp: same told_def offered_def dest: issued_found
          intro: told_lasts knowledge_lasts\<close>)
qed

lemma create_membership_secures:
  assumes "resting G I K" and "\<And>db. K db \<Longrightarrow> may_add m db"
  shows "secures team_machine G K (create_membership m) (\<lambda>_ _. True)"
  unfolding create_membership_def by (rule plain_call_rule) (use assms in \<open>auto intro: add_kept restingD\<close>)

lemma save_membership_role_secures:
  assumes "resting G I K" and "direct" and "grants role" and "\<And>db. K db \<Longrightarrow> loose user tenant db"
  shows "secures team_machine G K (save_membership_role user tenant role) (\<lambda>_ _. True)"
  unfolding save_membership_role_def by (rule plain_call_rule) (use assms in \<open>auto intro: role_kept restingD\<close>)

lemma drop_membership_secures:
  assumes "resting G I K" and "\<And>db. K db \<Longrightarrow> loose user tenant db"
  shows "secures team_machine G K (drop_membership user tenant) (\<lambda>_ _. True)"
  unfolding drop_membership_def by (rule plain_call_rule) (use assms in \<open>auto intro: drop_kept restingD\<close>)

lemma demote_secures:
  assumes "resting G I K" and "direct" and "grants role" and "role \<noteq> TenantOwner"
  shows "secures team_machine G K (demote_owner_atomically user tenant role) (\<lambda>_ _. True)"
  unfolding demote_owner_atomically_def by (rule plain_call_rule) (use assms in \<open>auto intro: demote_kept restingD\<close>)

lemma remove_secures:
  assumes "resting G I K"
  shows "secures team_machine G K (remove_owner_atomically user tenant) (\<lambda>_ _. True)"
  unfolding remove_owner_atomically_def by (rule plain_call_rule) (use assms in \<open>auto intro: remove_kept restingD\<close>)

lemma mark_secures:
  assumes "resting G I K" and "status \<noteq> InvitationPending" and "\<And>db. K db \<Longrightarrow> issued i db" and "iv_id i = iid"
  shows "secures team_machine G K (mark_if_pending iid status at) (\<lambda>_. settled_as status i)"
  unfolding mark_if_pending_def
proof (rule call_rule)
  show "lasting G (settled_as status i)"
    using assms(2) by (rule knowledge_lasts)
  show "settled_as status i (snd (team_effect (OnInvitations (MarkInvitation iid status at)) db))"
    if "K db" and "met_a_row (fst (team_effect (OnInvitations (MarkInvitation iid status at)) db)) = Inr x" for db and x :: unit
    using that assms mark_settles_the_row [OF in_order [OF restingD(2) [OF assms(1)]] assms(3)] by auto
qed (use assms in \<open>auto intro: mark_kept restingD\<close>)

lemma marks_secure:
  assumes "resting G I K"
  shows "status \<noteq> InvitationPending \<Longrightarrow> secures team_machine G K (mark_if_pending iid status at) (\<lambda>_ _. True)"
    and "secures team_machine G K (sweep_expired now) (\<lambda>_ _. True)"
    and "secures team_machine G K (bump_accepted iid) (\<lambda>_ _. True)"
  unfolding mark_if_pending_def sweep_expired_def bump_accepted_def
  by (rule plain_call_rule; use assms in \<open>auto intro: mark_kept sweep_kept bump_kept restingD\<close>)+

lemma create_invitation_row_secures:
  assumes "resting G I K" and "grants (iv_role i)" and "iv_status i = InvitationPending"
  shows "secures team_machine G K (create_invitation_row i) (\<lambda>_ _. True)"
proof -
  have "secures team_machine G L (team_call (OnInvitations (InsertInvitation i)) read_inserted) (\<lambda>_ _. True)"
    if "resting G I L" for L
    by (rule plain_call_rule) (use assms that in \<open>auto intro: invite_kept restingD\<close>)
  then show ?thesis unfolding create_invitation_row_def
    by (auto intro!: attempt_rule [where P = "\<lambda>_ _. True"] assms(1) reads_secure give_rule secures_fail)
qed

end

end
