(* ===== verification/TeamProtocol.thy ===== *)
theory TeamProtocol
  imports TeamRun
begin

text \<open>
  Every operation on members and invitations stays within every protocol: the rules of
  \<open>team_protocol\<close> for the services, and the interleaving of any number of them.
\<close>

section \<open>The operations\<close>

text \<open>
  One rule per operation of the services that writes. \<open>direct\<close> admits those that add a member or
  change a role outright; \<open>grants\<close> are the roles they, and invitations, give.
\<close>

inductive team_operation :: "bool \<Rightarrow> (tenant_role \<Rightarrow> bool) \<Rightarrow> (team_statement, team_reply, unit) prog \<Rightarrow> bool"
  for direct grants where
  op_add: "direct \<Longrightarrow> grants role \<Longrightarrow> team_operation direct grants (forget (add_member c user tenant role invited_by now))"
| op_owner: "direct \<Longrightarrow> grants TenantOwner \<Longrightarrow> team_operation direct grants (forget (ensure_owner user tenant now))"
| op_change: "direct \<Longrightarrow> grants role \<Longrightarrow> team_operation direct grants (forget (change_role c user tenant role))"
| op_remove: "team_operation direct grants (forget (remove_member c user tenant))"
| op_invite: "grants role
    \<Longrightarrow> team_operation direct grants (forget (invite c tenant user role invited_by message clock ttl))"
| op_link: "grants role
    \<Longrightarrow> team_operation direct grants (forget (create_share_link c tenant role invited_by message token clock ttl))"
| op_accept: "team_operation direct grants (forget (accept c iid user clock))"
| op_decline: "team_operation direct grants (forget (decline c iid user clock))"
| op_revoke: "team_operation direct grants (forget (revoke c iid clock))"
| op_reconcile: "team_operation direct grants (forget (mark_pending_accepted tenant user clock))"
| op_token: "team_operation direct grants (forget (accept_by_token c token user clock))"
| op_sweep: "team_operation direct grants (forget (sweep_expired now))"

inductive_cases team_operationE: "team_operation direct grants p"

section \<open>The services\<close>

context team_protocol
begin

lemma if_rule: "(c \<Longrightarrow> secures ex G K a R) \<Longrightarrow> (\<not> c \<Longrightarrow> secures ex G K b R) \<Longrightarrow> secures ex G K (if c then a else b) R"
  by simp

lemma option_rule:
  "(x = None \<Longrightarrow> secures ex G K a R) \<Longrightarrow> (\<And>y. x = Some y \<Longrightarrow> secures ex G K (f y) R)
     \<Longrightarrow> secures ex G K (case x of None \<Rightarrow> a | Some y \<Rightarrow> f y) R"
  by (simp split: option.split)

lemma sum_rule:
  "(\<And>e. x = Inl e \<Longrightarrow> secures ex G K (f e) R) \<Longrightarrow> (\<And>y. x = Inr y \<Longrightarrow> secures ex G K (g y) R)
     \<Longrightarrow> secures ex G K (case x of Inl e \<Rightarrow> f e | Inr y \<Rightarrow> g y) R"
  by (simp split: sum.split)

lemma may_assign_secures: "resting G I K \<Longrightarrow> secures team_machine G K (may_assign c role) (\<lambda>_ _. True)"
  unfolding may_assign_def by (auto intro: give_rule secures_fail)

lemmas rules = attempt_rule settle_rule best_effort_rule if_rule option_rule sum_rule secures_fail give_rule
  may_assign_secures get_membership_secures get_invitation_secures get_active_by_token_secures reads_secure
  accounts_secure create_membership_secures save_membership_role_secures drop_membership_secures demote_secures
  remove_secures create_invitation_row_secures lasting_true told_lasts knowledge_lasts

lemma add_member_secures:
  assumes "resting G I K"
    and "\<And>db. K db \<Longrightarrow> may_add (new_member user tenant role invited_by now) db"
  shows "secures team_machine G K (add_member c user tenant role invited_by now) (\<lambda>_ _. True)"
  unfolding add_member_def Let_def by ((assumption | rule rules | simp add: assms loose_unless_owner_def)+)

lemma ensure_owner_secures:
  assumes "resting G I K" and "direct" and "grants TenantOwner"
  shows "secures team_machine G K (ensure_owner user tenant now) (\<lambda>_ _. True)"
  unfolding ensure_owner_def Let_def by ((assumption | rule rules | simp add: assms direct_add)+)

lemma change_role_secures:
  assumes "resting G I K" and "direct" and "grants role"
  shows "secures team_machine G K (change_role c user tenant role) (\<lambda>_ _. True)"
  unfolding change_role_def Let_def
  by ((assumption | rule rules | simp add: assms | auto simp: loose_unless_owner_def)+)

lemma after_removal_secures: "resting G I K \<Longrightarrow> secures team_machine G K (after_removal c user tenant) (\<lambda>_ _. True)"
  unfolding after_removal_def cleanup_removed_def by ((assumption | rule rules)+)

lemma remove_member_secures:
  assumes "resting G I K"
  shows "secures team_machine G K (remove_member c user tenant) (\<lambda>_ _. True)"
  unfolding remove_member_def
  by ((assumption | rule rules after_removal_secures | simp add: assms | auto simp: loose_unless_owner_def)+)

section \<open>Invitations\<close>

lemma sweep_invites_rule:
  "resting G I K \<Longrightarrow> secures team_machine G K p R \<Longrightarrow> secures team_machine G K (sweep_invites now p) R"
  unfolding sweep_invites_def by (rule best_effort_rule [OF marks_secure(2)])

lemma audit_invitation_secures:
  "resting G I K \<Longrightarrow> secures team_machine G K (audit_invitation c i action user) (\<lambda>_ _. True)"
  unfolding audit_invitation_def by (rule accounts_secure)

lemmas invitation_rules = rules sweep_invites_rule audit_invitation_secures marks_secure(3) after_removal_secures

lemma invite_secures:
  assumes "resting G I K" and "grants role"
  shows "secures team_machine G K (invite c tenant user role invited_by message clock ttl) (\<lambda>_ _. True)"
  unfolding invite_def by ((assumption | rule invitation_rules | simp add: assms new_invitation_def)+)

lemma create_share_link_secures:
  assumes "resting G I K" and "grants role"
  shows "secures team_machine G K (create_share_link c tenant role invited_by message token clock ttl) (\<lambda>_ _. True)"
  unfolding create_share_link_def by ((assumption | rule invitation_rules | simp add: assms new_invitation_def)+)

lemma mark_accepted_secures:
  assumes "resting G I K" and "\<And>db. K db \<Longrightarrow> issued_as iid i db"
  shows "secures team_machine G K (mark_if_pending iid InvitationAccepted at) (\<lambda>_. settled_as InvitationAccepted i)"
proof (cases "\<exists>db. K db")
  case True
  then have "iv_id i = iid" using assms(2) by (auto simp: issued_as_def)
  then show ?thesis using assms by (intro mark_secures) (auto simp: issued_as_def)
qed (simp add: secures_def)

lemma add_accepted_secures:
  assumes "resting G I K" and "\<And>db. K db \<Longrightarrow> settled_as InvitationAccepted i db"
  shows "secures team_machine G K (add_member c (iv_invitee i) (iv_tenant i) (iv_role i) invited_by now) (\<lambda>_ _. True)"
  by (rule add_member_secures [OF assms(1)]) (use assms in \<open>auto intro: accepted_add restingD\<close>)

lemma join_invited_secures:
  assumes "resting G I K" and "\<And>db. K db \<Longrightarrow> settled_as InvitationAccepted i db"
  shows "secures team_machine G K (join_invited c i now) (\<lambda>_ _. True)"
  unfolding join_invited_def
  by ((assumption | rule invitation_rules add_accepted_secures | simp add: assms)+)

lemma accept_found_secures:
  assumes "resting G I K" and "\<And>db. K db \<Longrightarrow> issued_as iid i db"
  shows "secures team_machine G K (settle (mark_if_pending iid InvitationAccepted at) (\<lambda>r.
           case r of Inl _ \<Rightarrow> fail InvitationNotPending | Inr _ \<Rightarrow> join_invited c i now)) (\<lambda>_ _. True)"
  by (rule settle_rule [OF mark_accepted_secures [OF assms]])
     (auto simp: assms(1) intro: knowledge_lasts secures_fail join_invited_secures)

lemma accept_secures:
  assumes "resting G I K"
  shows "secures team_machine G K (accept c iid user clock) (\<lambda>_ _. True)"
  unfolding accept_def
  by ((assumption | rule accept_found_secures invitation_rules | simp add: assms)+)

lemma answers_secure:
  assumes "resting G I K"
  shows "secures team_machine G K (decline c iid user clock) (\<lambda>_ _. True)"
    and "secures team_machine G K (revoke c iid clock) (\<lambda>_ _. True)"
    and "secures team_machine G K (mark_pending_accepted tenant user clock) (\<lambda>_ _. True)"
  unfolding decline_def revoke_def mark_pending_accepted_def
  by ((assumption | rule invitation_rules marks_secure(1) | simp add: assms)+)

lemma lookup_by_token_secures:
  assumes "resting G I K"
  shows "secures team_machine G K (lookup_by_token token clock) offered"
proof -
  have "secures team_machine G L (give i) offered" if "resting G I L" "\<And>db. L db \<Longrightarrow> offered i db" for L i
    using that by (intro known_rule knowledge_lasts) auto
  note found = this
  show ?thesis unfolding lookup_by_token_def Let_def
    by ((assumption | rule attempt_rule sweep_invites_rule if_rule option_rule secures_fail get_active_by_token_secures
          told_lasts knowledge_lasts found | simp add: assms)+)
qed

lemma add_offered_secures:
  assumes "resting G I K" and "\<And>db. K db \<Longrightarrow> offered i db"
  shows "secures team_machine G K (add_member c user (iv_tenant i) (iv_role i) invited_by now) (\<lambda>_ _. True)"
  by (rule add_member_secures [OF assms(1)])
     (use assms(2) in \<open>auto simp: offered_def intro: link_add restingD(2) [OF assms(1)]\<close>)

lemma accept_by_token_secures:
  assumes "resting G I K"
  shows "secures team_machine G K (accept_by_token c token user clock) (\<lambda>_ _. True)"
  unfolding accept_by_token_def
  by ((assumption | rule invitation_rules lookup_by_token_secures add_offered_secures answers_secure | simp add: assms)+)

section \<open>All of them together\<close>

lemmas operations_secure = add_member_secures [OF _ direct_add] ensure_owner_secures change_role_secures
  remove_member_secures invite_secures create_share_link_secures accept_secures answers_secure
  accept_by_token_secures marks_secure(2)

lemma I_rests: "resting G I I"
  by (simp add: resting_def I_lasts)

lemma team_operation_within:
  assumes "team_operation direct grants p" and "I db"
  shows "within team_machine G (\<lambda>_ _. True) p db"
  using assms(1) by (cases rule: team_operation.cases)
    (auto intro!: within_forget [of _ I] assms(2) intro: operations_secure I_rests)

text \<open>However many operations interleave, statement by statement, and whatever fails.\<close>

theorem interleaving_stays:
  assumes "(turn team_machine)\<^sup>*\<^sup>* (db, ps) (db', ps')" and "I db"
    and "\<forall>p \<in> set ps. team_operation direct grants p"
  shows "G db db'"
  using turns_stay [OF assms(1), of "\<lambda>_ _ _. True"] assms(2,3) team_operation_within by simp

end

end
