(* ===== verification/TeamFacts.thy ===== *)
theory TeamFacts
  imports TeamProtocol
begin

text \<open>
  Three protocols of the services over members and invitations. Invitations settle once. A workspace
  that has an owner keeps one while nobody becomes an owner, since a member that was read as no owner stays
  none and every other way out counts the other owners under a lock. And, while members are not added
  outright, whoever is a member was invited.
\<close>

section \<open>Invitations settle\<close>

interpretation settling: team_protocol invitations_settle invitations_in_order True "\<lambda>_. True" "\<lambda>_ _. True" "\<lambda>_ _ _. True"
proof
  show "invitations_settle db db'' " if "invitations_settle db db'" "invitations_settle db' db''" for db db' db''
    using that by (rule invitations_settle_trans)
  show "lasting invitations_settle invitations_in_order"
    by (auto simp: lasting_def invitations_settle_def)
qed (auto simp: invitations_settle_refl insert_membership_def update_membership_role_def delete_membership_def
      demote_owner_def remove_owner_def rewrite_membership_def insert_invitation_settles mark_invitation_settles
      sweep_invitations_settles bump_invitation_settles intro: invitations_settle_same)

section \<open>Owners\<close>

definition has_owner :: "nat \<Rightarrow> team_db \<Rightarrow> bool" where
  "has_owner tenant db \<longleftrightarrow> (\<exists>m \<in> set (td_members db). active_owner tenant m)"

definition not_owner :: "string \<Rightarrow> nat \<Rightarrow> team_db \<Rightarrow> bool" where
  "not_owner user tenant db \<longleftrightarrow> (\<forall>m \<in> set (td_members db). holds_membership user tenant m \<longrightarrow> tm_role m \<noteq> TenantOwner)"

definition one_row_each :: "team_db \<Rightarrow> bool" where
  "one_row_each db \<longleftrightarrow>
     (\<forall>m \<in> set (td_members db). \<forall>n \<in> set (td_members db).
        \<not> tm_deleted m \<and> \<not> tm_deleted n \<and> tm_user m = tm_user n \<and> tm_tenant m = tm_tenant n \<longrightarrow> tm_role m = tm_role n)"

definition no_owner_invited :: "team_db \<Rightarrow> bool" where
  "no_owner_invited db \<longleftrightarrow> (\<forall>i \<in> set (td_invites db). iv_role i \<noteq> TenantOwner)"

definition owners_ready :: "team_db \<Rightarrow> bool" where
  "owners_ready db \<longleftrightarrow> invitations_in_order db \<and> no_owner_invited db \<and> one_row_each db"

definition owners_kept :: "team_db \<Rightarrow> team_db \<Rightarrow> bool" where
  "owners_kept db db' \<longleftrightarrow>
     invitations_settle db db'
   \<and> (owners_ready db \<longrightarrow> owners_ready db')
   \<and> (\<forall>tenant. has_owner tenant db \<longrightarrow> has_owner tenant db')
   \<and> (\<forall>user tenant. not_owner user tenant db \<longrightarrow> not_owner user tenant db')"

text \<open>The writes.\<close>

lemma same_members:
  assumes "td_members db' = td_members db"
  shows "has_owner t db' = has_owner t db" and "not_owner u t db' = not_owner u t db" and "one_row_each db' = one_row_each db"
  using assms by (simp_all add: has_owner_def not_owner_def one_row_each_def)

lemma owners_kept_same_members:
  assumes "td_members db' = td_members db" and "invitations_settle db db'" and "no_owner_invited db \<Longrightarrow> no_owner_invited db'"
  shows "owners_kept db db'"
proof -
  have "invitations_in_order db \<Longrightarrow> invitations_in_order db'" using assms(2) by (simp add: invitations_settle_def)
  with assms same_members [OF assms(1)] show ?thesis unfolding owners_kept_def owners_ready_def by blast
qed

lemma owners_kept_refl: "owners_kept db db"
  by (rule owners_kept_same_members) (simp_all add: invitations_settle_refl)

lemma owners_kept_same_invites:
  assumes "td_invites db' = td_invites db"
    and "one_row_each db \<Longrightarrow> one_row_each db'" and "\<And>t. has_owner t db \<Longrightarrow> has_owner t db'"
    and "\<And>u t. not_owner u t db \<Longrightarrow> not_owner u t db'"
  shows "owners_kept db db'"
proof -
  have "invitations_settle db db'" "invitations_in_order db \<Longrightarrow> invitations_in_order db'" "no_owner_invited db' = no_owner_invited db"
    using assms(1) invitations_settle_same [OF assms(1)]
    by (simp_all add: no_owner_invited_def invitations_in_order_def)
  with assms(2-4) show ?thesis unfolding owners_kept_def owners_ready_def by blast
qed

lemma one_row_eachD:
  "one_row_each db \<Longrightarrow> m \<in> set (td_members db) \<Longrightarrow> n \<in> set (td_members db) \<Longrightarrow> holds_membership user tenant m
     \<Longrightarrow> holds_membership user tenant n \<Longrightarrow> tm_role m = tm_role n"
  unfolding one_row_each_def holds_membership_def by (drule (1) bspec, drule (1) bspec) simp

lemma one_row_eachI:
  assumes "\<And>m n user tenant. m \<in> set (td_members db) \<Longrightarrow> n \<in> set (td_members db) \<Longrightarrow> holds_membership user tenant m
     \<Longrightarrow> holds_membership user tenant n \<Longrightarrow> tm_role m = tm_role n"
  shows "one_row_each db"
  unfolding one_row_each_def
proof (intro ballI impI)
  fix m n assume "m \<in> set (td_members db)" "n \<in> set (td_members db)"
    and "\<not> tm_deleted m \<and> \<not> tm_deleted n \<and> tm_user m = tm_user n \<and> tm_tenant m = tm_tenant n"
  then show "tm_role m = tm_role n"
    using assms [of m n "tm_user m" "tm_tenant m"] by (simp add: holds_membership_def)
qed

lemma membership_None: "membership db user tenant = None \<Longrightarrow> m \<in> set (td_members db) \<Longrightarrow> \<not> holds_membership user tenant m"
  by (auto simp: membership_def find_None_iff)

lemma membership_Some: "membership db user tenant = Some m \<Longrightarrow> m \<in> set (td_members db) \<and> holds_membership user tenant m"
  unfolding membership_def by (metis find_Some_iff nth_mem)

lemma insert_membership_owners:
  assumes "tm_role m \<noteq> TenantOwner"
  shows "owners_kept db (snd (insert_membership m db))"
proof (cases "membership db (tm_user m) (tm_tenant m) = None")
  case True
  let ?m = "member_defaults m" and ?db = "snd (insert_membership m db)"
  have new: "td_members ?db = td_members db @ [?m]" "td_invites ?db = td_invites db"
    using True by (simp_all add: insert_membership_def)
  have m: "tm_role ?m \<noteq> TenantOwner" "\<And>u t. holds_membership u t ?m \<Longrightarrow> u = tm_user m \<and> t = tm_tenant m"
    using assms by (auto simp: member_defaults_def holds_membership_def split: if_splits)
  show ?thesis
  proof (rule owners_kept_same_invites [OF new(2)])
    show "one_row_each ?db" if "one_row_each db"
    proof (rule one_row_eachI)
      fix n k u t assume nk: "n \<in> set (td_members ?db)" "k \<in> set (td_members ?db)"
        and held: "holds_membership u t n" "holds_membership u t k"
      have "r = ?m \<or> r \<in> set (td_members db)" if "r \<in> set (td_members ?db)" for r using that by (auto simp: new)
      then show "tm_role n = tm_role k"
        using nk held m(2) membership_None [OF True] one_row_eachD [OF that _ _ held] by metis
    qed
    show "has_owner t ?db" if "has_owner t db" for t using that by (auto simp: has_owner_def new)
    show "not_owner u t ?db" if "not_owner u t db" for u t using that m(1) by (auto simp: not_owner_def new)
  qed
next
  case False
  then show ?thesis by (simp add: insert_membership_def owners_kept_refl)
qed

lemma rewrite_owners:
  assumes "\<And>t. has_owner t db \<Longrightarrow> \<exists>m \<in> set (td_members db). active_owner t m \<and> \<not> holds_membership user tenant m"
    and h: "\<And>u t m. holds_membership u t (h m) \<Longrightarrow> holds_membership u t m"
    and "(\<forall>m. tm_role (h m) = role) \<and> role \<noteq> TenantOwner \<or> (\<forall>m. tm_deleted (h m))"
  shows "owners_kept db (rewrite_membership user tenant h db)"
proof (rule owners_kept_same_invites)
  let ?db = "rewrite_membership user tenant h db"
  have rows: "n \<in> set (td_members db) \<and> \<not> holds_membership user tenant n
      \<or> (\<exists>m \<in> set (td_members db). holds_membership user tenant m \<and> n = h m)" if "n \<in> set (td_members ?db)" for n
    using that by (auto simp: rewrite_membership_def)
  have gone: "\<not> holds_membership u t (h m)" if "\<not> (\<forall>m. tm_role (h m) = role) \<or> role = TenantOwner" for u t m
    using assms(3) that by (auto simp: holds_membership_def)
  show "td_invites ?db = td_invites db" by (simp add: rewrite_membership_def)
  show "has_owner t ?db" if owner: "has_owner t db" for t
  proof -
    from assms(1) [OF owner] obtain m where "m \<in> set (td_members db)" "active_owner t m" "\<not> holds_membership user tenant m"
      by blast
    then have "m \<in> set (td_members ?db)" by (force simp: rewrite_membership_def)
    with \<open>active_owner t m\<close> show ?thesis unfolding has_owner_def by blast
  qed
  show "not_owner u t ?db" if "not_owner u t db" for u t
    unfolding not_owner_def using that rows gone assms(3) by (metis not_owner_def)
  have same: "u = user \<and> t = tenant" if "holds_membership u t (h m)" "holds_membership user tenant m" for u t m
    using h [OF that(1)] that(2) by (simp add: holds_membership_def)
  show "one_row_each ?db" if one: "one_row_each db"
  proof (rule one_row_eachI)
    fix m n u t assume mn: "m \<in> set (td_members ?db)" "n \<in> set (td_members ?db)"
      and held: "holds_membership u t m" "holds_membership u t n"
    from rows [OF mn(1)] rows [OF mn(2)] show "tm_role m = tm_role n"
      using one_row_eachD [OF one _ _ held] held same gone by metis
  qed
qed

lemma update_role_owners:
  "role \<noteq> TenantOwner \<Longrightarrow> (\<And>t. has_owner t db \<Longrightarrow> \<exists>m \<in> set (td_members db). active_owner t m \<and> \<not> holds_membership user tenant m)
     \<Longrightarrow> owners_kept db (snd (update_membership_role user tenant role db))"
  by (auto simp: update_membership_role_def holds_membership_def intro!: rewrite_owners)

lemma delete_owners:
  "(\<And>t. has_owner t db \<Longrightarrow> \<exists>m \<in> set (td_members db). active_owner t m \<and> \<not> holds_membership user tenant m)
     \<Longrightarrow> owners_kept db (snd (delete_membership user tenant db))"
  by (auto simp: delete_membership_def holds_membership_def intro!: rewrite_owners)

text \<open>Who is left: a member that is no owner takes none along, and neither does one beside another owner.\<close>

lemma owner_left_by_member:
  "not_owner user tenant db \<Longrightarrow> has_owner t db \<Longrightarrow> \<exists>m \<in> set (td_members db). active_owner t m \<and> \<not> holds_membership user tenant m"
  by (auto simp: has_owner_def not_owner_def active_owner_def)

lemma owner_left_by_owner:
  "other_owners db user tenant \<noteq> [] \<Longrightarrow> has_owner t db \<Longrightarrow> \<exists>m \<in> set (td_members db). active_owner t m \<and> \<not> holds_membership user tenant m"
  by (cases "t = tenant") (auto simp: has_owner_def other_owners_def filter_empty_conv active_owner_def holds_membership_def)

interpretation owners: team_protocol owners_kept owners_ready True "\<lambda>r. r \<noteq> TenantOwner" "\<lambda>m _. tm_role m \<noteq> TenantOwner" not_owner
proof
  show "owners_kept db db" for db
    by (rule owners_kept_refl)
  show "owners_kept db db''" if "owners_kept db db'" "owners_kept db' db''" for db db' db''
    using that invitations_settle_trans by (auto simp: owners_kept_def)
  show "invitations_settle db db'" if "owners_kept db db'" for db db'
    using that by (simp add: owners_kept_def)
  show "lasting owners_kept owners_ready" "lasting owners_kept (not_owner user tenant)" for user tenant
    by (auto simp: lasting_def owners_kept_def)
  show "invitations_in_order db" if "owners_ready db" for db
    using that by (simp add: owners_ready_def)
  show "iv_role i \<noteq> TenantOwner" if "owners_ready db" "i \<in> set (td_invites db)" for db i
    using that by (simp add: owners_ready_def no_owner_invited_def)
  show "tm_role (new_member (iv_invitee i) (iv_tenant i) (iv_role i) invited_by now) \<noteq> TenantOwner"
    if "owners_ready db" "settled_as InvitationAccepted i db" for db i invited_by now
    using that by (auto simp: owners_ready_def no_owner_invited_def settled_as_def same_terms_def new_member_def)
  show "tm_role (new_member user (iv_tenant i) (iv_role i) invited_by now) \<noteq> TenantOwner"
    if "owners_ready db" "issued i db" for db i user invited_by now
    using that by (auto simp: owners_ready_def no_owner_invited_def issued_def same_terms_def new_member_def)
  show "not_owner user tenant db"
    if "owners_ready db" "membership db user tenant = Some m" "tm_role m \<noteq> TenantOwner" for db user tenant m
    using that membership_Some [OF that(2)] one_row_eachD [of db m] unfolding owners_ready_def not_owner_def by metis
  show "owners_kept db (snd (insert_invitation i db))" if "iv_role i \<noteq> TenantOwner" for db i
    using that by (intro owners_kept_same_members insert_invitation_settles)
      (auto simp: insert_invitation_def Let_def no_owner_invited_def split: if_splits)
  show "owners_kept db (snd (mark_invitation iid status at db))" if "status \<noteq> InvitationPending" for db iid status at
    using that by (intro owners_kept_same_members mark_invitation_settles)
      (auto simp: mark_invitation_def Let_def no_owner_invited_def settle_invitation_def)
  show "owners_kept db (snd (sweep_invitations now db))" for db now
    by (intro owners_kept_same_members sweep_invitations_settles)
      (auto simp: sweep_invitations_def no_owner_invited_def settle_invitation_def)
  show "owners_kept db (snd (bump_invitation iid db))" for db iid
    by (intro owners_kept_same_members bump_invitation_settles)
      (auto simp: bump_invitation_def no_owner_invited_def)
  show "owners_kept db db'" if "td_members db' = td_members db" "td_invites db' = td_invites db" for db db'
    using that by (intro owners_kept_same_members invitations_settle_same) (simp_all add: no_owner_invited_def)
  show "owners_kept db (snd (demote_owner user tenant role db))" if "role \<noteq> TenantOwner" for db user tenant role
    using that by (auto simp: demote_owner_def owners_kept_refl
      intro!: update_role_owners owner_left_by_owner)
  show "owners_kept db (snd (remove_owner user tenant db))" for db user tenant
    by (auto simp: remove_owner_def owners_kept_refl
      intro!: delete_owners owner_left_by_owner)
qed (auto simp: lasting_def new_member_def
      intro: insert_membership_owners update_role_owners delete_owners owner_left_by_member)

section \<open>Members were invited\<close>

definition sits :: "string \<Rightarrow> nat \<Rightarrow> tenant_role \<Rightarrow> team_db \<Rightarrow> bool" where
  "sits user tenant role db \<longleftrightarrow> (\<exists>m \<in> set (td_members db). holds_membership user tenant m \<and> tm_role m = role)"

text \<open>An invitation to this role that the user accepted, or a share link to it.\<close>

definition was_invited :: "string \<Rightarrow> nat \<Rightarrow> tenant_role \<Rightarrow> team_db \<Rightarrow> bool" where
  "was_invited user tenant role db \<longleftrightarrow>
     (\<exists>i \<in> set (td_invites db). iv_tenant i = tenant \<and> iv_role i = role
        \<and> (iv_invitee i = user \<and> iv_status i = InvitationAccepted \<or> iv_token i \<noteq> []))"

definition members_invited :: "team_db \<Rightarrow> team_db \<Rightarrow> bool" where
  "members_invited db db' \<longleftrightarrow>
     invitations_settle db db'
   \<and> (\<forall>user tenant role. sits user tenant role db' \<longrightarrow> sits user tenant role db \<or> was_invited user tenant role db')"

lemma was_invited_later:
  assumes "invitations_settle db db'" and "was_invited user tenant role db"
  shows "was_invited user tenant role db'"
proof -
  from assms(2) obtain i where i: "i \<in> set (td_invites db)" "iv_tenant i = tenant \<and> iv_role i = role"
      "iv_invitee i = user \<and> iv_status i = InvitationAccepted \<or> iv_token i \<noteq> []"
    by (auto simp: was_invited_def)
  from assms(1) i(1) obtain j where "j \<in> set (td_invites db')" "evolves i j" by (rule settled_row)
  with i(2,3) show ?thesis unfolding was_invited_def by (intro bexI [of _ j]) (auto simp: evolves_def same_terms_def)
qed

lemma members_invited_no_more:
  "invitations_settle db db' \<Longrightarrow> (\<And>u t r. sits u t r db' \<Longrightarrow> sits u t r db) \<Longrightarrow> members_invited db db'"
  by (simp add: members_invited_def)

lemma sits_same: "td_members db' = td_members db \<Longrightarrow> sits u t r db' = sits u t r db"
  by (simp add: sits_def)

lemma delete_invited: "members_invited db (snd (delete_membership user tenant db))"
  by (rule members_invited_no_more)
     (auto simp: delete_membership_def rewrite_membership_def sits_def holds_membership_def split: if_splits
       intro: invitations_settle_same)

lemma insert_invited:
  assumes "was_invited (tm_user m) (tm_tenant m) (tm_role m) db"
  shows "members_invited db (snd (insert_membership m db))"
proof -
  let ?db = "snd (insert_membership m db)"
  have inv: "td_invites ?db = td_invites db" by (simp add: insert_membership_def)
  have "sits u t r db \<or> (u = tm_user m \<and> t = tm_tenant m \<and> r = tm_role m)" if "sits u t r ?db" for u t r
    using that by (auto simp: insert_membership_def sits_def holds_membership_def member_defaults_def split: if_splits)
  moreover have "was_invited u t r ?db = was_invited u t r db" for u t r by (simp add: was_invited_def inv)
  ultimately show ?thesis using assms invitations_settle_same [OF inv] by (auto simp: members_invited_def)
qed

lemma accepted_was_invited:
  assumes "settled_as InvitationAccepted i db"
  shows "was_invited (iv_invitee i) (iv_tenant i) (iv_role i) db"
proof -
  from assms obtain j where "j \<in> set (td_invites db)" "same_terms i j" "iv_status j = InvitationAccepted"
    by (auto simp: settled_as_def)
  then show ?thesis unfolding was_invited_def by (intro bexI [of _ j]) (simp_all add: same_terms_def)
qed

lemma linked_was_invited:
  assumes "issued i db" and "iv_token i \<noteq> []"
  shows "was_invited user (iv_tenant i) (iv_role i) db"
proof -
  from assms(1) obtain j where "j \<in> set (td_invites db)" "same_terms i j" by (auto simp: issued_def)
  with assms(2) show ?thesis unfolding was_invited_def by (intro bexI [of _ j]) (simp_all add: same_terms_def)
qed

interpretation invited: team_protocol members_invited invitations_in_order False "\<lambda>_. True"
  "\<lambda>m. was_invited (tm_user m) (tm_tenant m) (tm_role m)" "\<lambda>_ _ _. True"
proof
  have same: "members_invited db db'" if "td_members db' = td_members db" "invitations_settle db db'" for db db'
    using that by (intro members_invited_no_more) (simp_all add: sits_same [OF that(1)])
  show idle: "members_invited db db" for db by (rule same) (simp_all add: invitations_settle_refl)
  show "members_invited db db''" if "members_invited db db'" "members_invited db' db''" for db db' db''
    using that invitations_settle_trans was_invited_later unfolding members_invited_def by metis
  show "invitations_settle db db'" if "members_invited db db'" for db db'
    using that by (simp add: members_invited_def)
  show "lasting members_invited invitations_in_order"
    by (auto simp: lasting_def members_invited_def invitations_settle_def)
  show "lasting members_invited (was_invited (tm_user m) (tm_tenant m) (tm_role m))" for m
    by (auto simp: lasting_def members_invited_def intro: was_invited_later)
  show "members_invited db (snd (insert_membership m db))"
    if "was_invited (tm_user m) (tm_tenant m) (tm_role m) db" for db m
    using that by (rule insert_invited)
  show "members_invited db (snd (delete_membership user tenant db))" for db user tenant
    by (rule delete_invited)
  show "members_invited db (snd (remove_owner user tenant db))" for db user tenant
    by (simp add: remove_owner_def delete_invited idle)
  show "members_invited db (snd (insert_invitation i db))" for db i
    by (rule same [OF _ insert_invitation_settles]) (simp add: insert_invitation_def Let_def)
  show "members_invited db (snd (mark_invitation iid status at db))" if "status \<noteq> InvitationPending" for db iid status at
    by (rule same [OF _ mark_invitation_settles [OF that]]) (simp add: mark_invitation_def Let_def)
  show "members_invited db (snd (sweep_invitations now db))" for db now
    by (rule same [OF _ sweep_invitations_settles]) (simp add: sweep_invitations_def)
  show "members_invited db (snd (bump_invitation iid db))" for db iid
    by (rule same [OF _ bump_invitation_settles]) (simp add: bump_invitation_def)
  show "members_invited db db'" if "td_members db' = td_members db" "td_invites db' = td_invites db" for db db'
    by (rule same [OF that(1) invitations_settle_same [OF that(2)]])
qed (auto simp: lasting_def new_member_def intro: accepted_was_invited linked_was_invited)

section \<open>The properties\<close>

text \<open>
  C17. A workspace that has an active owner keeps one, whatever members and invitations are changed at
  once, by whomever and whatever statements fail, as long as nobody is made an owner on the way: demoting and
  removing an owner count the others under a lock, and every other row that goes was read as no owner's.
\<close>

theorem workspace_keeps_owner:
  assumes "(turn team_machine)\<^sup>*\<^sup>* (db, ps) (db', ps')" and "owners_ready db" and "has_owner tenant db"
    and "\<forall>p \<in> set ps. team_operation True (\<lambda>r. r \<noteq> TenantOwner) p"
  shows "has_owner tenant db'"
  using owners.interleaving_stays [OF assms(1,2,4)] assms(3) by (simp add: owners_kept_def)

definition demo_tm :: "string \<Rightarrow> tenant_role \<Rightarrow> team_member" where
  "demo_tm user role = new_member user 1 role None 0"

definition demo_invitation :: "nat \<Rightarrow> string \<Rightarrow> string \<Rightarrow> tenant_role \<Rightarrow> invitation" where
  "demo_invitation iid user token role = (new_invitation 1 user token role None [] 100)\<lparr>iv_id := iid\<rparr>"

definition demo_team :: "team_member list \<Rightarrow> invitation list \<Rightarrow> team_db" where
  "demo_team ms is =
     \<lparr>td_members = ms, td_invites = is,
      td_users = map (\<lambda>u. \<lparr>us_id = u, us_email = u, us_home = 1, us_last = None, us_all = False\<rparr>) [''ann'', ''bob'', ''cal''],
      td_tokens = [(''ann'', False), (''bob'', False)], td_audit = []\<rparr>"

definition by_ann :: team_caller where
  "by_ann = \<lparr>tc_user = ''ann'', tc_role = Some TenantOwner, tc_key = False\<rparr>"

lemmas demo_team_defs = demo_tm_def demo_invitation_def demo_team_def new_member_def new_invitation_def

text \<open>Two owners leave at once while a third user accepts an invitation.\<close>

definition two_owners :: team_db where
  "two_owners = demo_team [demo_tm ''ann'' TenantOwner, demo_tm ''bob'' TenantOwner]
     [demo_invitation 1 ''cal'' [] TenantViewer]"

definition both_leave :: "(team_statement, team_reply, unit) prog list" where
  "both_leave = [forget (remove_member by_ann ''ann'' 1), forget (change_role by_ann ''bob'' 1 TenantAdmin),
     forget (accept by_ann 1 ''cal'' (\<lambda>_. 5))]"

definition both_leave_run :: "team_db \<times> (team_statement, team_reply, unit) prog list" where
  "both_leave_run = schedule team_machine (map (\<lambda>i. (i mod 3, if i = 7 then Refused else Fine)) [0..<24]) (two_owners, both_leave)"

lemma workspace_keeps_owner_witness:
  "has_owner 1 (fst both_leave_run) \<and> map tm_deleted (td_members (fst both_leave_run)) = [True, False, False]"
proof
  have start: "owners_ready two_owners" "has_owner 1 two_owners"
    by (simp_all add: owners_ready_def invitations_in_order_def no_owner_invited_def one_row_each_def has_owner_def
          active_owner_def two_owners_def demo_team_defs)
  have ops: "\<forall>p \<in> set both_leave. team_operation True (\<lambda>r. r \<noteq> TenantOwner) p"
    by (simp add: both_leave_def op_remove op_change op_accept)
  have "(turn team_machine)\<^sup>*\<^sup>* (two_owners, both_leave) (fst both_leave_run, snd both_leave_run)"
    by (simp add: both_leave_run_def schedule_steps)
  from workspace_keeps_owner [OF this start ops] show "has_owner 1 (fst both_leave_run)" .
  show "map tm_deleted (td_members (fst both_leave_run)) = [True, False, False]" by code_simp
qed

text \<open>
  Without that restriction it fails: a demotion that read its member as an administrator writes after
  the member has become the only owner.
\<close>

lemma promotion_races_demotion:
  "let (db, ps) = schedule team_machine (map (\<lambda>i. (i, Fine)) [0, 1, 1, 1, 2, 2, 2, 2, 2, 2, 0, 0])
     (demo_team [demo_tm ''ann'' TenantOwner, demo_tm ''bob'' TenantAdmin] [],
      [change_role by_ann ''bob'' 1 TenantViewer, change_role by_ann ''bob'' 1 TenantOwner, remove_member by_ann ''ann'' 1])
   in map (\<lambda>p. case p of Done r \<Rightarrow> r = Inr () | Call st k \<Rightarrow> False) ps = [True, True, True] \<and> count_active_owners db 1 = 0"
  by code_simp

text \<open>
  C18. An invitation settles once: under any operations on members and invitations at once, its terms never
  change and, once it is accepted, declined, revoked or expired, neither do its status and the time of the answer; and
  at no time does a user have two pending invitations to one workspace.
\<close>

theorem invitation_settles_once:
  assumes "(turn team_machine)\<^sup>*\<^sup>* (db, ps) (db', ps')" and "invitations_in_order db"
    and "\<forall>p \<in> set ps. team_operation True (\<lambda>_. True) p" and "k < length (td_invites db)"
  shows "k < length (td_invites db') \<and> evolves (td_invites db ! k) (td_invites db' ! k) \<and> pending_once (td_invites db')"
proof -
  have g: "invitations_settle db db'" using settling.interleaving_stays [OF assms(1-3)] .
  with assms(2) have "pending_once (td_invites db')" by (simp add: invitations_settle_def invitations_in_order_def)
  moreover from g obtain old new where "td_invites db' = old @ new" "list_all2 evolves (td_invites db) old"
    by (auto simp: invitations_settle_def)
  ultimately show ?thesis using assms(4) by (auto simp: list_all2_conv_all_nth nth_append)
qed

text \<open>The invitee accepts while an owner revokes; both read the invitation as pending.\<close>

definition one_invited :: team_db where
  "one_invited = demo_team [demo_tm ''ann'' TenantOwner] [demo_invitation 1 ''cal'' [] TenantViewer]"

definition answers :: "(team_statement, team_reply, unit) prog list" where
  "answers = [forget (revoke by_ann 1 (\<lambda>_. 5)), forget (accept by_ann 1 ''cal'' (\<lambda>_. 6)),
     forget (invite by_ann 1 ''cal'' TenantAdmin None [] (\<lambda>_. 7) 100)]"

definition answers_run :: "team_db \<times> (team_statement, team_reply, unit) prog list" where
  "answers_run = schedule team_machine (map (\<lambda>i. (i mod 3, Fine)) [0..<24]) (one_invited, answers)"

lemma invitation_settles_once_witness:
  "evolves (demo_invitation 1 ''cal'' [] TenantViewer) (td_invites (fst answers_run) ! 0)
   \<and> iv_status (td_invites (fst answers_run) ! 0) = InvitationRevoked \<and> membership (fst answers_run) ''cal'' 1 = None"
proof (intro conjI)
  have start: "invitations_in_order one_invited" "0 < length (td_invites one_invited)"
    "td_invites one_invited ! 0 = demo_invitation 1 ''cal'' [] TenantViewer"
    by (simp_all add: invitations_in_order_def one_invited_def demo_team_def)
  have ops: "\<forall>p \<in> set answers. team_operation True (\<lambda>_. True) p"
    by (simp add: answers_def op_revoke op_accept op_invite)
  have "(turn team_machine)\<^sup>*\<^sup>* (one_invited, answers) (fst answers_run, snd answers_run)"
    by (simp add: answers_run_def schedule_steps)
  from invitation_settles_once [OF this start(1) ops start(2)] start(3)
  show "evolves (demo_invitation 1 ''cal'' [] TenantViewer) (td_invites (fst answers_run) ! 0)" by simp
  show "iv_status (td_invites (fst answers_run) ! 0) = InvitationRevoked" by code_simp
  show "membership (fst answers_run) ''cal'' 1 = None" by code_simp
qed

text \<open>
  C19. While members are not added and roles not changed outright, whoever is a member with some role was one
  with it before, or there is an invitation to that workspace and that role which the member accepted, or a share
  link to them: no revoked, declined or expired invitation of another and no race of answers lets anybody in.
\<close>

theorem members_were_invited:
  assumes "(turn team_machine)\<^sup>*\<^sup>* (db, ps) (db', ps')" and "invitations_in_order db"
    and "\<forall>p \<in> set ps. team_operation False (\<lambda>_. True) p" and "membership db' user tenant = Some m"
  shows "sits user tenant (tm_role m) db
       \<or> (\<exists>i \<in> set (td_invites db'). iv_tenant i = tenant \<and> iv_role i = tm_role m
            \<and> (iv_invitee i = user \<and> iv_status i = InvitationAccepted \<or> iv_token i \<noteq> []))"
proof -
  have "sits user tenant (tm_role m) db'" using membership_Some [OF assms(4)] by (auto simp: sits_def)
  then show ?thesis using invited.interleaving_stays [OF assms(1-3)]
    by (auto simp: members_invited_def was_invited_def)
qed

text \<open>One user answers an invitation twice at once, another uses a share link.\<close>

definition open_team :: team_db where
  "open_team = demo_team [demo_tm ''ann'' TenantOwner]
     [demo_invitation 1 ''cal'' [] TenantViewer, demo_invitation 2 [] ''t'' TenantContributor]"

definition joins :: "(team_statement, team_reply, unit) prog list" where
  "joins = [forget (accept by_ann 1 ''cal'' (\<lambda>_. 5)), forget (decline by_ann 1 ''cal'' (\<lambda>_. 6)),
     forget (accept_by_token by_ann ''t'' ''bob'' (\<lambda>_. 7))]"

definition joins_run :: "team_db \<times> (team_statement, team_reply, unit) prog list" where
  "joins_run = schedule team_machine (map (\<lambda>i. (i mod 3, Fine)) [0..<15]) (open_team, joins)"

lemma members_were_invited_witness:
  "(\<exists>i \<in> set (td_invites (fst joins_run)). iv_tenant i = 1 \<and> iv_role i = TenantViewer
      \<and> (iv_invitee i = ''cal'' \<and> iv_status i = InvitationAccepted \<or> iv_token i \<noteq> []))
   \<and> map (\<lambda>m. (tm_user m, tm_role m)) (td_members (fst joins_run))
      = [(''ann'', TenantOwner), (''bob'', TenantContributor), (''cal'', TenantViewer)]"
proof
  have start: "invitations_in_order open_team" "\<not> sits ''cal'' 1 TenantViewer open_team"
    by (simp_all add: invitations_in_order_def open_team_def demo_team_defs pending_for_def sits_def holds_membership_def)
  have ops: "\<forall>p \<in> set joins. team_operation False (\<lambda>_. True) p"
    by (simp add: joins_def op_accept op_decline op_token)
  have steps: "(turn team_machine)\<^sup>*\<^sup>* (open_team, joins) (fst joins_run, snd joins_run)"
    by (simp add: joins_run_def schedule_steps)
  have rows: "td_members (fst joins_run) =
      [demo_tm ''ann'' TenantOwner, (demo_tm ''bob'' TenantContributor)\<lparr>tm_joined := 7\<rparr>, (demo_tm ''cal'' TenantViewer)\<lparr>tm_joined := 5\<rparr>]"
    by code_simp
  then have "membership (fst joins_run) ''cal'' 1 = Some ((demo_tm ''cal'' TenantViewer)\<lparr>tm_joined := 5\<rparr>)"
    by (simp add: membership_def holds_membership_def demo_tm_def new_member_def)
  from members_were_invited [OF steps start(1) ops this]
  have "sits ''cal'' 1 TenantViewer open_team \<or> (\<exists>i \<in> set (td_invites (fst joins_run)). iv_tenant i = 1
      \<and> iv_role i = TenantViewer \<and> (iv_invitee i = ''cal'' \<and> iv_status i = InvitationAccepted \<or> iv_token i \<noteq> []))"
    unfolding demo_tm_def new_member_def team_member.simps .
  with start(2) show "\<exists>i \<in> set (td_invites (fst joins_run)). iv_tenant i = 1 \<and> iv_role i = TenantViewer
      \<and> (iv_invitee i = ''cal'' \<and> iv_status i = InvitationAccepted \<or> iv_token i \<noteq> [])"
    by blast
  show "map (\<lambda>m. (tm_user m, tm_role m)) (td_members (fst joins_run))
      = [(''ann'', TenantOwner), (''bob'', TenantContributor), (''cal'', TenantViewer)]"
    by (simp add: rows demo_tm_def new_member_def)
qed

section \<open>Accepting, alone\<close>

lemma find_invitation:
  assumes "distinct (map iv_id is)" and "i \<in> set is"
  shows "List.find (\<lambda>j. iv_id j = iv_id i) is = Some i"
  using assms by (induction "is") (auto simp: rev_image_eqI)

lemma sweep_finds:
  assumes "invitations_in_order db" and "i \<in> set (td_invites db)"
  shows "List.find (\<lambda>j. iv_id j = iv_id i) (td_invites (snd (sweep_invitations now db)))
       = Some (if overdue now i then settle_invitation InvitationExpiredStatus now i else i)"
proof -
  let ?h = "\<lambda>i. if overdue now i then settle_invitation InvitationExpiredStatus now i else i"
  have id: "iv_id (?h i) = iv_id i" for i by (simp add: settle_invitation_def)
  then have ids: "map iv_id (map ?h is) = map iv_id is" for "is" by (induction "is") simp_all
  have "distinct (map iv_id (map ?h (td_invites db)))"
    unfolding ids using assms(1) by (simp add: invitations_in_order_def)
  moreover have "?h i \<in> set (map ?h (td_invites db))" using assms(2) by simp
  ultimately have "List.find (\<lambda>j. iv_id j = iv_id (?h i)) (map ?h (td_invites db)) = Some (?h i)" by (rule find_invitation)
  then show ?thesis unfolding id by (simp add: sweep_invitations_def)
qed

lemma membership_unchanged:
  "membership (snd (sweep_invitations now db)) user tenant = membership db user tenant"
  "membership (snd (mark_invitation iid status at db)) user tenant = membership db user tenant"
  "membership (db\<lparr>td_audit := es\<rparr>) user tenant = membership db user tenant"
  by (simp_all add: membership_def sweep_invitations_def mark_invitation_def Let_def)

lemma members_unchanged [simp]:
  "td_members (snd (sweep_invitations now db)) = td_members db"
  "td_members (snd (mark_invitation iid status at db)) = td_members db"
  by (simp_all add: sweep_invitations_def mark_invitation_def Let_def)

lemma find_snoc:
  "List.find P (xs @ [x]) = (case List.find P xs of Some y \<Rightarrow> Some y | None \<Rightarrow> if P x then Some x else None)"
  by (induction xs) simp_all

lemma membership_extended:
  "membership (db\<lparr>td_members := td_members db' @ [new_member user tenant role by now]\<rparr>) user tenant
     = (case membership db' user tenant of Some m \<Rightarrow> Some m | None \<Rightarrow> Some (new_member user tenant role by now))"
proof -
  have "holds_membership user tenant (new_member user tenant role by now)" by (simp add: holds_membership_def new_member_def)
  then show ?thesis by (simp add: membership_def find_snoc)
qed

lemma new_member_fields [simp]:
  "tm_role (new_member user tenant role by now) = role" "tm_status (new_member user tenant role by now) = MemberActive"
  by (simp_all add: new_member_def)

lemmas fine_run = team_call_def best_effort_def get_membership_def create_membership_def emit_audit_def
  audit_invitation_def get_invitation_def mark_if_pending_def sweep_expired_def sweep_invites_def

lemma add_member_fine:
  "run team_machine (add_member c user tenant role invited_by now) [] db =
     (let m = new_member user tenant role invited_by now in
      if \<not> tenant_role_valid role then (Inl InvalidTenantRole, db)
      else if role = TenantOwner \<and> tc_key c then (Inl KeyCannotAssignOwner, db)
      else if membership db user tenant \<noteq> None then (Inl MembershipAlreadyExists, db)
      else (Inr m, db\<lparr>td_members := td_members db @ [m],
              td_audit := td_audit db @ [\<lparr>au_tenant = tenant, au_actor = tc_user c, au_role = audit_actor_role c,
                au_action = MemberAdded, au_target = None, au_user = user, au_details = NoDetails\<rparr>]\<rparr>))"
  by (simp add: add_member_def may_assign_def fine_run Let_def insert_membership_def new_member_def member_defaults_def)



text \<open>
  The invitation is marked first and the member added after: when the second statement is refused, the invitation is
  accepted and nobody has joined, and the invitee cannot accept again.
\<close>

lemma accepted_without_membership:
  "let (r, db) = run team_machine (accept by_ann 1 ''cal'' (\<lambda>_. 5)) [Fine, Fine, Fine, Fine, Refused] one_invited
   in r = Inl TeamDatabase \<and> map iv_status (td_invites db) = [InvitationAccepted] \<and> membership db ''cal'' 1 = None
     \<and> fst (run team_machine (accept by_ann 1 ''cal'' (\<lambda>_. 6)) [] db) = Inl InvitationNotPending"
  by code_simp

text \<open>Two invitations of one user at once: the index refuses the second, and the service does not say why.\<close>

lemma racing_invitations:
  "let (db, ps) = schedule team_machine (map (\<lambda>i. (i mod 2, Fine)) [0..<8])
     (demo_team [demo_tm ''ann'' TenantOwner] [],
      map (\<lambda>m. invite by_ann 1 ''cal'' TenantViewer None m (\<lambda>_. 5) 100) [''a'', ''b''])
   in map (\<lambda>p. case p of Done (Inl e) \<Rightarrow> Some e | _ \<Rightarrow> None) ps = [None, Some TeamDuplicate] \<and> length (td_invites db) = 1"
  by code_simp

text \<open>A caller without a role in the context is recorded as a viewer.\<close>

lemma absent_role_audited_as_viewer: "tc_role c = None \<Longrightarrow> audit_actor_role c = TenantViewer"
  by (simp add: audit_actor_role_def)

end
