(* ===== verification/Spec2Isabelle.thy ===== *)
theory Spec2Isabelle
  imports McpPolicy RoleGates AccessFacts PromptReaper ApprovalAnswer AdmissionRegistry Allocation Limiter RateLimit StreamManager Compaction IpClass ChunkMerge ChunkStrategy
    JsonField HandleStream TeamFacts
begin

text \<open>
  A verification development of WeKnora, a retrieval-augmented knowledge base server in Go. Files
  are named relative to src/internal/.

  The program. Documents are parsed, cut into chunks (infrastructure/chunker) and indexed; a
  question is answered by an agent loop (agent/) that calls a language model and tools. The loop
  keeps its conversation within the model's window (agent/compaction), asks before it acts
  (agent/policy, agent/approval, types/agent_grant.go), runs its tools on shared machines
  (sandbox/allocation, sandbox/admission, sandbox/workspace), decodes what the model streams
  (models/api, modelcontext), throttles its calls (models/limiter,
  ratelimit) and tells clients what happens through event streams (stream). Workspaces form
  organizations and share knowledge bases and agents in them (application/service/organization.go,
  kbshare.go, agent_share.go), people belong to workspaces as members and are invited to them
  (tenant_member.go, tenant_invitation.go); every read and write of a knowledge base is resolved against
  ownership and shares (application/access, middleware). Outbound requests are
  checked against address classes (ipclass), and bodies of neighbouring chunks are joined again
  for the answer (searchutil/chunkmerge.go).

  Shared ground.

    \<^item> Prelude: Go's integer division, byte strings, runes and association lists as Go maps.
    \<^item> GoPath: package path.
    \<^item> GoStrings: package strings over bytes.
    \<^item> RuneText: texts as lists of runes.
    \<^item> GoRegexp: the part of package regexp the chunker uses, leftmost-first with greedy and
      lazy repetition.
    \<^item> Programs: services over a database as programs over atomic statements whose branches are
      the replies, their sequential runs under faults, their interleavings, and two logics for them: invariants
      that every statement keeps, and a relation that every program stays within while it relies on the others
      to do the same (the locale \<open>protocol\<close>).

  Permission.

    \<^item> Policy: risks, verdicts, ceilings (agent/policy/policy.go, types/assistant.go).
    \<^item> Grants: remembered approvals; the repository is the locale
      \<open>grant_store\<close>, interpreted on the model of its queries, and the gate's lookup
      and remembering are proved over the locale.

    \<^item> McpPolicy: stored policies of MCP tools, the conditional update that keeps the declared
      risk of a service, the risk of a call and the directory of enabled tools (types/mcp.go,
      application/repository/mcp_tool_approval_repository.go,
      application/service/mcp_tool_approval_service.go, agent/approval/mcp_risk.go and
      tool_policy.go). Reads and writes may fail, and calls of several replicas interleave.

  Access to knowledge bases.

    \<^item> AccessRoles: roles of users and workspaces, callers, API key scopes, what a shared agent
      exposes (types/tenant_member.go, organization.go, caller.go, tenant_api_key.go,
      shared_agent_access.go).
    \<^item> ShareDb: the tables of organizations and shares, the statements of their repositories with
      unique indexes and GORM's defaults.
    \<^item> Organizations: application/service/organization.go, each operation a program.
    \<^item> Sharing: application/service/kbshare.go, agent_share.go, agent_share_scope.go.
    \<^item> Access: resolving a knowledge base, grants carried in contexts, checks of reads, writes and
      transfers (application/access, application/service/knowledgebase_access.go).
    \<^item> RoleGates: ownership and role gates (application/access/ownership.go, superuser.go,
      middleware/rbac.go, access.go).
    \<^item> ShareRun: runs under faults, interleavings of operations statement by statement, and the
      locale \<open>kept_by_services\<close>: what an invariant must satisfy so that every operation keeps it.
    \<^item> ShareFacts: its three interpretations (the owning workspace, the member limit, valid roles).
    \<^item> ShareAccess, AccessFacts: the permission a workspace has, revocation, who changes
      permissions, and that what is resolved, carried and used for a write was earned.

  Members of a workspace.

    \<^item> TeamDb: memberships, invitations, users, sessions and the audit log, with the statements on them
      (types/tenant_member.go, tenant_invitation.go, application/repository/tenant_member.go,
      tenant_invitation.go, user.go). Creating an invitation is two statements, since its
      transaction locks nothing; demoting and removing an owner is one, since it locks the other owners.
    \<^item> Team: application/service/tenant_member.go. TeamInvites: tenant_invitation.go.
    \<^item> TeamRun: how invitations evolve, and the locale \<open>team_protocol\<close>: what a relation between
      states must satisfy, given what a statement's caller has read.
    \<^item> TeamProtocol: every operation stays within such a relation, so every interleaving does.
    \<^item> TeamFacts: its three interpretations (invitations settle, owners stay, members were invited) and the
      properties.

  Questions to the user.

    \<^item> PromptStore: the prompt rows, the compare-and-set transition and the saved runs, in
      memory and in a database that may refuse a statement or lose its reply
      (types/agent_prompt.go, agent/hitl/store.go,
      application/repository/agent_prompt_repository.go). The locale
      \<open>prompt_store\<close> states what the broker relies on and is interpreted on both.
    \<^item> PromptBroker: waiting, claiming, reaping and answering (agent/hitl/broker.go,
      reaper.go, delegation.go), each operation over any store.
    \<^item> PromptLife: replicas as a step relation over single store calls, with its invariants
      by rule induction inside the locale.
    \<^item> PromptWait: what one waiter and one answering user are told; the locale
      \<open>reliable_store\<close> adds that statements run.
    \<^item> PromptReaper: what a sweep touches, and that it leaves nothing behind.
    \<^item> ApprovalJson: reading and writing the flat JSON objects of an answer as encoding/json does.
    \<^item> ApprovalGate: approvals of tools, built-in tools, host commands and authorizations, their
      resumption and their answers (agent/approval/gate.go, grants.go), over any prompt store and
      grant store.
    \<^item> ApprovalFlow: what an approval proves, whatever the stores and the other replicas do.
    \<^item> ApprovalAnswer: an answer, written by one replica and read by another.

  Machines.

    \<^item> Admission and AdmissionRegistry: signals, leases and barriers, with the registry as a
      state and its operations as steps of a run.
    \<^item> Workspace: the path rules of the file tools.
    \<^item> Allocation: which machine a session gets, and the hashed machine identity.

  Throttling.

    \<^item> Limiter: the counting semaphore of the concurrency governor as an inductive step
      relation over critical sections; invariants are proved by rule induction over reachable
      states.
    \<^item> RateLimit: the sliding window, refined from the rule that remembers every hit.

  Streams.

    \<^item> StreamManager: every operation of the in-memory manager; readers with resumable
      offsets are the locale \<open>resumable_log\<close>, interpreted for events and for steer
      events.

  Conversation.

    \<^item> CompactText: transcript, file-operation block, raw archive.
    \<^item> Compaction: settings, cut point, preparation, retry and fallback, application.

  Streamed output.

    \<^item> JsonField: a string field read out of tool arguments while they are streamed
      (models/api/json_field_extractor.go).
    \<^item> ModelHandles: the table of short handles a model sees (modelcontext/handle_table.go).
    \<^item> HandleStream: the withholding of suffixes that may become handles (modelcontext/stream.go); the
      locale \<open>suffix_hold\<close> states what makes cuts invisible and is interpreted on the filter for
      unresolved handles.

  Addresses and bodies.

    \<^item> IpClass: classification of address bytes.
    \<^item> ChunkMerge: joining bodies.

  Chunking.

    \<^item> HeaderTracker: the active table header.
    \<^item> TextUnits: protected spans and the units a text is cut into.
    \<^item> Splitter: merging units into chunks with overlap, and the two-level split.
    \<^item> DocProfile: patterns, fences and the counters that choose tiers.
    \<^item> Headings, Heuristics: the two tiers above the splitter.
    \<^item> ChunkStrategy: defaults, validation and the chain of tiers.

  What the lemmas show. Each theory proves the shape of its data as an invariant of its operations
  (distinct keys and rows, registry and semaphore invariants, tiled units, covering chunks) and
  then its properties, which stand behind a text block with their number. For the chunker the
  chain is: units tile the text, merging keeps a covering of it, each tier keeps
  \<open>good_split\<close> (every chunk holds its source, every rune is covered, white space
  aside), and so does every choice of the strategy and both levels of the two-level split.

  Conventions. A struct is a record, a closed set of string constants a datatype or a named
  string, a map an association list with distinct keys or a function, a failing call a sum. Locks
  make operations atomic, so concurrency is the order of operations, or of critical sections where
  a call blocks in between. Machine integers are \<open>int\<close>, since lengths and limits stay
  far below \<open>2 ^ 63\<close>; addresses are 8-bit words. Where the code works on bytes and
  cuts at byte offsets, strings are byte lists; where it works on runes, and where the byte
  offsets of a valid text correspond to rune offsets, texts are lists of runes.

  Bounds and termination. Loops are structural, or terminate by a measure (the forced split of long
  text advances by at least one rune). The only bound is in GoRegexp: an open repetition runs at
  most as many rounds as runes are left, which is enough because every round must advance. The
  chunker theorems assume a chunk size of at most 7500 runes, the code's own absolute limit.

  Parameters. SHA-256, the tokenizer and the float scaling of estimates, clocks, the decoding of
  nested JSON documents (flat ones are modelled), the summarizer's answers and the answers of Redis scripts are arguments of the definitions that
  use them.

  Not modelled. Database engines, vector stores, Redis scripts, HTTP handlers, model and data source
  clients, the front ends, and the services that only connect them: they contain requests to other
  systems and no rules of their own. Of access control, authentication, the
  authorization of stored files and searching organizations and members by text are left out, as are the
  audit entries of organizations and the administration of users.
  The agent loop and the expansion of streamed citations are driven by channels, contexts and model
  output throughout; the gate's questions, page actions and secure forms add JSON schemas and
  encryption to the prompt broker, which is modelled.
\<close>

end
